(* ===== verification/Prelude.thy ===== *)
theory Prelude
  imports Main "HOL-Library.Word"
begin

text \<open>
  Shared vocabulary of the development: the C integer types as words, byte strings with
  little-endian field access (the structures that the firmware casts onto raw buffers are
  byte lists here, read and written through offsets), and the generic lemmas on segments that
  the component theories use.  The BL702 is a little-endian 32-bit RISC-V core, so
  \<open>uint32_t\<close>, \<open>size_t\<close> and pointers are \<open>32 word\<close>.
\<close>

unbundle bit_operations_syntax

type_synonym u8 = "8 word"
type_synonym u16 = "16 word"
type_synonym u32 = "32 word"
type_synonym u64 = "64 word"
type_synonym i32 = "32 word"
type_synonym bytes = "8 word list"

text \<open>
  Rule collections: \<open>frame\<close> holds facts saying which part of a state an operation
  leaves alone, \<open>layout\<close> the read-over-write facts of byte strings.
\<close>

named_theorems frame
named_theorems layout

section \<open>Segments of byte strings\<close>

definition seg :: "'a list \<Rightarrow> nat \<Rightarrow> nat \<Rightarrow> 'a list" where
  "seg s off n = take n (drop off s)"

text \<open>\<open>patch s off bs\<close> is \<open>memcpy(s + off, bs, length bs)\<close> on an object that is long enough.\<close>

definition patch :: "'a list \<Rightarrow> nat \<Rightarrow> 'a list \<Rightarrow> 'a list" where
  "patch s off bs = take off s @ bs @ drop (off + length bs) s"

lemma length_seg [simp]: "off + n \<le> length s \<Longrightarrow> length (seg s off n) = n"
  by (simp add: seg_def)

lemma length_patch [simp]:
  "off + length bs \<le> length s \<Longrightarrow> length (patch s off bs) = length s"
  by (simp add: patch_def)

lemma seg_0 [simp]: "seg s off 0 = []"
  by (simp add: seg_def)

lemma seg_all [simp]: "seg s 0 (length s) = s"
  by (simp add: seg_def)

lemma nth_seg [simp]: "i < n \<Longrightarrow> off + n \<le> length s \<Longrightarrow> seg s off n ! i = s ! (off + i)"
  by (simp add: seg_def)

lemma nth_patch:
  assumes "off + length bs \<le> length s" and "i < length s"
  shows "patch s off bs ! i =
    (if i < off then s ! i else if i < off + length bs then bs ! (i - off) else s ! i)"
  using assms by (auto simp: patch_def nth_append)

lemma seg_patch_same [layout]:
  "off + length bs \<le> length s \<Longrightarrow> n = length bs \<Longrightarrow> seg (patch s off bs) off n = bs"
  by (simp add: seg_def patch_def)

lemma seg_patch_other [layout]:
  assumes "off + length bs \<le> length s" and "p + n \<le> off \<or> off + length bs \<le> p"
    and "p + n \<le> length s"
  shows "seg (patch s off bs) p n = seg s p n"
  using assms by (intro nth_equalityI) (auto simp: nth_patch)

lemma seg_seg: "off + n \<le> m \<Longrightarrow> seg (seg s p m) off n = seg s (p + off) n"
  by (simp add: seg_def drop_take add.commute min_def)

lemma seg_split: "seg s off (m + n) = seg s off m @ seg s (off + m) n"
  by (simp add: seg_def take_add add.commute)

lemma patch_patch_same:
  "off + length bs \<le> length s \<Longrightarrow> length cs = length bs \<Longrightarrow>
   patch (patch s off bs) off cs = patch s off cs"
  by (simp add: patch_def)

lemma patch_seg_id [simp]: "off + n \<le> length s \<Longrightarrow> patch s off (seg s off n) = s"
  by (rule nth_equalityI) (auto simp: nth_patch)

section \<open>Little-endian fields\<close>

definition le16 :: "u16 \<Rightarrow> bytes" where
  "le16 w = [ucast w, ucast (drop_bit 8 w)]"

definition le32 :: "u32 \<Rightarrow> bytes" where
  "le32 w = [ucast w, ucast (drop_bit 8 w), ucast (drop_bit 16 w), ucast (drop_bit 24 w)]"

definition rd8 :: "bytes \<Rightarrow> nat \<Rightarrow> u8" where
  "rd8 s off = s ! off"

definition rd16 :: "bytes \<Rightarrow> nat \<Rightarrow> u16" where
  "rd16 s off = ucast (s ! off) OR push_bit 8 (ucast (s ! (off + 1)))"

definition rd32 :: "bytes \<Rightarrow> nat \<Rightarrow> u32" where
  "rd32 s off = ucast (s ! off) OR push_bit 8 (ucast (s ! (off + 1)))
     OR push_bit 16 (ucast (s ! (off + 2))) OR push_bit 24 (ucast (s ! (off + 3)))"

definition wr8 :: "bytes \<Rightarrow> nat \<Rightarrow> u8 \<Rightarrow> bytes" where
  "wr8 s off v = patch s off [v]"

definition wr16 :: "bytes \<Rightarrow> nat \<Rightarrow> u16 \<Rightarrow> bytes" where
  "wr16 s off v = patch s off (le16 v)"

definition wr32 :: "bytes \<Rightarrow> nat \<Rightarrow> u32 \<Rightarrow> bytes" where
  "wr32 s off v = patch s off (le32 v)"

lemma length_le16 [simp]: "length (le16 w) = 2"
  by (simp add: le16_def)

lemma length_le32 [simp]: "length (le32 w) = 4"
  by (simp add: le32_def)

lemma length_wr [simp]:
  "off + 1 \<le> length s \<Longrightarrow> length (wr8 s off v8) = length s"
  "off + 2 \<le> length s \<Longrightarrow> length (wr16 s off v16) = length s"
  "off + 4 \<le> length s \<Longrightarrow> length (wr32 s off v32) = length s"
  by (simp_all add: wr8_def wr16_def wr32_def)

text \<open>A field is determined by its seg, so fields outside a written range are unchanged.\<close>

lemma rd8_seg: "off + 1 \<le> length s \<Longrightarrow> rd8 s off = hd (seg s off 1)"
  by (simp add: rd8_def seg_def hd_drop_conv_nth)

lemma rd16_seg: "off + 2 \<le> length s \<Longrightarrow> rd16 s off = rd16 (seg s off 2) 0"
  by (simp add: rd16_def)

lemma rd32_seg: "off + 4 \<le> length s \<Longrightarrow> rd32 s off = rd32 (seg s off 4) 0"
  by (simp add: rd32_def)

lemma rd16_le16 [simp]: "rd16 (le16 w) 0 = w"
  by (rule bit_word_eqI)
    (auto simp: rd16_def le16_def bit_simps)

lemma rd32_le32 [simp]: "rd32 (le32 w) 0 = w"
proof (rule bit_word_eqI)
  fix n assume "n < LENGTH(32)"
  then consider "n < 8" | "8 \<le> n \<and> n < 16" | "16 \<le> n \<and> n < 24" | "24 \<le> n \<and> n < 32"
    by fastforce
  then show "bit (rd32 (le32 w) 0) n = bit w n"
    by cases (auto simp: rd32_def le32_def bit_simps)
qed

lemma le32_rd32: "length s = 4 \<Longrightarrow> le32 (rd32 s 0) = s"
proof -
  assume "length s = 4"
  then obtain a b c d where s: "s = [a, b, c, d]"
    by (auto simp: length_Suc_conv eval_nat_numeral)
  have "ucast (rd32 [a, b, c, d] 0) = a" "ucast (drop_bit 8 (rd32 [a, b, c, d] 0)) = b"
    "ucast (drop_bit 16 (rd32 [a, b, c, d] 0)) = c" "ucast (drop_bit 24 (rd32 [a, b, c, d] 0)) = d"
    by (rule bit_word_eqI; auto simp: rd32_def bit_simps dest: bit_imp_le_length)+
  then show ?thesis
    unfolding s le32_def by simp
qed

lemma le32_inj: "le32 v = le32 w \<longleftrightarrow> v = w"
  by (metis rd32_le32)

lemma rd_wr_same [layout]:
  "off + 1 \<le> length s \<Longrightarrow> rd8 (wr8 s off v8) off = v8"
  "off + 2 \<le> length s \<Longrightarrow> rd16 (wr16 s off v16) off = v16"
  "off + 4 \<le> length s \<Longrightarrow> rd32 (wr32 s off v32) off = v32"
  by (simp_all add: rd8_seg rd16_seg rd32_seg wr8_def wr16_def wr32_def seg_patch_same)

lemma rd_patch_same [layout]:
  "off + 1 \<le> length s \<Longrightarrow> rd8 (patch s off [v8]) off = v8"
  "off + 2 \<le> length s \<Longrightarrow> rd16 (patch s off (le16 v16)) off = v16"
  "off + 4 \<le> length s \<Longrightarrow> rd32 (patch s off (le32 v32)) off = v32"
  by (simp_all add: rd8_seg rd16_seg rd32_seg seg_patch_same)

lemma rd_patch_other [layout]:
  assumes "off + length bs \<le> length s"
  shows "\<lbrakk>p + 1 \<le> length s; p + 1 \<le> off \<or> off + length bs \<le> p\<rbrakk> \<Longrightarrow> rd8 (patch s off bs) p = rd8 s p"
    and "\<lbrakk>p + 2 \<le> length s; p + 2 \<le> off \<or> off + length bs \<le> p\<rbrakk> \<Longrightarrow> rd16 (patch s off bs) p = rd16 s p"
    and "\<lbrakk>p + 4 \<le> length s; p + 4 \<le> off \<or> off + length bs \<le> p\<rbrakk> \<Longrightarrow> rd32 (patch s off bs) p = rd32 s p"
  using assms by (simp_all add: rd8_seg rd16_seg rd32_seg seg_patch_other)

lemma wr_patch [layout]:
  "wr8 s off v8 = patch s off [v8]" "wr16 s off v16 = patch s off (le16 v16)"
  "wr32 s off v32 = patch s off (le32 v32)"
  by (simp_all add: wr8_def wr16_def wr32_def)

section \<open>Words\<close>

lemma word_and_1_cases: "(x :: 'a::len word) AND 1 = 0 \<or> x AND 1 = 1"
  by (simp add: and_one_eq mod2_eq_if)

lemma and_0xFF_u8: "(x :: u8) AND 0xFF = x"
proof -
  have "(0xFF :: u8) = - 1" by simp
  then show ?thesis by (simp only: and.right_neutral)
qed

lemma unat_sub_le: "(b :: 'a::len word) \<le> a \<Longrightarrow> unat (a - b) = unat a - unat b"
  by (rule unat_sub)

lemma unat_add_lt:
  "unat (a :: 'a::len word) + unat b < 2 ^ LENGTH('a) \<Longrightarrow> unat (a + b) = unat a + unat b"
  by (simp add: unat_word_ariths)

lemma word_less_Suc: "(x :: 'a::len word) \<noteq> - 1 \<Longrightarrow> x < x + 1"
proof -
  assume x: "x \<noteq> - 1"
  have "unat x < 2 ^ LENGTH('a)" by (rule unsigned_less)
  moreover have "unat x \<noteq> 2 ^ LENGTH('a) - 1"
    using x by (metis unat_word_ariths(2) word_unat_eq_iff unsigned_minus_1_eq_mask mask_eq_exp_minus_1)
  ultimately have "unat x + 1 < 2 ^ LENGTH('a)" by linarith
  then show ?thesis by (simp add: word_less_nat_alt unat_word_ariths)
qed

lemma word_eq_unat: "(a :: 'a::len word) = b \<longleftrightarrow> unat a = unat b"
  by (rule word_unat_eq_iff)

lemma ucast_u8_inj: "(ucast (x :: u8) :: u32) = ucast y \<longleftrightarrow> x = y"
proof
  assume eq: "(ucast x :: u32) = ucast y"
  show "x = y"
  proof (rule bit_word_eqI)
    fix n assume "n < LENGTH(8)"
    with eq show "bit x n = bit y n" by (auto simp: bit_simps dest: arg_cong [where f = "\<lambda>w. bit w n"])
  qed
qed simp

lemma unat_and_mask: "unat ((x :: 'a::len word) AND mask n) = unat x mod 2 ^ n"
  by (metis take_bit_eq_mask take_bit_eq_mod unsigned_take_bit_eq)

lemma unat_and_not_mask: "unat ((x :: 'a::len word) AND NOT (mask n)) = unat x div 2 ^ n * 2 ^ n"
proof -
  have "x - (x AND mask n) = x AND NOT (x AND mask n)"
    by (rule disjunctive_diff) (simp add: bit_simps)
  also have "\<dots> = x AND NOT (mask n)"
    by (rule bit_word_eqI) (auto simp: bit_simps)
  finally have "x AND NOT (mask n) = x - (x AND mask n)" ..
  moreover have "x AND mask n \<le> x" by (rule word_and_le2)
  ultimately show ?thesis by (simp add: unat_sub unat_and_mask minus_mod_eq_div_mult)
qed


lemma take_bit_less_id: "(a :: 'a::len word) < 2 ^ n \<Longrightarrow> n < LENGTH('a) \<Longrightarrow> take_bit n a = a"
proof -
  assume a: "a < 2 ^ n" and n: "n < LENGTH('a)"
  have "unat ((2 :: 'a word) ^ n) = 2 ^ n"
    using n unat_of_nat [of "2 ^ n", where 'a = 'a] by (simp add: power_strict_increasing)
  with a show ?thesis
    by (simp add: word_unat_eq_iff unsigned_take_bit_eq word_less_nat_alt take_bit_nat_eq_self)
qed

section \<open>C strings\<close>

text \<open>\<open>strlen\<close> and \<open>strncmp(a, b, n) == 0\<close> on the bytes of an array.\<close>

definition c_strlen :: "bytes \<Rightarrow> nat" where
  "c_strlen bs = length (takeWhile (\<lambda>c. c \<noteq> 0) bs)"

fun strncmp_eq :: "bytes \<Rightarrow> bytes \<Rightarrow> nat \<Rightarrow> bool" where
  "strncmp_eq (a # as) (b # bs) (Suc n) = (a = b \<and> (a = 0 \<or> strncmp_eq as bs n))"
| "strncmp_eq as bs n = (n = 0)"

end
