(* ===== verification/SoftCrc.thy ===== *)
theory SoftCrc
  imports Prelude
begin

text \<open>
  \<open>common/soft_crc/softcrc.c\<close>: the table-driven CRC-16, the table-driven CRC-32 and the
  bitwise CRC-32 that guards partition tables, boot headers, keys and signatures.  A
  \<open>(dataIn, len)\<close> argument pair is the byte list it denotes.  Proved here: the table
  routines compute the bitwise ones, a CRC can be continued over split input, the CRC step
  is injective, and therefore any change confined to one byte is detected.
\<close>

section \<open>The tables and the loops\<close>

definition chCRCHTalbe :: "u8 list" where
  "chCRCHTalbe = [
    0x00, 0xc1, 0x81, 0x40, 0x01, 0xc0, 0x80, 0x41, 0x01, 0xc0, 0x80, 0x41, 0x00, 0xc1, 0x81,
    0x40, 0x01, 0xc0, 0x80, 0x41, 0x00, 0xc1, 0x81, 0x40, 0x00, 0xc1, 0x81, 0x40, 0x01, 0xc0,
    0x80, 0x41, 0x01, 0xc0, 0x80, 0x41, 0x00, 0xc1, 0x81, 0x40, 0x00, 0xc1, 0x81, 0x40, 0x01,
    0xc0, 0x80, 0x41, 0x00, 0xc1, 0x81, 0x40, 0x01, 0xc0, 0x80, 0x41, 0x01, 0xc0, 0x80, 0x41,
    0x00, 0xc1, 0x81, 0x40, 0x01, 0xc0, 0x80, 0x41, 0x00, 0xc1, 0x81, 0x40, 0x00, 0xc1, 0x81,
    0x40, 0x01, 0xc0, 0x80, 0x41, 0x00, 0xc1, 0x81, 0x40, 0x01, 0xc0, 0x80, 0x41, 0x01, 0xc0,
    0x80, 0x41, 0x00, 0xc1, 0x81, 0x40, 0x00, 0xc1, 0x81, 0x40, 0x01, 0xc0, 0x80, 0x41, 0x01,
    0xc0, 0x80, 0x41, 0x00, 0xc1, 0x81, 0x40, 0x01, 0xc0, 0x80, 0x41, 0x00, 0xc1, 0x81, 0x40,
    0x00, 0xc1, 0x81, 0x40, 0x01, 0xc0, 0x80, 0x41, 0x01, 0xc0, 0x80, 0x41, 0x00, 0xc1, 0x81,
    0x40, 0x00, 0xc1, 0x81, 0x40, 0x01, 0xc0, 0x80, 0x41, 0x00, 0xc1, 0x81, 0x40, 0x01, 0xc0,
    0x80, 0x41, 0x01, 0xc0, 0x80, 0x41, 0x00, 0xc1, 0x81, 0x40, 0x00, 0xc1, 0x81, 0x40, 0x01,
    0xc0, 0x80, 0x41, 0x01, 0xc0, 0x80, 0x41, 0x00, 0xc1, 0x81, 0x40, 0x01, 0xc0, 0x80, 0x41,
    0x00, 0xc1, 0x81, 0x40, 0x00, 0xc1, 0x81, 0x40, 0x01, 0xc0, 0x80, 0x41, 0x00, 0xc1, 0x81,
    0x40, 0x01, 0xc0, 0x80, 0x41, 0x01, 0xc0, 0x80, 0x41, 0x00, 0xc1, 0x81, 0x40, 0x01, 0xc0,
    0x80, 0x41, 0x00, 0xc1, 0x81, 0x40, 0x00, 0xc1, 0x81, 0x40, 0x01, 0xc0, 0x80, 0x41, 0x01,
    0xc0, 0x80, 0x41, 0x00, 0xc1, 0x81, 0x40, 0x00, 0xc1, 0x81, 0x40, 0x01, 0xc0, 0x80, 0x41,
    0x00, 0xc1, 0x81, 0x40, 0x01, 0xc0, 0x80, 0x41, 0x01, 0xc0, 0x80, 0x41, 0x00, 0xc1, 0x81,
    0x40]"

definition chCRCLTalbe :: "u8 list" where
  "chCRCLTalbe = [
    0x00, 0xc0, 0xc1, 0x01, 0xc3, 0x03, 0x02, 0xc2, 0xc6, 0x06, 0x07, 0xc7, 0x05, 0xc5, 0xc4,
    0x04, 0xcc, 0x0c, 0x0d, 0xcd, 0x0f, 0xcf, 0xce, 0x0e, 0x0a, 0xca, 0xcb, 0x0b, 0xc9, 0x09,
    0x08, 0xc8, 0xd8, 0x18, 0x19, 0xd9, 0x1b, 0xdb, 0xda, 0x1a, 0x1e, 0xde, 0xdf, 0x1f, 0xdd,
    0x1d, 0x1c, 0xdc, 0x14, 0xd4, 0xd5, 0x15, 0xd7, 0x17, 0x16, 0xd6, 0xd2, 0x12, 0x13, 0xd3,
    0x11, 0xd1, 0xd0, 0x10, 0xf0, 0x30, 0x31, 0xf1, 0x33, 0xf3, 0xf2, 0x32, 0x36, 0xf6, 0xf7,
    0x37, 0xf5, 0x35, 0x34, 0xf4, 0x3c, 0xfc, 0xfd, 0x3d, 0xff, 0x3f, 0x3e, 0xfe, 0xfa, 0x3a,
    0x3b, 0xfb, 0x39, 0xf9, 0xf8, 0x38, 0x28, 0xe8, 0xe9, 0x29, 0xeb, 0x2b, 0x2a, 0xea, 0xee,
    0x2e, 0x2f, 0xef, 0x2d, 0xed, 0xec, 0x2c, 0xe4, 0x24, 0x25, 0xe5, 0x27, 0xe7, 0xe6, 0x26,
    0x22, 0xe2, 0xe3, 0x23, 0xe1, 0x21, 0x20, 0xe0, 0xa0, 0x60, 0x61, 0xa1, 0x63, 0xa3, 0xa2,
    0x62, 0x66, 0xa6, 0xa7, 0x67, 0xa5, 0x65, 0x64, 0xa4, 0x6c, 0xac, 0xad, 0x6d, 0xaf, 0x6f,
    0x6e, 0xae, 0xaa, 0x6a, 0x6b, 0xab, 0x69, 0xa9, 0xa8, 0x68, 0x78, 0xb8, 0xb9, 0x79, 0xbb,
    0x7b, 0x7a, 0xba, 0xbe, 0x7e, 0x7f, 0xbf, 0x7d, 0xbd, 0xbc, 0x7c, 0xb4, 0x74, 0x75, 0xb5,
    0x77, 0xb7, 0xb6, 0x76, 0x72, 0xb2, 0xb3, 0x73, 0xb1, 0x71, 0x70, 0xb0, 0x50, 0x90, 0x91,
    0x51, 0x93, 0x53, 0x52, 0x92, 0x96, 0x56, 0x57, 0x97, 0x55, 0x95, 0x94, 0x54, 0x9c, 0x5c,
    0x5d, 0x9d, 0x5f, 0x9f, 0x9e, 0x5e, 0x5a, 0x9a, 0x9b, 0x5b, 0x99, 0x59, 0x58, 0x98, 0x88,
    0x48, 0x49, 0x89, 0x4b, 0x8b, 0x8a, 0x4a, 0x4e, 0x8e, 0x8f, 0x4f, 0x8d, 0x4d, 0x4c, 0x8c,
    0x44, 0x84, 0x85, 0x45, 0x87, 0x47, 0x46, 0x86, 0x82, 0x42, 0x43, 0x83, 0x41, 0x81, 0x80,
    0x40]"

text \<open>State \<open>(chCRCHi, chCRCLo)\<close>; each round indexes both tables with the low byte.\<close>

fun crc16_loop :: "bytes \<Rightarrow> u8 \<times> u8 \<Rightarrow> u8 \<times> u8" where
  "crc16_loop [] s = s"
| "crc16_loop (d # ds) (hi, lo) =
     (let wIndex = unat (lo XOR d)
      in crc16_loop ds (chCRCLTalbe ! wIndex, hi XOR (chCRCHTalbe ! wIndex)))"

definition BFLB_Soft_CRC16 :: "bytes \<Rightarrow> u16" where
  "BFLB_Soft_CRC16 data =
     (let (hi, lo) = crc16_loop data (0xFF, 0xFF)
      in push_bit 8 (ucast hi) OR ucast lo)"

definition crc32Tab :: "u32 list" where
  "crc32Tab = [
    0x00000000, 0x77073096, 0xee0e612c, 0x990951ba, 0x076dc419, 0x706af48f, 0xe963a535,
    0x9e6495a3, 0x0edb8832, 0x79dcb8a4, 0xe0d5e91e, 0x97d2d988, 0x09b64c2b, 0x7eb17cbd,
    0xe7b82d07, 0x90bf1d91, 0x1db71064, 0x6ab020f2, 0xf3b97148, 0x84be41de, 0x1adad47d,
    0x6ddde4eb, 0xf4d4b551, 0x83d385c7, 0x136c9856, 0x646ba8c0, 0xfd62f97a, 0x8a65c9ec,
    0x14015c4f, 0x63066cd9, 0xfa0f3d63, 0x8d080df5, 0x3b6e20c8, 0x4c69105e, 0xd56041e4,
    0xa2677172, 0x3c03e4d1, 0x4b04d447, 0xd20d85fd, 0xa50ab56b, 0x35b5a8fa, 0x42b2986c,
    0xdbbbc9d6, 0xacbcf940, 0x32d86ce3, 0x45df5c75, 0xdcd60dcf, 0xabd13d59, 0x26d930ac,
    0x51de003a, 0xc8d75180, 0xbfd06116, 0x21b4f4b5, 0x56b3c423, 0xcfba9599, 0xb8bda50f,
    0x2802b89e, 0x5f058808, 0xc60cd9b2, 0xb10be924, 0x2f6f7c87, 0x58684c11, 0xc1611dab,
    0xb6662d3d, 0x76dc4190, 0x01db7106, 0x98d220bc, 0xefd5102a, 0x71b18589, 0x06b6b51f,
    0x9fbfe4a5, 0xe8b8d433, 0x7807c9a2, 0x0f00f934, 0x9609a88e, 0xe10e9818, 0x7f6a0dbb,
    0x086d3d2d, 0x91646c97, 0xe6635c01, 0x6b6b51f4, 0x1c6c6162, 0x856530d8, 0xf262004e,
    0x6c0695ed, 0x1b01a57b, 0x8208f4c1, 0xf50fc457, 0x65b0d9c6, 0x12b7e950, 0x8bbeb8ea,
    0xfcb9887c, 0x62dd1ddf, 0x15da2d49, 0x8cd37cf3, 0xfbd44c65, 0x4db26158, 0x3ab551ce,
    0xa3bc0074, 0xd4bb30e2, 0x4adfa541, 0x3dd895d7, 0xa4d1c46d, 0xd3d6f4fb, 0x4369e96a,
    0x346ed9fc, 0xad678846, 0xda60b8d0, 0x44042d73, 0x33031de5, 0xaa0a4c5f, 0xdd0d7cc9,
    0x5005713c, 0x270241aa, 0xbe0b1010, 0xc90c2086, 0x5768b525, 0x206f85b3, 0xb966d409,
    0xce61e49f, 0x5edef90e, 0x29d9c998, 0xb0d09822, 0xc7d7a8b4, 0x59b33d17, 0x2eb40d81,
    0xb7bd5c3b, 0xc0ba6cad, 0xedb88320, 0x9abfb3b6, 0x03b6e20c, 0x74b1d29a, 0xead54739,
    0x9dd277af, 0x04db2615, 0x73dc1683, 0xe3630b12, 0x94643b84, 0x0d6d6a3e, 0x7a6a5aa8,
    0xe40ecf0b, 0x9309ff9d, 0x0a00ae27, 0x7d079eb1, 0xf00f9344, 0x8708a3d2, 0x1e01f268,
    0x6906c2fe, 0xf762575d, 0x806567cb, 0x196c3671, 0x6e6b06e7, 0xfed41b76, 0x89d32be0,
    0x10da7a5a, 0x67dd4acc, 0xf9b9df6f, 0x8ebeeff9, 0x17b7be43, 0x60b08ed5, 0xd6d6a3e8,
    0xa1d1937e, 0x38d8c2c4, 0x4fdff252, 0xd1bb67f1, 0xa6bc5767, 0x3fb506dd, 0x48b2364b,
    0xd80d2bda, 0xaf0a1b4c, 0x36034af6, 0x41047a60, 0xdf60efc3, 0xa867df55, 0x316e8eef,
    0x4669be79, 0xcb61b38c, 0xbc66831a, 0x256fd2a0, 0x5268e236, 0xcc0c7795, 0xbb0b4703,
    0x220216b9, 0x5505262f, 0xc5ba3bbe, 0xb2bd0b28, 0x2bb45a92, 0x5cb36a04, 0xc2d7ffa7,
    0xb5d0cf31, 0x2cd99e8b, 0x5bdeae1d, 0x9b64c2b0, 0xec63f226, 0x756aa39c, 0x026d930a,
    0x9c0906a9, 0xeb0e363f, 0x72076785, 0x05005713, 0x95bf4a82, 0xe2b87a14, 0x7bb12bae,
    0x0cb61b38, 0x92d28e9b, 0xe5d5be0d, 0x7cdcefb7, 0x0bdbdf21, 0x86d3d2d4, 0xf1d4e242,
    0x68ddb3f8, 0x1fda836e, 0x81be16cd, 0xf6b9265b, 0x6fb077e1, 0x18b74777, 0x88085ae6,
    0xff0f6a70, 0x66063bca, 0x11010b5c, 0x8f659eff, 0xf862ae69, 0x616bffd3, 0x166ccf45,
    0xa00ae278, 0xd70dd2ee, 0x4e048354, 0x3903b3c2, 0xa7672661, 0xd06016f7, 0x4969474d,
    0x3e6e77db, 0xaed16a4a, 0xd9d65adc, 0x40df0b66, 0x37d83bf0, 0xa9bcae53, 0xdebb9ec5,
    0x47b2cf7f, 0x30b5ffe9, 0xbdbdf21c, 0xcabac28a, 0x53b39330, 0x24b4a3a6, 0xbad03605,
    0xcdd70693, 0x54de5729, 0x23d967bf, 0xb3667a2e, 0xc4614ab8, 0x5d681b02, 0x2a6f2b94,
    0xb40bbe37, 0xc30c8ea1, 0x5a05df1b, 0x2d02ef8d]"

fun crc32_table_loop :: "bytes \<Rightarrow> u32 \<Rightarrow> u32" where
  "crc32_table_loop [] crc = crc"
| "crc32_table_loop (d # ds) crc =
     crc32_table_loop ds
       ((crc32Tab ! unat ((crc XOR ucast d) AND 0xFF)) XOR drop_bit 8 crc)"

definition BFLB_Soft_CRC32_Table :: "bytes \<Rightarrow> u32" where
  "BFLB_Soft_CRC32_Table data = crc32_table_loop data (0 XOR 0xffffffff) XOR 0xffffffff"

text \<open>The bitwise routine: one round of the inner loop, eight rounds, the outer loop.\<close>

definition crc_bit :: "'a::len word \<Rightarrow> 'a word \<Rightarrow> 'a word" where
  "crc_bit poly crc = (if crc AND 1 \<noteq> 0 then drop_bit 1 crc XOR poly else drop_bit 1 crc)"

definition crc32_byte :: "u32 \<Rightarrow> u8 \<Rightarrow> u32" where
  "crc32_byte crc d = (crc_bit 0xEDB88320 ^^ 8) (crc XOR ucast d)"

fun crc32_loop :: "bytes \<Rightarrow> u32 \<Rightarrow> u32" where
  "crc32_loop [] crc = crc"
| "crc32_loop (d # ds) crc = crc32_loop ds (crc32_byte crc d)"

definition BFLB_Soft_CRC32_Ex :: "u32 \<Rightarrow> bytes \<Rightarrow> u32" where
  "BFLB_Soft_CRC32_Ex initial data = NOT (crc32_loop data (NOT initial))"

definition BFLB_Soft_CRC32 :: "bytes \<Rightarrow> u32" where
  "BFLB_Soft_CRC32 data = BFLB_Soft_CRC32_Ex 0 data"

section \<open>The bit step\<close>

lemma xor_cancel: "x XOR c = y XOR c \<longleftrightarrow> x = (y :: 'a::len word)"
  by (metis xor.assoc xor.right_neutral xor_self_eq)

lemma crc_bit_0 [simp]: "crc_bit poly 0 = 0"
  by (simp add: crc_bit_def)

lemma crc_bits_0 [simp]: "(crc_bit poly ^^ n) 0 = 0"
  by (induction n) simp_all

lemma crc_bit_xor: "crc_bit poly (x XOR y) = crc_bit poly x XOR crc_bit poly y"
proof -
  have "drop_bit 1 (x XOR y) = drop_bit 1 x XOR drop_bit 1 y" by (rule drop_bit_xor)
  moreover have "(x XOR y) AND 1 = (x AND 1) XOR (y AND 1)"
    by (rule bit_word_eqI) (auto simp: bit_simps)
  ultimately show ?thesis
    using word_and_1_cases [of x] word_and_1_cases [of y]
    by (auto simp: crc_bit_def xor.assoc xor.left_commute xor.commute)
qed

lemma crc_bits_xor:
  "(crc_bit poly ^^ n) (x XOR y) = (crc_bit poly ^^ n) x XOR (crc_bit poly ^^ n) y"
  by (induction n) (simp_all add: crc_bit_xor)

lemma crc_bit_even: "even x \<Longrightarrow> crc_bit poly x = drop_bit 1 x"
  by (simp only: crc_bit_def and_one_eq even_iff_mod_2_eq_zero) simp

lemma crc_bits_shift: "(crc_bit poly ^^ n) (push_bit n x) = drop_bit n (push_bit n x)"
proof (induction n arbitrary: x)
  case (Suc n)
  have "(crc_bit poly ^^ Suc n) (push_bit (Suc n) x)
      = crc_bit poly ((crc_bit poly ^^ n) (push_bit n (push_bit 1 x)))"
    by simp
  also have "\<dots> = crc_bit poly (drop_bit n (push_bit n (push_bit 1 x)))"
    by (simp only: Suc.IH)
  also have "\<dots> = drop_bit 1 (drop_bit n (push_bit n (push_bit 1 x)))"
  proof -
    have "\<not> bit (drop_bit n (push_bit n (push_bit 1 x))) 0"
      by (auto simp only: bit_simps comp_def)
    then show ?thesis by (intro crc_bit_even) (simp only: bit_0 not_not)
  qed
  also have "\<dots> = drop_bit (Suc n) (push_bit (Suc n) x)"
    by (rule bit_word_eqI) (auto simp: bit_simps)
  finally show ?case .
qed simp

lemma crc_bits_8: "(crc_bit poly ^^ 8) x =
    crc_bit poly (crc_bit poly (crc_bit poly (crc_bit poly
      (crc_bit poly (crc_bit poly (crc_bit poly (crc_bit poly x)))))))"
  by (simp add: numeral_eq_Suc)

text \<open>With the top bit of the reflected polynomial set, the bit shifted out can be recovered.\<close>

lemma crc_bit_top:
  fixes z :: "'a::len word"
  assumes "bit poly (LENGTH('a) - 1)"
  shows "bit (crc_bit poly z) (LENGTH('a) - 1) \<longleftrightarrow> odd z"
proof -
  have "\<not> bit (drop_bit 1 z) (LENGTH('a) - 1)"
    by (auto simp: bit_simps dest: bit_imp_le_length)
  with assms show ?thesis
    by (auto simp: crc_bit_def bit_xor_iff and_one_eq odd_iff_mod_2_eq_one)
qed

lemma crc_bit_inj:
  fixes x y :: "'a::len word"
  assumes top: "bit poly (LENGTH('a) - 1)"
  shows "crc_bit poly x = crc_bit poly y \<longleftrightarrow> x = y"
proof
  assume eq: "crc_bit poly x = crc_bit poly y"
  with crc_bit_top [OF top] have low: "odd x \<longleftrightarrow> odd y" by metis
  with eq have "drop_bit 1 x = drop_bit 1 y"
    by (auto simp: crc_bit_def and_one_eq odd_iff_mod_2_eq_one xor_cancel split: if_splits)
  then have "bit x (Suc n) = bit y (Suc n)" for n
    by (metis bit_drop_bit_eq comp_apply plus_1_eq_Suc)
  with low show "x = y"
    by (metis bit_0 bit_eqI not0_implies_Suc)
qed simp

lemma crc_bits_inj:
  fixes x y :: "'a::len word"
  assumes "bit poly (LENGTH('a) - 1)"
  shows "(crc_bit poly ^^ n) x = (crc_bit poly ^^ n) y \<longleftrightarrow> x = y"
  by (induction n) (simp_all add: crc_bit_inj [OF assms])

section \<open>Tables\<close>

fun evens :: "'a list \<Rightarrow> 'a list" where
  "evens (x # y # zs) = x # evens zs"
| "evens xs = xs"

lemma nth_evens: "2 * j < length xs \<Longrightarrow> evens xs ! j = xs ! (2 * j)"
proof (induction xs arbitrary: j rule: evens.induct)
  case (1 x y zs)
  then show ?case by (cases j) auto
qed auto

lemma length_evens: "length (evens xs) = (length xs + 1) div 2"
  by (induction xs rule: evens.induct) auto

text \<open>
  What makes a 256-entry table the table of a reflected CRC: entry 0 and entry 1, each
  entry of the lower half one bit step after the entry at twice its index, and each odd
  entry the preceding one combined with entry 1.
\<close>

locale crc_table =
  fixes poly :: "'a::len word" and tab :: "'a word list"
  assumes top_bit: "bit poly (LENGTH('a) - 1)"
    and wide: "8 < LENGTH('a)"
    and length_tab: "length tab = 256"
    and tab_0: "tab ! 0 = 0"
    and tab_1: "tab ! 1 = (crc_bit poly ^^ 8) 1"
    and halves: "map (crc_bit poly) (evens tab) = take 128 tab"
    and odds: "map (\<lambda>t. t XOR tab ! 1) (evens tab) = evens (tl tab)"
begin

lemma tab_even: "j < 128 \<Longrightarrow> crc_bit poly (tab ! (2 * j)) = tab ! j"
  using arg_cong [OF halves, of "\<lambda>xs. xs ! j"]
  by (simp add: nth_evens length_evens length_tab)

lemma tab_odd: "j < 128 \<Longrightarrow> tab ! (2 * j + 1) = tab ! (2 * j) XOR tab ! 1"
  using arg_cong [OF odds, of "\<lambda>xs. xs ! j"]
  by (simp add: nth_evens length_evens length_tab nth_tl)

lemma bit_double: "j < 128 \<Longrightarrow> crc_bit poly (word_of_nat (2 * j)) = word_of_nat j"
proof -
  assume j: "j < 128"
  have big: "2 * j < 2 ^ LENGTH('a)"
    using j wide power_strict_increasing [of 8 "LENGTH('a)" "2 :: nat"] by simp
  have "even (word_of_nat (2 * j) :: 'a word)" by simp
  moreover have "drop_bit 1 (word_of_nat (2 * j) :: 'a word) = word_of_nat j"
    using big wide by (simp add: word_eq_unat drop_bit_eq_div unat_div_distrib unat_of_nat
        del: of_nat_mult)
  ultimately show ?thesis by (simp only: crc_bit_even)
qed

lemma tab_double:
  assumes "j < 128" and IH: "tab ! j = (crc_bit poly ^^ 8) (word_of_nat j)"
  shows "tab ! (2 * j) = (crc_bit poly ^^ 8) (word_of_nat (2 * j))"
proof -
  have "crc_bit poly ((crc_bit poly ^^ 8) (word_of_nat (2 * j)))
      = (crc_bit poly ^^ 8) (crc_bit poly (word_of_nat (2 * j)))"
    by (simp add: funpow_swap1)
  also have "\<dots> = crc_bit poly (tab ! (2 * j))"
    using assms(1) by (simp only: bit_double tab_even IH)
  finally show ?thesis by (simp only: crc_bit_inj [OF top_bit])
qed

lemma tab_spec: "i < 256 \<Longrightarrow> tab ! i = (crc_bit poly ^^ 8) (word_of_nat i)"
proof (induction i rule: less_induct)
  case (less i)
  have even: "tab ! (2 * j) = (crc_bit poly ^^ 8) (word_of_nat (2 * j))" if "2 * j \<le> i" for j
    using that less by (cases "j = 0") (auto simp: tab_0 simp del: of_nat_mult intro!: tab_double)
  show ?case
  proof (cases "even i")
    case True
    then show ?thesis using even by (auto elim: evenE)
  next
    case False
    then obtain j where i: "i = 2 * j + 1" by (auto elim: oddE)
    have "word_of_nat i = (word_of_nat (2 * j) XOR 1 :: 'a word)"
      by (simp add: i xor_one_eq)
    then show ?thesis
      using even [of j] less.prems tab_odd [of j] tab_1 by (simp add: i crc_bits_xor)
  qed
qed

text \<open>One table step is eight bit steps.\<close>

lemma table_byte:
  "tab ! unat (take_bit 8 x) XOR drop_bit 8 x = (crc_bit poly ^^ 8) x"
proof -
  have split: "x = take_bit 8 x XOR push_bit 8 (drop_bit 8 x)"
  proof (rule bit_word_eqI)
    fix n assume "n < LENGTH('a)"
    then show "bit x n = bit (take_bit 8 x XOR push_bit 8 (drop_bit 8 x)) n"
      by (cases "n < 8") (auto simp: bit_simps)
  qed
  have "unat (take_bit 8 x) < 256"
    using take_bit_nat_less_exp [of 8 "unat x"] by (simp add: unsigned_take_bit_eq)
  then have "tab ! unat (take_bit 8 x) = (crc_bit poly ^^ 8) (take_bit 8 x)"
    by (simp add: tab_spec)
  moreover have "(crc_bit poly ^^ 8) (push_bit 8 (drop_bit 8 x)) = drop_bit 8 x"
    unfolding crc_bits_shift
    by (rule bit_word_eqI) (auto simp: bit_simps dest: bit_imp_le_length)
  ultimately show ?thesis
    by (subst (2) split) (simp only: crc_bits_xor)
qed

end

lemma drop_bit_xor_ucast [simp]: "drop_bit 8 ((crc :: 'a::len word) XOR ucast (d :: u8)) = drop_bit 8 crc"
  by (rule bit_word_eqI) (auto simp: bit_simps dest: bit_imp_le_length)

lemma and_0xFF: "(x :: u32) AND 0xFF = take_bit 8 x"
  by (simp add: take_bit_eq_mask mask_eq_exp_minus_1)

interpretation crc32: crc_table "0xEDB88320 :: u32" crc32Tab
proof
  show "bit (0xEDB88320 :: u32) (LENGTH(32) - 1)" by simp
  show "crc32Tab ! 1 = (crc_bit 0xEDB88320 ^^ 8) 1"
    by (simp add: crc32Tab_def crc_bits_8 crc_bit_def)
  show "map (crc_bit 0xEDB88320) (evens crc32Tab) = take 128 crc32Tab"
    by (simp add: crc32Tab_def crc_bit_def)
  show "map (\<lambda>t. t XOR crc32Tab ! 1) (evens crc32Tab) = evens (tl crc32Tab)"
    by (simp add: crc32Tab_def)
qed (simp_all add: crc32Tab_def)

text \<open>The two byte tables of the CRC-16 are the high and low halves of one 16-bit table.\<close>

definition crc16_tab :: "u16 list" where
  "crc16_tab = map2 (\<lambda>h l. ucast h OR push_bit 8 (ucast l)) chCRCHTalbe chCRCLTalbe"

interpretation crc16: crc_table "0xA001 :: u16" crc16_tab
proof
  show "bit (0xA001 :: u16) (LENGTH(16) - 1)" by simp
  show "crc16_tab ! 1 = (crc_bit 0xA001 ^^ 8) 1"
    by (simp add: crc16_tab_def chCRCHTalbe_def chCRCLTalbe_def crc_bits_8 crc_bit_def)
  show "map (crc_bit 0xA001) (evens crc16_tab) = take 128 crc16_tab"
    by (simp add: crc16_tab_def chCRCHTalbe_def chCRCLTalbe_def crc_bit_def)
  show "map (\<lambda>t. t XOR crc16_tab ! 1) (evens crc16_tab) = evens (tl crc16_tab)"
    by (simp add: crc16_tab_def chCRCHTalbe_def chCRCLTalbe_def)
qed (simp_all add: crc16_tab_def chCRCHTalbe_def chCRCLTalbe_def)

section \<open>What the routines compute\<close>

lemma crc32_table_byte:
  "crc32Tab ! unat ((crc XOR ucast d) AND 0xFF) XOR drop_bit 8 crc = crc32_byte crc d"
  unfolding and_0xFF crc32_byte_def crc32.table_byte [symmetric] drop_bit_xor_ucast ..

lemma crc32_table_loop_eq: "crc32_table_loop data crc = crc32_loop data crc"
  by (induction data arbitrary: crc) (simp_all add: crc32_table_byte)

lemma u32_all_ones: "(0xffffffff :: u32) = - 1"
  by simp

text \<open>
  C31: the table-driven CRC-32 and the bitwise CRC-32 of the bootloader are the same
  function: for every input both return the same checksum, so an image checked by one
  can be produced with the other.
\<close>

theorem crc32_table_correct: "BFLB_Soft_CRC32_Table data = BFLB_Soft_CRC32 data"
  by (simp add: BFLB_Soft_CRC32_Table_def BFLB_Soft_CRC32_def BFLB_Soft_CRC32_Ex_def
      crc32_table_loop_eq u32_all_ones bit.xor_one_right)

lemma crc32_loop_append: "crc32_loop (xs @ ys) crc = crc32_loop ys (crc32_loop xs crc)"
  by (induction xs arbitrary: crc) simp_all

text \<open>The checksum of a block can be continued over the next block.\<close>

lemma crc32_ex_append:
  "BFLB_Soft_CRC32_Ex initial (xs @ ys) = BFLB_Soft_CRC32_Ex (BFLB_Soft_CRC32_Ex initial xs) ys"
  by (simp add: BFLB_Soft_CRC32_Ex_def crc32_loop_append)

lemma crc32_byte_inj_crc: "crc32_byte crc d = crc32_byte crc' d \<longleftrightarrow> crc = crc'"
  by (simp add: crc32_byte_def crc_bits_inj [OF crc32.top_bit] xor_cancel)

lemma crc32_byte_inj_data: "crc32_byte crc d = crc32_byte crc d' \<longleftrightarrow> d = d'"
  by (simp add: crc32_byte_def crc_bits_inj [OF crc32.top_bit] xor.commute [of crc]
      xor_cancel ucast_u8_inj)

lemma crc32_loop_inj: "crc32_loop data crc = crc32_loop data crc' \<longleftrightarrow> crc = crc'"
  by (induction data arbitrary: crc crc') (simp_all add: crc32_byte_inj_crc)

text \<open>
  C32: the CRC-32 detects every error confined to one byte: two inputs that agree outside
  one byte have the same checksum only if that byte agrees too.
\<close>

theorem crc32_detects_byte:
  "BFLB_Soft_CRC32 (pre @ [a] @ post) = BFLB_Soft_CRC32 (pre @ [b] @ post) \<longleftrightarrow> a = b"
  by (simp add: BFLB_Soft_CRC32_def BFLB_Soft_CRC32_Ex_def crc32_loop_append crc32_loop_inj
      crc32_byte_inj_data)

lemma crc32_Nil [simp]: "BFLB_Soft_CRC32 [] = 0"
  by (simp add: BFLB_Soft_CRC32_def BFLB_Soft_CRC32_Ex_def)

text \<open>The reference for the CRC-16: the bitwise CRC with polynomial 0x8005, reflected.\<close>

fun crc16_ref_loop :: "bytes \<Rightarrow> u16 \<Rightarrow> u16" where
  "crc16_ref_loop [] crc = crc"
| "crc16_ref_loop (d # ds) crc = crc16_ref_loop ds ((crc_bit 0xA001 ^^ 8) (crc XOR ucast d))"

definition join16 :: "u8 \<times> u8 \<Rightarrow> u16" where
  "join16 s = push_bit 8 (ucast (fst s)) OR ucast (snd s)"

lemma length_crc16_tables: "length chCRCHTalbe = 256" "length chCRCLTalbe = 256"
  by (simp_all add: chCRCHTalbe_def chCRCLTalbe_def)

lemma join16_low: "take_bit 8 (join16 (hi, lo) XOR ucast d) = ucast (lo XOR d)"
  by (rule bit_word_eqI) (auto simp: join16_def bit_simps dest: bit_imp_le_length)

lemma join16_high: "drop_bit 8 (join16 (hi, lo)) = ucast hi"
  by (rule bit_word_eqI) (auto simp: join16_def bit_simps dest: bit_imp_le_length)

lemma unat_ucast_u8_u16 [simp]: "unat (ucast (x :: u8) :: u16) = unat x"
  by (simp add: unsigned_ucast_eq take_bit_nat_eq_self_iff order_less_trans [OF unsigned_less])

lemma crc16_step:
  "join16 (chCRCLTalbe ! unat (lo XOR d), hi XOR (chCRCHTalbe ! unat (lo XOR d)))
     = (crc_bit 0xA001 ^^ 8) (join16 (hi, lo) XOR ucast d)"
proof -
  have "unat (lo XOR d) < 256"
    using unsigned_less [of "lo XOR d"] by simp
  then have "crc16_tab ! unat (lo XOR d)
      = ucast (chCRCHTalbe ! unat (lo XOR d)) OR push_bit 8 (ucast (chCRCLTalbe ! unat (lo XOR d)))"
    by (simp add: crc16_tab_def length_crc16_tables)
  then have "join16 (chCRCLTalbe ! unat (lo XOR d), hi XOR (chCRCHTalbe ! unat (lo XOR d)))
     = crc16_tab ! unat (lo XOR d) XOR ucast hi"
    by (intro bit_word_eqI) (auto simp: join16_def bit_simps dest: bit_imp_le_length)
  then show ?thesis
    unfolding crc16.table_byte [symmetric] drop_bit_xor_ucast join16_low join16_high
      unat_ucast_u8_u16 .
qed

lemma crc16_loop_eq: "join16 (crc16_loop data (hi, lo)) = crc16_ref_loop data (join16 (hi, lo))"
  by (induction data arbitrary: hi lo) (simp_all add: Let_def crc16_step)

text \<open>
  The two-table CRC-16 computes the bitwise reflected CRC with polynomial 0x8005 and
  initial value 0xFFFF (the Modbus CRC-16), for every input.
\<close>

theorem crc16_correct: "BFLB_Soft_CRC16 data = crc16_ref_loop data 0xFFFF"
  using crc16_loop_eq [of data "0xFF" "0xFF"]
  by (cases "crc16_loop data (0xFF, 0xFF)") (simp add: BFLB_Soft_CRC16_def join16_def)

end
