(* ===== verification/Partition.thy ===== *)
theory Partition
  imports SoftCrc
begin

text \<open>
  \<open>common/partition/partition.c\<close>: the two copies of the partition table in flash.  A
  table ("stuff") is the 596-byte image of \<open>pt_table_stuff_config\<close>: a 16-byte header,
  sixteen 36-byte entries and a trailing CRC.  The code casts it to bytes, writes it to flash
  as it is and stores the entries' CRC right behind the last used entry (so inside the entry
  array when fewer than sixteen are used); it is modelled as those bytes, with the fields at
  their offsets.  The three flash function pointers are the record \<open>flash_ops\<close> over an
  arbitrary device state \<open>'f\<close>; the locale \<open>flash_device\<close> states what the code relies
  on, and the A/B update protocol is proved inside it.
\<close>

section \<open>Types and layout\<close>

datatype bl_err = SUCCESS | ERROR | TIMEOUT | INVALID | NORESC

datatype pt_table_error_type =
    PT_ERROR_SUCCESS | PT_ERROR_TABLE_NOT_VALID | PT_ERROR_ENTRY_NOT_FOUND
  | PT_ERROR_ENTRY_UPDATE_FAIL | PT_ERROR_CRC32 | PT_ERROR_PARAMETER
  | PT_ERROR_FALSH_READ | PT_ERROR_FALSH_WRITE | PT_ERROR_FALSH_ERASE

datatype pt_table_id_type = PT_TABLE_ID_0 | PT_TABLE_ID_1 | PT_TABLE_ID_INVALID

definition PT_ENTRY_FW_CPU0 :: u32 where "PT_ENTRY_FW_CPU0 = 0"
definition PT_ENTRY_FW_CPU1 :: u32 where "PT_ENTRY_FW_CPU1 = 1"
definition PT_ENTRY_MAX :: nat where "PT_ENTRY_MAX = 16"
definition BFLB_PT_TABLE0_ADDRESS :: u32 where "BFLB_PT_TABLE0_ADDRESS = 0x2D000"
definition BFLB_PT_TABLE1_ADDRESS :: u32 where "BFLB_PT_TABLE1_ADDRESS = 0x2E000"
definition BFLB_PT_MAGIC_CODE :: u32 where "BFLB_PT_MAGIC_CODE = 0x54504642"

text \<open>\<open>sizeof\<close> of the three structures.\<close>

definition PT_CONFIG_SIZE :: nat where "PT_CONFIG_SIZE = 16"
definition PT_ENTRY_SIZE :: nat where "PT_ENTRY_SIZE = 36"
definition PT_STUFF_SIZE :: nat where "PT_STUFF_SIZE = 596"

lemmas pt_sizes = PT_CONFIG_SIZE_def PT_ENTRY_SIZE_def PT_STUFF_SIZE_def PT_ENTRY_MAX_def

text \<open>\<open>pt_table_config\<close>: the header fields.\<close>

definition pt_magicCode :: "bytes \<Rightarrow> u32" where "pt_magicCode s = rd32 s 0"
definition pt_version :: "bytes \<Rightarrow> u16" where "pt_version s = rd16 s 4"
definition pt_entryCnt :: "bytes \<Rightarrow> u16" where "pt_entryCnt s = rd16 s 6"
definition pt_age :: "bytes \<Rightarrow> u32" where "pt_age s = rd32 s 8"
definition pt_crc32 :: "bytes \<Rightarrow> u32" where "pt_crc32 s = rd32 s 12"

abbreviation pt_count :: "bytes \<Rightarrow> nat" where
  "pt_count s \<equiv> unat (pt_entryCnt s)"

text \<open>\<open>pt_table_entry_config\<close>: the fields of one entry.\<close>

definition entry_type :: "bytes \<Rightarrow> u8" where "entry_type e = rd8 e 0"
definition entry_device :: "bytes \<Rightarrow> u8" where "entry_device e = rd8 e 1"
definition entry_active_index :: "bytes \<Rightarrow> u8" where "entry_active_index e = rd8 e 2"
definition entry_start_address :: "bytes \<Rightarrow> nat \<Rightarrow> u32" where
  "entry_start_address e i = rd32 e (12 + 4 * i)"
definition entry_max_len :: "bytes \<Rightarrow> nat \<Rightarrow> u32" where
  "entry_max_len e i = rd32 e (20 + 4 * i)"
definition entry_len :: "bytes \<Rightarrow> u32" where "entry_len e = rd32 e 28"
definition entry_age :: "bytes \<Rightarrow> u32" where "entry_age e = rd32 e 32"

text \<open>\<open>pt_stuff->pt_entries[i]\<close>.\<close>

definition pt_entry_off :: "nat \<Rightarrow> nat" where
  "pt_entry_off i = PT_CONFIG_SIZE + PT_ENTRY_SIZE * i"

definition pt_entries :: "bytes \<Rightarrow> nat \<Rightarrow> bytes" where
  "pt_entries s i = seg s (pt_entry_off i) PT_ENTRY_SIZE"

text \<open>\<open>active_index & 0x01\<close> and \<open>!(active_index & 0x01)\<close> as array indices.\<close>

definition active_bit :: "u8 \<Rightarrow> nat" where
  "active_bit a = unat (a AND 1)"

definition other_bit :: "u8 \<Rightarrow> nat" where
  "other_bit a = (if a AND 1 = 0 then 1 else 0)"

text \<open>\<open>pt_table_iap_param_type\<close>, the parameters of an in-application update.\<close>

record pt_iap_param =
  iap_start_addr :: u32
  iap_write_addr :: u32
  iap_img_len :: u32
  inactive_index :: u8
  inactive_table_index :: u8

text \<open>
  The registered flash functions.  \<open>read\<close> is given the destination buffer and returns
  its new contents; erase and write may fail and then leave the device in any state the
  device model allows.
\<close>

record 'f flash_ops =
  fl_erase :: "u32 \<Rightarrow> u32 \<Rightarrow> 'f \<Rightarrow> bl_err \<times> 'f"
  fl_write :: "u32 \<Rightarrow> bytes \<Rightarrow> 'f \<Rightarrow> bl_err \<times> 'f"
  fl_read :: "u32 \<Rightarrow> bytes \<Rightarrow> 'f \<Rightarrow> bl_err \<times> bytes"

definition pt_table_set_flash_operation ::
  "(u32 \<Rightarrow> u32 \<Rightarrow> 'f \<Rightarrow> bl_err \<times> 'f) \<Rightarrow> (u32 \<Rightarrow> bytes \<Rightarrow> 'f \<Rightarrow> bl_err \<times> 'f) \<Rightarrow>
   (u32 \<Rightarrow> bytes \<Rightarrow> 'f \<Rightarrow> bl_err \<times> bytes) \<Rightarrow> 'f flash_ops \<Rightarrow> 'f flash_ops" where
  "pt_table_set_flash_operation erase write read gp =
     gp\<lparr>fl_erase := erase, fl_write := write, fl_read := read\<rparr>"

section \<open>Operations\<close>

definition pt_table_valid :: "bytes \<Rightarrow> bool" where
  "pt_table_valid s =
     (let entriesLen = PT_ENTRY_SIZE * pt_count s
      in if pt_magicCode s = BFLB_PT_MAGIC_CODE then
           if pt_count s > PT_ENTRY_MAX then False
           else if pt_crc32 s \<noteq> BFLB_Soft_CRC32 (seg s 0 (PT_CONFIG_SIZE - 4)) then False
           else if rd32 s (PT_CONFIG_SIZE + entriesLen)
                   \<noteq> BFLB_Soft_CRC32 (seg s PT_CONFIG_SIZE entriesLen) then False
           else True
         else False)"

text \<open>The choice between the two tables, from their validity and ages.\<close>

definition pt_select :: "bool \<Rightarrow> bool \<Rightarrow> u32 \<Rightarrow> u32 \<Rightarrow> pt_table_id_type" where
  "pt_select valid0 valid1 age0 age1 =
     (if valid0 \<and> valid1 then (if age0 \<ge> age1 then PT_TABLE_ID_0 else PT_TABLE_ID_1)
      else if valid0 then PT_TABLE_ID_0
      else if valid1 then PT_TABLE_ID_1
      else PT_TABLE_ID_INVALID)"

definition pt_table_get_active_partition_need_lock ::
  "'f flash_ops \<Rightarrow> 'f \<Rightarrow> (bytes \<times> bytes) option \<Rightarrow> pt_table_id_type \<times> (bytes \<times> bytes) option" where
  "pt_table_get_active_partition_need_lock gp f ptStuff =
     (case ptStuff of None \<Rightarrow> (PT_TABLE_ID_INVALID, None)
      | Some (b0, b1) \<Rightarrow>
          (let s0 = snd (fl_read gp BFLB_PT_TABLE0_ADDRESS b0 f);
               v0 = pt_table_valid s0;
               s1 = snd (fl_read gp BFLB_PT_TABLE1_ADDRESS b1 f);
               v1 = pt_table_valid s1
           in (pt_select v0 v1 (pt_age s0) (pt_age s1), Some (s0, s1))))"

text \<open>The scan \<open>for (i = 0; i < entryCnt; i++) if (P(i)) ...\<close>: the first hit or the count.\<close>

function pt_scan :: "(nat \<Rightarrow> bool) \<Rightarrow> nat \<Rightarrow> nat \<Rightarrow> nat" where
  "pt_scan P i n = (if i < n then (if P i then i else pt_scan P (Suc i) n) else i)"
  by pat_completeness auto
termination by (relation "measure (\<lambda>(P, i, n). n - i)") auto

declare pt_scan.simps [simp del]

definition pt_table_get_active_entries_by_id ::
  "bytes option \<Rightarrow> u32 \<Rightarrow> bytes option \<Rightarrow> pt_table_error_type \<times> bytes option" where
  "pt_table_get_active_entries_by_id pt_stuff type pt_entry =
     (case (pt_stuff, pt_entry) of
        (Some s, Some e) \<Rightarrow>
          (let i = pt_scan (\<lambda>i. ucast (entry_type (pt_entries s i)) = type) 0 (pt_count s)
           in if i < pt_count s then (PT_ERROR_SUCCESS, Some (pt_entries s i))
              else (PT_ERROR_ENTRY_NOT_FOUND, Some e))
      | _ \<Rightarrow> (PT_ERROR_PARAMETER, pt_entry))"

text \<open>\<open>strlen\<close> reads on until a zero byte, past the nine name bytes if need be.\<close>

definition pt_name_matches :: "bytes \<Rightarrow> bytes \<Rightarrow> nat \<Rightarrow> bool" where
  "pt_name_matches s name i =
     (let len = c_strlen name; off = pt_entry_off i + 3
      in c_strlen (drop off s) = len \<and> seg s off len = take len name)"

definition pt_table_get_active_entries_by_name ::
  "bytes option \<Rightarrow> bytes \<Rightarrow> bytes option \<Rightarrow> pt_table_error_type \<times> bytes option" where
  "pt_table_get_active_entries_by_name pt_stuff name pt_entry =
     (case (pt_stuff, pt_entry) of
        (Some s, Some e) \<Rightarrow>
          (let i = pt_scan (pt_name_matches s name) 0 (pt_count s)
           in if i < pt_count s then (PT_ERROR_SUCCESS, Some (pt_entries s i))
              else (PT_ERROR_ENTRY_NOT_FOUND, Some e))
      | _ \<Rightarrow> (PT_ERROR_PARAMETER, pt_entry))"

text \<open>Recomputing the two checksums before a table is written back.\<close>

definition pt_seal :: "bytes \<Rightarrow> bytes" where
  "pt_seal s =
     (let s1 = wr32 s 12 (BFLB_Soft_CRC32 (seg s 0 (PT_CONFIG_SIZE - 4)));
          entries_len = pt_count s1 * PT_ENTRY_SIZE
      in wr32 s1 (PT_CONFIG_SIZE + entries_len)
           (BFLB_Soft_CRC32 (seg s1 PT_CONFIG_SIZE entries_len)))"

text \<open>Replace the entry of the same type, or append it if there is room.\<close>

definition pt_put_entry :: "bytes \<Rightarrow> bytes \<Rightarrow> bytes option" where
  "pt_put_entry s e =
     (let i = pt_scan (\<lambda>i. entry_type (pt_entries s i) = entry_type e) 0 (pt_count s)
      in if i < pt_count s then Some (patch s (pt_entry_off i) e)
         else if pt_count s < PT_ENTRY_MAX then
           (let s' = patch s (pt_entry_off (pt_count s)) e
            in Some (wr16 s' 6 (pt_entryCnt s' + 1)))
         else None)"

definition pt_table_address :: "pt_table_id_type \<Rightarrow> u32" where
  "pt_table_address i = (if i = PT_TABLE_ID_0 then BFLB_PT_TABLE0_ADDRESS else BFLB_PT_TABLE1_ADDRESS)"

definition pt_table_update_entry ::
  "'f flash_ops \<Rightarrow> pt_table_id_type \<Rightarrow> bytes option \<Rightarrow> bytes option \<Rightarrow> 'f \<Rightarrow>
   pt_table_error_type \<times> bytes option \<times> 'f" where
  "pt_table_update_entry gp target_table_id pt_stuff pt_entry f =
     (case (pt_entry, pt_stuff) of
        (Some e, Some s) \<Rightarrow>
          if target_table_id = PT_TABLE_ID_INVALID then (PT_ERROR_TABLE_NOT_VALID, pt_stuff, f)
          else
            (let write_addr = pt_table_address target_table_id
             in case pt_put_entry s e of
                  None \<Rightarrow> (PT_ERROR_ENTRY_UPDATE_FAIL, pt_stuff, f)
                | Some s1 \<Rightarrow>
                    (let s2 = pt_seal (wr32 s1 8 (pt_age s1 + 1));
                         entries_len = pt_count s2 * PT_ENTRY_SIZE;
                         (r1, f1) = fl_erase gp write_addr
                                      (word_of_nat (PT_CONFIG_SIZE + entries_len + 4)) f
                     in if r1 \<noteq> SUCCESS then (PT_ERROR_FALSH_WRITE, Some s2, f1)
                        else
                          (let (r2, f2) = fl_write gp write_addr s2 f1
                           in if r2 \<noteq> SUCCESS then (PT_ERROR_FALSH_WRITE, Some s2, f2)
                              else (PT_ERROR_SUCCESS, Some s2, f2))))
      | _ \<Rightarrow> (PT_ERROR_PARAMETER, pt_stuff, f))"

text \<open>\<open>pt_table\<close> is an uninitialised local of \<open>pt_table_create\<close>; every field is then set.\<close>

definition pt_table_create ::
  "'f flash_ops \<Rightarrow> pt_table_id_type \<Rightarrow> bytes \<Rightarrow> 'f \<Rightarrow> pt_table_error_type \<times> 'f" where
  "pt_table_create gp pt_id pt_table f =
     (if pt_id = PT_TABLE_ID_INVALID then (PT_ERROR_TABLE_NOT_VALID, f)
      else
        (let write_addr = pt_table_address pt_id;
             h = wr32 (wr16 (wr16 (wr32 pt_table 0 BFLB_PT_MAGIC_CODE) 4 0) 6 0) 8 0;
             h' = wr32 h 12 (BFLB_Soft_CRC32 (seg h 0 (PT_CONFIG_SIZE - 4)));
             (r1, f1) = fl_erase gp write_addr (word_of_nat PT_CONFIG_SIZE) f
         in if r1 \<noteq> SUCCESS then (PT_ERROR_FALSH_ERASE, f1)
            else
              (let (r2, f2) = fl_write gp write_addr h' f1
               in if r2 \<noteq> SUCCESS then (PT_ERROR_FALSH_WRITE, f2) else (PT_ERROR_SUCCESS, f2))))"

text \<open>The parameters of an update, taken from entry 0 of the active table \<open>s\<close>.\<close>

definition iap_from :: "pt_iap_param \<Rightarrow> bytes \<Rightarrow> u8 \<Rightarrow> pt_iap_param" where
  "iap_from para s inactive_table =
     (let active_index = entry_active_index (pt_entries s 0);
          addr = entry_start_address (pt_entries s 0) (other_bit active_index)
      in para\<lparr>iap_write_addr := addr, iap_start_addr := addr,
              inactive_index := word_of_nat (other_bit active_index),
              inactive_table_index := inactive_table\<rparr>)"

definition pt_table_get_iap_para ::
  "'f flash_ops \<Rightarrow> 'f \<Rightarrow> bytes \<times> bytes \<Rightarrow> pt_iap_param \<Rightarrow> pt_table_error_type \<times> pt_iap_param" where
  "pt_table_get_iap_para gp f pt_stuff para =
     (let s0 = snd (fl_read gp BFLB_PT_TABLE0_ADDRESS (fst pt_stuff) f);
          v0 = pt_table_valid s0;
          s1 = snd (fl_read gp BFLB_PT_TABLE1_ADDRESS (snd pt_stuff) f);
          v1 = pt_table_valid s1
      in if v0 \<and> v1 then
           if pt_age s0 \<ge> pt_age s1 then (PT_ERROR_SUCCESS, iap_from para s0 1)
           else (PT_ERROR_SUCCESS, iap_from para s1 0)
         else if v1 then (PT_ERROR_SUCCESS, iap_from para s1 0)
         else if v0 then (PT_ERROR_SUCCESS, iap_from para s0 1)
         else (PT_ERROR_TABLE_NOT_VALID, para))"

text \<open>The table written by \<open>pt_table_set_iap_para\<close>: one older, entry 0 switched over.\<close>

definition pt_switch :: "bytes \<Rightarrow> bytes" where
  "pt_switch s =
     (let s1 = wr32 s 8 (pt_age s + 1);
          a = entry_active_index (pt_entries s1 0)
      in pt_seal (wr8 s1 (pt_entry_off 0 + 2) (word_of_nat (other_bit a))))"

definition pt_write_back ::
  "'f flash_ops \<Rightarrow> u32 \<Rightarrow> bytes \<Rightarrow> 'f \<Rightarrow> pt_table_error_type \<times> 'f" where
  "pt_write_back gp addr s f =
     (let (r1, f1) = fl_erase gp addr (word_of_nat PT_STUFF_SIZE) f
      in if r1 \<noteq> SUCCESS then (PT_ERROR_FALSH_ERASE, f1)
         else
           (let (r2, f2) = fl_write gp addr s f1
            in if r2 \<noteq> SUCCESS then (PT_ERROR_FALSH_WRITE, f2) else (PT_ERROR_SUCCESS, f2)))"

definition pt_table_set_iap_para ::
  "'f flash_ops \<Rightarrow> pt_iap_param \<Rightarrow> bytes \<Rightarrow> 'f \<Rightarrow> pt_table_error_type \<times> 'f" where
  "pt_table_set_iap_para gp para pt_stuff f =
     (let s = (if inactive_table_index para = 1
               then snd (fl_read gp BFLB_PT_TABLE0_ADDRESS pt_stuff f)
               else if inactive_table_index para = 0
               then snd (fl_read gp BFLB_PT_TABLE1_ADDRESS pt_stuff f)
               else pt_stuff);
          w = pt_switch s
      in if inactive_table_index para = 1 then pt_write_back gp BFLB_PT_TABLE1_ADDRESS w f
         else if inactive_table_index para = 0 then pt_write_back gp BFLB_PT_TABLE0_ADDRESS w f
         else (PT_ERROR_SUCCESS, f))"

section \<open>Facts about tables\<close>

lemma pt_scan_le: "i \<le> n \<Longrightarrow> pt_scan P i n \<le> n"
proof (induction P i n rule: pt_scan.induct)
  case (1 P i n)
  then show ?case by (subst pt_scan.simps) auto
qed

lemma pt_scan_hit: "pt_scan P i n < n \<Longrightarrow> P (pt_scan P i n)"
proof (induction P i n rule: pt_scan.induct)
  case (1 P i n)
  then show ?case by (metis pt_scan.simps)
qed

lemma pt_scan_first: "i \<le> j \<Longrightarrow> j < pt_scan P i n \<Longrightarrow> \<not> P j"
proof (induction P i n rule: pt_scan.induct)
  case (1 P i n)
  show ?case
  proof (cases "i < n \<and> \<not> P i")
    case True
    with 1 show ?thesis
      by (metis Suc_leI order_le_less pt_scan.simps)
  next
    case False
    with "1.prems" show ?thesis by (subst (asm) pt_scan.simps) (auto split: if_splits)
  qed
qed

lemma pt_scan_ge: "i \<le> pt_scan P i n"
proof (induction P i n rule: pt_scan.induct)
  case (1 P i n)
  then show ?case by (subst pt_scan.simps) (auto dest: Suc_leD)
qed

text \<open>The scan returns the least hit.\<close>

lemma pt_scan_eqI:
  assumes "i \<le> k" "k < n" "P k" "\<And>j. i \<le> j \<Longrightarrow> j < k \<Longrightarrow> \<not> P j"
  shows "pt_scan P i n = k"
proof -
  have "pt_scan P i n < n"
  proof (rule ccontr)
    assume "\<not> ?thesis"
    then have "k < pt_scan P i n" using assms(2) by simp
    then show False using pt_scan_first [OF assms(1)] assms(3) by blast
  qed
  moreover have "i \<le> pt_scan P i n"
    by (rule pt_scan_ge)
  ultimately show ?thesis
    using assms pt_scan_first [of i k P n] pt_scan_hit [of P i n]
    by (meson linorder_neqE_nat)
qed

text \<open>A well-formed image: the right size, the magic code, at most sixteen entries.\<close>

definition pt_wf :: "bytes \<Rightarrow> bool" where
  "pt_wf s \<longleftrightarrow> length s = PT_STUFF_SIZE \<and> pt_magicCode s = BFLB_PT_MAGIC_CODE
     \<and> pt_count s \<le> PT_ENTRY_MAX"

lemma pt_table_valid_wf: "pt_table_valid s \<Longrightarrow> length s = PT_STUFF_SIZE \<Longrightarrow> pt_wf s"
  by (auto simp: pt_table_valid_def pt_wf_def Let_def split: if_splits)

lemmas pt_field_defs = pt_magicCode_def pt_version_def pt_entryCnt_def pt_age_def pt_crc32_def

lemma pt_entry_off_simps: "pt_entry_off i = 16 + 36 * i"
  by (simp add: pt_entry_off_def pt_sizes)

text \<open>Sealing keeps every field but the two checksums, and makes the table valid.\<close>

lemma pt_seal_length [simp]: "pt_wf s \<Longrightarrow> length (pt_seal s) = PT_STUFF_SIZE"
  by (simp add: pt_seal_def pt_wf_def pt_sizes pt_field_defs Let_def layout)

lemma pt_seal_frame [frame]:
  assumes "pt_wf s"
  shows "pt_magicCode (pt_seal s) = pt_magicCode s" "pt_version (pt_seal s) = pt_version s"
    "pt_entryCnt (pt_seal s) = pt_entryCnt s" "pt_age (pt_seal s) = pt_age s"
    and "i < pt_count s \<Longrightarrow> pt_entries (pt_seal s) i = pt_entries s i"
  using assms
  by (simp_all add: pt_seal_def pt_wf_def pt_sizes pt_field_defs pt_entries_def
      pt_entry_off_def Let_def layout)

lemma pt_seal_valid: "pt_wf s \<Longrightarrow> pt_table_valid (pt_seal s)"
  by (simp add: pt_table_valid_def pt_seal_def pt_wf_def pt_sizes pt_field_defs Let_def
      mult.commute [of 36] layout)

text \<open>Only the bytes up to and including the entries' checksum matter for validity.\<close>

definition pt_used :: "bytes \<Rightarrow> nat" where
  "pt_used s = PT_CONFIG_SIZE + PT_ENTRY_SIZE * pt_count s + 4"

lemma seg_take: "p + m \<le> n \<Longrightarrow> seg (take n s) p m = seg s p m"
  by (simp add: seg_def drop_take min_def)

lemma rd_take:
  "p + 1 \<le> n \<Longrightarrow> p + 1 \<le> length s \<Longrightarrow> rd8 (take n s) p = rd8 s p"
  "p + 2 \<le> n \<Longrightarrow> p + 2 \<le> length s \<Longrightarrow> rd16 (take n s) p = rd16 s p"
  "p + 4 \<le> n \<Longrightarrow> p + 4 \<le> length s \<Longrightarrow> rd32 (take n s) p = rd32 s p"
  by (simp_all add: rd8_def rd16_def rd32_def)

lemma pt_table_valid_take:
  assumes "pt_count s \<le> PT_ENTRY_MAX" "length s = PT_STUFF_SIZE"
  shows "pt_table_valid (take (pt_used s) s) = pt_table_valid s"
  using assms
  by (simp add: pt_table_valid_def pt_used_def pt_sizes pt_field_defs Let_def rd_take seg_take)

lemma pt_fields_take:
  assumes "pt_count s \<le> PT_ENTRY_MAX" "length s = PT_STUFF_SIZE"
  shows "pt_entryCnt (take (pt_used s) s) = pt_entryCnt s"
    and "pt_age (take (pt_used s) s) = pt_age s"
    and "i < pt_count s \<Longrightarrow> pt_entries (take (pt_used s) s) i = pt_entries s i"
  using assms
  by (simp_all add: pt_used_def pt_sizes pt_field_defs pt_entries_def pt_entry_off_def
      rd_take seg_take)

text \<open>Two images that agree on the used bytes are the same table.\<close>

lemma pt_same_used:
  assumes same: "take (pt_used s) s' = take (pt_used s) s"
    and len: "length s = PT_STUFF_SIZE" "length s' = PT_STUFF_SIZE"
    and cnt: "pt_count s \<le> PT_ENTRY_MAX"
  shows "pt_table_valid s' = pt_table_valid s" "pt_age s' = pt_age s"
    "pt_entryCnt s' = pt_entryCnt s"
    and "i < pt_count s \<Longrightarrow> pt_entries s' i = pt_entries s i"
proof -
  have "8 \<le> pt_used s" by (simp add: pt_used_def pt_sizes)
  then have c: "pt_entryCnt s' = pt_entryCnt s"
    using same len rd_take(2) [of 6 "pt_used s" s] rd_take(2) [of 6 "pt_used s" s']
    by (simp add: pt_entryCnt_def pt_sizes)
  then have u: "pt_used s' = pt_used s" by (simp add: pt_used_def)
  show "pt_entryCnt s' = pt_entryCnt s" by (rule c)
  show "pt_table_valid s' = pt_table_valid s"
    using pt_table_valid_take [of s] pt_table_valid_take [of s'] assms c u by simp
  show "pt_age s' = pt_age s"
    using pt_fields_take(2) [of s] pt_fields_take(2) [of s'] assms c u by simp
  show "i < pt_count s \<Longrightarrow> pt_entries s' i = pt_entries s i"
    using pt_fields_take(3) [of s i] pt_fields_take(3) [of s' i] assms c u by simp
qed

section \<open>Putting an entry\<close>

lemma pt_put_entry_wf:
  assumes "pt_put_entry s e = Some s'" "pt_wf s" "length e = PT_ENTRY_SIZE"
  shows "pt_wf s'" "pt_age s' = pt_age s" "pt_count s \<le> pt_count s'"
proof -
  have cnt: "pt_count s < 16 \<Longrightarrow> unat (rd16 s 6 + 1) = unat (rd16 s 6) + 1"
    by (simp add: pt_entryCnt_def unat_word_ariths)
  show "pt_wf s'" "pt_age s' = pt_age s" "pt_count s \<le> pt_count s'"
    using assms cnt
    by (auto simp: pt_put_entry_def pt_wf_def pt_sizes pt_entry_off_simps pt_field_defs Let_def
        layout split: if_splits)
qed

text \<open>Afterwards the first entry of that type is the new one.\<close>

lemma pt_entries_other:
  assumes "length s = PT_STUFF_SIZE" "length e = PT_ENTRY_SIZE" "k < 16" "j < 16" "j \<noteq> k"
  shows "pt_entries (patch s (pt_entry_off k) e) j = pt_entries s j"
proof -
  have "j < k \<or> k < j" using assms(5) by arith
  then show ?thesis
    using assms
    by (auto simp: pt_entries_def pt_entry_off_simps pt_sizes intro!: seg_patch_other)
qed

lemma pt_entries_same:
  assumes "length s = PT_STUFF_SIZE" "length e = PT_ENTRY_SIZE" "k < 16"
  shows "pt_entries (patch s (pt_entry_off k) e) k = e"
  using assms by (simp add: pt_entries_def pt_entry_off_simps pt_sizes seg_patch_same)

lemma pt_count_patch:
  assumes "length s = PT_STUFF_SIZE" "length e = PT_ENTRY_SIZE" "k < 16"
  shows "pt_entryCnt (patch s (pt_entry_off k) e) = pt_entryCnt s"
  using assms by (simp add: pt_entryCnt_def pt_entry_off_simps pt_sizes layout)

lemma pt_put_entry_scan:
  assumes put: "pt_put_entry s e = Some s'" and wf: "pt_wf s" and len: "length e = PT_ENTRY_SIZE"
  obtains k where "k < pt_count s'" "pt_entries s' k = e"
    "\<And>j. j < k \<Longrightarrow> entry_type (pt_entries s' j) \<noteq> entry_type e"
proof -
  let ?P = "\<lambda>i. entry_type (pt_entries s i) = entry_type e"
  let ?k = "pt_scan ?P 0 (pt_count s)"
  have first: "\<And>j. j < ?k \<Longrightarrow> \<not> ?P j" using pt_scan_first [of 0 _ ?P] by simp
  have le: "?k \<le> pt_count s" by (simp add: pt_scan_le)
  from wf have 16: "pt_count s \<le> 16" and ls: "length s = PT_STUFF_SIZE"
    by (auto simp: pt_wf_def PT_ENTRY_MAX_def)
  show ?thesis
  proof (cases "?k < pt_count s")
    case True
    then have s': "s' = patch s (pt_entry_off ?k) e"
      using put by (simp add: pt_put_entry_def Let_def)
    show ?thesis
      using True 16 ls len first
      by (intro that [of ?k]) (auto simp: s' pt_entries_other pt_entries_same pt_count_patch)
  next
    case False
    let ?s1 = "patch s (pt_entry_off (pt_count s)) e"
    from False le have k: "?k = pt_count s" by simp
    from put False have room: "pt_count s < 16" and s': "s' = wr16 ?s1 6 (pt_entryCnt ?s1 + 1)"
      by (auto simp: pt_put_entry_def Let_def PT_ENTRY_MAX_def split: if_splits)
    have ent: "pt_entries s' j = pt_entries ?s1 j" if "j < 16" for j
      using that ls len room
      by (simp add: s' pt_entries_def pt_entry_off_simps pt_sizes layout)
    have "pt_count s' = pt_count s + 1"
      using ls len room by (simp add: s' pt_count_patch pt_entryCnt_def pt_sizes layout
          pt_entry_off_simps unat_word_ariths)
    then show ?thesis
      using room ls len first k
      by (intro that [of "pt_count s"]) (auto simp: ent pt_entries_other pt_entries_same)
  qed
qed

section \<open>The flash interface\<close>

text \<open>
  What the partition code relies on: reads return the cells, a successful erase sets the
  sectors it touches to \<open>0xFF\<close>, a successful write clears bits, and neither operation, successful or
  not, touches cells outside the 4 KiB sectors (erase) or the range (write) it was given.
  Addresses are 24 bits wide.
\<close>

locale flash_device =
  fixes gp :: "'f flash_ops" and cell :: "'f \<Rightarrow> nat \<Rightarrow> u8"
  assumes read_cells: "unat a + length buf \<le> 2 ^ 24 \<Longrightarrow>
      fl_read gp a buf f = (SUCCESS, map (\<lambda>i. cell f (unat a + i)) [0..<length buf])"
    and erase_cells: "\<lbrakk>fl_erase gp a n f = (SUCCESS, f'); 0 < n; unat a + unat n \<le> 2 ^ 24;
      unat a div 4096 * 4096 \<le> x; x < (unat a + unat n - 1) div 4096 * 4096 + 4096\<rbrakk> \<Longrightarrow> cell f' x = 0xFF"
    and erase_frame: "\<lbrakk>fl_erase gp a n f = (r, f'); 0 < n; unat a + unat n \<le> 2 ^ 24;
      x < unat a div 4096 * 4096 \<or> (unat a + unat n - 1) div 4096 * 4096 + 4096 \<le> x\<rbrakk> \<Longrightarrow> cell f' x = cell f x"
    and write_cells: "\<lbrakk>fl_write gp a bs f = (SUCCESS, f'); unat a + length bs \<le> 2 ^ 24; i < length bs\<rbrakk> \<Longrightarrow>
      cell f' (unat a + i) = cell f (unat a + i) AND bs ! i"
    and write_frame: "\<lbrakk>fl_write gp a bs f = (r, f'); unat a + length bs \<le> 2 ^ 24;
      x < unat a \<or> unat a + length bs \<le> x\<rbrakk> \<Longrightarrow> cell f' x = cell f x"

text \<open>The bytes of \<open>n\<close> cells, and the stored image of one table.\<close>

definition image_at :: "(nat \<Rightarrow> u8) \<Rightarrow> nat \<Rightarrow> nat \<Rightarrow> bytes" where
  "image_at m a n = map (\<lambda>i. m (a + i)) [0..<n]"

lemma length_image_at [simp]: "length (image_at m a n) = n"
  by (simp add: image_at_def)

lemma image_at_cong: "(\<And>i. i < n \<Longrightarrow> m (a + i) = m' (a + i)) \<Longrightarrow> image_at m a n = image_at m' a n"
  by (simp add: image_at_def)

lemma take_image_at: "k \<le> n \<Longrightarrow> take k (image_at m a n) = image_at m a k"
  by (simp add: image_at_def take_map)

abbreviation pt_stored :: "(nat \<Rightarrow> u8) \<Rightarrow> pt_table_id_type \<Rightarrow> bytes" where
  "pt_stored m i \<equiv> image_at m (unat (pt_table_address i)) PT_STUFF_SIZE"

definition pt_active :: "(nat \<Rightarrow> u8) \<Rightarrow> pt_table_id_type" where
  "pt_active m = pt_select (pt_table_valid (pt_stored m PT_TABLE_ID_0))
     (pt_table_valid (pt_stored m PT_TABLE_ID_1))
     (pt_age (pt_stored m PT_TABLE_ID_0)) (pt_age (pt_stored m PT_TABLE_ID_1))"

definition pt_other :: "pt_table_id_type \<Rightarrow> pt_table_id_type" where
  "pt_other i = (if i = PT_TABLE_ID_0 then PT_TABLE_ID_1 else PT_TABLE_ID_0)"

lemma pt_addresses: "unat (pt_table_address i) = (if i = PT_TABLE_ID_0 then 0x2D000 else 0x2E000)"
  by (simp add: pt_table_address_def BFLB_PT_TABLE0_ADDRESS_def BFLB_PT_TABLE1_ADDRESS_def)

lemma pt_active_valid:
  assumes "pt_active m = i" "i \<noteq> PT_TABLE_ID_INVALID"
  shows "pt_table_valid (pt_stored m i)"
  using assms by (auto simp: pt_active_def pt_select_def split: if_splits)

lemma pt_active_switch:
  assumes act: "pt_active m = i" "i \<noteq> PT_TABLE_ID_INVALID"
    and keep: "pt_stored m' i = pt_stored m i"
    and new: "pt_table_valid (pt_stored m' (pt_other i))"
      "pt_age (pt_stored m' (pt_other i)) = pt_age (pt_stored m i) + 1"
    and age: "pt_age (pt_stored m i) \<noteq> - 1"
  shows "pt_active m' = pt_other i"
proof -
  have "pt_age (pt_stored m i) < pt_age (pt_stored m i) + 1"
    using age by (rule word_less_Suc)
  with assms pt_active_valid [OF act] show ?thesis
    by (cases i) (auto simp: pt_active_def pt_select_def pt_other_def split: if_splits)
qed

lemma pt_active_kept:
  assumes act: "pt_active m = i" "i \<noteq> PT_TABLE_ID_INVALID"
    and keep: "pt_stored m' i = pt_stored m i"
  shows "pt_active m' \<noteq> PT_TABLE_ID_INVALID"
    and "\<not> pt_table_valid (pt_stored m' (pt_other i)) \<Longrightarrow> pt_active m' = i"
  using pt_active_valid [OF act] act keep
  by (cases i; auto simp: pt_active_def pt_select_def pt_other_def split: if_splits)+

context flash_device
begin

lemma read_table:
  "length buf = PT_STUFF_SIZE \<Longrightarrow> snd (fl_read gp (pt_table_address i) buf f) = pt_stored (cell f) i"
  using read_cells [of "pt_table_address i" buf f]
  by (simp add: image_at_def pt_addresses PT_STUFF_SIZE_def)

lemma read_tables:
  "length buf = PT_STUFF_SIZE \<Longrightarrow> snd (fl_read gp BFLB_PT_TABLE0_ADDRESS buf f) = pt_stored (cell f) PT_TABLE_ID_0"
  "length buf = PT_STUFF_SIZE \<Longrightarrow> snd (fl_read gp BFLB_PT_TABLE1_ADDRESS buf f) = pt_stored (cell f) PT_TABLE_ID_1"
  using read_table [of buf PT_TABLE_ID_0] read_table [of buf PT_TABLE_ID_1]
  by (simp_all add: pt_table_address_def)

text \<open>Reading the tables selects the active one.\<close>

lemma get_active:
  assumes "length b0 = PT_STUFF_SIZE" "length b1 = PT_STUFF_SIZE"
  shows "pt_table_get_active_partition_need_lock gp f (Some (b0, b1))
    = (pt_active (cell f), Some (pt_stored (cell f) PT_TABLE_ID_0, pt_stored (cell f) PT_TABLE_ID_1))"
  using assms
  by (simp add: pt_table_get_active_partition_need_lock_def read_tables pt_active_def Let_def)

text \<open>Erase, then write: the erased prefix holds the written bytes.\<close>

lemma store_image:
  assumes e: "fl_erase gp a n f = (SUCCESS, f1)" and w: "fl_write gp a bs f1 = (SUCCESS, f2)"
    and n: "0 < n" "unat n \<le> length bs" "unat a + length bs \<le> 2 ^ 24"
  shows "image_at (cell f2) (unat a) (unat n) = take (unat n) bs"
proof (rule nth_equalityI)
  fix i assume "i < length (image_at (cell f2) (unat a) (unat n))"
  then have i: "i < unat n" "i < length bs" using n by auto
  have "cell f1 (unat a + i) = 0xFF"
  proof (rule erase_cells [OF e])
    have "unat a + i \<le> unat a + unat n - 1" using i by simp
    also have "\<dots> < (unat a + unat n - 1) div 4096 * 4096 + 4096"
      using dividend_less_div_times [of 4096 "unat a + unat n - 1"] by simp
    finally show "unat a + i < (unat a + unat n - 1) div 4096 * 4096 + 4096" .
    show "unat a div 4096 * 4096 \<le> unat a + i" by (rule trans_le_add1) simp
  qed (use n in simp_all)
  then have "cell f2 (unat a + i) = 0xFF AND bs ! i"
    using write_cells [OF w n(3) i(2)] by simp
  then show "image_at (cell f2) (unat a) (unat n) ! i = take (unat n) bs ! i"
    using i by (simp add: image_at_def and.commute [of "0xFF"] and_0xFF_u8)
qed (use n in simp)

text \<open>Neither step of storing table \<open>i\<close> reaches the other table, whatever its outcome.\<close>

lemma erase_keeps_other:
  assumes "fl_erase gp (pt_table_address i) n f = (r, f')" "0 < n" "unat n \<le> PT_STUFF_SIZE"
    "j = pt_other i"
  shows "pt_stored (cell f') j = pt_stored (cell f) j"
proof (rule image_at_cong)
  fix k assume k: "k < PT_STUFF_SIZE"
  show "cell f' (unat (pt_table_address j) + k) = cell f (unat (pt_table_address j) + k)"
  proof (rule erase_frame [OF assms(1,2)])
    show "unat (pt_table_address i) + unat n \<le> 2 ^ 24"
      using assms(3) by (simp add: pt_addresses PT_STUFF_SIZE_def)
    have n: "0 < unat n" "unat n \<le> 596" using assms by (simp_all add: PT_STUFF_SIZE_def unat_gt_0)
    let ?a = "unat (pt_table_address i)" and ?b = "unat (pt_table_address j)"
    have "(?a + unat n - 1) div 4096 = ?a div 4096"
      using n by (cases i) (simp_all add: pt_addresses)
    then show "?b + k < ?a div 4096 * 4096 \<or> (?a + unat n - 1) div 4096 * 4096 + 4096 \<le> ?b + k"
      using k assms(4) by (cases i) (simp_all add: pt_addresses pt_other_def PT_STUFF_SIZE_def)
  qed
qed

lemma write_keeps_other:
  assumes "fl_write gp (pt_table_address i) bs f = (r, f')" "length bs \<le> PT_STUFF_SIZE"
    "j = pt_other i"
  shows "pt_stored (cell f') j = pt_stored (cell f) j"
proof (rule image_at_cong)
  fix k assume k: "k < PT_STUFF_SIZE"
  show "cell f' (unat (pt_table_address j) + k) = cell f (unat (pt_table_address j) + k)"
    by (rule write_frame [OF assms(1)])
      (use assms k in \<open>auto simp: pt_addresses pt_other_def PT_STUFF_SIZE_def split: if_splits\<close>)
qed

text \<open>
  The update protocol.  The caller passes the active table and the id of the other one;
  whatever the flash functions report, the active image is intact afterwards.
\<close>

lemma put_entry_wf:
  assumes act: "pt_active (cell f) = i" "i \<noteq> PT_TABLE_ID_INVALID"
    and put: "pt_put_entry (pt_stored (cell f) i) e = Some s1" and e: "length e = PT_ENTRY_SIZE"
  shows "pt_wf s1" "pt_age s1 = pt_age (pt_stored (cell f) i)" "pt_wf (wr32 s1 8 (pt_age s1 + 1))"
proof -
  have wf: "pt_wf (pt_stored (cell f) i)"
    by (rule pt_table_valid_wf [OF pt_active_valid [OF act]]) simp
  from pt_put_entry_wf [OF put wf e] show "pt_wf s1" "pt_age s1 = pt_age (pt_stored (cell f) i)" by auto
  then show "pt_wf (wr32 s1 8 (pt_age s1 + 1))"
    by (simp add: pt_wf_def pt_sizes pt_field_defs layout)
qed

lemma used_bounds:
  assumes "pt_wf s"
  shows "pt_used s \<le> PT_STUFF_SIZE" "0 < pt_used s"
    "unat (word_of_nat (PT_CONFIG_SIZE + pt_count s * PT_ENTRY_SIZE + 4) :: u32) = pt_used s"
    "(0 :: u32) < word_of_nat (PT_CONFIG_SIZE + pt_count s * PT_ENTRY_SIZE + 4)"
proof -
  have c: "pt_count s \<le> 16" using assms by (simp add: pt_wf_def PT_ENTRY_MAX_def)
  then show "pt_used s \<le> PT_STUFF_SIZE" "0 < pt_used s"
    by (simp_all add: pt_used_def pt_sizes)
  show u: "unat (word_of_nat (PT_CONFIG_SIZE + pt_count s * PT_ENTRY_SIZE + 4) :: u32) = pt_used s"
    using c by (subst unat_of_nat) (simp add: pt_used_def pt_sizes)
  show "(0 :: u32) < word_of_nat (PT_CONFIG_SIZE + pt_count s * PT_ENTRY_SIZE + 4)"
    unfolding word_less_nat_alt u by (simp add: pt_used_def)
qed

lemma update_keeps_active:
  assumes act: "pt_active (cell f) = i" "i \<noteq> PT_TABLE_ID_INVALID"
    and upd: "pt_table_update_entry gp (pt_other i) (Some (pt_stored (cell f) i)) (Some e) f = (r, st, f')"
    and e: "length e = PT_ENTRY_SIZE"
  shows "pt_stored (cell f') i = pt_stored (cell f) i"
proof (cases "pt_put_entry (pt_stored (cell f) i) e")
  case None
  with upd act show ?thesis
    by (auto simp: pt_table_update_entry_def Let_def split: if_splits)
next
  case (Some s1)
  let ?s2 = "pt_seal (wr32 s1 8 (pt_age s1 + 1))"
  let ?n = "word_of_nat (PT_CONFIG_SIZE + pt_count ?s2 * PT_ENTRY_SIZE + 4) :: u32"
  have wf: "pt_wf (wr32 s1 8 (pt_age s1 + 1))" by (rule put_entry_wf [OF act Some e])
  then have wf2: "pt_wf ?s2" by (auto simp: pt_wf_def [of ?s2] frame) (simp add: pt_wf_def)+
  have o: "i = pt_other (pt_other i)" using act by (cases i) (simp_all add: pt_other_def)
  obtain r1 f1 where er: "fl_erase gp (pt_table_address (pt_other i)) ?n f = (r1, f1)" by fastforce
  have k1: "pt_stored (cell f1) i = pt_stored (cell f) i"
    using used_bounds [OF wf2] by (intro erase_keeps_other [OF er _ _ o]) simp_all
  obtain r2 f2 where w: "fl_write gp (pt_table_address (pt_other i)) ?s2 f1 = (r2, f2)" by fastforce
  have k2: "pt_stored (cell f2) i = pt_stored (cell f1) i"
    using wf by (intro write_keeps_other [OF w _ o]) simp
  have "pt_other i \<noteq> PT_TABLE_ID_INVALID" by (simp add: pt_other_def)
  with upd Some er w have "f' = f1 \<or> f' = f2"
    by (auto simp: pt_table_update_entry_def Let_def split: if_splits)
  then show ?thesis using k1 k2 by auto
qed

lemma update_stored:
  assumes act: "pt_active (cell f) = i" "i \<noteq> PT_TABLE_ID_INVALID"
    and upd: "pt_table_update_entry gp (pt_other i) (Some (pt_stored (cell f) i)) (Some e) f
      = (PT_ERROR_SUCCESS, st, f')"
    and e: "length e = PT_ENTRY_SIZE"
  obtains s1 where "pt_put_entry (pt_stored (cell f) i) e = Some s1" "pt_wf s1"
    "pt_table_valid (pt_stored (cell f') (pt_other i))"
    "pt_age (pt_stored (cell f') (pt_other i)) = pt_age (pt_stored (cell f) i) + 1"
    "pt_entryCnt (pt_stored (cell f') (pt_other i)) = pt_entryCnt s1"
    "\<And>x. x < pt_count s1 \<Longrightarrow> pt_entries (pt_stored (cell f') (pt_other i)) x = pt_entries s1 x"
proof -
  obtain s1 where put: "pt_put_entry (pt_stored (cell f) i) e = Some s1"
    using upd act by (auto simp: pt_table_update_entry_def pt_other_def Let_def split: option.splits if_splits)
  let ?s = "wr32 s1 8 (pt_age s1 + 1)" and ?j = "pt_other i"
  let ?s2 = "pt_seal ?s"
  let ?n = "word_of_nat (PT_CONFIG_SIZE + pt_count ?s2 * PT_ENTRY_SIZE + 4) :: u32"
  have wf: "pt_wf ?s" by (rule put_entry_wf [OF act put e])
  then have wf2: "pt_wf ?s2" by (auto simp: pt_wf_def [of ?s2] frame) (simp add: pt_wf_def)+
  have jv: "?j \<noteq> PT_TABLE_ID_INVALID" by (simp add: pt_other_def)
  obtain r1 f1 where er: "fl_erase gp (pt_table_address ?j) ?n f = (r1, f1)" by fastforce
  obtain r2 f2 where w: "fl_write gp (pt_table_address ?j) ?s2 f1 = (r2, f2)" by fastforce
  have ok: "r1 = SUCCESS" "r2 = SUCCESS" "f' = f2"
    using upd put er w jv by (auto simp: pt_table_update_entry_def Let_def split: if_splits)
  note n = used_bounds [OF wf2]
  have "image_at (cell f2) (unat (pt_table_address ?j)) (unat ?n) = take (unat ?n) ?s2"
    by (rule store_image [OF er [unfolded ok] w [unfolded ok]])
      (use n wf in \<open>simp_all add: pt_addresses PT_STUFF_SIZE_def\<close>)
  then have "take (pt_used ?s2) (pt_stored (cell f') ?j) = take (pt_used ?s2) ?s2"
    using n by (simp add: take_image_at ok)
  note same = pt_same_used [OF this]
  have cnt: "pt_count ?s2 \<le> PT_ENTRY_MAX" using wf2 by (simp add: pt_wf_def)
  note same = same [OF _ _ cnt]
  have s1: "pt_wf s1" "pt_age s1 = pt_age (pt_stored (cell f) i)" by (rule put_entry_wf [OF act put e])+
  then have age2: "pt_age ?s = pt_age (pt_stored (cell f) i) + 1"
    by (simp add: pt_age_def pt_wf_def PT_STUFF_SIZE_def layout)
  have c1: "pt_count s1 \<le> 16" "length s1 = 596"
    using s1 by (simp_all add: pt_wf_def PT_ENTRY_MAX_def PT_STUFF_SIZE_def)
  have cs: "pt_entryCnt ?s = pt_entryCnt s1" using c1 by (simp add: pt_entryCnt_def layout)
  show ?thesis
  proof (rule that [OF put s1(1)])
    show "pt_table_valid (pt_stored (cell f') ?j)" "pt_age (pt_stored (cell f') ?j) = pt_age (pt_stored (cell f) i) + 1"
      "pt_entryCnt (pt_stored (cell f') ?j) = pt_entryCnt s1"
      using same wf age2 cs by (simp_all add: pt_seal_valid pt_seal_frame)
  next
    fix x assume x: "x < pt_count s1"
    have "pt_entries (pt_stored (cell f') ?j) x = pt_entries ?s2 x"
      using same(4) [of x] wf x cs by (simp add: pt_seal_frame)
    also have "\<dots> = pt_entries ?s x" using wf x cs by (simp add: pt_seal_frame)
    also have "\<dots> = pt_entries s1 x"
      using x c1 by (simp add: pt_entries_def pt_entry_off_simps pt_sizes layout)
    finally show "pt_entries (pt_stored (cell f') ?j) x = pt_entries s1 x" .
  qed
qed

lemma update_success:
  assumes act: "pt_active (cell f) = i" "i \<noteq> PT_TABLE_ID_INVALID"
    and upd: "pt_table_update_entry gp (pt_other i) (Some (pt_stored (cell f) i)) (Some e) f
      = (PT_ERROR_SUCCESS, st, f')"
    and e: "length e = PT_ENTRY_SIZE"
    and age: "pt_age (pt_stored (cell f) i) \<noteq> - 1"
  shows "pt_active (cell f') = pt_other i"
    and "pt_table_get_active_entries_by_id (Some (pt_stored (cell f') (pt_other i)))
      (ucast (entry_type e)) (Some b) = (PT_ERROR_SUCCESS, Some e)"
proof -
  let ?t = "pt_stored (cell f') (pt_other i)"
  obtain s1 where put: "pt_put_entry (pt_stored (cell f) i) e = Some s1" and wf: "pt_wf s1"
    and new: "pt_table_valid ?t" "pt_age ?t = pt_age (pt_stored (cell f) i) + 1" "pt_entryCnt ?t = pt_entryCnt s1"
      "\<And>x. x < pt_count s1 \<Longrightarrow> pt_entries ?t x = pt_entries s1 x"
    using update_stored [OF act upd e] by blast
  show "pt_active (cell f') = pt_other i"
    by (rule pt_active_switch [OF act update_keeps_active [OF act upd e] _ _ age]) (use new in simp_all)
  have wf0: "pt_wf (pt_stored (cell f) i)"
    by (rule pt_table_valid_wf [OF pt_active_valid [OF act]]) simp
  obtain k where k: "k < pt_count s1" "pt_entries s1 k = e"
    "\<And>j. j < k \<Longrightarrow> entry_type (pt_entries s1 j) \<noteq> entry_type e"
    using pt_put_entry_scan [OF put wf0 e] by blast
  have sc: "pt_scan (\<lambda>x. ucast (entry_type (pt_entries ?t x)) = (ucast (entry_type e) :: u32)) 0 (pt_count s1) = k"
    by (rule pt_scan_eqI) (use k new in \<open>auto simp: ucast_u8_inj\<close>)
  then show "pt_table_get_active_entries_by_id (Some ?t) (ucast (entry_type e)) (Some b) = (PT_ERROR_SUCCESS, Some e)"
    using k(1,2) new by (simp add: pt_table_get_active_entries_by_id_def Let_def)
qed

text \<open>A created table fails the check of the entries' CRC.\<close>

lemma create_not_valid:
  assumes i: "i \<noteq> PT_TABLE_ID_INVALID" and len: "length tab = PT_CONFIG_SIZE"
    and create: "pt_table_create gp i tab f = (PT_ERROR_SUCCESS, f')"
  shows "\<not> pt_table_valid (pt_stored (cell f') i)"
proof -
  let ?a = "pt_table_address i" and ?n = "word_of_nat PT_CONFIG_SIZE :: u32"
  define h where "h = wr32 (wr16 (wr16 (wr32 tab 0 BFLB_PT_MAGIC_CODE) 4 0) 6 0) 8 0"
  define h' where "h' = wr32 h 12 (BFLB_Soft_CRC32 (seg h 0 (PT_CONFIG_SIZE - 4)))"
  obtain r1 f1 where e: "fl_erase gp ?a ?n f = (r1, f1)" by fastforce
  obtain r2 f2 where w: "fl_write gp ?a h' f1 = (r2, f2)" by fastforce
  have ok: "r1 = SUCCESS" "r2 = SUCCESS" "f' = f2"
    using create i e w by (auto simp: pt_table_create_def h_def h'_def Let_def split: if_splits)
  have lh: "length h' = 16" using len by (simp add: h_def h'_def PT_CONFIG_SIZE_def)
  have n: "unat ?n = 16" "0 < ?n" by (simp_all add: PT_CONFIG_SIZE_def)
  let ?s = "pt_stored (cell f') i"
  have "image_at (cell f2) (unat ?a) (unat ?n) = take (unat ?n) h'"
    by (rule store_image [OF e [unfolded ok] w [unfolded ok]])
      (use n lh in \<open>simp_all add: pt_addresses\<close>)
  then have "take 16 ?s = h'" using ok lh n by (simp add: take_image_at PT_STUFF_SIZE_def)
  then have "rd16 ?s 6 = rd16 h' 6" using rd_take(2) [of 6 16 ?s] by (simp add: PT_STUFF_SIZE_def)
  also have "rd16 h' 6 = 0" using len by (simp add: h_def h'_def PT_CONFIG_SIZE_def layout)
  finally have cnt: "pt_count ?s = 0" by (simp add: pt_entryCnt_def)
  have ff: "cell f' (unat ?a + k) = 0xFF" if "16 \<le> k" "k < 20" for k
  proof -
    have "cell f1 (unat ?a + k) = 0xFF"
      by (rule erase_cells [OF e [unfolded ok]]) (use n that in \<open>auto simp: pt_addresses\<close>)
    moreover have "cell f2 (unat ?a + k) = cell f1 (unat ?a + k)"
      by (rule write_frame [OF w]) (use lh that in \<open>auto simp: pt_addresses\<close>)
    ultimately show ?thesis using ok by simp
  qed
  have "rd32 ?s 16 = 0xFFFFFFFF"
    using ff [of 16] ff [of 17] ff [of 18] ff [of 19]
    by (simp add: rd32_def image_at_def PT_STUFF_SIZE_def)
  moreover have "BFLB_Soft_CRC32 [] = 0" by simp
  ultimately show ?thesis using cnt by (simp add: pt_table_valid_def PT_CONFIG_SIZE_def Let_def)
qed

end

section \<open>In-application update\<close>

lemma other_bit_cases: "other_bit a = (if active_bit a = 0 then 1 else 0)"
  "active_bit (word_of_nat (other_bit a)) = other_bit a"
  using word_and_1_cases [of a] by (auto simp: other_bit_def active_bit_def)

lemma pt_switch_wf:
  assumes "pt_wf s" "0 < pt_count s"
  shows "pt_wf (pt_switch s)" "pt_table_valid (pt_switch s)" "pt_age (pt_switch s) = pt_age s + 1"
    "pt_count (pt_switch s) = pt_count s"
    "entry_active_index (pt_entries (pt_switch s) 0) = word_of_nat (other_bit (entry_active_index (pt_entries s 0)))"
    "k < 2 \<Longrightarrow> entry_start_address (pt_entries (pt_switch s) 0) k = entry_start_address (pt_entries s 0) k"
proof -
  let ?s1 = "wr32 s 8 (pt_age s + 1)"
  let ?s2 = "wr8 ?s1 (pt_entry_off 0 + 2) (word_of_nat (other_bit (entry_active_index (pt_entries ?s1 0))))"
  have sw: "pt_switch s = pt_seal ?s2" by (simp add: pt_switch_def Let_def)
  have wf2: "pt_wf ?s2"
    using assms by (simp add: pt_wf_def pt_sizes pt_field_defs pt_entry_off_simps layout)
  show "pt_wf (pt_switch s)"  using wf2 by (auto simp: sw pt_wf_def [of "pt_seal _"] frame) (simp add: pt_wf_def)+
  show "pt_table_valid (pt_switch s)" unfolding sw by (rule pt_seal_valid [OF wf2])
  show "pt_age (pt_switch s) = pt_age s + 1"
    using assms wf2 by (simp add: sw pt_seal_frame) (simp add: pt_wf_def pt_sizes pt_field_defs pt_entry_off_simps layout)
  have c: "pt_count ?s2 = pt_count s"
    using assms by (simp add: pt_wf_def pt_sizes pt_field_defs pt_entry_off_simps layout)
  then show "pt_count (pt_switch s) = pt_count s" using wf2 by (simp add: sw pt_seal_frame)
  have e: "pt_entries (pt_switch s) 0 = pt_entries ?s2 0" using wf2 c assms by (simp add: sw pt_seal_frame)
  show "entry_active_index (pt_entries (pt_switch s) 0) = word_of_nat (other_bit (entry_active_index (pt_entries s 0)))"
    unfolding e using assms
    by (simp add: pt_entries_def entry_active_index_def pt_wf_def pt_sizes pt_entry_off_simps rd8_def nth_patch layout)
  show "k < 2 \<Longrightarrow> entry_start_address (pt_entries (pt_switch s) 0) k = entry_start_address (pt_entries s 0) k"
    unfolding e using assms
    by (simp add: pt_entries_def entry_start_address_def pt_wf_def pt_sizes pt_entry_off_simps rd32_def nth_patch layout)
qed

context flash_device
begin

text \<open>\<open>get_iap_para\<close> reports the slot to write and which table to switch to.\<close>

lemma get_iap:
  assumes act: "pt_active (cell f) = i" "i \<noteq> PT_TABLE_ID_INVALID"
    and b: "length b0 = PT_STUFF_SIZE" "length b1 = PT_STUFF_SIZE"
  shows "pt_table_get_iap_para gp f (b0, b1) para =
    (PT_ERROR_SUCCESS, iap_from para (pt_stored (cell f) i) (if i = PT_TABLE_ID_0 then 1 else 0))"
  using act b
  by (auto simp: pt_table_get_iap_para_def pt_active_def pt_select_def read_tables Let_def split: if_splits)

lemma write_back:
  assumes wb: "pt_write_back gp (pt_table_address j) s f = (r, f')" and s: "pt_wf s"
    and j: "j \<noteq> PT_TABLE_ID_INVALID"
  shows "pt_stored (cell f') (pt_other j) = pt_stored (cell f) (pt_other j)"
    and "r = PT_ERROR_SUCCESS \<Longrightarrow> pt_stored (cell f') j = s"
proof -
  let ?n = "word_of_nat PT_STUFF_SIZE :: u32"
  have n: "unat ?n = PT_STUFF_SIZE" "0 < ?n" by (simp_all add: PT_STUFF_SIZE_def)
  have ls: "length s = PT_STUFF_SIZE" using s by (simp add: pt_wf_def)
  obtain r1 f1 where e: "fl_erase gp (pt_table_address j) ?n f = (r1, f1)" by fastforce
  obtain r2 f2 where w: "fl_write gp (pt_table_address j) s f1 = (r2, f2)" by fastforce
  have k1: "pt_stored (cell f1) (pt_other j) = pt_stored (cell f) (pt_other j)"
    using n by (intro erase_keeps_other [OF e]) simp_all
  have k2: "pt_stored (cell f2) (pt_other j) = pt_stored (cell f1) (pt_other j)"
    using ls by (intro write_keeps_other [OF w]) simp_all
  from wb e w have "f' = f1 \<or> f' = f2" by (auto simp: pt_write_back_def Let_def split: if_splits)
  then show "pt_stored (cell f') (pt_other j) = pt_stored (cell f) (pt_other j)" using k1 k2 by auto
  assume "r = PT_ERROR_SUCCESS"
  with wb e w have ok: "r1 = SUCCESS" "r2 = SUCCESS" "f' = f2"
    by (auto simp: pt_write_back_def Let_def split: if_splits)
  have "image_at (cell f2) (unat (pt_table_address j)) (unat ?n) = take (unat ?n) s"
    by (rule store_image [OF e [unfolded ok] w [unfolded ok] n(2)])
      (use n ls in \<open>simp_all add: pt_addresses PT_STUFF_SIZE_def\<close>)
  then show "pt_stored (cell f') j = s" using ls ok by (simp add: n)
qed

lemma set_iap:
  assumes act: "pt_active (cell f) = i" "i \<noteq> PT_TABLE_ID_INVALID"
    and para: "inactive_table_index para = (if i = PT_TABLE_ID_0 then 1 else 0)"
    and cnt: "0 < pt_count (pt_stored (cell f) i)" and b: "length b = PT_STUFF_SIZE"
    and set: "pt_table_set_iap_para gp para b f = (r, f')"
  shows "pt_stored (cell f') i = pt_stored (cell f) i"
    and "r = PT_ERROR_SUCCESS \<Longrightarrow> pt_stored (cell f') (pt_other i) = pt_switch (pt_stored (cell f) i)"
proof -
  have wf: "pt_wf (pt_stored (cell f) i)"
    by (rule pt_table_valid_wf [OF pt_active_valid [OF act]]) simp
  have "pt_write_back gp (pt_table_address (pt_other i)) (pt_switch (pt_stored (cell f) i)) f = (r, f')"
    using set para act b
    by (cases i) (simp_all add: pt_table_set_iap_para_def pt_other_def pt_table_address_def read_tables Let_def)
  note wb = write_back [OF this pt_switch_wf(1) [OF wf cnt]]
  have o: "pt_other i \<noteq> PT_TABLE_ID_INVALID" "pt_other (pt_other i) = i"
    using act by (cases i; simp add: pt_other_def)+
  show "pt_stored (cell f') i = pt_stored (cell f) i" using wb(1) [OF o(1)] by (simp add: o)
  show "r = PT_ERROR_SUCCESS \<Longrightarrow> pt_stored (cell f') (pt_other i) = pt_switch (pt_stored (cell f) i)"
    using wb(2) [OF o(1)] by simp
qed

text \<open>
  The in-application update: after \<open>get_iap_para\<close> and a successful \<open>set_iap_para\<close>, the
  other table is active and its entry 0 boots the slot whose address \<open>get_iap_para\<close> gave.
\<close>

lemma iap_switch:
  assumes act: "pt_active (cell f) = i" "i \<noteq> PT_TABLE_ID_INVALID"
    and cnt: "0 < pt_count (pt_stored (cell f) i)"
    and age: "pt_age (pt_stored (cell f) i) \<noteq> - 1"
    and b: "length b0 = PT_STUFF_SIZE" "length b1 = PT_STUFF_SIZE" "length b = PT_STUFF_SIZE"
    and get: "pt_table_get_iap_para gp f (b0, b1) para = (PT_ERROR_SUCCESS, para')"
    and same: "\<And>j. pt_stored (cell g) j = pt_stored (cell f) j"
    and set: "pt_table_set_iap_para gp para' b g = (PT_ERROR_SUCCESS, g')"
  shows "pt_active (cell g') = pt_other i"
    and "(let e = pt_entries (pt_stored (cell g') (pt_other i)) 0
          in entry_start_address e (active_bit (entry_active_index e)) = iap_write_addr para')"
proof -
  have para: "para' = iap_from para (pt_stored (cell f) i) (if i = PT_TABLE_ID_0 then 1 else 0)"
    using get get_iap [OF act b(1,2)] by simp
  have actg: "pt_active (cell g) = i" using act(1) same by (simp add: pt_active_def)
  have wf: "pt_wf (pt_stored (cell f) i)"
    by (rule pt_table_valid_wf [OF pt_active_valid [OF act]]) simp
  note sw = pt_switch_wf [OF wf cnt]
  have st: "pt_stored (cell g') i = pt_stored (cell g) i"
    "pt_stored (cell g') (pt_other i) = pt_switch (pt_stored (cell f) i)"
    using set_iap [OF actg act(2) _ _ b(3) set] cnt same by (simp_all add: para iap_from_def Let_def)
  show "pt_active (cell g') = pt_other i"
    by (rule pt_active_switch [OF actg act(2) st(1)]) (use st sw age same in simp_all)
  show "(let e = pt_entries (pt_stored (cell g') (pt_other i)) 0
          in entry_start_address e (active_bit (entry_active_index e)) = iap_write_addr para')"
    using st sw
    by (simp add: Let_def para iap_from_def other_bit_cases(2)) (simp add: other_bit_def)
qed

end

end
