(* ===== verification/Flash.thy ===== *)
theory Flash
  imports Partition
begin

text \<open>
  The serial flash driver under the partition code: \<open>bl702_sflash.c\<close> (status registers,
  write enable, the erase loop that picks 64K, 32K or sector erases, the page-split program
  loop, the buffered read loop), the \<open>XIP_SFlash\<close> wrappers and \<open>hal_flash.c\<close>.  The SPI
  controller and the flash chip are hardware: a record of transactions over an arbitrary
  state \<open>'c\<close>, with the documented behaviour of a NOR chip as the locale \<open>nor_chip\<close>.
\<close>

section \<open>Configuration, commands and the controller\<close>

text \<open>The fields of \<open>SPI_Flash_Cfg_Type\<close> that the modelled operations read.\<close>

record flash_cfg =
  cfg_ioMode :: u8
  cfg_cReadSupport :: u8
  cfg_sectorSize :: u8
  cfg_pageSize :: u16
  cfg_chipEraseCmd :: u8
  cfg_sectorEraseCmd :: u8
  cfg_blk32EraseCmd :: u8
  cfg_blk64EraseCmd :: u8
  cfg_writeEnableCmd :: u8
  cfg_pageProgramCmd :: u8
  cfg_qpageProgramCmd :: u8
  cfg_qppAddrMode :: u8
  cfg_fastReadCmd :: u8
  cfg_frDmyClk :: u8
  cfg_fastReadDoCmd :: u8
  cfg_frDoDmyClk :: u8
  cfg_fastReadDioCmd :: u8
  cfg_frDioDmyClk :: u8
  cfg_fastReadQoCmd :: u8
  cfg_frQoDmyClk :: u8
  cfg_fastReadQioCmd :: u8
  cfg_frQioDmyClk :: u8
  cfg_wrEnableIndex :: u8
  cfg_busyIndex :: u8
  cfg_wrEnableBit :: u8
  cfg_busyBit :: u8
  cfg_wrEnableReadRegLen :: u8
  cfg_busyReadRegLen :: u8
  cfg_readRegCmd :: bytes
  cfg_cReadMode :: u8
  cfg_timeEsector :: u16
  cfg_timeE32k :: u16
  cfg_timeE64k :: u16
  cfg_timePagePgm :: u16
  cfg_timeCe :: u16

text \<open>\<open>SF_Ctrl_IO_Type\<close>; the wrappers pass \<open>ioMode & 0x0f\<close>.\<close>

definition SF_CTRL_NIO_MODE :: u8 where "SF_CTRL_NIO_MODE = 0"
definition SF_CTRL_DO_MODE :: u8 where "SF_CTRL_DO_MODE = 1"
definition SF_CTRL_QO_MODE :: u8 where "SF_CTRL_QO_MODE = 2"
definition SF_CTRL_DIO_MODE :: u8 where "SF_CTRL_DIO_MODE = 3"
definition SF_CTRL_QIO_MODE :: u8 where "SF_CTRL_QIO_MODE = 4"

lemmas io_modes = SF_CTRL_NIO_MODE_def SF_CTRL_DO_MODE_def SF_CTRL_QO_MODE_def
  SF_CTRL_DIO_MODE_def SF_CTRL_QIO_MODE_def

datatype sf_rw = SF_CTRL_READ | SF_CTRL_WRITE

record sf_cmd =
  rwFlag :: sf_rw
  addrMode :: u8
  addrSize :: u8
  dummyClks :: u8
  dataMode :: u8
  nbData :: u32
  cmdBuf0 :: u32
  cmdBuf1 :: u32

definition sf_cmd_zero :: sf_cmd where
  "sf_cmd_zero = \<lparr>rwFlag = SF_CTRL_READ, addrMode = 0, addrSize = 0, dummyClks = 0,
     dataMode = 0, nbData = 0, cmdBuf0 = 0, cmdBuf1 = 0\<rparr>"

text \<open>\<open>cmd << 24\<close> combined with a 24-bit address, and the opcode and address of a command.\<close>

definition sf_cmd_word :: "u8 \<Rightarrow> u32 \<Rightarrow> u32" where
  "sf_cmd_word cmd addr = push_bit 24 (ucast cmd) OR addr"

definition sf_opcode :: "sf_cmd \<Rightarrow> u8" where
  "sf_opcode c = ucast (drop_bit 24 (cmdBuf0 c))"

definition sf_addr :: "sf_cmd \<Rightarrow> nat" where
  "sf_addr c = unat (cmdBuf0 c AND 0xFFFFFF)"

text \<open>
  The controller and the chip behind it: \<open>SF_Ctrl_SendCmd\<close> with the contents of the
  controller buffer, \<open>SF_Ctrl_GetBusyState\<close>, the buffer after a read, a delay in us, and the
  mode-register sequences around an access (\<open>XIP_SFlash_State_Save\<close>, which always reports
  success, and \<open>XIP_SFlash_State_Restore\<close>).
\<close>

record 'c sf_ctrl =
  sc_send :: "sf_cmd \<Rightarrow> bytes \<Rightarrow> 'c \<Rightarrow> 'c"
  sc_busy :: "'c \<Rightarrow> bool \<times> 'c"
  sc_buf :: "'c \<Rightarrow> bytes"
  sc_delay :: "nat \<Rightarrow> 'c \<Rightarrow> 'c"
  sc_save :: "'c \<Rightarrow> 'c"
  sc_restore :: "'c \<Rightarrow> 'c"

section \<open>Status registers\<close>

text \<open>
  The driver's polling loop: poll until idle, delaying after every busy answer; the
  \<open>limit + 1\<close>-st busy answer is an error (\<open>cnt++; if (cnt > limit) return ERROR\<close>).
\<close>

fun sf_poll :: "('c \<Rightarrow> bool \<times> 'c) \<Rightarrow> ('c \<Rightarrow> 'c) \<Rightarrow> nat \<Rightarrow> 'c \<Rightarrow> bl_err \<times> 'c" where
  "sf_poll busy delay limit c =
     (let (b, c1) = busy c
      in if \<not> b then (SUCCESS, c1)
         else (case limit of 0 \<Rightarrow> (ERROR, delay c1) | Suc l \<Rightarrow> sf_poll busy delay l (delay c1)))"

declare sf_poll.simps [simp del]

definition SFlash_Read_Reg :: "'c sf_ctrl \<Rightarrow> flash_cfg \<Rightarrow> u8 \<Rightarrow> u8 \<Rightarrow> 'c \<Rightarrow> bytes option \<times> 'c" where
  "SFlash_Read_Reg ct cfg regIndex regLen c =
     (let cmd = sf_cmd_zero\<lparr>cmdBuf0 := sf_cmd_word (cfg_readRegCmd cfg ! unat regIndex) 0,
                            nbData := ucast regLen\<rparr>;
          (r, c1) = sf_poll (sc_busy ct) (sc_delay ct 1) 1000 (sc_send ct cmd [] c)
      in if r = SUCCESS then (Some (take (unat regLen) (sc_buf ct c1)), c1) else (None, c1))"

text \<open>\<open>uint32_t stat = 0\<close> with the register bytes copied over it; it stays 0 on an error.\<close>

definition reg_stat :: "bytes option \<Rightarrow> u32" where
  "reg_stat r = (case r of None \<Rightarrow> 0 | Some bs \<Rightarrow> rd32 (patch [0, 0, 0, 0] 0 bs) 0)"

definition SFlash_Busy :: "'c sf_ctrl \<Rightarrow> flash_cfg \<Rightarrow> 'c \<Rightarrow> bool \<times> 'c" where
  "SFlash_Busy ct cfg c =
     (let (r, c1) = SFlash_Read_Reg ct cfg (cfg_busyIndex cfg) (cfg_busyReadRegLen cfg) c
      in (bit (reg_stat r) (unat (cfg_busyBit cfg)), c1))"

definition SFlash_Write_Enable :: "'c sf_ctrl \<Rightarrow> flash_cfg \<Rightarrow> 'c \<Rightarrow> bl_err \<times> 'c" where
  "SFlash_Write_Enable ct cfg c =
     (let c1 = sc_send ct (sf_cmd_zero\<lparr>cmdBuf0 := sf_cmd_word (cfg_writeEnableCmd cfg) 0\<rparr>) [] c;
          (r, c2) = SFlash_Read_Reg ct cfg (cfg_wrEnableIndex cfg) (cfg_wrEnableReadRegLen cfg) c1
      in (if bit (reg_stat r) (unat (cfg_wrEnableBit cfg)) then SUCCESS else ERROR, c2))"

section \<open>Erase\<close>

text \<open>
  The body the four erase functions share: write enable, the command, then polling every
  500 us for at most \<open>time * 3\<close> times.
\<close>

definition sf_erase_block ::
  "'c sf_ctrl \<Rightarrow> flash_cfg \<Rightarrow> u8 \<Rightarrow> u8 \<Rightarrow> u32 \<Rightarrow> u16 \<Rightarrow> 'c \<Rightarrow> bl_err \<times> 'c" where
  "sf_erase_block ct cfg op asize addr time c =
     (let (r, c1) = SFlash_Write_Enable ct cfg c
      in if r \<noteq> SUCCESS then (r, c1)
         else sf_poll (SFlash_Busy ct cfg) (sc_delay ct 500) (unat time * 3)
                (sc_send ct (sf_cmd_zero\<lparr>cmdBuf0 := sf_cmd_word op addr, addrSize := asize\<rparr>) [] c1))"

definition SFlash_Chip_Erase :: "'c sf_ctrl \<Rightarrow> flash_cfg \<Rightarrow> 'c \<Rightarrow> bl_err \<times> 'c" where
  "SFlash_Chip_Erase ct cfg = sf_erase_block ct cfg (cfg_chipEraseCmd cfg) 0 0 (cfg_timeCe cfg)"

definition SFlash_Sector_Erase :: "'c sf_ctrl \<Rightarrow> flash_cfg \<Rightarrow> u32 \<Rightarrow> 'c \<Rightarrow> bl_err \<times> 'c" where
  "SFlash_Sector_Erase ct cfg secNum =
     sf_erase_block ct cfg (cfg_sectorEraseCmd cfg) 3
       (ucast (cfg_sectorSize cfg) * 1024 * secNum) (cfg_timeEsector cfg)"

definition BFLB_SPIFLASH_BLK32K_SIZE :: u32 where "BFLB_SPIFLASH_BLK32K_SIZE = 32 * 1024"
definition BFLB_SPIFLASH_BLK64K_SIZE :: u32 where "BFLB_SPIFLASH_BLK64K_SIZE = 64 * 1024"
definition BFLB_SPIFLASH_CMD_INVALID :: u8 where "BFLB_SPIFLASH_CMD_INVALID = 0xff"

definition SFlash_Blk32_Erase :: "'c sf_ctrl \<Rightarrow> flash_cfg \<Rightarrow> u32 \<Rightarrow> 'c \<Rightarrow> bl_err \<times> 'c" where
  "SFlash_Blk32_Erase ct cfg blkNum =
     sf_erase_block ct cfg (cfg_blk32EraseCmd cfg) 3 (BFLB_SPIFLASH_BLK32K_SIZE * blkNum) (cfg_timeE32k cfg)"

definition SFlash_Blk64_Erase :: "'c sf_ctrl \<Rightarrow> flash_cfg \<Rightarrow> u32 \<Rightarrow> 'c \<Rightarrow> bl_err \<times> 'c" where
  "SFlash_Blk64_Erase ct cfg blkNum =
     sf_erase_block ct cfg (cfg_blk64EraseCmd cfg) 3 (BFLB_SPIFLASH_BLK64K_SIZE * blkNum) (cfg_timeE64k cfg)"

text \<open>
  One round of the erase loop: the result, the new start address and the chip.
\<close>

definition sf_erase_step ::
  "'c sf_ctrl \<Rightarrow> flash_cfg \<Rightarrow> u32 \<Rightarrow> u32 \<Rightarrow> 'c \<Rightarrow> bl_err \<times> u32 \<times> 'c" where
  "sf_erase_step ct cfg startaddr endaddr c =
     (let len = endaddr - startaddr + 1;
          sec = ucast (cfg_sectorSize cfg) * 1024
      in if cfg_blk64EraseCmd cfg \<noteq> BFLB_SPIFLASH_CMD_INVALID
            \<and> startaddr AND (BFLB_SPIFLASH_BLK64K_SIZE - 1) = 0
            \<and> len > BFLB_SPIFLASH_BLK64K_SIZE - sec
         then (let (r, c1) = SFlash_Blk64_Erase ct cfg (startaddr div BFLB_SPIFLASH_BLK64K_SIZE) c
               in (r, startaddr + BFLB_SPIFLASH_BLK64K_SIZE, c1))
         else if cfg_blk32EraseCmd cfg \<noteq> BFLB_SPIFLASH_CMD_INVALID
            \<and> startaddr AND (BFLB_SPIFLASH_BLK32K_SIZE - 1) = 0
            \<and> len > BFLB_SPIFLASH_BLK32K_SIZE - sec
         then (let (r, c1) = SFlash_Blk32_Erase ct cfg (startaddr div BFLB_SPIFLASH_BLK32K_SIZE) c
               in (r, startaddr + BFLB_SPIFLASH_BLK32K_SIZE, c1))
         else (let s = startaddr AND NOT (sec - 1);
                   (r, c1) = SFlash_Sector_Erase ct cfg (s div ucast (cfg_sectorSize cfg) div 1024) c
               in (r, s + sec, c1)))"

text \<open>
  \<open>while (startaddr <= endaddr)\<close>: the start address may wrap around at the top of the
  address space, so the loop is partial; None is not returning.
\<close>

partial_function (option) SFlash_Erase ::
  "'c sf_ctrl \<Rightarrow> flash_cfg \<Rightarrow> u32 \<Rightarrow> u32 \<Rightarrow> 'c \<Rightarrow> (bl_err \<times> 'c) option" where
  "SFlash_Erase ct cfg startaddr endaddr c =
     (if startaddr \<le> endaddr then
        (let (r, s, c1) = sf_erase_step ct cfg startaddr endaddr c
         in if r \<noteq> SUCCESS then Some (ERROR, c1) else SFlash_Erase ct cfg s endaddr c1)
      else Some (SUCCESS, c))"

section \<open>Program and read\<close>

text \<open>The page-split loop over the remaining data (a zero page size divides by zero in C).\<close>

function sf_program_loop ::
  "'c sf_ctrl \<Rightarrow> flash_cfg \<Rightarrow> u8 \<Rightarrow> sf_cmd \<Rightarrow> u32 \<Rightarrow> bytes \<Rightarrow> 'c \<Rightarrow> bl_err \<times> 'c" where
  "sf_program_loop ct cfg op cmd addr data c =
     (if data = [] \<or> cfg_pageSize cfg = 0 then (SUCCESS, c)
      else
        (let (r, c1) = SFlash_Write_Enable ct cfg c
         in if r \<noteq> SUCCESS then (r, c1)
            else
              (let page = unat (cfg_pageSize cfg);
                   curLen = min (page - unat addr mod page) (length data);
                   cmd1 = cmd\<lparr>cmdBuf0 := sf_cmd_word op addr, nbData := word_of_nat curLen\<rparr>;
                   (r2, c2) = sf_poll (SFlash_Busy ct cfg) (sc_delay ct 100)
                                (unat (cfg_timePagePgm cfg) * 20) (sc_send ct cmd1 (take curLen data) c1)
               in if r2 \<noteq> SUCCESS then (ERROR, c2)
                  else sf_program_loop ct cfg op cmd (addr + word_of_nat curLen) (drop curLen data) c2)))"
  by pat_completeness auto
termination
  by (relation "measure (\<lambda>(ct, cfg, op, cmd, addr, data, c). length data)")
    (auto simp: min_def unat_gt_0 unat_eq_0 not_le intro!: mod_less_divisor)

declare sf_program_loop.simps [simp del]

definition SFlash_Program ::
  "'c sf_ctrl \<Rightarrow> flash_cfg \<Rightarrow> u8 \<Rightarrow> u32 \<Rightarrow> bytes \<Rightarrow> 'c \<Rightarrow> bl_err \<times> 'c" where
  "SFlash_Program ct cfg ioMode addr data c =
     (if ioMode = SF_CTRL_NIO_MODE \<or> ioMode = SF_CTRL_DO_MODE \<or> ioMode = SF_CTRL_DIO_MODE then
        sf_program_loop ct cfg (cfg_pageProgramCmd cfg)
          (sf_cmd_zero\<lparr>rwFlag := SF_CTRL_WRITE, addrSize := 3\<rparr>) addr data c
      else if ioMode = SF_CTRL_QIO_MODE \<or> ioMode = SF_CTRL_QO_MODE then
        sf_program_loop ct cfg (cfg_qpageProgramCmd cfg)
          (sf_cmd_zero\<lparr>rwFlag := SF_CTRL_WRITE, addrSize := 3,
             addrMode := cfg_qppAddrMode cfg, dataMode := 2\<rparr>) addr data c
      else (ERROR, c))"

definition FLASH_CTRL_BUF_SIZE :: nat where "FLASH_CTRL_BUF_SIZE = 256"
definition SFCTRL_BUSY_STATE_TIMEOUT :: nat where "SFCTRL_BUSY_STATE_TIMEOUT = 5 * 160 * 1000"

text \<open>\<open>timeOut--; if (timeOut == 0) return TIMEOUT\<close>: the last allowed poll must not be busy.\<close>

function sf_read_loop ::
  "'c sf_ctrl \<Rightarrow> u8 \<Rightarrow> sf_cmd \<Rightarrow> u32 \<Rightarrow> nat \<Rightarrow> 'c \<Rightarrow> bl_err \<times> bytes \<times> 'c" where
  "sf_read_loop ct op cmd addr n c =
     (if n = 0 then (SUCCESS, [], c)
      else
        (let curLen = min n FLASH_CTRL_BUF_SIZE;
             nb = (if n \<ge> FLASH_CTRL_BUF_SIZE then FLASH_CTRL_BUF_SIZE else (curLen + 3) div 4 * 4);
             cmd1 = cmd\<lparr>cmdBuf0 := sf_cmd_word op addr, nbData := word_of_nat nb\<rparr>;
             (r, c1) = sf_poll (sc_busy ct) id (SFCTRL_BUSY_STATE_TIMEOUT - 1) (sc_send ct cmd1 [] c)
         in if r \<noteq> SUCCESS then (TIMEOUT, [], c1)
            else
              (let (r2, bs, c2) = sf_read_loop ct op cmd (addr + word_of_nat curLen) (n - curLen) c1
               in (r2, take curLen (sc_buf ct c1) @ bs, c2))))"
  by pat_completeness auto
termination
  by (relation "measure (\<lambda>(ct, op, cmd, addr, n, c). n)") (auto simp: FLASH_CTRL_BUF_SIZE_def)

declare sf_read_loop.simps [simp del]

text \<open>The read command of each interface mode; \<open>None\<close> for a mode that is none of the five.\<close>

definition sf_read_cmd :: "flash_cfg \<Rightarrow> u8 \<Rightarrow> bool \<Rightarrow> (u8 \<times> sf_cmd) option" where
  "sf_read_cmd cfg ioMode contRead =
     (let base = sf_cmd_zero\<lparr>rwFlag := SF_CTRL_READ, addrSize := 3\<rparr>;
          noReadModeCfg = cfg_cReadSupport cfg AND 2;
          cReadSupport = cfg_cReadSupport cfg AND 1;
          mode = (if cReadSupport = 0 \<or> contRead then push_bit 24 (ucast (cfg_cReadMode cfg))
                  else push_bit 24 (if cfg_cReadMode cfg = 0 then 1 else 0));
          with_mode = (\<lambda>c. if noReadModeCfg = 0 then c\<lparr>cmdBuf1 := mode, addrSize := addrSize c + 1\<rparr> else c)
      in if ioMode = SF_CTRL_NIO_MODE then
           Some (cfg_fastReadCmd cfg, base\<lparr>dummyClks := cfg_frDmyClk cfg\<rparr>)
         else if ioMode = SF_CTRL_DO_MODE then
           Some (cfg_fastReadDoCmd cfg, base\<lparr>dataMode := 1, dummyClks := cfg_frDoDmyClk cfg\<rparr>)
         else if ioMode = SF_CTRL_DIO_MODE then
           Some (cfg_fastReadDioCmd cfg,
             with_mode (base\<lparr>addrMode := 1, dataMode := 1, dummyClks := cfg_frDioDmyClk cfg\<rparr>))
         else if ioMode = SF_CTRL_QO_MODE then
           Some (cfg_fastReadQoCmd cfg, base\<lparr>dataMode := 2, dummyClks := cfg_frQoDmyClk cfg\<rparr>)
         else if ioMode = SF_CTRL_QIO_MODE then
           Some (cfg_fastReadQioCmd cfg,
             with_mode (base\<lparr>addrMode := 2, dataMode := 2, dummyClks := cfg_frQioDmyClk cfg\<rparr>))
         else None)"

definition SFlash_Read ::
  "'c sf_ctrl \<Rightarrow> flash_cfg \<Rightarrow> u8 \<Rightarrow> bool \<Rightarrow> u32 \<Rightarrow> nat \<Rightarrow> 'c \<Rightarrow> bl_err \<times> bytes \<times> 'c" where
  "SFlash_Read ct cfg ioMode contRead addr n c =
     (case sf_read_cmd cfg ioMode contRead of None \<Rightarrow> (ERROR, [], c)
      | Some (op, cmd) \<Rightarrow> sf_read_loop ct op cmd addr n c)"

section \<open>The XIP wrappers and the HAL\<close>

definition XIP_SFlash_Erase_Need_Lock ::
  "'c sf_ctrl \<Rightarrow> flash_cfg \<Rightarrow> u32 \<Rightarrow> u32 \<Rightarrow> 'c \<Rightarrow> (bl_err \<times> 'c) option" where
  "XIP_SFlash_Erase_Need_Lock ct cfg startaddr endaddr c =
     map_option (\<lambda>(r, c1). (r, sc_restore ct c1)) (SFlash_Erase ct cfg startaddr endaddr (sc_save ct c))"

definition XIP_SFlash_Write_Need_Lock ::
  "'c sf_ctrl \<Rightarrow> flash_cfg \<Rightarrow> u8 \<Rightarrow> u32 \<Rightarrow> bytes \<Rightarrow> 'c \<Rightarrow> bl_err \<times> 'c" where
  "XIP_SFlash_Write_Need_Lock ct cfg ioMode addr data c =
     (let (r, c1) = SFlash_Program ct cfg ioMode addr data (sc_save ct c) in (r, sc_restore ct c1))"

definition XIP_SFlash_Read_Need_Lock ::
  "'c sf_ctrl \<Rightarrow> flash_cfg \<Rightarrow> u8 \<Rightarrow> u32 \<Rightarrow> nat \<Rightarrow> 'c \<Rightarrow> bl_err \<times> bytes \<times> 'c" where
  "XIP_SFlash_Read_Need_Lock ct cfg ioMode addr n c =
     (let (r, bs, c1) = SFlash_Read ct cfg ioMode False addr n (sc_save ct c) in (r, bs, sc_restore ct c1))"

definition flash_erase :: "'c sf_ctrl \<Rightarrow> flash_cfg \<Rightarrow> u32 \<Rightarrow> u32 \<Rightarrow> 'c \<Rightarrow> (bl_err \<times> 'c) option" where
  "flash_erase ct cfg startaddr len = XIP_SFlash_Erase_Need_Lock ct cfg startaddr (startaddr + len - 1)"

definition flash_write :: "'c sf_ctrl \<Rightarrow> flash_cfg \<Rightarrow> u32 \<Rightarrow> bytes \<Rightarrow> 'c \<Rightarrow> bl_err \<times> 'c" where
  "flash_write ct cfg = XIP_SFlash_Write_Need_Lock ct cfg (cfg_ioMode cfg AND 0x0f)"

definition flash_read :: "'c sf_ctrl \<Rightarrow> flash_cfg \<Rightarrow> u32 \<Rightarrow> nat \<Rightarrow> 'c \<Rightarrow> bl_err \<times> bytes \<times> 'c" where
  "flash_read ct cfg = XIP_SFlash_Read_Need_Lock ct cfg (cfg_ioMode cfg AND 0x0f)"

text \<open>
  The three functions the bootloader registers with the partition code
  (\<open>pt_table_set_flash_operation(flash_erase, flash_write, flash_read)\<close>).  The read buffer
  keeps its tail when the read stops early, and the chip state after a read is not threaded
  on (a read changes no cell); an erase that does not return is given as \<open>TIMEOUT\<close>, which
  cannot happen for a range inside the 24-bit address space (\<open>flash_erase_range\<close>).
\<close>

definition hal_flash_ops :: "'c sf_ctrl \<Rightarrow> flash_cfg \<Rightarrow> 'c flash_ops" where
  "hal_flash_ops ct cfg =
     \<lparr>fl_erase = (\<lambda>a n c. case flash_erase ct cfg a n c of None \<Rightarrow> (TIMEOUT, c) | Some r \<Rightarrow> r),
      fl_write = flash_write ct cfg,
      fl_read = (\<lambda>a buf c. let (r, bs, c1) = flash_read ct cfg a (length buf) c
                           in (r, patch buf 0 bs))\<rparr>"

section \<open>A NOR flash chip\<close>

text \<open>
  What the data sheet says.  \<open>mem\<close> is the content of the cells, \<open>wel\<close> the write enable
  latch, \<open>done\<close> tells whether the last erase or program command completes.  Transfers of the
  controller finish in time.  Only erase and program commands change cells, and only inside
  the block or page they address; with the latch set, a command that completes does its
  work, and one that does not keeps the busy bit set.
\<close>

definition cfg_modifying :: "flash_cfg \<Rightarrow> u8 set" where
  "cfg_modifying cfg = {cfg_chipEraseCmd cfg, cfg_sectorEraseCmd cfg, cfg_blk32EraseCmd cfg,
     cfg_blk64EraseCmd cfg, cfg_pageProgramCmd cfg, cfg_qpageProgramCmd cfg}"

text \<open>The size of the block an erase opcode erases.\<close>

definition erase_size :: "flash_cfg \<Rightarrow> u8 \<Rightarrow> nat option" where
  "erase_size cfg op = (if op = cfg_sectorEraseCmd cfg then Some 4096
     else if op = BFLB_SPIFLASH_CMD_INVALID then None
     else if op = cfg_blk32EraseCmd cfg then Some 32768
     else if op = cfg_blk64EraseCmd cfg then Some 65536 else None)"

definition in_block :: "nat \<Rightarrow> nat \<Rightarrow> nat \<Rightarrow> bool" where
  "in_block a n x \<longleftrightarrow> a div n * n \<le> x \<and> x < a div n * n + n"

lemma sf_cmd_word_opcode: "a < 2 ^ 24 \<Longrightarrow> ucast (drop_bit 24 (push_bit 24 (ucast (op :: u8) :: u32) OR a)) = op"
proof (rule bit_word_eqI)
  fix n assume a: "a < (2 ^ 24 :: u32)" and n: "n < LENGTH(8)"
  have "\<not> bit a (24 + n)"
  proof -
    have "take_bit 24 a = a" by (rule take_bit_less_id [OF a]) simp
    then show ?thesis by (metis bit_take_bit_iff less_add_same_cancel1 not_add_less1)
  qed
  then show "bit (ucast (drop_bit 24 (push_bit 24 (ucast op) OR a)) :: u8) n = bit op n"
    using n by (auto simp: bit_simps)
qed

lemma sf_cmd_word_addr: "(a :: u32) < 2 ^ 24 \<Longrightarrow> (push_bit 24 (ucast (op :: u8)) OR a) AND 0xFFFFFF = a"
proof (rule bit_word_eqI)
  fix n assume a: "a < (2 ^ 24 :: u32)" and n: "n < LENGTH(32)"
  have m: "(0xFFFFFF :: u32) = mask 24" by (simp add: mask_eq_exp_minus_1)
  have "take_bit 24 a = a" by (rule take_bit_less_id [OF a]) simp
  then have "bit a n \<Longrightarrow> n < 24" by (metis bit_take_bit_iff)
  then show "bit ((push_bit 24 (ucast op) OR a) AND 0xFFFFFF) n = bit a n"
    unfolding m using n by (auto simp: bit_simps)
qed

lemma sf_cmd_word_simps:
  assumes "unat a < 2 ^ 24" "cmdBuf0 cmd = sf_cmd_word op a"
  shows "sf_opcode cmd = op" "sf_addr cmd = unat a"
proof -
  have "a < 2 ^ 24" using assms(1) by (simp add: word_less_nat_alt)
  with assms show "sf_opcode cmd = op" "sf_addr cmd = unat a"
    by (simp_all only: sf_opcode_def sf_addr_def sf_cmd_word_def sf_cmd_word_opcode sf_cmd_word_addr)
qed

locale nor_chip =
  fixes ct :: "'c sf_ctrl" and cfg :: flash_cfg and mem :: "'c \<Rightarrow> nat \<Rightarrow> u8"
    and wel :: "'c \<Rightarrow> bool"
  assumes sector: "cfg_sectorSize cfg = 4" and page: "cfg_pageSize cfg = 256"
    and io_mode: "cfg_ioMode cfg AND 0x0f \<le> 4"
    and status_cmds: "cfg_readRegCmd cfg ! unat (cfg_busyIndex cfg) \<notin> cfg_modifying cfg"
      "cfg_readRegCmd cfg ! unat (cfg_wrEnableIndex cfg) \<notin> cfg_modifying cfg"
      "cfg_writeEnableCmd cfg \<notin> cfg_modifying cfg"
    and erase_cmds: "cfg_sectorEraseCmd cfg \<notin> {cfg_blk32EraseCmd cfg, cfg_blk64EraseCmd cfg}"
      "cfg_blk64EraseCmd cfg \<noteq> cfg_blk32EraseCmd cfg \<or> cfg_blk64EraseCmd cfg = BFLB_SPIFLASH_CMD_INVALID"
    and read_cmds: "sf_read_cmd cfg (cfg_ioMode cfg AND 0x0f) False = Some (rop, rcmd) \<Longrightarrow> rop \<notin> cfg_modifying cfg"
    and idle_in_time: "fst (sf_poll (sc_busy ct) d 1000 (sc_send ct cmd bs c)) = SUCCESS"
    and quiet_busy: "mem (snd (sc_busy ct c)) = mem c"
    and quiet_delay: "mem (sc_delay ct us c) = mem c"
    and quiet_mode: "mem (sc_save ct c) = mem c" "mem (sc_restore ct c) = mem c"
    and quiet_send: "sf_opcode cmd \<notin> cfg_modifying cfg \<Longrightarrow> mem (sc_send ct cmd bs c) = mem c"
    and wel_status: "\<lbrakk>sf_opcode cmd = cfg_readRegCmd cfg ! unat (cfg_wrEnableIndex cfg);
      sf_poll (sc_busy ct) d 1000 (sc_send ct cmd bs c) = (SUCCESS, c');
      bit (reg_stat (Some (take n (sc_buf ct c')))) (unat (cfg_wrEnableBit cfg))\<rbrakk> \<Longrightarrow> wel c'"
    and erase_done: "\<lbrakk>wel c; erase_size cfg (sf_opcode cmd) = Some n;
      sf_poll (SFlash_Busy ct cfg) d l (sc_send ct cmd bs c) = (SUCCESS, c');
      in_block (sf_addr cmd) n x\<rbrakk> \<Longrightarrow> mem c' x = 0xFF"
    and erase_only: "\<lbrakk>erase_size cfg (sf_opcode cmd) = Some n;
      sf_poll (SFlash_Busy ct cfg) d l (sc_send ct cmd bs c) = (r, c');
      \<not> in_block (sf_addr cmd) n x\<rbrakk> \<Longrightarrow> mem c' x = mem c x"
    and page_done: "\<lbrakk>wel c; sf_opcode cmd \<in> {cfg_pageProgramCmd cfg, cfg_qpageProgramCmd cfg};
      sf_poll (SFlash_Busy ct cfg) d l (sc_send ct cmd bs c) = (SUCCESS, c');
      nbData cmd = word_of_nat (length bs); sf_addr cmd mod 256 + length bs \<le> 256;
      i < length bs\<rbrakk> \<Longrightarrow> mem c' (sf_addr cmd + i) = mem c (sf_addr cmd + i) AND bs ! i"
    and page_only: "\<lbrakk>sf_opcode cmd \<in> {cfg_pageProgramCmd cfg, cfg_qpageProgramCmd cfg};
      sf_poll (SFlash_Busy ct cfg) d l (sc_send ct cmd bs c) = (r, c');
      nbData cmd = word_of_nat (length bs); sf_addr cmd mod 256 + length bs \<le> 256;
      x < sf_addr cmd \<or> sf_addr cmd + length bs \<le> x\<rbrakk> \<Longrightarrow> mem c' x = mem c x"
    and read_data: "\<lbrakk>sf_read_cmd cfg (cfg_ioMode cfg AND 0x0f) False = Some (sf_opcode cmd, rcmd);
      sf_poll (sc_busy ct) d l (sc_send ct cmd bs c) = (SUCCESS, c');
      unat (nbData cmd) \<le> 256; i < unat (nbData cmd); sf_addr cmd + i < 2 ^ 24\<rbrakk> \<Longrightarrow>
      unat (nbData cmd) \<le> length (sc_buf ct c') \<and> sc_buf ct c' ! i = mem c (sf_addr cmd + i)"
begin

lemma poll_quiet:
  "(\<And>c. mem (snd (busy c)) = mem c) \<Longrightarrow> (\<And>c. mem (d c) = mem c) \<Longrightarrow>
   mem (snd (sf_poll busy d l c)) = mem c"
proof (induction busy d l c rule: sf_poll.induct)
  case (1 busy d l c)
  obtain b c1 where b: "busy c = (b, c1)" by fastforce
  with "1.prems"(1) [of c] have m: "mem c1 = mem c" by simp
  show ?case
    using "1.IH" [OF b [symmetric] refl _ _ "1.prems"] m "1.prems"(2) b
    by (subst sf_poll.simps) (cases b; cases l; simp)
qed

lemma busy_poll_quiet: "mem (snd (sf_poll (sc_busy ct) (sc_delay ct us) l c)) = mem c"
  by (rule poll_quiet) (rule quiet_busy quiet_delay)+

lemma read_reg_quiet:
  "cfg_readRegCmd cfg ! unat i \<notin> cfg_modifying cfg \<Longrightarrow> mem (snd (SFlash_Read_Reg ct cfg i n c)) = mem c"
  using busy_poll_quiet [of 1 1000] quiet_send sf_cmd_word_simps(1) [of 0]
  by (simp add: SFlash_Read_Reg_def case_prod_unfold Let_def)

lemma write_enable:
  assumes "SFlash_Write_Enable ct cfg c = (r, c')"
  shows "mem c' = mem c" "r = SUCCESS \<Longrightarrow> wel c'" "r = SUCCESS \<or> r = ERROR"
proof -
  define c1 where "c1 = sc_send ct (sf_cmd_zero\<lparr>cmdBuf0 := sf_cmd_word (cfg_writeEnableCmd cfg) 0\<rparr>) [] c"
  have m1: "mem c1 = mem c"
    using quiet_send status_cmds(3) sf_cmd_word_simps(1) [of 0] by (simp add: c1_def)
  obtain s c2 where rr: "SFlash_Read_Reg ct cfg (cfg_wrEnableIndex cfg) (cfg_wrEnableReadRegLen cfg) c1 = (s, c2)"
    by fastforce
  then have m2: "mem c2 = mem c1" using read_reg_quiet [OF status_cmds(2)] by (metis snd_conv)
  from assms rr have c': "c' = c2" "r = (if bit (reg_stat s) (unat (cfg_wrEnableBit cfg)) then SUCCESS else ERROR)"
    by (auto simp: SFlash_Write_Enable_def c1_def Let_def)
  show "mem c' = mem c" using m1 m2 c' by simp
  show "r = SUCCESS \<or> r = ERROR" using c' by simp
  let ?cmd = "sf_cmd_zero\<lparr>cmdBuf0 := sf_cmd_word (cfg_readRegCmd cfg ! unat (cfg_wrEnableIndex cfg)) 0,
     nbData := ucast (cfg_wrEnableReadRegLen cfg)\<rparr>"
  assume "r = SUCCESS"
  with c' have b: "bit (reg_stat s) (unat (cfg_wrEnableBit cfg))" by (simp split: if_splits)
  then have "s \<noteq> None" by (cases s) (simp_all add: reg_stat_def)
  with rr have p: "sf_poll (sc_busy ct) (sc_delay ct 1) 1000 (sc_send ct ?cmd [] c1) = (SUCCESS, c2)"
    and s: "s = Some (take (unat (cfg_wrEnableReadRegLen cfg)) (sc_buf ct c2))"
    by (auto simp: SFlash_Read_Reg_def case_prod_unfold Let_def prod_eq_iff split: if_splits)
  show "wel c'"
    using wel_status [OF _ p] b s sf_cmd_word_simps(1) [of 0] c' by simp
qed

text \<open>One block erase: the block it erases on success, and nothing outside it in any case.\<close>

lemma erase_block:
  assumes "sf_erase_block ct cfg op asize a time c = (r, c')" "erase_size cfg op = Some n"
    "unat a < 2 ^ 24"
  shows "r = SUCCESS \<Longrightarrow> in_block (unat a) n x \<Longrightarrow> mem c' x = 0xFF"
    and "\<not> in_block (unat a) n x \<Longrightarrow> mem c' x = mem c x"
proof -
  obtain r1 c1 where we: "SFlash_Write_Enable ct cfg c = (r1, c1)" by fastforce
  note w = write_enable [OF we]
  let ?cmd = "sf_cmd_zero\<lparr>cmdBuf0 := sf_cmd_word op a, addrSize := asize\<rparr>"
  have cmd: "sf_opcode ?cmd = op" "sf_addr ?cmd = unat a"
    using sf_cmd_word_simps [OF assms(3)] by simp_all
  have body: "r1 = SUCCESS \<Longrightarrow> sf_poll (SFlash_Busy ct cfg) (sc_delay ct 500) (unat time * 3)
      (sc_send ct ?cmd [] c1) = (r, c')" "r1 \<noteq> SUCCESS \<Longrightarrow> r = r1 \<and> c' = c1"
    using assms(1) we by (auto simp: sf_erase_block_def)
  show "r = SUCCESS \<Longrightarrow> in_block (unat a) n x \<Longrightarrow> mem c' x = 0xFF"
    using body w(2) erase_done [of c1 ?cmd n "sc_delay ct 500" "unat time * 3" "[]" c' x] cmd assms(2)
    by (cases "r1 = SUCCESS") auto
  show "\<not> in_block (unat a) n x \<Longrightarrow> mem c' x = mem c x"
    using body w(1) erase_only [of ?cmd n "sc_delay ct 500" "unat time * 3" "[]" c1 r c' x] cmd assms(2)
    by (cases "r1 = SUCCESS") auto
qed

lemma erase_sizes:
  "erase_size cfg (cfg_sectorEraseCmd cfg) = Some 4096"
  "cfg_blk32EraseCmd cfg \<noteq> BFLB_SPIFLASH_CMD_INVALID \<Longrightarrow> erase_size cfg (cfg_blk32EraseCmd cfg) = Some 32768"
  "cfg_blk64EraseCmd cfg \<noteq> BFLB_SPIFLASH_CMD_INVALID \<Longrightarrow> erase_size cfg (cfg_blk64EraseCmd cfg) = Some 65536"
  using erase_cmds by (auto simp: erase_size_def)

text \<open>
  One round of the loop erases a whole block that starts at or before the start address,
  and stops no later than the end of the last sector of the range.
\<close>

lemma erase_step:
  assumes step: "sf_erase_step ct cfg s e c = (r, s', c')" and le: "s \<le> e" and e: "unat e < 2 ^ 24"
  obtains b n where "b \<le> unat s" "unat s < b + n" "unat s div 4096 * 4096 = b" "unat s' = b + n" "0 < n"
    "n mod 4096 = 0" "b + n \<le> unat e div 4096 * 4096 + 4096"
    "r = SUCCESS \<Longrightarrow> (\<forall>x. b \<le> x \<and> x < b + n \<longrightarrow> mem c' x = 0xFF)"
    "\<forall>x. x < b \<or> b + n \<le> x \<longrightarrow> mem c' x = mem c x"
proof -
  note result = that
  have le': "unat s \<le> unat e" using le by (simp add: word_le_nat_alt)
  have len: "unat (e - s + 1) = unat e - unat s + 1"
    using e le' unat_sub [OF le] by (subst unat_add_lt) simp_all
  have m64: "BFLB_SPIFLASH_BLK64K_SIZE - 1 = mask 16" and m32: "BFLB_SPIFLASH_BLK32K_SIZE - 1 = mask 15"
    and m12: "ucast (cfg_sectorSize cfg) * 1024 - 1 = (mask 12 :: u32)"
    by (simp_all add: BFLB_SPIFLASH_BLK64K_SIZE_def BFLB_SPIFLASH_BLK32K_SIZE_def sector mask_eq_exp_minus_1)
  have al: "s AND mask k = 0 \<longleftrightarrow> unat s mod 2 ^ k = 0" for k
    using unat_and_mask [of s k] by (simp flip: unat_eq_0)
  note step' = step [unfolded sf_erase_step_def Let_def m64 m32]
  have mul: "k * (x div k) = x" if "unat x mod unat k = 0" for x k :: u32
  proof -
    have "x mod k = 0" using that by (simp add: word_arith_nat_mod)
    then show ?thesis using mult_div_mod_eq [of k x] by simp
  qed
  have blk: thesis
    if er: "sf_erase_block ct cfg op asize a time c = (r, c')" "erase_size cfg op = Some n"
      and ab: "unat a = unat s div 4096 * 4096" "unat a mod n = 0" "s' = a + word_of_nat n"
      and n: "n \<in> {4096, 32768, 65536}" "n = 4096 \<or> n < unat e - unat s + 4097 \<and> unat a = unat s"
    for op asize a time n
  proof (rule result [of "unat a" n])
    have le2: "unat a \<le> unat s" using ab(1) by simp
    have nn: "n \<noteq> 0" using n by auto
    then have blkeq: "in_block (unat a) n x \<longleftrightarrow> unat a \<le> x \<and> x < unat a + n" for x
      using ab(2) by (auto simp: in_block_def)
    have a24: "unat a < 2 ^ 24" using le2 le' e by simp
    note eb = erase_block [OF er a24, unfolded blkeq]
    show "unat a \<le> unat s" by (rule le2)
    show "unat s < unat a + n" using ab(1) n by auto
    show "unat s div 4096 * 4096 = unat a" using ab by simp
    show "unat s' = unat a + n" using ab n a24 by (auto simp: unat_word_ariths)
    show "0 < n" "n mod 4096 = 0" using n by auto
    show "unat a + n \<le> unat e div 4096 * 4096 + 4096"
    proof (cases "n = 4096")
      case True
      then show ?thesis using ab(1) div_le_mono [OF le', of 4096] by simp
    next
      case False
      with n have "n < unat e - unat s + 4097" "unat a = unat s" by auto
      then have "unat a + n < unat e + 4097" using le' by linarith
      moreover have "(unat a + n) mod 4096 = 0" using ab(1) n(1) by auto
      then obtain k where "unat a + n = 4096 * k" by (auto simp: mod_eq_0_iff_dvd elim: dvdE)
      moreover define q where "q = unat e div 4096"
      moreover have "unat e < 4096 * q + 4096" unfolding q_def by (simp add: div_mult_mod_eq dividend_less_times_div)
      ultimately have k: "unat a + n = 4096 * k" "4096 * k < 4096 * q + 8192" "q = unat e div 4096"
        by linarith+
      then have "k \<le> q + 1" by linarith
      then have "4096 * k \<le> q * 4096 + 4096" by linarith
      then show ?thesis unfolding k(1) k(3) [symmetric] .
    qed
    show "r = SUCCESS \<Longrightarrow> \<forall>x. unat a \<le> x \<and> x < unat a + n \<longrightarrow> mem c' x = 0xFF" using eb by blast
    show "\<forall>x. x < unat a \<or> unat a + n \<le> x \<longrightarrow> mem c' x = mem c x" using eb(2) by auto
  qed
  show ?thesis
  proof (cases "cfg_blk64EraseCmd cfg \<noteq> BFLB_SPIFLASH_CMD_INVALID \<and> s AND mask 16 = 0
      \<and> e - s + 1 > BFLB_SPIFLASH_BLK64K_SIZE - ucast (cfg_sectorSize cfg) * 1024")
    case True
    then have s16: "unat s mod 65536 = 0" and big: "61440 < unat e - unat s + 1"
      using al [of 16] len by (simp_all add: word_less_nat_alt BFLB_SPIFLASH_BLK64K_SIZE_def sector)
    have q: "BFLB_SPIFLASH_BLK64K_SIZE * (s div BFLB_SPIFLASH_BLK64K_SIZE) = s"
      using s16 by (intro mul) (simp add: BFLB_SPIFLASH_BLK64K_SIZE_def)
    have st: "sf_erase_block ct cfg (cfg_blk64EraseCmd cfg) 3 s (cfg_timeE64k cfg) c = (r, c')"
      "s' = s + 65536"
      using step' [unfolded if_P [OF True]] q
      by (simp_all add: SFlash_Blk64_Erase_def case_prod_unfold prod_eq_iff BFLB_SPIFLASH_BLK64K_SIZE_def)
    have s12: "unat s = unat s div 4096 * 4096" using s16 by (auto simp: mod_eq_0_iff_dvd elim!: dvdE)
    show ?thesis
      by (rule blk [OF st(1) erase_sizes(3) s12]) (use True s16 big st(2) in simp_all)
  next
    case n64: False
    show ?thesis
    proof (cases "cfg_blk32EraseCmd cfg \<noteq> BFLB_SPIFLASH_CMD_INVALID \<and> s AND mask 15 = 0
        \<and> e - s + 1 > BFLB_SPIFLASH_BLK32K_SIZE - ucast (cfg_sectorSize cfg) * 1024")
      case True
      then have s15: "unat s mod 32768 = 0" and big: "28672 < unat e - unat s + 1"
        using al [of 15] len by (simp_all add: word_less_nat_alt BFLB_SPIFLASH_BLK32K_SIZE_def sector)
      have q: "BFLB_SPIFLASH_BLK32K_SIZE * (s div BFLB_SPIFLASH_BLK32K_SIZE) = s"
        using s15 by (intro mul) (simp add: BFLB_SPIFLASH_BLK32K_SIZE_def)
      have st: "sf_erase_block ct cfg (cfg_blk32EraseCmd cfg) 3 s (cfg_timeE32k cfg) c = (r, c')"
        "s' = s + 32768"
        using step' [unfolded if_not_P [OF n64] if_P [OF True]] q
        by (simp_all add: SFlash_Blk32_Erase_def case_prod_unfold prod_eq_iff BFLB_SPIFLASH_BLK32K_SIZE_def)
      have s12: "unat s = unat s div 4096 * 4096" using s15 by (auto simp: mod_eq_0_iff_dvd elim!: dvdE)
      show ?thesis
        by (rule blk [OF st(1) erase_sizes(2) s12]) (use True s15 big st(2) in simp_all)
    next
      case False
      define a where "a = s AND NOT (mask 12)"
      have a: "unat a = unat s div 4096 * 4096" by (simp add: a_def unat_and_not_mask)
      have "4096 * (a div 4096) = a" by (rule mul) (simp add: a)
      moreover have "a div 4 div 1024 = a div 4096"
        by (simp add: word_eq_unat unat_div_distrib flip: div_mult2_eq)
      ultimately have q: "ucast (cfg_sectorSize cfg) * 1024 * (a div ucast (cfg_sectorSize cfg) div 1024) = a"
        by (simp add: sector)
      have st: "sf_erase_block ct cfg (cfg_sectorEraseCmd cfg) 3 a (cfg_timeEsector cfg) c = (r, c')"
        "s' = a + 4096"
        using step' [unfolded if_not_P [OF n64] if_not_P [OF False] m12 a_def [symmetric]] q
        by (simp_all add: SFlash_Sector_Erase_def case_prod_unfold prod_eq_iff) (simp_all add: sector)
      show ?thesis by (rule blk [OF st(1) erase_sizes(1) a]) (use a st(2) in simp_all)
    qed
  qed
qed

text \<open>The erase loop returns, and the range is erased when it reports success.\<close>

lemma erase_loop:
  assumes e: "unat e < 2 ^ 24"
  shows "\<exists>r c'. SFlash_Erase ct cfg s e c = Some (r, c') \<and>
    (\<forall>x. x < unat s div 4096 * 4096 \<or> unat e div 4096 * 4096 + 4096 \<le> x \<longrightarrow> mem c' x = mem c x) \<and>
    (r = SUCCESS \<longrightarrow> unat s \<le> unat e \<longrightarrow>
      (\<forall>x. unat s div 4096 * 4096 \<le> x \<and> x < unat e div 4096 * 4096 + 4096 \<longrightarrow> mem c' x = 0xFF))"
proof (induction "unat e + 1 - unat s" arbitrary: s c rule: less_induct)
  case less
  show ?case
  proof (cases "s \<le> e")
    case False
    then show ?thesis by (subst SFlash_Erase.simps) (simp add: word_le_nat_alt)
  next
    case True
    obtain r s1 c1 where st: "sf_erase_step ct cfg s e c = (r, s1, c1)" by (metis prod_cases3)
    obtain b n where b: "b \<le> unat s" "unat s < b + n" "unat s div 4096 * 4096 = b" "unat s1 = b + n" "0 < n"
      "n mod 4096 = 0" "b + n \<le> unat e div 4096 * 4096 + 4096"
      and ff: "r = SUCCESS \<Longrightarrow> \<forall>x. b \<le> x \<and> x < b + n \<longrightarrow> mem c1 x = 0xFF"
      and fr: "\<forall>x. x < b \<or> b + n \<le> x \<longrightarrow> mem c1 x = mem c x"
      using erase_step [OF st True e] by blast
    have al: "(b + n) div 4096 * 4096 = b + n"
    proof -
      have "4096 dvd b" unfolding b(3) [symmetric] by simp
      moreover have "4096 dvd n" using b(6) by (simp add: mod_eq_0_iff_dvd)
      ultimately have "4096 dvd b + n" by (rule dvd_add)
      then show ?thesis by (rule dvd_div_mult_self)
    qed
    show ?thesis
    proof (cases "r = SUCCESS")
      case False
      then show ?thesis using st True fr b(3,7) by (subst SFlash_Erase.simps) auto
    next
      case ok: True
      have "unat e + 1 - unat s1 < unat e + 1 - unat s"
        using b True by (simp add: word_le_nat_alt)
      from less [OF this, of c1] obtain r2 c2 where ih: "SFlash_Erase ct cfg s1 e c1 = Some (r2, c2)"
        "\<forall>x. x < b + n \<or> unat e div 4096 * 4096 + 4096 \<le> x \<longrightarrow> mem c2 x = mem c1 x"
        "r2 = SUCCESS \<longrightarrow> b + n \<le> unat e \<longrightarrow>
          (\<forall>x. b + n \<le> x \<and> x < unat e div 4096 * 4096 + 4096 \<longrightarrow> mem c2 x = 0xFF)"
        unfolding b(4) al by blast
      have "SFlash_Erase ct cfg s e c = Some (r2, c2)"
        using st True ok ih(1) by (subst SFlash_Erase.simps) simp
      moreover have "mem c2 x = mem c x" if "x < b \<or> unat e div 4096 * 4096 + 4096 \<le> x" for x
        using that ih(2) fr b(5,7) by auto
      moreover have "mem c2 x = 0xFF" if "r2 = SUCCESS" "b \<le> x" "x < unat e div 4096 * 4096 + 4096" for x
      proof (cases "x < b + n")
        case True
        then show ?thesis using ff [OF ok] ih(2) that by simp
      next
        case False
        have "b + n \<le> unat e"
        proof (rule ccontr)
          assume "\<not> ?thesis"
          then have "unat e div 4096 \<le> (b + n) div 4096" by (intro div_le_mono) simp
          moreover have "unat e div 4096 \<noteq> (b + n) div 4096"
            using \<open>\<not> b + n \<le> unat e\<close> al by (metis div_times_less_eq_dividend)
          ultimately have "unat e div 4096 + 1 \<le> (b + n) div 4096" by simp
          then have "(unat e div 4096 + 1) * 4096 \<le> b + n" by (metis al mult_le_mono1)
          then show False using False that(3) by simp
        qed
        then show ?thesis using ih(3) that False by simp
      qed
      ultimately show ?thesis unfolding b(3) by blast
    qed
  qed
qed

text \<open>The program loop splits the data at page boundaries.\<close>

lemma program_loop:
  assumes op: "op \<in> {cfg_pageProgramCmd cfg, cfg_qpageProgramCmd cfg}"
  shows "unat addr + length data \<le> 2 ^ 24 \<Longrightarrow> sf_program_loop ct cfg op cmd addr data c = (r, c') \<Longrightarrow>
    (\<forall>x. x < unat addr \<or> unat addr + length data \<le> x \<longrightarrow> mem c' x = mem c x) \<and>
    (r = SUCCESS \<longrightarrow> (\<forall>i < length data. mem c' (unat addr + i) = mem c (unat addr + i) AND data ! i))"
proof (induction "length data" arbitrary: addr data c rule: less_induct)
  case less
  show ?case
  proof (cases "data = []")
    case True
    then show ?thesis using less.prems(2) by (subst (asm) sf_program_loop.simps) auto
  next
    case False
    define n where "n = min (256 - unat addr mod 256) (length data)"
    define cmd1 where "cmd1 = cmd\<lparr>cmdBuf0 := sf_cmd_word op addr, nbData := word_of_nat n\<rparr>"
    obtain r1 c1 where we: "SFlash_Write_Enable ct cfg c = (r1, c1)" by fastforce
    note w = write_enable [OF we]
    obtain r2 c2 where pp: "sf_poll (SFlash_Busy ct cfg) (sc_delay ct 100) (unat (cfg_timePagePgm cfg) * 20)
      (sc_send ct cmd1 (take n data) c1) = (r2, c2)" by fastforce
    note un = less.prems(2) [unfolded sf_program_loop.simps [of ct cfg op cmd addr data c]]
    have n: "0 < n" "n \<le> length data" "unat addr mod 256 + n \<le> 256" "n \<le> 256"
      using False by (auto simp: n_def min_def)
    have a24: "unat addr < 2 ^ 24" using less.prems(1) False by (cases data) auto
    have cmd1: "sf_opcode cmd1 = op" "sf_addr cmd1 = unat addr" "nbData cmd1 = word_of_nat n"
      using sf_cmd_word_simps [OF a24, of cmd1 op] by (simp_all add: cmd1_def)
    have po: "x < unat addr \<or> unat addr + n \<le> x \<Longrightarrow> mem c2 x = mem c1 x" for x
      by (rule page_only [of cmd1, OF _ pp]) (use op cmd1 n in auto)
    show ?thesis
    proof (cases "r1 = SUCCESS")
      case False
      with un we page \<open>data \<noteq> []\<close> have "r = r1" "c' = c1" by auto
      then show ?thesis using w False by simp
    next
      case ok1: True
      show ?thesis
      proof (cases "r2 = SUCCESS")
        case False
        with un we page \<open>data \<noteq> []\<close> ok1 pp have "r = ERROR" "c' = c2"
          by (auto simp: Let_def n_def cmd1_def)
        then show ?thesis using w(1) po n by auto
      next
        case ok2: True
        have pd: "i < n \<Longrightarrow> mem c2 (unat addr + i) = mem c1 (unat addr + i) AND data ! i" for i
          using page_done [of c1 cmd1, OF _ _ pp [unfolded ok2], of i] w(2) [OF ok1] op cmd1 n by simp
        let ?a = "addr + word_of_nat n :: u32" and ?d = "drop n data"
        have rec: "sf_program_loop ct cfg op cmd ?a ?d c2 = (r, c')"
          using un we page \<open>data \<noteq> []\<close> ok1 ok2 pp by (simp add: Let_def n_def cmd1_def)
        have a: "unat ?a = unat addr + n"
          using less.prems(1) n by (simp add: unat_word_ariths unat_of_nat)
        have "length ?d < length data" using n by simp
        from less.hyps [OF this _ rec] less.prems(1) n
        have ih: "\<forall>x. x < unat addr + n \<or> unat addr + length data \<le> x \<longrightarrow> mem c' x = mem c2 x"
          "r = SUCCESS \<Longrightarrow> \<forall>i < length data - n. mem c' (unat addr + n + i) = mem c2 (unat addr + n + i) AND data ! (n + i)"
          by (simp_all add: a)
        have "mem c' x = mem c x" if "x < unat addr \<or> unat addr + length data \<le> x" for x
          using that ih(1) po [of x] w(1) n by auto
        moreover have "mem c' (unat addr + i) = mem c (unat addr + i) AND data ! i"
          if "r = SUCCESS" "i < length data" for i
        proof (cases "i < n")
          case True
          then show ?thesis using ih(1) pd [OF True] w(1) by simp
        next
          case False
          then have "mem c' (unat addr + n + (i - n)) = mem c2 (unat addr + n + (i - n)) AND data ! (n + (i - n))"
            using ih(2) that by (meson diff_less_mono not_le_imp_less)
          then show ?thesis using False po [of "unat addr + i"] w(1) by simp
        qed
        ultimately show ?thesis by blast
      qed
    qed
  qed
qed

text \<open>The read loop returns the cells.\<close>

lemma poll_mono:
  "fst (sf_poll busy d l c) = SUCCESS \<Longrightarrow> l \<le> l' \<Longrightarrow> sf_poll busy d l' c = sf_poll busy d l c"
proof (induction busy d l c arbitrary: l' rule: sf_poll.induct)
  case (1 busy d l c)
  obtain b c1 where b: "busy c = (b, c1)" by fastforce
  show ?case
  proof (cases b)
    case False
    then show ?thesis using b by (subst (1 2) sf_poll.simps) simp
  next
    case True
    with "1.prems"(1) b obtain k where l: "l = Suc k"
      by (subst (asm) sf_poll.simps) (cases l; simp)
    with "1.prems"(2) obtain k' where l': "l' = Suc k'" by (cases l') auto
    have h: "fst (sf_poll busy d k (d c1)) = SUCCESS"
      using "1.prems"(1) True b by (simp add: l sf_poll.simps [of busy d "Suc k" c])
    have "sf_poll busy d k' (d c1) = sf_poll busy d k (d c1)"
      by (rule "1.IH" [OF b [symmetric] refl _ l]) (use True h "1.prems"(2) l l' in simp_all)
    then show ?thesis using True b l l' by (subst (1 2) sf_poll.simps) simp
  qed
qed

lemma read_loop:
  assumes cmd: "sf_read_cmd cfg (cfg_ioMode cfg AND 0x0f) False = Some (op, cmd)"
  shows "unat addr + n \<le> 2 ^ 24 \<Longrightarrow> \<exists>c'. sf_read_loop ct op cmd addr n c
    = (SUCCESS, map (\<lambda>i. mem c (unat addr + i)) [0..<n], c')"
proof (induction n arbitrary: addr c rule: less_induct)
  case (less n)
  show ?case
  proof (cases "n = 0")
    case True
    then show ?thesis by (subst sf_read_loop.simps) simp
  next
    case False
    define k where "k = min n 256"
    define nb where "nb = (if n \<ge> 256 then 256 else (k + 3) div 4 * 4)"
    define cmd1 where "cmd1 = cmd\<lparr>cmdBuf0 := sf_cmd_word op addr, nbData := word_of_nat nb\<rparr>"
    have k: "0 < k" "k \<le> n" "k \<le> nb" "nb \<le> 256"
      using False by (auto simp: k_def nb_def min_def)
    have a24: "unat addr < 2 ^ 24" using less.prems False by simp
    have c1: "sf_opcode cmd1 = op" "sf_addr cmd1 = unat addr" "unat (nbData cmd1) = nb"
      using sf_cmd_word_simps [OF a24, of cmd1 op] k by (simp_all add: cmd1_def unat_of_nat)
    have "fst (sf_poll (sc_busy ct) id 1000 (sc_send ct cmd1 [] c)) = SUCCESS" by (rule idle_in_time)
    from poll_mono [OF this, of "SFCTRL_BUSY_STATE_TIMEOUT - 1"] this
    obtain d where p: "sf_poll (sc_busy ct) id (SFCTRL_BUSY_STATE_TIMEOUT - 1) (sc_send ct cmd1 [] c) = (SUCCESS, d)"
      by (cases "sf_poll (sc_busy ct) id 1000 (sc_send ct cmd1 [] c)") (auto simp: SFCTRL_BUSY_STATE_TIMEOUT_def)
    have md: "mem d = mem c"
    proof -
      have "mem (snd (sf_poll (sc_busy ct) id (SFCTRL_BUSY_STATE_TIMEOUT - 1) (sc_send ct cmd1 [] c)))
          = mem (sc_send ct cmd1 [] c)"
        by (rule poll_quiet) (simp_all add: quiet_busy)
      then show ?thesis using p quiet_send [of cmd1] read_cmds [OF cmd] c1 by simp
    qed
    have data: "unat (nbData cmd1) \<le> length (sc_buf ct d) \<and> sc_buf ct d ! i = mem c (unat addr + i)" if "i < k" for i
      using read_data [of cmd1 cmd, OF _ p, of i] cmd c1 k that less.prems by simp
    then have buf: "take k (sc_buf ct d) = map (\<lambda>i. mem c (unat addr + i)) [0..<k]"
      using c1(3) k data [OF k(1)] by (intro nth_equalityI) auto
    have a: "unat (addr + word_of_nat k) = unat addr + k"
      using less.prems k by (simp add: unat_word_ariths unat_of_nat)
    have "n - k < n" "unat (addr + word_of_nat k) + (n - k) \<le> 2 ^ 24"
      using k less.prems by (simp_all add: a)
    from less.IH [OF this, of d] obtain c2
      where rec: "sf_read_loop ct op cmd (addr + word_of_nat k) (n - k) d
        = (SUCCESS, map (\<lambda>i. mem c (unat addr + k + i)) [0..<n - k], c2)"
      by (auto simp: a md)
    have sp: "map (\<lambda>i. mem c (unat addr + i)) [0..<k] @ map (\<lambda>i. mem c (unat addr + k + i)) [0..<n - k]
        = map (\<lambda>i. mem c (unat addr + i)) [0..<n]"
      using k by (intro nth_equalityI) (auto simp: nth_append)
    note un = sf_read_loop.simps [of ct op cmd addr n c, unfolded FLASH_CTRL_BUF_SIZE_def Let_def,
        folded k_def, folded nb_def, folded cmd1_def]
    have "sf_read_loop ct op cmd addr n c = (SUCCESS, map (\<lambda>i. mem c (unat addr + i)) [0..<n], c2)"
      using False p rec by (simp add: un sp buf)
    then show ?thesis by blast
  qed
qed

lemma read_cmd_exists: "\<exists>op cmd. sf_read_cmd cfg (cfg_ioMode cfg AND 0x0f) False = Some (op, cmd)"
proof -
  have "unat (cfg_ioMode cfg AND 0x0f) \<le> 4" using io_mode by (simp add: word_le_nat_alt)
  then have "unat (cfg_ioMode cfg AND 0x0f) \<in> {0, 1, 2, 3, 4}" by auto
  then have "cfg_ioMode cfg AND 0x0f \<in> {0, 1, 2, 3, 4}" by (auto simp: word_eq_unat)
  then show ?thesis by (elim insertE emptyE) (simp_all add: sf_read_cmd_def io_modes Let_def)
qed

lemma flash_program:
  assumes "flash_write ct cfg a bs c = (r, c')" "unat a + length bs \<le> 2 ^ 24"
  shows "x < unat a \<or> unat a + length bs \<le> x \<Longrightarrow> mem c' x = mem c x"
    "r = SUCCESS \<Longrightarrow> i < length bs \<Longrightarrow> mem c' (unat a + i) = mem c (unat a + i) AND bs ! i"
proof -
  obtain c1 where sp: "SFlash_Program ct cfg (cfg_ioMode cfg AND 0x0f) a bs (sc_save ct c) = (r, c1)"
    and c': "c' = sc_restore ct c1"
    using assms(1) by (auto simp: flash_write_def XIP_SFlash_Write_Need_Lock_def case_prod_unfold Let_def prod_eq_iff)
  have "(\<exists>op cmd. op \<in> {cfg_pageProgramCmd cfg, cfg_qpageProgramCmd cfg} \<and>
      sf_program_loop ct cfg op cmd a bs (sc_save ct c) = (r, c1)) \<or> (r = ERROR \<and> c1 = sc_save ct c)"
    using sp unfolding SFlash_Program_def by (simp split: if_splits; blast)
  then have "(\<forall>x. x < unat a \<or> unat a + length bs \<le> x \<longrightarrow> mem c1 x = mem (sc_save ct c) x) \<and>
    (r = SUCCESS \<longrightarrow> (\<forall>i < length bs. mem c1 (unat a + i) = mem (sc_save ct c) (unat a + i) AND bs ! i))"
  proof (elim disjE exE conjE)
    fix op cmd
    assume "op \<in> {cfg_pageProgramCmd cfg, cfg_qpageProgramCmd cfg}"
      "sf_program_loop ct cfg op cmd a bs (sc_save ct c) = (r, c1)"
    then show ?thesis by (rule program_loop [OF _ assms(2)])
  qed simp
  then show "x < unat a \<or> unat a + length bs \<le> x \<Longrightarrow> mem c' x = mem c x"
    "r = SUCCESS \<Longrightarrow> i < length bs \<Longrightarrow> mem c' (unat a + i) = mem c (unat a + i) AND bs ! i"
    by (auto simp: c' quiet_mode)
qed

lemma flash_erase_range:
  assumes "0 < n" "unat a + unat n \<le> 2 ^ 24"
  shows "\<exists>r c'. flash_erase ct cfg a n c = Some (r, c') \<and>
    (\<forall>x. x < unat a div 4096 * 4096 \<or> (unat a + unat n - 1) div 4096 * 4096 + 4096 \<le> x \<longrightarrow> mem c' x = mem c x) \<and>
    (r = SUCCESS \<longrightarrow> (\<forall>x. unat a div 4096 * 4096 \<le> x \<and> x < (unat a + unat n - 1) div 4096 * 4096 + 4096
      \<longrightarrow> mem c' x = 0xFF))"
proof -
  have n: "0 < unat n" using assms(1) by (simp add: unat_gt_0)
  have "unat (a + n - 1) = unat a + unat n - 1"
  proof -
    have an: "unat (a + n) = unat a + unat n" using assms(2) by (intro unat_add_lt) simp
    then have "1 \<le> a + n" using n by (simp add: word_le_nat_alt)
    then show ?thesis using an by (simp add: unat_sub)
  qed
  note en = this
  have e24: "unat (a + n - 1) < 2 ^ 24" using en assms(2) n by simp
  obtain r c1 where l: "SFlash_Erase ct cfg a (a + n - 1) (sc_save ct c) = Some (r, c1)"
    "\<forall>x. x < unat a div 4096 * 4096 \<or> unat (a + n - 1) div 4096 * 4096 + 4096 \<le> x \<longrightarrow> mem c1 x = mem (sc_save ct c) x"
    "r = SUCCESS \<longrightarrow> unat a \<le> unat (a + n - 1) \<longrightarrow>
      (\<forall>x. unat a div 4096 * 4096 \<le> x \<and> x < unat (a + n - 1) div 4096 * 4096 + 4096 \<longrightarrow> mem c1 x = 0xFF)"
    using erase_loop [OF e24] by blast
  show ?thesis
  proof (intro exI conjI impI)
    show "flash_erase ct cfg a n c = Some (r, sc_restore ct c1)"
      by (simp add: flash_erase_def XIP_SFlash_Erase_Need_Lock_def l(1))
    show "\<forall>x. x < unat a div 4096 * 4096 \<or> (unat a + unat n - 1) div 4096 * 4096 + 4096 \<le> x \<longrightarrow>
        mem (sc_restore ct c1) x = mem c x"
      using l(2) by (simp add: quiet_mode en)
    assume "r = SUCCESS"
    with l(3) show "\<forall>x. unat a div 4096 * 4096 \<le> x \<and> x < (unat a + unat n - 1) div 4096 * 4096 + 4096
      \<longrightarrow> mem (sc_restore ct c1) x = 0xFF"
      using n by (simp add: quiet_mode en)
  qed
qed

end

sublocale nor_chip < hal: flash_device "hal_flash_ops ct cfg" mem
proof
  fix a :: u32 and buf :: bytes and f
  assume "unat a + length buf \<le> 2 ^ 24"
  moreover obtain op cmd where "sf_read_cmd cfg (cfg_ioMode cfg AND 0x0f) False = Some (op, cmd)"
    using read_cmd_exists by blast
  ultimately show "fl_read (hal_flash_ops ct cfg) a buf f = (SUCCESS, map (\<lambda>i. mem f (unat a + i)) [0..<length buf])"
    using read_loop [of op cmd a "length buf" "sc_save ct f"]
    by (auto simp: hal_flash_ops_def flash_read_def XIP_SFlash_Read_Need_Lock_def SFlash_Read_def
        quiet_mode patch_def)
next
  fix a n f f' x
  assume er: "fl_erase (hal_flash_ops ct cfg) a n f = (SUCCESS, f')" "0 < n" "unat a + unat n \<le> 2 ^ 24"
    "unat a div 4096 * 4096 \<le> x" "x < (unat a + unat n - 1) div 4096 * 4096 + 4096"
  obtain r1 c1 where fe: "flash_erase ct cfg a n f = Some (r1, c1)"
    "r1 = SUCCESS \<longrightarrow> (\<forall>x. unat a div 4096 * 4096 \<le> x \<and> x < (unat a + unat n - 1) div 4096 * 4096 + 4096
      \<longrightarrow> mem c1 x = 0xFF)"
    using flash_erase_range [OF er(2,3), of f] by (elim exE conjE) (rule that)
  with er show "mem f' x = 0xFF" by (simp add: hal_flash_ops_def)
next
  fix a n f r f' x
  assume er: "fl_erase (hal_flash_ops ct cfg) a n f = (r, f')" "0 < n" "unat a + unat n \<le> 2 ^ 24"
    "x < unat a div 4096 * 4096 \<or> (unat a + unat n - 1) div 4096 * 4096 + 4096 \<le> x"
  obtain r1 c1 where fe: "flash_erase ct cfg a n f = Some (r1, c1)"
    "\<forall>x. x < unat a div 4096 * 4096 \<or> (unat a + unat n - 1) div 4096 * 4096 + 4096 \<le> x \<longrightarrow> mem c1 x = mem f x"
    using flash_erase_range [OF er(2,3), of f] by (elim exE conjE) (rule that)
  with er show "mem f' x = mem f x" by (auto simp: hal_flash_ops_def)
next
  fix a bs f f' i
  assume "fl_write (hal_flash_ops ct cfg) a bs f = (SUCCESS, f')" "unat a + length bs \<le> 2 ^ 24" "i < length bs"
  then show "mem f' (unat a + i) = mem f (unat a + i) AND bs ! i"
    using flash_program(2) [of a bs f SUCCESS f' i] by (simp add: hal_flash_ops_def)
next
  fix a bs f r f' x
  assume "fl_write (hal_flash_ops ct cfg) a bs f = (r, f')" "unat a + length bs \<le> 2 ^ 24"
    "x < unat a \<or> unat a + length bs \<le> x"
  then show "mem f' x = mem f x"
    using flash_program(1) [of a bs f r f' x] by (simp add: hal_flash_ops_def)
qed

context nor_chip
begin

lemma hal_device: "flash_device (hal_flash_ops ct cfg) mem"
  by (rule hal.flash_device_axioms)

end

end
