(* ===== verification/NorSim.thy ===== *)
theory NorSim
  imports Flash
begin

text \<open>
  A concrete NOR chip for the flash driver, and the properties of the partition table: they
  are stated for every device that meets the flash contract and shown at work on the chip
  driven by the code's own erase, program and read loops.
\<close>

section \<open>A concrete chip\<close>

text \<open>
  The contract is satisfiable: a chip with the usual opcodes that executes every command at
  once.  It serves as the concrete device of the witnesses.
\<close>

record sim_chip =
  sim_cells :: "nat \<Rightarrow> u8"
  sim_wel :: bool
  sim_buf :: bytes

definition sim_cfg :: flash_cfg where
  "sim_cfg = \<lparr>cfg_ioMode = 0x04, cfg_cReadSupport = 1, cfg_sectorSize = 4, cfg_pageSize = 256,
     cfg_chipEraseCmd = 0xC7, cfg_sectorEraseCmd = 0x20, cfg_blk32EraseCmd = 0x52,
     cfg_blk64EraseCmd = 0xD8, cfg_writeEnableCmd = 0x06, cfg_pageProgramCmd = 0x02,
     cfg_qpageProgramCmd = 0x32, cfg_qppAddrMode = 0, cfg_fastReadCmd = 0x0B, cfg_frDmyClk = 1,
     cfg_fastReadDoCmd = 0x3B, cfg_frDoDmyClk = 1, cfg_fastReadDioCmd = 0xBB, cfg_frDioDmyClk = 0,
     cfg_fastReadQoCmd = 0x6B, cfg_frQoDmyClk = 1, cfg_fastReadQioCmd = 0xEB, cfg_frQioDmyClk = 2,
     cfg_wrEnableIndex = 0, cfg_busyIndex = 0, cfg_wrEnableBit = 1, cfg_busyBit = 0,
     cfg_wrEnableReadRegLen = 1, cfg_busyReadRegLen = 1, cfg_readRegCmd = [0x05, 0x35, 0, 0],
     cfg_cReadMode = 0x20, cfg_timeEsector = 300, cfg_timeE32k = 1200, cfg_timeE64k = 1200,
     cfg_timePagePgm = 5, cfg_timeCe = 20000\<rparr>"

definition sim_send :: "sf_cmd \<Rightarrow> bytes \<Rightarrow> sim_chip \<Rightarrow> sim_chip" where
  "sim_send cmd bs c =
     (let op = sf_opcode cmd; a = sf_addr cmd
      in if op = 0x06 then c\<lparr>sim_wel := True\<rparr>
         else if op = 0x05 then c\<lparr>sim_buf := [if sim_wel c then 2 else 0]\<rparr>
         else if op = 0xEB then c\<lparr>sim_buf := map (\<lambda>i. sim_cells c (a + i)) [0..<256]\<rparr>
         else if \<not> sim_wel c then c
         else (case erase_size sim_cfg op of
                 Some n \<Rightarrow> c\<lparr>sim_cells := \<lambda>x. if in_block a n x then 0xFF else sim_cells c x, sim_wel := False\<rparr>
               | None \<Rightarrow>
                   if op = 0x02 \<or> op = 0x32
                   then c\<lparr>sim_cells := \<lambda>x. if a \<le> x \<and> x < a + length bs
                                         then sim_cells c x AND bs ! (x - a) else sim_cells c x,
                          sim_wel := False\<rparr>
                   else c))"

definition sim_ctrl :: "sim_chip sf_ctrl" where
  "sim_ctrl = \<lparr>sc_send = sim_send, sc_busy = (\<lambda>c. (False, c)), sc_buf = sim_buf,
     sc_delay = (\<lambda>us c. c), sc_save = (\<lambda>c. c), sc_restore = (\<lambda>c. c)\<rparr>"

lemma sim_ops [simp]: "sc_send sim_ctrl = sim_send" "sc_busy sim_ctrl = (\<lambda>c. (False, c))"
  "sc_buf sim_ctrl = sim_buf" "sc_delay sim_ctrl = (\<lambda>us c. c)" "sc_save sim_ctrl = (\<lambda>c. c)"
  "sc_restore sim_ctrl = (\<lambda>c. c)"
  by (simp_all add: sim_ctrl_def)

lemma sim_poll_idle: "sf_poll (\<lambda>c. (False, c)) d l c = (SUCCESS, c)"
  by (simp add: sf_poll.simps)

lemma sim_busy: "SFlash_Busy sim_ctrl sim_cfg c = (False, c\<lparr>sim_buf := [if sim_wel c then 2 else 0]\<rparr>)"
proof -
  have cmd: "sf_opcode (sf_cmd_zero\<lparr>cmdBuf0 := sf_cmd_word 5 0, nbData := 1\<rparr>) = 5"
    using sf_cmd_word_simps(1) [of 0] by simp
  have c: "cfg_readRegCmd sim_cfg ! unat (cfg_busyIndex sim_cfg) = 5" "ucast (cfg_busyReadRegLen sim_cfg) = (1 :: u32)"
    "unat (cfg_busyReadRegLen sim_cfg) = 1" "unat (cfg_busyBit sim_cfg) = 0" by (simp_all add: sim_cfg_def)
  show ?thesis
    unfolding SFlash_Busy_def SFlash_Read_Reg_def Let_def c sim_ops sim_poll_idle
    by (simp add: sim_send_def cmd reg_stat_def patch_def rd32_def bit_simps)
qed

lemma sim_poll_busy:
  "sf_poll (SFlash_Busy sim_ctrl sim_cfg) d l c = (SUCCESS, c\<lparr>sim_buf := [if sim_wel c then 2 else 0]\<rparr>)"
  by (simp add: sf_poll.simps sim_busy)

lemma sim_modifying: "cfg_modifying sim_cfg = {0xC7, 0x20, 0x52, 0xD8, 0x02, 0x32}"
  by (simp add: cfg_modifying_def sim_cfg_def)

lemma sim_erase_size: "erase_size sim_cfg op = (if op = 0x20 then Some 4096 else if op = 0x52 then Some 32768
    else if op = 0xD8 then Some 65536 else None)"
  by (auto simp: erase_size_def sim_cfg_def BFLB_SPIFLASH_CMD_INVALID_def)

lemma sim_read_cmd: "sf_read_cmd sim_cfg (cfg_ioMode sim_cfg AND 0x0f) b = Some (op, cmd) \<Longrightarrow> op = 0xEB"
  by (simp add: sf_read_cmd_def sim_cfg_def io_modes Let_def)

interpretation sim: nor_chip sim_ctrl sim_cfg sim_cells sim_wel
proof (unfold_locales, goal_cases)
  case (10 d cmd bs c) then show ?case by (simp add: sim_poll_idle)
next
  case (15 cmd bs c)
  then show ?case
    by (auto simp: sim_send_def sim_modifying sim_erase_size Let_def)
next
  case (16 cmd d bs c c' n)
  have "cfg_readRegCmd sim_cfg ! unat (cfg_wrEnableIndex sim_cfg) = 5" "unat (cfg_wrEnableBit sim_cfg) = 1"
    by (simp_all add: sim_cfg_def)
  moreover from 16(2) have "c' = sim_send cmd bs c" by (simp add: sim_poll_idle)
  moreover from 16(1) have "sf_opcode cmd = 5" by (simp add: sim_cfg_def)
  ultimately show ?case using 16(3)
    by (cases n) (auto simp: sim_send_def reg_stat_def patch_def rd32_def bit_simps Let_def
        split: if_splits)
next
  case (17 c cmd n d l bs c' x)
  then show ?case
    by (auto simp: sim_poll_busy sim_send_def sim_erase_size Let_def split: if_splits)
next
  case (18 cmd n d l bs c r c' x)
  then show ?case
    by (auto simp: sim_poll_busy sim_send_def sim_erase_size Let_def split: if_splits)
next
  case (19 c cmd d l bs c' i)
  then have "sf_opcode cmd = 0x02 \<or> sf_opcode cmd = 0x32" by (simp add: sim_cfg_def)
  with 19 show ?case
    by (auto simp: sim_poll_busy sim_send_def sim_erase_size Let_def)
next
  case (20 cmd d l bs c r c' x)
  then have "sf_opcode cmd = 0x02 \<or> sf_opcode cmd = 0x32" by (simp add: sim_cfg_def)
  with 20 show ?case
    by (auto simp: sim_poll_busy sim_send_def sim_erase_size Let_def split: if_splits)
next
  case (21 cmd rcmd d l bs c c' i)
  then have "sf_opcode cmd = 0xEB" by (auto dest: sim_read_cmd)
  with 21 show ?case
    by (auto simp: sim_poll_idle sim_send_def Let_def)
qed (auto simp: sim_modifying dest: sim_read_cmd, simp_all add: sim_cfg_def BFLB_SPIFLASH_CMD_INVALID_def)

text \<open>The simulated chip never fails an operation.\<close>

lemma sim_write_enable: "fst (SFlash_Write_Enable sim_ctrl sim_cfg c) = SUCCESS"
proof -
  have cmd: "sf_opcode (sf_cmd_zero\<lparr>cmdBuf0 := sf_cmd_word 5 0, nbData := 1\<rparr>) = 5"
    "sf_opcode (sf_cmd_zero\<lparr>cmdBuf0 := sf_cmd_word 6 0\<rparr>) = 6"
    using sf_cmd_word_simps(1) [of 0] by simp_all
  have c: "cfg_readRegCmd sim_cfg ! unat (cfg_wrEnableIndex sim_cfg) = 5"
    "ucast (cfg_wrEnableReadRegLen sim_cfg) = (1 :: u32)" "cfg_writeEnableCmd sim_cfg = 6"
    "unat (cfg_wrEnableReadRegLen sim_cfg) = 1" "unat (cfg_wrEnableBit sim_cfg) = 1" by (simp_all add: sim_cfg_def)
  show ?thesis
    unfolding SFlash_Write_Enable_def SFlash_Read_Reg_def Let_def c sim_ops sim_poll_idle
    by (simp add: sim_send_def cmd reg_stat_def patch_def rd32_def bit_simps)
qed

lemma sim_erase_block: "fst (sf_erase_block sim_ctrl sim_cfg op asize a time c) = SUCCESS"
  using sim_write_enable [of c] by (simp add: sf_erase_block_def sim_poll_busy case_prod_unfold Let_def)

lemma sim_erase_step: "fst (sf_erase_step sim_ctrl sim_cfg s e c) = SUCCESS"
  by (simp add: sf_erase_step_def SFlash_Blk64_Erase_def SFlash_Blk32_Erase_def SFlash_Sector_Erase_def
      Let_def case_prod_unfold sim_erase_block)

lemma sim_erase_aux:
  assumes "SFlash_Erase ct cfg s e c = Some z"
  shows "ct = sim_ctrl \<and> cfg = sim_cfg \<longrightarrow> fst z = SUCCESS"
proof (rule SFlash_Erase.raw_induct [OF _ assms,
    where P = "\<lambda>ct cfg s e c z. ct = sim_ctrl \<and> cfg = sim_cfg \<longrightarrow> fst z = SUCCESS"])
  fix f :: "sim_chip sf_ctrl \<Rightarrow> flash_cfg \<Rightarrow> u32 \<Rightarrow> u32 \<Rightarrow> sim_chip \<Rightarrow> (bl_err \<times> sim_chip) option"
    and ct cfg s e c z
  assume ih: "\<And>ct cfg s e c z. f ct cfg s e c = Some z \<Longrightarrow> ct = sim_ctrl \<and> cfg = sim_cfg \<longrightarrow> fst z = SUCCESS"
    and body: "(if s \<le> e then let (r, s, c1) = sf_erase_step ct cfg s e c
      in if r \<noteq> SUCCESS then Some (ERROR, c1) else f ct cfg s e c1 else Some (SUCCESS, c)) = Some z"
  obtain r s' c1 where st: "sf_erase_step ct cfg s e c = (r, s', c1)" by (metis prod_cases3)
  show "ct = sim_ctrl \<and> cfg = sim_cfg \<longrightarrow> fst z = SUCCESS"
  proof
    assume sim: "ct = sim_ctrl \<and> cfg = sim_cfg"
    then have "r = SUCCESS" using sim_erase_step [of s e c] st sim by simp
    then have "f ct cfg s' e c1 = Some z \<or> z = (SUCCESS, c)"
      using body st by (auto split: if_splits)
    then show "fst z = SUCCESS" using ih [of ct cfg s' e c1 z] sim by (elim disjE) simp_all
  qed
qed

lemma sim_program_loop: "fst (sf_program_loop sim_ctrl sim_cfg op cmd a bs c) = SUCCESS"
proof (induction "length bs" arbitrary: a bs c rule: less_induct)
  case less
  show ?case
  proof (cases "bs = []")
    case False
    let ?n = "min (256 - unat a mod 256) (length bs)"
    have "length (drop ?n bs) < length bs" using False by simp
    note ih = less [OF this]
    show ?thesis
      using False sim_write_enable [of c]
      by (subst sf_program_loop.simps) (simp add: sim.page Let_def case_prod_unfold sim_poll_busy ih)
  qed (simp add: sf_program_loop.simps)
qed

lemma sim_flash_ok:
  "0 < n \<Longrightarrow> unat a + unat n \<le> 2 ^ 24 \<Longrightarrow> fst (fl_erase (hal_flash_ops sim_ctrl sim_cfg) a n c) = SUCCESS"
  "fst (fl_write (hal_flash_ops sim_ctrl sim_cfg) a bs c) = SUCCESS"
proof -
  assume "0 < n" "unat a + unat n \<le> 2 ^ 24"
  from sim.flash_erase_range [OF this, of c] obtain r c' where
    f: "flash_erase sim_ctrl sim_cfg a n c = Some (r, c')" by (elim exE conjE) (rule that)
  then have "r = SUCCESS"
    using sim_erase_aux by (fastforce simp: flash_erase_def XIP_SFlash_Erase_Need_Lock_def)
  then show "fst (fl_erase (hal_flash_ops sim_ctrl sim_cfg) a n c) = SUCCESS"
    using f by (simp add: hal_flash_ops_def)
next
  have "cfg_ioMode sim_cfg AND 0x0f = SF_CTRL_QIO_MODE" by (simp add: sim_cfg_def io_modes)
  then show "fst (fl_write (hal_flash_ops sim_ctrl sim_cfg) a bs c) = SUCCESS"
    by (simp add: hal_flash_ops_def flash_write_def XIP_SFlash_Write_Need_Lock_def case_prod_unfold Let_def
        SFlash_Program_def sim_program_loop)
qed

text \<open>
  A device holding one valid table: age 5, one entry of type 0 whose two slots are at
  \<open>0x10000\<close> and \<open>0x40000\<close>, slot 0 active; everything else is erased.
\<close>

definition demo_base :: bytes where
  "demo_base = wr32 (wr32 (wr8 (wr8 (wr32 (wr16 (wr16 (wr32 (replicate 596 0xFF) 0 BFLB_PT_MAGIC_CODE)
     4 0) 6 1) 8 5) 16 0) 18 0) 28 0x10000) 32 0x40000"

definition demo_table :: bytes where "demo_table = pt_seal demo_base"

definition demo_chip :: sim_chip where
  "demo_chip = \<lparr>sim_cells = (\<lambda>x. if 0x2D000 \<le> x \<and> x < 0x2D000 + 596 then demo_table ! (x - 0x2D000)
     else 0xFF), sim_wel = False, sim_buf = []\<rparr>"

abbreviation demo_ops :: "sim_chip flash_ops" where
  "demo_ops \<equiv> hal_flash_ops sim_ctrl sim_cfg"

lemma demo_base_wf: "pt_wf demo_base" "pt_age demo_base = 5" "pt_entryCnt demo_base = 1"
  by (simp_all add: demo_base_def pt_wf_def pt_sizes pt_field_defs layout)

lemma demo_table_facts: "pt_table_valid demo_table" "pt_age demo_table = 5" "pt_count demo_table = 1"
  "length demo_table = PT_STUFF_SIZE"
  using demo_base_wf by (simp_all add: demo_table_def pt_seal_valid pt_seal_frame)

lemma demo_stored: "pt_stored (sim_cells demo_chip) PT_TABLE_ID_0 = demo_table"
  using demo_table_facts(4)
  by (intro nth_equalityI) (simp_all add: image_at_def demo_chip_def pt_addresses PT_STUFF_SIZE_def)

lemma demo_active: "pt_active (sim_cells demo_chip) = PT_TABLE_ID_0"
proof -
  have "pt_magicCode (pt_stored (sim_cells demo_chip) PT_TABLE_ID_1) = - 1"
    by (simp add: pt_magicCode_def rd32_def image_at_def demo_chip_def pt_addresses PT_STUFF_SIZE_def)
  then have "\<not> pt_table_valid (pt_stored (sim_cells demo_chip) PT_TABLE_ID_1)"
    by (simp add: pt_table_valid_def BFLB_PT_MAGIC_CODE_def Let_def)
  then show ?thesis using demo_stored demo_table_facts by (simp add: pt_active_def pt_select_def)
qed

lemma demo_device: "flash_device demo_ops sim_cells"
  by (rule sim.hal.flash_device_axioms)

section \<open>Properties of the partition table\<close>

text \<open>C3: An update of the partition table never damages the active table: whatever the flash
  functions report and wherever they stop, the image of the table that was active before
  \<open>pt_table_update_entry\<close> on the other one is unchanged, so a valid table is still selected.\<close>

theorem pt_update_safe:
  assumes dev: "flash_device gp cell"
    and act: "pt_active (cell f) = i" "i \<noteq> PT_TABLE_ID_INVALID"
    and e: "length e = PT_ENTRY_SIZE"
    and upd: "pt_table_update_entry gp (pt_other i) (Some (pt_stored (cell f) i)) (Some e) f = (r, st, f')"
  shows "pt_stored (cell f') i = pt_stored (cell f) i \<and> pt_active (cell f') \<noteq> PT_TABLE_ID_INVALID"
  using flash_device.update_keeps_active [OF dev act upd e] pt_active_kept(1) [OF act] by simp

theorem pt_update_safe_witness:
  "pt_active (sim_cells (snd (snd (pt_table_update_entry demo_ops PT_TABLE_ID_1
     (Some demo_table) (Some (replicate 36 7)) demo_chip)))) \<noteq> PT_TABLE_ID_INVALID"
  using pt_update_safe [OF demo_device demo_active, of "replicate 36 7"]
  by (simp add: demo_stored pt_other_def PT_ENTRY_SIZE_def prod_eq_iff)

text \<open>C4: A successful update takes effect: the other table becomes the active one, and looking
  up the entry's type in it returns the entry that was put (ages below \<open>2^32 - 1\<close>).\<close>

theorem pt_update_effective:
  assumes dev: "flash_device gp cell"
    and act: "pt_active (cell f) = i" "i \<noteq> PT_TABLE_ID_INVALID"
    and e: "length e = PT_ENTRY_SIZE"
    and age: "pt_age (pt_stored (cell f) i) \<noteq> - 1"
    and upd: "pt_table_update_entry gp (pt_other i) (Some (pt_stored (cell f) i)) (Some e) f
      = (PT_ERROR_SUCCESS, st, f')"
  shows "pt_active (cell f') = pt_other i \<and>
    pt_table_get_active_entries_by_id (Some (pt_stored (cell f') (pt_other i)))
      (ucast (entry_type e)) (Some b) = (PT_ERROR_SUCCESS, Some e)"
  using flash_device.update_success [OF dev act upd e age] by blast

lemma demo_update_ok:
  "fst (pt_table_update_entry demo_ops PT_TABLE_ID_1 (Some demo_table) (Some (replicate 36 7)) demo_chip)
    = PT_ERROR_SUCCESS"
proof -
  have sc: "pt_put_entry demo_table (replicate 36 7) \<noteq> None"
    using demo_table_facts(3) by (simp add: pt_put_entry_def Let_def PT_ENTRY_MAX_def)
  then obtain s1 where put: "pt_put_entry demo_table (replicate 36 7) = Some s1" by auto
  let ?s = "pt_seal (wr32 s1 8 (pt_age s1 + 1))"
  have "pt_wf demo_table" by (rule pt_table_valid_wf) (rule demo_table_facts)+
  then have "pt_wf s1" using pt_put_entry_wf(1) [OF put] by (simp add: PT_ENTRY_SIZE_def)
  then have "pt_wf (wr32 s1 8 (pt_age s1 + 1))" by (simp add: pt_wf_def pt_sizes pt_field_defs layout)
  then have wf: "pt_wf ?s" by (auto simp: pt_wf_def [of ?s] frame) (simp add: pt_wf_def)+
  note u = sim.hal.used_bounds [OF this]
  have "fst (fl_erase demo_ops (pt_table_address PT_TABLE_ID_1)
     (word_of_nat (PT_CONFIG_SIZE + pt_count ?s * PT_ENTRY_SIZE + 4)) demo_chip) = SUCCESS"
    by (rule sim_flash_ok(1)) (use u in \<open>simp_all add: pt_addresses PT_STUFF_SIZE_def\<close>)
  then show ?thesis
    by (simp add: pt_table_update_entry_def put Let_def case_prod_unfold sim_flash_ok(2))
qed

theorem pt_update_effective_witness:
  "pt_active (sim_cells (snd (snd (pt_table_update_entry demo_ops PT_TABLE_ID_1
     (Some demo_table) (Some (replicate 36 7)) demo_chip)))) = PT_TABLE_ID_1"
proof -
  let ?u = "pt_table_update_entry demo_ops PT_TABLE_ID_1 (Some demo_table) (Some (replicate 36 7)) demo_chip"
  obtain st f' where u: "?u = (PT_ERROR_SUCCESS, st, f')"
    using demo_update_ok by (metis prod.collapse)
  then show ?thesis
    using pt_update_effective [OF demo_device demo_active, of "replicate 36 7" st f']
    by (simp add: demo_stored demo_table_facts pt_other_def PT_ENTRY_SIZE_def)
qed

text \<open>C16: In-application update: \<open>pt_table_get_iap_para\<close> names the slot the new image goes
  to; if the image is then written without touching the tables and \<open>pt_table_set_iap_para\<close>
  succeeds, the other table is active and its entry 0 boots exactly that slot.\<close>

theorem pt_iap_switches_slot:
  assumes dev: "flash_device gp cell"
    and act: "pt_active (cell f) = i" "i \<noteq> PT_TABLE_ID_INVALID"
    and cnt: "0 < pt_count (pt_stored (cell f) i)"
    and age: "pt_age (pt_stored (cell f) i) \<noteq> - 1"
    and bufs: "length b0 = PT_STUFF_SIZE" "length b1 = PT_STUFF_SIZE" "length b = PT_STUFF_SIZE"
    and get: "pt_table_get_iap_para gp f (b0, b1) para = (PT_ERROR_SUCCESS, para')"
    and image: "\<And>j. pt_stored (cell g) j = pt_stored (cell f) j"
    and set: "pt_table_set_iap_para gp para' b g = (PT_ERROR_SUCCESS, g')"
  shows "pt_active (cell g') = pt_other i \<and>
    (let e = pt_entries (pt_stored (cell g') (pt_other i)) 0
     in entry_start_address e (active_bit (entry_active_index e)) = iap_write_addr para')"
  using flash_device.iap_switch [OF dev act cnt age bufs get image set] by blast

definition demo_para :: pt_iap_param where
  "demo_para = iap_from \<lparr>iap_start_addr = 0, iap_write_addr = 0, iap_img_len = 0, inactive_index = 0,
     inactive_table_index = 0\<rparr> demo_table 1"

lemma demo_buf: "length (replicate 596 (0 :: u8)) = PT_STUFF_SIZE"
  by (simp add: PT_STUFF_SIZE_def)

lemma demo_iap:
  "pt_table_get_iap_para demo_ops demo_chip (replicate 596 0, replicate 596 0)
     \<lparr>iap_start_addr = 0, iap_write_addr = 0, iap_img_len = 0, inactive_index = 0,
      inactive_table_index = 0\<rparr> = (PT_ERROR_SUCCESS, demo_para)"
  using sim.hal.get_iap [OF demo_active _ demo_buf demo_buf, unfolded demo_stored]
  by (simp add: demo_para_def)

lemma demo_set_ok: "fst (pt_table_set_iap_para demo_ops demo_para (replicate 596 0) demo_chip) = PT_ERROR_SUCCESS"
proof -
  have "fst (fl_erase demo_ops BFLB_PT_TABLE1_ADDRESS (word_of_nat PT_STUFF_SIZE) c) = SUCCESS" for c
    by (rule sim_flash_ok(1)) (simp_all add: BFLB_PT_TABLE1_ADDRESS_def PT_STUFF_SIZE_def)
  then show ?thesis
    by (simp add: pt_table_set_iap_para_def demo_para_def iap_from_def pt_write_back_def Let_def
        case_prod_unfold sim_flash_ok(2))
qed

theorem pt_iap_switches_slot_witness:
  "pt_active (sim_cells (snd (pt_table_set_iap_para demo_ops demo_para (replicate 596 0) demo_chip)))
    = PT_TABLE_ID_1"
proof -
  obtain g' where g: "pt_table_set_iap_para demo_ops demo_para (replicate 596 0) demo_chip = (PT_ERROR_SUCCESS, g')"
    using demo_set_ok by (metis prod.collapse)
  show ?thesis
    using pt_iap_switches_slot [OF demo_device demo_active _ _ _ demo_buf demo_buf demo_buf demo_iap refl g]
    by (simp only: demo_stored) (simp add: g demo_table_facts pt_other_def)
qed

text \<open>\<open>pt_table_create\<close> never produces a valid table: it writes only the 16 header bytes, and
  the erased word behind them is not the CRC of the empty entry list that
  \<open>pt_table_valid\<close> compares it with.\<close>

theorem pt_create_not_valid:
  assumes dev: "flash_device gp cell" and i: "i \<noteq> PT_TABLE_ID_INVALID"
    and len: "length tab = PT_CONFIG_SIZE"
    and create: "pt_table_create gp i tab f = (PT_ERROR_SUCCESS, f')"
  shows "\<not> pt_table_valid (pt_stored (cell f') i)"
  by (rule flash_device.create_not_valid [OF assms])

theorem pt_create_not_valid_witness:
  "\<not> pt_table_valid (pt_stored (sim_cells (snd (pt_table_create demo_ops PT_TABLE_ID_1
      (replicate 16 0) demo_chip))) PT_TABLE_ID_1)"
proof -
  have "fst (fl_erase demo_ops BFLB_PT_TABLE1_ADDRESS (word_of_nat PT_CONFIG_SIZE) c) = SUCCESS" for c
    by (rule sim_flash_ok(1)) (simp_all add: BFLB_PT_TABLE1_ADDRESS_def PT_CONFIG_SIZE_def)
  then have "fst (pt_table_create demo_ops PT_TABLE_ID_1 (replicate 16 0) demo_chip) = PT_ERROR_SUCCESS"
    by (simp add: pt_table_create_def pt_table_address_def Let_def case_prod_unfold sim_flash_ok(2))
  then obtain c' where c: "pt_table_create demo_ops PT_TABLE_ID_1 (replicate 16 0) demo_chip = (PT_ERROR_SUCCESS, c')"
    by (metis prod.collapse)
  show ?thesis
    using pt_create_not_valid [OF demo_device _ _ c] by (simp add: c PT_CONFIG_SIZE_def)
qed

text \<open>The flash driver implements the contract the partition table relies on: for every chip
  that behaves like the data sheet, \<open>flash_erase\<close>, \<open>flash_write\<close> and \<open>flash_read\<close> (the erase loop over
  64K, 32K and sector erases, the page-split program loop, the buffered read loop) form a
  flash device: reads return the cells, erases set exactly the touched sectors, programs
  clear bits only in their range.\<close>

theorem hal_flash_refines:
  assumes "nor_chip ct cfg mem wel"
  shows "flash_device (hal_flash_ops ct cfg) mem"
  by (rule nor_chip.hal_device [OF assms])

theorem hal_flash_refines_witness: "flash_device (hal_flash_ops sim_ctrl sim_cfg) sim_cells"
  by (rule hal_flash_refines [OF sim.nor_chip_axioms])

end
