(* ===== verification/FlashConfig.thy ===== *)
theory FlashConfig
  imports Flash SoftCrc
begin

text \<open>
  The flash chips the firmware knows: \<open>SPI_Flash_Cfg_Type\<close> in full (the record of \<open>Flash\<close>
  holds the fields of the data path; this one extends it), its packed layout of 84 bytes, the
  chip tables of \<open>bl702_sf_cfg.c\<close> and \<open>bl702_sf_cfg_ext.c\<close>, and the search by JEDEC id.
  Fields a table entry leaves out are 0, as in C.
\<close>

section \<open>The configuration of a chip\<close>

record spi_cfg = flash_cfg +
  cfg_clkDelay :: u8
  cfg_clkInvert :: u8
  cfg_resetEnCmd :: u8
  cfg_resetCmd :: u8
  cfg_resetCreadCmd :: u8
  cfg_resetCreadCmdSize :: u8
  cfg_jedecIdCmd :: u8
  cfg_jedecIdCmdDmyClk :: u8
  cfg_qpiJedecIdCmd :: u8
  cfg_qpiJedecIdCmdDmyClk :: u8
  cfg_mid :: u8
  cfg_qpiFastReadCmd :: u8
  cfg_qpiFrDmyClk :: u8
  cfg_qpiFastReadQioCmd :: u8
  cfg_qpiFrQioDmyClk :: u8
  cfg_qpiPageProgramCmd :: u8
  cfg_writeVregEnableCmd :: u8
  cfg_qeIndex :: u8
  cfg_qeBit :: u8
  cfg_wrEnableWriteRegLen :: u8
  cfg_qeWriteRegLen :: u8
  cfg_qeReadRegLen :: u8
  cfg_releasePowerDown :: u8
  cfg_writeRegCmd :: bytes
  cfg_enterQpi :: u8
  cfg_exitQpi :: u8
  cfg_cRExit :: u8
  cfg_burstWrapCmd :: u8
  cfg_burstWrapCmdDmyClk :: u8
  cfg_burstWrapDataMode :: u8
  cfg_burstWrapData :: u8
  cfg_deBurstWrapCmd :: u8
  cfg_deBurstWrapCmdDmyClk :: u8
  cfg_deBurstWrapDataMode :: u8
  cfg_deBurstWrapData :: u8
  cfg_pdDelay :: u8
  cfg_qeData :: u8

abbreviation base_cfg :: "spi_cfg \<Rightarrow> flash_cfg" where
  "base_cfg \<equiv> flash_cfg.truncate"

lemma base_cfg_simps [simp]:
    "cfg_ioMode (base_cfg m) = cfg_ioMode m"
    "cfg_cReadSupport (base_cfg m) = cfg_cReadSupport m"
    "cfg_sectorSize (base_cfg m) = cfg_sectorSize m"
    "cfg_pageSize (base_cfg m) = cfg_pageSize m"
    "cfg_chipEraseCmd (base_cfg m) = cfg_chipEraseCmd m"
    "cfg_sectorEraseCmd (base_cfg m) = cfg_sectorEraseCmd m"
    "cfg_blk32EraseCmd (base_cfg m) = cfg_blk32EraseCmd m"
    "cfg_blk64EraseCmd (base_cfg m) = cfg_blk64EraseCmd m"
    "cfg_writeEnableCmd (base_cfg m) = cfg_writeEnableCmd m"
    "cfg_pageProgramCmd (base_cfg m) = cfg_pageProgramCmd m"
    "cfg_qpageProgramCmd (base_cfg m) = cfg_qpageProgramCmd m"
    "cfg_qppAddrMode (base_cfg m) = cfg_qppAddrMode m"
    "cfg_fastReadCmd (base_cfg m) = cfg_fastReadCmd m"
    "cfg_frDmyClk (base_cfg m) = cfg_frDmyClk m"
    "cfg_fastReadDoCmd (base_cfg m) = cfg_fastReadDoCmd m"
    "cfg_frDoDmyClk (base_cfg m) = cfg_frDoDmyClk m"
    "cfg_fastReadDioCmd (base_cfg m) = cfg_fastReadDioCmd m"
    "cfg_frDioDmyClk (base_cfg m) = cfg_frDioDmyClk m"
    "cfg_fastReadQoCmd (base_cfg m) = cfg_fastReadQoCmd m"
    "cfg_frQoDmyClk (base_cfg m) = cfg_frQoDmyClk m"
    "cfg_fastReadQioCmd (base_cfg m) = cfg_fastReadQioCmd m"
    "cfg_frQioDmyClk (base_cfg m) = cfg_frQioDmyClk m"
    "cfg_wrEnableIndex (base_cfg m) = cfg_wrEnableIndex m"
    "cfg_busyIndex (base_cfg m) = cfg_busyIndex m"
    "cfg_wrEnableBit (base_cfg m) = cfg_wrEnableBit m"
    "cfg_busyBit (base_cfg m) = cfg_busyBit m"
    "cfg_wrEnableReadRegLen (base_cfg m) = cfg_wrEnableReadRegLen m"
    "cfg_busyReadRegLen (base_cfg m) = cfg_busyReadRegLen m"
    "cfg_readRegCmd (base_cfg m) = cfg_readRegCmd m"
    "cfg_cReadMode (base_cfg m) = cfg_cReadMode m"
    "cfg_timeEsector (base_cfg m) = cfg_timeEsector m"
    "cfg_timeE32k (base_cfg m) = cfg_timeE32k m"
    "cfg_timeE64k (base_cfg m) = cfg_timeE64k m"
    "cfg_timePagePgm (base_cfg m) = cfg_timePagePgm m"
    "cfg_timeCe (base_cfg m) = cfg_timeCe m"
  by (simp_all add: flash_cfg.defs)

section \<open>The packed structure\<close>

definition SPI_CFG_SIZE :: nat where "SPI_CFG_SIZE = 84"

definition cfg_bytes :: "spi_cfg \<Rightarrow> bytes" where
  "cfg_bytes m =
     [cfg_ioMode m, cfg_cReadSupport m, cfg_clkDelay m, cfg_clkInvert m, cfg_resetEnCmd m,
     cfg_resetCmd m, cfg_resetCreadCmd m, cfg_resetCreadCmdSize m, cfg_jedecIdCmd m,
     cfg_jedecIdCmdDmyClk m, cfg_qpiJedecIdCmd m, cfg_qpiJedecIdCmdDmyClk m, cfg_sectorSize m,
     cfg_mid m] @ le16 (cfg_pageSize m) @ [cfg_chipEraseCmd m, cfg_sectorEraseCmd m,
     cfg_blk32EraseCmd m, cfg_blk64EraseCmd m, cfg_writeEnableCmd m, cfg_pageProgramCmd m,
     cfg_qpageProgramCmd m, cfg_qppAddrMode m, cfg_fastReadCmd m, cfg_frDmyClk m,
     cfg_qpiFastReadCmd m, cfg_qpiFrDmyClk m, cfg_fastReadDoCmd m, cfg_frDoDmyClk m,
     cfg_fastReadDioCmd m, cfg_frDioDmyClk m, cfg_fastReadQoCmd m, cfg_frQoDmyClk m,
     cfg_fastReadQioCmd m, cfg_frQioDmyClk m, cfg_qpiFastReadQioCmd m, cfg_qpiFrQioDmyClk m,
     cfg_qpiPageProgramCmd m, cfg_writeVregEnableCmd m, cfg_wrEnableIndex m, cfg_qeIndex m,
     cfg_busyIndex m, cfg_wrEnableBit m, cfg_qeBit m, cfg_busyBit m, cfg_wrEnableWriteRegLen m,
     cfg_wrEnableReadRegLen m, cfg_qeWriteRegLen m, cfg_qeReadRegLen m, cfg_releasePowerDown m,
     cfg_busyReadRegLen m] @ cfg_readRegCmd m @ cfg_writeRegCmd m @ [cfg_enterQpi m,
     cfg_exitQpi m, cfg_cReadMode m, cfg_cRExit m, cfg_burstWrapCmd m, cfg_burstWrapCmdDmyClk m,
     cfg_burstWrapDataMode m, cfg_burstWrapData m, cfg_deBurstWrapCmd m,
     cfg_deBurstWrapCmdDmyClk m, cfg_deBurstWrapDataMode m, cfg_deBurstWrapData m] @
     le16 (cfg_timeEsector m) @ le16 (cfg_timeE32k m) @ le16 (cfg_timeE64k m) @
     le16 (cfg_timePagePgm m) @ le16 (cfg_timeCe m) @ [cfg_pdDelay m, cfg_qeData m]"

definition cfg_of_bytes :: "bytes \<Rightarrow> spi_cfg" where
  "cfg_of_bytes bs =
     \<lparr>cfg_ioMode = bs ! 0, cfg_cReadSupport = bs ! 1, cfg_sectorSize = bs ! 12,
     cfg_pageSize = rd16 bs 14, cfg_chipEraseCmd = bs ! 16, cfg_sectorEraseCmd = bs ! 17,
     cfg_blk32EraseCmd = bs ! 18, cfg_blk64EraseCmd = bs ! 19, cfg_writeEnableCmd = bs ! 20,
     cfg_pageProgramCmd = bs ! 21, cfg_qpageProgramCmd = bs ! 22, cfg_qppAddrMode = bs ! 23,
     cfg_fastReadCmd = bs ! 24, cfg_frDmyClk = bs ! 25, cfg_fastReadDoCmd = bs ! 28,
     cfg_frDoDmyClk = bs ! 29, cfg_fastReadDioCmd = bs ! 30, cfg_frDioDmyClk = bs ! 31,
     cfg_fastReadQoCmd = bs ! 32, cfg_frQoDmyClk = bs ! 33, cfg_fastReadQioCmd = bs ! 34,
     cfg_frQioDmyClk = bs ! 35, cfg_wrEnableIndex = bs ! 40, cfg_busyIndex = bs ! 42,
     cfg_wrEnableBit = bs ! 43, cfg_busyBit = bs ! 45, cfg_wrEnableReadRegLen = bs ! 47,
     cfg_busyReadRegLen = bs ! 51, cfg_readRegCmd = seg bs 52 4, cfg_cReadMode = bs ! 62,
     cfg_timeEsector = rd16 bs 72, cfg_timeE32k = rd16 bs 74, cfg_timeE64k = rd16 bs 76,
     cfg_timePagePgm = rd16 bs 78, cfg_timeCe = rd16 bs 80, cfg_clkDelay = bs ! 2,
     cfg_clkInvert = bs ! 3, cfg_resetEnCmd = bs ! 4, cfg_resetCmd = bs ! 5,
     cfg_resetCreadCmd = bs ! 6, cfg_resetCreadCmdSize = bs ! 7, cfg_jedecIdCmd = bs ! 8,
     cfg_jedecIdCmdDmyClk = bs ! 9, cfg_qpiJedecIdCmd = bs ! 10,
     cfg_qpiJedecIdCmdDmyClk = bs ! 11, cfg_mid = bs ! 13, cfg_qpiFastReadCmd = bs ! 26,
     cfg_qpiFrDmyClk = bs ! 27, cfg_qpiFastReadQioCmd = bs ! 36, cfg_qpiFrQioDmyClk = bs ! 37,
     cfg_qpiPageProgramCmd = bs ! 38, cfg_writeVregEnableCmd = bs ! 39, cfg_qeIndex = bs ! 41,
     cfg_qeBit = bs ! 44, cfg_wrEnableWriteRegLen = bs ! 46, cfg_qeWriteRegLen = bs ! 48,
     cfg_qeReadRegLen = bs ! 49, cfg_releasePowerDown = bs ! 50, cfg_writeRegCmd = seg bs 56 4,
     cfg_enterQpi = bs ! 60, cfg_exitQpi = bs ! 61, cfg_cRExit = bs ! 63,
     cfg_burstWrapCmd = bs ! 64, cfg_burstWrapCmdDmyClk = bs ! 65,
     cfg_burstWrapDataMode = bs ! 66, cfg_burstWrapData = bs ! 67, cfg_deBurstWrapCmd = bs ! 68,
     cfg_deBurstWrapCmdDmyClk = bs ! 69, cfg_deBurstWrapDataMode = bs ! 70,
     cfg_deBurstWrapData = bs ! 71, cfg_pdDelay = bs ! 82, cfg_qeData = bs ! 83\<rparr>"

section \<open>The chips\<close>

subsection \<open>\<open>bl702_sf_cfg.c\<close>\<close>

definition flashCfg_Winb_80DV :: spi_cfg where
  "flashCfg_Winb_80DV = \<lparr>cfg_ioMode = 4, cfg_cReadSupport = 0, cfg_sectorSize = 4,
     cfg_pageSize = 0x100, cfg_chipEraseCmd = 0xC7, cfg_sectorEraseCmd = 0x20,
     cfg_blk32EraseCmd = 0x52, cfg_blk64EraseCmd = 0xD8, cfg_writeEnableCmd = 6,
     cfg_pageProgramCmd = 2, cfg_qpageProgramCmd = 0x32, cfg_qppAddrMode = 0,
     cfg_fastReadCmd = 0xB, cfg_frDmyClk = 1, cfg_fastReadDoCmd = 0x3B, cfg_frDoDmyClk = 1,
     cfg_fastReadDioCmd = 0xBB, cfg_frDioDmyClk = 0, cfg_fastReadQoCmd = 0x6B,
     cfg_frQoDmyClk = 1, cfg_fastReadQioCmd = 0xEB, cfg_frQioDmyClk = 2, cfg_wrEnableIndex = 0,
     cfg_busyIndex = 0, cfg_wrEnableBit = 1, cfg_busyBit = 0, cfg_wrEnableReadRegLen = 1,
     cfg_busyReadRegLen = 1, cfg_readRegCmd = [5, 0x35, 0, 0], cfg_cReadMode = 0xFF,
     cfg_timeEsector = 300, cfg_timeE32k = 1200, cfg_timeE64k = 1200, cfg_timePagePgm = 5,
     cfg_timeCe = 20000, cfg_clkDelay = 1, cfg_clkInvert = 0x3D, cfg_resetEnCmd = 0x66,
     cfg_resetCmd = 0x99, cfg_resetCreadCmd = 0xFF, cfg_resetCreadCmdSize = 3,
     cfg_jedecIdCmd = 0x9F, cfg_jedecIdCmdDmyClk = 0, cfg_qpiJedecIdCmd = 0x9F,
     cfg_qpiJedecIdCmdDmyClk = 0, cfg_mid = 0xEF, cfg_qpiFastReadCmd = 0xB, cfg_qpiFrDmyClk = 1,
     cfg_qpiFastReadQioCmd = 0xEB, cfg_qpiFrQioDmyClk = 2, cfg_qpiPageProgramCmd = 2,
     cfg_writeVregEnableCmd = 0x50, cfg_qeIndex = 1, cfg_qeBit = 1, cfg_wrEnableWriteRegLen = 0,
     cfg_qeWriteRegLen = 2, cfg_qeReadRegLen = 1, cfg_releasePowerDown = 0xAB,
     cfg_writeRegCmd = [1, 1, 0, 0], cfg_enterQpi = 0x38, cfg_exitQpi = 0xFF, cfg_cRExit = 0xFF,
     cfg_burstWrapCmd = 0x77, cfg_burstWrapCmdDmyClk = 3, cfg_burstWrapDataMode = 2,
     cfg_burstWrapData = 0x40, cfg_deBurstWrapCmd = 0x77, cfg_deBurstWrapCmdDmyClk = 3,
     cfg_deBurstWrapDataMode = 2, cfg_deBurstWrapData = 0xF0, cfg_pdDelay = 3,
     cfg_qeData = 0\<rparr>"

definition flashCfg_Winb_16DV :: spi_cfg where
  "flashCfg_Winb_16DV = \<lparr>cfg_ioMode = 4, cfg_cReadSupport = 1, cfg_sectorSize = 4,
     cfg_pageSize = 0x100, cfg_chipEraseCmd = 0xC7, cfg_sectorEraseCmd = 0x20,
     cfg_blk32EraseCmd = 0x52, cfg_blk64EraseCmd = 0xD8, cfg_writeEnableCmd = 6,
     cfg_pageProgramCmd = 2, cfg_qpageProgramCmd = 0x32, cfg_qppAddrMode = 0,
     cfg_fastReadCmd = 0xB, cfg_frDmyClk = 1, cfg_fastReadDoCmd = 0x3B, cfg_frDoDmyClk = 1,
     cfg_fastReadDioCmd = 0xBB, cfg_frDioDmyClk = 0, cfg_fastReadQoCmd = 0x6B,
     cfg_frQoDmyClk = 1, cfg_fastReadQioCmd = 0xEB, cfg_frQioDmyClk = 2, cfg_wrEnableIndex = 0,
     cfg_busyIndex = 0, cfg_wrEnableBit = 1, cfg_busyBit = 0, cfg_wrEnableReadRegLen = 1,
     cfg_busyReadRegLen = 1, cfg_readRegCmd = [5, 0x35, 0, 0], cfg_cReadMode = 0x20,
     cfg_timeEsector = 300, cfg_timeE32k = 1200, cfg_timeE64k = 1200, cfg_timePagePgm = 5,
     cfg_timeCe = 20000, cfg_clkDelay = 1, cfg_clkInvert = 0x3D, cfg_resetEnCmd = 0x66,
     cfg_resetCmd = 0x99, cfg_resetCreadCmd = 0xFF, cfg_resetCreadCmdSize = 3,
     cfg_jedecIdCmd = 0x9F, cfg_jedecIdCmdDmyClk = 0, cfg_qpiJedecIdCmd = 0x9F,
     cfg_qpiJedecIdCmdDmyClk = 0, cfg_mid = 0xEF, cfg_qpiFastReadCmd = 0xB, cfg_qpiFrDmyClk = 1,
     cfg_qpiFastReadQioCmd = 0xEB, cfg_qpiFrQioDmyClk = 2, cfg_qpiPageProgramCmd = 2,
     cfg_writeVregEnableCmd = 0x50, cfg_qeIndex = 1, cfg_qeBit = 1, cfg_wrEnableWriteRegLen = 0,
     cfg_qeWriteRegLen = 2, cfg_qeReadRegLen = 1, cfg_releasePowerDown = 0xAB,
     cfg_writeRegCmd = [1, 1, 0, 0], cfg_enterQpi = 0x38, cfg_exitQpi = 0xFF, cfg_cRExit = 0xFF,
     cfg_burstWrapCmd = 0x77, cfg_burstWrapCmdDmyClk = 3, cfg_burstWrapDataMode = 2,
     cfg_burstWrapData = 0x40, cfg_deBurstWrapCmd = 0x77, cfg_deBurstWrapCmdDmyClk = 3,
     cfg_deBurstWrapDataMode = 2, cfg_deBurstWrapData = 0xF0, cfg_pdDelay = 3,
     cfg_qeData = 0\<rparr>"

definition flashCfg_Winb_80EW_16FW_32JW_32FW_32FV :: spi_cfg where
  "flashCfg_Winb_80EW_16FW_32JW_32FW_32FV = \<lparr>cfg_ioMode = 4, cfg_cReadSupport = 1,
     cfg_sectorSize = 4, cfg_pageSize = 0x100, cfg_chipEraseCmd = 0xC7,
     cfg_sectorEraseCmd = 0x20, cfg_blk32EraseCmd = 0x52, cfg_blk64EraseCmd = 0xD8,
     cfg_writeEnableCmd = 6, cfg_pageProgramCmd = 2, cfg_qpageProgramCmd = 0x32,
     cfg_qppAddrMode = 0, cfg_fastReadCmd = 0xB, cfg_frDmyClk = 1, cfg_fastReadDoCmd = 0x3B,
     cfg_frDoDmyClk = 1, cfg_fastReadDioCmd = 0xBB, cfg_frDioDmyClk = 0,
     cfg_fastReadQoCmd = 0x6B, cfg_frQoDmyClk = 1, cfg_fastReadQioCmd = 0xEB,
     cfg_frQioDmyClk = 2, cfg_wrEnableIndex = 0, cfg_busyIndex = 0, cfg_wrEnableBit = 1,
     cfg_busyBit = 0, cfg_wrEnableReadRegLen = 1, cfg_busyReadRegLen = 1,
     cfg_readRegCmd = [5, 0x35, 0, 0], cfg_cReadMode = 0x20, cfg_timeEsector = 400,
     cfg_timeE32k = 1600, cfg_timeE64k = 2000, cfg_timePagePgm = 5, cfg_timeCe = 20000,
     cfg_clkDelay = 1, cfg_clkInvert = 0x3F, cfg_resetEnCmd = 0x66, cfg_resetCmd = 0x99,
     cfg_resetCreadCmd = 0xFF, cfg_resetCreadCmdSize = 3, cfg_jedecIdCmd = 0x9F,
     cfg_jedecIdCmdDmyClk = 0, cfg_qpiJedecIdCmd = 0x9F, cfg_qpiJedecIdCmdDmyClk = 0,
     cfg_mid = 0xEF, cfg_qpiFastReadCmd = 0xB, cfg_qpiFrDmyClk = 1, cfg_qpiFastReadQioCmd = 0xEB,
     cfg_qpiFrQioDmyClk = 2, cfg_qpiPageProgramCmd = 2, cfg_writeVregEnableCmd = 0x50,
     cfg_qeIndex = 1, cfg_qeBit = 1, cfg_wrEnableWriteRegLen = 0, cfg_qeWriteRegLen = 1,
     cfg_qeReadRegLen = 1, cfg_releasePowerDown = 0xAB, cfg_writeRegCmd = [1, 0x31, 0, 0],
     cfg_enterQpi = 0x38, cfg_exitQpi = 0xFF, cfg_cRExit = 0xFF, cfg_burstWrapCmd = 0x77,
     cfg_burstWrapCmdDmyClk = 3, cfg_burstWrapDataMode = 2, cfg_burstWrapData = 0x40,
     cfg_deBurstWrapCmd = 0x77, cfg_deBurstWrapCmdDmyClk = 3, cfg_deBurstWrapDataMode = 2,
     cfg_deBurstWrapData = 0xF0, cfg_pdDelay = 3, cfg_qeData = 0\<rparr>"

definition flashCfg_Issi :: spi_cfg where
  "flashCfg_Issi = \<lparr>cfg_ioMode = 4, cfg_cReadSupport = 1, cfg_sectorSize = 4,
     cfg_pageSize = 0x100, cfg_chipEraseCmd = 0xC7, cfg_sectorEraseCmd = 0x20,
     cfg_blk32EraseCmd = 0x52, cfg_blk64EraseCmd = 0xD8, cfg_writeEnableCmd = 6,
     cfg_pageProgramCmd = 2, cfg_qpageProgramCmd = 0x32, cfg_qppAddrMode = 0,
     cfg_fastReadCmd = 0xB, cfg_frDmyClk = 1, cfg_fastReadDoCmd = 0x3B, cfg_frDoDmyClk = 1,
     cfg_fastReadDioCmd = 0xBB, cfg_frDioDmyClk = 0, cfg_fastReadQoCmd = 0x6B,
     cfg_frQoDmyClk = 1, cfg_fastReadQioCmd = 0xEB, cfg_frQioDmyClk = 2, cfg_wrEnableIndex = 0,
     cfg_busyIndex = 0, cfg_wrEnableBit = 1, cfg_busyBit = 0, cfg_wrEnableReadRegLen = 1,
     cfg_busyReadRegLen = 1, cfg_readRegCmd = [5, 0x35, 0, 0], cfg_cReadMode = 0xA0,
     cfg_timeEsector = 300, cfg_timeE32k = 1200, cfg_timeE64k = 1200, cfg_timePagePgm = 5,
     cfg_timeCe = 20000, cfg_clkDelay = 1, cfg_clkInvert = 0x3F, cfg_resetEnCmd = 0x66,
     cfg_resetCmd = 0x99, cfg_resetCreadCmd = 0xFF, cfg_resetCreadCmdSize = 3,
     cfg_jedecIdCmd = 0x9F, cfg_jedecIdCmdDmyClk = 0, cfg_qpiJedecIdCmd = 0x9F,
     cfg_qpiJedecIdCmdDmyClk = 0, cfg_mid = 0x9D, cfg_qpiFastReadCmd = 0xB, cfg_qpiFrDmyClk = 1,
     cfg_qpiFastReadQioCmd = 0xEB, cfg_qpiFrQioDmyClk = 2, cfg_qpiPageProgramCmd = 2,
     cfg_writeVregEnableCmd = 0x50, cfg_qeIndex = 0, cfg_qeBit = 6, cfg_wrEnableWriteRegLen = 0,
     cfg_qeWriteRegLen = 1, cfg_qeReadRegLen = 1, cfg_releasePowerDown = 0xAB,
     cfg_writeRegCmd = [1, 0x31, 0, 0], cfg_enterQpi = 0x38, cfg_exitQpi = 0xFF,
     cfg_cRExit = 0xFF, cfg_burstWrapCmd = 0xC0, cfg_burstWrapCmdDmyClk = 0,
     cfg_burstWrapDataMode = 0, cfg_burstWrapData = 6, cfg_deBurstWrapCmd = 0xC0,
     cfg_deBurstWrapCmdDmyClk = 0, cfg_deBurstWrapDataMode = 0, cfg_deBurstWrapData = 0,
     cfg_pdDelay = 5, cfg_qeData = 0\<rparr>"

definition flashCfg_Gd_Md_40D :: spi_cfg where
  "flashCfg_Gd_Md_40D = \<lparr>cfg_ioMode = 1, cfg_cReadSupport = 0, cfg_sectorSize = 4,
     cfg_pageSize = 0x100, cfg_chipEraseCmd = 0xC7, cfg_sectorEraseCmd = 0x20,
     cfg_blk32EraseCmd = 0x52, cfg_blk64EraseCmd = 0xD8, cfg_writeEnableCmd = 6,
     cfg_pageProgramCmd = 2, cfg_qpageProgramCmd = 0x32, cfg_qppAddrMode = 0,
     cfg_fastReadCmd = 0xB, cfg_frDmyClk = 1, cfg_fastReadDoCmd = 0x3B, cfg_frDoDmyClk = 1,
     cfg_fastReadDioCmd = 0xBB, cfg_frDioDmyClk = 0, cfg_fastReadQoCmd = 0x6B,
     cfg_frQoDmyClk = 1, cfg_fastReadQioCmd = 0xEB, cfg_frQioDmyClk = 2, cfg_wrEnableIndex = 0,
     cfg_busyIndex = 0, cfg_wrEnableBit = 1, cfg_busyBit = 0, cfg_wrEnableReadRegLen = 1,
     cfg_busyReadRegLen = 1, cfg_readRegCmd = [5, 0x35, 0, 0], cfg_cReadMode = 0xA0,
     cfg_timeEsector = 300, cfg_timeE32k = 1200, cfg_timeE64k = 1200, cfg_timePagePgm = 5,
     cfg_timeCe = 20000, cfg_clkDelay = 1, cfg_clkInvert = 0x3F, cfg_resetEnCmd = 0x66,
     cfg_resetCmd = 0x99, cfg_resetCreadCmd = 0xFF, cfg_resetCreadCmdSize = 3,
     cfg_jedecIdCmd = 0x9F, cfg_jedecIdCmdDmyClk = 0, cfg_qpiJedecIdCmd = 0x9F,
     cfg_qpiJedecIdCmdDmyClk = 0, cfg_mid = 0x51, cfg_qpiFastReadCmd = 0xB, cfg_qpiFrDmyClk = 1,
     cfg_qpiFastReadQioCmd = 0xEB, cfg_qpiFrQioDmyClk = 2, cfg_qpiPageProgramCmd = 2,
     cfg_writeVregEnableCmd = 0x50, cfg_qeIndex = 1, cfg_qeBit = 1, cfg_wrEnableWriteRegLen = 0,
     cfg_qeWriteRegLen = 2, cfg_qeReadRegLen = 1, cfg_releasePowerDown = 0xAB,
     cfg_writeRegCmd = [1, 1, 0, 0], cfg_enterQpi = 0x38, cfg_exitQpi = 0xFF, cfg_cRExit = 0xFF,
     cfg_burstWrapCmd = 0x77, cfg_burstWrapCmdDmyClk = 3, cfg_burstWrapDataMode = 2,
     cfg_burstWrapData = 0x40, cfg_deBurstWrapCmd = 0x77, cfg_deBurstWrapCmdDmyClk = 3,
     cfg_deBurstWrapDataMode = 2, cfg_deBurstWrapData = 0xF0, cfg_pdDelay = 0x14,
     cfg_qeData = 0\<rparr>"

definition flashCfg_Gd_LQ08C_LE16C_LQ32D_WQ32E :: spi_cfg where
  "flashCfg_Gd_LQ08C_LE16C_LQ32D_WQ32E = \<lparr>cfg_ioMode = 4, cfg_cReadSupport = 1,
     cfg_sectorSize = 4, cfg_pageSize = 0x100, cfg_chipEraseCmd = 0xC7,
     cfg_sectorEraseCmd = 0x20, cfg_blk32EraseCmd = 0x52, cfg_blk64EraseCmd = 0xD8,
     cfg_writeEnableCmd = 6, cfg_pageProgramCmd = 2, cfg_qpageProgramCmd = 0x32,
     cfg_qppAddrMode = 0, cfg_fastReadCmd = 0xB, cfg_frDmyClk = 1, cfg_fastReadDoCmd = 0x3B,
     cfg_frDoDmyClk = 1, cfg_fastReadDioCmd = 0xBB, cfg_frDioDmyClk = 0,
     cfg_fastReadQoCmd = 0x6B, cfg_frQoDmyClk = 1, cfg_fastReadQioCmd = 0xEB,
     cfg_frQioDmyClk = 2, cfg_wrEnableIndex = 0, cfg_busyIndex = 0, cfg_wrEnableBit = 1,
     cfg_busyBit = 0, cfg_wrEnableReadRegLen = 1, cfg_busyReadRegLen = 1,
     cfg_readRegCmd = [5, 0x35, 0, 0], cfg_cReadMode = 0x20, cfg_timeEsector = 300,
     cfg_timeE32k = 1200, cfg_timeE64k = 1200, cfg_timePagePgm = 5, cfg_timeCe = 20000,
     cfg_clkDelay = 1, cfg_clkInvert = 0x3F, cfg_resetEnCmd = 0x66, cfg_resetCmd = 0x99,
     cfg_resetCreadCmd = 0xFF, cfg_resetCreadCmdSize = 3, cfg_jedecIdCmd = 0x9F,
     cfg_jedecIdCmdDmyClk = 0, cfg_qpiJedecIdCmd = 0x9F, cfg_qpiJedecIdCmdDmyClk = 0,
     cfg_mid = 0xC8, cfg_qpiFastReadCmd = 0xB, cfg_qpiFrDmyClk = 1, cfg_qpiFastReadQioCmd = 0xEB,
     cfg_qpiFrQioDmyClk = 2, cfg_qpiPageProgramCmd = 2, cfg_writeVregEnableCmd = 0x50,
     cfg_qeIndex = 1, cfg_qeBit = 1, cfg_wrEnableWriteRegLen = 0, cfg_qeWriteRegLen = 2,
     cfg_qeReadRegLen = 1, cfg_releasePowerDown = 0xAB, cfg_writeRegCmd = [1, 1, 0, 0],
     cfg_enterQpi = 0x38, cfg_exitQpi = 0xFF, cfg_cRExit = 0xFF, cfg_burstWrapCmd = 0x77,
     cfg_burstWrapCmdDmyClk = 3, cfg_burstWrapDataMode = 2, cfg_burstWrapData = 0x40,
     cfg_deBurstWrapCmd = 0x77, cfg_deBurstWrapCmdDmyClk = 3, cfg_deBurstWrapDataMode = 2,
     cfg_deBurstWrapData = 0xF0, cfg_pdDelay = 0x14, cfg_qeData = 0\<rparr>"

definition flashCfg_Gd_Q80E_Q16E :: spi_cfg where
  "flashCfg_Gd_Q80E_Q16E = \<lparr>cfg_ioMode = 4, cfg_cReadSupport = 1, cfg_sectorSize = 4,
     cfg_pageSize = 0x100, cfg_chipEraseCmd = 0xC7, cfg_sectorEraseCmd = 0x20,
     cfg_blk32EraseCmd = 0x52, cfg_blk64EraseCmd = 0xD8, cfg_writeEnableCmd = 6,
     cfg_pageProgramCmd = 2, cfg_qpageProgramCmd = 0x32, cfg_qppAddrMode = 0,
     cfg_fastReadCmd = 0xB, cfg_frDmyClk = 1, cfg_fastReadDoCmd = 0x3B, cfg_frDoDmyClk = 1,
     cfg_fastReadDioCmd = 0xBB, cfg_frDioDmyClk = 0, cfg_fastReadQoCmd = 0x6B,
     cfg_frQoDmyClk = 1, cfg_fastReadQioCmd = 0xEB, cfg_frQioDmyClk = 2, cfg_wrEnableIndex = 0,
     cfg_busyIndex = 0, cfg_wrEnableBit = 1, cfg_busyBit = 0, cfg_wrEnableReadRegLen = 1,
     cfg_busyReadRegLen = 1, cfg_readRegCmd = [5, 0x35, 0, 0], cfg_cReadMode = 0xA0,
     cfg_timeEsector = 300, cfg_timeE32k = 1200, cfg_timeE64k = 1200, cfg_timePagePgm = 5,
     cfg_timeCe = 20000, cfg_clkDelay = 1, cfg_clkInvert = 0x3F, cfg_resetEnCmd = 0x66,
     cfg_resetCmd = 0x99, cfg_resetCreadCmd = 0xFF, cfg_resetCreadCmdSize = 3,
     cfg_jedecIdCmd = 0x9F, cfg_jedecIdCmdDmyClk = 0, cfg_qpiJedecIdCmd = 0x9F,
     cfg_qpiJedecIdCmdDmyClk = 0, cfg_mid = 0xC8, cfg_qpiFastReadCmd = 0xB, cfg_qpiFrDmyClk = 1,
     cfg_qpiFastReadQioCmd = 0xEB, cfg_qpiFrQioDmyClk = 2, cfg_qpiPageProgramCmd = 2,
     cfg_writeVregEnableCmd = 0x50, cfg_qeIndex = 1, cfg_qeBit = 1, cfg_wrEnableWriteRegLen = 0,
     cfg_qeWriteRegLen = 2, cfg_qeReadRegLen = 1, cfg_releasePowerDown = 0xAB,
     cfg_writeRegCmd = [1, 1, 0, 0], cfg_enterQpi = 0x38, cfg_exitQpi = 0xFF, cfg_cRExit = 0xFF,
     cfg_burstWrapCmd = 0x77, cfg_burstWrapCmdDmyClk = 3, cfg_burstWrapDataMode = 2,
     cfg_burstWrapData = 0x40, cfg_deBurstWrapCmd = 0x77, cfg_deBurstWrapCmdDmyClk = 3,
     cfg_deBurstWrapDataMode = 2, cfg_deBurstWrapData = 0xF0, cfg_pdDelay = 0x14,
     cfg_qeData = 0\<rparr>"

definition flashCfg_Gd_WQ80E_WQ16E :: spi_cfg where
  "flashCfg_Gd_WQ80E_WQ16E = \<lparr>cfg_ioMode = 4, cfg_cReadSupport = 1, cfg_sectorSize = 4,
     cfg_pageSize = 0x100, cfg_chipEraseCmd = 0xC7, cfg_sectorEraseCmd = 0x20,
     cfg_blk32EraseCmd = 0x52, cfg_blk64EraseCmd = 0xD8, cfg_writeEnableCmd = 6,
     cfg_pageProgramCmd = 2, cfg_qpageProgramCmd = 0x32, cfg_qppAddrMode = 0,
     cfg_fastReadCmd = 0xB, cfg_frDmyClk = 1, cfg_fastReadDoCmd = 0x3B, cfg_frDoDmyClk = 1,
     cfg_fastReadDioCmd = 0xBB, cfg_frDioDmyClk = 1, cfg_fastReadQoCmd = 0x6B,
     cfg_frQoDmyClk = 1, cfg_fastReadQioCmd = 0xEB, cfg_frQioDmyClk = 4, cfg_wrEnableIndex = 0,
     cfg_busyIndex = 0, cfg_wrEnableBit = 1, cfg_busyBit = 0, cfg_wrEnableReadRegLen = 1,
     cfg_busyReadRegLen = 1, cfg_readRegCmd = [5, 0x35, 0, 0], cfg_cReadMode = 0xA0,
     cfg_timeEsector = 300, cfg_timeE32k = 1200, cfg_timeE64k = 1200, cfg_timePagePgm = 5,
     cfg_timeCe = 20000, cfg_clkDelay = 1, cfg_clkInvert = 0x3F, cfg_resetEnCmd = 0x66,
     cfg_resetCmd = 0x99, cfg_resetCreadCmd = 0xFF, cfg_resetCreadCmdSize = 3,
     cfg_jedecIdCmd = 0x9F, cfg_jedecIdCmdDmyClk = 0, cfg_qpiJedecIdCmd = 0x9F,
     cfg_qpiJedecIdCmdDmyClk = 0, cfg_mid = 0xC8, cfg_qpiFastReadCmd = 0xB, cfg_qpiFrDmyClk = 1,
     cfg_qpiFastReadQioCmd = 0xEB, cfg_qpiFrQioDmyClk = 2, cfg_qpiPageProgramCmd = 2,
     cfg_writeVregEnableCmd = 0x50, cfg_qeIndex = 1, cfg_qeBit = 1, cfg_wrEnableWriteRegLen = 0,
     cfg_qeWriteRegLen = 2, cfg_qeReadRegLen = 1, cfg_releasePowerDown = 0xAB,
     cfg_writeRegCmd = [1, 1, 0, 0], cfg_enterQpi = 0x38, cfg_exitQpi = 0xFF, cfg_cRExit = 0xFF,
     cfg_burstWrapCmd = 0x77, cfg_burstWrapCmdDmyClk = 3, cfg_burstWrapDataMode = 2,
     cfg_burstWrapData = 0x40, cfg_deBurstWrapCmd = 0x77, cfg_deBurstWrapCmdDmyClk = 3,
     cfg_deBurstWrapDataMode = 2, cfg_deBurstWrapData = 0xF0, cfg_pdDelay = 0x14,
     cfg_qeData = 0x12\<rparr>"

definition flashCfg_Gd_Q32C :: spi_cfg where
  "flashCfg_Gd_Q32C = \<lparr>cfg_ioMode = 4, cfg_cReadSupport = 1, cfg_sectorSize = 4,
     cfg_pageSize = 0x100, cfg_chipEraseCmd = 0xC7, cfg_sectorEraseCmd = 0x20,
     cfg_blk32EraseCmd = 0x52, cfg_blk64EraseCmd = 0xD8, cfg_writeEnableCmd = 6,
     cfg_pageProgramCmd = 2, cfg_qpageProgramCmd = 0x32, cfg_qppAddrMode = 0,
     cfg_fastReadCmd = 0xB, cfg_frDmyClk = 1, cfg_fastReadDoCmd = 0x3B, cfg_frDoDmyClk = 1,
     cfg_fastReadDioCmd = 0xBB, cfg_frDioDmyClk = 0, cfg_fastReadQoCmd = 0x6B,
     cfg_frQoDmyClk = 1, cfg_fastReadQioCmd = 0xEB, cfg_frQioDmyClk = 2, cfg_wrEnableIndex = 0,
     cfg_busyIndex = 0, cfg_wrEnableBit = 1, cfg_busyBit = 0, cfg_wrEnableReadRegLen = 1,
     cfg_busyReadRegLen = 1, cfg_readRegCmd = [5, 0x35, 0, 0], cfg_cReadMode = 0x20,
     cfg_timeEsector = 300, cfg_timeE32k = 1200, cfg_timeE64k = 1200, cfg_timePagePgm = 5,
     cfg_timeCe = 20000, cfg_clkDelay = 1, cfg_clkInvert = 0x3F, cfg_resetEnCmd = 0x66,
     cfg_resetCmd = 0x99, cfg_resetCreadCmd = 0xFF, cfg_resetCreadCmdSize = 3,
     cfg_jedecIdCmd = 0x9F, cfg_jedecIdCmdDmyClk = 0, cfg_qpiJedecIdCmd = 0x9F,
     cfg_qpiJedecIdCmdDmyClk = 0, cfg_mid = 0xC8, cfg_qpiFastReadCmd = 0xB, cfg_qpiFrDmyClk = 1,
     cfg_qpiFastReadQioCmd = 0xEB, cfg_qpiFrQioDmyClk = 2, cfg_qpiPageProgramCmd = 2,
     cfg_writeVregEnableCmd = 0x50, cfg_qeIndex = 1, cfg_qeBit = 1, cfg_wrEnableWriteRegLen = 0,
     cfg_qeWriteRegLen = 1, cfg_qeReadRegLen = 1, cfg_releasePowerDown = 0xAB,
     cfg_writeRegCmd = [1, 0x31, 0, 0], cfg_enterQpi = 0x38, cfg_exitQpi = 0xFF,
     cfg_cRExit = 0xFF, cfg_burstWrapCmd = 0x77, cfg_burstWrapCmdDmyClk = 3,
     cfg_burstWrapDataMode = 2, cfg_burstWrapData = 0x40, cfg_deBurstWrapCmd = 0x77,
     cfg_deBurstWrapCmdDmyClk = 3, cfg_deBurstWrapDataMode = 2, cfg_deBurstWrapData = 0xF0,
     cfg_pdDelay = 0x14, cfg_qeData = 0\<rparr>"

definition flashCfg_Mxic :: spi_cfg where
  "flashCfg_Mxic = \<lparr>cfg_ioMode = 4, cfg_cReadSupport = 1, cfg_sectorSize = 4,
     cfg_pageSize = 0x100, cfg_chipEraseCmd = 0xC7, cfg_sectorEraseCmd = 0x20,
     cfg_blk32EraseCmd = 0x52, cfg_blk64EraseCmd = 0xD8, cfg_writeEnableCmd = 6,
     cfg_pageProgramCmd = 2, cfg_qpageProgramCmd = 0x38, cfg_qppAddrMode = 2,
     cfg_fastReadCmd = 0xB, cfg_frDmyClk = 1, cfg_fastReadDoCmd = 0x3B, cfg_frDoDmyClk = 1,
     cfg_fastReadDioCmd = 0xBB, cfg_frDioDmyClk = 0, cfg_fastReadQoCmd = 0x6B,
     cfg_frQoDmyClk = 1, cfg_fastReadQioCmd = 0xEB, cfg_frQioDmyClk = 2, cfg_wrEnableIndex = 0,
     cfg_busyIndex = 0, cfg_wrEnableBit = 1, cfg_busyBit = 0, cfg_wrEnableReadRegLen = 1,
     cfg_busyReadRegLen = 1, cfg_readRegCmd = [5, 0x35, 0, 0], cfg_cReadMode = 0xA5,
     cfg_timeEsector = 300, cfg_timeE32k = 1200, cfg_timeE64k = 1200, cfg_timePagePgm = 5,
     cfg_timeCe = 20000, cfg_clkDelay = 1, cfg_clkInvert = 0x3F, cfg_resetEnCmd = 0x66,
     cfg_resetCmd = 0x99, cfg_resetCreadCmd = 0xFF, cfg_resetCreadCmdSize = 3,
     cfg_jedecIdCmd = 0x9F, cfg_jedecIdCmdDmyClk = 0, cfg_qpiJedecIdCmd = 0x9F,
     cfg_qpiJedecIdCmdDmyClk = 0, cfg_mid = 0xC2, cfg_qpiFastReadCmd = 0xB, cfg_qpiFrDmyClk = 1,
     cfg_qpiFastReadQioCmd = 0xEB, cfg_qpiFrQioDmyClk = 2, cfg_qpiPageProgramCmd = 2,
     cfg_writeVregEnableCmd = 0x50, cfg_qeIndex = 0, cfg_qeBit = 6, cfg_wrEnableWriteRegLen = 0,
     cfg_qeWriteRegLen = 2, cfg_qeReadRegLen = 1, cfg_releasePowerDown = 0xAB,
     cfg_writeRegCmd = [1, 1, 0, 0], cfg_enterQpi = 0x38, cfg_exitQpi = 0xFF, cfg_cRExit = 0xFF,
     cfg_burstWrapCmd = 0xC0, cfg_burstWrapCmdDmyClk = 0, cfg_burstWrapDataMode = 0,
     cfg_burstWrapData = 2, cfg_deBurstWrapCmd = 0xC0, cfg_deBurstWrapCmdDmyClk = 0,
     cfg_deBurstWrapDataMode = 0, cfg_deBurstWrapData = 0x10, cfg_pdDelay = 0x2D,
     cfg_qeData = 0\<rparr>"

definition flashCfg_Mxic_1635F :: spi_cfg where
  "flashCfg_Mxic_1635F = \<lparr>cfg_ioMode = 4, cfg_cReadSupport = 1, cfg_sectorSize = 4,
     cfg_pageSize = 0x100, cfg_chipEraseCmd = 0xC7, cfg_sectorEraseCmd = 0x20,
     cfg_blk32EraseCmd = 0x52, cfg_blk64EraseCmd = 0xD8, cfg_writeEnableCmd = 6,
     cfg_pageProgramCmd = 2, cfg_qpageProgramCmd = 0x38, cfg_qppAddrMode = 2,
     cfg_fastReadCmd = 0xB, cfg_frDmyClk = 1, cfg_fastReadDoCmd = 0x3B, cfg_frDoDmyClk = 1,
     cfg_fastReadDioCmd = 0xBB, cfg_frDioDmyClk = 0, cfg_fastReadQoCmd = 0x6B,
     cfg_frQoDmyClk = 1, cfg_fastReadQioCmd = 0xEB, cfg_frQioDmyClk = 2, cfg_wrEnableIndex = 0,
     cfg_busyIndex = 0, cfg_wrEnableBit = 1, cfg_busyBit = 0, cfg_wrEnableReadRegLen = 1,
     cfg_busyReadRegLen = 1, cfg_readRegCmd = [5, 0x35, 0, 0], cfg_cReadMode = 0xA5,
     cfg_timeEsector = 300, cfg_timeE32k = 1200, cfg_timeE64k = 1200, cfg_timePagePgm = 5,
     cfg_timeCe = 20000, cfg_clkDelay = 1, cfg_clkInvert = 0x3F, cfg_resetEnCmd = 0x66,
     cfg_resetCmd = 0x99, cfg_resetCreadCmd = 0xFF, cfg_resetCreadCmdSize = 3,
     cfg_jedecIdCmd = 0x9F, cfg_jedecIdCmdDmyClk = 0, cfg_qpiJedecIdCmd = 0x9F,
     cfg_qpiJedecIdCmdDmyClk = 0, cfg_mid = 0xC2, cfg_qpiFastReadCmd = 0xB, cfg_qpiFrDmyClk = 1,
     cfg_qpiFastReadQioCmd = 0xEB, cfg_qpiFrQioDmyClk = 2, cfg_qpiPageProgramCmd = 2,
     cfg_writeVregEnableCmd = 0x50, cfg_qeIndex = 0, cfg_qeBit = 6, cfg_wrEnableWriteRegLen = 0,
     cfg_qeWriteRegLen = 1, cfg_qeReadRegLen = 1, cfg_releasePowerDown = 0xAB,
     cfg_writeRegCmd = [1, 1, 0, 0], cfg_enterQpi = 0x38, cfg_exitQpi = 0xFF, cfg_cRExit = 0xFF,
     cfg_burstWrapCmd = 0xC0, cfg_burstWrapCmdDmyClk = 0, cfg_burstWrapDataMode = 0,
     cfg_burstWrapData = 2, cfg_deBurstWrapCmd = 0xC0, cfg_deBurstWrapCmdDmyClk = 0,
     cfg_deBurstWrapDataMode = 0, cfg_deBurstWrapData = 0x10, cfg_pdDelay = 0x2D,
     cfg_qeData = 0\<rparr>"

definition flashCfg_Xtx40 :: spi_cfg where
  "flashCfg_Xtx40 = \<lparr>cfg_ioMode = 3, cfg_cReadSupport = 1, cfg_sectorSize = 4,
     cfg_pageSize = 0x100, cfg_chipEraseCmd = 0xC7, cfg_sectorEraseCmd = 0x20,
     cfg_blk32EraseCmd = 0x52, cfg_blk64EraseCmd = 0xD8, cfg_writeEnableCmd = 6,
     cfg_pageProgramCmd = 2, cfg_qpageProgramCmd = 0x32, cfg_qppAddrMode = 0,
     cfg_fastReadCmd = 0xB, cfg_frDmyClk = 1, cfg_fastReadDoCmd = 0x3B, cfg_frDoDmyClk = 1,
     cfg_fastReadDioCmd = 0xBB, cfg_frDioDmyClk = 0, cfg_fastReadQoCmd = 0x6B,
     cfg_frQoDmyClk = 1, cfg_fastReadQioCmd = 0xEB, cfg_frQioDmyClk = 2, cfg_wrEnableIndex = 0,
     cfg_busyIndex = 0, cfg_wrEnableBit = 1, cfg_busyBit = 0, cfg_wrEnableReadRegLen = 1,
     cfg_busyReadRegLen = 1, cfg_readRegCmd = [5, 0x35, 0, 0], cfg_cReadMode = 0x20,
     cfg_timeEsector = 6000, cfg_timeE32k = 1200, cfg_timeE64k = 1200, cfg_timePagePgm = 5,
     cfg_timeCe = 20000, cfg_clkDelay = 1, cfg_clkInvert = 0x3F, cfg_resetEnCmd = 0x66,
     cfg_resetCmd = 0x99, cfg_resetCreadCmd = 0xFF, cfg_resetCreadCmdSize = 3,
     cfg_jedecIdCmd = 0x9F, cfg_jedecIdCmdDmyClk = 0, cfg_qpiJedecIdCmd = 0x9F,
     cfg_qpiJedecIdCmdDmyClk = 0, cfg_mid = 0xB, cfg_qpiFastReadCmd = 0xB, cfg_qpiFrDmyClk = 1,
     cfg_qpiFastReadQioCmd = 0xEB, cfg_qpiFrQioDmyClk = 2, cfg_qpiPageProgramCmd = 2,
     cfg_writeVregEnableCmd = 0x50, cfg_qeIndex = 1, cfg_qeBit = 1, cfg_wrEnableWriteRegLen = 0,
     cfg_qeWriteRegLen = 2, cfg_qeReadRegLen = 1, cfg_releasePowerDown = 0xAB,
     cfg_writeRegCmd = [1, 1, 0, 0], cfg_enterQpi = 0x38, cfg_exitQpi = 0xFF, cfg_cRExit = 0xFF,
     cfg_burstWrapCmd = 0x77, cfg_burstWrapCmdDmyClk = 3, cfg_burstWrapDataMode = 2,
     cfg_burstWrapData = 0x40, cfg_deBurstWrapCmd = 0x77, cfg_deBurstWrapCmdDmyClk = 3,
     cfg_deBurstWrapDataMode = 2, cfg_deBurstWrapData = 0xF0, cfg_pdDelay = 0x14,
     cfg_qeData = 0\<rparr>"

definition flashCfg_Xtx :: spi_cfg where
  "flashCfg_Xtx = \<lparr>cfg_ioMode = 4, cfg_cReadSupport = 1, cfg_sectorSize = 4,
     cfg_pageSize = 0x100, cfg_chipEraseCmd = 0xC7, cfg_sectorEraseCmd = 0x20,
     cfg_blk32EraseCmd = 0x52, cfg_blk64EraseCmd = 0xD8, cfg_writeEnableCmd = 6,
     cfg_pageProgramCmd = 2, cfg_qpageProgramCmd = 0x32, cfg_qppAddrMode = 0,
     cfg_fastReadCmd = 0xB, cfg_frDmyClk = 1, cfg_fastReadDoCmd = 0x3B, cfg_frDoDmyClk = 1,
     cfg_fastReadDioCmd = 0xBB, cfg_frDioDmyClk = 0, cfg_fastReadQoCmd = 0x6B,
     cfg_frQoDmyClk = 1, cfg_fastReadQioCmd = 0xEB, cfg_frQioDmyClk = 2, cfg_wrEnableIndex = 0,
     cfg_busyIndex = 0, cfg_wrEnableBit = 1, cfg_busyBit = 0, cfg_wrEnableReadRegLen = 1,
     cfg_busyReadRegLen = 1, cfg_readRegCmd = [5, 0x35, 0, 0], cfg_cReadMode = 0x20,
     cfg_timeEsector = 6000, cfg_timeE32k = 1200, cfg_timeE64k = 1200, cfg_timePagePgm = 5,
     cfg_timeCe = 20000, cfg_clkDelay = 1, cfg_clkInvert = 0x3F, cfg_resetEnCmd = 0x66,
     cfg_resetCmd = 0x99, cfg_resetCreadCmd = 0xFF, cfg_resetCreadCmdSize = 3,
     cfg_jedecIdCmd = 0x9F, cfg_jedecIdCmdDmyClk = 0, cfg_qpiJedecIdCmd = 0x9F,
     cfg_qpiJedecIdCmdDmyClk = 0, cfg_mid = 0xB, cfg_qpiFastReadCmd = 0xB, cfg_qpiFrDmyClk = 1,
     cfg_qpiFastReadQioCmd = 0xEB, cfg_qpiFrQioDmyClk = 2, cfg_qpiPageProgramCmd = 2,
     cfg_writeVregEnableCmd = 0x50, cfg_qeIndex = 1, cfg_qeBit = 1, cfg_wrEnableWriteRegLen = 0,
     cfg_qeWriteRegLen = 2, cfg_qeReadRegLen = 1, cfg_releasePowerDown = 0xAB,
     cfg_writeRegCmd = [1, 1, 0, 0], cfg_enterQpi = 0x38, cfg_exitQpi = 0xFF, cfg_cRExit = 0xFF,
     cfg_burstWrapCmd = 0x77, cfg_burstWrapCmdDmyClk = 3, cfg_burstWrapDataMode = 2,
     cfg_burstWrapData = 0x40, cfg_deBurstWrapCmd = 0x77, cfg_deBurstWrapCmdDmyClk = 3,
     cfg_deBurstWrapDataMode = 2, cfg_deBurstWrapData = 0xF0, cfg_pdDelay = 0x14,
     cfg_qeData = 0\<rparr>"

definition flashCfg_Puya_Q80L_Q80H_Q16H :: spi_cfg where
  "flashCfg_Puya_Q80L_Q80H_Q16H = \<lparr>cfg_ioMode = 4, cfg_cReadSupport = 1,
     cfg_sectorSize = 4, cfg_pageSize = 0x100, cfg_chipEraseCmd = 0xC7,
     cfg_sectorEraseCmd = 0x20, cfg_blk32EraseCmd = 0x52, cfg_blk64EraseCmd = 0xD8,
     cfg_writeEnableCmd = 6, cfg_pageProgramCmd = 2, cfg_qpageProgramCmd = 0x32,
     cfg_qppAddrMode = 0, cfg_fastReadCmd = 0xB, cfg_frDmyClk = 1, cfg_fastReadDoCmd = 0x3B,
     cfg_frDoDmyClk = 1, cfg_fastReadDioCmd = 0xBB, cfg_frDioDmyClk = 0,
     cfg_fastReadQoCmd = 0x6B, cfg_frQoDmyClk = 1, cfg_fastReadQioCmd = 0xEB,
     cfg_frQioDmyClk = 2, cfg_wrEnableIndex = 0, cfg_busyIndex = 0, cfg_wrEnableBit = 1,
     cfg_busyBit = 0, cfg_wrEnableReadRegLen = 1, cfg_busyReadRegLen = 1,
     cfg_readRegCmd = [5, 0x35, 0, 0], cfg_cReadMode = 0x20, cfg_timeEsector = 300,
     cfg_timeE32k = 1200, cfg_timeE64k = 1200, cfg_timePagePgm = 5, cfg_timeCe = 20000,
     cfg_clkDelay = 1, cfg_clkInvert = 0x3D, cfg_resetEnCmd = 0x66, cfg_resetCmd = 0x99,
     cfg_resetCreadCmd = 0xFF, cfg_resetCreadCmdSize = 3, cfg_jedecIdCmd = 0x9F,
     cfg_jedecIdCmdDmyClk = 0, cfg_qpiJedecIdCmd = 0x9F, cfg_qpiJedecIdCmdDmyClk = 0,
     cfg_mid = 0x85, cfg_qpiFastReadCmd = 0xB, cfg_qpiFrDmyClk = 1, cfg_qpiFastReadQioCmd = 0xEB,
     cfg_qpiFrQioDmyClk = 2, cfg_qpiPageProgramCmd = 2, cfg_writeVregEnableCmd = 0x50,
     cfg_qeIndex = 1, cfg_qeBit = 1, cfg_wrEnableWriteRegLen = 0, cfg_qeWriteRegLen = 2,
     cfg_qeReadRegLen = 1, cfg_releasePowerDown = 0xAB, cfg_writeRegCmd = [1, 1, 0, 0],
     cfg_enterQpi = 0x38, cfg_exitQpi = 0xFF, cfg_cRExit = 0xFF, cfg_burstWrapCmd = 0x77,
     cfg_burstWrapCmdDmyClk = 3, cfg_burstWrapDataMode = 2, cfg_burstWrapData = 0x40,
     cfg_deBurstWrapCmd = 0x77, cfg_deBurstWrapCmdDmyClk = 3, cfg_deBurstWrapDataMode = 2,
     cfg_deBurstWrapData = 0xF0, cfg_pdDelay = 8, cfg_qeData = 0\<rparr>"

definition flashCfg_Puya_Q32H :: spi_cfg where
  "flashCfg_Puya_Q32H = \<lparr>cfg_ioMode = 4, cfg_cReadSupport = 1, cfg_sectorSize = 4,
     cfg_pageSize = 0x100, cfg_chipEraseCmd = 0xC7, cfg_sectorEraseCmd = 0x20,
     cfg_blk32EraseCmd = 0x52, cfg_blk64EraseCmd = 0xD8, cfg_writeEnableCmd = 6,
     cfg_pageProgramCmd = 2, cfg_qpageProgramCmd = 0x32, cfg_qppAddrMode = 0,
     cfg_fastReadCmd = 0xB, cfg_frDmyClk = 1, cfg_fastReadDoCmd = 0x3B, cfg_frDoDmyClk = 1,
     cfg_fastReadDioCmd = 0xBB, cfg_frDioDmyClk = 0, cfg_fastReadQoCmd = 0x6B,
     cfg_frQoDmyClk = 1, cfg_fastReadQioCmd = 0xEB, cfg_frQioDmyClk = 2, cfg_wrEnableIndex = 0,
     cfg_busyIndex = 0, cfg_wrEnableBit = 1, cfg_busyBit = 0, cfg_wrEnableReadRegLen = 1,
     cfg_busyReadRegLen = 1, cfg_readRegCmd = [5, 0x35, 0, 0], cfg_cReadMode = 0x20,
     cfg_timeEsector = 300, cfg_timeE32k = 1200, cfg_timeE64k = 1200, cfg_timePagePgm = 5,
     cfg_timeCe = 20000, cfg_clkDelay = 1, cfg_clkInvert = 0x3F, cfg_resetEnCmd = 0x66,
     cfg_resetCmd = 0x99, cfg_resetCreadCmd = 0xFF, cfg_resetCreadCmdSize = 3,
     cfg_jedecIdCmd = 0x9F, cfg_jedecIdCmdDmyClk = 0, cfg_qpiJedecIdCmd = 0x9F,
     cfg_qpiJedecIdCmdDmyClk = 0, cfg_mid = 0x85, cfg_qpiFastReadCmd = 0xB, cfg_qpiFrDmyClk = 1,
     cfg_qpiFastReadQioCmd = 0xEB, cfg_qpiFrQioDmyClk = 2, cfg_qpiPageProgramCmd = 2,
     cfg_writeVregEnableCmd = 0x50, cfg_qeIndex = 1, cfg_qeBit = 1, cfg_wrEnableWriteRegLen = 0,
     cfg_qeWriteRegLen = 1, cfg_qeReadRegLen = 1, cfg_releasePowerDown = 0xAB,
     cfg_writeRegCmd = [1, 0x31, 0, 0], cfg_enterQpi = 0x38, cfg_exitQpi = 0xFF,
     cfg_cRExit = 0xFF, cfg_burstWrapCmd = 0x77, cfg_burstWrapCmdDmyClk = 3,
     cfg_burstWrapDataMode = 2, cfg_burstWrapData = 0x40, cfg_deBurstWrapCmd = 0x77,
     cfg_deBurstWrapCmdDmyClk = 3, cfg_deBurstWrapDataMode = 2, cfg_deBurstWrapData = 0xF0,
     cfg_pdDelay = 8, cfg_qeData = 0\<rparr>"

definition flashCfg_Boya40 :: spi_cfg where
  "flashCfg_Boya40 = \<lparr>cfg_ioMode = 1, cfg_cReadSupport = 0, cfg_sectorSize = 4,
     cfg_pageSize = 0x100, cfg_chipEraseCmd = 0xC7, cfg_sectorEraseCmd = 0x20,
     cfg_blk32EraseCmd = 0x52, cfg_blk64EraseCmd = 0xD8, cfg_writeEnableCmd = 6,
     cfg_pageProgramCmd = 2, cfg_qpageProgramCmd = 0x32, cfg_qppAddrMode = 0,
     cfg_fastReadCmd = 0xB, cfg_frDmyClk = 1, cfg_fastReadDoCmd = 0x3B, cfg_frDoDmyClk = 1,
     cfg_fastReadDioCmd = 0xBB, cfg_frDioDmyClk = 0, cfg_fastReadQoCmd = 0x6B,
     cfg_frQoDmyClk = 1, cfg_fastReadQioCmd = 0xEB, cfg_frQioDmyClk = 2, cfg_wrEnableIndex = 0,
     cfg_busyIndex = 0, cfg_wrEnableBit = 1, cfg_busyBit = 0, cfg_wrEnableReadRegLen = 1,
     cfg_busyReadRegLen = 1, cfg_readRegCmd = [5, 0x35, 0, 0], cfg_cReadMode = 0xA0,
     cfg_timeEsector = 300, cfg_timeE32k = 1200, cfg_timeE64k = 1200, cfg_timePagePgm = 5,
     cfg_timeCe = 20000, cfg_clkDelay = 1, cfg_clkInvert = 0x3F, cfg_resetEnCmd = 0x66,
     cfg_resetCmd = 0x99, cfg_resetCreadCmd = 0xFF, cfg_resetCreadCmdSize = 3,
     cfg_jedecIdCmd = 0x9F, cfg_jedecIdCmdDmyClk = 0, cfg_qpiJedecIdCmd = 0x9F,
     cfg_qpiJedecIdCmdDmyClk = 0, cfg_mid = 0x68, cfg_qpiFastReadCmd = 0xB, cfg_qpiFrDmyClk = 1,
     cfg_qpiFastReadQioCmd = 0xEB, cfg_qpiFrQioDmyClk = 2, cfg_qpiPageProgramCmd = 2,
     cfg_writeVregEnableCmd = 0x50, cfg_qeIndex = 1, cfg_qeBit = 1, cfg_wrEnableWriteRegLen = 0,
     cfg_qeWriteRegLen = 2, cfg_qeReadRegLen = 1, cfg_releasePowerDown = 0xAB,
     cfg_writeRegCmd = [1, 1, 0, 0], cfg_enterQpi = 0x38, cfg_exitQpi = 0xFF, cfg_cRExit = 0xFF,
     cfg_burstWrapCmd = 0x77, cfg_burstWrapCmdDmyClk = 3, cfg_burstWrapDataMode = 2,
     cfg_burstWrapData = 0x40, cfg_deBurstWrapCmd = 0x77, cfg_deBurstWrapCmdDmyClk = 3,
     cfg_deBurstWrapDataMode = 2, cfg_deBurstWrapData = 0xF0, cfg_pdDelay = 0x14,
     cfg_qeData = 0\<rparr>"

definition flashCfg_Boya :: spi_cfg where
  "flashCfg_Boya = \<lparr>cfg_ioMode = 4, cfg_cReadSupport = 1, cfg_sectorSize = 4,
     cfg_pageSize = 0x100, cfg_chipEraseCmd = 0xC7, cfg_sectorEraseCmd = 0x20,
     cfg_blk32EraseCmd = 0x52, cfg_blk64EraseCmd = 0xD8, cfg_writeEnableCmd = 6,
     cfg_pageProgramCmd = 2, cfg_qpageProgramCmd = 0x32, cfg_qppAddrMode = 0,
     cfg_fastReadCmd = 0xB, cfg_frDmyClk = 1, cfg_fastReadDoCmd = 0x3B, cfg_frDoDmyClk = 1,
     cfg_fastReadDioCmd = 0xBB, cfg_frDioDmyClk = 0, cfg_fastReadQoCmd = 0x6B,
     cfg_frQoDmyClk = 1, cfg_fastReadQioCmd = 0xEB, cfg_frQioDmyClk = 2, cfg_wrEnableIndex = 0,
     cfg_busyIndex = 0, cfg_wrEnableBit = 1, cfg_busyBit = 0, cfg_wrEnableReadRegLen = 1,
     cfg_busyReadRegLen = 1, cfg_readRegCmd = [5, 0x35, 0, 0], cfg_cReadMode = 0x20,
     cfg_timeEsector = 300, cfg_timeE32k = 1200, cfg_timeE64k = 1200, cfg_timePagePgm = 5,
     cfg_timeCe = 20000, cfg_clkDelay = 1, cfg_clkInvert = 0x3F, cfg_resetEnCmd = 0x66,
     cfg_resetCmd = 0x99, cfg_resetCreadCmd = 0xFF, cfg_resetCreadCmdSize = 3,
     cfg_jedecIdCmd = 0x9F, cfg_jedecIdCmdDmyClk = 0, cfg_qpiJedecIdCmd = 0x9F,
     cfg_qpiJedecIdCmdDmyClk = 0, cfg_mid = 0x68, cfg_qpiFastReadCmd = 0xB, cfg_qpiFrDmyClk = 1,
     cfg_qpiFastReadQioCmd = 0xEB, cfg_qpiFrQioDmyClk = 2, cfg_qpiPageProgramCmd = 2,
     cfg_writeVregEnableCmd = 0x50, cfg_qeIndex = 1, cfg_qeBit = 1, cfg_wrEnableWriteRegLen = 0,
     cfg_qeWriteRegLen = 1, cfg_qeReadRegLen = 1, cfg_releasePowerDown = 0xAB,
     cfg_writeRegCmd = [1, 0x31, 0, 0], cfg_enterQpi = 0x38, cfg_exitQpi = 0xFF,
     cfg_cRExit = 0xFF, cfg_burstWrapCmd = 0x77, cfg_burstWrapCmdDmyClk = 3,
     cfg_burstWrapDataMode = 2, cfg_burstWrapData = 0x40, cfg_deBurstWrapCmd = 0x77,
     cfg_deBurstWrapCmdDmyClk = 3, cfg_deBurstWrapDataMode = 2, cfg_deBurstWrapData = 0xF0,
     cfg_pdDelay = 0x14, cfg_qeData = 0\<rparr>"

definition flashCfg_FT_VQ80 :: spi_cfg where
  "flashCfg_FT_VQ80 = \<lparr>cfg_ioMode = 4, cfg_cReadSupport = 1, cfg_sectorSize = 4,
     cfg_pageSize = 0x100, cfg_chipEraseCmd = 0xC7, cfg_sectorEraseCmd = 0x20,
     cfg_blk32EraseCmd = 0x52, cfg_blk64EraseCmd = 0xD8, cfg_writeEnableCmd = 6,
     cfg_pageProgramCmd = 2, cfg_qpageProgramCmd = 0x32, cfg_qppAddrMode = 0,
     cfg_fastReadCmd = 0xB, cfg_frDmyClk = 1, cfg_fastReadDoCmd = 0x3B, cfg_frDoDmyClk = 1,
     cfg_fastReadDioCmd = 0xBB, cfg_frDioDmyClk = 0, cfg_fastReadQoCmd = 0x6B,
     cfg_frQoDmyClk = 1, cfg_fastReadQioCmd = 0xEB, cfg_frQioDmyClk = 2, cfg_wrEnableIndex = 0,
     cfg_busyIndex = 0, cfg_wrEnableBit = 1, cfg_busyBit = 0, cfg_wrEnableReadRegLen = 1,
     cfg_busyReadRegLen = 1, cfg_readRegCmd = [5, 0x35, 0, 0], cfg_cReadMode = 0x20,
     cfg_timeEsector = 300, cfg_timeE32k = 1200, cfg_timeE64k = 1200, cfg_timePagePgm = 5,
     cfg_timeCe = 20000, cfg_clkDelay = 1, cfg_clkInvert = 0x3F, cfg_resetEnCmd = 0x66,
     cfg_resetCmd = 0x99, cfg_resetCreadCmd = 0xFF, cfg_resetCreadCmdSize = 3,
     cfg_jedecIdCmd = 0x9F, cfg_jedecIdCmdDmyClk = 0, cfg_qpiJedecIdCmd = 0x9F,
     cfg_qpiJedecIdCmdDmyClk = 0, cfg_mid = 0xEF, cfg_qpiFastReadCmd = 0xB, cfg_qpiFrDmyClk = 1,
     cfg_qpiFastReadQioCmd = 0xEB, cfg_qpiFrQioDmyClk = 2, cfg_qpiPageProgramCmd = 2,
     cfg_writeVregEnableCmd = 0x50, cfg_qeIndex = 1, cfg_qeBit = 1, cfg_wrEnableWriteRegLen = 0,
     cfg_qeWriteRegLen = 1, cfg_qeReadRegLen = 1, cfg_releasePowerDown = 0xAB,
     cfg_writeRegCmd = [1, 0x31, 0, 0], cfg_enterQpi = 0x38, cfg_exitQpi = 0xFF,
     cfg_cRExit = 0xFF, cfg_burstWrapCmd = 0x77, cfg_burstWrapCmdDmyClk = 3,
     cfg_burstWrapDataMode = 2, cfg_burstWrapData = 0x40, cfg_deBurstWrapCmd = 0x77,
     cfg_deBurstWrapCmdDmyClk = 3, cfg_deBurstWrapDataMode = 2, cfg_deBurstWrapData = 0xF0,
     cfg_pdDelay = 8, cfg_qeData = 0\<rparr>"

definition flashInfos :: "(u32 \<times> spi_cfg) list" where
  "flashInfos =
     [(0x1440EF, flashCfg_Winb_80DV), (0x1540EF, flashCfg_Winb_16DV),
      (0x1640EF, flashCfg_Winb_80EW_16FW_32JW_32FW_32FV),
      (0x1460EF, flashCfg_Winb_80EW_16FW_32JW_32FW_32FV),
      (0x1560EF, flashCfg_Winb_80EW_16FW_32JW_32FW_32FV),
      (0x1660EF, flashCfg_Winb_80EW_16FW_32JW_32FW_32FV),
      (0x1860EF, flashCfg_Winb_80EW_16FW_32JW_32FW_32FV),
      (0x1680EF, flashCfg_Winb_80EW_16FW_32JW_32FW_32FV),
      (0x13605E, flashCfg_Winb_80EW_16FW_32JW_32FW_32FV),
      (0x14605E, flashCfg_Winb_80EW_16FW_32JW_32FW_32FV), (0x14609D, flashCfg_Issi),
      (0x15609D, flashCfg_Issi), (0x16609D, flashCfg_Issi), (0x14709D, flashCfg_Issi),
      (0x15709D, flashCfg_Issi), (0x16709D, flashCfg_Issi), (0x134051, flashCfg_Gd_Md_40D),
      (0x1440C8, flashCfg_Gd_Q80E_Q16E), (0x1540C8, flashCfg_Gd_Q80E_Q16E),
      (0x1640C8, flashCfg_Gd_Q32C), (0x1460C8, flashCfg_Gd_LQ08C_LE16C_LQ32D_WQ32E),
      (0x1560C8, flashCfg_Gd_LQ08C_LE16C_LQ32D_WQ32E),
      (0x1660C8, flashCfg_Gd_LQ08C_LE16C_LQ32D_WQ32E), (0x1465C8, flashCfg_Gd_WQ80E_WQ16E),
      (0x1565C8, flashCfg_Gd_WQ80E_WQ16E), (0x1665C8, flashCfg_Gd_LQ08C_LE16C_LQ32D_WQ32E),
      (0x3425C2, flashCfg_Mxic), (0x3525C2, flashCfg_Mxic_1635F), (0x3625C2, flashCfg_Mxic),
      (0x13400B, flashCfg_Xtx40), (0x15400B, flashCfg_Xtx), (0x16400B, flashCfg_Xtx),
      (0x14600B, flashCfg_Xtx), (0x16600B, flashCfg_Xtx),
      (0x146085, flashCfg_Puya_Q80L_Q80H_Q16H), (0x156085, flashCfg_Puya_Q80L_Q80H_Q16H),
      (0x166085, flashCfg_Puya_Q32H), (0x134068, flashCfg_Boya40), (0x144068, flashCfg_Boya),
      (0x154068, flashCfg_Boya), (0x164068, flashCfg_Boya), (0x174068, flashCfg_Boya),
      (0x184068, flashCfg_Boya), (0x14605E, flashCfg_FT_VQ80)]"

subsection \<open>\<open>bl702_sf_cfg_ext.c\<close>\<close>

definition flashCfg_Gd_Md_40D_ext :: spi_cfg where
  "flashCfg_Gd_Md_40D_ext = \<lparr>cfg_ioMode = 0x11, cfg_cReadSupport = 0, cfg_sectorSize = 4,
     cfg_pageSize = 0x100, cfg_chipEraseCmd = 0xC7, cfg_sectorEraseCmd = 0x20,
     cfg_blk32EraseCmd = 0x52, cfg_blk64EraseCmd = 0xD8, cfg_writeEnableCmd = 6,
     cfg_pageProgramCmd = 2, cfg_qpageProgramCmd = 0x32, cfg_qppAddrMode = 0,
     cfg_fastReadCmd = 0xB, cfg_frDmyClk = 1, cfg_fastReadDoCmd = 0x3B, cfg_frDoDmyClk = 1,
     cfg_fastReadDioCmd = 0xBB, cfg_frDioDmyClk = 0, cfg_fastReadQoCmd = 0x6B,
     cfg_frQoDmyClk = 1, cfg_fastReadQioCmd = 0xEB, cfg_frQioDmyClk = 2, cfg_wrEnableIndex = 0,
     cfg_busyIndex = 0, cfg_wrEnableBit = 1, cfg_busyBit = 0, cfg_wrEnableReadRegLen = 1,
     cfg_busyReadRegLen = 1, cfg_readRegCmd = [5, 0x35, 0, 0], cfg_cReadMode = 0xA0,
     cfg_timeEsector = 300, cfg_timeE32k = 1200, cfg_timeE64k = 1200, cfg_timePagePgm = 5,
     cfg_timeCe = 20000, cfg_clkDelay = 1, cfg_clkInvert = 0x3F, cfg_resetEnCmd = 0x66,
     cfg_resetCmd = 0x99, cfg_resetCreadCmd = 0xFF, cfg_resetCreadCmdSize = 3,
     cfg_jedecIdCmd = 0x9F, cfg_jedecIdCmdDmyClk = 0, cfg_qpiJedecIdCmd = 0x9F,
     cfg_qpiJedecIdCmdDmyClk = 0, cfg_mid = 0x51, cfg_qpiFastReadCmd = 0xB, cfg_qpiFrDmyClk = 1,
     cfg_qpiFastReadQioCmd = 0xEB, cfg_qpiFrQioDmyClk = 2, cfg_qpiPageProgramCmd = 2,
     cfg_writeVregEnableCmd = 0x50, cfg_qeIndex = 1, cfg_qeBit = 1, cfg_wrEnableWriteRegLen = 0,
     cfg_qeWriteRegLen = 2, cfg_qeReadRegLen = 1, cfg_releasePowerDown = 0xAB,
     cfg_writeRegCmd = [1, 1, 0, 0], cfg_enterQpi = 0x38, cfg_exitQpi = 0xFF, cfg_cRExit = 0xFF,
     cfg_burstWrapCmd = 0x77, cfg_burstWrapCmdDmyClk = 3, cfg_burstWrapDataMode = 2,
     cfg_burstWrapData = 0x40, cfg_deBurstWrapCmd = 0x77, cfg_deBurstWrapCmdDmyClk = 3,
     cfg_deBurstWrapDataMode = 2, cfg_deBurstWrapData = 0xF0, cfg_pdDelay = 0x14,
     cfg_qeData = 0\<rparr>"

definition flashCfg_MX_KH25 :: spi_cfg where
  "flashCfg_MX_KH25 = \<lparr>cfg_ioMode = 0x11, cfg_cReadSupport = 0, cfg_sectorSize = 4,
     cfg_pageSize = 0x100, cfg_chipEraseCmd = 0xC7, cfg_sectorEraseCmd = 0x20,
     cfg_blk32EraseCmd = 0x52, cfg_blk64EraseCmd = 0xD8, cfg_writeEnableCmd = 6,
     cfg_pageProgramCmd = 2, cfg_qpageProgramCmd = 0x32, cfg_qppAddrMode = 0,
     cfg_fastReadCmd = 0xB, cfg_frDmyClk = 1, cfg_fastReadDoCmd = 0x3B, cfg_frDoDmyClk = 1,
     cfg_fastReadDioCmd = 0xBB, cfg_frDioDmyClk = 0, cfg_fastReadQoCmd = 0x6B,
     cfg_frQoDmyClk = 1, cfg_fastReadQioCmd = 0xEB, cfg_frQioDmyClk = 2, cfg_wrEnableIndex = 0,
     cfg_busyIndex = 0, cfg_wrEnableBit = 1, cfg_busyBit = 0, cfg_wrEnableReadRegLen = 1,
     cfg_busyReadRegLen = 1, cfg_readRegCmd = [5, 0, 0, 0], cfg_cReadMode = 0x20,
     cfg_timeEsector = 300, cfg_timeE32k = 1200, cfg_timeE64k = 1200, cfg_timePagePgm = 5,
     cfg_timeCe = 33000, cfg_clkDelay = 1, cfg_clkInvert = 1, cfg_resetEnCmd = 0x66,
     cfg_resetCmd = 0x99, cfg_resetCreadCmd = 0xFF, cfg_resetCreadCmdSize = 3,
     cfg_jedecIdCmd = 0x9F, cfg_jedecIdCmdDmyClk = 0, cfg_qpiJedecIdCmd = 0x9F,
     cfg_qpiJedecIdCmdDmyClk = 0, cfg_mid = 0xC2, cfg_qpiFastReadCmd = 0xB, cfg_qpiFrDmyClk = 1,
     cfg_qpiFastReadQioCmd = 0xEB, cfg_qpiFrQioDmyClk = 2, cfg_qpiPageProgramCmd = 2,
     cfg_writeVregEnableCmd = 0x50, cfg_qeIndex = 1, cfg_qeBit = 1, cfg_wrEnableWriteRegLen = 0,
     cfg_qeWriteRegLen = 1, cfg_qeReadRegLen = 1, cfg_releasePowerDown = 0xAB,
     cfg_writeRegCmd = [1, 0, 0, 0], cfg_enterQpi = 0x38, cfg_exitQpi = 0xFF, cfg_cRExit = 0xFF,
     cfg_burstWrapCmd = 0x77, cfg_burstWrapCmdDmyClk = 3, cfg_burstWrapDataMode = 2,
     cfg_burstWrapData = 0x40, cfg_deBurstWrapCmd = 0x77, cfg_deBurstWrapCmdDmyClk = 3,
     cfg_deBurstWrapDataMode = 2, cfg_deBurstWrapData = 0xF0, cfg_pdDelay = 0x14,
     cfg_qeData = 0\<rparr>"

definition flashCfg_FM_Q80 :: spi_cfg where
  "flashCfg_FM_Q80 = \<lparr>cfg_ioMode = 4, cfg_cReadSupport = 1, cfg_sectorSize = 4,
     cfg_pageSize = 0x100, cfg_chipEraseCmd = 0xC7, cfg_sectorEraseCmd = 0x20,
     cfg_blk32EraseCmd = 0x52, cfg_blk64EraseCmd = 0xD8, cfg_writeEnableCmd = 6,
     cfg_pageProgramCmd = 2, cfg_qpageProgramCmd = 0x32, cfg_qppAddrMode = 0,
     cfg_fastReadCmd = 0xB, cfg_frDmyClk = 1, cfg_fastReadDoCmd = 0x3B, cfg_frDoDmyClk = 1,
     cfg_fastReadDioCmd = 0xBB, cfg_frDioDmyClk = 0, cfg_fastReadQoCmd = 0x6B,
     cfg_frQoDmyClk = 1, cfg_fastReadQioCmd = 0xEB, cfg_frQioDmyClk = 2, cfg_wrEnableIndex = 0,
     cfg_busyIndex = 0, cfg_wrEnableBit = 1, cfg_busyBit = 0, cfg_wrEnableReadRegLen = 1,
     cfg_busyReadRegLen = 1, cfg_readRegCmd = [5, 0x35, 0, 0], cfg_cReadMode = 0xA0,
     cfg_timeEsector = 300, cfg_timeE32k = 1200, cfg_timeE64k = 1200, cfg_timePagePgm = 5,
     cfg_timeCe = 33000, cfg_clkDelay = 1, cfg_clkInvert = 1, cfg_resetEnCmd = 0x66,
     cfg_resetCmd = 0x99, cfg_resetCreadCmd = 0xFF, cfg_resetCreadCmdSize = 3,
     cfg_jedecIdCmd = 0x9F, cfg_jedecIdCmdDmyClk = 0, cfg_qpiJedecIdCmd = 0x9F,
     cfg_qpiJedecIdCmdDmyClk = 0, cfg_mid = 0xC8, cfg_qpiFastReadCmd = 0xB, cfg_qpiFrDmyClk = 1,
     cfg_qpiFastReadQioCmd = 0xEB, cfg_qpiFrQioDmyClk = 2, cfg_qpiPageProgramCmd = 2,
     cfg_writeVregEnableCmd = 0x50, cfg_qeIndex = 1, cfg_qeBit = 1, cfg_wrEnableWriteRegLen = 0,
     cfg_qeWriteRegLen = 2, cfg_qeReadRegLen = 1, cfg_releasePowerDown = 0xAB,
     cfg_writeRegCmd = [1, 1, 0, 0], cfg_enterQpi = 0x38, cfg_exitQpi = 0xFF, cfg_cRExit = 0xFF,
     cfg_burstWrapCmd = 0x77, cfg_burstWrapCmdDmyClk = 3, cfg_burstWrapDataMode = 2,
     cfg_burstWrapData = 0x40, cfg_deBurstWrapCmd = 0x77, cfg_deBurstWrapCmdDmyClk = 3,
     cfg_deBurstWrapDataMode = 2, cfg_deBurstWrapData = 0xF0, cfg_pdDelay = 0x14,
     cfg_qeData = 0\<rparr>"

definition flashCfg_Winb_16JV :: spi_cfg where
  "flashCfg_Winb_16JV = \<lparr>cfg_ioMode = 4, cfg_cReadSupport = 1, cfg_sectorSize = 4,
     cfg_pageSize = 0x100, cfg_chipEraseCmd = 0xC7, cfg_sectorEraseCmd = 0x20,
     cfg_blk32EraseCmd = 0x52, cfg_blk64EraseCmd = 0xD8, cfg_writeEnableCmd = 6,
     cfg_pageProgramCmd = 2, cfg_qpageProgramCmd = 0x32, cfg_qppAddrMode = 0,
     cfg_fastReadCmd = 0xB, cfg_frDmyClk = 1, cfg_fastReadDoCmd = 0x3B, cfg_frDoDmyClk = 1,
     cfg_fastReadDioCmd = 0xBB, cfg_frDioDmyClk = 0, cfg_fastReadQoCmd = 0x6B,
     cfg_frQoDmyClk = 1, cfg_fastReadQioCmd = 0xEB, cfg_frQioDmyClk = 2, cfg_wrEnableIndex = 0,
     cfg_busyIndex = 0, cfg_wrEnableBit = 1, cfg_busyBit = 0, cfg_wrEnableReadRegLen = 1,
     cfg_busyReadRegLen = 1, cfg_readRegCmd = [5, 0x35, 0, 0], cfg_cReadMode = 0x20,
     cfg_timeEsector = 400, cfg_timeE32k = 1600, cfg_timeE64k = 2000, cfg_timePagePgm = 5,
     cfg_timeCe = 33000, cfg_clkDelay = 1, cfg_clkInvert = 1, cfg_resetEnCmd = 0x66,
     cfg_resetCmd = 0x99, cfg_resetCreadCmd = 0xFF, cfg_resetCreadCmdSize = 3,
     cfg_jedecIdCmd = 0x9F, cfg_jedecIdCmdDmyClk = 0, cfg_qpiJedecIdCmd = 0x9F,
     cfg_qpiJedecIdCmdDmyClk = 0, cfg_mid = 0xEF, cfg_qpiFastReadCmd = 0xB, cfg_qpiFrDmyClk = 1,
     cfg_qpiFastReadQioCmd = 0xEB, cfg_qpiFrQioDmyClk = 2, cfg_qpiPageProgramCmd = 2,
     cfg_writeVregEnableCmd = 0x50, cfg_qeIndex = 1, cfg_qeBit = 1, cfg_wrEnableWriteRegLen = 0,
     cfg_qeWriteRegLen = 1, cfg_qeReadRegLen = 1, cfg_releasePowerDown = 0xAB,
     cfg_writeRegCmd = [1, 0x31, 0, 0], cfg_enterQpi = 0x38, cfg_exitQpi = 0xFF,
     cfg_cRExit = 0xFF, cfg_burstWrapCmd = 0x77, cfg_burstWrapCmdDmyClk = 3,
     cfg_burstWrapDataMode = 2, cfg_burstWrapData = 0x40, cfg_deBurstWrapCmd = 0x77,
     cfg_deBurstWrapCmdDmyClk = 3, cfg_deBurstWrapDataMode = 2, cfg_deBurstWrapData = 0xF0,
     cfg_pdDelay = 3, cfg_qeData = 0\<rparr>"

definition flashInfos_ext :: "(u32 \<times> spi_cfg) list" where
  "flashInfos_ext =
     [(0x134051, flashCfg_Gd_Md_40D_ext), (0x1320C2, flashCfg_MX_KH25),
      (0x1420C2, flashCfg_MX_KH25), (0x1520C2, flashCfg_MX_KH25), (0x1440A1, flashCfg_FM_Q80),
      (0x1570EF, flashCfg_Winb_16JV), (0x1870EF, flashCfg_Winb_16JV),
      (0x15605E, flashCfg_Winb_16JV), (0x144020, flashCfg_Winb_16JV),
      (0x154020, flashCfg_Winb_16JV), (0x164020, flashCfg_Winb_16JV),
      (0x174020, flashCfg_Winb_16JV), (0x13325E, flashCfg_MX_KH25), (0x14325E, flashCfg_MX_KH25),
      (0x15405E, flashCfg_Winb_16JV), (0x16405E, flashCfg_Winb_16JV),
      (0x1560EB, flashCfg_FM_Q80), (0x15345E, flashCfg_Winb_16JV)]"

section \<open>Finding the configuration\<close>

text \<open>The search loop over a table: the first entry with the id.\<close>

fun flash_info_find :: "(u32 \<times> spi_cfg) list \<Rightarrow> u32 \<Rightarrow> spi_cfg option" where
  "flash_info_find [] flashID = None"
| "flash_info_find ((jedecID, c) # infos) flashID =
     (if jedecID = flashID then Some c else flash_info_find infos flashID)"

text \<open>
  For the id 0 the configuration stored in the boot header is used: \<open>buf\<close> is what the 92
  bytes at flash address 8 read as, a magic word, the structure and its CRC.
\<close>

definition BFLB_FLASH_CFG_MAGIC :: bytes where "BFLB_FLASH_CFG_MAGIC = [0x46, 0x43, 0x46, 0x47]"

definition stored_cfg :: "bytes \<Rightarrow> spi_cfg option" where
  "stored_cfg buf =
     (if take 4 buf = BFLB_FLASH_CFG_MAGIC
         \<and> rd32 buf (4 + SPI_CFG_SIZE) = BFLB_Soft_CRC32 (seg buf 4 SPI_CFG_SIZE)
      then Some (cfg_of_bytes (seg buf 4 SPI_CFG_SIZE)) else None)"

definition SF_Cfg_Get_Flash_Cfg_Need_Lock :: "u32 \<Rightarrow> bytes \<Rightarrow> spi_cfg \<Rightarrow> bl_err \<times> spi_cfg" where
  "SF_Cfg_Get_Flash_Cfg_Need_Lock flashID buf cfg =
     (case (if flashID = 0 then stored_cfg buf else flash_info_find flashInfos flashID) of
        None \<Rightarrow> (ERROR, cfg) | Some c \<Rightarrow> (SUCCESS, c))"

definition SF_Cfg_Get_Flash_Cfg_Need_Lock_Ext :: "u32 \<Rightarrow> bytes \<Rightarrow> spi_cfg \<Rightarrow> bl_err \<times> spi_cfg" where
  "SF_Cfg_Get_Flash_Cfg_Need_Lock_Ext flashID buf cfg =
     (if flashID = 0 then
        (case stored_cfg buf of None \<Rightarrow> (ERROR, cfg) | Some c \<Rightarrow> (SUCCESS, c))
      else
        (let (r, cfg1) = SF_Cfg_Get_Flash_Cfg_Need_Lock flashID buf cfg
         in if r = SUCCESS \<and> flashID AND 0xFFFFFF \<noteq> 0x134051 then (SUCCESS, cfg1)
            else (case flash_info_find flashInfos_ext flashID of
                    None \<Rightarrow> (ERROR, cfg1) | Some c \<Rightarrow> (SUCCESS, c))))"

section \<open>Sound configurations\<close>

text \<open>
  What the driver needs of a configuration: 4 KB sectors and 256-byte pages, one of the five
  interface modes, distinguishable erase commands, and that no command it sends besides the
  erase and program commands is one of those.
\<close>

definition quiet_opcodes :: "spi_cfg \<Rightarrow> u8 list" where
  "quiet_opcodes m =
     [cfg_readRegCmd m ! unat (cfg_busyIndex m), cfg_readRegCmd m ! unat (cfg_wrEnableIndex m),
      cfg_readRegCmd m ! unat (cfg_qeIndex m), cfg_readRegCmd m ! 0, cfg_readRegCmd m ! 1,
      cfg_writeRegCmd m ! unat (cfg_qeIndex m), cfg_writeRegCmd m ! 0, cfg_writeRegCmd m ! 1,
      cfg_writeEnableCmd m, cfg_resetCreadCmd m, cfg_resetEnCmd m, cfg_resetCmd m,
      cfg_burstWrapCmd m, cfg_deBurstWrapCmd m, cfg_jedecIdCmd m, cfg_releasePowerDown m,
      cfg_fastReadCmd m, cfg_fastReadDoCmd m, cfg_fastReadDioCmd m, cfg_fastReadQoCmd m,
      cfg_fastReadQioCmd m]"

definition cfg_sound :: "spi_cfg \<Rightarrow> bool" where
  "cfg_sound m \<longleftrightarrow>
     cfg_sectorSize m = 4 \<and> cfg_pageSize m = 256 \<and> cfg_ioMode m AND 0x0f \<le> 4
     \<and> length (cfg_readRegCmd m) = 4 \<and> length (cfg_writeRegCmd m) = 4
     \<and> unat (cfg_busyIndex m) < 4 \<and> unat (cfg_wrEnableIndex m) < 4 \<and> unat (cfg_qeIndex m) < 4
     \<and> cfg_sectorEraseCmd m \<noteq> cfg_blk32EraseCmd m \<and> cfg_sectorEraseCmd m \<noteq> cfg_blk64EraseCmd m
     \<and> (cfg_blk64EraseCmd m \<noteq> cfg_blk32EraseCmd m \<or> cfg_blk64EraseCmd m = BFLB_SPIFLASH_CMD_INVALID)
     \<and> list_all (\<lambda>op. op \<notin> cfg_modifying (base_cfg m)) (quiet_opcodes m)"

lemma flash_info_find_in: "flash_info_find infos i = Some m \<Longrightarrow> (i, m) \<in> set infos"
  by (induction infos i rule: flash_info_find.induct) (auto split: if_splits)

lemmas sound_defs = cfg_sound_def quiet_opcodes_def cfg_modifying_def
  BFLB_SPIFLASH_CMD_INVALID_def

lemma sound_Winb_80DV: "cfg_sound flashCfg_Winb_80DV"
  by (simp add: flashCfg_Winb_80DV_def sound_defs)

lemma sound_Winb_16DV: "cfg_sound flashCfg_Winb_16DV"
  by (simp add: flashCfg_Winb_16DV_def sound_defs)

lemma sound_Winb_80EW_16FW_32JW_32FW_32FV: "cfg_sound flashCfg_Winb_80EW_16FW_32JW_32FW_32FV"
  by (simp add: flashCfg_Winb_80EW_16FW_32JW_32FW_32FV_def sound_defs)

lemma sound_Issi: "cfg_sound flashCfg_Issi"
  by (simp add: flashCfg_Issi_def sound_defs)

lemma sound_Gd_Md_40D: "cfg_sound flashCfg_Gd_Md_40D"
  by (simp add: flashCfg_Gd_Md_40D_def sound_defs)

lemma sound_Gd_LQ08C_LE16C_LQ32D_WQ32E: "cfg_sound flashCfg_Gd_LQ08C_LE16C_LQ32D_WQ32E"
  by (simp add: flashCfg_Gd_LQ08C_LE16C_LQ32D_WQ32E_def sound_defs)

lemma sound_Gd_Q80E_Q16E: "cfg_sound flashCfg_Gd_Q80E_Q16E"
  by (simp add: flashCfg_Gd_Q80E_Q16E_def sound_defs)

lemma sound_Gd_WQ80E_WQ16E: "cfg_sound flashCfg_Gd_WQ80E_WQ16E"
  by (simp add: flashCfg_Gd_WQ80E_WQ16E_def sound_defs)

lemma sound_Gd_Q32C: "cfg_sound flashCfg_Gd_Q32C"
  by (simp add: flashCfg_Gd_Q32C_def sound_defs)

lemma sound_Mxic: "cfg_sound flashCfg_Mxic"
  by (simp add: flashCfg_Mxic_def sound_defs)

lemma sound_Mxic_1635F: "cfg_sound flashCfg_Mxic_1635F"
  by (simp add: flashCfg_Mxic_1635F_def sound_defs)

lemma sound_Xtx40: "cfg_sound flashCfg_Xtx40"
  by (simp add: flashCfg_Xtx40_def sound_defs)

lemma sound_Xtx: "cfg_sound flashCfg_Xtx"
  by (simp add: flashCfg_Xtx_def sound_defs)

lemma sound_Puya_Q80L_Q80H_Q16H: "cfg_sound flashCfg_Puya_Q80L_Q80H_Q16H"
  by (simp add: flashCfg_Puya_Q80L_Q80H_Q16H_def sound_defs)

lemma sound_Puya_Q32H: "cfg_sound flashCfg_Puya_Q32H"
  by (simp add: flashCfg_Puya_Q32H_def sound_defs)

lemma sound_Boya40: "cfg_sound flashCfg_Boya40"
  by (simp add: flashCfg_Boya40_def sound_defs)

lemma sound_Boya: "cfg_sound flashCfg_Boya"
  by (simp add: flashCfg_Boya_def sound_defs)

lemma sound_FT_VQ80: "cfg_sound flashCfg_FT_VQ80"
  by (simp add: flashCfg_FT_VQ80_def sound_defs)

lemma sound_Gd_Md_40D_ext: "cfg_sound flashCfg_Gd_Md_40D_ext"
  by (simp add: flashCfg_Gd_Md_40D_ext_def sound_defs)

lemma sound_MX_KH25: "cfg_sound flashCfg_MX_KH25"
  by (simp add: flashCfg_MX_KH25_def sound_defs)

lemma sound_FM_Q80: "cfg_sound flashCfg_FM_Q80"
  by (simp add: flashCfg_FM_Q80_def sound_defs)

lemma sound_Winb_16JV: "cfg_sound flashCfg_Winb_16JV"
  by (simp add: flashCfg_Winb_16JV_def sound_defs)

lemmas sound_chips =
  sound_Winb_80DV sound_Winb_16DV sound_Winb_80EW_16FW_32JW_32FW_32FV sound_Issi
  sound_Gd_Md_40D sound_Gd_LQ08C_LE16C_LQ32D_WQ32E sound_Gd_Q80E_Q16E sound_Gd_WQ80E_WQ16E
  sound_Gd_Q32C sound_Mxic sound_Mxic_1635F sound_Xtx40 sound_Xtx sound_Puya_Q80L_Q80H_Q16H
  sound_Puya_Q32H sound_Boya40 sound_Boya sound_FT_VQ80 sound_Gd_Md_40D_ext sound_MX_KH25
  sound_FM_Q80 sound_Winb_16JV

lemma sound_tables:
  "(i, m) \<in> set flashInfos \<Longrightarrow> cfg_sound m" "(i, m) \<in> set flashInfos_ext \<Longrightarrow> cfg_sound m"
  by (auto simp: flashInfos_def flashInfos_ext_def sound_chips)

lemma length_cfg_bytes:
  "length (cfg_readRegCmd m) = 4 \<Longrightarrow> length (cfg_writeRegCmd m) = 4 \<Longrightarrow> length (cfg_bytes m) = SPI_CFG_SIZE"
  by (simp add: cfg_bytes_def SPI_CFG_SIZE_def)

text \<open>The packed structure is read back field by field.\<close>

lemma array4: "length (xs :: 'a list) = 4 \<Longrightarrow> \<exists>a b c d. xs = [a, b, c, d]"
  by (auto simp: length_Suc_conv eval_nat_numeral)

lemma le16_join: "ucast (ucast w :: u8) OR push_bit 8 (ucast (ucast (drop_bit 8 w) :: u8)) = (w :: u16)"
  using rd16_le16 [of w] by (simp add: le16_def rd16_def)

lemma cfg_of_bytes_bytes:
  assumes "length (cfg_readRegCmd m) = 4" "length (cfg_writeRegCmd m) = 4"
  shows "cfg_of_bytes (cfg_bytes m) = m"
proof -
  obtain a b c d where r: "cfg_readRegCmd m = [a, b, c, d]" using array4 [OF assms(1)] by blast
  obtain e f g h where w: "cfg_writeRegCmd m = [e, f, g, h]" using array4 [OF assms(2)] by blast
  have "cfg_of_bytes bs = m" if bs: "bs = cfg_bytes m" for bs
  proof (rule spi_cfg.equality)
  qed (simp_all only: cfg_of_bytes_def spi_cfg.simps flash_cfg.simps unit_eq,
      simp_all only: bs cfg_bytes_def r w le16_def rd16_def append.simps,
      simp_all add: seg_def le16_join)
  then show ?thesis by blast
qed

definition packed_cfg :: "spi_cfg \<Rightarrow> bytes" where
  "packed_cfg m = BFLB_FLASH_CFG_MAGIC @ cfg_bytes m @ le32 (BFLB_Soft_CRC32 (cfg_bytes m))"

lemma stored_packed:
  assumes "length (cfg_readRegCmd m) = 4" "length (cfg_writeRegCmd m) = 4"
  shows "stored_cfg (packed_cfg m) = Some m"
proof -
  let ?buf = "packed_cfg m"
  have l: "length BFLB_FLASH_CFG_MAGIC = 4" by (simp add: BFLB_FLASH_CFG_MAGIC_def)
  have s: "seg ?buf 4 SPI_CFG_SIZE = cfg_bytes m"
    using length_cfg_bytes [OF assms] by (simp add: seg_def l packed_cfg_def)
  have "seg ?buf (4 + SPI_CFG_SIZE) 4 = le32 (BFLB_Soft_CRC32 (cfg_bytes m))"
    using length_cfg_bytes [OF assms] by (simp add: seg_def l packed_cfg_def)
  then have "rd32 ?buf (4 + SPI_CFG_SIZE) = BFLB_Soft_CRC32 (cfg_bytes m)"
    using length_cfg_bytes [OF assms] by (subst rd32_seg) (simp_all add: l packed_cfg_def)
  with s show ?thesis
    by (simp add: stored_cfg_def packed_cfg_def l cfg_of_bytes_bytes [OF assms])
qed

text \<open>
  C35: A configuration stored in the boot header (magic word, packed structure, CRC) is what the
  driver reads back from there, field by field.
\<close>

theorem stored_cfg_roundtrip:
  assumes "length (cfg_readRegCmd m) = 4" "length (cfg_writeRegCmd m) = 4"
  shows "SF_Cfg_Get_Flash_Cfg_Need_Lock_Ext 0 (packed_cfg m) cfg = (SUCCESS, m)"
  by (simp add: SF_Cfg_Get_Flash_Cfg_Need_Lock_Ext_def stored_packed [OF assms])

theorem stored_cfg_roundtrip_witness:
  "SF_Cfg_Get_Flash_Cfg_Need_Lock_Ext 0 (packed_cfg flashCfg_FM_Q80) flashCfg_Issi = (SUCCESS, flashCfg_FM_Q80)"
  by (rule stored_cfg_roundtrip) (simp_all add: flashCfg_FM_Q80_def)

text \<open>
  C19: Whatever JEDEC id a chip reports, a configuration found for it in the tables is sound:
  sizes, interface mode and erase commands are the ones the driver relies on, and none of the
  other commands it sends erases or programs.  The id whose entry in the first table is wrong
  gets the entry of the second.
\<close>

theorem flash_cfg_sound:
  assumes "SF_Cfg_Get_Flash_Cfg_Need_Lock_Ext flashID buf cfg = (SUCCESS, m)" "flashID \<noteq> 0"
  shows "cfg_sound m \<and> (flashID = 0x134051 \<longrightarrow> m = flashCfg_Gd_Md_40D_ext)"
proof -
  have sound: "cfg_sound m"
    using assms by (auto simp: SF_Cfg_Get_Flash_Cfg_Need_Lock_Ext_def SF_Cfg_Get_Flash_Cfg_Need_Lock_def
        dest!: flash_info_find_in intro: sound_tables split: option.splits if_splits)
  moreover have "flash_info_find flashInfos_ext 0x134051 = Some flashCfg_Gd_Md_40D_ext"
    by (simp add: flashInfos_ext_def)
  ultimately show ?thesis
    using assms(1) by (auto simp: SF_Cfg_Get_Flash_Cfg_Need_Lock_Ext_def case_prod_unfold Let_def)
qed

theorem flash_cfg_sound_witness: "cfg_sound flashCfg_Gd_Md_40D_ext"
proof -
  have "SF_Cfg_Get_Flash_Cfg_Need_Lock_Ext 0x134051 [] flashCfg_Issi = (SUCCESS, flashCfg_Gd_Md_40D_ext)"
    by (simp add: SF_Cfg_Get_Flash_Cfg_Need_Lock_Ext_def SF_Cfg_Get_Flash_Cfg_Need_Lock_def flashInfos_def flashInfos_ext_def)
  from flash_cfg_sound [OF this] show ?thesis by simp
qed

text \<open>
  The last entry of the first table has the id of an earlier one, so the configuration made
  for that chip is never used.
\<close>

lemma FT_VQ80_shadowed:
  "SF_Cfg_Get_Flash_Cfg_Need_Lock_Ext 0x14605E buf cfg = (SUCCESS, flashCfg_Winb_80EW_16FW_32JW_32FW_32FV)"
  "flashCfg_FT_VQ80 \<noteq> flashCfg_Winb_80EW_16FW_32JW_32FW_32FV"
proof -
  show "SF_Cfg_Get_Flash_Cfg_Need_Lock_Ext 0x14605E buf cfg = (SUCCESS, flashCfg_Winb_80EW_16FW_32JW_32FW_32FV)"
    by (simp add: SF_Cfg_Get_Flash_Cfg_Need_Lock_Ext_def SF_Cfg_Get_Flash_Cfg_Need_Lock_def flashInfos_def)
  have "cfg_cReadMode flashCfg_FT_VQ80 \<noteq> cfg_cReadMode flashCfg_Winb_80EW_16FW_32JW_32FW_32FV
      \<or> cfg_pdDelay flashCfg_FT_VQ80 \<noteq> cfg_pdDelay flashCfg_Winb_80EW_16FW_32JW_32FW_32FV"
    by (simp add: flashCfg_FT_VQ80_def flashCfg_Winb_80EW_16FW_32JW_32FW_32FV_def)
  then show "flashCfg_FT_VQ80 \<noteq> flashCfg_Winb_80EW_16FW_32JW_32FW_32FV" by auto
qed

end
