(* ===== verification/FlashModes.thy ===== *)
theory FlashModes
  imports FlashConfig NorSim
begin

text \<open>
  The flash driver as a whole: the mode commands of \<open>bl702_sflash.c\<close>, the registers of the SPI
  controller and the cache around them, the sequences with which \<open>bl702_xip_sflash.c\<close> takes the
  flash away from the running program and hands it back, and the entry points of
  \<open>hal_flash.c\<close> with both.  What \<open>nor_chip\<close> assumed of the sequences is proved for the code's
  own, and the data path of \<open>Flash\<close> is the part of the driver that sees the chip.
\<close>

section \<open>Commands\<close>

text \<open>
  The status register functions of \<open>bl702_sflash.c\<close> beyond those of the data path.  A caller's
  \<open>uint32_t stat\<close> that receives register bytes is \<open>stat_read\<close>: on an error it stays as it was.
\<close>

definition SFlash_Write_Reg_With_Cmd ::
  "'c sf_ctrl \<Rightarrow> spi_cfg \<Rightarrow> u8 \<Rightarrow> bytes \<Rightarrow> u8 \<Rightarrow> 'c \<Rightarrow> bl_err \<times> 'c" where
  "SFlash_Write_Reg_With_Cmd ct m writeRegCmd regValue regLen c =
     (let cmd = sf_cmd_zero\<lparr>cmdBuf0 := sf_cmd_word writeRegCmd 0, rwFlag := SF_CTRL_WRITE,
                            nbData := ucast regLen\<rparr>
      in sf_poll (SFlash_Busy ct (base_cfg m)) (sc_delay ct 100) 400
           (sc_send ct cmd (take (unat regLen) regValue) c))"

definition SFlash_Write_Reg ::
  "'c sf_ctrl \<Rightarrow> spi_cfg \<Rightarrow> u8 \<Rightarrow> bytes \<Rightarrow> u8 \<Rightarrow> 'c \<Rightarrow> bl_err \<times> 'c" where
  "SFlash_Write_Reg ct m regIndex =
     SFlash_Write_Reg_With_Cmd ct m (cfg_writeRegCmd m ! unat regIndex)"

definition SFlash_Read_Reg_With_Cmd :: "'c sf_ctrl \<Rightarrow> u8 \<Rightarrow> u8 \<Rightarrow> 'c \<Rightarrow> bytes option \<times> 'c" where
  "SFlash_Read_Reg_With_Cmd ct readRegCmd regLen c =
     (let cmd = sf_cmd_zero\<lparr>cmdBuf0 := sf_cmd_word readRegCmd 0, nbData := ucast regLen\<rparr>;
          (r, c1) = sf_poll (sc_busy ct) (sc_delay ct 1) 1000 (sc_send ct cmd [] c)
      in if r = SUCCESS then (Some (take (unat regLen) (sc_buf ct c1)), c1) else (None, c1))"

definition stat_read :: "u32 \<Rightarrow> nat \<Rightarrow> bytes option \<Rightarrow> u32" where
  "stat_read stat off r = (case r of None \<Rightarrow> stat | Some bs \<Rightarrow> rd32 (patch (le32 stat) off bs) 0)"

text \<open>The test at both ends of \<open>SFlash_Qspi_Enable\<close>, and the value it writes.\<close>

definition qe_is_set :: "spi_cfg \<Rightarrow> u32 \<Rightarrow> bool" where
  "qe_is_set m stat =
     (if cfg_qeData m = 0 then bit stat (unat (cfg_qeBit m))
      else drop_bit (unat (cfg_qeBit m AND 0x08)) stat AND 0xff = ucast (cfg_qeData m))"

definition qe_value :: "spi_cfg \<Rightarrow> u32 \<Rightarrow> u32" where
  "qe_value m stat =
     (if cfg_qeWriteRegLen m \<noteq> 1 then
        (if cfg_qeData m = 0 then stat OR push_bit (unat (cfg_qeBit m) + 8 * unat (cfg_qeIndex m)) 1
         else (stat AND NOT (push_bit (8 * unat (cfg_qeIndex m)) 0xff))
                OR push_bit (8 * unat (cfg_qeIndex m)) (ucast (cfg_qeData m)))
      else if cfg_qeData m = 0 then stat OR push_bit (unat (cfg_qeBit m) mod 8) 1
      else ucast (cfg_qeData m))"

definition SFlash_Qspi_Enable :: "'c sf_ctrl \<Rightarrow> spi_cfg \<Rightarrow> 'c \<Rightarrow> bl_err \<times> 'c" where
  "SFlash_Qspi_Enable ct m c =
     (let b = base_cfg m in
      if cfg_qeReadRegLen m = 0 then
        (let (r, c1) = SFlash_Write_Enable ct b c
         in if r \<noteq> SUCCESS then (ERROR, c1)
            else (SUCCESS, snd (SFlash_Write_Reg ct m (cfg_qeIndex m) (le32 0) (cfg_qeWriteRegLen m) c1)))
      else
        (let (r1, c1) = SFlash_Read_Reg ct b (cfg_qeIndex m) (cfg_qeReadRegLen m) c;
             stat1 = stat_read 0 0 r1
         in if qe_is_set m stat1 then (SUCCESS, c1)
            else
              (let (stat2, c2) =
                     (if cfg_qeWriteRegLen m \<noteq> 1 then
                        (let (ra, ca) = SFlash_Read_Reg ct b 0 1 c1;
                             (rb, cb) = SFlash_Read_Reg ct b 1 1 ca
                         in (stat_read (stat_read stat1 0 ra) 1 rb, cb))
                      else (stat1, c1));
                   stat3 = qe_value m stat2;
                   (r3, c3) = SFlash_Write_Enable ct b c2
               in if r3 \<noteq> SUCCESS then (ERROR, c3)
                  else
                    (let (_, c4) = SFlash_Write_Reg ct m (cfg_qeIndex m) (le32 stat3) (cfg_qeWriteRegLen m) c3;
                         (r5, c5) = SFlash_Read_Reg ct b (cfg_qeIndex m) (cfg_qeReadRegLen m) c4
                     in (if qe_is_set m (stat_read stat3 0 r5) then SUCCESS else ERROR, c5)))))"

definition SFlash_Volatile_Reg_Write_Enable :: "'c sf_ctrl \<Rightarrow> spi_cfg \<Rightarrow> 'c \<Rightarrow> 'c" where
  "SFlash_Volatile_Reg_Write_Enable ct m =
     sc_send ct (sf_cmd_zero\<lparr>cmdBuf0 := sf_cmd_word (cfg_writeVregEnableCmd m) 0,
                             rwFlag := SF_CTRL_WRITE\<rparr>) []"

text \<open>
  A command whose answer is waited for with a count of busy polls: \<open>None\<close> is the silent return
  on a time-out, which leaves the caller's data as they were.
\<close>

definition sf_ask :: "'c sf_ctrl \<Rightarrow> sf_cmd \<Rightarrow> 'c \<Rightarrow> bytes option \<times> 'c" where
  "sf_ask ct cmd c =
     (let (r, c1) = sf_poll (sc_busy ct) id (SFCTRL_BUSY_STATE_TIMEOUT - 1) (sc_send ct cmd [] c)
      in (if r = SUCCESS then Some (take (unat (nbData cmd)) (sc_buf ct c1)) else None, c1))"

definition SFlash_GetUniqueId :: "'c sf_ctrl \<Rightarrow> u8 \<Rightarrow> 'c \<Rightarrow> bytes option \<times> 'c" where
  "SFlash_GetUniqueId ct idLen =
     sf_ask ct (sf_cmd_zero\<lparr>cmdBuf0 := sf_cmd_word 0x4B 0, dummyClks := 4, nbData := ucast idLen\<rparr>)"

definition SFlash_GetJedecId :: "'c sf_ctrl \<Rightarrow> spi_cfg \<Rightarrow> 'c \<Rightarrow> bytes option \<times> 'c" where
  "SFlash_GetJedecId ct m =
     sf_ask ct (sf_cmd_zero\<lparr>cmdBuf0 := sf_cmd_word (cfg_jedecIdCmd m) 0,
                            dummyClks := cfg_jedecIdCmdDmyClk m, nbData := 3\<rparr>)"

definition SFlash_GetDeviceId :: "'c sf_ctrl \<Rightarrow> 'c \<Rightarrow> bytes option \<times> 'c" where
  "SFlash_GetDeviceId ct =
     sf_ask ct (sf_cmd_zero\<lparr>addrMode := 2, dataMode := 2, cmdBuf0 := sf_cmd_word 0x94 1,
                            cmdBuf1 := push_bit 24 0xFF, addrSize := 4, dummyClks := 2, nbData := 2\<rparr>)"

definition SFlash_Powerdown :: "'c sf_ctrl \<Rightarrow> 'c \<Rightarrow> 'c" where
  "SFlash_Powerdown ct c =
     snd (sf_ask ct (sf_cmd_zero\<lparr>cmdBuf0 := sf_cmd_word 0xB9 0, rwFlag := SF_CTRL_WRITE\<rparr>) c)"

definition SFlash_Releae_Powerdown :: "'c sf_ctrl \<Rightarrow> spi_cfg \<Rightarrow> 'c \<Rightarrow> 'c" where
  "SFlash_Releae_Powerdown ct m c =
     snd (sf_ask ct (sf_cmd_zero\<lparr>cmdBuf0 := sf_cmd_word (cfg_releasePowerDown m) 0,
                                 rwFlag := SF_CTRL_WRITE\<rparr>) c)"

text \<open>
  The burst wrap commands: one data byte, sent from the buffer that receives the word
  \<open>wrapData\<close>.  (The copy is of 4 words, 12 bytes more than the variable has; they are not
  sent.)
\<close>

definition unwrapped :: "spi_cfg \<Rightarrow> bool" where
  "unwrapped m \<longleftrightarrow> drop_bit 4 (cfg_ioMode m) AND 0x01 = 1"

definition SFlash_SetBurstWrap :: "'c sf_ctrl \<Rightarrow> spi_cfg \<Rightarrow> 'c \<Rightarrow> 'c" where
  "SFlash_SetBurstWrap ct m c =
     (if unwrapped m then c
      else sc_send ct (sf_cmd_zero\<lparr>addrMode := cfg_burstWrapDataMode m, dataMode := cfg_burstWrapDataMode m,
             cmdBuf0 := sf_cmd_word (cfg_burstWrapCmd m) 0, rwFlag := SF_CTRL_WRITE,
             dummyClks := cfg_burstWrapCmdDmyClk m, nbData := 1\<rparr>) [cfg_burstWrapData m] c)"

definition SFlash_DisableBurstWrap :: "'c sf_ctrl \<Rightarrow> spi_cfg \<Rightarrow> 'c \<Rightarrow> 'c" where
  "SFlash_DisableBurstWrap ct m =
     sc_send ct (sf_cmd_zero\<lparr>addrMode := cfg_deBurstWrapDataMode m, dataMode := cfg_deBurstWrapDataMode m,
       cmdBuf0 := sf_cmd_word (cfg_deBurstWrapCmd m) 0, rwFlag := SF_CTRL_WRITE,
       dummyClks := cfg_deBurstWrapCmdDmyClk m, nbData := 1\<rparr>) [cfg_deBurstWrapData m]"

definition SFlash_Software_Reset :: "'c sf_ctrl \<Rightarrow> spi_cfg \<Rightarrow> 'c \<Rightarrow> bl_err \<times> 'c" where
  "SFlash_Software_Reset ct m c =
     (let (r, c1) = sf_poll (SFlash_Busy ct (base_cfg m)) (sc_delay ct 100) 20 c
      in if r \<noteq> SUCCESS then (ERROR, c1)
         else
           (let c2 = sc_send ct (sf_cmd_zero\<lparr>cmdBuf0 := sf_cmd_word (cfg_resetEnCmd m) 0\<rparr>) [] c1;
                c3 = sc_send ct (sf_cmd_zero\<lparr>cmdBuf0 := sf_cmd_word (cfg_resetCmd m) 0\<rparr>) [] c2
            in (SUCCESS, sc_delay ct 50 c3)))"

definition SFlash_Reset_Continue_Read :: "'c sf_ctrl \<Rightarrow> spi_cfg \<Rightarrow> 'c \<Rightarrow> 'c" where
  "SFlash_Reset_Continue_Read ct m =
     sc_send ct (sf_cmd_zero\<lparr>cmdBuf0 := rd32 (replicate 4 (cfg_resetCreadCmd m)) 0,
                             addrSize := cfg_resetCreadCmdSize m\<rparr>) []"

section \<open>The controller\<close>

text \<open>
  The registers around the chip: which bus owns the controller, the image offset of the XIP
  window, the AES enable bit, the cache configuration register and the command set up for
  cache reads (with its valid bit); \<open>ss_aesEnable\<close> is the static variable of
  \<open>bl702_xip_sflash.c\<close>.  A command is only sent while the system bus owns the controller,
  otherwise \<open>SF_Ctrl_SendCmd\<close> returns without an effect.
\<close>

datatype sf_owner = SF_CTRL_OWNER_SAHB | SF_CTRL_OWNER_IAHB

record 'c sf_state =
  ss_chip :: 'c
  ss_owner :: sf_owner
  ss_offset :: u32
  ss_aes :: bool
  ss_aesEnable :: bool
  ss_l1c :: u32
  ss_icache :: "sf_cmd \<times> bool"

definition full_ctrl :: "'c sf_ctrl \<Rightarrow> ('c, 'z) sf_state_scheme sf_ctrl" where
  "full_ctrl ct =
     \<lparr>sc_send = (\<lambda>cmd bs st. if ss_owner st = SF_CTRL_OWNER_SAHB
                             then st\<lparr>ss_chip := sc_send ct cmd bs (ss_chip st)\<rparr> else st),
      sc_busy = (\<lambda>st. let (b, c) = sc_busy ct (ss_chip st) in (b, st\<lparr>ss_chip := c\<rparr>)),
      sc_buf = (\<lambda>st. sc_buf ct (ss_chip st)),
      sc_delay = (\<lambda>us st. st\<lparr>ss_chip := sc_delay ct us (ss_chip st)\<rparr>),
      sc_save = id, sc_restore = id\<rparr>"

definition SF_CTRL_BUSY_STATE_TIMEOUT :: nat where "SF_CTRL_BUSY_STATE_TIMEOUT = 5 * 160 * 1000"

definition SF_Ctrl_Set_Owner ::
  "'c sf_ctrl \<Rightarrow> sf_owner \<Rightarrow> ('c, 'z) sf_state_scheme \<Rightarrow> ('c, 'z) sf_state_scheme" where
  "SF_Ctrl_Set_Owner ct owner st =
     (let (r, st1) = sf_poll (sc_busy (full_ctrl ct)) id (SF_CTRL_BUSY_STATE_TIMEOUT - 1) st
      in if r = SUCCESS then st1\<lparr>ss_owner := owner\<rparr> else st1)"

definition SF_Ctrl_Flash_Read_Icache_Set ::
  "'c sf_ctrl \<Rightarrow> sf_cmd \<Rightarrow> bool \<Rightarrow> ('c, 'z) sf_state_scheme \<Rightarrow> ('c, 'z) sf_state_scheme" where
  "SF_Ctrl_Flash_Read_Icache_Set ct cmd cmdValid st =
     (let (r, st1) = sf_poll (sc_busy (full_ctrl ct)) id (SF_CTRL_BUSY_STATE_TIMEOUT - 1) st
      in if r = SUCCESS \<and> ss_owner st1 = SF_CTRL_OWNER_IAHB then st1\<lparr>ss_icache := (cmd, cmdValid)\<rparr>
         else st1)"

text \<open>
  The cache configuration register.  The completion bits the hardware sets while a flush is
  polled for are not part of the model; the polls end after 100 rounds in any case.
\<close>

definition L1C_WAY_DIS_MSK :: u32 where "L1C_WAY_DIS_MSK = push_bit 8 0xF"

definition L1C_Cache_Flush :: "u8 \<Rightarrow> u32 \<Rightarrow> u32" where
  "L1C_Cache_Flush wayDisable reg =
     (let t1 = unset_bit 1 (set_bit 14 (unset_bit 0 reg) AND NOT L1C_WAY_DIS_MSK);
          finWayDisable = ucast (drop_bit 8 (t1 AND L1C_WAY_DIS_MSK));
          t2 = set_bit 2 (unset_bit 2 t1);
          t3 = unset_bit 28 (set_bit 28 (unset_bit 28 t2));
          t4 = set_bit 1 (unset_bit 14 (set_bit 14 t3));
          fin = (if wayDisable \<noteq> 0xff then wayDisable else finWayDisable);
          t5 = (t4 AND NOT L1C_WAY_DIS_MSK) OR push_bit 8 (ucast fin)
      in if fin \<noteq> 0x0f then set_bit 0 t5 else unset_bit 0 t5)"

definition L1C_Cache_Enable_Set :: "u8 \<Rightarrow> u32 \<Rightarrow> u32" where
  "L1C_Cache_Enable_Set = L1C_Cache_Flush"

definition L1C_Cache_Flush_Ext :: "u32 \<Rightarrow> u32" where
  "L1C_Cache_Flush_Ext reg = L1C_Cache_Flush (ucast (drop_bit 8 reg AND 0xf)) reg"

definition L1C_Cache_Read_Disable :: "u32 \<Rightarrow> u32" where
  "L1C_Cache_Read_Disable = unset_bit 0"

text \<open>
  The values \<open>L1C_Set_Wrap\<close> writes to the register, in order.  Whether the cache is on is read
  from the address of the register block, \<open>BL_IS_REG_BIT_SET(L1C_BASE, ..)\<close>, not from its
  content.
\<close>

definition L1C_BASE :: u32 where "L1C_BASE = 0x40009000"

definition L1C_Set_Wrap_writes :: "bool \<Rightarrow> u32 \<Rightarrow> u32 list" where
  "L1C_Set_Wrap_writes wrap reg =
     (let cacheEn = bit L1C_BASE 0;
          t1 = (if cacheEn then unset_bit 0 reg else reg);
          t2 = (if wrap then unset_bit 26 t1 else set_bit 26 t1)
      in (if cacheEn then [t1] else []) @ [t2] @ (if cacheEn then [set_bit 0 t2] else []))"

definition L1C_Set_Wrap :: "bool \<Rightarrow> u32 \<Rightarrow> u32" where
  "L1C_Set_Wrap wrap reg = last (L1C_Set_Wrap_writes wrap reg)"

text \<open>The command for reads through the cache and its valid bit; \<open>None\<close> for an unknown mode.\<close>

definition idbus_cmd :: "spi_cfg \<Rightarrow> u8 \<Rightarrow> bool \<Rightarrow> u32 \<Rightarrow> u32 \<Rightarrow> (sf_cmd \<times> bool) option" where
  "idbus_cmd m ioMode contRead addr len =
     (let base = (\<lambda>op am dm dc. sf_cmd_zero\<lparr>rwFlag := SF_CTRL_READ, addrSize := 3, addrMode := am, dataMode := dm,
                     dummyClks := dc, nbData := len, cmdBuf0 := sf_cmd_word op addr\<rparr>);
          with_mode = (\<lambda>cmd. if cfg_cReadSupport m AND 2 \<noteq> 0 then (cmd, True)
             else if cfg_cReadSupport m AND 1 = 0
               then (cmd\<lparr>cmdBuf1 := push_bit 24 (ucast (cfg_cReadMode m)), addrSize := 4\<rparr>, True)
             else if contRead
               then (cmd\<lparr>cmdBuf0 := push_bit 8 addr OR ucast (cfg_cReadMode m), addrSize := 4\<rparr>, False)
             else (cmd\<lparr>cmdBuf1 := push_bit 24 (if cfg_cReadMode m = 0 then 1 else 0), addrSize := 4\<rparr>, True))
      in if ioMode = SF_CTRL_NIO_MODE then Some (base (cfg_fastReadCmd m) 0 0 (cfg_frDmyClk m), True)
         else if ioMode = SF_CTRL_DO_MODE then Some (base (cfg_fastReadDoCmd m) 0 1 (cfg_frDoDmyClk m), True)
         else if ioMode = SF_CTRL_DIO_MODE then Some (with_mode (base (cfg_fastReadDioCmd m) 1 1 (cfg_frDioDmyClk m)))
         else if ioMode = SF_CTRL_QO_MODE then Some (base (cfg_fastReadQoCmd m) 0 2 (cfg_frQoDmyClk m), True)
         else if ioMode = SF_CTRL_QIO_MODE then Some (with_mode (base (cfg_fastReadQioCmd m) 2 2 (cfg_frQioDmyClk m)))
         else None)"

definition SFlash_Set_IDbus_Cfg ::
  "'c sf_ctrl \<Rightarrow> spi_cfg \<Rightarrow> u8 \<Rightarrow> bool \<Rightarrow> u32 \<Rightarrow> u32 \<Rightarrow> ('c, 'z) sf_state_scheme
     \<Rightarrow> bl_err \<times> ('c, 'z) sf_state_scheme" where
  "SFlash_Set_IDbus_Cfg ct m ioMode contRead addr len st =
     (let st1 = SF_Ctrl_Set_Owner ct SF_CTRL_OWNER_IAHB st
      in case idbus_cmd m ioMode contRead addr len of
           None \<Rightarrow> (ERROR, st1)
         | Some (cmd, cmdValid) \<Rightarrow> (SUCCESS, SF_Ctrl_Flash_Read_Icache_Set ct cmd cmdValid st1))"

definition SFlash_IDbus_Read_Enable ::
  "'c sf_ctrl \<Rightarrow> spi_cfg \<Rightarrow> u8 \<Rightarrow> bool \<Rightarrow> ('c, 'z) sf_state_scheme \<Rightarrow> bl_err \<times> ('c, 'z) sf_state_scheme" where
  "SFlash_IDbus_Read_Enable ct m ioMode contRead = SFlash_Set_IDbus_Cfg ct m ioMode contRead 0 4"

definition SFlash_Cache_Read_Enable ::
  "'c sf_ctrl \<Rightarrow> spi_cfg \<Rightarrow> u8 \<Rightarrow> bool \<Rightarrow> u8 \<Rightarrow> ('c, 'z) sf_state_scheme
     \<Rightarrow> bl_err \<times> ('c, 'z) sf_state_scheme" where
  "SFlash_Cache_Read_Enable ct m ioMode contRead wayDisable st =
     (let (r, st1) = SFlash_Set_IDbus_Cfg ct m ioMode contRead 0 32 st
      in if r \<noteq> SUCCESS then (r, st1)
         else (SUCCESS, st1\<lparr>ss_l1c := L1C_Cache_Enable_Set wayDisable (ss_l1c st1)\<rparr>))"

definition SFlash_Cache_Read_Disable :: "('c, 'z) sf_state_scheme \<Rightarrow> ('c, 'z) sf_state_scheme" where
  "SFlash_Cache_Read_Disable st = st\<lparr>ss_l1c := L1C_Cache_Read_Disable (ss_l1c st)\<rparr>"

section \<open>Saving and restoring the mode\<close>

definition XIP_SFlash_Opt_Enter :: "('c, 'z) sf_state_scheme \<Rightarrow> ('c, 'z) sf_state_scheme" where
  "XIP_SFlash_Opt_Enter st =
     (let st1 = st\<lparr>ss_aesEnable := ss_aes st\<rparr>
      in if ss_aesEnable st1 then st1\<lparr>ss_aes := False\<rparr> else st1)"

definition XIP_SFlash_Opt_Exit :: "('c, 'z) sf_state_scheme \<Rightarrow> ('c, 'z) sf_state_scheme" where
  "XIP_SFlash_Opt_Exit st = (if ss_aesEnable st then st\<lparr>ss_aes := True\<rparr> else st)"

text \<open>The commands both sequences send, on any controller.\<close>

definition mode_enter :: "'c sf_ctrl \<Rightarrow> spi_cfg \<Rightarrow> 'c \<Rightarrow> 'c" where
  "mode_enter ct m c =
     (let c1 = SFlash_Reset_Continue_Read ct m c;
          c2 = snd (SFlash_Software_Reset ct m c1);
          c3 = SFlash_DisableBurstWrap ct m c2;
          c4 = snd (SFlash_Qspi_Enable ct m c3)
      in SFlash_DisableBurstWrap ct m c4)"

definition mode_leave :: "'c sf_ctrl \<Rightarrow> spi_cfg \<Rightarrow> u8 \<Rightarrow> 'c \<Rightarrow> 'c" where
  "mode_leave ct m ioMode c =
     (let c1 = SFlash_SetBurstWrap ct m c;
          (r, bs, c2) = SFlash_Read ct (base_cfg m) ioMode True 0 4 c1
      in c2)"

definition XIP_SFlash_State_Save ::
  "'c sf_ctrl \<Rightarrow> spi_cfg \<Rightarrow> ('c, 'z) sf_state_scheme \<Rightarrow> u32 \<times> ('c, 'z) sf_state_scheme" where
  "XIP_SFlash_State_Save ct m st =
     (let st1 = SF_Ctrl_Set_Owner ct SF_CTRL_OWNER_SAHB st;
          st2 = mode_enter (full_ctrl ct) m st1
      in (ss_offset st2, st2\<lparr>ss_offset := 0\<rparr>))"

definition XIP_SFlash_State_Restore ::
  "'c sf_ctrl \<Rightarrow> spi_cfg \<Rightarrow> u8 \<Rightarrow> u32 \<Rightarrow> ('c, 'z) sf_state_scheme \<Rightarrow> ('c, 'z) sf_state_scheme" where
  "XIP_SFlash_State_Restore ct m ioMode offset st =
     (let st1 = mode_leave (full_ctrl ct) m ioMode (st\<lparr>ss_offset := offset\<rparr>)
      in snd (SFlash_Set_IDbus_Cfg ct m ioMode True 0 32 st1))"

text \<open>
  The frame of every \<open>XIP_SFlash_.._Need_Lock\<close> function around the operation it protects
  (\<open>XIP_SFlash_State_Save\<close> always reports success), and of every function of
  \<open>hal_flash.c\<close> around it.
\<close>

definition xip_locked ::
  "'c sf_ctrl \<Rightarrow> spi_cfg \<Rightarrow> (('c, 'z) sf_state_scheme \<Rightarrow> 'r \<times> ('c, 'z) sf_state_scheme)
     \<Rightarrow> ('c, 'z) sf_state_scheme \<Rightarrow> 'r \<times> ('c, 'z) sf_state_scheme" where
  "xip_locked ct m op st =
     (let (offset, st1) = XIP_SFlash_State_Save ct m st;
          (r, st2) = op st1
      in (r, XIP_SFlash_State_Restore ct m (cfg_ioMode m AND 0x0f) offset st2))"

definition hal_locked ::
  "'c sf_ctrl \<Rightarrow> spi_cfg \<Rightarrow> (('c, 'z) sf_state_scheme \<Rightarrow> 'r \<times> ('c, 'z) sf_state_scheme)
     \<Rightarrow> ('c, 'z) sf_state_scheme \<Rightarrow> 'r \<times> ('c, 'z) sf_state_scheme" where
  "hal_locked ct m op st =
     (let (r, st1) = xip_locked ct m op (XIP_SFlash_Opt_Enter st) in (r, XIP_SFlash_Opt_Exit st1))"

text \<open>
  Changing the wrap mode never switches the cache off in between, and a flush that is told to
  keep the disabled ways (\<open>0xff\<close>) enables all of them: they are read after they were cleared.
\<close>

lemma wrap_with_cache_on: "v \<in> set (L1C_Set_Wrap_writes wrap reg) \<Longrightarrow> bit v 0 = bit reg 0"
  by (auto simp: L1C_Set_Wrap_writes_def L1C_BASE_def Let_def bit_simps split: if_splits)

lemma way_mask_bit: "bit L1C_WAY_DIS_MSK n \<longleftrightarrow> 8 \<le> n \<and> n < 12"
proof -
  have "L1C_WAY_DIS_MSK = push_bit 8 (mask 4)"
    by (simp add: L1C_WAY_DIS_MSK_def mask_eq_exp_minus_1)
  moreover have "bit (push_bit 8 (mask 4 :: u32)) n \<longleftrightarrow> 8 \<le> n \<and> n < 12"
    unfolding bit_push_bit_iff bit_mask_iff by auto
  ultimately show ?thesis by simp
qed

lemma flush_way_bits:
  "n < 4 \<Longrightarrow> bit (L1C_Cache_Flush w reg) (8 + n) = (w \<noteq> 0xff \<and> bit w n)"
  "bit (L1C_Cache_Flush w reg) 0 = (w \<noteq> 0x0f)"
proof -
  have fin: "ucast (drop_bit 8 (unset_bit 1 (set_bit 14 (unset_bit 0 reg) AND NOT L1C_WAY_DIS_MSK)
      AND L1C_WAY_DIS_MSK)) = (0 :: u8)"
    by (rule bit_word_eqI) (auto simp: way_mask_bit bit_simps)
  have way: "n < 4 \<Longrightarrow> bit (if x \<noteq> 0x0f then set_bit 0 (t AND NOT L1C_WAY_DIS_MSK OR push_bit 8 (ucast x))
      else unset_bit 0 (t AND NOT L1C_WAY_DIS_MSK OR push_bit 8 (ucast x))) (8 + n) = bit x n" for t :: u32 and x :: u8
    by (simp only: if_distrib [of "\<lambda>v. bit v (8 + n)"]) (auto simp: bit_simps way_mask_bit simp del: push_bit_numeral)
  show "n < 4 \<Longrightarrow> bit (L1C_Cache_Flush w reg) (8 + n) = (w \<noteq> 0xff \<and> bit w n)"
    unfolding L1C_Cache_Flush_def Let_def fin using way by simp
  show "bit (L1C_Cache_Flush w reg) 0 = (w \<noteq> 0x0f)"
    unfolding L1C_Cache_Flush_def Let_def fin by (auto simp: bit_simps way_mask_bit)
qed

section \<open>The operations of \<open>hal_flash.c\<close> on the whole state\<close>

definition hal_flash_write ::
  "'c sf_ctrl \<Rightarrow> spi_cfg \<Rightarrow> u32 \<Rightarrow> bytes \<Rightarrow> ('c, 'z) sf_state_scheme \<Rightarrow> bl_err \<times> ('c, 'z) sf_state_scheme" where
  "hal_flash_write ct m addr data =
     hal_locked ct m (SFlash_Program (full_ctrl ct) (base_cfg m) (cfg_ioMode m AND 0x0f) addr data)"

definition hal_flash_read ::
  "'c sf_ctrl \<Rightarrow> spi_cfg \<Rightarrow> u32 \<Rightarrow> nat \<Rightarrow> ('c, 'z) sf_state_scheme
     \<Rightarrow> (bl_err \<times> bytes) \<times> ('c, 'z) sf_state_scheme" where
  "hal_flash_read ct m addr n =
     hal_locked ct m (\<lambda>st. let (r, bs, st1) = SFlash_Read (full_ctrl ct) (base_cfg m)
                                (cfg_ioMode m AND 0x0f) False addr n st
                           in ((r, bs), st1))"

text \<open>The erase loop is partial, so the frame is written out around it.\<close>

definition hal_flash_erase ::
  "'c sf_ctrl \<Rightarrow> spi_cfg \<Rightarrow> u32 \<Rightarrow> u32 \<Rightarrow> ('c, 'z) sf_state_scheme
     \<Rightarrow> (bl_err \<times> ('c, 'z) sf_state_scheme) option" where
  "hal_flash_erase ct m startaddr len st =
     (let (offset, st1) = XIP_SFlash_State_Save ct m (XIP_SFlash_Opt_Enter st)
      in map_option
           (\<lambda>(r, st2). (r, XIP_SFlash_Opt_Exit
              (XIP_SFlash_State_Restore ct m (cfg_ioMode m AND 0x0f) offset st2)))
           (SFlash_Erase (full_ctrl ct) (base_cfg m) startaddr (startaddr + len - 1) st1))"

definition full_flash_ops :: "'c sf_ctrl \<Rightarrow> spi_cfg \<Rightarrow> ('c, 'z) sf_state_scheme flash_ops" where
  "full_flash_ops ct m =
     \<lparr>fl_erase = (\<lambda>a n st. case hal_flash_erase ct m a n st of None \<Rightarrow> (TIMEOUT, st) | Some r \<Rightarrow> r),
      fl_write = hal_flash_write ct m,
      fl_read = (\<lambda>a buf st. let ((r, bs), st1) = hal_flash_read ct m a (length buf) st
                            in (r, patch buf 0 bs))\<rparr>"

text \<open>The id functions: the data stay as they were when the chip does not answer in time.\<close>

definition XIP_SFlash_GetJedecId_Need_Lock ::
  "'c sf_ctrl \<Rightarrow> spi_cfg \<Rightarrow> ('c, 'z) sf_state_scheme \<Rightarrow> bytes option \<times> ('c, 'z) sf_state_scheme" where
  "XIP_SFlash_GetJedecId_Need_Lock ct m = xip_locked ct m (SFlash_GetJedecId (full_ctrl ct) m)"

definition XIP_SFlash_GetDeviceId_Need_Lock ::
  "'c sf_ctrl \<Rightarrow> spi_cfg \<Rightarrow> ('c, 'z) sf_state_scheme \<Rightarrow> bytes option \<times> ('c, 'z) sf_state_scheme" where
  "XIP_SFlash_GetDeviceId_Need_Lock ct m = xip_locked ct m (SFlash_GetDeviceId (full_ctrl ct))"

definition XIP_SFlash_GetUniqueId_Need_Lock ::
  "'c sf_ctrl \<Rightarrow> spi_cfg \<Rightarrow> u8 \<Rightarrow> ('c, 'z) sf_state_scheme \<Rightarrow> bytes option \<times> ('c, 'z) sf_state_scheme" where
  "XIP_SFlash_GetUniqueId_Need_Lock ct m idLen = xip_locked ct m (SFlash_GetUniqueId (full_ctrl ct) idLen)"

text \<open>The result and the bytes stored at \<open>data\<close>.  It copies 4 bytes, the id and a zero.\<close>

definition flash_read_jedec_id ::
  "'c sf_ctrl \<Rightarrow> spi_cfg \<Rightarrow> ('c, 'z) sf_state_scheme \<Rightarrow> bytes \<times> ('c, 'z) sf_state_scheme" where
  "flash_read_jedec_id ct m st =
     (let (r, st1) = XIP_SFlash_GetJedecId_Need_Lock ct m (XIP_SFlash_Opt_Enter st)
      in (le32 (stat_read 0 0 r AND 0xFFFFFF), XIP_SFlash_Opt_Exit st1))"

section \<open>One controller inside another\<close>

text \<open>
  The driver only reaches the hardware through the operations of the controller.  When the
  states of one controller are embedded in those of another, and its operations act alike on
  the embedded states, so does every routine of the driver.
\<close>

lemma sf_poll_embed:
  assumes "\<And>c. busy' (emb c) = apsnd emb (busy c)" "\<And>c. d' (emb c) = emb (d c)"
  shows "sf_poll busy' d' l (emb c) = apsnd emb (sf_poll busy d l c)"
proof (induction l arbitrary: c)
  case 0
  show ?case
    by (subst (1 2) sf_poll.simps) (cases "busy c"; simp add: assms)
next
  case (Suc l)
  show ?case
    by (subst (1 2) sf_poll.simps) (cases "busy c"; simp add: assms Suc)
qed

locale ctrl_embed =
  fixes ct :: "'c sf_ctrl" and ct' :: "'s sf_ctrl" and emb :: "'c \<Rightarrow> 's"
  assumes send: "sc_send ct' cmd bs (emb c) = emb (sc_send ct cmd bs c)"
    and busy: "sc_busy ct' (emb c) = apsnd emb (sc_busy ct c)"
    and buf: "sc_buf ct' (emb c) = sc_buf ct c"
    and delay: "sc_delay ct' us (emb c) = emb (sc_delay ct us c)"
begin

lemma poll_busy:
  "sf_poll (sc_busy ct') (sc_delay ct' us) l (emb c) = apsnd emb (sf_poll (sc_busy ct) (sc_delay ct us) l c)"
  "sf_poll (sc_busy ct') id l (emb c) = apsnd emb (sf_poll (sc_busy ct) id l c)"
  by (rule sf_poll_embed; simp add: busy delay)+

lemma read_reg: "SFlash_Read_Reg ct' cfg i n (emb c) = apsnd emb (SFlash_Read_Reg ct cfg i n c)"
  by (simp add: SFlash_Read_Reg_def send poll_busy buf case_prod_unfold Let_def)

lemma chip_busy: "SFlash_Busy ct' cfg (emb c) = apsnd emb (SFlash_Busy ct cfg c)"
  by (simp add: SFlash_Busy_def read_reg case_prod_unfold Let_def)

lemma poll_chip_busy:
  "sf_poll (SFlash_Busy ct' cfg) (sc_delay ct' us) l (emb c)
     = apsnd emb (sf_poll (SFlash_Busy ct cfg) (sc_delay ct us) l c)"
  by (rule sf_poll_embed) (simp_all add: chip_busy delay)

lemma write_enable: "SFlash_Write_Enable ct' cfg (emb c) = apsnd emb (SFlash_Write_Enable ct cfg c)"
  by (simp add: SFlash_Write_Enable_def read_reg send case_prod_unfold Let_def)

lemma write_reg: "SFlash_Write_Reg ct' m i bs n (emb c) = apsnd emb (SFlash_Write_Reg ct m i bs n c)"
  by (simp add: SFlash_Write_Reg_def SFlash_Write_Reg_With_Cmd_def send poll_chip_busy Let_def)

lemma qspi_enable: "SFlash_Qspi_Enable ct' m (emb c) = apsnd emb (SFlash_Qspi_Enable ct m c)"
  by (simp add: SFlash_Qspi_Enable_def write_enable write_reg read_reg case_prod_unfold Let_def)

lemma ask: "sf_ask ct' cmd (emb c) = apsnd emb (sf_ask ct cmd c)"
  by (simp add: sf_ask_def send poll_busy buf case_prod_unfold Let_def)

lemma mode_enter: "mode_enter ct' m (emb c) = emb (mode_enter ct m c)"
  by (simp add: mode_enter_def SFlash_Reset_Continue_Read_def SFlash_Software_Reset_def
      SFlash_DisableBurstWrap_def send delay poll_chip_busy qspi_enable case_prod_unfold Let_def)

lemma erase_block:
  "sf_erase_block ct' cfg op asize a t (emb c) = apsnd emb (sf_erase_block ct cfg op asize a t c)"
  by (simp add: sf_erase_block_def write_enable poll_chip_busy send case_prod_unfold Let_def prod_eq_iff)

lemma erase_step:
  "sf_erase_step ct' cfg s e (emb c) = apsnd (apsnd emb) (sf_erase_step ct cfg s e c)"
  by (simp add: sf_erase_step_def SFlash_Blk64_Erase_def SFlash_Blk32_Erase_def SFlash_Sector_Erase_def
      erase_block case_prod_unfold Let_def)

lemma erase:
  assumes "SFlash_Erase ct cfg s e c = Some y"
  shows "SFlash_Erase ct' cfg s e (emb c) = Some (apsnd emb y)"
proof -
  have "ct = ct \<longrightarrow> SFlash_Erase ct' cfg s e (emb c) = Some (apsnd emb y)"
  proof (rule SFlash_Erase.raw_induct [OF _ assms,
        of "\<lambda>ct0 cfg s e c y. ct0 = ct \<longrightarrow> SFlash_Erase ct' cfg s e (emb c) = Some (apsnd emb y)"])
    fix f ct0 cfg s e c y
    assume ih: "\<And>ct0 cfg s e c y. f ct0 cfg s e c = Some y \<Longrightarrow>
        ct0 = ct \<longrightarrow> SFlash_Erase ct' cfg s e (emb c) = Some (apsnd emb y)"
      and body: "(if s \<le> e then let (r, s1, c1) = sf_erase_step ct0 cfg s e c
          in if r \<noteq> SUCCESS then Some (ERROR, c1) else f ct0 cfg s1 e c1
        else Some (SUCCESS, c)) = Some y"
    obtain r1 s1 c1 where st: "sf_erase_step ct cfg s e c = (r1, s1, c1)"
      by (cases "sf_erase_step ct cfg s e c") auto
    show "ct0 = ct \<longrightarrow> SFlash_Erase ct' cfg s e (emb c) = Some (apsnd emb y)"
      using body ih [of ct cfg s1 e c1 y] st erase_step [of cfg s e c]
      by (subst SFlash_Erase.simps) (auto split: if_splits)
  qed
  then show ?thesis by blast
qed

lemma program_loop:
  "sf_program_loop ct' cfg op cmd a bs (emb c) = apsnd emb (sf_program_loop ct cfg op cmd a bs c)"
proof (induction "length bs" arbitrary: a bs c rule: less_induct)
  case less
  define k where "k = min (unat (cfg_pageSize cfg) - unat a mod unat (cfg_pageSize cfg)) (length bs)"
  define cmd1 where "cmd1 = cmd\<lparr>cmdBuf0 := sf_cmd_word op a, nbData := word_of_nat k\<rparr>"
  obtain r1 c1 where we: "SFlash_Write_Enable ct cfg c = (r1, c1)" by fastforce
  obtain r2 c2 where p: "sf_poll (SFlash_Busy ct cfg) (sc_delay ct 100) (unat (cfg_timePagePgm cfg) * 20)
      (sc_send ct cmd1 (take k bs) c1) = (r2, c2)" by fastforce
  have we': "SFlash_Write_Enable ct' cfg (emb c) = (r1, emb c1)" by (simp add: write_enable we)
  have p': "sf_poll (SFlash_Busy ct' cfg) (sc_delay ct' 100) (unat (cfg_timePagePgm cfg) * 20)
      (sc_send ct' cmd1 (take k bs) (emb c1)) = (r2, emb c2)" by (simp add: send poll_chip_busy p)
  note un = sf_program_loop.simps [where op = op and cmd = cmd and addr = a and data = bs and cfg = cfg,
      unfolded Let_def, folded k_def, folded cmd1_def]
  have ih: "bs \<noteq> [] \<Longrightarrow> cfg_pageSize cfg \<noteq> 0 \<Longrightarrow>
      sf_program_loop ct' cfg op cmd (a + word_of_nat k) (drop k bs) (emb c2)
        = apsnd emb (sf_program_loop ct cfg op cmd (a + word_of_nat k) (drop k bs) c2)"
    by (rule less.hyps) (auto simp: k_def min_def unat_gt_0 not_le)
  show ?case
    using ih by (simp add: un [of ct' "emb c"] un [of ct c] we we' p p' case_prod_unfold)
qed

lemma read_loop: "sf_read_loop ct' op cmd a n (emb c) = apsnd (apsnd emb) (sf_read_loop ct op cmd a n c)"
proof (induction n arbitrary: a c rule: less_induct)
  case (less n)
  define k where "k = min n FLASH_CTRL_BUF_SIZE"
  define cmd1 where "cmd1 = cmd\<lparr>cmdBuf0 := sf_cmd_word op a,
    nbData := word_of_nat (if n \<ge> FLASH_CTRL_BUF_SIZE then FLASH_CTRL_BUF_SIZE else (k + 3) div 4 * 4)\<rparr>"
  obtain r1 c1 where p: "sf_poll (sc_busy ct) id (SFCTRL_BUSY_STATE_TIMEOUT - 1) (sc_send ct cmd1 [] c) = (r1, c1)"
    by fastforce
  have p': "sf_poll (sc_busy ct') id (SFCTRL_BUSY_STATE_TIMEOUT - 1) (sc_send ct' cmd1 [] (emb c)) = (r1, emb c1)"
    using p by (simp add: send poll_busy)
  note un = sf_read_loop.simps [where op = op and cmd = cmd and addr = a and n = n, folded k_def, unfolded Let_def,
      folded cmd1_def]
  have ih: "n \<noteq> 0 \<Longrightarrow> sf_read_loop ct' op cmd (a + word_of_nat k) (n - k) (emb c1)
      = apsnd (apsnd emb) (sf_read_loop ct op cmd (a + word_of_nat k) (n - k) c1)"
    by (rule less.IH) (simp add: k_def FLASH_CTRL_BUF_SIZE_def)
  show ?case
    by (simp add: un [of ct' "emb c"] un [of ct c] p [unfolded One_nat_def] p' [unfolded One_nat_def] ih buf
        case_prod_unfold)
qed

lemma program: "SFlash_Program ct' cfg io a bs (emb c) = apsnd emb (SFlash_Program ct cfg io a bs c)"
  by (simp add: SFlash_Program_def program_loop)

lemma read: "SFlash_Read ct' cfg io cont a n (emb c) = apsnd (apsnd emb) (SFlash_Read ct cfg io cont a n c)"
  by (simp add: SFlash_Read_def read_loop split: option.split)

lemma mode_leave: "mode_leave ct' m io (emb c) = emb (mode_leave ct m io c)"
  by (simp add: mode_leave_def SFlash_SetBurstWrap_def send read case_prod_unfold Let_def)

end

text \<open>
  The system bus view: the states in which a command reaches the chip.  In them the whole
  controller is an image of the bare one.
\<close>

definition sahb_state :: "('c, 'z) sf_state_scheme \<Rightarrow> 'c \<Rightarrow> ('c, 'z) sf_state_scheme" where
  "sahb_state st c = st\<lparr>ss_chip := c, ss_owner := SF_CTRL_OWNER_SAHB\<rparr>"

interpretation sahb: ctrl_embed ct "full_ctrl ct" "sahb_state st" for ct st
  by unfold_locales (simp_all add: full_ctrl_def sahb_state_def case_prod_unfold prod_eq_iff Let_def)

lemma full_poll:
  "sf_poll (sc_busy (full_ctrl ct)) id l st
     = apsnd (\<lambda>c. st\<lparr>ss_chip := c\<rparr>) (sf_poll (sc_busy ct) id l (ss_chip st))"
proof -
  have "sf_poll (sc_busy (full_ctrl ct)) id l (st\<lparr>ss_chip := c\<rparr>)
     = apsnd (\<lambda>c. st\<lparr>ss_chip := c\<rparr>) (sf_poll (sc_busy ct) id l c)" for c
    by (rule sf_poll_embed [where emb = "\<lambda>c. st\<lparr>ss_chip := c\<rparr>"])
      (simp_all add: full_ctrl_def case_prod_unfold prod_eq_iff Let_def)
  from this [of "ss_chip st"] show ?thesis by simp
qed

text \<open>What the two sequences do to the chip, the waiting of \<open>SF_Ctrl_Set_Owner\<close> included.\<close>

definition ctrl_idle :: "'c sf_ctrl \<Rightarrow> 'c \<Rightarrow> 'c" where
  "ctrl_idle ct c = snd (sf_poll (sc_busy ct) id (SF_CTRL_BUSY_STATE_TIMEOUT - 1) c)"

definition chip_enter :: "'c sf_ctrl \<Rightarrow> spi_cfg \<Rightarrow> 'c \<Rightarrow> 'c" where
  "chip_enter ct m c = mode_enter ct m (ctrl_idle ct c)"

definition chip_leave :: "'c sf_ctrl \<Rightarrow> spi_cfg \<Rightarrow> 'c \<Rightarrow> 'c" where
  "chip_leave ct m c =
     (let c1 = ctrl_idle ct (mode_leave ct m (cfg_ioMode m AND 0x0f) c)
      in if idbus_cmd m (cfg_ioMode m AND 0x0f) True 0 32 = None then c1 else ctrl_idle ct c1)"

text \<open>
  The controller as the data path of \<open>Flash\<close> sees it, with the sequences filled in, and the
  state that is handed back to the caller: the instruction bus owns the controller again, the
  image offset, the AES enable bit and the cache are as they were.
\<close>

definition chip_view :: "'c sf_ctrl \<Rightarrow> spi_cfg \<Rightarrow> 'c sf_ctrl" where
  "chip_view ct m = ct\<lparr>sc_save := chip_enter ct m, sc_restore := chip_leave ct m\<rparr>"

definition handed_back ::
  "spi_cfg \<Rightarrow> ('c, 'z) sf_state_scheme \<Rightarrow> 'c \<Rightarrow> ('c, 'z) sf_state_scheme" where
  "handed_back m st c =
     st\<lparr>ss_chip := c, ss_owner := SF_CTRL_OWNER_IAHB, ss_aesEnable := ss_aes st,
       ss_icache := (case idbus_cmd m (cfg_ioMode m AND 0x0f) True 0 32 of
                       None \<Rightarrow> ss_icache st | Some i \<Rightarrow> i)\<rparr>"

interpretation viewed: ctrl_embed ct "chip_view ct m" "\<lambda>c. c" for ct m
  by unfold_locales (simp_all add: chip_view_def prod_eq_iff)

interpretation unviewed: ctrl_embed "chip_view ct m" ct "\<lambda>c. c" for ct m
  by unfold_locales (simp_all add: chip_view_def prod_eq_iff)

lemma apsnd_self [simp]: "apsnd (\<lambda>c. c) p = p"
  by (cases p) simp

section \<open>Frames around an operation\<close>

text \<open>
  A controller whose transfers end: whatever was sent last, it is idle before the busy count
  runs out.  Under it the frames act on the registers alone.
\<close>

locale prompt_ctrl =
  fixes ct :: "'c sf_ctrl"
  assumes ctrl_ends: "fst (sf_poll (sc_busy ct) id (SF_CTRL_BUSY_STATE_TIMEOUT - 1) c) = SUCCESS"
begin

lemma set_owner:
  "SF_Ctrl_Set_Owner ct owner st = st\<lparr>ss_chip := ctrl_idle ct (ss_chip st), ss_owner := owner\<rparr>"
  using ctrl_ends [of "ss_chip st"]
  by (simp add: SF_Ctrl_Set_Owner_def full_poll ctrl_idle_def case_prod_unfold Let_def)

lemma icache_set:
  "ss_owner st = SF_CTRL_OWNER_IAHB \<Longrightarrow> SF_Ctrl_Flash_Read_Icache_Set ct cmd v st
     = st\<lparr>ss_chip := ctrl_idle ct (ss_chip st), ss_icache := (cmd, v)\<rparr>"
  using ctrl_ends [of "ss_chip st"]
  by (simp add: SF_Ctrl_Flash_Read_Icache_Set_def full_poll ctrl_idle_def case_prod_unfold Let_def)

lemma sahb_sels [simp]: "ss_chip (sahb_state st c) = c" "ss_offset (sahb_state st c) = ss_offset st"
  by (simp_all add: sahb_state_def)

lemma state_save:
  "XIP_SFlash_State_Save ct m st = (ss_offset st, sahb_state (st\<lparr>ss_offset := 0\<rparr>) (chip_enter ct m (ss_chip st)))"
proof -
  have "SF_Ctrl_Set_Owner ct SF_CTRL_OWNER_SAHB st = sahb_state st (ctrl_idle ct (ss_chip st))"
    by (simp add: set_owner sahb_state_def)
  then show ?thesis
    by (simp add: XIP_SFlash_State_Save_def sahb.mode_enter chip_enter_def)
      (simp add: sahb_state_def)
qed

lemma state_restore:
  "XIP_SFlash_State_Restore ct m (cfg_ioMode m AND 0x0f) offset (sahb_state st c)
     = st\<lparr>ss_chip := chip_leave ct m c, ss_owner := SF_CTRL_OWNER_IAHB, ss_offset := offset,
         ss_icache := (case idbus_cmd m (cfg_ioMode m AND 0x0f) True 0 32 of
                         None \<Rightarrow> ss_icache st | Some i \<Rightarrow> i)\<rparr>"
proof -
  have "(sahb_state st c)\<lparr>ss_offset := offset\<rparr> = sahb_state (st\<lparr>ss_offset := offset\<rparr>) c"
    by (simp add: sahb_state_def)
  then show ?thesis
    by (simp add: XIP_SFlash_State_Restore_def sahb.mode_leave SFlash_Set_IDbus_Cfg_def set_owner
        icache_set chip_leave_def Let_def split: option.split)
      (simp add: sahb_state_def)
qed

lemma opt_enter: "XIP_SFlash_Opt_Enter st = st\<lparr>ss_aesEnable := ss_aes st, ss_aes := False\<rparr>"
  by (simp add: XIP_SFlash_Opt_Enter_def Let_def)

text \<open>An operation that acts on the chip like \<open>op\<close> acts like it under the frames.\<close>

lemma hal_locked_eq:
  assumes "\<And>s. op' (sahb_state s (chip_enter ct m (ss_chip st))) = (r, sahb_state s c)"
  shows "hal_locked ct m op' st = (r, handed_back m st (chip_leave ct m c))"
  using assms
  by (auto simp: hal_locked_def xip_locked_def opt_enter state_save state_restore handed_back_def
      XIP_SFlash_Opt_Exit_def intro!: sf_state.equality split: option.split)

end

section \<open>A chip under the whole controller\<close>

text \<open>A chip as in \<open>nor_chip\<close> with a sound configuration, behind such a controller.\<close>

locale nor_modes = nor_chip ct "base_cfg m" mem wel + prompt_ctrl ct
  for ct :: "'c sf_ctrl" and m :: spi_cfg and mem :: "'c \<Rightarrow> nat \<Rightarrow> u8" and wel :: "'c \<Rightarrow> bool" +
  assumes sound: "cfg_sound m"
begin

lemma full_write:
  "hal_flash_write ct m a bs st
     = apsnd (handed_back m st) (flash_write (chip_view ct m) (base_cfg m) a bs (ss_chip st))"
proof -
  obtain r c where p: "SFlash_Program ct (base_cfg m) (cfg_ioMode m AND 0x0f) a bs
      (chip_enter ct m (ss_chip st)) = (r, c)" by fastforce
  have "hal_flash_write ct m a bs st = (r, handed_back m st (chip_leave ct m c))"
    unfolding hal_flash_write_def by (rule hal_locked_eq) (simp add: sahb.program p)
  then show ?thesis
    by (simp add: flash_write_def XIP_SFlash_Write_Need_Lock_def viewed.program p)
      (simp add: chip_view_def p)
qed

lemma full_read:
  "hal_flash_read ct m a n st
     = (let (r, bs, c) = flash_read (chip_view ct m) (base_cfg m) a n (ss_chip st)
        in ((r, bs), handed_back m st c))"
proof -
  obtain r bs c where p: "SFlash_Read ct (base_cfg m) (cfg_ioMode m AND 0x0f) False a n
      (chip_enter ct m (ss_chip st)) = (r, bs, c)" by (metis prod_cases3)
  have "hal_flash_read ct m a n st = ((r, bs), handed_back m st (chip_leave ct m c))"
    unfolding hal_flash_read_def by (rule hal_locked_eq) (simp add: sahb.read p)
  then show ?thesis
    by (simp add: flash_read_def XIP_SFlash_Read_Need_Lock_def viewed.read p)
      (simp add: chip_view_def p)
qed

lemma full_erase:
  fixes st :: "('c, 'z) sf_state_scheme"
  assumes "flash_erase (chip_view ct m) (base_cfg m) a n (ss_chip st) = Some (r, c)"
  shows "hal_flash_erase ct m a n st = Some (r, handed_back m st c)"
proof -
  obtain c1 where e: "SFlash_Erase (chip_view ct m) (base_cfg m) a (a + n - 1) (chip_enter ct m (ss_chip st))
      = Some (r, c1)" and c: "c = chip_leave ct m c1"
    using assms by (auto simp: flash_erase_def XIP_SFlash_Erase_Need_Lock_def chip_view_def)
  have "SFlash_Erase ct (base_cfg m) a (a + n - 1) (chip_enter ct m (ss_chip st)) = Some (r, c1)"
    using unviewed.erase [OF e] by simp
  then have "SFlash_Erase (full_ctrl ct) (base_cfg m) a (a + n - 1)
      (sahb_state s (chip_enter ct m (ss_chip st))) = Some (r, sahb_state s c1)"
    for s :: "('c, 'z) sf_state_scheme"
    using sahb.erase by fastforce
  then show ?thesis
    by (auto simp: hal_flash_erase_def opt_enter state_save state_restore handed_back_def c
      XIP_SFlash_Opt_Exit_def intro!: sf_state.equality split: option.split)
qed

end

text \<open>None of the mode commands changes a cell.\<close>

lemma opcode_word: "cmdBuf0 cmd = sf_cmd_word op 0 \<Longrightarrow> sf_opcode cmd = op"
  using sf_cmd_word_simps(1) [of 0] by simp

lemma opcode_replicate: "cmdBuf0 cmd = rd32 (replicate 4 op) 0 \<Longrightarrow> sf_opcode cmd = op"
proof -
  have "ucast (drop_bit 24 (rd32 (replicate 4 op) 0)) = op"
    by (rule bit_word_eqI) (auto simp: rd32_def bit_simps dest: bit_imp_le_length)
  then show "cmdBuf0 cmd = rd32 (replicate 4 op) 0 \<Longrightarrow> sf_opcode cmd = op" by (simp add: sf_opcode_def)
qed

context nor_modes
begin

lemma quiet_op: "op \<in> set (quiet_opcodes m) \<Longrightarrow> op \<notin> cfg_modifying (base_cfg m)"
  using sound by (auto simp: cfg_sound_def list_all_iff)

lemma send_quiet: "cmdBuf0 cmd = sf_cmd_word op 0 \<Longrightarrow> op \<in> set (quiet_opcodes m) \<Longrightarrow> mem (sc_send ct cmd bs c) = mem c"
  by (rule quiet_send) (simp add: opcode_word quiet_op)

lemma idle_quiet: "mem (ctrl_idle ct c) = mem c"
  unfolding ctrl_idle_def by (rule poll_quiet) (simp_all add: quiet_busy)

lemma busy_quiet: "mem (snd (SFlash_Busy ct (base_cfg m) c)) = mem c"
  using read_reg_quiet [OF status_cmds(1)] by (simp add: SFlash_Busy_def case_prod_unfold Let_def)

lemma chip_poll_quiet: "mem (snd (sf_poll (SFlash_Busy ct (base_cfg m)) (sc_delay ct us) l c)) = mem c"
  by (rule poll_quiet) (simp_all add: busy_quiet quiet_delay)

lemma we_quiet: "mem (snd (SFlash_Write_Enable ct (base_cfg m) c)) = mem c"
  using write_enable(1) [of c] by (metis prod.collapse)

lemma reg_quiet:
  "cfg_readRegCmd m ! unat i \<in> set (quiet_opcodes m) \<Longrightarrow> mem (snd (SFlash_Read_Reg ct (base_cfg m) i n c)) = mem c"
  "cfg_writeRegCmd m ! unat i \<in> set (quiet_opcodes m) \<Longrightarrow> mem (snd (SFlash_Write_Reg ct m i bs n c)) = mem c"
  using read_reg_quiet [of i] quiet_op
  by (simp_all add: SFlash_Write_Reg_def SFlash_Write_Reg_With_Cmd_def chip_poll_quiet send_quiet Let_def)

lemma qspi_quiet: "mem (snd (SFlash_Qspi_Enable ct m c)) = mem c"
proof -
  have op: "cfg_readRegCmd m ! unat (cfg_qeIndex m) \<in> set (quiet_opcodes m)"
    "cfg_writeRegCmd m ! unat (cfg_qeIndex m) \<in> set (quiet_opcodes m)"
    "cfg_readRegCmd m ! unat (0 :: u8) \<in> set (quiet_opcodes m)" "cfg_readRegCmd m ! unat (1 :: u8) \<in> set (quiet_opcodes m)"
    by (simp_all add: quiet_opcodes_def)
  show ?thesis
    by (simp add: SFlash_Qspi_Enable_def case_prod_unfold Let_def we_quiet reg_quiet(1) [OF op(1)]
        reg_quiet(2) [OF op(2)] reg_quiet(1) [OF op(3)] reg_quiet(1) [OF op(4)])
qed

lemma enter_quiet: "mem (chip_enter ct m c) = mem c"
proof -
  have crr: "mem (SFlash_Reset_Continue_Read ct m c) = mem c" for c
    unfolding SFlash_Reset_Continue_Read_def
    by (rule quiet_send) (simp add: opcode_replicate quiet_op quiet_opcodes_def)
  have rst: "mem (snd (SFlash_Software_Reset ct m c)) = mem c" for c
    by (simp add: SFlash_Software_Reset_def case_prod_unfold Let_def quiet_delay chip_poll_quiet)
      (simp add: send_quiet [OF _ ] chip_poll_quiet quiet_opcodes_def)
  have dis: "mem (SFlash_DisableBurstWrap ct m c) = mem c" for c
    unfolding SFlash_DisableBurstWrap_def by (rule send_quiet [where op = "cfg_deBurstWrapCmd m"]) (simp_all add: quiet_opcodes_def)
  show ?thesis
    by (simp add: chip_enter_def mode_enter_def crr rst dis qspi_quiet idle_quiet Let_def)
qed

lemma read_loop_quiet:
  assumes "op \<in> set (quiet_opcodes m)"
  shows "mem (snd (snd (sf_read_loop ct op cmd 0 4 c))) = mem c"
proof -
  have "mem (snd (sf_poll (sc_busy ct) id l c)) = mem c" for l c
    by (rule poll_quiet) (simp_all add: quiet_busy)
  then show ?thesis
    using assms by (subst sf_read_loop.simps, subst sf_read_loop.simps)
      (simp add: case_prod_unfold Let_def FLASH_CTRL_BUF_SIZE_def send_quiet)
qed

lemma leave_quiet: "mem (chip_leave ct m c) = mem c"
proof -
  have set: "mem (SFlash_SetBurstWrap ct m c) = mem c" for c
    unfolding SFlash_SetBurstWrap_def by (simp add: send_quiet quiet_opcodes_def)
  have "op \<in> set (quiet_opcodes m)"
    if "sf_read_cmd (base_cfg m) (cfg_ioMode m AND 0x0f) True = Some (op, cmd)" for op cmd
    using that by (auto simp: sf_read_cmd_def quiet_opcodes_def Let_def split: if_splits)
  then have "mem (mode_leave ct m (cfg_ioMode m AND 0x0f) c) = mem c"
    by (auto simp: mode_leave_def SFlash_Read_def set read_loop_quiet case_prod_unfold Let_def split: option.split)
  then show ?thesis by (simp add: chip_leave_def idle_quiet Let_def)
qed

end

sublocale nor_modes < view: nor_chip "chip_view ct m" "base_cfg m" mem wel
proof -
  have fields: "sc_send (chip_view ct m) = sc_send ct" "sc_busy (chip_view ct m) = sc_busy ct"
    "sc_buf (chip_view ct m) = sc_buf ct" "sc_delay (chip_view ct m) = sc_delay ct"
    "sc_save (chip_view ct m) = chip_enter ct m" "sc_restore (chip_view ct m) = chip_leave ct m"
    by (simp_all add: chip_view_def)
  have busy: "SFlash_Busy (chip_view ct m) cfg = SFlash_Busy ct cfg" for cfg
    using viewed.chip_busy by fastforce
  show "nor_chip (chip_view ct m) (base_cfg m) mem wel"
    using nor_chip_axioms unfolding nor_chip_def fields busy enter_quiet leave_quiet
    by (elim conjE) (intro conjI; (assumption | rule refl allI)+)
qed

lemma handed_back_chip [simp]: "ss_chip (handed_back m st c) = c"
  by (simp add: handed_back_def)

context nor_modes
begin

text \<open>The three operations registered with the partition code, by those of the data path.\<close>

lemma full_ops:
  "fl_read (full_flash_ops ct m) a buf st
     = fl_read (hal_flash_ops (chip_view ct m) (base_cfg m)) a buf (ss_chip st)"
  "fl_write (full_flash_ops ct m) a bs st
     = apsnd (handed_back m st) (fl_write (hal_flash_ops (chip_view ct m) (base_cfg m)) a bs (ss_chip st))"
  by (simp_all add: full_flash_ops_def hal_flash_ops_def full_read full_write case_prod_unfold Let_def)

lemma full_erase_returns:
  assumes "0 < n" "unat a + unat n \<le> 2 ^ 24"
  obtains r c where "flash_erase (chip_view ct m) (base_cfg m) a n (ss_chip st) = Some (r, c)"
    "hal_flash_erase ct m a n st = Some (r, handed_back m st c)"
  using view.flash_erase_range [OF assms, of "ss_chip st"] full_erase by blast

lemma full_ops_erase:
  assumes "0 < n" "unat a + unat n \<le> 2 ^ 24"
  shows "fl_erase (full_flash_ops ct m) a n st
     = apsnd (handed_back m st) (fl_erase (hal_flash_ops (chip_view ct m) (base_cfg m)) a n (ss_chip st))"
  by (rule full_erase_returns [OF assms, of st]) (simp add: full_flash_ops_def hal_flash_ops_def)

lemma full_device: "flash_device (full_flash_ops ct m) (\<lambda>st. mem (ss_chip st))"
proof (unfold_locales, goal_cases)
  case (1 a buf f)
  then show ?case by (simp add: full_ops view.hal.read_cells)
next
  case (2 a n f f' x)
  then show ?case
    using view.hal.erase_cells [of a n "ss_chip f" _ x] by (auto simp: full_ops_erase apsnd_def map_prod_def split: prod.splits)
next
  case (3 a n f r f' x)
  then show ?case
    using view.hal.erase_frame [of a n "ss_chip f" r _ x] by (auto simp: full_ops_erase apsnd_def map_prod_def split: prod.splits)
next
  case (4 a bs f f' i)
  then show ?case
    using view.hal.write_cells [of a bs "ss_chip f" _ i] by (auto simp: full_ops apsnd_def map_prod_def split: prod.splits)
next
  case (5 a bs f r f' x)
  then show ?case
    using view.hal.write_frame [of a bs "ss_chip f" r _ x] by (auto simp: full_ops apsnd_def map_prod_def split: prod.splits)
qed

end

interpretation sim_prompt: prompt_ctrl sim_ctrl
  by unfold_locales (simp add: sim_poll_idle)

text \<open>The simulated chip is the W25Q16DV of the table.\<close>

interpretation sim_modes: nor_modes sim_ctrl flashCfg_Winb_16DV sim_cells sim_wel
proof -
  have b: "base_cfg flashCfg_Winb_16DV = sim_cfg"
    by (simp add: flash_cfg.defs flashCfg_Winb_16DV_def sim_cfg_def)
  show "nor_modes sim_ctrl flashCfg_Winb_16DV sim_cells sim_wel"
    by (intro nor_modes.intro nor_modes_axioms.intro sim_prompt.prompt_ctrl_axioms)
      (simp_all add: b sim.nor_chip_axioms sound_Winb_16DV)
qed

section \<open>The driver as a whole\<close>

text \<open>
  C7: The flash driver implements the contract the partition table relies on: for every chip that
  behaves like the data sheet and every sound configuration, \<open>flash_erase\<close>, \<open>flash_write\<close> and
  \<open>flash_read\<close> with everything around them (the change of the controller's owner, the commands
  that leave and enter continuous reading and burst wrap, reset and quad mode, the image offset
  and the AES bit) form a flash device: reads return the cells, erases set exactly the touched
  sectors, programs clear bits only in their range.
\<close>

theorem flash_driver_refines:
  assumes "nor_modes ct m mem wel"
  shows "flash_device (full_flash_ops ct m) (\<lambda>st. mem (ss_chip st))"
  by (rule nor_modes.full_device [OF assms])

theorem flash_driver_refines_witness:
  "flash_device (full_flash_ops sim_ctrl flashCfg_Winb_16DV) (\<lambda>st. sim_cells (ss_chip st))"
  by (rule flash_driver_refines [OF sim_modes.nor_modes_axioms])

text \<open>
  What code that runs from flash relies on: the instruction bus owns the controller and fetches
  with the read command of the chip, and the image offset, the AES bit and the cache are as
  before the call.
\<close>

definition xip_ready ::
  "spi_cfg \<Rightarrow> ('c, 'z) sf_state_scheme \<Rightarrow> ('c, 'z) sf_state_scheme \<Rightarrow> bool" where
  "xip_ready m st st' \<longleftrightarrow>
     ss_owner st' = SF_CTRL_OWNER_IAHB \<and> Some (ss_icache st') = idbus_cmd m (cfg_ioMode m AND 0x0f) True 0 32
     \<and> ss_offset st' = ss_offset st \<and> ss_aes st' = ss_aes st \<and> ss_l1c st' = ss_l1c st"

lemma idbus_cmd_exists:
  assumes "cfg_sound m"
  shows "\<exists>i. idbus_cmd m (cfg_ioMode m AND 0x0f) b a n = Some i"
proof -
  have "cfg_ioMode m AND 0x0f \<in> {0, 1, 2, 3, 4}"
  proof -
    have "unat (cfg_ioMode m AND 0x0f) \<le> 4" using assms by (simp add: cfg_sound_def word_le_nat_alt)
    then have "unat (cfg_ioMode m AND 0x0f) \<in> {0, 1, 2, 3, 4}" by auto
    then show ?thesis by (auto simp: word_eq_unat)
  qed
  then show ?thesis by (elim insertE emptyE) (auto simp: idbus_cmd_def io_modes Let_def)
qed

lemma handed_back_ready: "cfg_sound m \<Longrightarrow> xip_ready m st (handed_back m st c)"
  using idbus_cmd_exists [of m True 0 32] by (auto simp: xip_ready_def handed_back_def)

context nor_modes
begin

lemma hands_back:
  assumes "0 < n" "unat a + unat n \<le> 2 ^ 24"
  shows "xip_ready m st (snd (hal_flash_write ct m b bs st))" "xip_ready m st (snd (hal_flash_read ct m b k st))"
    "\<exists>r st'. hal_flash_erase ct m a n st = Some (r, st') \<and> xip_ready m st st'"
proof -
  show "xip_ready m st (snd (hal_flash_write ct m b bs st))" "xip_ready m st (snd (hal_flash_read ct m b k st))"
    by (simp_all add: full_write full_read handed_back_ready [OF sound] case_prod_unfold Let_def)
  show "\<exists>r st'. hal_flash_erase ct m a n st = Some (r, st') \<and> xip_ready m st st'"
    by (rule full_erase_returns [OF assms, of st]) (simp add: handed_back_ready [OF sound])
qed

end

definition demo_state :: "sim_chip sf_state" where
  "demo_state = \<lparr>ss_chip = demo_chip, ss_owner = SF_CTRL_OWNER_IAHB, ss_offset = 0x2000, ss_aes = True,
     ss_aesEnable = False, ss_l1c = 0, ss_icache = (sf_cmd_zero, True)\<rparr>"

text \<open>
  C10: Every call of \<open>flash_write\<close>, \<open>flash_read\<close> and \<open>flash_erase\<close> hands the flash back to the
  running program, also when it reports an error: the instruction bus owns the controller with
  the chip's read command set up, and image offset, AES bit and cache are what they were.
\<close>

theorem flash_hands_back:
  assumes "nor_modes ct m mem wel" "0 < n" "unat a + unat n \<le> 2 ^ 24"
  shows "xip_ready m st (snd (hal_flash_write ct m b bs st)) \<and> xip_ready m st (snd (hal_flash_read ct m b k st))
    \<and> (\<exists>r st'. hal_flash_erase ct m a n st = Some (r, st') \<and> xip_ready m st st')"
  using nor_modes.hands_back [OF assms] by blast

theorem flash_hands_back_witness:
  "xip_ready flashCfg_Winb_16DV demo_state (snd (hal_flash_write sim_ctrl flashCfg_Winb_16DV 0x1000 [0x12] demo_state))
   \<and> xip_ready flashCfg_Winb_16DV demo_state (snd (hal_flash_read sim_ctrl flashCfg_Winb_16DV 0x1000 8 demo_state))
   \<and> (\<exists>r st'. hal_flash_erase sim_ctrl flashCfg_Winb_16DV 0x1000 1 demo_state = Some (r, st')
        \<and> xip_ready flashCfg_Winb_16DV demo_state st')"
  by (rule flash_hands_back [OF sim_modes.nor_modes_axioms]) simp_all

end
