(* ===== verification/FlashStatus.thy ===== *)
theory FlashStatus
  imports FlashModes
begin

text \<open>
  The status registers of the flash chip: \<open>SFlash_Qspi_Enable\<close>, and the write protection and
  clearing of \<open>bl702_sflash_ext.c\<close> with their wrappers, on any chip that keeps two registers
  (locales \<open>status_reg\<close> and \<open>status_chip\<close>), and on simulated chips of the tables.
\<close>

section \<open>The operations\<close>

text \<open>\<open>bl702_sflash_ext.c\<close>; the protection levels of \<open>SFlash_Protect_Kh25v40_Type\<close> are 0 to 4.\<close>

definition SFlash_KH25V40_Write_Protect :: "'c sf_ctrl \<Rightarrow> spi_cfg \<Rightarrow> u32 \<Rightarrow> 'c \<Rightarrow> bl_err \<times> 'c" where
  "SFlash_KH25V40_Write_Protect ct m protect c =
     (let b = base_cfg m;
          (r1, c1) = SFlash_Read_Reg ct b 0 1 c;
          stat1 = stat_read 0 0 r1
      in if drop_bit 2 stat1 AND 0xf = protect then (SUCCESS, c1)
         else
           (let stat2 = stat1 OR (push_bit 2 protect AND 0xff);
                (r2, c2) = SFlash_Write_Enable ct b c1
            in if r2 \<noteq> SUCCESS then (ERROR, c2)
               else
                 (let (_, c3) = SFlash_Write_Reg ct m 0 (le32 stat2) 1 c2;
                      (r4, c4) = SFlash_Read_Reg ct b 0 1 c3
                  in (if drop_bit 2 (stat_read stat2 0 r4) AND 0xf = protect then SUCCESS else ERROR, c4))))"

definition is_quad :: "spi_cfg \<Rightarrow> bool" where
  "is_quad m \<longleftrightarrow> cfg_ioMode m AND 0xf = SF_CTRL_QO_MODE \<or> cfg_ioMode m AND 0xf = SF_CTRL_QIO_MODE"

text \<open>The first byte a register read leaves in a variable that was 0.\<close>

definition byte_read :: "bytes option \<Rightarrow> u8" where
  "byte_read r = (case r of None \<Rightarrow> 0 | Some bs \<Rightarrow> hd bs)"

definition SFlash_Clear_Status_Register :: "'c sf_ctrl \<Rightarrow> spi_cfg \<Rightarrow> 'c \<Rightarrow> bl_err \<times> 'c" where
  "SFlash_Clear_Status_Register ct m c =
     (let b = base_cfg m;
          qeValue = (if is_quad m then 1 else 0 :: u32);
          pos = (\<lambda>i k. unat (i :: u8) * 8 + unat (k :: u8));
          (r0, c1) = SFlash_Read_Reg ct b 0 1 c;
          (r1, c2) = SFlash_Read_Reg ct b 1 1 c1;
          readValue = ucast (byte_read r0) OR push_bit 8 (ucast (byte_read r1)) :: u32;
          keep = push_bit (pos (cfg_qeIndex m) (cfg_qeBit m)) 1
                   OR push_bit (pos (cfg_busyIndex m) (cfg_busyBit m)) 1
                   OR push_bit (pos (cfg_wrEnableIndex m) (cfg_wrEnableBit m)) 1
      in if readValue AND NOT keep = 0 then (SUCCESS, c2)
         else
           (let (re, c3) = SFlash_Write_Enable ct b c2
            in if re \<noteq> SUCCESS then (ERROR, c3)
               else if cfg_qeWriteRegLen m = 2 then
                 (SUCCESS, snd (SFlash_Write_Reg ct m 0
                    (le32 (push_bit (pos (cfg_qeIndex m) (cfg_qeBit m)) qeValue)) 2 c3))
               else
                 (let v0 = (if cfg_qeIndex m = 0 then push_bit (unat (cfg_qeBit m)) qeValue else 0);
                      (_, c4) = SFlash_Write_Reg ct m 0 (le32 v0) 1 c3;
                      (re2, c5) = SFlash_Write_Enable ct b c4
                  in if re2 \<noteq> SUCCESS then (ERROR, c5)
                     else
                       (let v1 = (if cfg_qeIndex m = 1 then push_bit (unat (cfg_qeBit m)) qeValue else 0)
                        in (SUCCESS, snd (SFlash_Write_Reg ct m 1 (le32 v1) 1 c5))))))"

definition XIP_SFlash_KH25V40_Write_Protect_Need_Lock ::
  "'c sf_ctrl \<Rightarrow> spi_cfg \<Rightarrow> u32 \<Rightarrow> ('c, 'z) sf_state_scheme \<Rightarrow> bl_err \<times> ('c, 'z) sf_state_scheme" where
  "XIP_SFlash_KH25V40_Write_Protect_Need_Lock ct m protect =
     xip_locked ct m (SFlash_KH25V40_Write_Protect (full_ctrl ct) m protect)"

definition XIP_SFlash_Clear_Status_Register_Need_Lock ::
  "'c sf_ctrl \<Rightarrow> spi_cfg \<Rightarrow> ('c, 'z) sf_state_scheme \<Rightarrow> bl_err \<times> ('c, 'z) sf_state_scheme" where
  "XIP_SFlash_Clear_Status_Register_Need_Lock ct m =
     xip_locked ct m (SFlash_Clear_Status_Register (full_ctrl ct) m)"

definition flash_write_protect_set ::
  "'c sf_ctrl \<Rightarrow> spi_cfg \<Rightarrow> u32 \<Rightarrow> ('c, 'z) sf_state_scheme \<Rightarrow> bl_err \<times> ('c, 'z) sf_state_scheme" where
  "flash_write_protect_set ct m protect =
     hal_locked ct m (SFlash_KH25V40_Write_Protect (full_ctrl ct) m protect)"

definition flash_clear_status_register ::
  "'c sf_ctrl \<Rightarrow> spi_cfg \<Rightarrow> ('c, 'z) sf_state_scheme \<Rightarrow> bl_err \<times> ('c, 'z) sf_state_scheme" where
  "flash_clear_status_register ct m = hal_locked ct m (SFlash_Clear_Status_Register (full_ctrl ct) m)"

section \<open>A chip with status registers\<close>

text \<open>
  What the data sheets say of the registers: a read returns the bits of the register, with the
  busy bit and the write enable latch in the low bits of the first; a write after a write
  enable ends within the time the driver allows and sets the other bits.  The second register
  is written by a command of its own or together with the first.
\<close>

locale status_reg =
  fixes ct :: "'c sf_ctrl" and m :: spi_cfg and regs :: "'c \<Rightarrow> nat \<Rightarrow> u8" and wel :: "'c \<Rightarrow> bool"
  assumes enable_cfg: "cfg_wrEnableIndex m = 0" "cfg_wrEnableBit m = 1" "cfg_wrEnableReadRegLen m = 1"
    and idle_in_time: "fst (sf_poll (sc_busy ct) d 1000 (sc_send ct cmd bs c)) = SUCCESS"
    and read0: "\<lbrakk>sf_opcode cmd = cfg_readRegCmd m ! 0;
      sf_poll (sc_busy ct) d 1000 (sc_send ct cmd bs c) = (SUCCESS, c')\<rbrakk> \<Longrightarrow>
      regs c' = regs c \<and> wel c' = wel c \<and>
      (\<exists>v rest. sc_buf ct c' = v # rest \<and> v AND 0xFC = regs c 0 \<and> bit v 1 = wel c)"
    and enable: "sf_opcode cmd = cfg_writeEnableCmd m \<Longrightarrow>
      regs (sc_send ct cmd bs c) = regs c \<and> wel (sc_send ct cmd bs c)"
    and write0: "\<lbrakk>wel c; sf_opcode cmd = cfg_writeRegCmd m ! 0; nbData cmd = 1\<rbrakk> \<Longrightarrow>
      \<exists>c'. sf_poll (SFlash_Busy ct (base_cfg m)) (sc_delay ct 100) 400 (sc_send ct cmd [v] c) = (SUCCESS, c')
        \<and> regs c' = (regs c)(0 := v AND 0xFC)"
begin

lemma read_reg0:
  "\<exists>c' v. SFlash_Read_Reg ct (base_cfg m) 0 1 c = (Some [v], c') \<and> regs c' = regs c \<and> wel c' = wel c
     \<and> v AND 0xFC = regs c 0 \<and> bit v 1 = wel c"
proof -
  let ?cmd = "sf_cmd_zero\<lparr>cmdBuf0 := sf_cmd_word (cfg_readRegCmd m ! 0) 0, nbData := 1\<rparr>"
  obtain c' where p: "sf_poll (sc_busy ct) (sc_delay ct 1) 1000 (sc_send ct ?cmd [] c) = (SUCCESS, c')"
    using idle_in_time [of "sc_delay ct 1" ?cmd "[]" c] by (metis prod.collapse)
  moreover have "sf_opcode ?cmd = cfg_readRegCmd m ! 0" by (rule opcode_word) simp
  ultimately show ?thesis
    using read0 [of ?cmd] by (fastforce simp: SFlash_Read_Reg_def)
qed

lemma enabled:
  "\<exists>c'. SFlash_Write_Enable ct (base_cfg m) c = (SUCCESS, c') \<and> regs c' = regs c \<and> wel c'"
proof -
  let ?cmd = "sf_cmd_zero\<lparr>cmdBuf0 := sf_cmd_word (cfg_writeEnableCmd m) 0\<rparr>"
  have e: "regs (sc_send ct ?cmd [] c) = regs c" "wel (sc_send ct ?cmd [] c)"
    using enable [of ?cmd "[]" c] opcode_word [of ?cmd] by simp_all
  obtain c' v where r: "SFlash_Read_Reg ct (base_cfg m) 0 1 (sc_send ct ?cmd [] c) = (Some [v], c')"
    "regs c' = regs c" "wel c'" "bit v 1"
    using read_reg0 [of "sc_send ct ?cmd [] c"] e by auto
  have "bit (reg_stat (Some [v])) 1 = bit v 1"
    by (simp add: reg_stat_def rd32_def patch_def bit_simps)
  with r show ?thesis by (simp add: SFlash_Write_Enable_def enable_cfg)
qed

lemma written0:
  assumes "wel c"
  shows "\<exists>c'. SFlash_Write_Reg ct m 0 (v # bs) 1 c = (SUCCESS, c') \<and> regs c' = (regs c)(0 := v AND 0xFC)"
proof -
  let ?cmd = "sf_cmd_zero\<lparr>cmdBuf0 := sf_cmd_word (cfg_writeRegCmd m ! 0) 0, rwFlag := SF_CTRL_WRITE, nbData := 1\<rparr>"
  have "sf_opcode ?cmd = cfg_writeRegCmd m ! 0" by (rule opcode_word) simp
  with write0 [OF assms, of ?cmd v] show ?thesis
    by (simp add: SFlash_Write_Reg_def SFlash_Write_Reg_With_Cmd_def)
qed

end

section \<open>Write protection\<close>

definition protection :: "u8 \<Rightarrow> u8" where "protection r = drop_bit 2 r AND mask 4"

lemma mask4: "(0xf :: 'a::len word) = mask 4"
  by (simp add: mask_eq_exp_minus_1)

lemma mask_FC: "(0xFC :: u8) = NOT (mask 2)"
  by (simp add: mask_eq_exp_minus_1)

lemma stat_read_byte: "stat_read 0 0 (Some [v]) = ucast v"
  by (simp add: stat_read_def le32_def patch_def rd32_def)

lemma stat_read_over: "drop_bit 2 (stat_read w 0 (Some [v])) AND mask 4 = ucast (protection v)"
  by (rule bit_word_eqI)
    (auto simp: protection_def stat_read_def le32_def patch_def rd32_def bit_simps)

lemma protection_FC: "protection (v AND NOT (mask 2)) = protection v"
  by (rule bit_word_eqI) (auto simp: protection_def bit_simps)

lemma mask8: "(0xff :: 'a::len word) = mask 8"
  by (simp add: mask_eq_exp_minus_1)

lemma protection_or:
  "protection (ucast (ucast v OR (push_bit 2 (ucast p :: u32) AND mask 8))) = protection v OR (p AND mask 4)"
  by (rule bit_word_eqI) (auto simp: protection_def bit_simps)

context status_reg
begin

text \<open>The protection bits after the call are the old ones and the requested ones together.\<close>

lemma write_protect:
  assumes p: "p AND mask 4 = p"
  shows "\<exists>r c'. SFlash_KH25V40_Write_Protect ct m (ucast p) c = (r, c')
    \<and> protection (regs c' 0) = protection (regs c 0) OR p
    \<and> (r = SUCCESS \<longleftrightarrow> protection (regs c 0) OR p = p)"
proof -
  obtain c1 v where r1: "SFlash_Read_Reg ct (base_cfg m) 0 1 c = (Some [v], c1)" "regs c1 = regs c"
    "v AND 0xFC = regs c 0" using read_reg0 [of c] by auto
  have pv: "protection v = protection (regs c 0)"
    using protection_FC [of v] r1(3) by (simp add: mask_FC)
  have u: "ucast a = (ucast b :: u32) \<longleftrightarrow> a = b" for a b :: u8 by (rule ucast_u8_inj)
  show ?thesis
  proof (cases "protection v = p")
    case True
    then have "SFlash_KH25V40_Write_Protect ct m (ucast p) c = (SUCCESS, c1)"
      using stat_read_over [of 0 v] by (simp add: SFlash_KH25V40_Write_Protect_def r1(1) mask4)
    with True pv r1(2) show ?thesis by simp
  next
    case False
    define w where "w = ucast v OR (push_bit 2 (ucast p :: u32) AND mask 8)"
    obtain c2 where e: "SFlash_Write_Enable ct (base_cfg m) c1 = (SUCCESS, c2)" "regs c2 = regs c1" "wel c2"
      using enabled [of c1] by auto
    obtain c3 where wr: "SFlash_Write_Reg ct m 0 (le32 w) 1 c2 = (SUCCESS, c3)"
      "regs c3 = (regs c2)(0 := ucast w AND 0xFC)"
      using written0 [OF e(3), of "ucast w" "tl (le32 w)"] by (auto simp: le32_def)
    obtain c4 v4 where r4: "SFlash_Read_Reg ct (base_cfg m) 0 1 c3 = (Some [v4], c4)" "regs c4 = regs c3"
      "v4 AND 0xFC = regs c3 0" using read_reg0 [of c3] by auto
    have pw: "protection (regs c4 0) = protection (regs c 0) OR p"
      using protection_or [of v p] r4(2) wr(2) pv p by (simp add: w_def mask_FC protection_FC)
    have "protection v4 = protection (regs c4 0)"
      using protection_FC [of v4] r4(2,3) by (simp add: mask_FC)
    with pw have p4: "protection v4 = protection (regs c 0) OR p" by simp
    have "SFlash_KH25V40_Write_Protect ct m (ucast p) c = (if protection v4 = p then SUCCESS else ERROR, c4)"
      using False stat_read_over [of 0 v] stat_read_over [of w v4]
      by (simp add: SFlash_KH25V40_Write_Protect_def r1(1) mask4 mask8 u stat_read_byte e(1)
          flip: w_def) (simp add: wr(1) r4(1) u)
    with pw p4 show ?thesis by simp
  qed
qed

end

section \<open>Quad mode\<close>

text \<open>The bits of a register that a write can change.\<close>

definition writable :: "nat \<Rightarrow> u8" where "writable i = (if i = 0 then 0xFC else 0xFF)"

lemma writable_bits: "bit (v AND writable i) n \<longleftrightarrow> bit v n \<and> (i = 0 \<longrightarrow> 2 \<le> n)"
proof (cases "i = 0")
  case True
  then show ?thesis by (auto simp: writable_def mask_FC bit_simps dest: bit_imp_le_length)
qed (simp add: writable_def and_0xFF_u8)

lemma bit_writable: "n < 8 \<Longrightarrow> bit (writable i) n \<longleftrightarrow> (i = 0 \<longrightarrow> 2 \<le> n)"
  using writable_bits [of "- 1" i n] by (simp add: bit_simps)

lemma writable_bit: "k < 8 \<Longrightarrow> (i = 0 \<longrightarrow> 2 \<le> k) \<Longrightarrow> bit (v AND writable i) k = bit v k"
  by (auto simp: writable_bits)

lemma bit_stat_read: "k < 8 \<Longrightarrow> bit (stat_read w 0 (Some [v])) k = bit v k"
  by (auto simp: stat_read_def le32_def patch_def rd32_def bit_simps)

lemma le32_byte: "le32 (ucast (v :: u8)) = [v, 0, 0, 0]"
proof -
  have "drop_bit 8 (ucast v :: u32) = 0" "drop_bit 16 (ucast v :: u32) = 0" "drop_bit 24 (ucast v :: u32) = 0"
    by (rule bit_word_eqI; auto simp: bit_simps dest: bit_imp_le_length)+
  moreover have "ucast (ucast v :: u32) = v"
    by (rule bit_word_eqI) (simp add: bit_simps)
  ultimately show ?thesis by (simp add: le32_def)
qed

lemma stat_read_two: "stat_read (stat_read (ucast (v :: u8)) 0 (Some [v0])) 1 (Some [v1]) = ucast v0 OR push_bit 8 (ucast v1)"
  by (simp add: stat_read_def le32_byte patch_def rd32_def)

lemma qe_byte:
  assumes "v AND writable i = r" "k < 8" "i = 0 \<longrightarrow> 2 \<le> k"
  shows "ucast (ucast v OR push_bit k 1 :: u32) AND writable i = set_bit k r"
proof (rule bit_word_eqI)
  fix n
  assume "n < LENGTH(8)"
  then show "bit (ucast (ucast v OR push_bit k 1 :: u32) AND writable i) n = bit (set_bit k r) n"
    using assms(2,3) unfolding assms(1) [symmetric] by (auto simp: bit_writable bit_simps)
qed

lemma qe_word:
  fixes v0 v1 r0 :: u8
  assumes "v0 AND writable 0 = r0" "k < 8" "i = 0 \<and> 2 \<le> k \<or> i = (1::nat)"
  defines "w \<equiv> ucast v0 OR push_bit 8 (ucast v1) OR push_bit (k + 8 * i) 1 :: u32"
  shows "ucast w AND 0xFC = (if i = 0 then set_bit k r0 else r0)"
    "ucast (drop_bit 8 w) = (if i = 0 then v1 else set_bit k v1)"
proof -
  show "ucast w AND 0xFC = (if i = 0 then set_bit k r0 else r0)"
    using assms(2,3) unfolding assms(1) [symmetric]
    by (intro bit_word_eqI) (auto simp: w_def writable_def mask_FC bit_simps)
  show "ucast (drop_bit 8 w) = (if i = 0 then v1 else set_bit k v1)"
    using assms(2,3) by (intro bit_word_eqI) (auto simp: w_def bit_simps dest: bit_imp_le_length)
qed

text \<open>
  What a configuration must say of quad mode: one byte is read, from the first or second
  register; the bit is not one of the busy and write enable bits, or, when the configuration has
  a value for the whole register (\<open>qeData\<close>), that is the second one; and the register is written
  by a command of its own, or together with the other one.
\<close>

definition quad_cfg :: "spi_cfg \<Rightarrow> bool" where
  "quad_cfg m \<longleftrightarrow> cfg_qeReadRegLen m = 1 \<and> cfg_qeBit m < 8 \<and>
     (cfg_qeIndex m = 0 \<and> 2 \<le> cfg_qeBit m \<and> cfg_qeData m = 0 \<or> cfg_qeIndex m = 1) \<and>
     (cfg_qeWriteRegLen m = 1 \<and> (cfg_qeIndex m = 1 \<longrightarrow> cfg_writeRegCmd m ! 1 \<noteq> cfg_writeRegCmd m ! 0)
      \<or> cfg_qeWriteRegLen m = 2 \<and> cfg_writeRegCmd m ! 1 = cfg_writeRegCmd m ! 0)"

text \<open>The value enabling quad mode gives the register, and when the driver takes it as enabled.\<close>

definition quad_on :: "spi_cfg \<Rightarrow> u8 \<Rightarrow> u8" where
  "quad_on m r = (if cfg_qeData m = 0 then set_bit (unat (cfg_qeBit m)) r else cfg_qeData m)"

definition quad_seen :: "spi_cfg \<Rightarrow> u8 \<Rightarrow> bool" where
  "quad_seen m v = (if cfg_qeData m = 0 then bit v (unat (cfg_qeBit m)) else v = cfg_qeData m)"

lemma stat_read_low: "stat_read w 0 (Some [v]) AND mask 8 = ucast v"
  by (rule bit_word_eqI) (auto simp: stat_read_def le32_def patch_def rd32_def bit_simps dest: bit_imp_le_length)

lemma quad_test:
  assumes "cfg_qeBit m < 8"
  shows "qe_is_set m (stat_read w 0 (Some [v])) \<longleftrightarrow> quad_seen m v"
proof -
  have k: "unat (cfg_qeBit m) < 8" using assms by (simp add: word_less_nat_alt)
  have "cfg_qeBit m AND 8 = 0"
  proof (rule bit_word_eqI)
    fix n
    have "bit (8 :: u8) n \<longleftrightarrow> n = 3" if "n < 8" for n
      using that by (auto simp: eval_nat_numeral less_Suc_eq)
    moreover have "unat (drop_bit 3 (cfg_qeBit m)) = 0" using k by (simp add: drop_bit_eq_div unat_div)
    then have "drop_bit 3 (cfg_qeBit m) = 0" by (simp add: unat_eq_0)
    then have "\<not> bit (drop_bit 3 (cfg_qeBit m)) 0" by simp
    then have "\<not> bit (cfg_qeBit m) 3" by (simp add: bit_simps del: bit_0)
    moreover assume "n < LENGTH(8)"
    ultimately show "bit (cfg_qeBit m AND 8) n = bit 0 n" by (auto simp: bit_simps)
  qed
  then show ?thesis
    using bit_stat_read [OF k, of w v]
    by (simp add: qe_is_set_def quad_seen_def mask8 stat_read_low ucast_u8_inj)
qed

lemma quad_seen_on:
  assumes "v AND writable i = r" "cfg_qeBit m < 8" "i = 0 \<longrightarrow> 2 \<le> unat (cfg_qeBit m) \<and> cfg_qeData m = 0"
  shows "quad_seen m v \<Longrightarrow> quad_on m r = r" "r = quad_on m r' \<Longrightarrow> quad_seen m v"
proof -
  have k: "unat (cfg_qeBit m) < 8" "i = 0 \<longrightarrow> 2 \<le> unat (cfg_qeBit m)" using assms(2,3) by (simp_all add: word_less_nat_alt)
  have b: "bit v (unat (cfg_qeBit m)) = bit r (unat (cfg_qeBit m))" using writable_bit [OF k] assms(1) by metis
  have e: "v = r" if "cfg_qeData m \<noteq> 0" using that assms(1,3) by (cases "i = 0") (simp_all add: writable_def and_0xFF_u8)
  show "quad_seen m v \<Longrightarrow> quad_on m r = r"
    using b e by (cases "cfg_qeData m = 0") (auto simp: quad_seen_def quad_on_def bit_simps intro!: bit_word_eqI)
  show "r = quad_on m r' \<Longrightarrow> quad_seen m v"
    using b e k(1) by (cases "cfg_qeData m = 0") (auto simp: quad_seen_def quad_on_def bit_simps)
qed

text \<open>What is written, when the register is written alone and when both are.\<close>

lemma quad_byte:
  assumes "v AND writable i = r" "quad_cfg m" "i = unat (cfg_qeIndex m)" "cfg_qeWriteRegLen m = 1"
  shows "ucast (qe_value m (ucast v)) AND writable i = quad_on m r"
proof (cases "cfg_qeData m = 0")
  case True
  have k: "unat (cfg_qeBit m) < 8" "i = 0 \<longrightarrow> 2 \<le> unat (cfg_qeBit m)"
    using assms(2,3) by (auto simp: quad_cfg_def word_less_nat_alt word_le_nat_alt)
  then show ?thesis using qe_byte [OF assms(1) k] True assms(4) by (simp add: qe_value_def quad_on_def)
next
  case False
  then have "i = 1" using assms(2,3) by (auto simp: quad_cfg_def)
  moreover have "ucast (ucast (cfg_qeData m) :: u32) = cfg_qeData m" by (rule bit_word_eqI) (simp add: bit_simps)
  ultimately show ?thesis using False assms(4) by (simp add: qe_value_def quad_on_def writable_def and_0xFF_u8)
qed

lemma quad_word:
  fixes v0 v1 r0 :: u8
  assumes "v0 AND writable 0 = r0" "quad_cfg m" "i = unat (cfg_qeIndex m)" "cfg_qeWriteRegLen m = 2"
  defines "w \<equiv> qe_value m (ucast v0 OR push_bit 8 (ucast v1))"
  shows "ucast w AND 0xFC = (if i = 0 then quad_on m r0 else r0)"
    "ucast (drop_bit 8 w) = (if i = 0 then v1 else quad_on m v1)"
proof -
  define k where "k = unat (cfg_qeBit m)"
  have k: "k < 8" "i = 0 \<and> 2 \<le> k \<and> cfg_qeData m = 0 \<or> i = 1"
    using assms(2,3) by (auto simp: k_def quad_cfg_def word_less_nat_alt word_le_nat_alt)
  have "ucast w AND 0xFC = (if i = 0 then quad_on m r0 else r0) \<and>
      ucast (drop_bit 8 w) = (if i = 0 then v1 else quad_on m v1)"
  proof (cases "cfg_qeData m = 0")
    case True
    then have "w = ucast v0 OR push_bit 8 (ucast v1) OR push_bit (k + 8 * i) 1"
      by (simp add: w_def qe_value_def assms(3,4) k_def or.assoc)
    then show ?thesis using qe_word [OF assms(1) k(1), of i v1] k(2) True by (auto simp: quad_on_def k_def)
  next
    case False
    then have i: "i = 1" using k(2) by blast
    have w: "w = ((ucast v0 OR push_bit 8 (ucast v1)) AND NOT (push_bit 8 (mask 8))) OR push_bit 8 (ucast (cfg_qeData m))"
      using False i assms(3,4) by (simp add: w_def qe_value_def flip: mask8)
    have "ucast w AND 0xFC = r0"
      unfolding w assms(1) [symmetric] by (rule bit_word_eqI) (auto simp: writable_def mask_FC bit_simps)
    moreover have "ucast (drop_bit 8 w) = cfg_qeData m"
      unfolding w by (rule bit_word_eqI) (auto simp: bit_simps)
    ultimately show ?thesis using False i by (simp add: quad_on_def)
  qed
  then show "ucast w AND 0xFC = (if i = 0 then quad_on m r0 else r0)"
    "ucast (drop_bit 8 w) = (if i = 0 then v1 else quad_on m v1)" by blast+
qed

text \<open>
  A chip with both registers and such a configuration.
\<close>

locale status_chip = status_reg +
  assumes quad: "quad_cfg m"
    and busy_cfg: "cfg_busyIndex m = 0" "cfg_busyBit m = 0"
    and read1: "\<lbrakk>sf_opcode cmd = cfg_readRegCmd m ! 1;
      sf_poll (sc_busy ct) d 1000 (sc_send ct cmd bs c) = (SUCCESS, c')\<rbrakk> \<Longrightarrow>
      regs c' = regs c \<and> wel c' = wel c \<and> (\<exists>rest. sc_buf ct c' = regs c 1 # rest)"
    and write1: "\<lbrakk>cfg_writeRegCmd m ! 1 \<noteq> cfg_writeRegCmd m ! 0; wel c; sf_opcode cmd = cfg_writeRegCmd m ! 1; nbData cmd = 1\<rbrakk> \<Longrightarrow>
      \<exists>c'. sf_poll (SFlash_Busy ct (base_cfg m)) (sc_delay ct 100) 400 (sc_send ct cmd [v] c) = (SUCCESS, c')
        \<and> regs c' = (regs c)(1 := v)"
    and write01: "\<lbrakk>cfg_qeWriteRegLen m = 2; wel c; sf_opcode cmd = cfg_writeRegCmd m ! 0; nbData cmd = 2\<rbrakk> \<Longrightarrow>
      \<exists>c'. sf_poll (SFlash_Busy ct (base_cfg m)) (sc_delay ct 100) 400 (sc_send ct cmd [v, w] c) = (SUCCESS, c')
        \<and> regs c' = (regs c)(0 := v AND 0xFC, 1 := w)"
begin

lemma qe_cfg: "cfg_qeReadRegLen m = 1" "cfg_qeIndex m = 0 \<or> cfg_qeIndex m = 1" "cfg_qeBit m < 8"
    "cfg_qeIndex m = 0 \<Longrightarrow> 2 \<le> cfg_qeBit m \<and> cfg_qeData m = 0"
  and write_cfg: "cfg_qeWriteRegLen m = 1 \<or> (cfg_qeWriteRegLen m = 2 \<and> cfg_writeRegCmd m ! 1 = cfg_writeRegCmd m ! 0)"
    "cfg_qeWriteRegLen m = 1 \<Longrightarrow> cfg_qeIndex m = 1 \<Longrightarrow> cfg_writeRegCmd m ! 1 \<noteq> cfg_writeRegCmd m ! 0"
  using quad by (auto simp: quad_cfg_def)

lemma read_reg:
  assumes "i = 0 \<or> i = 1"
  shows "\<exists>c' v. SFlash_Read_Reg ct (base_cfg m) i 1 c = (Some [v], c') \<and> regs c' = regs c \<and> wel c' = wel c
     \<and> v AND writable (unat i) = regs c (unat i)"
  using assms
proof
  assume i: "i = 0"
  then show ?thesis using read_reg0 [of c] by (auto simp: writable_def)
next
  assume i: "i = 1"
  let ?cmd = "sf_cmd_zero\<lparr>cmdBuf0 := sf_cmd_word (cfg_readRegCmd m ! 1) 0, nbData := 1\<rparr>"
  obtain c' where p: "sf_poll (sc_busy ct) (sc_delay ct 1) 1000 (sc_send ct ?cmd [] c) = (SUCCESS, c')"
    using idle_in_time [of "sc_delay ct 1" ?cmd "[]" c] by (metis prod.collapse)
  moreover have "sf_opcode ?cmd = cfg_readRegCmd m ! 1" by (rule opcode_word) simp
  ultimately show ?thesis
    using read1 [of ?cmd "sc_delay ct 1" "[]" c c'] i by (auto simp: SFlash_Read_Reg_def writable_def and_0xFF_u8)
qed

lemma written:
  assumes "wel c" "i = 0 \<or> (i = 1 \<and> cfg_writeRegCmd m ! 1 \<noteq> cfg_writeRegCmd m ! 0)"
  shows "\<exists>c'. SFlash_Write_Reg ct m i (v # bs) 1 c = (SUCCESS, c')
     \<and> regs c' = (regs c)(unat i := v AND writable (unat i))"
  using assms(2)
proof
  assume "i = 0"
  then show ?thesis using written0 [OF assms(1), of v bs] by (simp add: writable_def)
next
  assume i: "i = 1 \<and> cfg_writeRegCmd m ! 1 \<noteq> cfg_writeRegCmd m ! 0"
  let ?cmd = "sf_cmd_zero\<lparr>cmdBuf0 := sf_cmd_word (cfg_writeRegCmd m ! 1) 0, rwFlag := SF_CTRL_WRITE, nbData := 1\<rparr>"
  have "sf_opcode ?cmd = cfg_writeRegCmd m ! 1" by (rule opcode_word) simp
  with write1 [of c ?cmd v] assms(1) i show ?thesis
    by (simp add: SFlash_Write_Reg_def SFlash_Write_Reg_With_Cmd_def writable_def and_0xFF_u8)
qed

lemma written_both:
  assumes "wel c" "i = 0 \<or> i = 1" "cfg_qeWriteRegLen m = 2"
  shows "\<exists>c'. SFlash_Write_Reg ct m i (v # w # bs) 2 c = (SUCCESS, c')
     \<and> regs c' = (regs c)(0 := v AND 0xFC, 1 := w)"
proof -
  let ?cmd = "sf_cmd_zero\<lparr>cmdBuf0 := sf_cmd_word (cfg_writeRegCmd m ! 0) 0, rwFlag := SF_CTRL_WRITE, nbData := 2\<rparr>"
  have "sf_opcode ?cmd = cfg_writeRegCmd m ! 0" by (rule opcode_word) simp
  moreover have "cfg_writeRegCmd m ! unat i = cfg_writeRegCmd m ! 0" using assms(2,3) write_cfg by auto
  ultimately show ?thesis using write01 [of c ?cmd v w] assms(1,3)
    by (simp add: SFlash_Write_Reg_def SFlash_Write_Reg_With_Cmd_def)
qed

lemma regs_writable: "regs c 0 AND 0xFC = regs c 0"
  using read_reg0 [of c] by (metis and.assoc and.idem)

text \<open>Afterwards the register has its quad value, the other one is as before.\<close>

lemma qspi_enable_sets:
  "\<exists>c'. SFlash_Qspi_Enable ct m c = (SUCCESS, c')
     \<and> regs c' = (regs c)(unat (cfg_qeIndex m) := quad_on m (regs c (unat (cfg_qeIndex m))))"
proof -
  define i where "i = unat (cfg_qeIndex m)"
  have i: "i = 0 \<longrightarrow> 2 \<le> unat (cfg_qeBit m) \<and> cfg_qeData m = 0" "i = 0 \<or> i = 1"
    using qe_cfg by (auto simp: i_def word_le_nat_alt unat_eq_0)
  note qei = qe_cfg(2) and seen = quad_seen_on [OF _ qe_cfg(3) i(1)]
  obtain c1 v where r1: "SFlash_Read_Reg ct (base_cfg m) (cfg_qeIndex m) 1 c = (Some [v], c1)"
    "regs c1 = regs c" "v AND writable i = regs c i"
    using read_reg [OF qei, of c] by (auto simp: i_def)
  note test = quad_test [OF qe_cfg(3)]
  show ?thesis
  proof (cases "quad_seen m v")
    case True
    then have "SFlash_Qspi_Enable ct m c = (SUCCESS, c1)"
      by (simp add: SFlash_Qspi_Enable_def qe_cfg(1) r1(1) test)
    then show ?thesis using r1(2) seen(1) [OF r1(3) True] by (simp flip: i_def)
  next
    case False
    then have nset: "\<not> qe_is_set m (ucast v)" using test [of 0 v] by (simp add: stat_read_byte)
    obtain c5 where rest: "SFlash_Qspi_Enable ct m c = (SUCCESS, c5)"
      "regs c5 = (regs c)(i := quad_on m (regs c i))"
    proof (cases "cfg_qeWriteRegLen m = 1")
      case True
      define w where "w = qe_value m (ucast v)"
      obtain c3 where e: "SFlash_Write_Enable ct (base_cfg m) c1 = (SUCCESS, c3)" "regs c3 = regs c1" "wel c3"
        using enabled [of c1] by auto
      obtain c4 where wr: "SFlash_Write_Reg ct m (cfg_qeIndex m) (le32 w) 1 c3 = (SUCCESS, c4)"
        "regs c4 = (regs c3)(i := ucast w AND writable i)"
        using written [OF e(3), of "cfg_qeIndex m" "ucast w" "tl (le32 w)"] qei write_cfg(2) [OF True]
        by (auto simp: le32_def i_def)
      have q: "ucast w AND writable i = quad_on m (regs c i)"
        unfolding w_def by (rule quad_byte [OF r1(3) quad i_def True])
      obtain c5 v5 where r5: "SFlash_Read_Reg ct (base_cfg m) (cfg_qeIndex m) 1 c4 = (Some [v5], c5)"
        "regs c5 = regs c4" "v5 AND writable i = regs c4 i"
        using read_reg [OF qei, of c4] by (auto simp: i_def)
      have "quad_seen m v5" by (rule seen(2) [OF r5(3)]) (simp add: wr(2) q)
      then have "SFlash_Qspi_Enable ct m c = (SUCCESS, c5)"
        using nset True by (simp add: SFlash_Qspi_Enable_def qe_cfg(1) r1(1) stat_read_byte e(1) Let_def wr(1) r5(1) test
            flip: w_def)
      then show ?thesis using that r5(2) wr(2) e(2) r1(2) q by simp
    next
      case len: False
      then have len: "cfg_qeWriteRegLen m = 2" using write_cfg(1) by blast
      obtain ca v0 where ra: "SFlash_Read_Reg ct (base_cfg m) 0 1 c1 = (Some [v0], ca)" "regs ca = regs c1"
        "v0 AND writable 0 = regs c 0" using read_reg [of 0 c1] r1(2) by auto
      obtain cb v1 where rb: "SFlash_Read_Reg ct (base_cfg m) 1 1 ca = (Some [v1], cb)" "regs cb = regs ca"
        "v1 = regs c 1" using read_reg [of 1 ca] ra(2) r1(2) by (auto simp: writable_def and_0xFF_u8)
      define w where "w = qe_value m (ucast v0 OR push_bit 8 (ucast v1))"
      obtain c3 where e: "SFlash_Write_Enable ct (base_cfg m) cb = (SUCCESS, c3)" "regs c3 = regs cb" "wel c3"
        using enabled [of cb] by auto
      obtain c4 where wr: "SFlash_Write_Reg ct m (cfg_qeIndex m) (le32 w) 2 c3 = (SUCCESS, c4)"
        "regs c4 = (regs c3)(0 := ucast w AND 0xFC, 1 := ucast (drop_bit 8 w))"
        using written_both [OF e(3) qei len, of "ucast w" "ucast (drop_bit 8 w)"
            "[ucast (drop_bit 16 w), ucast (drop_bit 24 w)]"] by (auto simp: le32_def)
      have r4: "regs c4 = (regs c)(i := quad_on m (regs c i))"
        using wr(2) e(2) rb(2,3) ra(2) r1(2) quad_word [OF ra(3) quad i_def len, of v1, folded w_def] i(2)
        by (auto simp: fun_eq_iff)
      obtain c5 v5 where r5: "SFlash_Read_Reg ct (base_cfg m) (cfg_qeIndex m) 1 c4 = (Some [v5], c5)"
        "regs c5 = regs c4" "v5 AND writable i = regs c4 i"
        using read_reg [OF qei, of c4] by (auto simp: i_def)
      have "quad_seen m v5" by (rule seen(2) [OF r5(3)]) (simp add: r4)
      then have "SFlash_Qspi_Enable ct m c = (SUCCESS, c5)"
        using nset by (simp add: SFlash_Qspi_Enable_def qe_cfg(1) r1(1) len stat_read_byte ra(1) rb(1)
            stat_read_two [simplified] e(1) Let_def wr(1) r5(1) test flip: w_def)
      then show ?thesis using that r5(2) r4 by simp
    qed
    then show ?thesis by (simp flip: i_def)
  qed
qed

text \<open>Both enabling and clearing need to know where the bit is.\<close>

lemma qe_place: "unat (cfg_qeBit m) < 8" "unat (cfg_qeIndex m) = 0 \<Longrightarrow> 2 \<le> unat (cfg_qeBit m)"
    "unat (cfg_qeIndex m) = 0 \<or> unat (cfg_qeIndex m) = 1"
  using qe_cfg by (auto simp: word_less_nat_alt word_le_nat_alt unat_eq_0)

end

section \<open>Clearing the registers\<close>

lemma qe_alone_word:
  fixes q :: u32
  assumes "q = 0 \<or> q = 1" "k < 8" "i = 0 \<or> i = (1 :: nat)"
  shows "n < 8 \<Longrightarrow> bit (ucast (push_bit (i * 8 + k) q) :: u8) n \<longleftrightarrow> q = 1 \<and> i = 0 \<and> n = k"
    "n < 8 \<Longrightarrow> bit (ucast (drop_bit 8 (push_bit (i * 8 + k) q)) :: u8) n \<longleftrightarrow> q = 1 \<and> i = 1 \<and> n = k"
    "n < 8 \<Longrightarrow> bit (ucast (push_bit k q) :: u8) n \<longleftrightarrow> q = 1 \<and> n = k"
  using assms by (auto simp: bit_simps)

lemma bit_three: "bit (3 :: int) n \<longleftrightarrow> n < 2"
proof -
  have "(3 :: int) = mask 2" by (simp add: mask_eq_exp_minus_1)
  then show ?thesis by (simp only: bit_mask_iff possible_bit_def) auto
qed

text \<open>What the test at the beginning accepts.\<close>

lemma only_kept:
  fixes v0 v1 :: u8
  assumes "(ucast v0 OR push_bit 8 (ucast v1) :: u32)
      AND NOT (push_bit (i * 8 + k) 1 OR push_bit 0 1 OR push_bit 1 1) = 0" "k < 8" "i = 0 \<or> i = (1 :: nat)"
  shows "2 \<le> n \<Longrightarrow> bit v0 n \<Longrightarrow> i = 0 \<and> n = k" "bit v1 n \<Longrightarrow> i = 1 \<and> n = k"
proof -
  have b: "\<not> bit ((ucast v0 OR push_bit 8 (ucast v1) :: u32)
      AND NOT (push_bit (i * 8 + k) 1 OR push_bit 0 1 OR push_bit 1 1)) j" for j
    using assms(1) by simp
  show "2 \<le> n \<Longrightarrow> bit v0 n \<Longrightarrow> i = 0 \<and> n = k"
    using b [of n] assms(2,3) bit_imp_le_length [of v0 n] by (auto simp: bit_simps bit_three)
  show "bit v1 n \<Longrightarrow> i = 1 \<and> n = k"
    using b [of "n + 8"] assms(2,3) bit_imp_le_length [of v1 n]
    by (cases "i = 0") (auto simp: bit_simps bit_three)
qed

context status_chip
begin

lemma clear_registers:
  assumes apart: "cfg_qeWriteRegLen m = 1 \<Longrightarrow> cfg_writeRegCmd m ! 1 \<noteq> cfg_writeRegCmd m ! 0"
  shows "\<exists>c'. SFlash_Clear_Status_Register ct m c = (SUCCESS, c')
     \<and> (\<forall>j < 2. \<forall>n. bit (regs c' j) n \<longrightarrow> j = unat (cfg_qeIndex m) \<and> n = unat (cfg_qeBit m))
     \<and> (is_quad m \<and> bit (regs c (unat (cfg_qeIndex m))) (unat (cfg_qeBit m)) \<longrightarrow>
          bit (regs c' (unat (cfg_qeIndex m))) (unat (cfg_qeBit m)))"
proof -
  define i where "i = unat (cfg_qeIndex m)"
  define k where "k = unat (cfg_qeBit m)"
  define q where "q = (if is_quad m then 1 else 0 :: u32)"
  have k: "k < 8" "i = 0 \<longrightarrow> 2 \<le> k" "i = 0 \<or> i = 1" using qe_place by (simp_all add: i_def k_def)
  have q: "q = 0 \<or> q = 1" by (simp add: q_def)
  obtain c1 v0 where r0: "SFlash_Read_Reg ct (base_cfg m) 0 1 c = (Some [v0], c1)" "regs c1 = regs c"
    "v0 AND writable 0 = regs c 0" using read_reg [of 0 c] by auto
  obtain c2 v1 where r1: "SFlash_Read_Reg ct (base_cfg m) 1 1 c1 = (Some [v1], c2)" "regs c2 = regs c"
    "v1 = regs c 1" using read_reg [of 1 c1] r0(2) by (auto simp: writable_def and_0xFF_u8)
  have b0: "bit (regs c 0) n \<longleftrightarrow> bit v0 n \<and> 2 \<le> n" for n
    using writable_bits [of v0 0 n] r0(3) by simp
  note unf = SFlash_Clear_Status_Register_def r0(1) r1(1) byte_read_def busy_cfg enable_cfg
  note fold = i_def [symmetric] k_def [symmetric] q_def [symmetric]
  let ?clean = "(ucast v0 OR push_bit 8 (ucast v1) :: u32)
      AND NOT (push_bit (i * 8 + k) 1 OR push_bit 0 1 OR push_bit 1 1) = 0"
  have clear: ?thesis
    if "SFlash_Clear_Status_Register ct m c = (SUCCESS, c')"
      "\<And>n. bit (regs c' 0) n \<Longrightarrow> i = 0 \<and> n = k" "\<And>n. bit (regs c' 1) n \<Longrightarrow> i = 1 \<and> n = k"
      "is_quad m \<Longrightarrow> bit (regs c i) k \<Longrightarrow> bit (regs c' i) k" for c'
    using that by (auto simp: fold less_2_cases_iff)
  show ?thesis
  proof (cases ?clean)
    case True
    then have "SFlash_Clear_Status_Register ct m c = (SUCCESS, c2)"
      by (simp add: unf fold)
    then show ?thesis
      by (rule clear) (use only_kept [OF True k(1,3)] b0 r1(2,3) in auto)
  next
    case False
    obtain c3 where e: "SFlash_Write_Enable ct (base_cfg m) c2 = (SUCCESS, c3)" "wel c3" "regs c3 = regs c"
      using enabled [of c2] r1(2) by auto
    show ?thesis
    proof (cases "cfg_qeWriteRegLen m = 2")
      case True
      obtain c4 where w: "SFlash_Write_Reg ct m 0 (le32 (push_bit (i * 8 + k) q)) 2 c3 = (SUCCESS, c4)"
        "regs c4 = (regs c3)(0 := ucast (push_bit (i * 8 + k) q) AND 0xFC, 1 := ucast (drop_bit 8 (push_bit (i * 8 + k) q)))"
        using written_both [OF e(2) _ True, of 0 "ucast (push_bit (i * 8 + k) q)" "ucast (drop_bit 8 (push_bit (i * 8 + k) q))"]
        by (auto simp: le32_def)
      have "SFlash_Clear_Status_Register ct m c = (SUCCESS, c4)"
        using \<open>\<not> ?clean\<close> by (simp add: unf fold e(1) True w(1))
      then show ?thesis
      proof (rule clear)
        show "bit (regs c4 0) n \<Longrightarrow> i = 0 \<and> n = k" for n
          using qe_alone_word(1) [OF q k(1,3), of n] bit_imp_le_length [of "regs c4 0" n] w(2)
          by (auto simp: bit_simps)
        show "bit (regs c4 1) n \<Longrightarrow> i = 1 \<and> n = k" for n
          using qe_alone_word(2) [OF q k(1,3), of n] bit_imp_le_length [of "regs c4 1" n] w(2) by auto
        show "is_quad m \<Longrightarrow> bit (regs c i) k \<Longrightarrow> bit (regs c4 i) k"
          using qe_alone_word(1,2) [OF q k(1,3) k(1)] w(2) k
          by (auto simp: q_def mask_FC bit_simps)
      qed
    next
      case False
      then have len: "cfg_writeRegCmd m ! 1 \<noteq> cfg_writeRegCmd m ! 0" using write_cfg(1) apart by blast
      define u0 where "u0 = (if cfg_qeIndex m = 0 then push_bit (unat (cfg_qeBit m)) q else 0)"
      define u1 where "u1 = (if cfg_qeIndex m = 1 then push_bit (unat (cfg_qeBit m)) q else 0)"
      have ix: "cfg_qeIndex m = 0 \<longleftrightarrow> i = 0" "cfg_qeIndex m = 1 \<longleftrightarrow> i = 1"
        by (simp_all add: i_def word_eq_unat)
      have u: "u0 = (if i = 0 then push_bit k q else 0)" "u1 = (if i = 1 then push_bit k q else 0)"
        by (simp_all add: u0_def u1_def ix k_def)
      obtain c4 where w0: "SFlash_Write_Reg ct m 0 (le32 u0) 1 c3 = (SUCCESS, c4)"
        "regs c4 = (regs c)(0 := ucast u0 AND writable 0)"
        using written [OF e(2), of 0 "ucast u0" "tl (le32 u0)"] e(3) by (auto simp: le32_def)
      obtain c5 where e2: "SFlash_Write_Enable ct (base_cfg m) c4 = (SUCCESS, c5)" "wel c5" "regs c5 = regs c4"
        using enabled [of c4] by auto
      obtain c6 where w1: "SFlash_Write_Reg ct m 1 (le32 u1) 1 c5 = (SUCCESS, c6)"
        "regs c6 = (regs c5)(1 := ucast u1)"
        using written [OF e2(2), of 1 "ucast u1" "tl (le32 u1)"] len by (auto simp: le32_def writable_def and_0xFF_u8)
      have "SFlash_Clear_Status_Register ct m c = (SUCCESS, c6)"
        using \<open>\<not> ?clean\<close> False
        by (simp add: unf fold e(1) Let_def split del: if_split)
          (simp add: w0(1) e2(1) w1(1) split del: if_split flip: u0_def u1_def)
      then show ?thesis
      proof (rule clear)
        have r: "regs c6 0 = ucast u0 AND writable 0" "regs c6 1 = ucast u1"
          using w1(2) e2(3) w0(2) by auto
        show "bit (regs c6 0) n \<Longrightarrow> i = 0 \<and> n = k" for n
          using qe_alone_word(3) [OF q k(1,3), of n] bit_imp_le_length [of "regs c6 0" n]
          by (auto simp: r writable_bits u split: if_splits)
        show "bit (regs c6 1) n \<Longrightarrow> i = 1 \<and> n = k" for n
          using qe_alone_word(3) [OF q k(1,3), of n] bit_imp_le_length [of "regs c6 1" n]
          unfolding r(2) u(2) by (auto split: if_splits)
        show "is_quad m \<Longrightarrow> bit (regs c i) k \<Longrightarrow> bit (regs c6 i) k"
          using qe_alone_word(3) [OF q k(1,3) k(1)] k
          by (auto simp: q_def r r(2) [unfolded One_nat_def] writable_bits u)
      qed
    qed
  qed
qed

end

section \<open>Concrete registers\<close>

text \<open>A chip that consists of its registers and executes every command at once.\<close>

record st_chip =
  st_cells :: "nat \<Rightarrow> u8"
  st_wel :: bool
  st_buf :: bytes

definition st_regs :: "st_chip \<Rightarrow> nat \<Rightarrow> u8" where
  "st_regs c i = (if i = 0 then st_cells c 0 AND 0xFC else st_cells c i)"

definition st_send :: "spi_cfg \<Rightarrow> sf_cmd \<Rightarrow> bytes \<Rightarrow> st_chip \<Rightarrow> st_chip" where
  "st_send m cmd bs c =
     (let op = sf_opcode cmd
      in if op = cfg_writeEnableCmd m then c\<lparr>st_wel := True\<rparr>
         else if op = cfg_readRegCmd m ! 0 then c\<lparr>st_buf := [st_regs c 0 OR (if st_wel c then 2 else 0)]\<rparr>
         else if op = cfg_readRegCmd m ! 1 then c\<lparr>st_buf := [st_regs c 1]\<rparr>
         else if \<not> st_wel c then c
         else if op = cfg_writeRegCmd m ! 0 then
           c\<lparr>st_cells := (if nbData cmd = 2 then (st_cells c)(0 := bs ! 0, 1 := bs ! 1)
                         else (st_cells c)(0 := bs ! 0)), st_wel := False\<rparr>
         else if op = cfg_writeRegCmd m ! 1 then c\<lparr>st_cells := (st_cells c)(1 := bs ! 0), st_wel := False\<rparr>
         else c)"

definition st_ctrl :: "spi_cfg \<Rightarrow> st_chip sf_ctrl" where
  "st_ctrl m = \<lparr>sc_send = st_send m, sc_busy = (\<lambda>c. (False, c)), sc_buf = st_buf,
     sc_delay = (\<lambda>us c. c), sc_save = (\<lambda>c. c), sc_restore = (\<lambda>c. c)\<rparr>"

lemma st_ops [simp]: "sc_send (st_ctrl m) = st_send m" "sc_busy (st_ctrl m) = (\<lambda>c. (False, c))"
  "sc_buf (st_ctrl m) = st_buf" "sc_delay (st_ctrl m) = (\<lambda>us c. c)"
  by (simp_all add: st_ctrl_def)

lemma poll_idle: "sf_poll (\<lambda>c. (False, c)) d l c = (SUCCESS, c)"
  by (simp add: sf_poll.simps)

text \<open>The commands of a configuration that the simulated chip tells apart.\<close>

definition distinct_cmds :: "spi_cfg \<Rightarrow> bool" where
  "distinct_cmds m \<longleftrightarrow>
     cfg_busyIndex m = 0 \<and> cfg_busyBit m = 0 \<and> cfg_busyReadRegLen m = 1
     \<and> cfg_wrEnableIndex m = 0 \<and> cfg_wrEnableBit m = 1 \<and> cfg_wrEnableReadRegLen m = 1
     \<and> distinct [cfg_writeEnableCmd m, cfg_readRegCmd m ! 0, cfg_readRegCmd m ! 1, cfg_writeRegCmd m ! 0]
     \<and> cfg_writeRegCmd m ! 1 \<notin> {cfg_writeEnableCmd m, cfg_readRegCmd m ! 0}"

lemma st_busy:
  assumes "distinct_cmds m"
  shows "\<exists>c'. sf_poll (SFlash_Busy (st_ctrl m) (base_cfg m)) d l c = (SUCCESS, c')
    \<and> st_regs c' = st_regs c \<and> st_wel c' = st_wel c"
proof -
  have op: "sf_opcode (sf_cmd_zero\<lparr>cmdBuf0 := sf_cmd_word (cfg_readRegCmd m ! 0) 0, nbData := 1\<rparr>)
      = cfg_readRegCmd m ! 0" by (rule opcode_word) simp
  have b0: "\<not> bit (reg_stat (Some [st_regs c 0 OR (if st_wel c then 2 else 0)])) 0"
    by (simp add: reg_stat_def st_regs_def patch_def rd32_def bit_simps)
  have rr: "SFlash_Read_Reg (st_ctrl m) (base_cfg m) 0 1 c
      = (Some [st_regs c 0 OR (if st_wel c then 2 else 0)],
         c\<lparr>st_buf := [st_regs c 0 OR (if st_wel c then 2 else 0)]\<rparr>)"
    using assms by (auto simp: SFlash_Read_Reg_def poll_idle st_send_def op distinct_cmds_def Let_def)
  have "SFlash_Busy (st_ctrl m) (base_cfg m) c
      = (False, c\<lparr>st_buf := [st_regs c 0 OR (if st_wel c then 2 else 0)]\<rparr>)"
    using assms b0 by (simp add: SFlash_Busy_def distinct_cmds_def rr del: bit_0)
  then show ?thesis by (subst sf_poll.simps) (auto simp: st_regs_def)
qed

lemma st_status_reg:
  assumes "distinct_cmds m"
  shows "status_reg (st_ctrl m) m st_regs st_wel"
proof
  note d = assms [unfolded distinct_cmds_def]
  show "cfg_wrEnableIndex m = 0" "cfg_wrEnableBit m = 1" "cfg_wrEnableReadRegLen m = 1"
    using d by auto
  show "fst (sf_poll (sc_busy (st_ctrl m)) e 1000 (sc_send (st_ctrl m) cmd bs c)) = SUCCESS" for e cmd bs c
    by (simp add: poll_idle)
  show "st_regs c' = st_regs c \<and> st_wel c' = st_wel c \<and>
      (\<exists>v rest. sc_buf (st_ctrl m) c' = v # rest \<and> v AND 0xFC = st_regs c 0 \<and> bit v 1 = st_wel c)"
    if "sf_opcode cmd = cfg_readRegCmd m ! 0"
      "sf_poll (sc_busy (st_ctrl m)) e 1000 (sc_send (st_ctrl m) cmd bs c) = (SUCCESS, c')" for cmd e bs c c'
  proof -
    define v where "v = st_regs c 0 OR (if st_wel c then 2 else 0)"
    have "c' = c\<lparr>st_buf := [v]\<rparr>" using that d by (auto simp: poll_idle st_send_def v_def)
    moreover have "v AND 0xFC = st_regs c 0" "bit v 1 = st_wel c"
      by (rule bit_word_eqI) (auto simp: v_def st_regs_def mask_FC bit_simps)
    ultimately show ?thesis by (simp add: st_regs_def fun_eq_iff)
  qed
  show "st_regs (sc_send (st_ctrl m) cmd bs c) = st_regs c \<and> st_wel (sc_send (st_ctrl m) cmd bs c)"
    if "sf_opcode cmd = cfg_writeEnableCmd m" for cmd bs c
    using that by (auto simp: st_send_def st_regs_def fun_eq_iff)
  show "\<exists>c'. sf_poll (SFlash_Busy (st_ctrl m) (base_cfg m)) (sc_delay (st_ctrl m) 100) 400
      (sc_send (st_ctrl m) cmd [v] c) = (SUCCESS, c') \<and> st_regs c' = (st_regs c)(0 := v AND 0xFC)"
    if "st_wel c" "sf_opcode cmd = cfg_writeRegCmd m ! 0" "nbData cmd = 1" for c cmd v
  proof -
    have "st_regs (st_send m cmd [v] c) = (st_regs c)(0 := v AND 0xFC)"
      using that d by (auto simp: st_send_def st_regs_def fun_eq_iff)
    then show ?thesis using st_busy [OF assms, of "\<lambda>c. c" 400 "st_send m cmd [v] c"] by auto
  qed
qed

lemma st_status_chip:
  assumes "distinct_cmds m" "quad_cfg m" "cfg_writeRegCmd m ! 1 \<noteq> cfg_readRegCmd m ! 1"
  shows "status_chip (st_ctrl m) m st_regs st_wel"
proof (intro status_chip.intro st_status_reg assms(1) status_chip_axioms.intro)
  note d = assms(1) [unfolded distinct_cmds_def]
  show "cfg_busyIndex m = 0" "cfg_busyBit m = 0" using d by auto
  show "st_regs c' = st_regs c \<and> st_wel c' = st_wel c \<and> (\<exists>rest. sc_buf (st_ctrl m) c' = st_regs c 1 # rest)"
    if "sf_opcode cmd = cfg_readRegCmd m ! 1"
      "sf_poll (sc_busy (st_ctrl m)) e 1000 (sc_send (st_ctrl m) cmd bs c) = (SUCCESS, c')" for cmd e bs c c'
  proof -
    have "c' = c\<lparr>st_buf := [st_regs c 1]\<rparr>" using that d by (auto simp: poll_idle st_send_def)
    then show ?thesis by (simp add: st_regs_def fun_eq_iff)
  qed
  show "\<exists>c'. sf_poll (SFlash_Busy (st_ctrl m) (base_cfg m)) (sc_delay (st_ctrl m) 100) 400
      (sc_send (st_ctrl m) cmd [v] c) = (SUCCESS, c') \<and> st_regs c' = (st_regs c)(1 := v)"
    if "cfg_writeRegCmd m ! 1 \<noteq> cfg_writeRegCmd m ! 0" "st_wel c" "sf_opcode cmd = cfg_writeRegCmd m ! 1" "nbData cmd = 1" for c cmd v
  proof -
    have "st_regs (st_send m cmd [v] c) = (st_regs c)(1 := v)"
      using that d assms(3) by (auto simp: st_send_def st_regs_def fun_eq_iff)
    then show ?thesis using st_busy [OF assms(1), of "\<lambda>c. c" 400 "st_send m cmd [v] c"] by auto
  qed
  show "\<exists>c'. sf_poll (SFlash_Busy (st_ctrl m) (base_cfg m)) (sc_delay (st_ctrl m) 100) 400
      (sc_send (st_ctrl m) cmd [v, w] c) = (SUCCESS, c') \<and> st_regs c' = (st_regs c)(0 := v AND 0xFC, 1 := w)"
    if "cfg_qeWriteRegLen m = 2" "st_wel c" "sf_opcode cmd = cfg_writeRegCmd m ! 0" "nbData cmd = 2" for c cmd v w
  proof -
    have "st_regs (st_send m cmd [v, w] c) = (st_regs c)(0 := v AND 0xFC, 1 := w)"
      using that d by (auto simp: st_send_def st_regs_def fun_eq_iff)
    then show ?thesis using st_busy [OF assms(1), of "\<lambda>c. c" 400 "st_send m cmd [v, w] c"] by auto
  qed
qed (use assms in auto)

interpretation kh25: status_reg "st_ctrl flashCfg_MX_KH25" flashCfg_MX_KH25 st_regs st_wel
  by (rule st_status_reg) (simp add: distinct_cmds_def flashCfg_MX_KH25_def)

interpretation winb16: status_chip "st_ctrl flashCfg_Winb_16DV" flashCfg_Winb_16DV st_regs st_wel
  by (rule st_status_chip) (simp_all add: distinct_cmds_def quad_cfg_def flashCfg_Winb_16DV_def)

interpretation gdq32: status_chip "st_ctrl flashCfg_Gd_Q32C" flashCfg_Gd_Q32C st_regs st_wel
  by (rule st_status_chip) (simp_all add: distinct_cmds_def quad_cfg_def flashCfg_Gd_Q32C_def)

interpretation gdwq80: status_chip "st_ctrl flashCfg_Gd_WQ80E_WQ16E" flashCfg_Gd_WQ80E_WQ16E st_regs st_wel
  by (rule st_status_chip) (simp_all add: distinct_cmds_def quad_cfg_def flashCfg_Gd_WQ80E_WQ16E_def)

text \<open>Every configuration of the tables for quad reads says how quad mode is enabled.\<close>

lemma quad_tables: "list_all (\<lambda>(j, k). is_quad k \<longrightarrow> quad_cfg k) (flashInfos @ flashInfos_ext)"
  by code_simp

section \<open>Properties\<close>

text \<open>
  C21: On any chip with status registers, setting the write protection of a KH25V40 adds the
  requested bits to those already set.  It reports success exactly if that gives the requested
  level, so a protection can be extended to more bits but never lowered or removed.
\<close>

theorem write_protect_only_adds:
  assumes "status_reg ct m regs wel" "p AND mask 4 = p"
  shows "\<exists>r c'. SFlash_KH25V40_Write_Protect ct m (ucast p) c = (r, c')
    \<and> protection (regs c' 0) = protection (regs c 0) OR p
    \<and> (r = SUCCESS \<longleftrightarrow> protection (regs c 0) OR p = p)"
  by (rule status_reg.write_protect [OF assms])

definition protected_chip :: st_chip where
  "protected_chip = \<lparr>st_cells = (\<lambda>i. if i = 0 then 0x10 else 0), st_wel = False, st_buf = []\<rparr>"

theorem write_protect_only_adds_witness:
  "\<exists>r c'. SFlash_KH25V40_Write_Protect (st_ctrl flashCfg_MX_KH25) flashCfg_MX_KH25 0 protected_chip = (r, c')
     \<and> protection (st_regs c' 0) = 4 \<and> r \<noteq> SUCCESS"
proof -
  have p: "protection (st_regs protected_chip 0) = 4"
    by (simp add: protection_def protected_chip_def st_regs_def flip: mask4)
  show ?thesis
    using write_protect_only_adds [OF kh25.status_reg_axioms, of 0 protected_chip] by (auto simp: p)
qed

text \<open>
  C20: Enabling quad mode succeeds, whatever the registers hold, on every chip with two status
  registers and a configuration that says how quad mode is enabled (\<open>quad_cfg\<close>), which every
  configuration of the tables for quad reads does.  If the configuration names a bit, that bit is
  set afterwards and every other bit is as it was; if it has a value for the register (\<open>qeData\<close>,
  as for the GD25WQ80E), the whole register has that value and the other register is as it was.
  It makes no difference whether the registers are written one by one or together.
\<close>

theorem qspi_enable_correct:
  assumes "status_chip ct m regs wel"
  shows "(\<exists>c'. SFlash_Qspi_Enable ct m c = (SUCCESS, c')
     \<and> regs c' = (regs c)(unat (cfg_qeIndex m) :=
         (if cfg_qeData m = 0 then set_bit (unat (cfg_qeBit m)) (regs c (unat (cfg_qeIndex m))) else cfg_qeData m)))
   \<and> list_all (\<lambda>(j, k). is_quad k \<longrightarrow> quad_cfg k) (flashInfos @ flashInfos_ext)"
  using status_chip.qspi_enable_sets [OF assms, of c] quad_tables by (simp add: quad_on_def)

theorem qspi_enable_correct_witness:
  "(\<exists>c'. SFlash_Qspi_Enable (st_ctrl flashCfg_Winb_16DV) flashCfg_Winb_16DV protected_chip = (SUCCESS, c')
      \<and> st_regs c' 0 = 0x10 \<and> st_regs c' 1 = 2)
   \<and> (\<exists>c'. SFlash_Qspi_Enable (st_ctrl flashCfg_Gd_Q32C) flashCfg_Gd_Q32C protected_chip = (SUCCESS, c')
      \<and> st_regs c' 0 = 0x10 \<and> st_regs c' 1 = 2)
   \<and> (\<exists>c'. SFlash_Qspi_Enable (st_ctrl flashCfg_Gd_WQ80E_WQ16E) flashCfg_Gd_WQ80E_WQ16E protected_chip = (SUCCESS, c')
      \<and> st_regs c' 0 = 0x10 \<and> st_regs c' 1 = 0x12)"
proof -
  have r: "st_regs protected_chip 0 = 0x10" "st_regs protected_chip 1 = 0"
    by (simp_all add: protected_chip_def st_regs_def)
  have q: "unat (cfg_qeIndex flashCfg_Winb_16DV) = 1" "unat (cfg_qeBit flashCfg_Winb_16DV) = 1" "cfg_qeData flashCfg_Winb_16DV = 0"
    "unat (cfg_qeIndex flashCfg_Gd_Q32C) = 1" "unat (cfg_qeBit flashCfg_Gd_Q32C) = 1" "cfg_qeData flashCfg_Gd_Q32C = 0"
    "unat (cfg_qeIndex flashCfg_Gd_WQ80E_WQ16E) = 1" "cfg_qeData flashCfg_Gd_WQ80E_WQ16E = 0x12"
    by (simp_all add: flashCfg_Winb_16DV_def flashCfg_Gd_Q32C_def flashCfg_Gd_WQ80E_WQ16E_def)
  have s: "set_bit 1 (0 :: u8) = 2" by (simp add: set_bit_eq_or)
  show ?thesis
    using qspi_enable_correct [OF winb16.status_chip_axioms, of protected_chip, THEN conjunct1]
      qspi_enable_correct [OF gdq32.status_chip_axioms, of protected_chip, THEN conjunct1]
      qspi_enable_correct [OF gdwq80.status_chip_axioms, of protected_chip, THEN conjunct1]
    unfolding q by (auto simp: r r(2) [unfolded One_nat_def] s [unfolded One_nat_def])
qed

text \<open>
  Clearing the status registers succeeds and leaves no bit set but the quad enable bit, which
  a chip in quad mode keeps, when each register has a write command of its own or both are written
  together.
\<close>

theorem clear_status_correct:
  assumes "status_chip ct m regs wel" "cfg_qeWriteRegLen m = 1 \<Longrightarrow> cfg_writeRegCmd m ! 1 \<noteq> cfg_writeRegCmd m ! 0"
  shows "\<exists>c'. SFlash_Clear_Status_Register ct m c = (SUCCESS, c')
     \<and> (\<forall>j n. j < 2 \<and> bit (regs c' j) n \<longrightarrow> j = unat (cfg_qeIndex m) \<and> n = unat (cfg_qeBit m))
     \<and> (is_quad m \<and> bit (regs c (unat (cfg_qeIndex m))) (unat (cfg_qeBit m)) \<longrightarrow>
          bit (regs c' (unat (cfg_qeIndex m))) (unat (cfg_qeBit m)))"
  using status_chip.clear_registers [OF assms, of c] by blast

theorem clear_status_correct_witness:
  "\<exists>c'. SFlash_Clear_Status_Register (st_ctrl flashCfg_Gd_Q32C) flashCfg_Gd_Q32C protected_chip = (SUCCESS, c')
     \<and> st_regs c' 0 = 0"
proof -
  have q: "unat (cfg_qeIndex flashCfg_Gd_Q32C) = 1" by (simp add: flashCfg_Gd_Q32C_def)
  obtain c' where c: "SFlash_Clear_Status_Register (st_ctrl flashCfg_Gd_Q32C) flashCfg_Gd_Q32C protected_chip = (SUCCESS, c')"
    "\<forall>j n. j < 2 \<and> bit (st_regs c' j) n \<longrightarrow> j = 1 \<and> n = unat (cfg_qeBit flashCfg_Gd_Q32C)"
    using clear_status_correct [OF gdq32.status_chip_axioms, of protected_chip] unfolding q
    by (auto simp: flashCfg_Gd_Q32C_def)
  have "st_regs c' 0 = 0" by (rule bit_word_eqI) (use c(2) in force)
  with c(1) show ?thesis by blast
qed

text \<open>
  On a chip whose second register is written with the command of the first (the entry
  \<open>flashCfg_Mxic_1635F\<close> of the table), the second write clears the quad enable bit the first
  one has kept.
\<close>

lemma Mxic_1635F_commands:
  "cfg_qeWriteRegLen flashCfg_Mxic_1635F = 1" "cfg_qeIndex flashCfg_Mxic_1635F = 0"
  "cfg_writeRegCmd flashCfg_Mxic_1635F ! 1 = cfg_writeRegCmd flashCfg_Mxic_1635F ! 0"
  "is_quad flashCfg_Mxic_1635F"
  by (simp_all add: flashCfg_Mxic_1635F_def is_quad_def io_modes)

context status_reg
begin

lemma clear_loses_quad:
  assumes m: "cfg_qeWriteRegLen m = 1" "cfg_qeIndex m = 0" "cfg_writeRegCmd m ! 1 = cfg_writeRegCmd m ! 0"
    and r0: "SFlash_Read_Reg ct (base_cfg m) 0 1 c = (Some [v0], c1)"
    and r1: "SFlash_Read_Reg ct (base_cfg m) 1 1 c1 = (Some [v1], c2)" and v1: "bit v1 7"
    and busy: "cfg_busyIndex m = 0" "cfg_busyBit m = 0" and qe: "cfg_qeBit m < 8"
  shows "\<exists>c'. SFlash_Clear_Status_Register ct m c = (SUCCESS, c') \<and> regs c' 0 = 0"
proof -
  define q where "q = (if is_quad m then 1 else 0 :: u32)"
  obtain c3 where e: "SFlash_Write_Enable ct (base_cfg m) c2 = (SUCCESS, c3)" "wel c3" using enabled by blast
  define u where "u = push_bit (unat (cfg_qeBit m)) q"
  obtain c4 where w0: "SFlash_Write_Reg ct m 0 (le32 u) 1 c3 = (SUCCESS, c4)"
    using written0 [OF e(2), of "ucast u" "tl (le32 u)"] by (auto simp: le32_def)
  obtain c5 where e2: "SFlash_Write_Enable ct (base_cfg m) c4 = (SUCCESS, c5)" "wel c5" using enabled by blast
  obtain c6 where "SFlash_Write_Reg ct m 0 (le32 0) 1 c5 = (SUCCESS, c6)" "regs c6 0 = 0"
    using written0 [OF e2(2), of 0 "[0, 0, 0]"] by (auto simp: le32_def)
  moreover have "SFlash_Write_Reg ct m 1 = SFlash_Write_Reg ct m 0"
    by (simp add: SFlash_Write_Reg_def m(3) [unfolded One_nat_def])
  ultimately have w1: "SFlash_Write_Reg ct m 1 (le32 0) 1 c5 = (SUCCESS, c6)" "regs c6 0 = 0" by simp_all
  have dirty: "(ucast v0 OR push_bit 8 (ucast v1) :: u32)
      AND NOT (push_bit (unat (cfg_qeBit m)) 1 OR push_bit 0 1 OR push_bit 1 1) \<noteq> 0" (is "?w \<noteq> 0")
  proof
    have "unat (cfg_qeBit m) < 8" using qe by (simp add: word_less_nat_alt)
    then have "bit ?w 15" using v1 by (auto simp: bit_simps bit_three)
    moreover assume "?w = 0"
    ultimately show False by simp
  qed
  have "SFlash_Clear_Status_Register ct m c = (SUCCESS, c6)"
    using dirty by (simp add: SFlash_Clear_Status_Register_def r0 r1 byte_read_def m(1,2) busy enable_cfg e(1)
        flip: q_def) (simp add: w0 e2(1) w1(1) flip: u_def)
  with w1(2) show ?thesis by blast
qed

end

end
