(* ===== verification/FlashInit.thy ===== *)
theory FlashInit
  imports FlashStatus
begin

text \<open>
  The start of the flash driver (\<open>flash_init\<close> of \<open>hal_flash.c\<close>): the configuration stored in the
  boot header, read through the XIP window, or else the one of the chip that answers; further the
  cache set-up, the way back from power down, and the identification over the pins of
  \<open>bl702_sf_cfg.c\<close>.  A first start leaves behind a sound configuration of the chip, or none at all.
\<close>

section \<open>Reads through the XIP window\<close>

text \<open>
  The bus read is a parameter \<open>xip\<close>: the bytes the window shows at an address in a state of the
  controller.  Outside the window nothing is read and the caller's buffer stays as it is, with
  success reported all the same.
\<close>

definition BL702_FLASH_XIP_BASE :: u32 where "BL702_FLASH_XIP_BASE = 0x23000000"
definition BL702_FLASH_XIP_END :: u32 where "BL702_FLASH_XIP_END = 0x23000000 + 16 * 1024 * 1024"

definition XIP_SFlash_Read_Via_Cache_Need_Lock ::
  "(('c, 'z) sf_state_scheme \<Rightarrow> u32 \<Rightarrow> nat \<Rightarrow> bytes) \<Rightarrow> u32 \<Rightarrow> nat \<Rightarrow> ('c, 'z) sf_state_scheme
     \<Rightarrow> bytes option \<times> ('c, 'z) sf_state_scheme" where
  "XIP_SFlash_Read_Via_Cache_Need_Lock xip addr len st =
     (if BL702_FLASH_XIP_BASE \<le> addr \<and> addr < BL702_FLASH_XIP_END then
        (let offset = ss_offset st;
             st1 = st\<lparr>ss_offset := 0\<rparr>;
             bs = xip st1 (addr - ss_offset st1) len
         in (Some bs, st1\<lparr>ss_offset := offset\<rparr>))
      else (None, st))"

definition flash_read_via_xip ::
  "(('c, 'z) sf_state_scheme \<Rightarrow> u32 \<Rightarrow> nat \<Rightarrow> bytes) \<Rightarrow> u32 \<Rightarrow> nat \<Rightarrow> ('c, 'z) sf_state_scheme
     \<Rightarrow> (bl_err \<times> bytes option) \<times> ('c, 'z) sf_state_scheme" where
  "flash_read_via_xip xip addr len st =
     (let (bs, st1) = XIP_SFlash_Read_Via_Cache_Need_Lock xip addr len
                        (st\<lparr>ss_l1c := L1C_Cache_Flush_Ext (ss_l1c st)\<rparr>)
      in ((SUCCESS, bs), st1\<lparr>ss_l1c := L1C_Cache_Flush_Ext (ss_l1c st1)\<rparr>))"

text \<open>The configuration for an id; the boot header is only read for the id 0.\<close>

definition cfg_lookup ::
  "(('c, 'z) sf_state_scheme \<Rightarrow> u32 \<Rightarrow> nat \<Rightarrow> bytes) \<Rightarrow> u32 \<Rightarrow> spi_cfg \<Rightarrow> ('c, 'z) sf_state_scheme
     \<Rightarrow> (bl_err \<times> spi_cfg) \<times> ('c, 'z) sf_state_scheme" where
  "cfg_lookup xip flashID cfg st =
     (if flashID = 0 then
        (let (bs, st1) = XIP_SFlash_Read_Via_Cache_Need_Lock xip (8 + BL702_FLASH_XIP_BASE) (SPI_CFG_SIZE + 8) st
         in (SF_Cfg_Get_Flash_Cfg_Need_Lock_Ext 0 (case bs of None \<Rightarrow> [] | Some b \<Rightarrow> b) cfg, st1))
      else (SF_Cfg_Get_Flash_Cfg_Need_Lock_Ext flashID [] cfg, st))"

lemma cfg_lookup_state: "snd (cfg_lookup xip i cfg st) = st"
  by (simp add: cfg_lookup_def XIP_SFlash_Read_Via_Cache_Need_Lock_def Let_def)

section \<open>Start of the driver\<close>

text \<open>The state with the two static variables of \<open>hal_flash.c\<close>.\<close>

record 'c hal_state = "'c sf_state" +
  hs_jedec :: u32
  hs_cfg :: spi_cfg

definition flash_get_jedecid :: "'c hal_state \<Rightarrow> u32" where
  "flash_get_jedecid st =
     push_bit 16 (hs_jedec st AND 0xff) + (hs_jedec st AND 0xff00) + drop_bit 16 (hs_jedec st AND 0xff0000)"

definition flash_set_qspi_enable ::
  "'c sf_ctrl \<Rightarrow> spi_cfg \<Rightarrow> ('c, 'z) sf_state_scheme \<Rightarrow> ('c, 'z) sf_state_scheme" where
  "flash_set_qspi_enable ct m st = (if is_quad m then snd (SFlash_Qspi_Enable (full_ctrl ct) m st) else st)"

definition flash_set_l1c_wrap ::
  "'c sf_ctrl \<Rightarrow> spi_cfg \<Rightarrow> ('c, 'z) sf_state_scheme \<Rightarrow> ('c, 'z) sf_state_scheme" where
  "flash_set_l1c_wrap ct m st =
     (if unwrapped m then st\<lparr>ss_l1c := L1C_Set_Wrap False (ss_l1c st)\<rparr>
      else
        (let st1 = st\<lparr>ss_l1c := L1C_Set_Wrap True (ss_l1c st)\<rparr>
         in if is_quad m then SFlash_SetBurstWrap (full_ctrl ct) m st1 else st1))"

text \<open>
  The configuration \<open>p_flash_cfg\<close> points to is the static one, so the configuration found
  replaces it; the result is the error code and the bytes of the id.
\<close>

definition flash_config_init ::
  "'c sf_ctrl \<Rightarrow> ('c hal_state \<Rightarrow> u32 \<Rightarrow> nat \<Rightarrow> bytes) \<Rightarrow> 'c hal_state \<Rightarrow> (bl_err \<times> bytes) \<times> 'c hal_state" where
  "flash_config_init ct xip st =
     (let m = hs_cfg st;
          (offset, st1) = XIP_SFlash_State_Save ct m (XIP_SFlash_Opt_Enter st);
          (rj, st2) = SFlash_GetJedecId (full_ctrl ct) m st1;
          jid0 = stat_read 0 0 rj;
          jid = jid0 AND 0xFFFFFF;
          ((ret, m1), st3) = cfg_lookup xip jid m (st2\<lparr>hs_jedec := jid\<rparr>);
          m2 = (if ret = SUCCESS then m1\<lparr>cfg_mid := ucast (jid AND 0xff)\<rparr> else m1);
          st4 = flash_set_qspi_enable ct m2 (st3\<lparr>hs_cfg := m2\<rparr>);
          st5 = flash_set_l1c_wrap ct m2 st4;
          st6 = XIP_SFlash_State_Restore ct m2 (cfg_ioMode m2 AND 0x0f) offset st5
      in ((ret, take 3 (le32 jid0)), XIP_SFlash_Opt_Exit st6))"

definition flash_init ::
  "'c sf_ctrl \<Rightarrow> ('c hal_state \<Rightarrow> u32 \<Rightarrow> nat \<Rightarrow> bytes) \<Rightarrow> 'c hal_state \<Rightarrow> bl_err \<times> 'c hal_state" where
  "flash_init ct xip st =
     (let st1 = st\<lparr>ss_l1c := L1C_Cache_Flush_Ext (ss_l1c st)\<rparr>;
          ((_, m1), st2) = cfg_lookup xip 0 (hs_cfg st1) st1;
          st3 = st2\<lparr>hs_cfg := m1, ss_l1c := L1C_Cache_Flush_Ext (ss_l1c st2)\<rparr>
      in if cfg_mid m1 \<noteq> 0xff then (SUCCESS, st3)
         else
           (let m2 = m1\<lparr>cfg_ioMode := cfg_ioMode m1 AND 0x0f\<rparr>;
                ((ret, _), st4) = flash_config_init ct xip (st3\<lparr>hs_cfg := m2\<rparr>)
            in (ret, st4\<lparr>hs_cfg := (hs_cfg st4)\<lparr>cfg_clkDelay := cfg_clkDelay m1, cfg_clkInvert := cfg_clkInvert m1\<rparr>\<rparr>)))"

section \<open>Cache set-up and power down\<close>

definition flash_set_cache ::
  "'c sf_ctrl \<Rightarrow> u8 \<Rightarrow> u8 \<Rightarrow> u8 \<Rightarrow> u32 \<Rightarrow> 'c hal_state \<Rightarrow> bl_err \<times> 'c hal_state" where
  "flash_set_cache ct cont_read cache_enable cache_way_disable flash_offset st =
     (let m = hs_cfg st;
          io = cfg_ioMode m AND 0xf;
          st1 = XIP_SFlash_Opt_Enter (SF_Ctrl_Set_Owner ct SF_CTRL_OWNER_SAHB st);
          st2 = SFlash_Reset_Continue_Read (full_ctrl ct) m st1;
          cont = (if cfg_cReadSupport m = 0 then 0 else cont_read);
          (r, st3) = (if cont = 1 then (let (r, bs, s) = SFlash_Read (full_ctrl ct) (base_cfg m) io True 0 4 st2
                                        in (r, s))
                      else (SUCCESS, st2))
      in if r \<noteq> SUCCESS then (ERROR, XIP_SFlash_Opt_Exit st3)
         else
           (let st4 = st3\<lparr>ss_l1c := L1C_Cache_Enable_Set 0xf (ss_l1c st3)\<rparr>;
                st5 = (if cache_enable \<noteq> 0
                       then snd (SFlash_Cache_Read_Enable ct m io (cont \<noteq> 0) cache_way_disable
                                   (st4\<lparr>ss_offset := flash_offset\<rparr>))
                       else st4)
            in (SUCCESS, XIP_SFlash_Opt_Exit st5)))"

definition SFlash_Restore_From_Powerdown ::
  "'c sf_ctrl \<Rightarrow> spi_cfg \<Rightarrow> bool \<Rightarrow> ('c, 'z) sf_state_scheme \<Rightarrow> bl_err \<times> ('c, 'z) sf_state_scheme" where
  "SFlash_Restore_From_Powerdown ct m flashContRead st =
     (let io = cfg_ioMode m AND 0xf;
          st1 = sc_delay (full_ctrl ct) 120 (SFlash_Releae_Powerdown (full_ctrl ct) m st);
          st2 = snd (SFlash_GetJedecId (full_ctrl ct) m st1);
          st3 = (if is_quad m then snd (SFlash_Qspi_Enable (full_ctrl ct) m st2) else st2);
          st4 = (if unwrapped m then st3\<lparr>ss_l1c := L1C_Set_Wrap False (ss_l1c st3)\<rparr>
                 else SFlash_SetBurstWrap (full_ctrl ct) m
                        (snd (SFlash_Write_Enable (full_ctrl ct) (base_cfg m)
                                (st3\<lparr>ss_l1c := L1C_Set_Wrap True (ss_l1c st3)\<rparr>))))
      in if flashContRead then
           (let (r, bs, st5) = SFlash_Read (full_ctrl ct) (base_cfg m) io True 0 8 st4
            in (r, SF_Ctrl_Set_Owner ct SF_CTRL_OWNER_IAHB st5))
         else SFlash_Set_IDbus_Cfg ct m io False 0 32 st4)"

section \<open>Identification over the pins\<close>

text \<open>
  \<open>SF_Cfg_Flash_Identify\<close> tries the 16 pin assignments (setting one up is the parameter
  \<open>gpio\<close>) until a plausible id is read.
\<close>

definition read_jedec ::
  "(u8 \<Rightarrow> ('c, 'z) sf_state_scheme \<Rightarrow> ('c, 'z) sf_state_scheme) \<Rightarrow> 'c sf_ctrl \<Rightarrow> spi_cfg \<Rightarrow> u8
     \<Rightarrow> ('c, 'z) sf_state_scheme \<Rightarrow> u32 \<times> ('c, 'z) sf_state_scheme" where
  "read_jedec gpio ct m flashPinCfg st =
     (let st1 = SFlash_Releae_Powerdown (full_ctrl ct) m (gpio flashPinCfg st);
          st2 = SFlash_DisableBurstWrap (full_ctrl ct) m (SFlash_Reset_Continue_Read (full_ctrl ct) m st1);
          (rj, st3) = SFlash_GetJedecId (full_ctrl ct) m st2
      in (stat_read 0 0 rj AND 0xffffff, SFlash_DisableBurstWrap (full_ctrl ct) m st3))"

definition implausible :: "u32 \<Rightarrow> bool" where
  "implausible jdecId \<longleftrightarrow> jdecId AND 0x00ffff = 0 \<or> jdecId AND 0xffff00 = 0
     \<or> jdecId AND 0x00ffff = 0xffff \<or> jdecId AND 0xffff00 = 0xffff00"

function pin_scan ::
  "(u8 \<Rightarrow> ('c, 'z) sf_state_scheme \<Rightarrow> ('c, 'z) sf_state_scheme) \<Rightarrow> 'c sf_ctrl \<Rightarrow> spi_cfg \<Rightarrow> nat
     \<Rightarrow> ('c, 'z) sf_state_scheme \<Rightarrow> u32 \<times> ('c, 'z) sf_state_scheme" where
  "pin_scan gpio ct m pin st =
     (if pin > 0x0f then (0, st)
      else
        (let (jdecId, st1) = read_jedec gpio ct m (word_of_nat pin) st
         in if implausible jdecId then pin_scan gpio ct m (pin + 1) st1 else (jdecId, st1)))"
  by pat_completeness auto
termination
  by (relation "measure (\<lambda>(gpio, ct, m, pin, st). 16 - pin)") auto

declare pin_scan.simps [simp del]

definition BFLB_FLASH_ID_VALID_FLAG :: u32 where "BFLB_FLASH_ID_VALID_FLAG = 0x80000000"

definition SF_Cfg_Flash_Identify ::
  "(u8 \<Rightarrow> ('c, 'z) sf_state_scheme \<Rightarrow> ('c, 'z) sf_state_scheme) \<Rightarrow> 'c sf_ctrl \<Rightarrow> bool \<Rightarrow> bool \<Rightarrow> u8
     \<Rightarrow> ('c, 'z) sf_state_scheme \<Rightarrow> (u32 \<times> spi_cfg) \<times> ('c, 'z) sf_state_scheme" where
  "SF_Cfg_Flash_Identify gpio ct callFromFlash autoScan flashPinCfg st =
     (let m = flashCfg_Gd_Q80E_Q16E;
          (offset, st1) = (if callFromFlash then XIP_SFlash_State_Save ct m st else (0, st));
          (jdecId, st2) = (if autoScan then pin_scan gpio ct m 0 st1 else read_jedec gpio ct m flashPinCfg st1);
          (m1, found) = (case flash_info_find flashInfos jdecId of
                           None \<Rightarrow> (m, False) | Some m1 \<Rightarrow> (m1, True));
          st3 = (if callFromFlash then XIP_SFlash_State_Restore ct m1 (cfg_ioMode m1) offset st2 else st2)
      in ((if found then jdecId OR BFLB_FLASH_ID_VALID_FLAG else jdecId, m1), st3))"

definition SF_Cfg_Flash_Identify_Ext ::
  "(u8 \<Rightarrow> ('c, 'z) sf_state_scheme \<Rightarrow> ('c, 'z) sf_state_scheme) \<Rightarrow> 'c sf_ctrl \<Rightarrow> bool \<Rightarrow> bool \<Rightarrow> u8
     \<Rightarrow> ('c, 'z) sf_state_scheme \<Rightarrow> (u32 \<times> spi_cfg) \<times> ('c, 'z) sf_state_scheme" where
  "SF_Cfg_Flash_Identify_Ext gpio ct callFromFlash autoScan flashPinCfg st =
     (let ((ret, m), st1) = SF_Cfg_Flash_Identify gpio ct callFromFlash autoScan flashPinCfg st
      in if ret AND BFLB_FLASH_ID_VALID_FLAG \<noteq> 0 \<and> ret AND 0xFFFFFF \<noteq> 0x134051 then ((ret, m), st1)
         else
           (let jdecId = ret AND 0xffffff
            in case flash_info_find flashInfos_ext jdecId of
                 None \<Rightarrow> ((jdecId, m), st1)
               | Some m1 \<Rightarrow> ((jdecId OR BFLB_FLASH_ID_VALID_FLAG, m1), st1)))"

section \<open>What a start leaves behind\<close>

lemma sahb_updates:
  fixes st :: "'c hal_state"
  shows "(sahb_state st c)\<lparr>hs_jedec := j\<rparr> = sahb_state (st\<lparr>hs_jedec := j\<rparr>) c"
    "(sahb_state st c)\<lparr>hs_cfg := m\<rparr> = sahb_state (st\<lparr>hs_cfg := m\<rparr>) c"
    "(sahb_state st c)\<lparr>ss_l1c := v\<rparr> = sahb_state (st\<lparr>ss_l1c := v\<rparr>) c"
  by (simp_all add: sahb_state_def)

text \<open>The wrap mode of the cache and of the chip.\<close>

lemma set_wrap_sahb:
  fixes st :: "'c hal_state"
  shows "\<exists>v c'. flash_set_l1c_wrap ct m (flash_set_qspi_enable ct m (sahb_state st c)) = sahb_state (st\<lparr>ss_l1c := v\<rparr>) c'"
proof -
  have q: "flash_set_qspi_enable ct m (sahb_state st c)
      = sahb_state st (if is_quad m then snd (SFlash_Qspi_Enable ct m c) else c)"
    by (simp add: flash_set_qspi_enable_def sahb.qspi_enable)
  have w: "SFlash_SetBurstWrap (full_ctrl ct) m (sahb_state s d) = sahb_state s (SFlash_SetBurstWrap ct m d)"
    for s :: "'c hal_state" and d by (simp add: SFlash_SetBurstWrap_def sahb.send)
  show ?thesis
    by (auto simp: flash_set_l1c_wrap_def q sahb_updates w Let_def)
qed

context prompt_ctrl
begin

lemma config_init:
  fixes st :: "'c hal_state"
  assumes jedec: "SFlash_GetJedecId ct (hs_cfg st) (chip_enter ct (hs_cfg st) (ss_chip st)) = (rj, c2)"
  defines "jid \<equiv> stat_read 0 0 rj AND 0xFFFFFF"
  shows "\<exists>s ret m1 m2 st'. fst (cfg_lookup xip jid (hs_cfg st) s) = (ret, m1)
    \<and> ss_owner s = SF_CTRL_OWNER_SAHB \<and> ss_chip s = c2 \<and> ss_offset s = 0
    \<and> m2 = (if ret = SUCCESS then m1\<lparr>cfg_mid := ucast (jid AND 0xff)\<rparr> else m1)
    \<and> flash_config_init ct xip st = ((ret, take 3 (le32 (stat_read 0 0 rj))), st')
    \<and> hs_cfg st' = m2 \<and> hs_jedec st' = jid \<and> ss_owner st' = SF_CTRL_OWNER_IAHB
    \<and> ss_offset st' = ss_offset st \<and> ss_aes st' = ss_aes st
    \<and> (\<forall>i. idbus_cmd m2 (cfg_ioMode m2 AND 0x0f) True 0 32 = Some i \<longrightarrow> ss_icache st' = i)"
proof -
  define m where "m = hs_cfg st"
  define s1 where "s1 = st\<lparr>ss_aesEnable := ss_aes st, ss_aes := False, ss_offset := 0, hs_jedec := jid\<rparr>"
  obtain ret m1 where lk: "fst (cfg_lookup xip jid m (sahb_state s1 c2)) = (ret, m1)" by fastforce
  define m2 where "m2 = (if ret = SUCCESS then m1\<lparr>cfg_mid := ucast (jid AND 0xff)\<rparr> else m1)"
  have look: "cfg_lookup xip jid m (sahb_state s1 c2) = ((ret, m1), sahb_state s1 c2)"
    using lk cfg_lookup_state [of xip jid m "sahb_state s1 c2"] by (metis prod.collapse)
  obtain v c3 where wrap: "flash_set_l1c_wrap ct m2 (flash_set_qspi_enable ct m2 (sahb_state (s1\<lparr>hs_cfg := m2\<rparr>) c2))
      = sahb_state (s1\<lparr>hs_cfg := m2, ss_l1c := v\<rparr>) c3"
    using set_wrap_sahb [of ct m2 "s1\<lparr>hs_cfg := m2\<rparr>" c2] by auto
  have save: "XIP_SFlash_State_Save ct m (XIP_SFlash_Opt_Enter st)
      = (ss_offset st, sahb_state (st\<lparr>ss_aesEnable := ss_aes st, ss_aes := False, ss_offset := 0\<rparr>)
           (chip_enter ct m (ss_chip st)))"
    by (simp add: state_save opt_enter)
  have id: "SFlash_GetJedecId (full_ctrl ct) m (sahb_state s (chip_enter ct m (ss_chip st))) = (rj, sahb_state s c2)"
    for s :: "'c hal_state"
    using jedec by (simp add: SFlash_GetJedecId_def sahb.ask m_def)
  define st' where "st' = XIP_SFlash_Opt_Exit (XIP_SFlash_State_Restore ct m2 (cfg_ioMode m2 AND 0x0f) (ss_offset st)
        (sahb_state (s1\<lparr>hs_cfg := m2, ss_l1c := v\<rparr>) c3))"
  have run: "flash_config_init ct xip st = ((ret, take 3 (le32 (stat_read 0 0 rj))), st')"
    by (simp add: flash_config_init_def m_def [symmetric] save id jid_def [symmetric] sahb_updates
        s1_def [symmetric] look m2_def [symmetric] wrap Let_def st'_def cong: if_cong split del: if_split)
  have "hs_cfg st' = m2 \<and> hs_jedec st' = jid \<and> ss_owner st' = SF_CTRL_OWNER_IAHB
      \<and> ss_offset st' = ss_offset st \<and> ss_aes st' = ss_aes st
      \<and> (\<forall>i. idbus_cmd m2 (cfg_ioMode m2 AND 0x0f) True 0 32 = Some i \<longrightarrow> ss_icache st' = i)"
    unfolding st'_def state_restore by (simp add: XIP_SFlash_Opt_Exit_def s1_def)
  moreover have "ss_owner (sahb_state s1 c2) = SF_CTRL_OWNER_SAHB" "ss_chip (sahb_state s1 c2) = c2"
    "ss_offset (sahb_state s1 c2) = 0"
    by (simp_all add: sahb_state_def s1_def)
  ultimately show ?thesis using run lk m2_def unfolding m_def by blast
qed

end


text \<open>
  What the tables hold for an id: the entry of the first table, corrected for one id, then the
  second table.
\<close>

definition known_cfg :: "u32 \<Rightarrow> spi_cfg option" where
  "known_cfg = flash_info_find ((0x134051, flashCfg_Gd_Md_40D_ext) # flashInfos @ flashInfos_ext)"

lemma flash_info_find_append:
  "flash_info_find (xs @ ys) i = (case flash_info_find xs i of None \<Rightarrow> flash_info_find ys i | Some m \<Rightarrow> Some m)"
  by (induction xs i rule: flash_info_find.induct) auto

lemma known_cfg_sound: "known_cfg i = Some m \<Longrightarrow> cfg_sound m"
  by (auto simp: known_cfg_def sound_Gd_Md_40D_ext dest!: flash_info_find_in intro: sound_tables split: if_splits)

lemma cfg_lookup_known:
  assumes "i \<noteq> 0" "i AND 0xFFFFFF = i"
  shows "fst (cfg_lookup xip i cfg st) = (case known_cfg i of None \<Rightarrow> (ERROR, cfg) | Some m \<Rightarrow> (SUCCESS, m))"
proof -
  have "flash_info_find flashInfos_ext 0x134051 = Some flashCfg_Gd_Md_40D_ext"
    by (simp add: flashInfos_ext_def)
  then show ?thesis
    using assms by (auto simp: cfg_lookup_def SF_Cfg_Get_Flash_Cfg_Need_Lock_Ext_def SF_Cfg_Get_Flash_Cfg_Need_Lock_def
        known_cfg_def flash_info_find_append Let_def split: option.splits)
qed

text \<open>The lookup on any id: for 0, no table is looked at but the boot header read once more.\<close>

definition looked_up ::
  "(('c, 'z) sf_state_scheme \<Rightarrow> u32 \<Rightarrow> nat \<Rightarrow> bytes) \<Rightarrow> u32 \<Rightarrow> ('c, 'z) sf_state_scheme \<Rightarrow> spi_cfg option" where
  "looked_up xip i s = (if i = 0 then stored_cfg (xip s (8 + BL702_FLASH_XIP_BASE) (SPI_CFG_SIZE + 8)) else known_cfg i)"

lemma cfg_lookup_any:
  assumes "i AND 0xFFFFFF = i" "ss_offset s = 0"
  shows "fst (cfg_lookup xip i cfg s) = (case looked_up xip i s of None \<Rightarrow> (ERROR, cfg) | Some m \<Rightarrow> (SUCCESS, m))"
proof (cases "i = 0")
  case True
  have e: "s\<lparr>ss_offset := 0\<rparr> = s" using assms(2) by (cases s) simp
  show ?thesis
    by (simp add: True e assms(2) cfg_lookup_def looked_up_def XIP_SFlash_Read_Via_Cache_Need_Lock_def
        SF_Cfg_Get_Flash_Cfg_Need_Lock_Ext_def BL702_FLASH_XIP_BASE_def BL702_FLASH_XIP_END_def Let_def)
next
  case False
  then show ?thesis using cfg_lookup_known [OF False assms(1)] by (simp add: looked_up_def)
qed

text \<open>The bytes the start reads from the boot header, and the configuration stored there.\<close>

definition boot_header_cfg ::
  "('c hal_state \<Rightarrow> u32 \<Rightarrow> nat \<Rightarrow> bytes) \<Rightarrow> 'c hal_state \<Rightarrow> spi_cfg option" where
  "boot_header_cfg xip st =
     stored_cfg (xip (st\<lparr>ss_l1c := L1C_Cache_Flush_Ext (ss_l1c st), ss_offset := 0\<rparr>)
                     (8 + BL702_FLASH_XIP_BASE) (SPI_CFG_SIZE + 8))"

lemma cfg_lookup_header:
  fixes st :: "'c hal_state"
  shows "fst (cfg_lookup xip 0 cfg (st\<lparr>ss_l1c := L1C_Cache_Flush_Ext (ss_l1c st)\<rparr>))
     = (case boot_header_cfg xip st of None \<Rightarrow> (ERROR, cfg) | Some m \<Rightarrow> (SUCCESS, m))"
proof -
  have "st\<lparr>ss_l1c := v, ss_offset := 0\<rparr> = st\<lparr>ss_offset := 0, ss_l1c := v\<rparr>" for v by simp
  then show ?thesis
    by (simp add: cfg_lookup_def XIP_SFlash_Read_Via_Cache_Need_Lock_def SF_Cfg_Get_Flash_Cfg_Need_Lock_Ext_def
        boot_header_cfg_def BL702_FLASH_XIP_BASE_def BL702_FLASH_XIP_END_def Let_def)
qed

text \<open>
  C36: If the boot header holds no configuration, or one with a manufacturer id other than
  \<open>0xff\<close>, \<open>flash_init\<close> reports success and sends the chip nothing: the configuration is the
  stored one, or else stays as it was --- all zero after a reset, with no command set.
\<close>

theorem flash_init_unidentified:
  fixes st :: "'c hal_state" and xip :: "'c hal_state \<Rightarrow> u32 \<Rightarrow> nat \<Rightarrow> bytes"
  defines "m0 \<equiv> (case boot_header_cfg xip st of None \<Rightarrow> hs_cfg st | Some m \<Rightarrow> m)"
  assumes "cfg_mid m0 \<noteq> 0xff"
  shows "\<exists>v. flash_init ct xip st = (SUCCESS, st\<lparr>hs_cfg := m0, ss_l1c := v\<rparr>)"
proof -
  let ?st1 = "st\<lparr>ss_l1c := L1C_Cache_Flush_Ext (ss_l1c st)\<rparr>"
  obtain r where "cfg_lookup xip 0 (hs_cfg ?st1) ?st1 = ((r, m0), ?st1)"
    using cfg_lookup_header [of xip "hs_cfg st" st] cfg_lookup_state [of xip 0 "hs_cfg st" ?st1] m0_def
    by (cases "boot_header_cfg xip st") (auto simp: prod_eq_iff)
  then show ?thesis using assms(2) by (auto simp: flash_init_def Let_def)
qed

definition zero_cfg :: spi_cfg where "zero_cfg = cfg_of_bytes (replicate SPI_CFG_SIZE 0)"

definition start_state :: "'c \<Rightarrow> 'c hal_state" where
  "start_state c = \<lparr>ss_chip = c, ss_owner = SF_CTRL_OWNER_IAHB, ss_offset = 0x2000, ss_aes = False,
     ss_aesEnable = False, ss_l1c = 0, ss_icache = (sf_cmd_zero, True), hs_jedec = 0, hs_cfg = zero_cfg\<rparr>"

lemma zero_cfg_mid: "cfg_mid zero_cfg = 0"
  by (simp add: zero_cfg_def cfg_of_bytes_def flash_cfg.defs spi_cfg.defs SPI_CFG_SIZE_def)

lemma replicate4: "replicate 4 x = [x, x, x, x]"
  by (simp add: eval_nat_numeral)

text \<open>An erased boot header: the driver starts with the zero configuration.\<close>

theorem flash_init_unidentified_witness:
  "\<exists>v. flash_init sim_ctrl (\<lambda>_ _ n. replicate n 0xff) (start_state demo_chip)
     = (SUCCESS, (start_state demo_chip)\<lparr>hs_cfg := zero_cfg, ss_l1c := v\<rparr>)"
proof -
  have "replicate 4 (0xff :: u8) \<noteq> [0x46, 0x43, 0x46, 0x47]" 
    by (simp add: replicate4)
  then have h: "boot_header_cfg (\<lambda>_ _ n. replicate n 0xff) (start_state demo_chip) = None"
    by (simp add: boot_header_cfg_def stored_cfg_def BFLB_FLASH_CFG_MAGIC_def SPI_CFG_SIZE_def)
  then show ?thesis
    using flash_init_unidentified [where xip = "\<lambda>_ _ n. replicate n 0xff" and st = "start_state demo_chip" and ct = sim_ctrl]
    by (simp add: zero_cfg_mid start_state_def)
qed

text \<open>Fields the identification does not look at.\<close>

lemma cfg_sound_mid: "cfg_sound (m\<lparr>cfg_mid := a\<rparr>) = cfg_sound m"
  and cfg_sound_clk: "cfg_sound (m\<lparr>cfg_clkDelay := b, cfg_clkInvert := c\<rparr>) = cfg_sound m"
  and idbus_clk: "idbus_cmd (m\<lparr>cfg_clkDelay := b, cfg_clkInvert := c\<rparr>) = idbus_cmd m"
  by (simp_all add: cfg_sound_def quiet_opcodes_def cfg_modifying_def base_cfg_simps idbus_cmd_def fun_eq_iff)

definition xip_kept :: "('c, 'z) sf_state_scheme \<Rightarrow> ('c, 'z) sf_state_scheme \<Rightarrow> bool" where
  "xip_kept st st' \<longleftrightarrow> ss_owner st' = SF_CTRL_OWNER_IAHB \<and> ss_offset st' = ss_offset st \<and> ss_aes st' = ss_aes st"

lemma ucast_low_byte: "(ucast (w AND 0xff :: u32) :: u8) = ucast w"
proof -
  have m: "(0xff :: u32) = mask 8" by (simp add: mask_eq_exp_minus_1)
  show ?thesis unfolding m by (auto intro!: bit_word_eqI simp: bit_simps)
qed

context prompt_ctrl
begin

lemma init_identifies:
  fixes st :: "'c hal_state" and xip :: "'c hal_state \<Rightarrow> u32 \<Rightarrow> nat \<Rightarrow> bytes"
  assumes stored: "boot_header_cfg xip st = Some m0" "cfg_mid m0 = 0xff"
  defines "m \<equiv> m0\<lparr>cfg_ioMode := cfg_ioMode m0 AND 0x0f\<rparr>"
  defines "jid \<equiv> stat_read 0 0 (fst (SFlash_GetJedecId ct m (chip_enter ct m (ss_chip st)))) AND 0xFFFFFF"
  shows "\<exists>ret st' s. flash_init ct xip st = (ret, st') \<and> hs_jedec st' = jid \<and> xip_kept st st'
    \<and> ss_owner s = SF_CTRL_OWNER_SAHB \<and> ss_offset s = 0
    \<and> ss_chip s = snd (SFlash_GetJedecId ct m (chip_enter ct m (ss_chip st)))
    \<and> (case looked_up xip jid s of
         None \<Rightarrow> ret = ERROR \<and> hs_cfg st' = m
       | Some m' \<Rightarrow> ret = SUCCESS \<and> (cfg_sound m' \<or> jid = 0)
           \<and> hs_cfg st' = m'\<lparr>cfg_mid := ucast jid, cfg_clkDelay := cfg_clkDelay m0, cfg_clkInvert := cfg_clkInvert m0\<rparr>
           \<and> (cfg_sound m' \<longrightarrow> cfg_sound (hs_cfg st')
                \<and> Some (ss_icache st') = idbus_cmd (hs_cfg st') (cfg_ioMode (hs_cfg st') AND 0x0f) True 0 32))"
proof -
  define st1 where "st1 = st\<lparr>ss_l1c := L1C_Cache_Flush_Ext (ss_l1c st)\<rparr>"
  define st2 where "st2 = st1\<lparr>hs_cfg := m, ss_l1c := L1C_Cache_Flush_Ext (ss_l1c st1)\<rparr>"
  have look: "cfg_lookup xip 0 (hs_cfg st) st1 = ((SUCCESS, m0), st1)"
    using cfg_lookup_header [of xip "hs_cfg st" st] stored cfg_lookup_state [of xip 0 "hs_cfg st" st1]
    by (simp add: prod_eq_iff st1_def)
  have st2: "hs_cfg st2 = m" "ss_chip st2 = ss_chip st" "ss_offset st2 = ss_offset st" "ss_aes st2 = ss_aes st"
    by (simp_all add: st2_def st1_def)
  obtain rj c2 where rj: "SFlash_GetJedecId ct m (chip_enter ct m (ss_chip st)) = (rj, c2)" by fastforce
  then have jid: "jid = stat_read 0 0 rj AND 0xFFFFFF" by (simp add: jid_def)
  obtain s ret m1 m2 st3 where lk: "fst (cfg_lookup xip jid m s) = (ret, m1)"
    and s: "ss_owner s = SF_CTRL_OWNER_SAHB" "ss_chip s = c2" "ss_offset s = 0"
    and m2: "m2 = (if ret = SUCCESS then m1\<lparr>cfg_mid := ucast (jid AND 0xff)\<rparr> else m1)"
    and run: "flash_config_init ct xip st2 = ((ret, take 3 (le32 (stat_read 0 0 rj))), st3)"
    and st3: "hs_cfg st3 = m2" "hs_jedec st3 = jid" "ss_owner st3 = SF_CTRL_OWNER_IAHB"
      "ss_offset st3 = ss_offset st" "ss_aes st3 = ss_aes st"
      "\<forall>i. idbus_cmd m2 (cfg_ioMode m2 AND 0x0f) True 0 32 = Some i \<longrightarrow> ss_icache st3 = i"
    using config_init [of st2 rj c2 xip] rj by (auto simp: st2 jid)
  define st' where "st' = st3\<lparr>hs_cfg := m2\<lparr>cfg_clkDelay := cfg_clkDelay m0, cfg_clkInvert := cfg_clkInvert m0\<rparr>\<rparr>"
  have init: "flash_init ct xip st = (ret, st')"
  proof -
    have "st1\<lparr>hs_cfg := m0, ss_l1c := L1C_Cache_Flush_Ext (ss_l1c st1), hs_cfg := m\<rparr> = st2"
      by (simp add: st2_def)
    moreover have "hs_cfg st1 = hs_cfg st" by (simp add: st1_def)
    ultimately show ?thesis
      using look run st3(1) stored(2)
      by (simp add: flash_init_def st1_def [symmetric] m_def [symmetric] st'_def Let_def)
  qed
  have cfg: "(ret, m1) = (case looked_up xip jid s of None \<Rightarrow> (ERROR, m) | Some m \<Rightarrow> (SUCCESS, m))"
    using cfg_lookup_any [of jid s xip m] s(3) lk by (simp add: jid and.assoc)
  have s2: "ss_chip s = snd (SFlash_GetJedecId ct m (chip_enter ct m (ss_chip st)))" using rj s(2) by simp
  have kept: "hs_jedec st' = jid" "xip_kept st st'" using st3 by (simp_all add: st'_def xip_kept_def)
  have hs: "hs_cfg st' = m2\<lparr>cfg_clkDelay := cfg_clkDelay m0, cfg_clkInvert := cfg_clkInvert m0\<rparr>"
    by (simp add: st'_def)
  have icache: "Some (ss_icache st') = idbus_cmd (hs_cfg st') (cfg_ioMode (hs_cfg st') AND 0x0f) True 0 32"
    if "cfg_sound m2"
    using st3(6) idbus_cmd_exists [OF that, of True 0 32] by (auto simp: st'_def idbus_clk)
  show ?thesis
  proof (cases "looked_up xip jid s")
    case None
    then have "ret = ERROR" "hs_cfg st' = m" using cfg m2 hs by (auto simp: m_def)
    then show ?thesis using None init kept s s2 by auto
  next
    case (Some m')
    then have ret: "ret = SUCCESS" and m2': "m2 = m'\<lparr>cfg_mid := ucast jid\<rparr>"
      using cfg m2 by (auto simp: ucast_low_byte)
    have "cfg_sound m' \<or> jid = 0" using Some by (auto simp: looked_up_def intro: known_cfg_sound split: if_splits)
    moreover have "cfg_sound (hs_cfg st')
        \<and> Some (ss_icache st') = idbus_cmd (hs_cfg st') (cfg_ioMode (hs_cfg st') AND 0x0f) True 0 32" if "cfg_sound m'"
    proof -
      have sound: "cfg_sound m2" using that by (simp add: m2' cfg_sound_mid)
      with icache [OF sound] show ?thesis by (simp add: hs cfg_sound_clk)
    qed
    ultimately show ?thesis using Some init kept ret s s2
      by (intro exI [of _ ret] exI [of _ st'] exI [of _ s]) (simp add: hs m2')
  qed
qed

end

text \<open>
  C11: With a controller that gets idle in time, if the boot header asks for it (manufacturer id \<open>0xff\<close>), \<open>flash_init\<close> identifies the
  chip by its JEDEC id.  With an id of the tables it reports success, with the table's
  configuration, the id's manufacturer and the stored clock settings, the configuration is sound,
  and the bus reads with its command; with any other id but 0 it reports an error and keeps the
  stored configuration.  The id 0, of a chip that answers nothing, is not looked up in a
  table: the boot header is read again, while the system bus owns the controller (state \<open>s\<close>), and if
  a configuration is found there, success is reported with it (not known to be sound, its
  manufacturer id 0).  In all cases the instruction bus owns the controller again, with image
  offset and AES bit kept.
\<close>

theorem flash_init_identifies:
  fixes st :: "'c hal_state" and xip :: "'c hal_state \<Rightarrow> u32 \<Rightarrow> nat \<Rightarrow> bytes"
  assumes ctrl: "prompt_ctrl ct" and stored: "boot_header_cfg xip st = Some m0" "cfg_mid m0 = 0xff"
  defines "m \<equiv> m0\<lparr>cfg_ioMode := cfg_ioMode m0 AND 0x0f\<rparr>"
  defines "jid \<equiv> stat_read 0 0 (fst (SFlash_GetJedecId ct m (chip_enter ct m (ss_chip st)))) AND 0xFFFFFF"
  shows "\<exists>ret st' s. flash_init ct xip st = (ret, st') \<and> hs_jedec st' = jid \<and> xip_kept st st'
    \<and> ss_owner s = SF_CTRL_OWNER_SAHB \<and> ss_offset s = 0
    \<and> ss_chip s = snd (SFlash_GetJedecId ct m (chip_enter ct m (ss_chip st)))
    \<and> (case looked_up xip jid s of
         None \<Rightarrow> ret = ERROR \<and> hs_cfg st' = m
       | Some m' \<Rightarrow> ret = SUCCESS \<and> (cfg_sound m' \<or> jid = 0)
           \<and> hs_cfg st' = m'\<lparr>cfg_mid := ucast jid, cfg_clkDelay := cfg_clkDelay m0, cfg_clkInvert := cfg_clkInvert m0\<rparr>
           \<and> (cfg_sound m' \<longrightarrow> cfg_sound (hs_cfg st')
                \<and> Some (ss_icache st') = idbus_cmd (hs_cfg st') (cfg_ioMode (hs_cfg st') AND 0x0f) True 0 32))"
  unfolding m_def jid_def by (rule prompt_ctrl.init_identifies [OF ctrl stored])

definition id_ctrl :: "bytes \<Rightarrow> unit sf_ctrl" where
  "id_ctrl i = \<lparr>sc_send = (\<lambda>_ _ c. c), sc_busy = (\<lambda>c. (False, c)), sc_buf = (\<lambda>_. i), sc_delay = (\<lambda>_ c. c),
     sc_save = (\<lambda>c. c), sc_restore = (\<lambda>c. c)\<rparr>"

text \<open>A chip that answers with the id of a GD25Q80E, and a header that asks for it.\<close>

definition header_window :: "spi_cfg \<Rightarrow> unit hal_state \<Rightarrow> u32 \<Rightarrow> nat \<Rightarrow> bytes" where
  "header_window m st addr n = packed_cfg m"

definition ask_cfg :: spi_cfg where
  "ask_cfg = flashCfg_Winb_16DV\<lparr>cfg_mid := 0xff, cfg_clkDelay := 2, cfg_clkInvert := 1\<rparr>"

theorem flash_init_identifies_witness:
  "\<exists>st'. flash_init (id_ctrl [0xC8, 0x40, 0x14]) (header_window ask_cfg) (start_state ()) = (SUCCESS, st')
     \<and> hs_jedec st' = 0x1440C8 \<and> xip_kept (start_state ()) st'
     \<and> hs_cfg st' = flashCfg_Gd_Q80E_Q16E\<lparr>cfg_mid := 0xC8, cfg_clkDelay := 2, cfg_clkInvert := 1\<rparr>"
proof -
  have ctrl: "prompt_ctrl (id_ctrl i)" for i
    by unfold_locales (simp add: id_ctrl_def sim_poll_idle)
  have st: "boot_header_cfg (header_window ask_cfg) (start_state ()) = Some ask_cfg"
    unfolding boot_header_cfg_def header_window_def
    by (rule stored_packed) (simp_all add: ask_cfg_def flashCfg_Winb_16DV_def)
  have fields: "cfg_mid ask_cfg = 0xff" "cfg_clkDelay ask_cfg = 2" "cfg_clkInvert ask_cfg = 1"
    by (simp_all add: ask_cfg_def)
  have ask: "fst (SFlash_GetJedecId (id_ctrl [0xC8, 0x40, 0x14]) m c) = Some [0xC8, 0x40, 0x14]" for m c
    by (simp add: SFlash_GetJedecId_def sf_ask_def id_ctrl_def sim_poll_idle)
  have jid: "stat_read 0 0 (Some [0xC8, 0x40, 0x14]) AND 0xFFFFFF = 0x1440C8"
    by (simp add: stat_read_def patch_def le32_def rd32_def)
  have known: "looked_up xip 0x1440C8 s = Some flashCfg_Gd_Q80E_Q16E" for xip :: "unit hal_state \<Rightarrow> u32 \<Rightarrow> nat \<Rightarrow> bytes" and s
    by (simp add: looked_up_def known_cfg_def flashInfos_def)
  have "(0x1440C8 :: u32) \<noteq> 0" "(ucast (0x1440C8 :: u32) :: u8) = 0xC8" by simp_all
  then show ?thesis
    using flash_init_identifies [OF ctrl [of "[0xC8, 0x40, 0x14]"] st fields(1), unfolded ask jid known option.case fields]
    by (elim exE conjE) (rule exI, intro conjI, simp_all only:)
qed

text \<open>
  A chip that answers nothing: with a boot header that asks for the identification and reads the
  same at any time, success is reported and the driver goes on with the stored configuration.
\<close>

lemma silent_chip_succeeds:
  fixes st :: "'c hal_state"
  assumes ctrl: "prompt_ctrl ct" and header: "\<And>s. xip s (8 + BL702_FLASH_XIP_BASE) (SPI_CFG_SIZE + 8) = bs"
    and stored: "stored_cfg bs = Some m0" "cfg_mid m0 = 0xff"
    and silent: "\<And>c. fst (SFlash_GetJedecId ct (m0\<lparr>cfg_ioMode := cfg_ioMode m0 AND 0x0f\<rparr>) c) = Some [0, 0, 0]"
  shows "\<exists>st'. flash_init ct xip st = (SUCCESS, st') \<and> hs_jedec st' = 0 \<and> hs_cfg st' = m0\<lparr>cfg_mid := 0\<rparr>"
proof -
  have h: "boot_header_cfg xip st = Some m0" by (simp add: boot_header_cfg_def header stored(1))
  have l: "looked_up xip 0 s = Some m0" for s by (simp add: looked_up_def header stored(1))
  have z: "stat_read 0 0 (Some [0, 0, 0]) AND 0xFFFFFF = 0" by (simp add: stat_read_def patch_def le32_def rd32_def)
  have m: "m0\<lparr>cfg_mid := 0, cfg_clkDelay := cfg_clkDelay m0, cfg_clkInvert := cfg_clkInvert m0\<rparr> = m0\<lparr>cfg_mid := 0\<rparr>" by simp
  show ?thesis
    using prompt_ctrl.init_identifies [OF ctrl h stored(2)] unfolding silent z by (auto simp: l m)
qed

text \<open>Scanning the pins gives a plausible id or 0, and a valid id comes with a sound configuration.\<close>

lemma pin_scan_plausible:
  "pin_scan gpio ct m pin st = (j, st') \<Longrightarrow> j = 0 \<or> \<not> implausible j"
proof (induction gpio ct m pin st rule: pin_scan.induct)
  case (1 gpio ct m pin st)
  then show ?case by (subst (asm) (2) pin_scan.simps) (auto split: if_splits prod.splits)
qed

lemma identify_sound:
  fixes ct :: "'c sf_ctrl"
  assumes "SF_Cfg_Flash_Identify gpio ct callFromFlash autoScan flashPinCfg st = ((r, m), st')"
  shows "cfg_sound m"
  using assms
  by (auto simp: SF_Cfg_Flash_Identify_def sound_Gd_Q80E_Q16E Let_def dest!: flash_info_find_in
      intro: sound_tables split: prod.splits option.splits if_splits)

end
