(* ===== verification/Sha256.thy ===== *)
theory Sha256
  imports Partition
begin

text \<open>
  What the hash driver and mbed TLS have in common: a message is absorbed piece by piece into a
  buffer of one block, its length is counted in two words, and it is padded as the SHA-2 standard
  says.  The compression function is a parameter here.
\<close>

section \<open>Messages in blocks of 64 bytes\<close>

text \<open>
  The hash state after all whole blocks of a string, for a compression function \<open>f\<close>; an
  incomplete block at the end does not count.
\<close>

function hash_blocks :: "('h \<Rightarrow> bytes \<Rightarrow> 'h) \<Rightarrow> 'h \<Rightarrow> bytes \<Rightarrow> 'h" where
  "hash_blocks f h bs = (if length bs < 64 then h else hash_blocks f (f h (take 64 bs)) (drop 64 bs))"
  by pat_completeness auto
termination
  by (relation "measure (\<lambda>(f, h, bs). length bs)") auto

declare hash_blocks.simps [simp del]

lemma feed_short [simp]: "length bs < 64 \<Longrightarrow> hash_blocks f h bs = h"
  by (simp add: hash_blocks.simps)

lemma feed_block: "length b = 64 \<Longrightarrow> hash_blocks f h (b @ bs) = hash_blocks f (f h b) bs"
  by (subst hash_blocks.simps) simp

lemma feed_one: "length b = 64 \<Longrightarrow> hash_blocks f h b = f h b"
  using feed_block [of b f h "[]"] by simp

lemma feed_append: "64 dvd length xs \<Longrightarrow> hash_blocks f h (xs @ ys) = hash_blocks f (hash_blocks f h xs) ys"
proof (induction f h xs rule: hash_blocks.induct)
  case (1 f h xs)
  show ?case
  proof (cases "length xs < 64")
    case True
    then have "xs = []" using 1(2) by (auto dest: dvd_imp_le)
    then show ?thesis by simp
  next
    case False
    then have l: "length (take 64 xs) = 64" by simp
    have "64 dvd length (drop 64 xs)" using 1(2) False by (auto intro: dvd_diff_nat)
    then have ih: "hash_blocks f (f h (take 64 xs)) (drop 64 xs @ ys) = hash_blocks f (hash_blocks f (f h (take 64 xs)) (drop 64 xs)) ys"
      by (rule 1(1) [OF False])
    have "hash_blocks f h (xs @ ys) = hash_blocks f h (take 64 xs @ drop 64 xs @ ys)"
      by (metis append.assoc append_take_drop_id)
    also have "\<dots> = hash_blocks f (f h (take 64 xs)) (drop 64 xs @ ys)" by (rule feed_block [OF l])
    also have "\<dots> = hash_blocks f (hash_blocks f h (take 64 xs @ drop 64 xs)) ys"
      by (simp only: ih feed_block [OF l])
    finally show ?thesis by simp
  qed
qed

text \<open>The whole blocks of a string and the bytes behind them.\<close>

definition full_part :: "bytes \<Rightarrow> bytes" where
  "full_part bs = take (length bs div 64 * 64) bs"

definition rest_part :: "bytes \<Rightarrow> bytes" where
  "rest_part bs = drop (length bs div 64 * 64) bs"

lemma full_rest: "full_part bs @ rest_part bs = bs"
  by (simp add: full_part_def rest_part_def)

lemma length_full: "length (full_part bs) = length bs div 64 * 64"
  by (simp add: full_part_def min_absorb2 div_times_less_eq_dividend)

lemma length_rest: "length (rest_part bs) = length bs mod 64"
  by (simp add: rest_part_def minus_div_mult_eq_mod)

lemma length_rest_less: "length (rest_part bs) < 64"
  by (simp add: length_rest)

lemma feed_full: "hash_blocks f h (full_part bs) = hash_blocks f h bs"
  using feed_append [of "full_part bs" f h "rest_part bs"]
  by (simp add: length_full length_rest_less full_rest)

lemma parts_append:
  assumes "64 dvd length xs"
  shows "full_part (xs @ ys) = xs @ full_part ys" "rest_part (xs @ ys) = rest_part ys"
  using assms by (auto simp: full_part_def rest_part_def elim!: dvdE)

lemma parts_short:
  "length bs < 64 \<Longrightarrow> full_part bs = []" "length bs < 64 \<Longrightarrow> rest_part bs = bs"
  by (simp_all add: full_part_def rest_part_def)

section \<open>Absorbing a piece of a message\<close>

text \<open>
  What all three implementations do with a piece of a message: fill up the buffer and compress
  it, compress the whole blocks of the rest where they lie, keep what is left over.  \<open>left\<close> is the
  number of bytes in the buffer.
\<close>

definition absorb ::
  "('h \<Rightarrow> bytes \<Rightarrow> 'h) \<Rightarrow> nat \<Rightarrow> bytes \<Rightarrow> bytes \<times> 'h \<Rightarrow> bytes \<times> 'h" where
  "absorb f left input = (\<lambda>(buf, h).
     let fill = 64 - left;
         full = left \<noteq> 0 \<and> fill \<le> length input;
         buf1 = (if full then patch buf left (take fill input) else buf);
         h1 = (if full then f h buf1 else h);
         input1 = (if full then drop fill input else input);
         left1 = (if full then 0 else left)
     in (patch buf1 left1 (rest_part input1), hash_blocks f h1 (full_part input1)))"

text \<open>The buffer and the hash state after a message.\<close>

definition absorbed :: "('h \<Rightarrow> bytes \<Rightarrow> 'h) \<Rightarrow> 'h \<Rightarrow> bytes \<Rightarrow> bytes \<times> 'h \<Rightarrow> bool" where
  "absorbed f iv msg = (\<lambda>(buf, h).
     length buf = 64 \<and> take (length msg mod 64) buf = rest_part msg \<and> h = hash_blocks f iv msg)"

lemma absorbed_empty: "length buf = 64 \<Longrightarrow> absorbed f iv [] (buf, iv)"
  by (simp add: absorbed_def rest_part_def)

lemma rest_unfinished:
  "length (rest_part msg) + length bs < 64 \<Longrightarrow> full_part (msg @ bs) = full_part msg"
  "length (rest_part msg) + length bs < 64 \<Longrightarrow> rest_part (msg @ bs) = rest_part msg @ bs"
  using parts_append [of "full_part msg" "rest_part msg @ bs"] parts_short [of "rest_part msg @ bs"]
  by (simp_all add: length_full flip: append_assoc) (simp_all add: full_rest)

lemma feed_unfinished:
  assumes "length (rest_part msg) + length bs < 64"
  shows "hash_blocks f h (msg @ bs) = hash_blocks f h msg"
  by (metis feed_full rest_unfinished(1) [OF assms])

lemma absorb_ok:
  assumes "absorbed f iv msg s" "length msg mod 64 = left"
  shows "absorbed f iv (msg @ bs) (absorb f left bs s)"
proof -
  obtain buf h where s: "s = (buf, h)" by fastforce
  have buf: "length buf = 64" "take left buf = rest_part msg" "h = hash_blocks f iv msg"
    using assms by (auto simp: absorbed_def s)
  have left: "left < 64" "length (rest_part msg) = left" using assms(2) by (auto simp: length_rest)
  have whole: "absorbed f iv (msg @ bs) (patch b 0 (rest_part ys), hash_blocks f (hash_blocks f iv xs) (full_part ys))"
    if m: "msg @ bs = xs @ ys" and d: "64 dvd length xs" and b: "length b = 64" for xs ys b
  proof -
    obtain k where "length xs = 64 * k" using d by blast
    then have "length (xs @ ys) mod 64 = length (rest_part ys)" by (simp add: length_rest)
    then show ?thesis
      using b length_rest_less [of ys] unfolding absorbed_def m
      by (simp add: feed_full feed_append [OF d] parts_append [OF d] patch_def)
  qed
  consider "left = 0" | "left \<noteq> 0" "64 - left \<le> length bs" | "left \<noteq> 0" "length bs < 64 - left" by linarith
  then show ?thesis
  proof cases
    case 1
    then have "64 dvd length msg" using assms(2) by (simp add: mod_eq_0_iff_dvd)
    then show ?thesis using whole [of msg bs buf] buf 1 by (simp add: absorb_def s Let_def)
  next
    case 2
    define b where "b = rest_part msg @ take (64 - left) bs"
    have b: "length b = 64" using 2 left by (simp add: b_def)
    have p: "patch buf left (take (64 - left) bs) = b"
      using 2 left buf by (simp add: patch_def b_def)
    have m: "msg @ bs = (full_part msg @ b) @ drop (64 - left) bs"
      by (simp add: b_def) (simp add: full_rest flip: append_assoc)
    have "hash_blocks f iv (full_part msg @ b) = f h b"
      using feed_append [of "full_part msg" f iv b] by (simp add: length_full feed_full feed_one b buf(3))
    then show ?thesis
      using whole [OF m _ b] 2 by (simp add: absorb_def s Let_def p length_full b)
  next
    case 3
    then have u: "length (rest_part msg) + length bs < 64" using left by simp
    have "length (msg @ bs) mod 64 = left + length bs"
      using u assms(2) by (metis length_append length_rest left(2) mod_add_left_eq mod_less)
    moreover have "rest_part bs = bs" "full_part bs = []" using 3 by (simp_all add: parts_short)
    ultimately show ?thesis
      using 3 buf u left by (simp add: absorb_def s Let_def absorbed_def rest_unfinished feed_unfinished patch_def)
  qed
qed

section \<open>The length of the message\<close>

definition be32 :: "u32 \<Rightarrow> bytes" where
  "be32 w = [ucast (drop_bit 24 w), ucast (drop_bit 16 w), ucast (drop_bit 8 w), ucast w]"

definition be64 :: "u64 \<Rightarrow> bytes" where
  "be64 w = be32 (ucast (drop_bit 32 w)) @ be32 (ucast w)"

lemma length_be [simp]: "length (be32 v) = 4" "length (be64 w) = 8"
  by (simp_all add: be32_def be64_def)

text \<open>The two words of \<open>total\<close> count bytes; the length field counts bits.\<close>

definition counted :: "u32 \<times> u32 \<Rightarrow> u32 \<Rightarrow> u32 \<times> u32" where
  "counted = (\<lambda>(t0, t1) len. let t = t0 + len in (t, if t < len then t1 + 1 else t1))"

definition msg_len :: "u32 \<times> u32 \<Rightarrow> bytes" where
  "msg_len = (\<lambda>(t0, t1). be32 (drop_bit 29 t0 OR push_bit 3 t1) @ be32 (push_bit 3 t0))"

definition total_of :: "u32 \<times> u32 \<Rightarrow> u64" where
  "total_of = (\<lambda>(t0, t1). ucast t0 OR push_bit 32 (ucast t1))"

lemma u32_less: "unat (w :: u32) < 2 ^ 32" and u64_less: "unat (v :: u64) < 2 ^ 64"
proof -
  have "unat w < 2 ^ LENGTH(32)" "unat v < 2 ^ LENGTH(64)" by (rule unsigned_less)+
  then show "unat w < 2 ^ 32" "unat v < 2 ^ 64" by simp_all
qed

lemma unat_total: "unat (total_of (t0, t1)) = unat t0 + 2 ^ 32 * unat t1"
proof -
  have "total_of (t0, t1) = ucast t0 + push_bit 32 (ucast t1)"
    unfolding total_of_def by (simp, rule disjunctive_add [symmetric]) (auto simp: bit_simps dest: bit_imp_le_length)
  moreover have u: "unat (ucast w :: u64) = unat w" for w :: u32
    using u32_less [of w] by (simp add: unsigned_ucast_eq take_bit_nat_eq_self)
  moreover have "unat (push_bit 32 (ucast t1) :: u64) = 2 ^ 32 * unat t1"
    using u32_less [of t1] by (simp add: push_bit_eq_mult unat_word_ariths u)
  ultimately show ?thesis
    using u32_less [of t0] u32_less [of t1] by (simp add: unat_word_ariths)
qed

lemma unat_mod32: "unat (word_of_nat n :: u32) = n mod 2 ^ 32"
  by (simp add: unsigned_of_nat take_bit_eq_mod)

lemma total_counted:
  assumes "total_of t = word_of_nat n" "len < 2 ^ 32"
  shows "total_of (counted t (word_of_nat len)) = word_of_nat (n + len)"
proof -
  obtain t0 t1 where t: "t = (t0, t1)" by fastforce
  have n: "(unat t0 + 2 ^ 32 * unat t1) mod 2 ^ 64 = n mod 2 ^ 64"
    using arg_cong [OF assms(1), of unat] u32_less [of t0] u32_less [of t1]
    by (simp add: t unat_total unsigned_of_nat take_bit_eq_mod)
  have l: "unat (word_of_nat len :: u32) = len" using assms(2) by (simp add: unat_mod32)
  have "(unat (fst (counted t (word_of_nat len))) + 2 ^ 32 * unat (snd (counted t (word_of_nat len)))) mod 2 ^ 64
      = (unat t0 + 2 ^ 32 * unat t1 + len) mod 2 ^ 64"
  proof (cases "unat t0 + len < 2 ^ 32")
    case True
    then have "unat (t0 + word_of_nat len) = unat t0 + len" using l by (simp add: unat_word_ariths)
    then show ?thesis by (simp add: t counted_def Let_def word_less_nat_alt l ac_simps)
  next
    case False
    have "unat (t0 + word_of_nat len) = (unat t0 + len) mod 2 ^ 32" using l by (simp add: unat_word_ariths)
    also have "\<dots> = (unat t0 + len - 2 ^ 32) mod 2 ^ 32" using False by (intro le_mod_geq) simp
    also have "\<dots> = unat t0 + len - 2 ^ 32" using assms(2) u32_less [of t0] by (intro mod_less) simp
    finally have a: "unat (t0 + word_of_nat len) = unat t0 + len - 2 ^ 32" .
    then have lt: "t0 + word_of_nat len < word_of_nat len"
      using False l assms(2) u32_less [of t0] by (simp add: word_less_nat_alt)
    have m: "2 ^ 32 * unat (t1 + 1) mod 2 ^ 64 = (2 ^ 32 * unat t1 + 2 ^ 32) mod 2 ^ 64"
    proof -
      have u: "unat (t1 + 1) = (unat t1 + 1) mod 2 ^ 32" by (simp add: unat_word_ariths)
      have k: "(2 :: nat) ^ 64 = 2 ^ 32 * 2 ^ 32" by simp
      show ?thesis unfolding u k mult_mod_right mod_mod_trivial distrib_left mult_1_right ..
    qed
    have cong: "(x + b) mod k = (x + c) mod k" if "b mod k = c mod k" for x b c k :: nat
      using that by (metis mod_add_right_eq)
    have sum: "unat t0 + len - 2 ^ 32 + (2 ^ 32 * unat t1 + 2 ^ 32) = unat t0 + 2 ^ 32 * unat t1 + len"
      using False by simp
    have "counted t (word_of_nat len) = (t0 + word_of_nat len, t1 + 1)"
      using lt by (simp add: t counted_def Let_def)
    then show ?thesis by (simp only: fst_conv snd_conv a cong [OF m] sum)
  qed
  then have "unat (total_of (counted t (word_of_nat len))) mod 2 ^ 64 = (n + len) mod 2 ^ 64"
    using n by (metis (no_types, lifting) mod_add_left_eq prod.collapse unat_total)
  then show ?thesis
    using u64_less [of "total_of (counted t (word_of_nat len))"]
    by (simp add: word_eq_unat unsigned_of_nat take_bit_eq_mod del: of_nat_add)
qed

lemma total_left:
  assumes "total_of (t0, t1) = word_of_nat n"
  shows "unat (t0 AND 0x3F) = n mod 64"
proof -
  have "(unat t0 + 2 ^ 32 * unat t1) mod 64 = (n mod 2 ^ 64) mod 64"
    using arg_cong [OF assms, of unat] by (simp add: unat_total unsigned_of_nat take_bit_eq_mod)
  then have "unat t0 mod 64 = n mod 64"
    by (simp add: mod_mod_cancel mod_add_eq flip: mod_add_right_eq)
  moreover have m: "(0x3F :: u32) = mask 6" by (simp add: mask_eq_exp_minus_1)
  ultimately show ?thesis unfolding m unat_and_mask by simp
qed

lemma msg_len_total:
  assumes "total_of t = word_of_nat n"
  shows "msg_len t = be64 (word_of_nat (8 * n))"
proof -
  obtain t0 t1 where t: "t = (t0, t1)" by fastforce
  have "(word_of_nat (8 * n) :: u64) = push_bit 3 (total_of t)"
    by (simp add: assms push_bit_eq_mult)
  moreover have "ucast (drop_bit 32 (push_bit 3 (total_of (t0, t1)))) = drop_bit 29 t0 OR push_bit 3 t1"
    by (rule bit_word_eqI) (auto simp: total_of_def bit_simps dest: bit_imp_le_length)
  moreover have "ucast (push_bit 3 (total_of (t0, t1))) = push_bit 3 t0"
    by (rule bit_word_eqI) (auto simp: total_of_def bit_simps)
  ultimately show ?thesis by (simp add: t msg_len_def be64_def)
qed

section \<open>Padding\<close>

text \<open>
  The padding of the standard: a 1 bit, zeros up to eight bytes before the end of a block, the
  length of the message in bits.
\<close>

definition sha_pad :: "bytes \<Rightarrow> bytes" where
  "sha_pad m = m @ [0x80] @ replicate ((119 - length m mod 64) mod 64) 0 @ be64 (word_of_nat (8 * length m))"

lemma pad_count: "l < 64 \<Longrightarrow> (119 - l) mod 64 = (if l < 56 then 55 - l else 119 - l)" for l :: nat
  using le_mod_geq [of 64 "119 - l"] by (cases "l < 56") simp_all

lemma length_sha_pad: "64 dvd length (sha_pad m)"
proof -
  have "l + 1 + (119 - l) mod 64 + 8 \<in> {64, 128}" if "l < 64" for l :: nat
    using that by (auto simp: pad_count)
  from this [of "length m mod 64"] have "length m mod 64 + 1 + (119 - length m mod 64) mod 64 + 8 \<in> {64, 128}"
    by (simp only: mod_less_divisor zero_less_numeral)
  then have "64 dvd length m mod 64 + 1 + (119 - length m mod 64) mod 64 + 8" by auto
  moreover have "length (sha_pad m) = 64 * (length m div 64) + (length m mod 64 + 1 + (119 - length m mod 64) mod 64 + 8)"
  proof -
    have "length (sha_pad m) = (64 * (length m div 64) + length m mod 64) + (1 + (119 - length m mod 64) mod 64 + 8)"
      unfolding mult_div_mod_eq by (simp add: sha_pad_def)
    then show ?thesis by (simp only: ac_simps)
  qed
  ultimately show ?thesis by (simp only: dvd_add dvd_triv_left)
qed

definition pad_block :: bytes where "pad_block = 0x80 # replicate 63 0"

lemma sha_pad_pieces:
  assumes "total_of t = word_of_nat (length m)"
  shows "sha_pad m = m @ take (if length m mod 64 < 56 then 56 - length m mod 64 else 120 - length m mod 64) pad_block
     @ msg_len t"
proof -
  define l where "l = length m mod 64"
  have l: "l < 64" by (simp add: l_def)
  show ?thesis
  proof (cases "l < 56")
    case True
    then have "(119 - l) mod 64 = 55 - l" using l by (simp add: pad_count)
    moreover have "take (56 - l) pad_block = [0x80] @ replicate (55 - l) 0"
      using True by (simp add: pad_block_def take_Cons')
    ultimately show ?thesis using True by (simp add: sha_pad_def msg_len_total [OF assms] flip: l_def)
  next
    case False
    then have "(119 - l) mod 64 = 119 - l" using l by (simp add: pad_count)
    moreover have "take (120 - l) pad_block = [0x80] @ replicate (119 - l) 0"
      using False l by (simp add: pad_block_def take_Cons')
    ultimately show ?thesis using False by (simp add: sha_pad_def msg_len_total [OF assms] flip: l_def)
  qed
qed

definition sha_state :: "('h \<Rightarrow> bytes \<Rightarrow> 'h) \<Rightarrow> 'h \<Rightarrow> bytes \<Rightarrow> 'h" where
  "sha_state f iv m = hash_blocks f iv (sha_pad m)"


end
