(* ===== verification/MbedSha.thy ===== *)
theory MbedSha
  imports Sha256
begin

text \<open>
  The SHA-256 of mbed TLS (\<open>components/mbedtls/library/sha256.c\<close>, as built: without SHA-224 and
  without an alternative implementation): compression function, streaming, digest.
\<close>

section \<open>The compression function\<close>

definition SHR :: "u32 \<Rightarrow> nat \<Rightarrow> u32" where "SHR x n = drop_bit n (x AND 0xFFFFFFFF)"

definition ROTR :: "u32 \<Rightarrow> nat \<Rightarrow> u32" where "ROTR x n = SHR x n OR push_bit (32 - n) x"

definition S0 :: "u32 \<Rightarrow> u32" where "S0 x = ROTR x 7 XOR ROTR x 18 XOR SHR x 3"

definition S1 :: "u32 \<Rightarrow> u32" where "S1 x = ROTR x 17 XOR ROTR x 19 XOR SHR x 10"

definition S2 :: "u32 \<Rightarrow> u32" where "S2 x = ROTR x 2 XOR ROTR x 13 XOR ROTR x 22"

definition S3 :: "u32 \<Rightarrow> u32" where "S3 x = ROTR x 6 XOR ROTR x 11 XOR ROTR x 25"

definition F0 :: "u32 \<Rightarrow> u32 \<Rightarrow> u32 \<Rightarrow> u32" where "F0 x y z = (x AND y) OR (z AND (x OR y))"

definition F1 :: "u32 \<Rightarrow> u32 \<Rightarrow> u32 \<Rightarrow> u32" where "F1 x y z = z XOR (x AND (y XOR z))"

definition sha_K :: "u32 list" where
  "sha_K =
    [0x428A2F98, 0x71374491, 0xB5C0FBCF, 0xE9B5DBA5, 0x3956C25B, 0x59F111F1, 0x923F82A4, 0xAB1C5ED5,
     0xD807AA98, 0x12835B01, 0x243185BE, 0x550C7DC3, 0x72BE5D74, 0x80DEB1FE, 0x9BDC06A7, 0xC19BF174,
     0xE49B69C1, 0xEFBE4786, 0x0FC19DC6, 0x240CA1CC, 0x2DE92C6F, 0x4A7484AA, 0x5CB0A9DC, 0x76F988DA,
     0x983E5152, 0xA831C66D, 0xB00327C8, 0xBF597FC7, 0xC6E00BF3, 0xD5A79147, 0x06CA6351, 0x14292967,
     0x27B70A85, 0x2E1B2138, 0x4D2C6DFC, 0x53380D13, 0x650A7354, 0x766A0ABB, 0x81C2C92E, 0x92722C85,
     0xA2BFE8A1, 0xA81A664B, 0xC24B8B70, 0xC76C51A3, 0xD192E819, 0xD6990624, 0xF40E3585, 0x106AA070,
     0x19A4C116, 0x1E376C08, 0x2748774C, 0x34B0BCB5, 0x391C0CB3, 0x4ED8AA4A, 0x5B9CCA4F, 0x682E6FF3,
     0x748F82EE, 0x78A5636F, 0x84C87814, 0x8CC70208, 0x90BEFFFA, 0xA4506CEB, 0xBEF9A3F7, 0xC67178F2]"

definition get_be32 :: "bytes \<Rightarrow> nat \<Rightarrow> u32" where
  "get_be32 b i = push_bit 24 (ucast (b ! i)) OR push_bit 16 (ucast (b ! (i + 1)))
     OR push_bit 8 (ucast (b ! (i + 2))) OR ucast (b ! (i + 3))"

text \<open>
  The message schedule: 16 words of the block, then \<open>R(t)\<close> for 48 more.  One round \<open>P\<close> works on
  eight variables whose roles the calls rotate; the tuple rotates instead.
\<close>

definition sha_R :: "u32 list \<Rightarrow> u32" where
  "sha_R W = (let t = length W in S1 (W ! (t - 2)) + W ! (t - 7) + S0 (W ! (t - 15)) + W ! (t - 16))"

primrec sha_schedule :: "nat \<Rightarrow> u32 list \<Rightarrow> u32 list" where
  "sha_schedule 0 W = W"
| "sha_schedule (Suc n) W = sha_schedule n (W @ [sha_R W])"

type_synonym sha_vars = "u32 \<times> u32 \<times> u32 \<times> u32 \<times> u32 \<times> u32 \<times> u32 \<times> u32"

fun sha_P :: "u32 \<times> u32 \<Rightarrow> sha_vars \<Rightarrow> sha_vars" where
  "sha_P (x, k) (a, b, c, d, e, f, g, h) =
     (let temp1 = h + S3 e + F1 e f g + k + x;
          temp2 = S2 a + F0 a b c
      in (temp1 + temp2, a, b, c, d + temp1, e, f, g))"

definition sha_vars_of :: "u32 list \<Rightarrow> sha_vars" where
  "sha_vars_of A = (A ! 0, A ! 1, A ! 2, A ! 3, A ! 4, A ! 5, A ! 6, A ! 7)"

fun sha_list_of :: "sha_vars \<Rightarrow> u32 list" where
  "sha_list_of (a, b, c, d, e, f, g, h) = [a, b, c, d, e, f, g, h]"

definition mbedtls_internal_sha256_process :: "u32 list \<Rightarrow> bytes \<Rightarrow> u32 list" where
  "mbedtls_internal_sha256_process state data =
     (let W = sha_schedule 48 (map (\<lambda>i. get_be32 data (4 * i)) [0..<16]);
          A = fold sha_P (zip W sha_K) (sha_vars_of state)
      in map2 (+) state (sha_list_of A))"

section \<open>The context\<close>

record mb_sha_ctx =
  mb_total :: "u32 \<times> u32"
  mb_state :: "u32 list"
  mb_buffer :: bytes
  mb_is224 :: int

definition mbedtls_sha256_init :: mb_sha_ctx where
  "mbedtls_sha256_init = \<lparr>mb_total = (0, 0), mb_state = replicate 8 0, mb_buffer = replicate 64 0, mb_is224 = 0\<rparr>"

definition sha256_iv :: "u32 list" where
  "sha256_iv = [0x6A09E667, 0xBB67AE85, 0x3C6EF372, 0xA54FF53A, 0x510E527F, 0x9B05688C, 0x1F83D9AB, 0x5BE0CD19]"

text \<open>The build has no SHA-224, so another kind leaves the state as it was.\<close>

definition mbedtls_sha256_starts_ret :: "int \<Rightarrow> mb_sha_ctx \<Rightarrow> mb_sha_ctx" where
  "mbedtls_sha256_starts_ret is224 ctx =
     ctx\<lparr>mb_total := (0, 0), mb_state := (if is224 = 0 then sha256_iv else mb_state ctx), mb_is224 := is224\<rparr>"

text \<open>The loop over the whole blocks: the state and the input behind them.\<close>

function sha_process_loop :: "u32 list \<Rightarrow> bytes \<Rightarrow> u32 list \<times> bytes" where
  "sha_process_loop state input =
     (if 64 \<le> length input then sha_process_loop (mbedtls_internal_sha256_process state (take 64 input)) (drop 64 input)
      else (state, input))"
  by pat_completeness auto
termination
  by (relation "measure (\<lambda>(state, input). length input)") auto

declare sha_process_loop.simps [simp del]

definition mbedtls_sha256_update_ret :: "bytes \<Rightarrow> mb_sha_ctx \<Rightarrow> mb_sha_ctx" where
  "mbedtls_sha256_update_ret input ctx =
     (if input = [] then ctx
      else
        (let left = unat (fst (mb_total ctx) AND 0x3F);
             fill = 64 - left;
             ctx1 = ctx\<lparr>mb_total := counted (mb_total ctx) (word_of_nat (length input))\<rparr>;
             full = left \<noteq> 0 \<and> fill \<le> length input;
             ctx2 = (if full then
                       (let b = patch (mb_buffer ctx1) left (take fill input)
                        in ctx1\<lparr>mb_buffer := b, mb_state := mbedtls_internal_sha256_process (mb_state ctx1) b\<rparr>)
                     else ctx1);
             (state, rest) = sha_process_loop (mb_state ctx2) (if full then drop fill input else input);
             ctx3 = ctx2\<lparr>mb_state := state\<rparr>
         in if rest \<noteq> [] then ctx3\<lparr>mb_buffer := patch (mb_buffer ctx3) (if full then 0 else left) rest\<rparr> else ctx3))"

definition mbedtls_sha256_finish_ret :: "mb_sha_ctx \<Rightarrow> bytes" where
  "mbedtls_sha256_finish_ret ctx =
     (let used = unat (fst (mb_total ctx) AND 0x3F);
          b = patch (mb_buffer ctx) used [0x80];
          used1 = used + 1;
          (b1, state) =
            (if used1 \<le> 56 then (patch b used1 (replicate (56 - used1) 0), mb_state ctx)
             else
               (let b1 = patch b used1 (replicate (64 - used1) 0)
                in (patch b1 0 (replicate 56 0), mbedtls_internal_sha256_process (mb_state ctx) b1)));
          state1 = mbedtls_internal_sha256_process state (patch b1 56 (msg_len (mb_total ctx)))
      in concat (map (\<lambda>i. be32 (state1 ! i)) [0..<8]))"

definition mbedtls_sha256_ret :: "bytes \<Rightarrow> bytes" where
  "mbedtls_sha256_ret input =
     mbedtls_sha256_finish_ret (mbedtls_sha256_update_ret input (mbedtls_sha256_starts_ret 0 mbedtls_sha256_init))"

section \<open>Correctness of the streaming\<close>

lemma sha_process_loop_feed:
  "sha_process_loop state input = (hash_blocks mbedtls_internal_sha256_process state input, rest_part input)"
proof (induction state input rule: sha_process_loop.induct)
  case (1 state input)
  show ?case
  proof (cases "64 \<le> length input")
    case True
    have "rest_part input = rest_part (drop 64 input)"
      using parts_append(2) [of "take 64 input" "drop 64 input"] True by simp
    moreover have "hash_blocks f h input = hash_blocks f (f h (take 64 input)) (drop 64 input)" for f :: "u32 list \<Rightarrow> bytes \<Rightarrow> u32 list" and h
      using True by (subst hash_blocks.simps) simp
    ultimately show ?thesis using 1 [OF True] True by (subst sha_process_loop.simps) simp
  next
    case False
    then show ?thesis by (subst sha_process_loop.simps) (simp add: parts_short)
  qed
qed

definition mb_holds :: "bytes \<Rightarrow> mb_sha_ctx \<Rightarrow> bool" where
  "mb_holds msg ctx \<longleftrightarrow> total_of (mb_total ctx) = word_of_nat (length msg)
     \<and> absorbed mbedtls_internal_sha256_process sha256_iv msg (mb_buffer ctx, mb_state ctx)"

lemma mb_starts: "length (mb_buffer ctx) = 64 \<Longrightarrow> mb_holds [] (mbedtls_sha256_starts_ret 0 ctx)"
  by (simp add: mb_holds_def mbedtls_sha256_starts_ret_def absorbed_empty total_of_def)

lemma mb_update:
  assumes h: "mb_holds msg ctx" and len: "length input < 2 ^ 32"
  shows "mb_holds (msg @ input) (mbedtls_sha256_update_ret input ctx)"
proof (cases "input = []")
  case True
  then show ?thesis using h by (simp add: mbedtls_sha256_update_ret_def)
next
  case False
  define left where "left = length msg mod 64"
  define fill where "fill = 64 - left"
  define full where "full \<longleftrightarrow> left \<noteq> 0 \<and> fill \<le> length input"
  have left: "unat (fst (mb_total ctx) AND 0x3F) = left"
    using h total_left [of "fst (mb_total ctx)" "snd (mb_total ctx)" "length msg"] by (simp add: mb_holds_def left_def)
  have ab: "absorbed mbedtls_internal_sha256_process sha256_iv msg (mb_buffer ctx, mb_state ctx)"
    using h by (simp add: mb_holds_def)
  have tot: "total_of (counted (mb_total ctx) (word_of_nat (length input))) = word_of_nat (length (msg @ input))"
    using h total_counted [OF _ len, of "mb_total ctx" "length msg"] by (simp add: mb_holds_def)
  define ctx' where "ctx' = mbedtls_sha256_update_ret input ctx"
  have p: "patch b k [] = b" for b :: bytes and k by (simp add: patch_def)
  have "(mb_buffer ctx', mb_state ctx') = absorb mbedtls_internal_sha256_process left input (mb_buffer ctx, mb_state ctx)"
    using False by (auto simp: ctx'_def mbedtls_sha256_update_ret_def absorb_def left sha_process_loop_feed feed_full p Let_def
        simp flip: fill_def full_def)
  moreover have "mb_total ctx' = counted (mb_total ctx) (word_of_nat (length input))"
    using False by (simp add: ctx'_def mbedtls_sha256_update_ret_def left sha_process_loop_feed Let_def)
  ultimately have "mb_holds (msg @ input) ctx'"
    using absorb_ok [OF ab left_def [symmetric], of input] tot by (simp add: mb_holds_def)
  then show ?thesis by (simp add: ctx'_def)
qed

lemma patch_at_end: "length xs = n \<Longrightarrow> n + length bs \<le> length s \<Longrightarrow> take n s = xs \<Longrightarrow>
    patch s n bs = xs @ bs @ drop (n + length bs) s"
  by (simp add: patch_def)

lemma mb_finish:
  assumes h: "mb_holds m ctx"
  shows "mbedtls_sha256_finish_ret ctx
    = concat (map (\<lambda>i. be32 (sha_state mbedtls_internal_sha256_process sha256_iv m ! i)) [0..<8])"
proof -
  let ?f = mbedtls_internal_sha256_process
  define l where "l = length m mod 64"
  define len where "len = msg_len (mb_total ctx)"
  have tot: "total_of (mb_total ctx) = word_of_nat (length m)" using h by (simp add: mb_holds_def)
  have l: "unat (fst (mb_total ctx) AND 0x3F) = l" "l < 64"
    using h total_left [of "fst (mb_total ctx)" "snd (mb_total ctx)" "length m"] by (simp_all add: mb_holds_def l_def)
  have len: "length len = 8" by (simp add: len_def msg_len_def case_prod_unfold)
  have buf: "length (mb_buffer ctx) = 64" "take l (mb_buffer ctx) = rest_part m" "mb_state ctx = hash_blocks ?f sha256_iv (full_part m)"
    using h by (simp_all add: mb_holds_def absorbed_def l_def feed_full)
  have r: "length (rest_part m) = l" by (simp add: length_rest l_def)
  define b where "b = patch (mb_buffer ctx) l [0x80]"
  have b: "length b = 64" "take (l + 1) b = rest_part m @ [0x80]"
    using l buf r by (simp_all add: b_def patch_def)
  define pad where "pad = take (if l < 56 then 56 - l else 120 - l) pad_block"
  have sp: "sha_pad m = full_part m @ rest_part m @ pad @ len"
    using sha_pad_pieces [OF tot] by (simp add: pad_def l_def len_def) (simp add: full_rest flip: append_assoc)
  have state: "sha_state ?f sha256_iv m = hash_blocks ?f (mb_state ctx) (rest_part m @ pad @ len)"
    unfolding sha_state_def sp using feed_append [of "full_part m"] by (simp add: length_full buf(3))
  show ?thesis
  proof (cases "l + 1 \<le> 56")
    case True
    define b1 where "b1 = patch b (l + 1) (replicate (56 - (l + 1)) 0)"
    have pd: "pad = 0x80 # replicate (56 - (l + 1)) 0" using True by (simp add: pad_def pad_block_def take_Cons')
    have "b1 = (rest_part m @ pad) @ drop 56 b"
      unfolding b1_def pd using True b r by (subst patch_at_end) simp_all
    moreover have "length (rest_part m @ pad) = 56" using True r by (simp add: pd)
    ultimately have t: "take 56 b1 = rest_part m @ pad" "length b1 = 64" using b(1) by simp_all
    then have "patch b1 56 len = rest_part m @ pad @ len"
      using len r True by (subst patch_at_end [where xs = "rest_part m @ pad"]) (simp_all add: pd)
    moreover have "length (rest_part m @ pad @ len) = 64" using len r True by (simp add: pd)
    ultimately have "?f (mb_state ctx) (patch b1 56 len) = sha_state ?f sha256_iv m" by (simp add: state feed_one)
    then show ?thesis
      using True b1_def by (simp add: mbedtls_sha256_finish_ret_def l(1) Let_def flip: b_def len_def)
  next
    case False
    define b1 where "b1 = patch b (l + 1) (replicate (64 - (l + 1)) 0)"
    define b2 where "b2 = patch b1 0 (replicate 56 0)"
    have "pad = [0x80] @ replicate (119 - l) 0" using False l(2) by (simp add: pad_def pad_block_def take_Cons')
    also have "119 - l = 64 - (l + 1) + 56" using l(2) by simp
    finally have pd: "pad = ([0x80] @ replicate (64 - (l + 1)) 0) @ replicate 56 0" by (simp only: replicate_add append_assoc)
    have b1: "b1 = rest_part m @ [0x80] @ replicate (64 - (l + 1)) 0"
      unfolding b1_def using l(2) b r by (subst patch_at_end) simp_all
    then have "length b1 = 64" using r l(2) by simp
    then have b2: "take 56 b2 = replicate 56 0" "length b2 = 64" by (simp_all add: b2_def patch_def)
    then have "patch b2 56 len = replicate 56 0 @ len"
      using len by (subst patch_at_end [where xs = "replicate 56 0"]) simp_all
    moreover have "sha_state ?f sha256_iv m = hash_blocks ?f (?f (mb_state ctx) b1) (replicate 56 0 @ len)"
      unfolding state pd using feed_block [OF \<open>length b1 = 64\<close>, of ?f "mb_state ctx" "replicate 56 0 @ len"] by (simp add: b1)
    ultimately have "?f (?f (mb_state ctx) b1) (patch b2 56 len) = sha_state ?f sha256_iv m"
      using len by (simp add: feed_one)
    then show ?thesis
      using False b1_def b2_def by (simp add: mbedtls_sha256_finish_ret_def l(1) Let_def flip: b_def len_def)
  qed
qed

text \<open>A message in pieces.\<close>

definition mb_session :: "bytes list \<Rightarrow> bytes" where
  "mb_session pieces = mbedtls_sha256_finish_ret
     (fold mbedtls_sha256_update_ret pieces (mbedtls_sha256_starts_ret 0 mbedtls_sha256_init))"

lemma mb_session_digest:
  assumes "\<forall>p \<in> set ps. length p < 2 ^ 32"
  shows "mb_session ps
    = concat (map (\<lambda>i. be32 (sha_state mbedtls_internal_sha256_process sha256_iv (concat ps) ! i)) [0..<8])"
proof -
  have "mb_holds (m @ concat ps) (fold mbedtls_sha256_update_ret ps ctx)" if "mb_holds m ctx" for m ctx
    using that assms by (induction ps arbitrary: m ctx) (simp, force dest: mb_update)
  from this [OF mb_starts] show ?thesis
    unfolding mb_session_def by (intro mb_finish) (simp add: mbedtls_sha256_init_def)
qed

section \<open>A test vector\<close>

text \<open>The first vector of the self test of the file: the digest of \<open>abc\<close>.\<close>

definition abc_block :: bytes where
  "abc_block = [0x61, 0x62, 0x63, 0x80] @ replicate 59 0 @ [24]"

lemma process_abc: "mbedtls_internal_sha256_process sha256_iv abc_block =
  [0xba7816bf, 0x8f01cfea, 0x414140de, 0x5dae2223, 0xb00361a3, 0x96177a9c, 0xb410ff61, 0xf20015ad]"
  by code_simp

lemma sha256_abc: "mb_session [[0x61, 0x62, 0x63]] =
  [0xba, 0x78, 0x16, 0xbf, 0x8f, 0x01, 0xcf, 0xea, 0x41, 0x41, 0x40, 0xde, 0x5d, 0xae, 0x22, 0x23,
   0xb0, 0x03, 0x61, 0xa3, 0x96, 0x17, 0x7a, 0x9c, 0xb4, 0x10, 0xff, 0x61, 0xf2, 0x00, 0x15, 0xad]"
proof -
  have "sha_pad [0x61, 0x62, 0x63] = abc_block"
    by (simp add: sha_pad_def abc_block_def be64_def be32_def) (simp add: eval_nat_numeral)
  moreover have "length abc_block = 64" by (simp add: abc_block_def)
  ultimately have "sha_state mbedtls_internal_sha256_process sha256_iv [0x61, 0x62, 0x63]
      = [0xba7816bf, 0x8f01cfea, 0x414140de, 0x5dae2223, 0xb00361a3, 0x96177a9c, 0xb410ff61, 0xf20015ad]"
    by (simp add: sha_state_def feed_one process_abc)
  then show ?thesis by (simp add: mb_session_digest be32_def upt_rec)
qed

end
