(* ===== verification/ShaEngine.thy ===== *)
theory ShaEngine
  imports MbedSha
begin

text \<open>
  The driver of the hash engine (\<open>bl702_sec_eng.c\<close>, functions \<open>Sec_Eng_SHA256_*\<close>) and the hash
  device over it (\<open>hal_sec_hash.c\<close>) that the boot loader digests images with.  The engine is a
  parameter, its manual the locale \<open>sha_engine\<close>.
\<close>

section \<open>The SHA engine\<close>

text \<open>
  \<open>SEC_ENG_SHA_Type\<close>, and the engine as the driver sees it: a read of the control register shows
  whether it is busy, a start gives it the continue bit (\<open>HASH_SEL\<close>), the 16-bit number of blocks
  (\<open>MSG_LEN\<close>) and the memory the source address points to; the result registers hold the hash.
  What an engine does with them is a parameter.  The driver waits until the engine is idle
  before it changes memory it has given to it.
\<close>

datatype sha_type = SEC_ENG_SHA256 | SEC_ENG_SHA224 | SEC_ENG_SHA1 | SEC_ENG_SHA1_RSVD

record 'e sha_regs =
  se_busy :: "'e \<Rightarrow> bool \<times> 'e"
  se_set_mode :: "sha_type \<Rightarrow> 'e \<Rightarrow> 'e"
  se_mode :: "'e \<Rightarrow> sha_type"
  se_enable :: "bool \<Rightarrow> 'e \<Rightarrow> 'e"
  se_start :: "bool \<Rightarrow> u16 \<Rightarrow> bytes \<Rightarrow> 'e \<Rightarrow> 'e"
  se_hash :: "'e \<Rightarrow> nat \<Rightarrow> u32"

definition SEC_ENG_SHA_BUSY_TIMEOUT_COUNT :: nat where
  "SEC_ENG_SHA_BUSY_TIMEOUT_COUNT = 100 * 160 * 1000"

text \<open>The waiting loop: the last of \<open>n\<close> reads is a time-out, whatever it reads.\<close>

fun sha_wait :: "'e sha_regs \<Rightarrow> nat \<Rightarrow> 'e \<Rightarrow> bl_err \<times> 'e" where
  "sha_wait g 0 e = (TIMEOUT, e)"
| "sha_wait g (Suc n) e =
     (let (b, e1) = se_busy g e
      in if n = 0 then (TIMEOUT, e1) else if b then sha_wait g n e1 else (SUCCESS, e1))"

definition sha_idle :: "'e sha_regs \<Rightarrow> 'e \<Rightarrow> bl_err \<times> 'e" where
  "sha_idle g = sha_wait g SEC_ENG_SHA_BUSY_TIMEOUT_COUNT"

text \<open>The context; the two buffers the caller provides are part of it here.\<close>

record sha_ctx =
  hc_total :: "u32 \<times> u32"
  hc_buf :: bytes
  hc_padding :: bytes
  hc_feed :: bool

definition Sec_Eng_SHA256_Init ::
  "'e sha_regs \<Rightarrow> sha_type \<Rightarrow> bytes \<Rightarrow> bytes \<Rightarrow> 'e \<Rightarrow> sha_ctx \<times> 'e" where
  "Sec_Eng_SHA256_Init g shaType shaTmpBuf padding e =
     (\<lparr>hc_total = (0, 0), hc_buf = shaTmpBuf, hc_padding = patch (patch padding 0 (replicate 64 0)) 0 [0x80],
       hc_feed = False\<rparr>, se_set_mode g shaType e)"

definition Sec_Eng_SHA_Start :: "'e sha_regs \<Rightarrow> 'e \<Rightarrow> 'e" where
  "Sec_Eng_SHA_Start g e = se_enable g True e"

text \<open>
  An update: complete the buffered block, hash the whole blocks where they lie, buffer the rest;
  before each of the steps wait for the engine.
\<close>

definition sha_update_rest ::
  "'e sha_regs \<Rightarrow> nat \<Rightarrow> bytes \<Rightarrow> sha_ctx \<Rightarrow> 'e \<Rightarrow> bl_err \<times> sha_ctx \<times> 'e" where
  "sha_update_rest g left input ctx e =
     (if input \<noteq> [] then
        (let (r, e1) = sha_idle g e
         in if r \<noteq> SUCCESS then (r, ctx, e1)
            else
              (let ctx1 = ctx\<lparr>hc_buf := patch (hc_buf ctx) left input\<rparr>;
                   (r, e2) = sha_idle g e1
               in (r, ctx1, e2)))
      else (let (r, e1) = sha_idle g e in (r, ctx, e1)))"

definition sha_update_blocks ::
  "'e sha_regs \<Rightarrow> nat \<Rightarrow> bytes \<Rightarrow> sha_ctx \<Rightarrow> 'e \<Rightarrow> bl_err \<times> sha_ctx \<times> 'e" where
  "sha_update_blocks g left input ctx e =
     (let fill = length input div 64
      in if fill > 0 then
           (let (r, e1) = sha_idle g e
            in if r \<noteq> SUCCESS then (r, ctx, e1)
               else sha_update_rest g left (drop (fill * 64) input) (ctx\<lparr>hc_feed := True\<rparr>)
                      (se_start g (hc_feed ctx) (word_of_nat fill) input e1))
         else sha_update_rest g left input ctx e)"

definition Sec_Eng_SHA256_Update ::
  "'e sha_regs \<Rightarrow> bytes \<Rightarrow> sha_ctx \<Rightarrow> 'e \<Rightarrow> bl_err \<times> sha_ctx \<times> 'e" where
  "Sec_Eng_SHA256_Update g input ctx e =
     (if input = [] then (SUCCESS, ctx, e)
      else
        (let (r, e1) = sha_idle g e
         in if r \<noteq> SUCCESS then (r, ctx, e1)
            else
              (let left = unat (fst (hc_total ctx) AND 0x3F);
                   fill = 64 - left;
                   ctx1 = ctx\<lparr>hc_total := counted (hc_total ctx) (word_of_nat (length input))\<rparr>
               in if left \<noteq> 0 \<and> fill \<le> length input then
                    (let ctx2 = ctx1\<lparr>hc_buf := patch (hc_buf ctx1) left (take fill input)\<rparr>
                     in sha_update_blocks g 0 (drop fill input) (ctx2\<lparr>hc_feed := True\<rparr>)
                          (se_start g (hc_feed ctx2) 1 (hc_buf ctx2) e1))
                  else sha_update_blocks g left input ctx1 e1)))"

text \<open>The bytes of the result registers: five, seven or eight words.\<close>

definition sha_words :: "sha_type \<Rightarrow> nat" where
  "sha_words t = (case t of SEC_ENG_SHA256 \<Rightarrow> 8 | SEC_ENG_SHA224 \<Rightarrow> 7 | _ \<Rightarrow> 5)"

definition sha_result :: "'e sha_regs \<Rightarrow> 'e \<Rightarrow> bytes" where
  "sha_result g e = concat (map (\<lambda>i. le32 (se_hash g e i)) [0..<sha_words (se_mode g e)])"

text \<open>The result of the two updates is not looked at.  Without a digest the caller's buffer is unchanged.\<close>

definition Sec_Eng_SHA256_Finish ::
  "'e sha_regs \<Rightarrow> sha_ctx \<Rightarrow> 'e \<Rightarrow> (bl_err \<times> bytes option) \<times> sha_ctx \<times> 'e" where
  "Sec_Eng_SHA256_Finish g ctx e =
     (let (r, e1) = sha_idle g e
      in if r \<noteq> SUCCESS then ((r, None), ctx, e1)
         else
           (let len = msg_len (hc_total ctx);
                last = unat (fst (hc_total ctx) AND 0x3F);
                padn = (if last < 56 then 56 - last else 120 - last);
                (_, ctx1, e2) = Sec_Eng_SHA256_Update g (take padn (hc_padding ctx)) ctx e1;
                (r, e3) = sha_idle g e2
            in if r \<noteq> SUCCESS then ((r, None), ctx1, e3)
               else
                 (let ctx2 = ctx1\<lparr>hc_padding := patch (hc_padding ctx1) 0 len\<rparr>;
                      (_, ctx3, e4) = Sec_Eng_SHA256_Update g (take 8 (hc_padding ctx2)) ctx2 e3;
                      (r, e5) = sha_idle g e4
                  in if r \<noteq> SUCCESS then ((r, None), ctx3, e5)
                     else ((SUCCESS, Some (sha_result g e5)), ctx3, se_enable g False e5))))"

section \<open>What an engine has to do\<close>

text \<open>
  The manual of the engine: it gets idle in time; a read of the control register changes
  nothing else; a start hashes the given number of blocks, from the initial value of the mode or,
  with the continue bit, from the state it has; the result registers show the state.
\<close>

locale sha_engine =
  fixes g :: "'e sha_regs" and on :: "'e \<Rightarrow> bool" and hash :: "'e \<Rightarrow> 'h"
    and compress :: "'h \<Rightarrow> bytes \<Rightarrow> 'h" and iv :: "sha_type \<Rightarrow> 'h" and out :: "'h \<Rightarrow> nat \<Rightarrow> u32"
  assumes ends: "fst (sha_idle g e) = SUCCESS"
    and read_frame: "on (snd (se_busy g e)) = on e" "hash (snd (se_busy g e)) = hash e"
      "se_mode g (snd (se_busy g e)) = se_mode g e"
    and set_mode: "se_mode g (se_set_mode g t e) = t"
    and enable: "on (se_enable g b e) = b" "se_mode g (se_enable g b e) = se_mode g e"
    and start_frame: "on (se_start g sel n src e) = on e" "se_mode g (se_start g sel n src e) = se_mode g e"
    and start: "on e \<Longrightarrow> unat n * 64 \<le> length src \<Longrightarrow>
      hash (se_start g sel n src e) = hash_blocks compress (if sel then hash e else iv (se_mode g e)) (take (unat n * 64) src)"
    and result: "se_hash g e i = out (hash e) i"
begin

lemma wait_frame:
  "on (snd (sha_wait g n e)) = on e" "hash (snd (sha_wait g n e)) = hash e"
  "se_mode g (snd (sha_wait g n e)) = se_mode g e"
  by (induction n arbitrary: e) (auto simp: read_frame case_prod_unfold Let_def)

text \<open>Waiting succeeds and leaves a state that looks the same.\<close>

definition same :: "'e \<Rightarrow> 'e \<Rightarrow> bool" where
  "same e e' \<longleftrightarrow> on e' = on e \<and> hash e' = hash e \<and> se_mode g e' = se_mode g e"

lemma idle: obtains e' where "sha_idle g e = (SUCCESS, e')" "same e e'"
proof -
  have "sha_idle g e = (SUCCESS, snd (sha_idle g e))" using ends [of e] by (simp add: prod_eq_iff)
  moreover have "same e (snd (sha_idle g e))" by (simp add: same_def sha_idle_def wait_frame)
  ultimately show ?thesis using that by blast
qed

text \<open>The hash state the next block continues from.\<close>

definition state :: "sha_ctx \<Rightarrow> 'e \<Rightarrow> 'h" where
  "state ctx e = (if hc_feed ctx then hash e else iv (se_mode g e))"

lemma state_same: "same e e' \<Longrightarrow> state ctx e' = state ctx e"
  by (simp add: same_def state_def)

lemma rest_runs:
  assumes "on e"
  obtains e' where "sha_update_rest g left input ctx e
      = (SUCCESS, ctx\<lparr>hc_buf := (if input = [] then hc_buf ctx else patch (hc_buf ctx) left input)\<rparr>, e')"
    "same e e'"
proof (cases "input = []")
  case True
  obtain e1 where "sha_idle g e = (SUCCESS, e1)" "same e e1" by (rule idle)
  then show ?thesis using that [of e1] True by (simp add: sha_update_rest_def)
next
  case False
  obtain e1 where 1: "sha_idle g e = (SUCCESS, e1)" "same e e1" by (rule idle)
  obtain e2 where 2: "sha_idle g e1 = (SUCCESS, e2)" "same e1 e2" by (rule idle)
  show ?thesis
  proof (rule that [of e2])
    show "same e e2" using 1(2) 2(2) by (simp add: same_def)
  qed (use False in \<open>simp add: sha_update_rest_def 1(1) 2(1) Let_def\<close>)
qed

lemma blocks_run:
  assumes on: "on e" and len: "length input < 2 ^ 22"
  obtains ctx' e' where "sha_update_blocks g left input ctx e = (SUCCESS, ctx', e')"
    "on e'" "se_mode g e' = se_mode g e" "hc_total ctx' = hc_total ctx" "hc_padding ctx' = hc_padding ctx"
    "hc_buf ctx' = (if rest_part input = [] then hc_buf ctx else patch (hc_buf ctx) left (rest_part input))"
    "state ctx' e' = hash_blocks compress (state ctx e) (full_part input)"
    "hc_feed ctx' \<longleftrightarrow> hc_feed ctx \<or> 64 \<le> length input"
proof (cases "length input div 64 = 0")
  case True
  then have short: "length input < 64" by (simp add: div_eq_0_iff)
  obtain e1 where "sha_update_rest g left input ctx e
      = (SUCCESS, ctx\<lparr>hc_buf := (if input = [] then hc_buf ctx else patch (hc_buf ctx) left input)\<rparr>, e1)" "same e e1"
    using rest_runs [OF on] by metis
  then show ?thesis
    using on short
    by (intro that [of "ctx\<lparr>hc_buf := (if input = [] then hc_buf ctx else patch (hc_buf ctx) left input)\<rparr>" e1])
      (auto simp: sha_update_blocks_def True parts_short same_def state_def)
next
  case False
  define n where "n = length input div 64"
  have n: "unat (word_of_nat n :: u16) = n"
    using len by (simp add: n_def unsigned_of_nat take_bit_nat_eq_self less_mult_imp_div_less)
  obtain e1 where 1: "sha_idle g e = (SUCCESS, e1)" "same e e1" by (rule idle)
  define e2 where "e2 = se_start g (hc_feed ctx) (word_of_nat n) input e1"
  have on2: "on e2" using on 1(2) by (simp add: e2_def start_frame same_def)
  have h2: "hash e2 = hash_blocks compress (state ctx e) (full_part input)"
    using on 1(2) by (subst e2_def, subst start) (auto simp: same_def n state_def full_part_def n [unfolded n_def] n_def div_times_less_eq_dividend)
  let ?ctx = "ctx\<lparr>hc_feed := True\<rparr>"
  obtain e3 where 3: "sha_update_rest g left (rest_part input) ?ctx e2
      = (SUCCESS, ?ctx\<lparr>hc_buf := (if rest_part input = [] then hc_buf ?ctx else patch (hc_buf ?ctx) left (rest_part input))\<rparr>, e3)"
    "same e2 e3" using rest_runs [OF on2] by metis
  have run: "sha_update_blocks g left input ctx e = sha_update_rest g left (rest_part input) ?ctx e2"
    using False by (simp add: sha_update_blocks_def 1(1) e2_def rest_part_def n_def Let_def)
  have "64 \<le> length input" using False by (simp add: div_eq_0_iff)
  show ?thesis
  proof (rule that [OF trans [OF run 3(1)]])
    show "hc_feed (?ctx\<lparr>hc_buf := b\<rparr>) \<longleftrightarrow> hc_feed ctx \<or> 64 \<le> length input" for b
      using \<open>64 \<le> length input\<close> by simp
    show "se_mode g e3 = se_mode g e" using 1(2) 3(2) by (simp add: same_def e2_def start_frame)
  qed (use 3(2) on2 h2 in \<open>simp_all add: same_def state_def\<close>)
qed

text \<open>The invariant of a context: which message it has absorbed.\<close>

definition holds :: "bytes \<Rightarrow> sha_ctx \<Rightarrow> 'e \<Rightarrow> bool" where
  "holds msg ctx e \<longleftrightarrow> on e \<and> total_of (hc_total ctx) = word_of_nat (length msg)
     \<and> (hc_feed ctx \<longleftrightarrow> 64 \<le> length msg) \<and> absorbed compress (iv (se_mode g e)) msg (hc_buf ctx, state ctx e)"

lemma holds_same: "same e e' \<Longrightarrow> holds msg ctx e \<Longrightarrow> holds msg ctx e'"
  by (simp add: holds_def state_same) (simp add: same_def)

lemma update_holds:
  assumes h: "holds msg ctx e" and len: "length input < 2 ^ 22"
  obtains ctx' e' where "Sec_Eng_SHA256_Update g input ctx e = (SUCCESS, ctx', e')" "holds (msg @ input) ctx' e'"
    "hc_padding ctx' = hc_padding ctx" "se_mode g e' = se_mode g e"
proof (cases "input = []")
  case True
  then show ?thesis using h by (intro that [of ctx e]) (auto simp: Sec_Eng_SHA256_Update_def)
next
  case False
  obtain e1 where 1: "sha_idle g e = (SUCCESS, e1)" "same e e1" by (rule idle)
  define left where "left = length msg mod 64"
  define fill where "fill = 64 - left"
  define ctx1 where "ctx1 = ctx\<lparr>hc_total := counted (hc_total ctx) (word_of_nat (length input))\<rparr>"
  have left: "unat (fst (hc_total ctx) AND 0x3F) = left" "left < 64"
    using h total_left [of "fst (hc_total ctx)" "snd (hc_total ctx)" "length msg"] by (simp_all add: holds_def left_def)
  have tot: "total_of (hc_total ctx1) = word_of_nat (length (msg @ input))"
    using h len total_counted [of "hc_total ctx" "length msg" "length input"] by (simp add: ctx1_def holds_def)
  have h1: "holds msg ctx e1" by (rule holds_same [OF 1(2) h])
  then have ab: "absorbed compress (iv (se_mode g e1)) msg (hc_buf ctx, state ctx e1)" and on1: "on e1"
    by (simp_all add: holds_def)
  then have buf: "length (hc_buf ctx) = 64" by (simp add: absorbed_def)
  note goal = absorb_ok [OF ab left_def [symmetric], of input]
  show ?thesis
  proof (cases "left \<noteq> 0 \<and> fill \<le> length input")
    case True
    define b where "b = patch (hc_buf ctx) left (take fill input)"
    define ctx2 where "ctx2 = ctx1\<lparr>hc_buf := b, hc_feed := True\<rparr>"
    define e2 where "e2 = se_start g (hc_feed ctx) 1 b e1"
    have b: "length b = 64" using True left buf by (simp add: b_def fill_def)
    have on2: "on e2" "se_mode g e2 = se_mode g e1" using on1 by (simp_all add: e2_def start_frame)
    have h2: "state ctx2 e2 = compress (state ctx e1) b"
      using on1 b by (simp add: ctx2_def state_def e2_def start feed_one)
    have dlen: "length (drop fill input) < 2 ^ 22" using len by simp
    obtain ctx' e' where run: "sha_update_blocks g 0 (drop fill input) ctx2 e2 = (SUCCESS, ctx', e')"
      "on e'" "se_mode g e' = se_mode g e2" "hc_total ctx' = hc_total ctx2" "hc_padding ctx' = hc_padding ctx2"
      "hc_buf ctx' = (if rest_part (drop fill input) = [] then hc_buf ctx2 else patch (hc_buf ctx2) 0 (rest_part (drop fill input)))"
      "state ctx' e' = hash_blocks compress (state ctx2 e2) (full_part (drop fill input))"
      "hc_feed ctx' \<longleftrightarrow> hc_feed ctx2 \<or> 64 \<le> length (drop fill input)"
      by (rule blocks_run [OF on2(1) dlen, of 0 ctx2])
    have "(hc_buf ctx', state ctx' e') = absorb compress left input (hc_buf ctx, state ctx e1)"
    proof -
      have "hc_buf ctx' = patch b 0 (rest_part (drop fill input))" using run(6) by (auto simp: ctx2_def patch_def)
      moreover have "state ctx' e' = hash_blocks compress (compress (state ctx e1) b) (full_part (drop fill input))"
        using run(7) h2 by simp
      ultimately show ?thesis using True by (simp add: absorb_def Let_def flip: fill_def b_def)
    qed
    moreover have "hc_feed ctx'" using run(8) by (simp add: ctx2_def)
    moreover have "64 \<le> length (msg @ input)"
    proof -
      have "left \<le> length msg" by (simp add: left_def)
      moreover have "64 \<le> left + length input" using True unfolding fill_def by linarith
      ultimately show ?thesis by simp
    qed
    ultimately have "holds (msg @ input) ctx' e'"
      using goal run(2-4) tot on2 by (simp add: holds_def ctx2_def)
    moreover have "Sec_Eng_SHA256_Update g input ctx e = (SUCCESS, ctx', e')"
      using False True run(1) by (simp add: Sec_Eng_SHA256_Update_def 1(1) left(1) Let_def ctx2_def ctx1_def e2_def b_def flip: fill_def)
    ultimately show ?thesis
      using run(3,5) on2 1(2) by (intro that [of ctx' e']) (simp_all add: ctx2_def ctx1_def same_def)
  next
    case no: False
    obtain ctx' e' where run: "sha_update_blocks g left input ctx1 e1 = (SUCCESS, ctx', e')"
      "on e'" "se_mode g e' = se_mode g e1" "hc_total ctx' = hc_total ctx1" "hc_padding ctx' = hc_padding ctx1"
      "hc_buf ctx' = (if rest_part input = [] then hc_buf ctx1 else patch (hc_buf ctx1) left (rest_part input))"
      "state ctx' e' = hash_blocks compress (state ctx1 e1) (full_part input)"
      "hc_feed ctx' \<longleftrightarrow> hc_feed ctx1 \<or> 64 \<le> length input"
      by (rule blocks_run [OF on1 len, of left ctx1])
    have "(hc_buf ctx', state ctx' e') = absorb compress left input (hc_buf ctx, state ctx e1)"
      using no run(6,7) by (auto simp: absorb_def Let_def ctx1_def state_def patch_def simp flip: fill_def)
    moreover have "hc_feed ctx' \<longleftrightarrow> 64 \<le> length (msg @ input)"
    proof -
      have "64 \<le> n + k \<longleftrightarrow> 64 \<le> n \<or> 64 \<le> k" if "n mod 64 = 0 \<or> k < 64 - n mod 64" for n k :: nat
        using that by (cases "64 \<le> n") auto
      moreover have "hc_feed ctx1 \<longleftrightarrow> 64 \<le> length msg" using h by (simp add: holds_def ctx1_def)
      ultimately show ?thesis using no run(8) by (auto simp: fill_def left_def)
    qed
    ultimately have "holds (msg @ input) ctx' e'"
      using goal run(2-4) tot by (simp add: holds_def)
    moreover have "Sec_Eng_SHA256_Update g input ctx e = (SUCCESS, ctx', e')"
      using False no run(1) by (auto simp: Sec_Eng_SHA256_Update_def 1(1) left(1) Let_def ctx1_def simp flip: fill_def)
    ultimately show ?thesis
      using run(3,5) 1(2) by (intro that [of ctx' e']) (simp_all add: ctx1_def same_def)
  qed
qed

text \<open>The digest of a message: padding, compression, the result registers as bytes.\<close>

definition digest :: "sha_type \<Rightarrow> bytes \<Rightarrow> bytes" where
  "digest t m = concat (map (\<lambda>i. le32 (out (sha_state compress (iv t) m) i)) [0..<sha_words t])"

lemma holds_padded:
  assumes "holds (sha_pad m) ctx e"
  shows "sha_result g e = digest (se_mode g e) m"
proof -
  have "64 \<le> length (sha_pad m)" using length_sha_pad [of m] by (auto simp: sha_pad_def dest: dvd_imp_le)
  then have "hash e = sha_state compress (iv (se_mode g e)) m"
    using assms by (auto simp: holds_def absorbed_def sha_state_def state_def split: if_splits)
  then show ?thesis by (simp add: sha_result_def digest_def result)
qed

lemma finish_holds:
  assumes h: "holds m ctx e" and pad: "hc_padding ctx = pad_block"
  obtains ctx' e' where "Sec_Eng_SHA256_Finish g ctx e = ((SUCCESS, Some (digest (se_mode g e) m)), ctx', e')"
    "length (hc_buf ctx') = 64" "length (hc_padding ctx') = 64"
proof -
  obtain e1 where 1: "sha_idle g e = (SUCCESS, e1)" "same e e1" by (rule idle)
  define last where "last = length m mod 64"
  define padn where "padn = (if last < 56 then 56 - last else 120 - last)"
  have last: "unat (fst (hc_total ctx) AND 0x3F) = last" "last < 64"
    using h total_left [of "fst (hc_total ctx)" "snd (hc_total ctx)" "length m"] by (simp_all add: holds_def last_def)
  have tot: "total_of (hc_total ctx) = word_of_nat (length m)" using h by (simp add: holds_def)
  have "length (take padn pad_block) < 2 ^ 22" by (simp add: pad_block_def)
  then obtain ctx1 e2 where 2: "Sec_Eng_SHA256_Update g (take padn pad_block) ctx e1 = (SUCCESS, ctx1, e2)"
    "holds (m @ take padn pad_block) ctx1 e2" "hc_padding ctx1 = pad_block" "se_mode g e2 = se_mode g e1"
    using update_holds [OF holds_same [OF 1(2) h]] pad by metis
  obtain e3 where 3: "sha_idle g e2 = (SUCCESS, e3)" "same e2 e3" by (rule idle)
  define len where "len = msg_len (hc_total ctx)"
  have len: "length len = 8" by (simp add: len_def msg_len_def case_prod_unfold)
  define ctx2 where "ctx2 = ctx1\<lparr>hc_padding := patch pad_block 0 len\<rparr>"
  have t8: "take 8 (hc_padding ctx2) = len" by (simp add: ctx2_def patch_def len)
  have "holds (m @ take padn pad_block) ctx2 e3"
    using holds_same [OF 3(2) 2(2)] by (auto simp: holds_def ctx2_def state_def split: if_splits)
  then obtain ctx3 e4 where 4: "Sec_Eng_SHA256_Update g len ctx2 e3 = (SUCCESS, ctx3, e4)"
    "holds ((m @ take padn pad_block) @ len) ctx3 e4" "hc_padding ctx3 = hc_padding ctx2" "se_mode g e4 = se_mode g e3"
    using update_holds [of "m @ take padn pad_block" ctx2 e3 len] len by auto
  obtain e5 where 5: "sha_idle g e4 = (SUCCESS, e5)" "same e4 e5" by (rule idle)
  have "(m @ take padn pad_block) @ len = sha_pad m"
    using sha_pad_pieces [OF tot] by (simp add: padn_def last_def len_def)
  with 4(2) holds_same [OF 5(2)] have p: "holds (sha_pad m) ctx3 e5" by simp
  have mode: "se_mode g e5 = se_mode g e" using 1(2) 2(4) 3(2) 4(4) 5(2) by (simp add: same_def)
  have "Sec_Eng_SHA256_Finish g ctx e = ((SUCCESS, Some (digest (se_mode g e) m)), ctx3, se_enable g False e5)"
    using holds_padded [OF p] mode
    by (simp add: Sec_Eng_SHA256_Finish_def 1(1) 2(1,3) 3(1) 4(1) 5(1) last(1) pad t8 Let_def flip: padn_def len_def ctx2_def)
  moreover have "length (hc_buf ctx3) = 64" using p by (simp add: holds_def absorbed_def)
  moreover have "length (hc_padding ctx3) = 64" using len by (simp add: 4(3) ctx2_def pad_block_def)
  ultimately show ?thesis by (rule that)
qed

end
section \<open>The hash device\<close>

text \<open>
  \<open>hal_sec_hash.c\<close>: the device with its type and the one static context, whose buffers are those
  of the device.  The result of an update or of \<open>Finish\<close> is not looked at: without a digest the
  reader's buffer is unchanged, with the length of a digest returned all the same.
\<close>

datatype sec_hash_type =
  SEC_HASH_SHA1 | SEC_HASH_SHA224 | SEC_HASH_SHA256 | SEC_HASH_SHA384 | SEC_HASH_SHA512 | SEC_HASH_UNKNOWN

record 'e hash_device =
  hd_type :: sec_hash_type
  hd_ctx :: sha_ctx
  hd_engine :: 'e

definition sec_hash_open :: "'e sha_regs \<Rightarrow> 'e hash_device \<Rightarrow> int \<times> 'e hash_device" where
  "sec_hash_open g d =
     (let start = (\<lambda>t. let (ctx, e) = Sec_Eng_SHA256_Init g t (hc_buf (hd_ctx d)) (hc_padding (hd_ctx d)) (hd_engine d)
                       in (0, d\<lparr>hd_ctx := ctx, hd_engine := Sec_Eng_SHA_Start g e\<rparr>))
      in case hd_type d of
           SEC_HASH_SHA224 \<Rightarrow> start SEC_ENG_SHA224
         | SEC_HASH_SHA256 \<Rightarrow> start SEC_ENG_SHA256
         | _ \<Rightarrow> (- 1, d))"

definition sec_hash_write :: "'e sha_regs \<Rightarrow> bytes \<Rightarrow> 'e hash_device \<Rightarrow> int \<times> 'e hash_device" where
  "sec_hash_write g buffer d =
     (if hd_type d \<in> {SEC_HASH_SHA224, SEC_HASH_SHA256} then
        (let (_, ctx, e) = Sec_Eng_SHA256_Update g buffer (hd_ctx d) (hd_engine d)
         in (0, d\<lparr>hd_ctx := ctx, hd_engine := e\<rparr>))
      else (- 1, d))"

definition sec_hash_read :: "'e sha_regs \<Rightarrow> 'e hash_device \<Rightarrow> (int \<times> bytes option) \<times> 'e hash_device" where
  "sec_hash_read g d =
     (let finish = (\<lambda>n. let ((_, digest), ctx, e) = Sec_Eng_SHA256_Finish g (hd_ctx d) (hd_engine d)
                        in ((n, digest), d\<lparr>hd_ctx := ctx, hd_engine := e\<rparr>))
      in case hd_type d of
           SEC_HASH_SHA224 \<Rightarrow> finish 28
         | SEC_HASH_SHA256 \<Rightarrow> finish 32
         | _ \<Rightarrow> ((- 1, None), d))"

text \<open>A session as the boot loader has it: open, write in pieces, read the digest.\<close>

definition hash_session :: "'e sha_regs \<Rightarrow> bytes list \<Rightarrow> 'e hash_device \<Rightarrow> (int \<times> bytes option) \<times> 'e hash_device" where
  "hash_session g pieces d =
     sec_hash_read g (fold (\<lambda>p d. snd (sec_hash_write g p d)) pieces (snd (sec_hash_open g d)))"

text \<open>The digest as the engine's compression function, initial values and registers make it.\<close>

definition sha_digest ::
  "('h \<Rightarrow> bytes \<Rightarrow> 'h) \<Rightarrow> (sha_type \<Rightarrow> 'h) \<Rightarrow> ('h \<Rightarrow> nat \<Rightarrow> u32) \<Rightarrow> sha_type \<Rightarrow> bytes \<Rightarrow> bytes" where
  "sha_digest compress iv out t m = concat (map (\<lambda>i. le32 (out (sha_state compress (iv t) m) i)) [0..<sha_words t])"

definition hash_mode :: "sec_hash_type \<Rightarrow> sha_type option" where
  "hash_mode t = (case t of SEC_HASH_SHA224 \<Rightarrow> Some SEC_ENG_SHA224 | SEC_HASH_SHA256 \<Rightarrow> Some SEC_ENG_SHA256 | _ \<Rightarrow> None)"

definition hash_buffers :: "'e hash_device \<Rightarrow> bool" where
  "hash_buffers d \<longleftrightarrow> length (hc_buf (hd_ctx d)) = 64 \<and> length (hc_padding (hd_ctx d)) = 64"

lemma init_padding: "length p = 64 \<Longrightarrow> patch (patch p 0 (replicate 64 0)) 0 [0x80] = pad_block"
proof -
  assume "length p = 64"
  then have "patch p 0 (replicate 64 0) = replicate 64 (0 :: u8)" by (simp add: patch_def)
  then show ?thesis by (simp add: patch_def pad_block_def)
qed

lemma hash_modes: "hash_mode t = Some m \<Longrightarrow> t \<in> {SEC_HASH_SHA224, SEC_HASH_SHA256}"
  by (cases t) (simp_all add: hash_mode_def)

context sha_engine
begin

lemma digest_eq: "digest = sha_digest compress iv out"
  by (simp add: digest_def sha_digest_def fun_eq_iff)

lemma open_holds:
  assumes "hash_mode (hd_type d) = Some t" "hash_buffers d"
  obtains d' where "sec_hash_open g d = (0, d')" "holds [] (hd_ctx d') (hd_engine d')" "hd_type d' = hd_type d"
    "se_mode g (hd_engine d') = t" "hc_padding (hd_ctx d') = pad_block"
proof -
  define ctx where "ctx = \<lparr>hc_total = (0, 0), hc_buf = hc_buf (hd_ctx d), hc_padding = pad_block, hc_feed = False\<rparr>"
  define d' where "d' = d\<lparr>hd_ctx := ctx, hd_engine := se_enable g True (se_set_mode g t (hd_engine d))\<rparr>"
  have "sec_hash_open g d = (0, d')"
    using assms by (auto simp: sec_hash_open_def hash_mode_def Sec_Eng_SHA256_Init_def Sec_Eng_SHA_Start_def
        hash_buffers_def init_padding ctx_def d'_def Let_def split: sec_hash_type.splits)
  moreover have "holds [] (hd_ctx d') (hd_engine d')"
    using assms(2) by (simp add: holds_def d'_def ctx_def enable state_def absorbed_empty hash_buffers_def total_of_def)
  ultimately show ?thesis by (rule that) (simp_all add: d'_def ctx_def enable set_mode)
qed

lemma writes_hold:
  assumes "holds m (hd_ctx d) (hd_engine d)" "hash_mode (hd_type d) = Some t" "\<forall>p \<in> set ps. length p < 2 ^ 22"
  shows "let d' = fold (\<lambda>p d. snd (sec_hash_write g p d)) ps d
    in holds (m @ concat ps) (hd_ctx d') (hd_engine d') \<and> hd_type d' = hd_type d
      \<and> se_mode g (hd_engine d') = se_mode g (hd_engine d) \<and> hc_padding (hd_ctx d') = hc_padding (hd_ctx d)"
  using assms
proof (induction ps arbitrary: m d)
  case (Cons p ps)
  obtain ctx e where 1: "Sec_Eng_SHA256_Update g p (hd_ctx d) (hd_engine d) = (SUCCESS, ctx, e)" "holds (m @ p) ctx e"
    "hc_padding ctx = hc_padding (hd_ctx d)" "se_mode g e = se_mode g (hd_engine d)"
    using update_holds [OF Cons.prems(1)] Cons.prems(3) by auto
  define d1 where "d1 = d\<lparr>hd_ctx := ctx, hd_engine := e\<rparr>"
  have w: "snd (sec_hash_write g p d) = d1"
    using hash_modes [OF Cons.prems(2)] by (auto simp: sec_hash_write_def 1(1) d1_def)
  have "holds (m @ p) (hd_ctx d1) (hd_engine d1)" "hash_mode (hd_type d1) = Some t"
    using 1(2) Cons.prems(2) by (simp_all add: d1_def)
  from Cons.IH [OF this] Cons.prems(3) show ?case
    by (simp add: w Let_def) (simp add: d1_def 1(3,4))
qed simp

lemma session_digest:
  assumes "hash_mode (hd_type d) = Some t" "hash_buffers d" "\<forall>p \<in> set ps. length p < 2 ^ 22"
  shows "\<exists>d'. hash_session g ps d = ((4 * int (sha_words t), Some (sha_digest compress iv out t (concat ps))), d')
    \<and> hd_type d' = hd_type d \<and> hash_buffers d'"
proof -
  obtain d1 where 1: "sec_hash_open g d = (0, d1)" "holds [] (hd_ctx d1) (hd_engine d1)" "hd_type d1 = hd_type d"
    "se_mode g (hd_engine d1) = t" "hc_padding (hd_ctx d1) = pad_block"
    by (rule open_holds [OF assms(1,2)])
  define d2 where "d2 = fold (\<lambda>p d. snd (sec_hash_write g p d)) ps d1"
  have 2: "holds (concat ps) (hd_ctx d2) (hd_engine d2)" "hd_type d2 = hd_type d"
    "se_mode g (hd_engine d2) = t" "hc_padding (hd_ctx d2) = pad_block"
    using writes_hold [OF 1(2) _ assms(3)] assms(1) 1 by (simp_all add: d2_def Let_def)
  obtain ctx e where 3: "Sec_Eng_SHA256_Finish g (hd_ctx d2) (hd_engine d2)
      = ((SUCCESS, Some (digest (se_mode g (hd_engine d2)) (concat ps))), ctx, e)"
    "length (hc_buf ctx) = 64" "length (hc_padding ctx) = 64"
    by (rule finish_holds [OF 2(1,4)])
  show ?thesis
    using assms(1) 3 2(2,3)
    by (auto simp: hash_session_def 1(1) sec_hash_read_def hash_mode_def sha_words_def hash_buffers_def digest_eq
        Let_def split: sec_hash_type.splits simp flip: d2_def)
qed

end
context sha_engine
begin

text \<open>
  The number of blocks is 16 bits wide, so of a piece of 4 MiB (more than the flash holds) the
  engine is told to hash nothing.
\<close>

lemma long_piece_skipped:
  assumes h: "holds [] ctx e" and len: "length input = 2 ^ 22"
  shows "\<exists>ctx' e'. Sec_Eng_SHA256_Update g input ctx e = (SUCCESS, ctx', e') \<and> hash e' = iv (se_mode g e)"
proof -
  have f: "on e" "\<not> hc_feed ctx" using h by (simp_all add: holds_def)
  have left: "unat (fst (hc_total ctx) AND 0x3F) = 0"
    using h total_left [of "fst (hc_total ctx)" "snd (hc_total ctx)" 0] by (simp add: holds_def)
  have ne: "input \<noteq> []" and n: "length input div 64 = 65536" and d: "drop (65536 * 64) input = []" using len by auto
  obtain e1 where 1: "sha_idle g e = (SUCCESS, e1)" "same e e1" by (rule idle)
  obtain e2 where 2: "sha_idle g e1 = (SUCCESS, e2)" "same e1 e2" by (rule idle)
  define e3 where "e3 = se_start g False (word_of_nat 65536) input e2"
  have "on e2" using f(1) 1(2) 2(2) by (simp add: same_def)
  then have h3: "hash e3 = iv (se_mode g e)"
    using 1(2) 2(2) by (simp add: e3_def start same_def)
  obtain e4 where 4: "sha_idle g e3 = (SUCCESS, e4)" "same e3 e4" by (rule idle)
  have "\<exists>ctx'. Sec_Eng_SHA256_Update g input ctx e = (SUCCESS, ctx', e4)"
    using ne 1(1) left f(2) len 4(1)
    by (simp add: Sec_Eng_SHA256_Update_def sha_update_blocks_def n 2(1) sha_update_rest_def e3_def Let_def)
  then show ?thesis using h3 4(2) by (auto simp: same_def)
qed

end

text \<open>If the engine never gets idle, reading still returns the length of a digest, without one.\<close>

lemma timeout_unnoticed:
  assumes "\<And>e. fst (sha_idle g e) = TIMEOUT" "hd_type d = SEC_HASH_SHA256"
  shows "fst (hash_session g ps d) = (32, None)"
proof -
  have w: "hd_type (snd (sec_hash_write g p d)) = hd_type d" for p d
    by (auto simp: sec_hash_write_def case_prod_unfold Let_def)
  have "hd_type (fold (\<lambda>p d. snd (sec_hash_write g p d)) ps d) = hd_type d" for d
    by (induction ps arbitrary: d) (simp_all add: w)
  moreover have "hd_type (snd (sec_hash_open g d)) = SEC_HASH_SHA256"
    using assms(2) by (simp add: sec_hash_open_def case_prod_unfold Let_def)
  moreover have "fst (Sec_Eng_SHA256_Finish g ctx e) = (TIMEOUT, None)" for ctx e
    using assms(1) [of e] by (simp add: Sec_Eng_SHA256_Finish_def case_prod_unfold Let_def)
  ultimately show ?thesis
    by (simp add: hash_session_def sec_hash_read_def case_prod_unfold Let_def)
qed

section \<open>A simulated engine\<close>

text \<open>Busy for one read after a start, with the compression function of mbed TLS.\<close>

record sim_sha =
  sm_on :: bool
  sm_mode :: sha_type
  sm_state :: "u32 list"
  sm_busy :: bool

definition swapped :: "u32 list \<Rightarrow> nat \<Rightarrow> u32" where
  "swapped h i = rd32 (be32 (h ! i)) 0"

lemma le32_swapped: "le32 (swapped h i) = be32 (h ! i)"
  by (simp add: swapped_def le32_rd32)

definition sim_sha_regs :: "sim_sha sha_regs" where
  "sim_sha_regs =
     \<lparr>se_busy = (\<lambda>e. (sm_busy e, e\<lparr>sm_busy := False\<rparr>)),
      se_set_mode = (\<lambda>t e. e\<lparr>sm_mode := t\<rparr>), se_mode = sm_mode,
      se_enable = (\<lambda>b e. e\<lparr>sm_on := b\<rparr>),
      se_start = (\<lambda>sel n src e. e\<lparr>sm_busy := True,
        sm_state := hash_blocks mbedtls_internal_sha256_process (if sel then sm_state e else sha256_iv) (take (unat n * 64) src)\<rparr>),
      se_hash = (\<lambda>e. swapped (sm_state e))\<rparr>"

lemma sim_sha_wait: "fst (sha_wait sim_sha_regs (Suc (Suc (Suc n))) e) = SUCCESS"
  by (simp add: sim_sha_regs_def Let_def)

interpretation sim_sha: sha_engine sim_sha_regs sm_on sm_state mbedtls_internal_sha256_process "\<lambda>_. sha256_iv" swapped
proof
  have c: "SEC_ENG_SHA_BUSY_TIMEOUT_COUNT = Suc (Suc (Suc 15999997))" by (simp add: SEC_ENG_SHA_BUSY_TIMEOUT_COUNT_def)
  show "fst (sha_idle sim_sha_regs e) = SUCCESS" for e
    unfolding sha_idle_def c by (rule sim_sha_wait)
qed (simp_all add: sim_sha_regs_def)

definition sim_device :: "sim_sha hash_device" where
  "sim_device =
     \<lparr>hd_type = SEC_HASH_SHA256,
      hd_ctx = \<lparr>hc_total = (5, 0), hc_buf = replicate 64 1, hc_padding = replicate 64 7, hc_feed = True\<rparr>,
      hd_engine = \<lparr>sm_on = False, sm_mode = SEC_ENG_SHA1, sm_state = [], sm_busy = False\<rparr>\<rparr>"

lemma sim_device_facts: "hash_buffers sim_device" "hd_type sim_device = SEC_HASH_SHA256"
  by (simp_all add: sim_device_def hash_buffers_def)

section \<open>Properties\<close>

text \<open>
  C12: However a message is cut into pieces (of less than 4 MiB), and whatever was hashed
  before, a session of the hash device answers with the digest of the whole message: the blocks
  of the padded message, with its length in bits at the end, are compressed in order, and the
  result registers are copied out.  The device is ready for the next session.
\<close>

theorem hash_session_digest:
  assumes "sha_engine g on hash f iv out" "hash_mode (hd_type d) = Some t" "hash_buffers d"
    "\<forall>p \<in> set ps. length p < 2 ^ 22"
  shows "\<exists>d'. hash_session g ps d = ((4 * int (sha_words t), Some (sha_digest f iv out t (concat ps))), d')
    \<and> hd_type d' = hd_type d \<and> hash_buffers d'"
  by (rule sha_engine.session_digest [OF assms])

theorem hash_session_digest_witness:
  "\<exists>d'. hash_session sim_sha_regs [[0x61], [], [0x62, 0x63]] sim_device
     = ((32, Some (sha_digest mbedtls_internal_sha256_process (\<lambda>_. sha256_iv) swapped SEC_ENG_SHA256 [0x61, 0x62, 0x63])), d')"
  using hash_session_digest [OF sim_sha.sha_engine_axioms, of sim_device SEC_ENG_SHA256 "[[0x61], [], [0x62, 0x63]]"]
  by (auto simp: sim_device_facts hash_mode_def sha_words_def)

text \<open>
  C18: The hash engine and the software of mbed TLS agree: if the engine compresses blocks like
  \<open>mbedtls_internal_sha256_process\<close>, the digest the device returns is the one mbed TLS computes,
  even if the two get the message in different pieces.
\<close>

theorem hash_device_agrees:
  assumes "sha_engine g on hash mbedtls_internal_sha256_process (\<lambda>_. sha256_iv) out"
    and "\<And>h i. i < 8 \<Longrightarrow> le32 (out h i) = be32 (h ! i)"
    and "hd_type d = SEC_HASH_SHA256" "hash_buffers d" "\<forall>p \<in> set ps. length p < 2 ^ 22"
    and "\<forall>q \<in> set qs. length q < 2 ^ 32" "concat qs = concat ps"
  shows "fst (hash_session g ps d) = (32, Some (mb_session qs))"
proof -
  have "hash_mode (hd_type d) = Some SEC_ENG_SHA256" by (simp add: assms(3) hash_mode_def)
  from sha_engine.session_digest [OF assms(1) this assms(4,5)]
  have "fst (hash_session g ps d) = (32, Some (sha_digest mbedtls_internal_sha256_process (\<lambda>_. sha256_iv) out SEC_ENG_SHA256 (concat ps)))"
    by (auto simp: sha_words_def)
  moreover have "map (\<lambda>i. le32 (out h i)) [0..<8] = map (\<lambda>i. be32 (h ! i)) [0..<8]" for h
    by (rule map_cong) (simp_all add: assms(2))
  ultimately show ?thesis
    by (simp add: mb_session_digest [OF assms(6)] assms(7) sha_digest_def sha_words_def)
qed

theorem hash_device_agrees_witness:
  "fst (hash_session sim_sha_regs [[0x61], [0x62, 0x63]] sim_device) = (32, Some (mb_session [[0x61, 0x62], [0x63]]))"
  by (rule hash_device_agrees [OF sim_sha.sha_engine_axioms])
    (simp_all add: le32_swapped sim_device_facts)

end
