(* ===== verification/RingBuffer.thy ===== *)
theory RingBuffer
  imports Prelude
begin

text \<open>
  \<open>common/ring_buffer/ring_buffer.c\<close>: the byte ring of the UART and BLE paths of the
  bootloader.  Read and write positions carry a mirror byte that is complemented at every
  wrap-around, so equal positions mean empty or full.  The structure is a record; the
  optional lock and unlock hooks are flags, and every call of a hook is recorded in
  \<open>rb_events\<close>, so the locking discipline can be stated.
\<close>

section \<open>State\<close>

datatype rb_status = RING_BUFFER_EMPTY | RING_BUFFER_PARTIAL | RING_BUFFER_FULL

datatype rb_event = Lock | Unlock

record ring_buffer =
  rb_pointer :: bytes
  rb_readMirror :: u8
  rb_readIndex :: u32
  rb_writeMirror :: u8
  rb_writeIndex :: u32
  rb_size :: u32
  rb_lock :: bool
  rb_unlock :: bool
  rb_events :: "rb_event list"

definition Ring_Buffer_Init :: "bytes \<Rightarrow> u32 \<Rightarrow> bool \<Rightarrow> bool \<Rightarrow> ring_buffer" where
  "Ring_Buffer_Init buffer sz lockCb unlockCb =
     \<lparr>rb_pointer = buffer, rb_readMirror = 0, rb_readIndex = 0, rb_writeMirror = 0,
      rb_writeIndex = 0, rb_size = sz, rb_lock = lockCb, rb_unlock = unlockCb, rb_events = []\<rparr>"

text \<open>\<open>if (rbType->lock != NULL) rbType->lock();\<close> and its counterpart.\<close>

definition rb_do_lock :: "ring_buffer \<Rightarrow> ring_buffer" where
  "rb_do_lock s = (if rb_lock s then s\<lparr>rb_events := rb_events s @ [Lock]\<rparr> else s)"

definition rb_do_unlock :: "ring_buffer \<Rightarrow> ring_buffer" where
  "rb_do_unlock s = (if rb_unlock s then s\<lparr>rb_events := rb_events s @ [Unlock]\<rparr> else s)"

definition Ring_Buffer_Reset :: "ring_buffer \<Rightarrow> ring_buffer" where
  "Ring_Buffer_Reset s =
     rb_do_unlock ((rb_do_lock s)\<lparr>rb_readMirror := 0, rb_readIndex := 0,
                                  rb_writeMirror := 0, rb_writeIndex := 0\<rparr>)"

section \<open>Lengths and status\<close>

definition Ring_Buffer_Get_Length :: "ring_buffer \<Rightarrow> u32 \<times> ring_buffer" where
  "Ring_Buffer_Get_Length s =
     (let s1 = rb_do_unlock (rb_do_lock s)
      in if rb_readMirror s = rb_writeMirror s then (rb_writeIndex s - rb_readIndex s, s1)
         else (rb_size s - (rb_readIndex s - rb_writeIndex s), s1))"

definition Ring_Buffer_Get_Empty_Length :: "ring_buffer \<Rightarrow> u32 \<times> ring_buffer" where
  "Ring_Buffer_Get_Empty_Length s =
     (let (n, s1) = Ring_Buffer_Get_Length s in (rb_size s - n, s1))"

definition Ring_Buffer_Get_Status :: "ring_buffer \<Rightarrow> rb_status \<times> ring_buffer" where
  "Ring_Buffer_Get_Status s =
     (let s1 = rb_do_lock s
      in if rb_readIndex s1 = rb_writeIndex s1 then
           if rb_readMirror s1 = rb_writeMirror s1 then (RING_BUFFER_EMPTY, rb_do_unlock s1)
           else (RING_BUFFER_FULL, rb_do_unlock s1)
         else (RING_BUFFER_PARTIAL, rb_do_unlock s1))"

section \<open>Writing\<close>

text \<open>
  A write callback is given the number of bytes to produce and its parameter, and returns
  the bytes it stored and the new parameter; \<open>None\<close> is the NULL callback.
\<close>

definition rb_store :: "ring_buffer \<Rightarrow> u32 \<Rightarrow> bytes \<Rightarrow> ring_buffer" where
  "rb_store s i bs = s\<lparr>rb_pointer := patch (rb_pointer s) (unat i) bs\<rparr>"

definition Ring_Buffer_Write_Callback ::
  "('p \<Rightarrow> nat \<Rightarrow> bytes \<times> 'p) option \<Rightarrow> ring_buffer \<Rightarrow> u32 \<Rightarrow> 'p \<Rightarrow> u32 \<times> 'p \<times> ring_buffer" where
  "Ring_Buffer_Write_Callback writeCb s len0 param =
     (let (sizeRemained, s0) = Ring_Buffer_Get_Empty_Length s
      in case writeCb of None \<Rightarrow> (0, param, s0)
         | Some cb \<Rightarrow>
             (let s1 = rb_do_lock s0
              in if sizeRemained = 0 then (0, param, rb_do_unlock s1)
                 else
                   (let len = (if len0 > sizeRemained then sizeRemained else len0);
                        rest = rb_size s1 - rb_writeIndex s1
                    in if rest > len then
                         (let (bs, p1) = cb param (unat len);
                              s2 = rb_store s1 (rb_writeIndex s1) bs
                          in (len, p1, rb_do_unlock (s2\<lparr>rb_writeIndex := rb_writeIndex s2 + len\<rparr>)))
                       else
                         (let (bs, p1) = cb param (unat rest);
                              s2 = rb_store s1 (rb_writeIndex s1) bs;
                              (bs', p2) = cb p1 (unat (len - rest));
                              s3 = rb_store s2 0 bs'
                          in (len, p2, rb_do_unlock (s3\<lparr>rb_writeIndex := len - rest,
                                                       rb_writeMirror := NOT (rb_writeMirror s3)\<rparr>))))))"

definition Ring_Buffer_Write_Copy :: "bytes \<Rightarrow> nat \<Rightarrow> bytes \<times> bytes" where
  "Ring_Buffer_Write_Copy src n = (take n src, drop n src)"

definition Ring_Buffer_Write :: "ring_buffer \<Rightarrow> bytes \<Rightarrow> u32 \<Rightarrow> u32 \<times> ring_buffer" where
  "Ring_Buffer_Write s data len =
     (let (n, p, s1) = Ring_Buffer_Write_Callback (Some Ring_Buffer_Write_Copy) s len data in (n, s1))"

definition Ring_Buffer_Write_Byte :: "ring_buffer \<Rightarrow> u8 \<Rightarrow> u32 \<times> ring_buffer" where
  "Ring_Buffer_Write_Byte s data =
     (let s1 = rb_do_lock s;
          (e, s2) = Ring_Buffer_Get_Empty_Length s1
      in if e = 0 then (0, rb_do_unlock s2)
         else
           (let s3 = rb_store s2 (rb_writeIndex s2) [data];
                s4 = (if rb_writeIndex s3 \<noteq> rb_size s3 - 1
                      then s3\<lparr>rb_writeIndex := rb_writeIndex s3 + 1\<rparr>
                      else s3\<lparr>rb_writeIndex := 0, rb_writeMirror := NOT (rb_writeMirror s3)\<rparr>)
            in (1, rb_do_unlock s4)))"

definition Ring_Buffer_Write_Force :: "ring_buffer \<Rightarrow> bytes \<Rightarrow> u32 \<Rightarrow> u32 \<times> ring_buffer" where
  "Ring_Buffer_Write_Force s data0 len0 =
     (let (sizeRemained, s0) = Ring_Buffer_Get_Empty_Length s;
          indexRemained = rb_size s0 - rb_writeIndex s0;
          s1 = rb_do_lock s0;
          (data, len) = (if len0 > rb_size s1
                         then (drop (unat (len0 - rb_size s1)) data0, rb_size s1) else (data0, len0))
      in if indexRemained > len then
           (let s2 = rb_store s1 (rb_writeIndex s1) (take (unat len) data);
                s3 = s2\<lparr>rb_writeIndex := rb_writeIndex s2 + len\<rparr>;
                s4 = (if len > sizeRemained then s3\<lparr>rb_readIndex := rb_writeIndex s3\<rparr> else s3)
            in (len, rb_do_unlock s4))
         else
           (let s2 = rb_store s1 (rb_writeIndex s1) (take (unat indexRemained) data);
                s3 = rb_store s2 0 (seg data (unat indexRemained) (unat (len - indexRemained)));
                s4 = s3\<lparr>rb_writeIndex := len - indexRemained, rb_writeMirror := NOT (rb_writeMirror s3)\<rparr>;
                s5 = (if len > sizeRemained
                      then s4\<lparr>rb_readIndex := rb_writeIndex s4, rb_readMirror := NOT (rb_readMirror s4)\<rparr>
                      else s4)
            in (len, rb_do_unlock s5)))"

definition Ring_Buffer_Write_Byte_Force :: "ring_buffer \<Rightarrow> u8 \<Rightarrow> u32 \<times> ring_buffer" where
  "Ring_Buffer_Write_Byte_Force s data =
     (let (status, s0) = Ring_Buffer_Get_Status s;
          s1 = rb_do_lock s0;
          s2 = rb_store s1 (rb_writeIndex s1) [data];
          s3 = (if rb_writeIndex s2 = rb_size s2 - 1 then
                  (let t = s2\<lparr>rb_writeIndex := 0, rb_writeMirror := NOT (rb_writeMirror s2)\<rparr>
                   in if status = RING_BUFFER_FULL
                      then t\<lparr>rb_readIndex := rb_writeIndex t, rb_readMirror := NOT (rb_readMirror t)\<rparr>
                      else t)
                else
                  (let t = s2\<lparr>rb_writeIndex := rb_writeIndex s2 + 1\<rparr>
                   in if status = RING_BUFFER_FULL then t\<lparr>rb_readIndex := rb_writeIndex t\<rparr> else t))
      in (1, rb_do_unlock s3))"

section \<open>Reading\<close>

text \<open>A read callback is handed the bytes read and its parameter.\<close>

definition Ring_Buffer_Read_Callback ::
  "('p \<Rightarrow> bytes \<Rightarrow> 'p) option \<Rightarrow> ring_buffer \<Rightarrow> u32 \<Rightarrow> 'p \<Rightarrow> u32 \<times> 'p \<times> ring_buffer" where
  "Ring_Buffer_Read_Callback readCb s len0 param =
     (let (n, s0) = Ring_Buffer_Get_Length s
      in case readCb of None \<Rightarrow> (0, param, s0)
         | Some cb \<Rightarrow>
             (let s1 = rb_do_lock s0
              in if n = 0 then (0, param, rb_do_unlock s1)
                 else
                   (let len = (if n < len0 then n else len0);
                        rest = rb_size s1 - rb_readIndex s1
                    in if rest > len then
                         (len, cb param (seg (rb_pointer s1) (unat (rb_readIndex s1)) (unat len)),
                          rb_do_unlock (s1\<lparr>rb_readIndex := rb_readIndex s1 + len\<rparr>))
                       else
                         (let p1 = cb param (seg (rb_pointer s1) (unat (rb_readIndex s1)) (unat rest));
                              p2 = cb p1 (seg (rb_pointer s1) 0 (unat (len - rest)))
                          in (len, p2, rb_do_unlock (s1\<lparr>rb_readIndex := len - rest,
                                                       rb_readMirror := NOT (rb_readMirror s1)\<rparr>))))))"

text \<open>The destination is the bytes written so far.\<close>

definition Ring_Buffer_Read_Copy :: "bytes \<Rightarrow> bytes \<Rightarrow> bytes" where
  "Ring_Buffer_Read_Copy dest data = dest @ data"

definition Ring_Buffer_Read :: "ring_buffer \<Rightarrow> u32 \<Rightarrow> u32 \<times> bytes \<times> ring_buffer" where
  "Ring_Buffer_Read s len = Ring_Buffer_Read_Callback (Some Ring_Buffer_Read_Copy) s len []"

definition Ring_Buffer_Read_Byte :: "ring_buffer \<Rightarrow> u32 \<times> u8 option \<times> ring_buffer" where
  "Ring_Buffer_Read_Byte s =
     (let s1 = rb_do_lock s;
          (n, s2) = Ring_Buffer_Get_Length s1
      in if n = 0 then (0, None, rb_do_unlock s2)
         else
           (let d = rb_pointer s2 ! unat (rb_readIndex s2);
                s3 = (if rb_readIndex s2 = rb_size s2 - 1
                      then s2\<lparr>rb_readIndex := 0, rb_readMirror := NOT (rb_readMirror s2)\<rparr>
                      else s2\<lparr>rb_readIndex := rb_readIndex s2 + 1\<rparr>)
            in (1, Some d, rb_do_unlock s3)))"

definition Ring_Buffer_Peek :: "ring_buffer \<Rightarrow> u32 \<Rightarrow> u32 \<times> bytes \<times> ring_buffer" where
  "Ring_Buffer_Peek s len0 =
     (let (n, s0) = Ring_Buffer_Get_Length s;
          s1 = rb_do_lock s0
      in if n = 0 then (0, [], rb_do_unlock s1)
         else
           (let len = (if n < len0 then n else len0);
                rest = rb_size s1 - rb_readIndex s1
            in if rest > len
               then (len, seg (rb_pointer s1) (unat (rb_readIndex s1)) (unat len), rb_do_unlock s1)
               else (len, seg (rb_pointer s1) (unat (rb_readIndex s1)) (unat rest)
                          @ seg (rb_pointer s1) 0 (unat (len - rest)), rb_do_unlock s1)))"

definition Ring_Buffer_Peek_Byte :: "ring_buffer \<Rightarrow> u32 \<times> u8 option \<times> ring_buffer" where
  "Ring_Buffer_Peek_Byte s =
     (let s1 = rb_do_lock s;
          (n, s2) = Ring_Buffer_Get_Length s1
      in if n = 0 then (0, None, rb_do_unlock s2)
         else (1, Some (rb_pointer s2 ! unat (rb_readIndex s2)), rb_do_unlock s2))"

section \<open>The abstract queue\<close>

definition rb_len :: "ring_buffer \<Rightarrow> nat" where
  "rb_len s = (if rb_readMirror s = rb_writeMirror s then unat (rb_writeIndex s) - unat (rb_readIndex s)
     else unat (rb_size s) + unat (rb_writeIndex s) - unat (rb_readIndex s))"

definition rb_queue :: "ring_buffer \<Rightarrow> bytes" where
  "rb_queue s = map (\<lambda>i. rb_pointer s ! ((unat (rb_readIndex s) + i) mod unat (rb_size s))) [0..<rb_len s]"

definition rb_wf :: "ring_buffer \<Rightarrow> bool" where
  "rb_wf s \<longleftrightarrow> 0 < unat (rb_size s) \<and> length (rb_pointer s) = unat (rb_size s)
     \<and> unat (rb_readIndex s) < unat (rb_size s) \<and> unat (rb_writeIndex s) < unat (rb_size s)
     \<and> rb_readMirror s \<in> {0, 0xFF} \<and> rb_writeMirror s \<in> {0, 0xFF}
     \<and> (if rb_readMirror s = rb_writeMirror s then unat (rb_readIndex s) \<le> unat (rb_writeIndex s)
        else unat (rb_writeIndex s) \<le> unat (rb_readIndex s))"

text \<open>The hooks change nothing but the event log.\<close>

lemma rb_lock_frame [simp]:
  "rb_pointer (rb_do_lock s) = rb_pointer s" "rb_readMirror (rb_do_lock s) = rb_readMirror s"
  "rb_readIndex (rb_do_lock s) = rb_readIndex s" "rb_writeMirror (rb_do_lock s) = rb_writeMirror s"
  "rb_writeIndex (rb_do_lock s) = rb_writeIndex s" "rb_size (rb_do_lock s) = rb_size s"
  "rb_pointer (rb_do_unlock s) = rb_pointer s" "rb_readMirror (rb_do_unlock s) = rb_readMirror s"
  "rb_readIndex (rb_do_unlock s) = rb_readIndex s" "rb_writeMirror (rb_do_unlock s) = rb_writeMirror s"
  "rb_writeIndex (rb_do_unlock s) = rb_writeIndex s" "rb_size (rb_do_unlock s) = rb_size s"
  by (simp_all add: rb_do_lock_def rb_do_unlock_def)

lemma rb_get_length_frame [simp]: "snd (Ring_Buffer_Get_Length s) = rb_do_unlock (rb_do_lock s)"
  "snd (Ring_Buffer_Get_Empty_Length s) = rb_do_unlock (rb_do_lock s)"
  by (simp_all add: Ring_Buffer_Get_Length_def Ring_Buffer_Get_Empty_Length_def Let_def case_prod_unfold)

lemma rb_store_frame [simp]:
  "rb_readMirror (rb_store s i bs) = rb_readMirror s" "rb_readIndex (rb_store s i bs) = rb_readIndex s"
  "rb_writeMirror (rb_store s i bs) = rb_writeMirror s" "rb_writeIndex (rb_store s i bs) = rb_writeIndex s"
  "rb_size (rb_store s i bs) = rb_size s"
  "rb_pointer (rb_store s i bs) = patch (rb_pointer s) (unat i) bs"
  by (simp_all add: rb_store_def)

lemma length_rb_queue [simp]: "length (rb_queue s) = rb_len s"
  by (simp add: rb_queue_def)

lemma rb_len_le: "rb_wf s \<Longrightarrow> rb_len s \<le> unat (rb_size s)"
  by (auto simp: rb_wf_def rb_len_def split: if_splits)

lemma rb_get_length:
  "rb_wf s \<Longrightarrow> unat (fst (Ring_Buffer_Get_Length s)) = rb_len s"
  by (auto simp: rb_wf_def rb_len_def Ring_Buffer_Get_Length_def Let_def unat_sub_if' word_le_nat_alt split: if_splits)

lemma rb_get_empty_length:
  "rb_wf s \<Longrightarrow> unat (fst (Ring_Buffer_Get_Empty_Length s)) = unat (rb_size s) - rb_len s"
  using rb_get_length [of s] rb_len_le [of s]
  by (simp add: Ring_Buffer_Get_Empty_Length_def case_prod_unfold Let_def unat_sub_if' word_le_nat_alt)

lemma rb_status:
  "rb_wf s \<Longrightarrow> fst (Ring_Buffer_Get_Status s) = (if rb_queue s = [] then RING_BUFFER_EMPTY
     else if rb_len s = unat (rb_size s) then RING_BUFFER_FULL else RING_BUFFER_PARTIAL)"
  by (auto simp: rb_wf_def rb_len_def rb_queue_def Ring_Buffer_Get_Status_def Let_def word_eq_unat split: if_splits)

section \<open>Circular stores and positions\<close>

lemma wrap: "(a :: nat) < n \<Longrightarrow> b \<le> n \<Longrightarrow> (a + b) mod n = (if a + b < n then a + b else a + b - n)"
  by (simp add: mod_if)

text \<open>The two-part copy of the code, at position \<open>w\<close> of a ring of the length of \<open>p\<close>.\<close>

definition rb_put :: "bytes \<Rightarrow> nat \<Rightarrow> bytes \<Rightarrow> bytes" where
  "rb_put p w bs = (if w + length bs < length p then patch p w bs
     else patch (patch p w (take (length p - w) bs)) 0 (drop (length p - w) bs))"

lemma length_rb_put [simp]: "w < length p \<Longrightarrow> length bs \<le> length p \<Longrightarrow> length (rb_put p w bs) = length p"
  by (simp add: rb_put_def)

lemma nth_rb_put:
  assumes "w < length p" "length bs \<le> length p" "i < length p"
  shows "rb_put p w bs ! ((w + i) mod length p) = (if i < length bs then bs ! i else p ! ((w + i) mod length p))"
proof -
  have "(w + i) mod length p = (if w + i < length p then w + i else w + i - length p)"
    using assms by (intro wrap) simp_all
  then show ?thesis
    using assms by (auto simp: rb_put_def nth_patch)
qed

text \<open>Advancing the write position by stored bytes appends them to the queue.\<close>

lemma rb_enqueue:
  assumes wf: "rb_wf s" and room: "length bs \<le> unat (rb_size s) - rb_len s"
    and frame: "rb_size t = rb_size s" "rb_readIndex t = rb_readIndex s" "rb_readMirror t = rb_readMirror s"
    and ptr: "rb_pointer t = rb_put (rb_pointer s) (unat (rb_writeIndex s)) bs"
    and widx: "unat (rb_writeIndex t) = (unat (rb_writeIndex s) + length bs) mod unat (rb_size s)"
    and wmir: "rb_writeMirror t = (if unat (rb_writeIndex s) + length bs < unat (rb_size s)
      then rb_writeMirror s else NOT (rb_writeMirror s))"
  shows "rb_wf t" "rb_queue t = rb_queue s @ bs"
proof -
  let ?n = "unat (rb_size s)" and ?w = "unat (rb_writeIndex s)" and ?r = "unat (rb_readIndex s)"
  from wf have b: "0 < ?n" "length (rb_pointer s) = ?n" "?w < ?n" "?r < ?n"
    and m: "rb_readMirror s \<in> {0, 0xFF}" "rb_writeMirror s \<in> {0, 0xFF}"
    by (simp_all add: rb_wf_def)
  have le: "rb_len s \<le> ?n" by (rule rb_len_le [OF wf])
  have w': "unat (rb_writeIndex t) = (if ?w + length bs < ?n then ?w + length bs else ?w + length bs - ?n)"
    using room b by (simp add: widx wrap)
  have "NOT (rb_writeMirror s) \<in> {0, 0xFF}" "NOT (rb_writeMirror s) \<noteq> rb_writeMirror s"
    "rb_readMirror s \<noteq> rb_writeMirror s \<longleftrightarrow> rb_readMirror s = NOT (rb_writeMirror s)"
    using m by auto
  then show wt: "rb_wf t"
    using wf room w' wmir ptr frame by (auto simp: rb_wf_def rb_len_def split: if_splits)
  have lt: "rb_len t = rb_len s + length bs"
    using wf room w' wmir frame m by (auto simp: rb_wf_def rb_len_def split: if_splits)
  have wr: "(?r + rb_len s) mod ?n = ?w"
    using wf by (auto simp: rb_wf_def rb_len_def split: if_splits)
  show "rb_queue t = rb_queue s @ bs"
  proof (rule nth_equalityI)
    fix i assume i: "i < length (rb_queue t)"
    then have iq: "i < rb_len s + length bs" by (simp add: lt)
    define j where "j = (i + ?n - rb_len s) mod ?n"
    have pos: "(?r + i) mod ?n = (?w + j) mod ?n"
    proof -
      have "(?w + j) mod ?n = (?r + rb_len s + (i + ?n - rb_len s)) mod ?n"
        unfolding j_def by (metis mod_add_left_eq mod_add_right_eq wr)
      also have "?r + rb_len s + (i + ?n - rb_len s) = ?r + i + ?n" using le by simp
      finally show ?thesis by simp
    qed
    have j: "j = (if i < rb_len s then i + ?n - rb_len s else i - rb_len s)"
    proof (cases "i < rb_len s")
      case True
      then show ?thesis using le b by (simp add: j_def)
    next
      case False
      then have eq: "i + ?n - rb_len s = (i - rb_len s) + ?n" by simp
      have "i - rb_len s < ?n" using False iq room b by linarith
      moreover have "j = (i - rb_len s) mod ?n" unfolding j_def eq by (rule mod_add_self2)
      ultimately show ?thesis using False by simp
    qed
    have "j < ?n" using b by (simp add: j_def)
    then have "rb_queue t ! i = (if j < length bs then bs ! j else rb_pointer s ! ((?r + i) mod ?n))"
      using i b room nth_rb_put [of ?w "rb_pointer s" bs j]
      by (simp add: rb_queue_def frame ptr pos)
    also have "\<dots> = (rb_queue s @ bs) ! i"
      using j room le iq by (auto simp: nth_append rb_queue_def split: if_splits)
    finally show "rb_queue t ! i = (rb_queue s @ bs) ! i" .
  qed (simp add: lt)
qed

text \<open>Advancing the read position removes bytes from the front.\<close>

lemma rb_dequeue:
  assumes wf: "rb_wf s" and k: "k \<le> rb_len s"
    and frame: "rb_size t = rb_size s" "rb_writeIndex t = rb_writeIndex s" "rb_writeMirror t = rb_writeMirror s"
      "rb_pointer t = rb_pointer s"
    and ridx: "unat (rb_readIndex t) = (unat (rb_readIndex s) + k) mod unat (rb_size s)"
    and rmir: "rb_readMirror t = (if unat (rb_readIndex s) + k < unat (rb_size s)
      then rb_readMirror s else NOT (rb_readMirror s))"
  shows "rb_wf t" "rb_queue t = drop k (rb_queue s)"
proof -
  let ?n = "unat (rb_size s)" and ?w = "unat (rb_writeIndex s)" and ?r = "unat (rb_readIndex s)"
  from wf have b: "0 < ?n" "?w < ?n" "?r < ?n"
    and m: "rb_readMirror s \<in> {0, 0xFF}" "rb_writeMirror s \<in> {0, 0xFF}"
    by (simp_all add: rb_wf_def)
  have le: "k \<le> ?n" using rb_len_le [OF wf] k by simp
  have r': "unat (rb_readIndex t) = (if ?r + k < ?n then ?r + k else ?r + k - ?n)"
    using le b by (simp add: ridx wrap)
  have "NOT (rb_readMirror s) \<in> {0, 0xFF}" "NOT (rb_readMirror s) \<noteq> rb_readMirror s"
    "rb_readMirror s \<noteq> rb_writeMirror s \<longleftrightarrow> NOT (rb_readMirror s) = rb_writeMirror s"
    using m by auto
  then show wt: "rb_wf t" and lt: "rb_queue t = drop k (rb_queue s)"
  proof -
    show "rb_wf t"
      using wf k r' rmir frame m by (auto simp: rb_wf_def rb_len_def split: if_splits)
    have lt: "rb_len t = rb_len s - k"
      using wf k r' rmir frame m by (auto simp: rb_wf_def rb_len_def split: if_splits)
    show "rb_queue t = drop k (rb_queue s)"
      using k by (intro nth_equalityI) (auto simp: lt rb_queue_def frame ridx mod_add_left_eq add.assoc)
  qed
qed

text \<open>The two-part read returns the front of the queue.\<close>

lemma rb_front:
  assumes wf: "rb_wf s" and k: "k \<le> rb_len s"
  shows "(if unat (rb_size s) - unat (rb_readIndex s) > k then seg (rb_pointer s) (unat (rb_readIndex s)) k
    else seg (rb_pointer s) (unat (rb_readIndex s)) (unat (rb_size s) - unat (rb_readIndex s))
      @ seg (rb_pointer s) 0 (k - (unat (rb_size s) - unat (rb_readIndex s)))) = take k (rb_queue s)" (is "?l = _")
proof -
  let ?n = "unat (rb_size s)" and ?r = "unat (rb_readIndex s)"
  from wf have b: "length (rb_pointer s) = ?n" "?r < ?n" by (simp_all add: rb_wf_def)
  have kn: "k \<le> ?n" using rb_len_le [OF wf] k by simp
  show ?thesis
  proof (rule nth_equalityI)
    show "length ?l = length (take k (rb_queue s))" using b k kn by simp
  next
    fix i assume "i < length ?l"
    then have i: "i < k" using b kn by (simp split: if_splits)
    have "(?r + i) mod ?n = (if ?r + i < ?n then ?r + i else ?r + i - ?n)"
      using b i kn by (intro wrap) simp_all
    moreover have "i - (?n - ?r) = ?r + i - ?n" using b by simp
    ultimately show "?l ! i = take k (rb_queue s) ! i"
      using b i k kn by (auto simp: rb_queue_def nth_append)
  qed
qed

section \<open>The operations refine the bounded queue\<close>

text \<open>Two states that differ only in the event log are the same queue.\<close>

lemma rb_hooks_queue [simp]:
  "rb_queue (rb_do_lock s) = rb_queue s" "rb_queue (rb_do_unlock s) = rb_queue s"
  "rb_wf (rb_do_lock s) = rb_wf s" "rb_wf (rb_do_unlock s) = rb_wf s"
  "rb_len (rb_do_lock s) = rb_len s" "rb_len (rb_do_unlock s) = rb_len s"
  by (simp_all add: rb_queue_def rb_wf_def rb_len_def)

lemma rb_init:
  assumes "length buffer = unat sz" "0 < sz"
  shows "rb_wf (Ring_Buffer_Init buffer sz l u)" "rb_queue (Ring_Buffer_Init buffer sz l u) = []"
  using assms by (simp_all add: Ring_Buffer_Init_def rb_wf_def rb_queue_def rb_len_def unat_gt_0)

lemma rb_reset: "rb_wf s \<Longrightarrow> rb_wf (Ring_Buffer_Reset s) \<and> rb_queue (Ring_Buffer_Reset s) = []"
  by (simp add: Ring_Buffer_Reset_def) (simp add: rb_wf_def rb_queue_def rb_len_def)

lemma rb_write:
  assumes wf: "rb_wf s" and data: "unat len \<le> length data" and w: "Ring_Buffer_Write s data len = (n, t)"
  shows "rb_wf t" "unat n = min (unat len) (unat (rb_size s) - rb_len s)"
    "rb_queue t = rb_queue s @ take (unat n) data" "rb_size t = rb_size s"
proof -
  define e where "e = fst (Ring_Buffer_Get_Empty_Length s)"
  have eu: "unat e = unat (rb_size s) - rb_len s" unfolding e_def by (rule rb_get_empty_length [OF wf])
  define l where "l = (if len > e then e else len)"
  have lu: "unat l = min (unat len) (unat (rb_size s) - rb_len s)"
    using eu by (simp add: l_def word_less_nat_alt min_def)
  define rest where "rest = rb_size s - rb_writeIndex s"
  have ru: "unat rest = unat (rb_size s) - unat (rb_writeIndex s)"
    unfolding rest_def using wf by (intro unat_sub) (simp add: rb_wf_def word_le_nat_alt)
  have b: "unat (rb_writeIndex s) < unat (rb_size s)" "length (rb_pointer s) = unat (rb_size s)"
    using wf by (simp_all add: rb_wf_def)
  let ?s = "rb_do_lock (rb_do_unlock (rb_do_lock s))" and ?d = "take (unat l) data"
  have ld: "length ?d = unat l" using lu data by simp
  have un: "Ring_Buffer_Write s data len = (if e = 0 then (0, rb_do_unlock ?s)
     else if rest > l then (l, rb_do_unlock ((rb_store ?s (rb_writeIndex s) ?d)
            \<lparr>rb_writeIndex := rb_writeIndex s + l\<rparr>))
     else (l, rb_do_unlock ((rb_store (rb_store ?s (rb_writeIndex s) (take (unat rest) data)) 0
            (take (unat (l - rest)) (drop (unat rest) data)))
            \<lparr>rb_writeIndex := l - rest, rb_writeMirror := NOT (rb_writeMirror s)\<rparr>)))"
    by (simp add: Ring_Buffer_Write_def Ring_Buffer_Write_Callback_def Ring_Buffer_Write_Copy_def
        case_prod_unfold Let_def e_def l_def rest_def)
  have "rb_wf t \<and> unat n = unat l \<and> rb_queue t = rb_queue s @ ?d \<and> rb_size t = rb_size s"
  proof (cases "e = 0")
    case True
    then have "unat l = 0" using eu lu by simp
    then show ?thesis using True w un wf by auto
  next
    case ne: False
    show ?thesis
    proof (cases "rest > l")
      case True
      then have lt: "unat (rb_writeIndex s) + unat l < unat (rb_size s)"
        using ru by (simp add: word_less_nat_alt)
      from w [unfolded un] ne True have nt: "n = l" "t = rb_do_unlock ((rb_store ?s (rb_writeIndex s) ?d)
            \<lparr>rb_writeIndex := rb_writeIndex s + l\<rparr>)" by auto
      have "unat (rb_writeIndex s + l) = unat (rb_writeIndex s) + unat l"
      proof (rule unat_add_lt)
        have "unat (rb_size s) < 2 ^ LENGTH(32)" by (rule unsigned_less)
        with lt show "unat (rb_writeIndex s) + unat l < 2 ^ LENGTH(32)" by linarith
      qed
      then have pr: "length ?d \<le> unat (rb_size s) - rb_len s" "rb_size t = rb_size s" "rb_readIndex t = rb_readIndex s"
        "rb_readMirror t = rb_readMirror s" "rb_pointer t = rb_put (rb_pointer s) (unat (rb_writeIndex s)) ?d"
        "unat (rb_writeIndex t) = (unat (rb_writeIndex s) + length ?d) mod unat (rb_size s)"
        "rb_writeMirror t = (if unat (rb_writeIndex s) + length ?d < unat (rb_size s)
          then rb_writeMirror s else NOT (rb_writeMirror s))"
        using lt ld lu b by (simp_all add: nt rb_put_def)
      then show ?thesis using rb_enqueue [OF wf pr] nt by simp
    next
      case False
      then have ge: "unat (rb_size s) \<le> unat (rb_writeIndex s) + unat l" "unat rest \<le> unat l" "rest \<le> l"
        using ru by (simp_all add: word_less_nat_alt word_le_nat_alt)
      have dr: "unat (l - rest) = unat l - unat rest" by (rule unat_sub [OF ge(3)])
      let ?t = "rb_do_unlock ((rb_store (rb_store ?s (rb_writeIndex s) (take (unat rest) data)) 0
            (take (unat (l - rest)) (drop (unat rest) data)))
            \<lparr>rb_writeIndex := l - rest, rb_writeMirror := NOT (rb_writeMirror s)\<rparr>)"
      from w [unfolded un] ne False have nt: "n = l" "t = ?t" by auto
      have lw: "unat l \<le> unat (rb_size s)" using lu by simp
      have ix: "unat (l - rest) = (unat (rb_writeIndex s) + length ?d) mod unat (rb_size s)"
        unfolding ld using dr ru ge(1) lw b by (simp add: wrap)
      have pp: "rb_pointer t = rb_put (rb_pointer s) (unat (rb_writeIndex s)) ?d"
      proof -
        have "take (unat rest) data = take (unat rest) ?d" using ge(2) by simp
        moreover have "take (unat (l - rest)) (drop (unat rest) data) = drop (unat rest) ?d"
          by (simp add: dr drop_take)
        moreover have "rb_pointer t = patch (patch (rb_pointer s) (unat (rb_writeIndex s)) (take (unat rest) data))
            0 (take (unat (l - rest)) (drop (unat rest) data))"
          unfolding nt(2) by simp
        ultimately have "rb_pointer t = patch (patch (rb_pointer s) (unat (rb_writeIndex s)) (take (unat rest) ?d))
            0 (drop (unat rest) ?d)"
          by (simp only:)
        moreover have "\<not> unat (rb_writeIndex s) + length ?d < length (rb_pointer s)"
          unfolding ld using ge(1) b by simp
        ultimately show ?thesis unfolding rb_put_def b(2) ru by simp
      qed
      have pr: "length ?d \<le> unat (rb_size s) - rb_len s" "rb_size t = rb_size s" "rb_readIndex t = rb_readIndex s"
        "rb_readMirror t = rb_readMirror s"
        by (simp_all only: ld nt) (simp_all add: lu)
      have pr2: "unat (rb_writeIndex t) = (unat (rb_writeIndex s) + length ?d) mod unat (rb_size s)"
        "rb_writeMirror t = (if unat (rb_writeIndex s) + length ?d < unat (rb_size s)
          then rb_writeMirror s else NOT (rb_writeMirror s))"
        using ix ge(1) ld unfolding nt(2) by simp_all
      note pr = pr pp pr2
      then show ?thesis using rb_enqueue [OF wf pr] nt by simp
    qed
  qed
  then show "rb_wf t" "unat n = min (unat len) (unat (rb_size s) - rb_len s)"
    "rb_queue t = rb_queue s @ take (unat n) data" "rb_size t = rb_size s"
    using lu by auto
qed

lemma rb_read:
  assumes wf: "rb_wf s" and r: "Ring_Buffer_Read s len = (n, bs, t)"
  shows "rb_wf t" "unat n = min (unat len) (rb_len s)" "bs = take (unat n) (rb_queue s)"
    "rb_queue t = drop (unat n) (rb_queue s)" "rb_size t = rb_size s"
proof -
  define g where "g = fst (Ring_Buffer_Get_Length s)"
  have gu: "unat g = rb_len s" unfolding g_def by (rule rb_get_length [OF wf])
  define l where "l = (if g < len then g else len)"
  have lu: "unat l = min (unat len) (rb_len s)"
    using gu by (simp add: l_def word_less_nat_alt min_def)
  define rest where "rest = rb_size s - rb_readIndex s"
  have ru: "unat rest = unat (rb_size s) - unat (rb_readIndex s)"
    unfolding rest_def using wf by (intro unat_sub) (simp add: rb_wf_def word_le_nat_alt)
  have b: "unat (rb_readIndex s) < unat (rb_size s)" "length (rb_pointer s) = unat (rb_size s)"
    using wf by (simp_all add: rb_wf_def)
  have le: "unat l \<le> rb_len s" "unat l \<le> unat (rb_size s)"
    using lu rb_len_le [OF wf] by simp_all
  let ?s = "rb_do_lock (rb_do_unlock (rb_do_lock s))"
  have un: "Ring_Buffer_Read s len = (if g = 0 then (0, [], rb_do_unlock ?s)
     else if rest > l then (l, seg (rb_pointer s) (unat (rb_readIndex s)) (unat l),
         rb_do_unlock (?s\<lparr>rb_readIndex := rb_readIndex s + l\<rparr>))
     else (l, seg (rb_pointer s) (unat (rb_readIndex s)) (unat rest) @ seg (rb_pointer s) 0 (unat (l - rest)),
         rb_do_unlock (?s\<lparr>rb_readIndex := l - rest, rb_readMirror := NOT (rb_readMirror s)\<rparr>)))"
    by (simp add: Ring_Buffer_Read_def Ring_Buffer_Read_Callback_def Ring_Buffer_Read_Copy_def
        case_prod_unfold Let_def g_def l_def rest_def)
  have front: "take (unat l) (rb_queue s) = (if unat rest > unat l
      then seg (rb_pointer s) (unat (rb_readIndex s)) (unat l)
      else seg (rb_pointer s) (unat (rb_readIndex s)) (unat rest) @ seg (rb_pointer s) 0 (unat l - unat rest))"
    unfolding ru by (rule rb_front [OF wf le(1), symmetric])
  have "rb_wf t \<and> unat n = unat l \<and> bs = take (unat l) (rb_queue s) \<and>
    rb_queue t = drop (unat l) (rb_queue s) \<and> rb_size t = rb_size s"
  proof (cases "g = 0")
    case True
    then have "unat l = 0" using gu lu by simp
    then show ?thesis using True r un wf by auto
  next
    case ng: False
    show ?thesis
    proof (cases "rest > l")
      case True
      then have lt: "unat (rb_readIndex s) + unat l < unat (rb_size s)" "unat rest > unat l"
        using ru by (simp_all add: word_less_nat_alt)
      from r [unfolded un] ng True have nt: "n = l" "bs = seg (rb_pointer s) (unat (rb_readIndex s)) (unat l)"
        "t = rb_do_unlock (?s\<lparr>rb_readIndex := rb_readIndex s + l\<rparr>)" by auto
      have "unat (rb_readIndex s + l) = unat (rb_readIndex s) + unat l"
      proof (rule unat_add_lt)
        have "unat (rb_size s) < 2 ^ LENGTH(32)" by (rule unsigned_less)
        with lt show "unat (rb_readIndex s) + unat l < 2 ^ LENGTH(32)" by linarith
      qed
      then have pr: "rb_size t = rb_size s" "rb_writeIndex t = rb_writeIndex s" "rb_writeMirror t = rb_writeMirror s"
        "rb_pointer t = rb_pointer s" "unat (rb_readIndex t) = (unat (rb_readIndex s) + unat l) mod unat (rb_size s)"
        "rb_readMirror t = (if unat (rb_readIndex s) + unat l < unat (rb_size s)
          then rb_readMirror s else NOT (rb_readMirror s))"
        using lt by (simp_all add: nt(3))
      show ?thesis using rb_dequeue [OF wf le(1) pr] nt front lt(2) pr(1) by simp
    next
      case False
      then have ge: "unat (rb_size s) \<le> unat (rb_readIndex s) + unat l" "unat rest \<le> unat l" "rest \<le> l"
        using ru by (simp_all add: word_less_nat_alt word_le_nat_alt)
      have dr: "unat (l - rest) = unat l - unat rest" by (rule unat_sub [OF ge(3)])
      from r [unfolded un] ng False have nt: "n = l"
        "bs = seg (rb_pointer s) (unat (rb_readIndex s)) (unat rest) @ seg (rb_pointer s) 0 (unat (l - rest))"
        "t = rb_do_unlock (?s\<lparr>rb_readIndex := l - rest, rb_readMirror := NOT (rb_readMirror s)\<rparr>)" by auto
      have "unat (l - rest) = (unat (rb_readIndex s) + unat l) mod unat (rb_size s)"
        using dr ru ge(1) le(2) b by (simp add: wrap)
      then have pr: "rb_size t = rb_size s" "rb_writeIndex t = rb_writeIndex s" "rb_writeMirror t = rb_writeMirror s"
        "rb_pointer t = rb_pointer s" "unat (rb_readIndex t) = (unat (rb_readIndex s) + unat l) mod unat (rb_size s)"
        "rb_readMirror t = (if unat (rb_readIndex s) + unat l < unat (rb_size s)
          then rb_readMirror s else NOT (rb_readMirror s))"
        using ge(1) by (simp_all add: nt(3))
      show ?thesis using rb_dequeue [OF wf le(1) pr] nt(1,2) front ge(2) pr(1) dr by simp
    qed
  qed
  then show "rb_wf t" "unat n = min (unat len) (rb_len s)" "bs = take (unat n) (rb_queue s)"
    "rb_queue t = drop (unat n) (rb_queue s)" "rb_size t = rb_size s"
    using lu by auto
qed

lemma rb_peek:
  assumes wf: "rb_wf s" and r: "Ring_Buffer_Peek s len = (n, bs, t)"
  shows "rb_wf t" "unat n = min (unat len) (rb_len s)" "bs = take (unat n) (rb_queue s)" "rb_queue t = rb_queue s"
proof -
  define g where "g = fst (Ring_Buffer_Get_Length s)"
  have gu: "unat g = rb_len s" unfolding g_def by (rule rb_get_length [OF wf])
  define l where "l = (if g < len then g else len)"
  have lu: "unat l = min (unat len) (rb_len s)"
    using gu by (simp add: l_def word_less_nat_alt min_def)
  define rest where "rest = rb_size s - rb_readIndex s"
  have ru: "unat rest = unat (rb_size s) - unat (rb_readIndex s)"
    unfolding rest_def using wf by (intro unat_sub) (simp add: rb_wf_def word_le_nat_alt)
  have front: "take (unat l) (rb_queue s) = (if unat rest > unat l
      then seg (rb_pointer s) (unat (rb_readIndex s)) (unat l)
      else seg (rb_pointer s) (unat (rb_readIndex s)) (unat rest) @ seg (rb_pointer s) 0 (unat l - unat rest))"
    unfolding ru by (rule rb_front [OF wf, symmetric]) (simp add: lu)
  have un: "fst (Ring_Buffer_Peek s len) = (if g = 0 then 0 else l)"
    "fst (snd (Ring_Buffer_Peek s len)) = (if g = 0 then []
      else if rest > l then seg (rb_pointer s) (unat (rb_readIndex s)) (unat l)
      else seg (rb_pointer s) (unat (rb_readIndex s)) (unat rest) @ seg (rb_pointer s) 0 (unat (l - rest)))"
    by (simp_all add: Ring_Buffer_Peek_def case_prod_unfold Let_def g_def l_def rest_def)
  have t: "t = rb_do_unlock (rb_do_lock (rb_do_unlock (rb_do_lock s)))"
    using r by (auto simp: Ring_Buffer_Peek_def case_prod_unfold Let_def split: if_splits)
  then show "rb_wf t" "rb_queue t = rb_queue s" using wf by simp_all
  have n: "n = (if g = 0 then 0 else l)" using r un(1) by simp
  then show "unat n = min (unat len) (rb_len s)" using lu gu by auto
  have dr: "\<not> rest > l \<Longrightarrow> unat (l - rest) = unat l - unat rest" by (rule unat_sub) simp
  have "bs = (if g = 0 then [] else take (unat l) (rb_queue s))"
    using r un(2) front dr by (simp add: word_less_nat_alt)
  then show "bs = take (unat n) (rb_queue s)" using n by auto
qed

text \<open>Stepping an index by one, as the byte operations do.\<close>

lemma rb_step:
  assumes "unat i < unat (n :: u32)"
  shows "i = n - 1 \<longleftrightarrow> unat i + 1 = unat n"
    "i \<noteq> n - 1 \<Longrightarrow> unat (i + 1) = (unat i + 1) mod unat n"
proof -
  have n1: "unat (n - 1) = unat n - 1" using assms by (intro unat_sub [THEN trans]) (auto simp: word_le_nat_alt)
  then show e: "i = n - 1 \<longleftrightarrow> unat i + 1 = unat n" using assms by (auto simp: word_eq_unat)
  assume "i \<noteq> n - 1"
  then have lt: "unat i + 1 < unat n" using e assms by simp
  have "unat n < 2 ^ LENGTH(32)" by (rule unsigned_less)
  then have "unat (i + 1) = unat i + unat (1 :: u32)" using lt by (intro unat_add_lt) simp
  then show "unat (i + 1) = (unat i + 1) mod unat n" using lt by simp
qed

lemma rb_put_one: "w < length p \<Longrightarrow> rb_put p w [d] = patch p w [d]"
  by (auto simp: rb_put_def patch_def)

lemma rb_write_byte:
  assumes wf: "rb_wf s" and w: "Ring_Buffer_Write_Byte s d = (n, t)"
  shows "rb_wf t" "n = (if rb_len s < unat (rb_size s) then 1 else 0)"
    "rb_queue t = (if rb_len s < unat (rb_size s) then rb_queue s @ [d] else rb_queue s)"
proof -
  have e: "unat (fst (Ring_Buffer_Get_Empty_Length (rb_do_lock s))) = unat (rb_size s) - rb_len s"
    using rb_get_empty_length [of "rb_do_lock s"] wf by simp
  have b: "unat (rb_writeIndex s) < unat (rb_size s)" "length (rb_pointer s) = unat (rb_size s)"
    using wf by (simp_all add: rb_wf_def)
  note st = rb_step [OF b(1)]
  have "rb_wf t \<and> n = (if rb_len s < unat (rb_size s) then 1 else 0) \<and>
    rb_queue t = (if rb_len s < unat (rb_size s) then rb_queue s @ [d] else rb_queue s)"
  proof (cases "rb_len s < unat (rb_size s)")
    case False
    then have "fst (Ring_Buffer_Get_Empty_Length (rb_do_lock s)) = 0" using e by (simp add: word_eq_unat)
    then show ?thesis using w False wf by (auto simp: Ring_Buffer_Write_Byte_def case_prod_unfold Let_def)
  next
    case True
    then have nz: "fst (Ring_Buffer_Get_Empty_Length (rb_do_lock s)) \<noteq> 0" using e by (auto simp: word_eq_unat)
    have t: "n = 1" "rb_size t = rb_size s" "rb_readIndex t = rb_readIndex s" "rb_readMirror t = rb_readMirror s"
      "rb_pointer t = rb_put (rb_pointer s) (unat (rb_writeIndex s)) [d]"
      "unat (rb_writeIndex t) = (unat (rb_writeIndex s) + length [d]) mod unat (rb_size s)"
      "rb_writeMirror t = (if unat (rb_writeIndex s) + length [d] < unat (rb_size s)
        then rb_writeMirror s else NOT (rb_writeMirror s))"
      using w nz st b by (auto simp: Ring_Buffer_Write_Byte_def case_prod_unfold Let_def rb_put_one split: if_splits)
    have "length [d] \<le> unat (rb_size s) - rb_len s" using True by simp
    then show ?thesis using rb_enqueue [OF wf _ t(2-)] True t(1) by simp
  qed
  then show "rb_wf t" "n = (if rb_len s < unat (rb_size s) then 1 else 0)"
    "rb_queue t = (if rb_len s < unat (rb_size s) then rb_queue s @ [d] else rb_queue s)" by auto
qed

lemma rb_read_byte:
  assumes wf: "rb_wf s" and r: "Ring_Buffer_Read_Byte s = (n, b, t)"
  shows "rb_wf t" "n = (if rb_queue s = [] then 0 else 1)"
    "b = (if rb_queue s = [] then None else Some (hd (rb_queue s)))" "rb_queue t = tl (rb_queue s)"
proof -
  have e: "unat (fst (Ring_Buffer_Get_Length (rb_do_lock s))) = rb_len s"
    using rb_get_length [of "rb_do_lock s"] wf by simp
  have bd: "unat (rb_readIndex s) < unat (rb_size s)" using wf by (simp add: rb_wf_def)
  note st = rb_step [OF bd]
  have "rb_wf t \<and> n = (if rb_queue s = [] then 0 else 1) \<and>
    b = (if rb_queue s = [] then None else Some (hd (rb_queue s))) \<and> rb_queue t = tl (rb_queue s)"
  proof (cases "rb_len s = 0")
    case True
    then have "fst (Ring_Buffer_Get_Length (rb_do_lock s)) = 0" "rb_queue s = []"
      using e by (simp_all add: word_eq_unat rb_queue_def)
    then show ?thesis using r wf by (auto simp: Ring_Buffer_Read_Byte_def case_prod_unfold Let_def)
  next
    case False
    then have nz: "fst (Ring_Buffer_Get_Length (rb_do_lock s)) \<noteq> 0" and ne: "rb_queue s \<noteq> []"
      using e by (auto simp: word_eq_unat rb_queue_def)
    have hd: "hd (rb_queue s) = rb_pointer s ! unat (rb_readIndex s)"
      using False bd by (simp add: rb_queue_def hd_map upt_conv_Cons)
    have t: "n = 1" "b = Some (rb_pointer s ! unat (rb_readIndex s))" "rb_size t = rb_size s"
      "rb_writeIndex t = rb_writeIndex s" "rb_writeMirror t = rb_writeMirror s" "rb_pointer t = rb_pointer s"
      "unat (rb_readIndex t) = (unat (rb_readIndex s) + 1) mod unat (rb_size s)"
      "rb_readMirror t = (if unat (rb_readIndex s) + 1 < unat (rb_size s)
        then rb_readMirror s else NOT (rb_readMirror s))"
      using r nz st bd by (auto simp: Ring_Buffer_Read_Byte_def case_prod_unfold Let_def split: if_splits)
    have "1 \<le> rb_len s" using False by simp
    then show ?thesis using rb_dequeue [OF wf _ t(3-)] t(1,2) ne hd by (simp add: drop_Suc)
  qed
  then show "rb_wf t" "n = (if rb_queue s = [] then 0 else 1)"
    "b = (if rb_queue s = [] then None else Some (hd (rb_queue s)))" "rb_queue t = tl (rb_queue s)" by auto
qed

text \<open>Dropping bytes from the front, as a state of its own.\<close>

definition rb_advance :: "ring_buffer \<Rightarrow> nat \<Rightarrow> ring_buffer" where
  "rb_advance s k = s\<lparr>rb_readIndex := word_of_nat ((unat (rb_readIndex s) + k) mod unat (rb_size s)),
     rb_readMirror := (if unat (rb_readIndex s) + k < unat (rb_size s) then rb_readMirror s
       else NOT (rb_readMirror s))\<rparr>"

lemma rb_advance:
  assumes wf: "rb_wf s" and k: "k \<le> rb_len s"
  shows "rb_wf (rb_advance s k)" "rb_queue (rb_advance s k) = drop k (rb_queue s)"
    "rb_len (rb_advance s k) = rb_len s - k"
    "unat (rb_readIndex (rb_advance s k)) = (unat (rb_readIndex s) + k) mod unat (rb_size s)"
proof -
  have "0 < unat (rb_size s)" using wf by (simp add: rb_wf_def)
  then have "(unat (rb_readIndex s) + k) mod unat (rb_size s) < unat (rb_size s)" by simp
  moreover have "unat (rb_size s) < 2 ^ LENGTH(32)" by (rule unsigned_less)
  ultimately have "(unat (rb_readIndex s) + k) mod unat (rb_size s) < 2 ^ LENGTH(32)" by (rule less_trans)
  then show r: "unat (rb_readIndex (rb_advance s k)) = (unat (rb_readIndex s) + k) mod unat (rb_size s)"
    unfolding rb_advance_def by (simp add: unat_of_nat)
  show "rb_wf (rb_advance s k)" "rb_queue (rb_advance s k) = drop k (rb_queue s)"
    by (rule rb_dequeue [OF wf k _ _ _ _ r]; simp add: rb_advance_def)+
  then show "rb_len (rb_advance s k) = rb_len s - k" by (metis length_drop length_rb_queue)
qed

text \<open>Overwriting: drop what does not fit any more, then append.\<close>

lemma rb_overwrite:
  assumes wf: "rb_wf s" and k: "k \<le> rb_len s" and room: "length bs \<le> unat (rb_size s) - (rb_len s - k)"
    and frame: "rb_size t = rb_size s" "unat (rb_readIndex t) = (unat (rb_readIndex s) + k) mod unat (rb_size s)"
    and rmir: "rb_readMirror t = (if unat (rb_readIndex s) + k < unat (rb_size s)
      then rb_readMirror s else NOT (rb_readMirror s))"
    and ptr: "rb_pointer t = rb_put (rb_pointer s) (unat (rb_writeIndex s)) bs"
    and widx: "unat (rb_writeIndex t) = (unat (rb_writeIndex s) + length bs) mod unat (rb_size s)"
    and wmir: "rb_writeMirror t = (if unat (rb_writeIndex s) + length bs < unat (rb_size s)
      then rb_writeMirror s else NOT (rb_writeMirror s))"
  shows "rb_wf t \<and> rb_queue t = drop k (rb_queue s) @ bs"
proof -
  note a = rb_advance [OF wf k]
  have f: "rb_size (rb_advance s k) = rb_size s" "rb_pointer (rb_advance s k) = rb_pointer s"
    "rb_writeIndex (rb_advance s k) = rb_writeIndex s" "rb_writeMirror (rb_advance s k) = rb_writeMirror s"
    "rb_readMirror (rb_advance s k) = rb_readMirror t"
    by (simp_all add: rb_advance_def rmir)
  have ri: "rb_readIndex t = rb_readIndex (rb_advance s k)"
    using a(4) frame(2) by (simp add: word_eq_unat)
  show ?thesis
    using rb_enqueue [OF a(1), of bs t] room frame(1) ptr widx wmir a f ri by simp
qed

lemma rb_write_byte_force:
  assumes wf: "rb_wf s" and w: "Ring_Buffer_Write_Byte_Force s d = (n, t)"
  shows "rb_wf t" "n = 1"
    "rb_queue t = (if rb_len s < unat (rb_size s) then rb_queue s @ [d] else tl (rb_queue s) @ [d])"
proof -
  have b: "unat (rb_writeIndex s) < unat (rb_size s)" "unat (rb_readIndex s) < unat (rb_size s)"
    "length (rb_pointer s) = unat (rb_size s)"
    using wf by (simp_all add: rb_wf_def)
  note st = rb_step [OF b(1)]
  define k where "k = (if rb_len s < unat (rb_size s) then 0 else 1 :: nat)"
  have ful: "fst (Ring_Buffer_Get_Status s) = RING_BUFFER_FULL \<longleftrightarrow> k = 1"
    using rb_status [OF wf] rb_len_le [OF wf] b(1) by (auto simp: k_def rb_queue_def split: if_splits)
  have fr: "snd (Ring_Buffer_Get_Status s) = rb_do_unlock (rb_do_lock s)"
    by (simp add: Ring_Buffer_Get_Status_def Let_def)
  have rw: "k = 1 \<Longrightarrow> rb_readIndex s = rb_writeIndex s"
    using wf by (auto simp: k_def rb_wf_def rb_len_def word_eq_unat split: if_splits)
  have k01: "k = 0 \<or> k = 1" by (simp add: k_def)
  have n1: "n = 1" using w by (simp add: Ring_Buffer_Write_Byte_Force_def case_prod_unfold Let_def)
  have t: "rb_size t = rb_size s" "unat (rb_readIndex t) = (unat (rb_readIndex s) + k) mod unat (rb_size s)"
    "rb_readMirror t = (if unat (rb_readIndex s) + k < unat (rb_size s) then rb_readMirror s else NOT (rb_readMirror s))"
    "rb_pointer t = rb_put (rb_pointer s) (unat (rb_writeIndex s)) [d]"
    "unat (rb_writeIndex t) = (unat (rb_writeIndex s) + length [d]) mod unat (rb_size s)"
    "rb_writeMirror t = (if unat (rb_writeIndex s) + length [d] < unat (rb_size s)
      then rb_writeMirror s else NOT (rb_writeMirror s))"
    using w st b rw ful k01 fr
    by (auto simp: Ring_Buffer_Write_Byte_Force_def case_prod_unfold Let_def rb_put_one split: if_splits)
  have le: "k \<le> rb_len s" "length [d] \<le> unat (rb_size s) - (rb_len s - k)"
    using rb_len_le [OF wf] b by (auto simp: k_def)
  have "rb_wf t \<and> rb_queue t = drop k (rb_queue s) @ [d]"
    by (rule rb_overwrite [OF wf le t])
  then show "rb_wf t" "n = 1"
    "rb_queue t = (if rb_len s < unat (rb_size s) then rb_queue s @ [d] else tl (rb_queue s) @ [d])"
    using n1 by (simp_all add: k_def drop_Suc)
qed

text \<open>
  The forced block write.  The data longer than the ring is cut to its last \<open>size\<close> bytes;
  when it does not fit and the ring content does not wrap (equal mirrors), the read mirror
  is complemented although the read index has not wrapped.
\<close>

lemma rb_force_cut:
  "rb_size s < len \<Longrightarrow> unat len \<le> length data \<Longrightarrow>
   Ring_Buffer_Write_Force s data len = Ring_Buffer_Write_Force s (drop (unat (len - rb_size s)) data) (rb_size s)"
  by (simp add: Ring_Buffer_Write_Force_def case_prod_unfold Let_def)

lemma rb_write_force_fits:
  assumes wf: "rb_wf s" and len: "unat len \<le> length data" "unat len \<le> unat (rb_size s)"
    and w: "Ring_Buffer_Write_Force s data len = (n, t)"
  defines "k \<equiv> rb_len s + unat len - unat (rb_size s)"
  shows "n = len"
    and "k = 0 \<or> rb_readMirror s \<noteq> rb_writeMirror s \<Longrightarrow>
      rb_wf t \<and> rb_queue t = drop k (rb_queue s) @ take (unat len) data"
    and "k > 0 \<Longrightarrow> rb_readMirror s = rb_writeMirror s \<Longrightarrow> rb_queue t = []"
proof -
  let ?n = "unat (rb_size s)" and ?w = "unat (rb_writeIndex s)" and ?r = "unat (rb_readIndex s)"
  let ?d = "take (unat len) data"
  define e where "e = fst (Ring_Buffer_Get_Empty_Length s)"
  have eu: "unat e = ?n - rb_len s" unfolding e_def by (rule rb_get_empty_length [OF wf])
  have over: "e < len \<longleftrightarrow> k > 0"
    using eu rb_len_le [OF wf] by (auto simp: word_less_nat_alt k_def)
  define rest where "rest = rb_size s - rb_writeIndex s"
  have ru: "unat rest = ?n - ?w"
    unfolding rest_def using wf by (intro unat_sub) (simp add: rb_wf_def word_le_nat_alt)
  have b: "?w < ?n" "?r < ?n" "length (rb_pointer s) = ?n" using wf by (simp_all add: rb_wf_def)
  have nlt: "\<not> rb_size s < len" using len(2) by (simp add: word_less_nat_alt)
  let ?s = "rb_do_lock (rb_do_unlock (rb_do_lock s))"
  let ?t1 = "(rb_store ?s (rb_writeIndex s) ?d)\<lparr>rb_writeIndex := rb_writeIndex s + len\<rparr>"
  let ?t2 = "(rb_store (rb_store ?s (rb_writeIndex s) (take (unat rest) data)) 0
      (seg data (unat rest) (unat (len - rest))))\<lparr>rb_writeIndex := len - rest,
        rb_writeMirror := NOT (rb_writeMirror s)\<rparr>"
  have un: "Ring_Buffer_Write_Force s data len = (len, rb_do_unlock
      (if rest > len then (if k > 0 then ?t1\<lparr>rb_readIndex := rb_writeIndex s + len\<rparr> else ?t1)
       else (if k > 0 then ?t2\<lparr>rb_readIndex := len - rest, rb_readMirror := NOT (rb_readMirror s)\<rparr> else ?t2)))"
    using nlt over [unfolded e_def]
    by (simp add: Ring_Buffer_Write_Force_def case_prod_unfold Let_def rest_def)
  show "n = len" using w un by simp
  have t: "t = rb_do_unlock
      (if rest > len then (if k > 0 then ?t1\<lparr>rb_readIndex := rb_writeIndex s + len\<rparr> else ?t1)
       else (if k > 0 then ?t2\<lparr>rb_readIndex := len - rest, rb_readMirror := NOT (rb_readMirror s)\<rparr> else ?t2))"
    using w [unfolded un] by auto
  have wi: "rest > len \<Longrightarrow> unat (rb_writeIndex s + len) = ?w + unat len"
  proof (rule unat_add_lt)
    assume "rest > len"
    then have "?w + unat len < ?n" using ru by (simp add: word_less_nat_alt)
    moreover have "?n < 2 ^ LENGTH(32)" by (rule unsigned_less)
    ultimately show "?w + unat len < 2 ^ LENGTH(32)" by linarith
  qed
  have rl: "rest > len \<longleftrightarrow> ?w + unat len < ?n" using ru by (auto simp: word_less_nat_alt)
  have dr: "\<not> rest > len \<Longrightarrow> unat (len - rest) = unat len - unat rest" by (rule unat_sub) simp
  have ptr: "rb_pointer t = rb_put (rb_pointer s) ?w ?d"
  proof (cases "rest > len")
    case True
    then show ?thesis using rl b len by (simp add: t rb_put_def)
  next
    case False
    then have "seg data (unat rest) (unat (len - rest)) = drop (unat rest) ?d"
      "take (unat rest) data = take (unat rest) ?d"
      using dr by (simp_all add: seg_def drop_take word_less_nat_alt)
    moreover have "rb_pointer t = patch (patch (rb_pointer s) ?w (take (unat rest) data)) 0
        (seg data (unat rest) (unat (len - rest)))"
      using False by (simp add: t)
    ultimately have "rb_pointer t = patch (patch (rb_pointer s) ?w (take (unat rest) ?d)) 0 (drop (unat rest) ?d)"
      by (simp only:)
    moreover have "\<not> ?w + length ?d < length (rb_pointer s)" using False rl b len by simp
    ultimately show ?thesis unfolding rb_put_def b(3) ru by simp
  qed
  have wx: "unat (rb_writeIndex t) = (?w + unat len) mod ?n"
  proof (cases "rest > len")
    case True
    then show ?thesis using rl wi by (simp add: t)
  next
    case False
    then have "unat (len - rest) = (?w + unat len) mod ?n"
      using dr ru rl b len(2) by (simp add: wrap)
    then show ?thesis using False by (simp add: t)
  qed
  have wm: "rb_writeMirror t = (if ?w + unat len < ?n then rb_writeMirror s else NOT (rb_writeMirror s))"
    using rl by (simp add: t)
  have sz: "rb_size t = rb_size s" by (simp add: t)
  have ri: "rb_readIndex t = (if k > 0 then rb_writeIndex t else rb_readIndex s)" by (simp add: t)
  have rm: "rb_readMirror t = (if k > 0 \<and> \<not> ?w + unat len < ?n then NOT (rb_readMirror s) else rb_readMirror s)"
    using rl by (simp add: t)
  have ld: "length ?d = unat len" using len by simp
  have kl: "k \<le> rb_len s" using len(2) by (simp add: k_def)
  {
    assume d: "k = 0 \<or> rb_readMirror s \<noteq> rb_writeMirror s"
    have kr: "k > 0 \<Longrightarrow> ?r + k = ?w + unat len"
      using d wf by (auto simp: k_def rb_len_def rb_wf_def)
    have "rb_wf t \<and> rb_queue t = drop k (rb_queue s) @ ?d"
    proof (rule rb_overwrite [OF wf kl _ sz _ _ ptr])
      show "length ?d \<le> ?n - (rb_len s - k)" using ld len(2) rb_len_le [OF wf] by (simp add: k_def)
      show "unat (rb_readIndex t) = (?r + k) mod ?n" using kr ri wx b by (cases "k > 0") auto
      show "rb_readMirror t = (if ?r + k < ?n then rb_readMirror s else NOT (rb_readMirror s))"
        using kr rm b by (cases "k > 0") auto
      show "unat (rb_writeIndex t) = (?w + length ?d) mod ?n" unfolding ld by (rule wx)
      show "rb_writeMirror t = (if ?w + length ?d < ?n then rb_writeMirror s else NOT (rb_writeMirror s))"
        unfolding ld by (rule wm)
    qed
  }
  then show "k = 0 \<or> rb_readMirror s \<noteq> rb_writeMirror s \<Longrightarrow>
      rb_wf t \<and> rb_queue t = drop k (rb_queue s) @ take (unat len) data" .
  assume eq: "k > 0" "rb_readMirror s = rb_writeMirror s"
  then have "\<not> ?w + unat len < ?n" using wf by (auto simp: k_def rb_len_def rb_wf_def)
  with eq show "rb_queue t = []" using ri rm wm by (simp add: rb_queue_def rb_len_def)
qed

section \<open>The queue interface and its client\<close>

text \<open>
  What the transports rely on: a write appends what fits and says how much, a read removes a
  prefix.  The client lemma is the FIFO law over any interleaving of writes and reads.
\<close>

datatype rb_op = Op_Write bytes | Op_Read u32

fun rb_run ::
  "('s \<Rightarrow> bytes \<Rightarrow> u32 \<Rightarrow> u32 \<times> 's) \<Rightarrow> ('s \<Rightarrow> u32 \<Rightarrow> u32 \<times> bytes \<times> 's) \<Rightarrow> rb_op list \<Rightarrow> 's \<Rightarrow>
   bytes \<times> bytes \<times> 's" where
  "rb_run wr rd [] s = ([], [], s)"
| "rb_run wr rd (Op_Write data # ops) s =
     (let (n, s1) = wr s data (word_of_nat (length data)); (acc, out, s2) = rb_run wr rd ops s1
      in (take (unat n) data @ acc, out, s2))"
| "rb_run wr rd (Op_Read len # ops) s =
     (let (n, bs, s1) = rd s len; (acc, out, s2) = rb_run wr rd ops s1
      in (acc, bs @ out, s2))"

locale byte_queue =
  fixes inv :: "'s \<Rightarrow> bool" and contents :: "'s \<Rightarrow> bytes" and room :: "'s \<Rightarrow> nat"
    and wr :: "'s \<Rightarrow> bytes \<Rightarrow> u32 \<Rightarrow> u32 \<times> 's" and rd :: "'s \<Rightarrow> u32 \<Rightarrow> u32 \<times> bytes \<times> 's"
  assumes write_law: "\<lbrakk>inv s; unat len \<le> length data; wr s data len = (n, t)\<rbrakk> \<Longrightarrow>
      inv t \<and> unat n = min (unat len) (room s) \<and> contents t = contents s @ take (unat n) data"
    and read_law: "\<lbrakk>inv s; rd s len = (n, bs, t)\<rbrakk> \<Longrightarrow>
      inv t \<and> unat n = min (unat len) (length (contents s)) \<and> bs = take (unat n) (contents s)
      \<and> contents t = drop (unat n) (contents s)"
begin

lemma fifo:
  "\<lbrakk>inv s; rb_run wr rd ops s = (acc, out, t)\<rbrakk> \<Longrightarrow> inv t \<and> contents s @ acc = out @ contents t"
proof (induction ops arbitrary: s acc out)
  case (Cons a ops)
  show ?case
  proof (cases a)
    case (Op_Write data)
    obtain n s1 where w: "wr s data (word_of_nat (length data)) = (n, s1)" by fastforce
    have "unat (word_of_nat (length data) :: u32) \<le> length data" by (simp add: unat_of_nat)
    note wl = write_law [OF Cons.prems(1) this w]
    obtain acc' out' where r: "rb_run wr rd ops s1 = (acc', out', t)"
      and acc: "acc = take (unat n) data @ acc'" "out = out'"
      using Cons.prems(2) Op_Write w by (auto simp: Let_def split: prod.splits)
    show ?thesis using Cons.IH [OF _ r] wl acc by simp
  next
    case (Op_Read len)
    obtain n bs s1 where w: "rd s len = (n, bs, s1)" by (metis prod_cases3)
    note rl = read_law [OF Cons.prems(1) w]
    obtain out' where r: "rb_run wr rd ops s1 = (acc, out', t)" and out: "out = bs @ out'"
      using Cons.prems(2) Op_Read w by (auto simp: Let_def split: prod.splits)
    have "inv t \<and> contents s1 @ acc = out' @ contents t" using Cons.IH [OF _ r] rl by simp
    moreover have "contents s = bs @ contents s1" using rl by simp
    ultimately show ?thesis using out by (metis append_assoc)
  qed
qed simp

text \<open>What was written and fits comes back with one read.\<close>

lemma write_then_read:
  assumes "inv s" "contents s = []" "unat len = length data" "length data \<le> room s"
    and "wr s data len = (n, t)" "rd t len = (m, bs, u)"
  shows "n = len \<and> m = len \<and> bs = data \<and> contents u = []"
  using write_law [OF assms(1) _ assms(5)] read_law [OF _ assms(6)] assms
  by (simp add: word_eq_unat)

end

interpretation ring: byte_queue rb_wf rb_queue "\<lambda>s. unat (rb_size s) - rb_len s" Ring_Buffer_Write Ring_Buffer_Read
proof
  fix s len data n t
  assume "rb_wf s" "unat len \<le> length data" "Ring_Buffer_Write s data len = (n, t)"
  from rb_write [OF this] show "rb_wf t \<and> unat n = min (unat len) (unat (rb_size s) - rb_len s)
      \<and> rb_queue t = rb_queue s @ take (unat n) data" by blast
next
  fix s len n bs t
  assume "rb_wf s" "Ring_Buffer_Read s len = (n, bs, t)"
  from rb_read [OF this] show "rb_wf t \<and> unat n = min (unat len) (length (rb_queue s))
      \<and> bs = take (unat n) (rb_queue s) \<and> rb_queue t = drop (unat n) (rb_queue s)" by simp
qed

section \<open>Properties\<close>

definition demo_ring :: ring_buffer where
  "demo_ring = Ring_Buffer_Init (replicate 8 0) 8 True True"

lemma demo_ring: "rb_wf demo_ring" "rb_queue demo_ring = []"
  unfolding demo_ring_def by (rule rb_init; simp)+

text \<open>C8: The ring buffer is a FIFO queue of bytes under every interleaving of writes and reads,
  across wrap-arounds and partial writes: the old content followed by the accepted bytes is
  the delivered bytes followed by the new content.\<close>

theorem ring_buffer_fifo:
  assumes "rb_wf s" and "rb_run Ring_Buffer_Write Ring_Buffer_Read ops s = (acc, out, t)"
  shows "rb_wf t \<and> rb_queue s @ acc = out @ rb_queue t"
  by (rule ring.fifo [OF assms])

theorem ring_buffer_fifo_witness:
  "fst (snd (rb_run Ring_Buffer_Write Ring_Buffer_Read
     [Op_Write [1, 2, 3, 4, 5, 6], Op_Read 4, Op_Write [7, 8, 9, 10], Op_Read 20] demo_ring))
     = [1, 2, 3, 4, 5, 6, 7, 8, 9, 10] \<and>
   rb_queue (snd (snd (rb_run Ring_Buffer_Write Ring_Buffer_Read
     [Op_Write [1, 2, 3, 4, 5, 6], Op_Read 4, Op_Write [7, 8, 9, 10], Op_Read 20] demo_ring))) = []"
proof -
  let ?r = "rb_run Ring_Buffer_Write Ring_Buffer_Read
     [Op_Write [1, 2, 3, 4, 5, 6], Op_Read 4, Op_Write [7, 8, 9, 10], Op_Read 20] demo_ring"
  have "fst (snd ?r) = [1, 2, 3, 4, 5, 6, 7, 8, 9, 10]" "fst ?r = [1, 2, 3, 4, 5, 6, 7, 8, 9, 10]"
    by code_simp+
  then show ?thesis
    using ring_buffer_fifo [OF demo_ring(1), of _ "fst ?r" "fst (snd ?r)" "snd (snd ?r)"] demo_ring(2)
    by (metis append.left_neutral append_self_conv prod.collapse)
qed

text \<open>A single-byte forced write keeps the newest bytes: it appends when there is room and
  otherwise replaces the oldest byte.\<close>

theorem ring_write_byte_force:
  assumes "rb_wf s" and "Ring_Buffer_Write_Byte_Force s d = (n, t)"
  shows "rb_wf t \<and> rb_queue t = (if rb_len s < unat (rb_size s) then rb_queue s @ [d]
    else tl (rb_queue s) @ [d])"
  using rb_write_byte_force [OF assms] by blast

theorem ring_write_byte_force_witness:
  "rb_queue (snd (Ring_Buffer_Write_Byte_Force demo_ring 7)) = [7]"
  using ring_write_byte_force [OF demo_ring(1), of 7] demo_ring
  by (simp add: prod_eq_iff demo_ring_def Ring_Buffer_Init_def rb_len_def)

text \<open>A forced block write that overruns a ring whose content does not wrap loses everything:
  the read mirror is complemented although the read index has not wrapped, so a completely
  full ring reads as empty (with unequal mirrors the newest bytes are kept).\<close>

theorem ring_write_force_overrun:
  assumes "rb_wf s" and "unat len \<le> length data" and "unat len \<le> unat (rb_size s)"
    and "unat (rb_size s) < rb_len s + unat len"
    and "Ring_Buffer_Write_Force s data len = (n, t)"
  shows "rb_queue t = (if rb_readMirror s = rb_writeMirror s then []
    else drop (rb_len s + unat len - unat (rb_size s)) (rb_queue s) @ take (unat len) data)"
  using rb_write_force_fits [OF assms(1-3,5)] assms(4) by simp

definition demo_ring_6 :: ring_buffer where
  "demo_ring_6 = snd (Ring_Buffer_Write demo_ring [1, 2, 3, 4, 5, 6] 6)"

theorem ring_write_force_overrun_witness:
  "rb_queue demo_ring_6 = [1, 2, 3, 4, 5, 6] \<and>
   rb_queue (snd (Ring_Buffer_Write_Force demo_ring_6 [7, 8, 9, 10, 11] 5)) = []"
proof -
  obtain n t where w: "Ring_Buffer_Write demo_ring [1, 2, 3, 4, 5, 6] 6 = (n, t)" by fastforce
  then have t: "t = demo_ring_6" by (simp add: demo_ring_6_def)
  have l: "rb_len demo_ring = 0" "unat (rb_size demo_ring) = 8"
    by (simp_all add: demo_ring_def Ring_Buffer_Init_def rb_len_def)
  note wr = rb_write [OF demo_ring(1) _ w, unfolded t]
  have q: "rb_queue demo_ring_6 = [1, 2, 3, 4, 5, 6]" "rb_wf demo_ring_6" "rb_size demo_ring_6 = 8"
    "rb_len demo_ring_6 = 6"
    using wr l demo_ring(2) length_rb_queue [of demo_ring_6] by (simp_all add: word_eq_unat)
  have m: "rb_readMirror demo_ring_6 = rb_writeMirror demo_ring_6" by code_simp
  show ?thesis
    using ring_write_force_overrun [OF q(2), of 5 "[7, 8, 9, 10, 11]"] q m by (simp add: prod_eq_iff)
qed

text \<open>With a lock that does not nest, the single-byte operations run outside it: they query
  the length while holding the lock, and that query's unlock releases it before the byte is
  stored; the block operations query first and hold the lock exactly once.\<close>

theorem ring_lock_order:
  assumes "rb_lock s" "rb_unlock s"
  shows "rb_events (snd (Ring_Buffer_Write_Byte s d)) = rb_events s @ [Lock, Lock, Unlock, Unlock]
    \<and> rb_events (snd (Ring_Buffer_Write s data len)) = rb_events s @ [Lock, Unlock, Lock, Unlock]"
  using assms
  by (simp add: Ring_Buffer_Write_Byte_def Ring_Buffer_Write_def Ring_Buffer_Write_Callback_def rb_store_def
      case_prod_unfold Let_def rb_do_lock_def rb_do_unlock_def Ring_Buffer_Get_Empty_Length_def Ring_Buffer_Get_Length_def)

theorem ring_lock_order_witness:
  "rb_events (snd (Ring_Buffer_Write_Byte demo_ring 1)) = [Lock, Lock, Unlock, Unlock]"
  using ring_lock_order [of demo_ring 1] by (simp add: demo_ring_def Ring_Buffer_Init_def)

end
