(* ===== verification/MediaRead.thy ===== *)
theory MediaRead
  imports NorSim
begin

text \<open>
  \<open>blsp_mediaboot_read\<close> of \<open>robot_bootloader/blsp_media_boot.c\<close>, through which the boot code
  and the loader's hash command read flash.  It passes the memory-mapped (XIP) address to
  \<open>flash_read\<close>, whose commands have room for 24 address bits: the theory works out what the
  base address does to the read command, and gives the contract under which the reads
  return the flash cells.
\<close>

text \<open>The result of \<open>flash_read\<close> is ignored.\<close>

definition BLSP_BOOT2_XIP_BASE :: u32 where "BLSP_BOOT2_XIP_BASE = 0x23000000"

definition blsp_mediaboot_read :: "'f flash_ops \<Rightarrow> u32 \<Rightarrow> bytes \<Rightarrow> 'f \<Rightarrow> u32 \<times> bytes" where
  "blsp_mediaboot_read gp addr buf d = (0, snd (fl_read gp (BLSP_BOOT2_XIP_BASE + addr) buf d))"

section \<open>The base address in the command word\<close>

lemma word_high_disjoint: "(a :: u32) < 2 ^ 24 \<Longrightarrow> push_bit 24 b + a = push_bit 24 b OR a"
proof (rule disjunctive_add)
  fix n
  assume "a < 2 ^ 24"
  then have "bit a n = bit (take_bit 24 a) n" using take_bit_less_id [of a 24] by simp
  then show "\<not> bit (push_bit 24 b) n \<or> \<not> bit a n" by (auto simp: bit_simps)
qed

lemma push_ucast_or: "(push_bit n (ucast (x OR y :: u8)) :: u32) = push_bit n (ucast x) OR push_bit n (ucast y)"
  by (rule bit_word_eqI) (auto simp: bit_simps)

lemma xip_cmd_word: "(a :: u32) < 2 ^ 24 \<Longrightarrow>
    sf_cmd_word op (BLSP_BOOT2_XIP_BASE + a) = sf_cmd_word (op OR 0x23) a"
proof -
  assume a: "a < 2 ^ 24"
  have base: "BLSP_BOOT2_XIP_BASE = push_bit 24 (ucast (0x23 :: u8))" by (simp add: BLSP_BOOT2_XIP_BASE_def)
  show ?thesis
    unfolding base word_high_disjoint [OF a] sf_cmd_word_def push_ucast_or or.assoc ..
qed

lemma xip_read_loop: "unat (a :: u32) + n \<le> 2 ^ 24 \<Longrightarrow>
    sf_read_loop ct op cmd (BLSP_BOOT2_XIP_BASE + a) n c = sf_read_loop ct (op OR 0x23) cmd a n c"
proof (induction n arbitrary: a c rule: less_induct)
  case (less n)
  show ?case
  proof (cases "n = 0")
    case False
    then have a: "a < 2 ^ 24" using less.prems by (simp add: word_less_nat_alt)
    define k where "k = min n 256"
    have k: "0 < k" "k \<le> n" using False by (auto simp: k_def)
    have u: "unat (a + word_of_nat k) = unat a + k"
      using less.prems k by (simp add: unat_word_ariths unat_of_nat)
    have rec: "sf_read_loop ct op cmd (BLSP_BOOT2_XIP_BASE + a + word_of_nat k) (n - k) d
        = sf_read_loop ct (op OR 0x23) cmd (a + word_of_nat k) (n - k) d" for d
      using less.IH [of "n - k" "a + word_of_nat k" d] k less.prems u by (simp add: add.assoc)
    show ?thesis
      unfolding sf_read_loop.simps [of ct op cmd "BLSP_BOOT2_XIP_BASE + a"] sf_read_loop.simps [of ct "op OR 0x23" cmd a]
        FLASH_CTRL_BUF_SIZE_def k_def [symmetric] Let_def xip_cmd_word [OF a] rec by (rule refl)
  qed (simp add: sf_read_loop.simps)
qed

text \<open>The configuration whose read command has the opcode that really goes out.\<close>

definition xip_opcode :: "flash_cfg \<Rightarrow> u8" where
  "xip_opcode cfg = (case sf_read_cmd cfg (cfg_ioMode cfg AND 0x0f) False of None \<Rightarrow> 0 | Some (op, cmd) \<Rightarrow> op)"

lemma xip_read:
  assumes a: "unat (a :: u32) + n \<le> 2 ^ 24" and cmd: "sf_read_cmd cfg (cfg_ioMode cfg AND 0x0f) False = Some (op, cmd)"
  shows "flash_read ct cfg (BLSP_BOOT2_XIP_BASE + a) n c =
    (let (r, bs, d) = sf_read_loop ct (op OR 0x23) cmd a n (sc_save ct c) in (r, bs, sc_restore ct d))"
  by (simp add: flash_read_def XIP_SFlash_Read_Need_Lock_def SFlash_Read_def cmd xip_read_loop [OF a])

lemma xip_read_id:
  assumes a: "unat (a :: u32) + length buf \<le> 2 ^ 24" and op: "xip_opcode cfg OR 0x23 = xip_opcode cfg"
  shows "fl_read (hal_flash_ops ct cfg) (BLSP_BOOT2_XIP_BASE + a) buf c = fl_read (hal_flash_ops ct cfg) a buf c"
proof (cases "sf_read_cmd cfg (cfg_ioMode cfg AND 0x0f) False")
  case None
  then show ?thesis
    by (simp add: hal_flash_ops_def flash_read_def XIP_SFlash_Read_Need_Lock_def SFlash_Read_def)
next
  case (Some z)
  obtain o' cmd where z: "z = (o', cmd)" by (cases z)
  then have "o' OR 0x23 = o'" using op Some by (simp add: xip_opcode_def)
  then show ?thesis
    using xip_read [OF a Some [unfolded z], of ct c] Some z
    by (simp add: hal_flash_ops_def flash_read_def XIP_SFlash_Read_Need_Lock_def SFlash_Read_def)
qed

section \<open>The contract of the reads\<close>

locale xip_device = flash_device +
  assumes xip_read_cells: "unat a + length buf \<le> 2 ^ 24 \<Longrightarrow>
      snd (fl_read gp (BLSP_BOOT2_XIP_BASE + a) buf f) = map (\<lambda>i. cell f (unat a + i)) [0..<length buf]"
begin

lemma mediaboot_read:
  "unat a + length buf \<le> 2 ^ 24 \<Longrightarrow> blsp_mediaboot_read gp a buf f = (0, image_at (cell f) (unat a) (length buf))"
  by (simp add: blsp_mediaboot_read_def xip_read_cells image_at_def)

end

lemma xip_device_hal:
  assumes "nor_chip ct cfg mem wel" "xip_opcode cfg OR 0x23 = xip_opcode cfg"
  shows "xip_device (hal_flash_ops ct cfg) mem"
proof (intro xip_device.intro xip_device_axioms.intro)
  show dev: "flash_device (hal_flash_ops ct cfg) mem" by (rule nor_chip.hal_device [OF assms(1)])
  fix a :: u32 and buf :: bytes and f
  assume "unat a + length buf \<le> 2 ^ 24"
  then show "snd (fl_read (hal_flash_ops ct cfg) (BLSP_BOOT2_XIP_BASE + a) buf f)
      = map (\<lambda>i. mem f (unat a + i)) [0..<length buf]"
    by (simp add: xip_read_id [OF _ assms(2)] flash_device.read_cells [OF dev])
qed

interpretation simx: xip_device demo_ops sim_cells
  by (rule xip_device_hal [OF sim.nor_chip_axioms])
    (simp add: xip_opcode_def sf_read_cmd_def sim_cfg_def io_modes Let_def)

section \<open>Properties\<close>

text \<open>Over every data-sheet chip whose read opcode already has the bits of \<open>0x23\<close> (the dual
  and quad opcodes \<open>0x3B\<close>, \<open>0xBB\<close>, \<open>0x6B\<close>, \<open>0xEB\<close> have them) the boot reads return the flash cells,
  although the address passed on does not fit the command.\<close>

theorem mediaboot_read_cells:
  assumes "nor_chip ct cfg mem wel" "xip_opcode cfg OR 0x23 = xip_opcode cfg"
    and "unat a + length buf \<le> 2 ^ 24"
  shows "blsp_mediaboot_read (hal_flash_ops ct cfg) a buf f = (0, image_at (mem f) (unat a) (length buf))"
  by (rule xip_device.mediaboot_read [OF xip_device_hal [OF assms(1,2)] assms(3)])

theorem mediaboot_read_cells_witness:
  "blsp_mediaboot_read demo_ops 0x10000 [0, 0] demo_chip = (0, [0xFF, 0xFF])"
  using mediaboot_read_cells [OF sim.nor_chip_axioms, where a = "0x10000" and buf = "[0, 0]" and f = demo_chip]
  by (simp add: xip_opcode_def sf_read_cmd_def sim_cfg_def io_modes Let_def image_at_def demo_chip_def)

text \<open>In the single-line mode the base address turns the fast-read opcode into another one: a
  boot read with \<open>fastReadCmd = 0x0B\<close> puts on the wire exactly what a read of the same cells with
  opcode \<open>0x2B\<close> would.\<close>

theorem mediaboot_read_single_line:
  assumes "cfg_ioMode cfg AND 0x0f = SF_CTRL_NIO_MODE" "cfg_fastReadCmd cfg = 0x0B"
    and "unat a + length buf \<le> 2 ^ 24"
  shows "blsp_mediaboot_read (hal_flash_ops ct cfg) a buf c =
    (0, snd (fl_read (hal_flash_ops ct (cfg\<lparr>cfg_fastReadCmd := 0x2B\<rparr>)) a buf c))"
proof -
  have 1: "sf_read_cmd cfg (cfg_ioMode cfg AND 0x0f) False
      = Some (0x0B, sf_cmd_zero\<lparr>rwFlag := SF_CTRL_READ, addrSize := 3, dummyClks := cfg_frDmyClk cfg\<rparr>)"
    using assms by (simp add: sf_read_cmd_def)
  have 2: "sf_read_cmd (cfg\<lparr>cfg_fastReadCmd := 0x2B\<rparr>) (cfg_ioMode cfg AND 0x0f) False
      = Some (0x2B, sf_cmd_zero\<lparr>rwFlag := SF_CTRL_READ, addrSize := 3, dummyClks := cfg_frDmyClk cfg\<rparr>)"
    using assms by (simp add: sf_read_cmd_def)
  show ?thesis
    by (simp add: blsp_mediaboot_read_def hal_flash_ops_def xip_read [OF assms(3) 1] Let_def case_prod_unfold)
      (simp add: flash_read_def XIP_SFlash_Read_Need_Lock_def SFlash_Read_def 2 Let_def case_prod_unfold)
qed

theorem mediaboot_read_single_line_witness:
  "snd (blsp_mediaboot_read (hal_flash_ops sim_ctrl (sim_cfg\<lparr>cfg_ioMode := 0\<rparr>)) 0 [7] demo_chip)
   = snd (fl_read (hal_flash_ops sim_ctrl (sim_cfg\<lparr>cfg_ioMode := 0, cfg_fastReadCmd := 0x2B\<rparr>)) 0 [7] demo_chip)"
  using mediaboot_read_single_line [of "sim_cfg\<lparr>cfg_ioMode := 0\<rparr>" 0 "[7]" sim_ctrl demo_chip]
  by (simp add: sim_cfg_def io_modes)

end
