(* ===== verification/EflashLoader.thy ===== *)
theory EflashLoader
  imports MediaRead
begin

text \<open>
  \<open>robot_bootloader/bflb_eflash_loader_cmds.c\<close> and \<open>bflb_eflash_loader_interface.c\<close>: the
  command processor of the bootloader.  The host downloads an image into RAM (the boot ROM
  commands, a state machine over header, segments, check and run) or erases, writes and
  verifies flash; the main loop checks the frames and dispatches them.  The two groups are
  compiled in by two macros, which are flags of the environment here (this board enables the
  flash group only).
\<close>

section \<open>State\<close>

datatype bootrom_img_state =
    BOOTROM_IMG_BOOTHEADER | BOOTROM_IMG_PK | BOOTROM_IMG_SIGNATURE | BOOTROM_IMG_AESIV
  | BOOTROM_IMG_SEGHEADER | BOOTROM_IMG_SEGDATA | BOOTROM_IMG_CHECK | BOOTROM_IMG_RUN

text \<open>\<open>image_cfg_t\<close> (the fields the commands use), \<open>bootrom_img_ctrl_t\<close>, \<open>segment_header_t\<close>.\<close>

record image_cfg =
  ic_encrypt_type :: u8
  ic_sign_type :: u8
  ic_key_sel :: u8
  ic_img_valid :: u8
  ic_no_segment :: u8
  ic_cache_select :: u8
  ic_cache_way_disable :: u8
  ic_hash_ignore :: u8
  ic_aes_region_lock :: u8
  ic_halt_ap :: u8
  ic_segment_cnt :: u32
  ic_entrypoint :: u32
  ic_img_start :: u32

record img_ctrl =
  ct_segment_cnt :: u8
  ct_state :: bootrom_img_state
  ct_pkhash_src :: u8
  ct_segdata_recv_len :: u32

record segment_header =
  sh_destaddr :: u32
  sh_len :: u32
  sh_rsv :: u32
  sh_crc32 :: u32

text \<open>Calls of \<open>device_control\<close> on the watchdog.\<close>

datatype wdg_event = WSuspend | WResume | WReset

record 'f loader =
  ld_img :: image_cfg
  ld_ctrl :: img_ctrl
  ld_seg :: segment_header
  ld_ram :: "u32 \<Rightarrow> u8"
  ld_iap :: pt_iap_param
  ld_error :: u32
  ld_dev :: 'f
  ld_tx :: "bytes list"
  ld_wdg :: "wdg_event list"

text \<open>
  What the code calls outside: the flash functions, the chip id, the SHA-256 engine (present,
  opened with a result, its digest of all data written), the uninitialised table buffer of
  \<open>pt_table_set_iap_para\<close>, whether a watchdog is registered, and the two build flags.
\<close>

record 'f loader_env =
  le_flash :: "'f flash_ops"
  le_jedec :: "'f \<Rightarrow> u32"
  le_hash_found :: bool
  le_hash_open :: u32
  le_sha256 :: "bytes \<Rightarrow> bytes"
  le_stack :: bytes
  le_wdg :: bool
  le_support_ram :: bool
  le_support_flash :: bool

text \<open>How a command ends: it returns a code, jumps to the image, spins for ever or resets the chip.\<close>

datatype cmd_exit = Returns u32 | Jumps u32 | Hangs | Resets

definition BFLB_EFLASH_LOADER_SUCCESS :: u32 where "BFLB_EFLASH_LOADER_SUCCESS = 0"
definition FLASH_ERASE_PARA_ERROR :: u32 where "FLASH_ERASE_PARA_ERROR = 0x0002"
definition FLASH_ERASE_ERROR :: u32 where "FLASH_ERASE_ERROR = 0x0003"
definition FLASH_WRITE_PARA_ERROR :: u32 where "FLASH_WRITE_PARA_ERROR = 0x0004"
definition FLASH_WRITE_ADDR_ERROR :: u32 where "FLASH_WRITE_ADDR_ERROR = 0x0005"
definition FLASH_WRITE_ERROR :: u32 where "FLASH_WRITE_ERROR = 0x0006"
definition CMD_ID_ERROR :: u32 where "CMD_ID_ERROR = 0x0101"
definition CMD_CRC_ERROR :: u32 where "CMD_CRC_ERROR = 0x0103"
definition CMD_SEQ_ERROR :: u32 where "CMD_SEQ_ERROR = 0x0104"
definition IMG_BOOTHEADER_LEN_ERROR :: u32 where "IMG_BOOTHEADER_LEN_ERROR = 0x0201"
definition IMG_BOOTHEADER_NOT_LOAD_ERROR :: u32 where "IMG_BOOTHEADER_NOT_LOAD_ERROR = 0x0202"
definition IMG_BOOTHEADER_MAGIC_ERROR :: u32 where "IMG_BOOTHEADER_MAGIC_ERROR = 0x0203"
definition IMG_BOOTHEADER_CRC_ERROR :: u32 where "IMG_BOOTHEADER_CRC_ERROR = 0x0204"
definition IMG_SEGMENT_CNT_ERROR :: u32 where "IMG_SEGMENT_CNT_ERROR = 0x0207"
definition IMG_SECTIONHEADER_LEN_ERROR :: u32 where "IMG_SECTIONHEADER_LEN_ERROR = 0x020f"
definition IMG_SECTIONHEADER_CRC_ERROR :: u32 where "IMG_SECTIONHEADER_CRC_ERROR = 0x0210"
definition IMG_SECTIONHEADER_DST_ERROR :: u32 where "IMG_SECTIONHEADER_DST_ERROR = 0x0211"
definition IMG_SECTIONDATA_LEN_ERROR :: u32 where "IMG_SECTIONDATA_LEN_ERROR = 0x0212"
definition IMG_SECTIONDATA_TLEN_ERROR :: u32 where "IMG_SECTIONDATA_TLEN_ERROR = 0x0214"
definition IMG_HALFBAKED_ERROR :: u32 where "IMG_HALFBAKED_ERROR = 0x0216"
definition BFLB_BOOT2_FAIL :: u32 where "BFLB_BOOT2_FAIL = 0xffff"

lemmas loader_codes = BFLB_EFLASH_LOADER_SUCCESS_def FLASH_ERASE_PARA_ERROR_def FLASH_ERASE_ERROR_def
  FLASH_WRITE_PARA_ERROR_def FLASH_WRITE_ADDR_ERROR_def FLASH_WRITE_ERROR_def CMD_ID_ERROR_def
  CMD_CRC_ERROR_def CMD_SEQ_ERROR_def IMG_BOOTHEADER_LEN_ERROR_def IMG_BOOTHEADER_NOT_LOAD_ERROR_def
  IMG_BOOTHEADER_MAGIC_ERROR_def IMG_BOOTHEADER_CRC_ERROR_def IMG_SEGMENT_CNT_ERROR_def
  IMG_SECTIONHEADER_LEN_ERROR_def IMG_SECTIONHEADER_CRC_ERROR_def IMG_SECTIONHEADER_DST_ERROR_def
  IMG_SECTIONDATA_LEN_ERROR_def IMG_SECTIONDATA_TLEN_ERROR_def IMG_HALFBAKED_ERROR_def BFLB_BOOT2_FAIL_def

definition CMD_ACK :: u32 where "CMD_ACK = 0x4B4F"
definition CMD_NACK :: u32 where "CMD_NACK = 0x4C46"

definition ld_send :: "bytes \<Rightarrow> 'f loader \<Rightarrow> 'f loader" where
  "ld_send bs s = s\<lparr>ld_tx := ld_tx s @ [bs]\<rparr>"

text \<open>\<open>bflb_bootrom_cmd_ack\<close> and \<open>bflb_eflash_loader_cmd_ack\<close> have the same body.\<close>

definition cmd_ack :: "u32 \<Rightarrow> 'f loader \<Rightarrow> 'f loader" where
  "cmd_ack result s =
     (if result = 0 then ld_send (take 2 (le32 CMD_ACK)) s
      else ld_send (le32 (CMD_NACK OR (push_bit 16 result AND 0xffff0000))) s)"

section \<open>Loading an image into RAM\<close>

definition BFLB_BOOTROM_VERSION :: u32 where "BFLB_BOOTROM_VERSION = 0x01000000"
definition BOOTROM_DEADBEEF_VAL :: u32 where "BOOTROM_DEADBEEF_VAL = 0xdeadbeef"

definition bootrom_cmd_get_bootinfo :: "bytes \<Rightarrow> u16 \<Rightarrow> 'f loader \<Rightarrow> cmd_exit \<times> 'f loader" where
  "bootrom_cmd_get_bootinfo data len s =
     (let bootinfo = wr8 (wr8 (le32 CMD_ACK) 2 0x14) 3 0 @ le32 BFLB_BOOTROM_VERSION @ replicate 16 0
      in (Returns BFLB_EFLASH_LOADER_SUCCESS, ld_send bootinfo s))"

text \<open>\<open>bootheader_t\<close> is 176 bytes: the flash and clock configurations come before \<open>bootcfg\<close>.\<close>

definition BOOTHEADER_SIZE :: nat where "BOOTHEADER_SIZE = 176"

definition bh_magiccode :: "bytes \<Rightarrow> u32" where "bh_magiccode h = rd32 h 0"
definition bh_bootcfg :: "bytes \<Rightarrow> u32" where "bh_bootcfg h = rd32 h 116"
definition bh_segment_cnt :: "bytes \<Rightarrow> u32" where "bh_segment_cnt h = rd32 h 120"
definition bh_bootentry :: "bytes \<Rightarrow> u32" where "bh_bootentry h = rd32 h 124"
definition bh_img_start :: "bytes \<Rightarrow> u32" where "bh_img_start h = rd32 h 128"
definition bh_crc32 :: "bytes \<Rightarrow> u32" where "bh_crc32 h = rd32 h 172"

text \<open>A bit-field of \<open>n\<close> bits at position \<open>lo\<close> of \<open>bootcfg\<close>.\<close>

definition bh_field :: "bytes \<Rightarrow> nat \<Rightarrow> nat \<Rightarrow> u8" where
  "bh_field h lo n = ucast (take_bit n (drop_bit lo (bh_bootcfg h)))"

definition bh_crc_ok :: "bytes \<Rightarrow> bool" where
  "bh_crc_ok h \<longleftrightarrow> (if bh_field h 16 1 = 1 \<and> bh_crc32 h = BOOTROM_DEADBEEF_VAL then True
     else bh_crc32 h = BFLB_Soft_CRC32 (seg h 0 (BOOTHEADER_SIZE - 4)))"

definition bootrom_parse_bootheader :: "bytes \<Rightarrow> 'f loader \<Rightarrow> u32 \<times> 'f loader" where
  "bootrom_parse_bootheader h s =
     (if bh_crc_ok h then
        if bh_field h 10 1 \<noteq> 0 then (IMG_BOOTHEADER_NOT_LOAD_ERROR, s)
        else if le32 (bh_magiccode h) \<noteq> [0x42, 0x46, 0x4E, 0x50] then (IMG_BOOTHEADER_MAGIC_ERROR, s)
        else
          (let cfg = (ld_img s)\<lparr>ic_img_valid := 0,
                 ic_encrypt_type := bh_field h 2 2, ic_sign_type := bh_field h 0 2,
                 ic_key_sel := bh_field h 4 2, ic_no_segment := bh_field h 8 1,
                 ic_cache_select := bh_field h 9 1, ic_aes_region_lock := bh_field h 11 1,
                 ic_halt_ap := bh_field h 18 1, ic_cache_way_disable := bh_field h 12 4,
                 ic_hash_ignore := bh_field h 17 1, ic_segment_cnt := bh_segment_cnt h,
                 ic_entrypoint := bh_bootentry h, ic_img_start := bh_img_start h\<rparr>;
               s1 = s\<lparr>ld_ctrl := (ld_ctrl s)\<lparr>ct_pkhash_src := 0\<rparr>, ld_img := cfg\<rparr>
           in if ic_segment_cnt cfg = 0 then (IMG_SEGMENT_CNT_ERROR, s1)
              else (BFLB_EFLASH_LOADER_SUCCESS, s1\<lparr>ld_ctrl := (ld_ctrl s1)\<lparr>ct_segment_cnt := 0\<rparr>\<rparr>))
      else (IMG_BOOTHEADER_CRC_ERROR, s))"

definition ld_set_state :: "bootrom_img_state \<Rightarrow> 'f loader \<Rightarrow> 'f loader" where
  "ld_set_state st s = s\<lparr>ld_ctrl := (ld_ctrl s)\<lparr>ct_state := st\<rparr>\<rparr>"

definition bootrom_cmd_load_bootheader :: "bytes \<Rightarrow> u16 \<Rightarrow> 'f loader \<Rightarrow> cmd_exit \<times> 'f loader" where
  "bootrom_cmd_load_bootheader data len s =
     (let (ret, s1) =
        (if unat len \<noteq> BOOTHEADER_SIZE then (IMG_BOOTHEADER_LEN_ERROR, s)
         else
           (let (r, t) = bootrom_parse_bootheader data s
            in if r = BFLB_EFLASH_LOADER_SUCCESS then
                 (r, ld_set_state (if ic_sign_type (ld_img t) \<noteq> 0 then BOOTROM_IMG_PK
                       else if ic_encrypt_type (ld_img t) \<noteq> 0 then BOOTROM_IMG_AESIV
                       else BOOTROM_IMG_SEGHEADER) t)
               else (r, t)))
      in (Returns ret, cmd_ack ret s1))"

definition SEGMENT_HEADER_SIZE :: nat where "SEGMENT_HEADER_SIZE = 16"

definition bootrom_is_boot_dst_valid :: "u32 \<Rightarrow> u32 \<Rightarrow> bool" where
  "bootrom_is_boot_dst_valid addr len = True"

definition bootrom_parse_seg_header :: "bytes \<Rightarrow> 'f loader \<Rightarrow> u32 \<times> 'f loader" where
  "bootrom_parse_seg_header h s =
     (if rd32 h 12 = BFLB_Soft_CRC32 (seg h 0 (SEGMENT_HEADER_SIZE - 4)) then
        (let sh = \<lparr>sh_destaddr = rd32 h 0, sh_len = rd32 h 4, sh_rsv = rd32 h 8, sh_crc32 = rd32 h 12\<rparr>;
             s1 = s\<lparr>ld_seg := sh\<rparr>
         in if bootrom_is_boot_dst_valid (sh_destaddr sh) (sh_len sh) then (BFLB_EFLASH_LOADER_SUCCESS, s1)
            else (IMG_SECTIONHEADER_DST_ERROR, s1))
      else (IMG_SECTIONHEADER_CRC_ERROR, s))"

definition segment_header_bytes :: "segment_header \<Rightarrow> bytes" where
  "segment_header_bytes h = le32 (sh_destaddr h) @ le32 (sh_len h) @ le32 (sh_rsv h) @ le32 (sh_crc32 h)"

definition bootrom_cmd_load_segheader :: "bytes \<Rightarrow> u16 \<Rightarrow> 'f loader \<Rightarrow> cmd_exit \<times> 'f loader" where
  "bootrom_cmd_load_segheader data len s =
     (let (ret, s1) =
        (if ct_state (ld_ctrl s) \<noteq> BOOTROM_IMG_SEGHEADER then (CMD_SEQ_ERROR, s)
         else if unat len \<noteq> SEGMENT_HEADER_SIZE then (IMG_SECTIONHEADER_LEN_ERROR, s)
         else
           (let s0 = s\<lparr>ld_seg := \<lparr>sh_destaddr = 0, sh_len = 0, sh_rsv = 0, sh_crc32 = 0\<rparr>,
                       ld_ctrl := (ld_ctrl s)\<lparr>ct_segdata_recv_len := 0\<rparr>\<rparr>;
                (r, t) = bootrom_parse_seg_header data s0
            in if r = BFLB_EFLASH_LOADER_SUCCESS then (r, ld_set_state BOOTROM_IMG_SEGDATA t) else (r, t)))
      in (Returns ret,
          if ret = BFLB_EFLASH_LOADER_SUCCESS
          then ld_send (wr8 (wr8 (le32 CMD_ACK) 2 (word_of_nat SEGMENT_HEADER_SIZE)) 3 0
                        @ segment_header_bytes (ld_seg s1)) s1
          else cmd_ack ret s1))"

text \<open>\<open>ARCH_MemCpy_Fast((void * )destaddr, data, len)\<close> on the 32-bit address space.\<close>

fun ram_store :: "u32 \<Rightarrow> bytes \<Rightarrow> (u32 \<Rightarrow> u8) \<Rightarrow> (u32 \<Rightarrow> u8)" where
  "ram_store a [] m = m"
| "ram_store a (b # bs) m = ram_store (a + 1) bs (m(a := b))"

definition bootrom_cmd_load_segdata :: "bytes \<Rightarrow> u16 \<Rightarrow> 'f loader \<Rightarrow> cmd_exit \<times> 'f loader" where
  "bootrom_cmd_load_segdata data len s =
     (let (ret, s1) =
        (if ct_state (ld_ctrl s) \<noteq> BOOTROM_IMG_SEGDATA then (CMD_SEQ_ERROR, s)
         else if ic_encrypt_type (ld_img s) \<noteq> 0 \<and> len mod 16 \<noteq> 0 then (IMG_SECTIONDATA_LEN_ERROR, s)
         else if ct_segdata_recv_len (ld_ctrl s) + ucast len > sh_len (ld_seg s)
         then (IMG_SECTIONDATA_TLEN_ERROR, s)
         else
           (let c1 = (ld_ctrl s)\<lparr>ct_segdata_recv_len := ct_segdata_recv_len (ld_ctrl s) + ucast len\<rparr>;
                s1 = s\<lparr>ld_ram := ram_store (sh_destaddr (ld_seg s)) (take (unat len) data) (ld_ram s),
                       ld_ctrl := c1,
                       ld_seg := (ld_seg s)\<lparr>sh_destaddr := sh_destaddr (ld_seg s) + ucast len\<rparr>\<rparr>
            in if ct_segdata_recv_len c1 \<ge> sh_len (ld_seg s1) then
                 (let c2 = c1\<lparr>ct_segment_cnt := ct_segment_cnt c1 + 1\<rparr>
                  in (BFLB_EFLASH_LOADER_SUCCESS,
                      s1\<lparr>ld_ctrl := c2\<lparr>ct_state :=
                        (if ucast (ct_segment_cnt c2) = ic_segment_cnt (ld_img s1)
                         then BOOTROM_IMG_CHECK else BOOTROM_IMG_SEGHEADER)\<rparr>\<rparr>))
               else (BFLB_EFLASH_LOADER_SUCCESS, s1)))
      in (Returns ret, cmd_ack ret s1))"

text \<open>The hash and signature checks are commented out in the code.\<close>

definition bootrom_cmd_check_img :: "bytes \<Rightarrow> u16 \<Rightarrow> 'f loader \<Rightarrow> cmd_exit \<times> 'f loader" where
  "bootrom_cmd_check_img data len s =
     (if ct_state (ld_ctrl s) \<noteq> BOOTROM_IMG_CHECK
      then (Returns IMG_HALFBAKED_ERROR, cmd_ack IMG_HALFBAKED_ERROR s)
      else
        (let s1 = cmd_ack BFLB_EFLASH_LOADER_SUCCESS (ld_set_state BOOTROM_IMG_BOOTHEADER s);
             s2 = ld_set_state BOOTROM_IMG_RUN s1
         in (Returns BFLB_EFLASH_LOADER_SUCCESS, s2\<lparr>ld_img := (ld_img s2)\<lparr>ic_img_valid := 1\<rparr>\<rparr>)))"

definition BL_TCM_BASE :: u32 where "BL_TCM_BASE = 0x22010000"

definition eflash_loader_jump_entry :: "'f loader \<Rightarrow> cmd_exit" where
  "eflash_loader_jump_entry s =
     (if ic_img_valid (ld_img s) \<noteq> 0 \<and> ic_entrypoint (ld_img s) \<noteq> 0
      then Jumps (ic_entrypoint (ld_img s)) else Hangs)"

definition bootrom_cmd_run :: "bytes \<Rightarrow> u16 \<Rightarrow> 'f loader \<Rightarrow> cmd_exit \<times> 'f loader" where
  "bootrom_cmd_run data len s =
     (if ct_state (ld_ctrl s) \<noteq> BOOTROM_IMG_RUN then (Returns CMD_SEQ_ERROR, cmd_ack CMD_SEQ_ERROR s)
      else
        (let s1 = cmd_ack BFLB_EFLASH_LOADER_SUCCESS s;
             i = ld_img s1;
             s2 = (if ic_img_valid i \<noteq> 0 \<and> ic_entrypoint i = 0
                   then s1\<lparr>ld_img := i\<lparr>ic_entrypoint := (if ic_img_start i \<noteq> 0 then ic_img_start i
                                                       else BL_TCM_BASE)\<rparr>\<rparr>
                   else s1)
         in (eflash_loader_jump_entry s2, s2)))"

section \<open>Flash commands\<close>

definition eflash_cmd_read_jedec_id :: "'f loader_env \<Rightarrow> bytes \<Rightarrow> u16 \<Rightarrow> 'f loader \<Rightarrow> cmd_exit \<times> 'f loader" where
  "eflash_cmd_read_jedec_id env data len s =
     (Returns BFLB_EFLASH_LOADER_SUCCESS,
      ld_send (wr8 (wr8 (le32 CMD_ACK) 2 4) 3 0 @ le32 (le_jedec env (ld_dev s) AND 0xFFFFFF)) s)"

text \<open>The reset command switches the partition table over and resets the chip whatever came of it.\<close>

definition eflash_cmd_reset :: "'f loader_env \<Rightarrow> bytes \<Rightarrow> u16 \<Rightarrow> 'f loader \<Rightarrow> cmd_exit \<times> 'f loader" where
  "eflash_cmd_reset env data len s =
     (let (r, d) = pt_table_set_iap_para (le_flash env) (ld_iap s) (le_stack env) (ld_dev s)
      in (Resets, cmd_ack BFLB_EFLASH_LOADER_SUCCESS (s\<lparr>ld_dev := d\<rparr>)))"

definition ld_wdg_control :: "'f loader_env \<Rightarrow> wdg_event list \<Rightarrow> 'f loader \<Rightarrow> 'f loader" where
  "ld_wdg_control env evs s = (if le_wdg env then s\<lparr>ld_wdg := ld_wdg s @ evs\<rparr> else s)"

definition eflash_cmd_erase_flash :: "'f loader_env \<Rightarrow> bytes \<Rightarrow> u16 \<Rightarrow> 'f loader \<Rightarrow> cmd_exit \<times> 'f loader" where
  "eflash_cmd_erase_flash env data len s =
     (let s1 = ld_wdg_control env [WSuspend] s;
          (ret, s2) =
            (if len \<noteq> 8 then (FLASH_ERASE_PARA_ERROR, s1)
             else
               (let startaddr = rd32 data 0; endaddr = rd32 data 4;
                    t = s1\<lparr>ld_error := BFLB_EFLASH_LOADER_SUCCESS,
                           ld_iap := (ld_iap s1)\<lparr>iap_img_len := endaddr - startaddr + 1\<rparr>\<rparr>;
                    (r, d) = fl_erase (le_flash env) (iap_start_addr (ld_iap t)) (iap_img_len (ld_iap t)) (ld_dev t);
                    t1 = t\<lparr>ld_dev := d\<rparr>
                in if r \<noteq> SUCCESS then (FLASH_ERASE_ERROR, t1) else (BFLB_EFLASH_LOADER_SUCCESS, t1)))
      in (Returns ret, cmd_ack ret (ld_wdg_control env [WReset, WResume] s2)))"

definition eflash_cmd_write_flash :: "'f loader_env \<Rightarrow> bytes \<Rightarrow> u16 \<Rightarrow> 'f loader \<Rightarrow> cmd_exit \<times> 'f loader" where
  "eflash_cmd_write_flash env data len s =
     (if len \<le> 4 then (Returns FLASH_WRITE_PARA_ERROR, cmd_ack FLASH_WRITE_PARA_ERROR s)
      else
        (let write_addr = rd32 data 0; write_len = ucast len - 4 :: u32
         in if write_addr < 0xffffffff then
              (let (r, d) = fl_write (le_flash env) write_addr (seg data 4 (unat write_len)) (ld_dev s);
                   s1 = s\<lparr>ld_dev := d\<rparr>
               in if r \<noteq> SUCCESS
                  then (Returns FLASH_WRITE_ERROR, cmd_ack FLASH_WRITE_ERROR (s1\<lparr>ld_error := FLASH_WRITE_ERROR\<rparr>))
                  else (let s2 = cmd_ack BFLB_EFLASH_LOADER_SUCCESS s1
                        in (Returns BFLB_EFLASH_LOADER_SUCCESS,
                            s2\<lparr>ld_iap := (ld_iap s2)\<lparr>iap_write_addr := write_addr + write_len\<rparr>\<rparr>)))
            else (Returns FLASH_WRITE_ADDR_ERROR, cmd_ack FLASH_WRITE_ADDR_ERROR s)))"

definition eflash_cmd_read_flash :: "bytes \<Rightarrow> u16 \<Rightarrow> 'f loader \<Rightarrow> cmd_exit \<times> 'f loader" where
  "eflash_cmd_read_flash data len s = (Returns BFLB_EFLASH_LOADER_SUCCESS, s)"

definition eflash_cmd_xip_read_flash_start :: "bytes \<Rightarrow> u16 \<Rightarrow> 'f loader \<Rightarrow> cmd_exit \<times> 'f loader" where
  "eflash_cmd_xip_read_flash_start data len s =
     (Returns BFLB_EFLASH_LOADER_SUCCESS, cmd_ack BFLB_EFLASH_LOADER_SUCCESS s)"

definition eflash_cmd_xip_read_flash_finish :: "bytes \<Rightarrow> u16 \<Rightarrow> 'f loader \<Rightarrow> cmd_exit \<times> 'f loader" where
  "eflash_cmd_xip_read_flash_finish data len s =
     (Returns BFLB_EFLASH_LOADER_SUCCESS, cmd_ack BFLB_EFLASH_LOADER_SUCCESS s)"

definition eflash_cmd_readSha_flash :: "bytes \<Rightarrow> u16 \<Rightarrow> 'f loader \<Rightarrow> cmd_exit \<times> 'f loader" where
  "eflash_cmd_readSha_flash data len s = (Returns BFLB_EFLASH_LOADER_SUCCESS, s)"

definition EFLASH_LOADER_READBUF_SIZE :: nat where "EFLASH_LOADER_READBUF_SIZE = 4104"

text \<open>
  The hash loop: the flash is read in pieces of the buffer size and fed to the engine.  The
  buffer keeps the end of an earlier piece when a read stops early; only the bytes of the
  current piece are fed.
\<close>

function sha_feed :: "'f flash_ops \<Rightarrow> 'f \<Rightarrow> u32 \<Rightarrow> nat \<Rightarrow> bytes \<Rightarrow> bytes" where
  "sha_feed gp d startaddr read_len buf =
     (if read_len = 0 then []
      else
        (let n = min read_len EFLASH_LOADER_READBUF_SIZE;
             piece = snd (blsp_mediaboot_read gp startaddr (take n buf) d)
         in piece @ sha_feed gp d (startaddr + word_of_nat n) (read_len - n) (patch buf 0 piece)))"
  by pat_completeness auto
termination
  by (relation "measure (\<lambda>(gp, d, a, n, b). n)") (auto simp: EFLASH_LOADER_READBUF_SIZE_def)

declare sha_feed.simps [simp del]

text \<open>The input buffer comes from \<open>vmalloc\<close> and is never freed; its first content is arbitrary.\<close>

definition eflash_cmd_xip_readSha_flash :: "'f loader_env \<Rightarrow> bytes \<Rightarrow> u16 \<Rightarrow> 'f loader \<Rightarrow> cmd_exit \<times> 'f loader" where
  "eflash_cmd_xip_readSha_flash env data len s =
     (if len \<noteq> 8 then (Returns FLASH_WRITE_PARA_ERROR, cmd_ack FLASH_WRITE_PARA_ERROR s)
      else if \<not> le_hash_found env \<or> le_hash_open env \<noteq> 0 then (Returns BFLB_BOOT2_FAIL, s)
      else
        (let input = sha_feed (le_flash env) (ld_dev s) (iap_start_addr (ld_iap s))
                       (unat (iap_img_len (ld_iap s))) (replicate EFLASH_LOADER_READBUF_SIZE 0)
         in (Returns BFLB_EFLASH_LOADER_SUCCESS,
             ld_send (wr8 (wr8 (le32 CMD_ACK) 2 32) 3 0 @ take 32 (le_sha256 env input)) s)))"

definition eflash_cmd_write_flash_check :: "bytes \<Rightarrow> u16 \<Rightarrow> 'f loader \<Rightarrow> cmd_exit \<times> 'f loader" where
  "eflash_cmd_write_flash_check data len s =
     (Returns BFLB_EFLASH_LOADER_SUCCESS, cmd_ack (ld_error s) s)"

definition eflash_cmd_set_flash_para :: "bytes \<Rightarrow> u16 \<Rightarrow> 'f loader \<Rightarrow> cmd_exit \<times> 'f loader" where
  "eflash_cmd_set_flash_para data len s =
     (Returns BFLB_EFLASH_LOADER_SUCCESS, cmd_ack BFLB_EFLASH_LOADER_SUCCESS s)"

section \<open>Dispatch and the main loop\<close>

text \<open>The command table: an id that is not in it is ignored, with success and without an answer.\<close>

definition eflash_loader_cmd_process ::
  "'f loader_env \<Rightarrow> u8 \<Rightarrow> bytes \<Rightarrow> u16 \<Rightarrow> 'f loader \<Rightarrow> cmd_exit \<times> 'f loader" where
  "eflash_loader_cmd_process env cmdid data len s =
     (if le_support_ram env \<and> cmdid = 0x10 then bootrom_cmd_get_bootinfo data len s
      else if le_support_ram env \<and> cmdid = 0x11 then bootrom_cmd_load_bootheader data len s
      else if le_support_ram env \<and> cmdid = 0x17 then bootrom_cmd_load_segheader data len s
      else if le_support_ram env \<and> cmdid = 0x18 then bootrom_cmd_load_segdata data len s
      else if le_support_ram env \<and> cmdid = 0x19 then bootrom_cmd_check_img data len s
      else if le_support_ram env \<and> cmdid = 0x1A then bootrom_cmd_run data len s
      else if le_support_flash env \<and> cmdid = 0x21 then eflash_cmd_reset env data len s
      else if le_support_flash env \<and> cmdid = 0x30 then eflash_cmd_erase_flash env data len s
      else if le_support_flash env \<and> cmdid = 0x31 then eflash_cmd_write_flash env data len s
      else if le_support_flash env \<and> cmdid = 0x32 then eflash_cmd_read_flash data len s
      else if le_support_flash env \<and> cmdid = 0x3A then eflash_cmd_write_flash_check data len s
      else if le_support_flash env \<and> cmdid = 0x3B then eflash_cmd_set_flash_para data len s
      else if le_support_flash env \<and> cmdid = 0x3D then eflash_cmd_readSha_flash data len s
      else if le_support_flash env \<and> cmdid = 0x3E then eflash_cmd_xip_readSha_flash env data len s
      else if le_support_flash env \<and> cmdid = 0x60 then eflash_cmd_xip_read_flash_start data len s
      else if le_support_flash env \<and> cmdid = 0x61 then eflash_cmd_xip_read_flash_finish data len s
      else if le_support_flash env \<and> cmdid = 0x36 then eflash_cmd_read_jedec_id env data len s
      else (Returns BFLB_EFLASH_LOADER_SUCCESS, s))"

text \<open>\<open>recv_buf[2] + (recv_buf[3] << 8)\<close> and the sum over bytes 2 to \<open>cmd_len + 3\<close>.\<close>

definition frame_len :: "bytes \<Rightarrow> nat" where
  "frame_len buf = unat (rd16 buf 2)"

definition frame_sum :: "bytes \<Rightarrow> u8" where
  "frame_sum buf = sum_list (seg buf 2 (frame_len buf + 2))"

definition frame_ok :: "bytes \<Rightarrow> bool" where
  "frame_ok buf \<longleftrightarrow> rd8 buf 1 = 0 \<or> frame_sum buf = rd8 buf 1"

text \<open>
  One frame of the main loop; the second component counts the failed commands (\<open>err_cnt\<close>).
\<close>

definition loader_frame ::
  "'f loader_env \<Rightarrow> bytes \<Rightarrow> 'f loader \<Rightarrow> cmd_exit \<times> 'f loader" where
  "loader_frame env buf s =
     (if \<not> frame_ok buf
      then (Returns BFLB_EFLASH_LOADER_SUCCESS, ld_send (le32 (CMD_NACK OR (push_bit 16 CMD_CRC_ERROR AND 0xffff0000))) s)
      else
        (let (r, s1) = eflash_loader_cmd_process env (rd8 buf 0) (drop 4 buf) (rd16 buf 2) s
         in (r, if r = Returns BFLB_EFLASH_LOADER_SUCCESS then ld_wdg_control env [WReset] s1 else s1)))"

text \<open>
  The loop, over the results of the read attempts in order (\<open>None\<close> is a timeout; \<open>Some\<close> the whole
  receive buffer, with what an earlier frame left behind the new one).  It ends
  after two timeouts in a row or the third failed command; a command that does not return
  ends it too, and a list that is used up leaves the loop waiting for the host.
\<close>

datatype loader_exit = Broke | Left cmd_exit | Waiting | NoTable

fun loader_loop ::
  "'f loader_env \<Rightarrow> bytes option list \<Rightarrow> nat \<Rightarrow> 'f loader \<Rightarrow> loader_exit \<times> 'f loader" where
  "loader_loop env [] err_cnt s = (Waiting, s)"
| "loader_loop env [None] err_cnt s = (Waiting, s)"
| "loader_loop env (None # None # rest) err_cnt s = (Broke, s)"
| "loader_loop env (None # Some buf # rest) err_cnt s = loader_loop env (Some buf # rest) err_cnt s"
| "loader_loop env (Some buf # rest) err_cnt s =
     (case loader_frame env buf s of
        (Returns c, s1) \<Rightarrow>
          if c = BFLB_EFLASH_LOADER_SUCCESS then loader_loop env rest err_cnt s1
          else if err_cnt + 1 > 2 then (Broke, s1)
          else loader_loop env rest (err_cnt + 1) (ld_wdg_control env [WReset] s1)
      | (e, s1) \<Rightarrow> (Left e, s1))"

definition eflash_loader_main ::
  "'f loader_env \<Rightarrow> bytes \<times> bytes \<Rightarrow> bytes option list \<Rightarrow> 'f loader \<Rightarrow> loader_exit \<times> 'f loader" where
  "eflash_loader_main env stack input s =
     (let (r, iap) = pt_table_get_iap_para (le_flash env) (ld_dev s) stack (ld_iap s);
          s1 = s\<lparr>ld_iap := iap\<rparr>
      in if r \<noteq> PT_ERROR_SUCCESS then (NoTable, s1)
         else
           (let (e, s2) = loader_loop env input 0 (ld_wdg_control env [WResume] s1)
            in (e, if e = Broke then ld_wdg_control env [WSuspend] s2 else s2)))"

section \<open>Loading a segment in pieces\<close>

lemma ram_store_append:
  "ram_store a (xs @ ys) m = ram_store (a + word_of_nat (length xs)) ys (ram_store a xs m)"
proof (induction xs arbitrary: a m)
  case (Cons b bs)
  show ?case by (simp add: Cons.IH add.assoc fun_upd_def)
qed simp

lemma ram_store_other:
  "\<forall>i < length bs. x \<noteq> a + word_of_nat i \<Longrightarrow> ram_store a bs m x = m x"
proof (induction bs arbitrary: a m)
  case (Cons b bs)
  have "\<forall>i < length bs. x \<noteq> a + 1 + word_of_nat i"
  proof (intro allI impI)
    fix i assume "i < length bs"
    with Cons.prems have "x \<noteq> a + word_of_nat (Suc i)" by auto
    then show "x \<noteq> a + 1 + word_of_nat i" by (simp add: add.assoc)
  qed
  moreover have "x \<noteq> a" using Cons.prems [rule_format, of 0] by simp
  ultimately show ?case using Cons.IH by simp
qed simp

lemma ram_store_at:
  assumes "length bs \<le> 2 ^ 32" "i < length bs"
  shows "ram_store a bs m (a + word_of_nat i) = bs ! i"
  using assms
proof (induction bs arbitrary: a m i)
  case (Cons b bs)
  show ?case
  proof (cases i)
    case 0
    have "\<forall>j < length bs. a \<noteq> a + 1 + word_of_nat j"
    proof (intro allI impI)
      fix j assume j: "j < length bs"
      then have "unat (word_of_nat (j + 1) :: u32) = j + 1" using Cons.prems(1) by (subst unat_of_nat) simp
      then have "(word_of_nat (j + 1) :: u32) \<noteq> 0" by (auto simp: word_eq_unat)
      then have "a \<noteq> a + word_of_nat (j + 1)" by simp
      then show "a \<noteq> a + 1 + word_of_nat j" by (simp add: add.assoc add.commute [of 1])
    qed
    then show ?thesis using 0 ram_store_other [of bs a "a + 1"] by simp
  next
    case (Suc k)
    then show ?thesis using Cons.IH [of k "a + 1"] Cons.prems by (simp add: algebra_simps)
  qed
qed simp

text \<open>The segment data commands of one segment, whatever the split into frames.\<close>

fun load_pieces :: "bytes list \<Rightarrow> 'f loader \<Rightarrow> 'f loader" where
  "load_pieces [] s = s"
| "load_pieces (p # ps) s = load_pieces ps (snd (bootrom_cmd_load_segdata p (word_of_nat (length p)) s))"

lemma u16_length_cast: "n < 2 ^ 16 \<Longrightarrow> (ucast (word_of_nat n :: u16) :: u32) = word_of_nat n"
proof -
  assume n: "n < 2 ^ 16"
  then have "unat (ucast (word_of_nat n :: u16) :: u32) = n"
    by (simp add: unsigned_ucast_eq unat_of_nat take_bit_nat_eq_self)
  then show ?thesis using n by (simp add: word_eq_unat unat_of_nat take_bit_nat_eq_self)
qed

lemma load_piece:
  assumes st: "ct_state (ld_ctrl s) = BOOTROM_IMG_SEGDATA"
    and enc: "ic_encrypt_type (ld_img s) = 0 \<or> 16 dvd length p"
    and p: "length p < 2 ^ 16"
    and fit: "unat (ct_segdata_recv_len (ld_ctrl s)) + length p \<le> unat (sh_len (ld_seg s))"
  defines "t \<equiv> snd (bootrom_cmd_load_segdata p (word_of_nat (length p)) s)"
  shows "ld_ram t = ram_store (sh_destaddr (ld_seg s)) p (ld_ram s)"
    "sh_destaddr (ld_seg t) = sh_destaddr (ld_seg s) + word_of_nat (length p)"
    "sh_len (ld_seg t) = sh_len (ld_seg s)" "ld_img t = ld_img s"
    "unat (ct_segdata_recv_len (ld_ctrl t)) = unat (ct_segdata_recv_len (ld_ctrl s)) + length p"
    "ct_segment_cnt (ld_ctrl t) = (if unat (ct_segdata_recv_len (ld_ctrl s)) + length p = unat (sh_len (ld_seg s))
       then ct_segment_cnt (ld_ctrl s) + 1 else ct_segment_cnt (ld_ctrl s))"
    "ct_state (ld_ctrl t) = (if unat (ct_segdata_recv_len (ld_ctrl s)) + length p < unat (sh_len (ld_seg s))
       then BOOTROM_IMG_SEGDATA
       else if ucast (ct_segment_cnt (ld_ctrl s) + 1) = ic_segment_cnt (ld_img s) then BOOTROM_IMG_CHECK
       else BOOTROM_IMG_SEGHEADER)"
proof -
  let ?l = "word_of_nat (length p) :: u16"
  have l16: "unat ?l = length p" using p by (subst unat_of_nat) simp
  have uc: "ucast ?l = (word_of_nat (length p) :: u32)"
    by (rule u16_length_cast [OF p])
  have ul: "unat (word_of_nat (length p) :: u32) = length p" using p by (subst unat_of_nat) simp
  have sm: "unat (ct_segdata_recv_len (ld_ctrl s) + word_of_nat (length p))
      = unat (ct_segdata_recv_len (ld_ctrl s)) + length p"
  proof -
    have "unat (sh_len (ld_seg s)) < 2 ^ LENGTH(32)" by (rule unsigned_less)
    then show ?thesis using fit ul by (subst unat_add_lt) simp_all
  qed
  have a: "\<not> ct_segdata_recv_len (ld_ctrl s) + word_of_nat (length p) > sh_len (ld_seg s)"
    using fit sm by (simp add: word_less_nat_alt)
  have g: "ct_segdata_recv_len (ld_ctrl s) + word_of_nat (length p) \<ge> sh_len (ld_seg s)
      \<longleftrightarrow> unat (ct_segdata_recv_len (ld_ctrl s)) + length p = unat (sh_len (ld_seg s))"
    using fit sm by (auto simp: word_le_nat_alt)
  have ack: "ld_ram (cmd_ack r u) = ld_ram u" "ld_seg (cmd_ack r u) = ld_seg u" "ld_img (cmd_ack r u) = ld_img u"
    "ld_ctrl (cmd_ack r u) = ld_ctrl u" for r and u :: "'a loader"
    by (simp_all add: cmd_ack_def ld_send_def)
  have "?l mod 16 = 0" if "16 dvd length p"
    using that by (simp add: word_eq_unat unat_mod l16)
  then have enc': "(ic_encrypt_type (ld_img s) \<noteq> 0 \<and> ?l mod 16 \<noteq> 0) = False" using enc by blast
  note t = t_def [unfolded bootrom_cmd_load_segdata_def uc Let_def enc']
  show "ld_ram t = ram_store (sh_destaddr (ld_seg s)) p (ld_ram s)"
    "sh_destaddr (ld_seg t) = sh_destaddr (ld_seg s) + word_of_nat (length p)"
    "sh_len (ld_seg t) = sh_len (ld_seg s)" "ld_img t = ld_img s"
    "unat (ct_segdata_recv_len (ld_ctrl t)) = unat (ct_segdata_recv_len (ld_ctrl s)) + length p"
    using st a l16 sm by (simp_all add: t ack)
  show "ct_segment_cnt (ld_ctrl t) = (if unat (ct_segdata_recv_len (ld_ctrl s)) + length p = unat (sh_len (ld_seg s))
       then ct_segment_cnt (ld_ctrl s) + 1 else ct_segment_cnt (ld_ctrl s))"
    using st a l16 sm g by (simp add: t ack)
  show "ct_state (ld_ctrl t) = (if unat (ct_segdata_recv_len (ld_ctrl s)) + length p < unat (sh_len (ld_seg s))
       then BOOTROM_IMG_SEGDATA
       else if ucast (ct_segment_cnt (ld_ctrl s) + 1) = ic_segment_cnt (ld_img s) then BOOTROM_IMG_CHECK
       else BOOTROM_IMG_SEGHEADER)"
    using st a l16 sm g fit by (simp add: t ack)
qed

text \<open>All pieces of a segment: \<open>r\<close> bytes had been received before.\<close>

lemma load_pieces_segment:
  assumes "ps \<noteq> []" "[] \<notin> set ps" "\<forall>p \<in> set ps. length p < 2 ^ 16 \<and> (ic_encrypt_type (ld_img s) = 0 \<or> 16 dvd length p)"
    "ct_state (ld_ctrl s) = BOOTROM_IMG_SEGDATA"
    "unat (ct_segdata_recv_len (ld_ctrl s)) + length (concat ps) = unat (sh_len (ld_seg s))"
  shows "ld_ram (load_pieces ps s) = ram_store (sh_destaddr (ld_seg s)) (concat ps) (ld_ram s) \<and>
    ct_segment_cnt (ld_ctrl (load_pieces ps s)) = ct_segment_cnt (ld_ctrl s) + 1 \<and>
    ld_img (load_pieces ps s) = ld_img s \<and>
    ct_state (ld_ctrl (load_pieces ps s)) =
      (if ucast (ct_segment_cnt (ld_ctrl s) + 1) = ic_segment_cnt (ld_img s)
       then BOOTROM_IMG_CHECK else BOOTROM_IMG_SEGHEADER)"
  using assms
proof (induction ps arbitrary: s)
  case (Cons p ps)
  let ?t = "snd (bootrom_cmd_load_segdata p (word_of_nat (length p)) s)"
  have p: "ic_encrypt_type (ld_img s) = 0 \<or> 16 dvd length p" "length p < 2 ^ 16"
    "unat (ct_segdata_recv_len (ld_ctrl s)) + length p \<le> unat (sh_len (ld_seg s))"
    using Cons.prems by auto
  note t = load_piece [OF Cons.prems(4) p]
  show ?case
  proof (cases "ps = []")
    case True
    then show ?thesis using t Cons.prems(5) by simp
  next
    case False
    have "concat ps \<noteq> []" using False Cons.prems(2) by (cases ps) auto
    then have lt: "unat (ct_segdata_recv_len (ld_ctrl s)) + length p < unat (sh_len (ld_seg s))"
      using Cons.prems(5) by (cases "concat ps") auto
    have "ct_state (ld_ctrl ?t) = BOOTROM_IMG_SEGDATA" using t(7) lt by simp
    from Cons.IH [OF False _ _ this] show ?thesis
      using Cons.prems t lt by (simp add: ram_store_append)
  qed
qed simp

section \<open>Writing an image to flash\<close>

text \<open>The write commands of an image that the host sends in chunks, from address \<open>a\<close> on.\<close>

fun write_chunks :: "'f loader_env \<Rightarrow> u32 \<Rightarrow> bytes list \<Rightarrow> 'f loader \<Rightarrow> 'f loader" where
  "write_chunks env a [] s = s"
| "write_chunks env a (c # cs) s = write_chunks env (a + word_of_nat (length c)) cs
     (snd (eflash_loader_cmd_process env 0x31 (le32 a @ c) (word_of_nat (length c + 4)) s))"

lemma cmd_ack_frame [simp]:
  "ld_dev (cmd_ack r s) = ld_dev s" "ld_iap (cmd_ack r s) = ld_iap s" "ld_error (cmd_ack r s) = ld_error s"
  "ld_img (cmd_ack r s) = ld_img s" "ld_ctrl (cmd_ack r s) = ld_ctrl s" "ld_ram (cmd_ack r s) = ld_ram s"
  by (simp_all add: cmd_ack_def ld_send_def)

lemma wdg_control_frame [simp]:
  "ld_dev (ld_wdg_control env e s) = ld_dev s" "ld_iap (ld_wdg_control env e s) = ld_iap s"
  "ld_error (ld_wdg_control env e s) = ld_error s"
  by (simp_all add: ld_wdg_control_def)

lemma rd32_append [simp]: "rd32 (le32 v @ xs) 0 = v" "rd32 (le32 v @ le32 w) 4 = w"
proof -
  have "rd32 (le32 v @ xs) 0 = rd32 (le32 v) 0" by (simp add: rd32_def le32_def)
  then show "rd32 (le32 v @ xs) 0 = v" by simp
  have "rd32 (le32 v @ le32 w) 4 = rd32 (le32 w) 0" by (simp add: rd32_def le32_def nth_append)
  then show "rd32 (le32 v @ le32 w) 4 = w" by simp
qed

lemma write_cmd:
  assumes sup: "le_support_flash env" and len: "c \<noteq> []" "length c + 4 < 2 ^ 16" and a: "unat a < 2 ^ 24"
    and w: "fl_write (le_flash env) a c (ld_dev s) = (r, d)"
  defines "t \<equiv> snd (eflash_loader_cmd_process env 0x31 (le32 a @ c) (word_of_nat (length c + 4)) s)"
  shows "ld_dev t = d" "ld_error t = (if r = SUCCESS then ld_error s else FLASH_WRITE_ERROR)"
    "iap_start_addr (ld_iap t) = iap_start_addr (ld_iap s)" "iap_img_len (ld_iap t) = iap_img_len (ld_iap s)"
proof -
  let ?l = "word_of_nat (length c + 4) :: u16"
  have l: "unat ?l = length c + 4" using len(2) by (subst unat_of_nat) simp
  then have l4: "\<not> ?l \<le> 4" using len(1) by (simp add: word_le_nat_alt)
  have cast: "(ucast ?l - 4 :: u32) = word_of_nat (length c)"
    using u16_length_cast [OF len(2)] by simp
  have u: "unat (word_of_nat (length c) :: u32) = length c" using len by (subst unat_of_nat) simp
  have seg: "seg (le32 a @ c) 4 (length c) = c" by (simp add: seg_def)
  have a': "a < 0xffffffff" using a by (simp add: word_less_nat_alt)
  have t: "t = snd (eflash_cmd_write_flash env (le32 a @ c) ?l s)"
    using sup by (simp add: t_def eflash_loader_cmd_process_def)
  show "ld_dev t = d" "ld_error t = (if r = SUCCESS then ld_error s else FLASH_WRITE_ERROR)"
    "iap_start_addr (ld_iap t) = iap_start_addr (ld_iap s)" "iap_img_len (ld_iap t) = iap_img_len (ld_iap s)"
    using l4 a' w u seg
    unfolding t eflash_cmd_write_flash_def Let_def cast by simp_all
qed

context flash_device
begin

lemma write_chunks_cells:
  assumes "le_support_flash env" "le_flash env = gp" "[] \<notin> set cs" "\<forall>c \<in> set cs. length c + 4 < 2 ^ 16"
    "unat a + length (concat cs) \<le> 2 ^ 24" "ld_error (write_chunks env a cs s) = 0"
  shows "ld_error s = 0 \<and> cell (ld_dev (write_chunks env a cs s)) =
    (\<lambda>x. if unat a \<le> x \<and> x < unat a + length (concat cs)
         then cell (ld_dev s) x AND concat cs ! (x - unat a) else cell (ld_dev s) x)"
  using assms
proof (induction cs arbitrary: a s)
  case (Cons c cs)
  define t where "t = snd (eflash_loader_cmd_process env 0x31 (le32 a @ c) (word_of_nat (length c + 4)) s)"
  have run: "write_chunks env a (c # cs) s = write_chunks env (a + word_of_nat (length c)) cs t"
    by (simp only: write_chunks.simps t_def)
  obtain r d where w: "fl_write gp a c (ld_dev s) = (r, d)" by fastforce
  have c: "c \<noteq> []" "length c + 4 < 2 ^ 16" using Cons.prems by auto
  then have a: "unat a < 2 ^ 24" using Cons.prems(5) by (cases c) auto
  note t = write_cmd [OF Cons.prems(1) c a, unfolded Cons.prems(2), OF w, folded t_def]
  have ua: "unat (a + word_of_nat (length c)) = unat a + length c"
    using Cons.prems(5) by (simp add: unat_word_ariths unat_of_nat)
  have "ld_error t = 0 \<and> cell (ld_dev (write_chunks env (a + word_of_nat (length c)) cs t)) =
    (\<lambda>x. if unat (a + word_of_nat (length c)) \<le> x \<and> x < unat (a + word_of_nat (length c)) + length (concat cs)
         then cell (ld_dev t) x AND concat cs ! (x - unat (a + word_of_nat (length c))) else cell (ld_dev t) x)"
    by (rule Cons.IH [OF Cons.prems(1,2)]) (use Cons.prems(3-5) Cons.prems(6) [unfolded run] in \<open>simp_all add: ua\<close>)
  then have ih: "ld_error t = 0 \<and> cell (ld_dev (write_chunks env a (c # cs) s)) =
    (\<lambda>x. if unat a + length c \<le> x \<and> x < unat a + length c + length (concat cs)
         then cell d x AND concat cs ! (x - (unat a + length c)) else cell d x)"
    by (simp only: ua run t(1))
  then have r: "r = SUCCESS" "ld_error s = 0"
    using t(2) by (auto simp: FLASH_WRITE_ERROR_def split: if_splits)
  have fit: "unat a + length c \<le> 2 ^ 24" using Cons.prems(5) by simp
  have in_c: "cell d x = cell (ld_dev s) x AND c ! (x - unat a)" if "unat a \<le> x" "x < unat a + length c" for x
    using write_cells [OF w [unfolded r] fit, of "x - unat a"] that by simp
  have out_c: "cell d x = cell (ld_dev s) x" if "x < unat a \<or> unat a + length c \<le> x" for x
    using write_frame [OF w fit that] .
  show ?case
    using ih r in_c out_c by (auto simp: fun_eq_iff nth_append simp del: write_chunks.simps)
qed (auto simp: fun_eq_iff)

end

lemma download_ok:
  assumes dev: "flash_device gp cell" and env: "le_flash env = gp" "le_support_flash env"
    and erase: "eflash_loader_cmd_process env 0x30 (le32 st @ le32 en) 8 s = (Returns 0, s1)"
    and fit: "length (concat cs) \<le> unat (en - st + 1)"
      "unat (iap_start_addr (ld_iap s)) + unat (en - st + 1) \<le> 2 ^ 24"
    and cs: "[] \<notin> set cs" "\<forall>c \<in> set cs. length c + 4 < 2 ^ 16"
    and ok: "ld_error (write_chunks env (iap_start_addr (ld_iap s)) cs s1) = 0"
  shows "image_at (cell (ld_dev (write_chunks env (iap_start_addr (ld_iap s)) cs s1)))
    (unat (iap_start_addr (ld_iap s))) (length (concat cs)) = concat cs"
proof -
  let ?a = "iap_start_addr (ld_iap s)" and ?n = "en - st + 1"
  have e: "eflash_cmd_erase_flash env (le32 st @ le32 en) 8 s = (Returns 0, s1)"
    using erase env by (simp add: eflash_loader_cmd_process_def)
  obtain r d where f: "fl_erase gp ?a ?n (ld_dev s) = (r, d)" by fastforce
  have r: "r = SUCCESS" and d: "ld_dev s1 = d"
    using e f env by (auto simp: eflash_cmd_erase_flash_def Let_def loader_codes split: if_splits)
  have "cell d x = 0xFF" if "unat ?a \<le> x" "x < unat ?a + length (concat cs)" for x
  proof (rule flash_device.erase_cells [OF dev f [unfolded r] _ fit(2)])
    show "0 < ?n" using that fit(1) by (simp add: word_less_nat_alt)
    show "unat ?a div 4096 * 4096 \<le> x" using that by (meson div_times_less_eq_dividend le_trans)
    have "x \<le> unat ?a + unat ?n - 1" using that fit(1) by linarith
    moreover have "y < y div 4096 * 4096 + 4096" for y :: nat using div_mult_mod_eq [of y 4096] mod_less_divisor [of 4096 y] by linarith
    ultimately show "x < (unat ?a + unat ?n - 1) div 4096 * 4096 + 4096" using le_less_trans by blast
  qed
  then show ?thesis
    using flash_device.write_chunks_cells [OF dev env(2,1) cs _ ok] fit d
    by (intro nth_equalityI) (simp_all add: image_at_def and_0xFF_u8 and.commute [of "0xFF :: u8"])
qed

lemma write_chunks_error:
  "le_support_flash env \<Longrightarrow> ld_error (write_chunks env a cs s) \<in> {ld_error s, FLASH_WRITE_ERROR}"
proof (induction cs arbitrary: a s)
  case (Cons c cs)
  have "ld_error (snd (eflash_loader_cmd_process env 0x31 d l s)) \<in> {ld_error s, FLASH_WRITE_ERROR}" for d l
    using Cons.prems
    by (simp add: eflash_loader_cmd_process_def eflash_cmd_write_flash_def Let_def case_prod_unfold)
  from this [of "le32 a @ c" "word_of_nat (length c + 4)"]
  show ?case
    using Cons.IH [OF Cons.prems, of "a + word_of_nat (length c)"
        "snd (eflash_loader_cmd_process env 0x31 (le32 a @ c) (word_of_nat (length c + 4)) s)"]
    unfolding write_chunks.simps by (elim insertE emptyE) simp_all
qed simp

text \<open>The hash command reads the image back in pieces.\<close>

lemma image_at_append: "image_at m a k @ image_at m (a + k) n = image_at m a (k + n)"
  by (intro nth_equalityI) (auto simp: image_at_def nth_append)

context xip_device
begin

lemma sha_feed_image:
  "unat a + n \<le> 2 ^ 24 \<Longrightarrow> length buf = EFLASH_LOADER_READBUF_SIZE \<Longrightarrow>
   sha_feed gp d a n buf = image_at (cell d) (unat a) n"
proof (induction n arbitrary: a buf rule: less_induct)
  case (less n)
  show ?case
  proof (cases "n = 0")
    case True
    then show ?thesis by (simp add: sha_feed.simps image_at_def)
  next
    case False
    define k where "k = min n EFLASH_LOADER_READBUF_SIZE"
    have k: "0 < k" "k \<le> n" "k \<le> EFLASH_LOADER_READBUF_SIZE"
      using False by (auto simp: k_def EFLASH_LOADER_READBUF_SIZE_def)
    have len: "length (take k buf) = k" using k less.prems by simp
    have piece: "blsp_mediaboot_read gp a (take k buf) d = (0, image_at (cell d) (unat a) k)"
      using mediaboot_read [of a "take k buf" d] k less.prems len by simp
    have a: "unat (a + word_of_nat k) = unat a + k"
      using less.prems k by (simp add: unat_word_ariths unat_of_nat EFLASH_LOADER_READBUF_SIZE_def)
    have rest: "sha_feed gp d (a + word_of_nat k) (n - k) (patch buf 0 (image_at (cell d) (unat a) k))
        = image_at (cell d) (unat a + k) (n - k)"
      using less.IH [of "n - k" "a + word_of_nat k"] k less.prems a by simp
    show ?thesis
      unfolding sha_feed.simps [of gp d a n buf] k_def [symmetric] Let_def piece snd_conv rest
      using False k by (simp add: image_at_append)
  qed
qed

end

lemma all_less_two: "(\<forall>i < 2. P i) \<longleftrightarrow> P 0 \<and> P (Suc 0)"
  by (auto simp: less_2_cases_iff)

lemma ack_len: "wr8 (wr8 (le32 CMD_ACK) 2 n) 3 0 = [0x4F, 0x4B, n, 0]"
  by (simp add: wr8_def patch_def le32_def CMD_ACK_def)

lemma nack_crc: "le32 (CMD_NACK OR (push_bit 16 CMD_CRC_ERROR AND 0xffff0000)) = [0x46, 0x4C, 0x03, 0x01]"
  by (simp add: CMD_NACK_def CMD_CRC_ERROR_def le32_def)

text \<open>A loader on the simulated chip whose slot for the new image is at \<open>0x40000\<close>.\<close>

definition demo_env :: "sim_chip loader_env" where
  "demo_env = \<lparr>le_flash = demo_ops, le_jedec = (\<lambda>c. 0x1440C8), le_hash_found = True, le_hash_open = 0,
     le_sha256 = (\<lambda>b. replicate 32 (sum_list b)), le_stack = replicate 596 0, le_wdg = False,
     le_support_ram = True, le_support_flash = True\<rparr>"

definition demo_loader :: "bootrom_img_state \<Rightarrow> u32 \<Rightarrow> sim_chip loader" where
  "demo_loader st segs = \<lparr>ld_img = \<lparr>ic_encrypt_type = 0, ic_sign_type = 0, ic_key_sel = 0, ic_img_valid = 0,
       ic_no_segment = 0, ic_cache_select = 0, ic_cache_way_disable = 0, ic_hash_ignore = 0,
       ic_aes_region_lock = 0, ic_halt_ap = 0, ic_segment_cnt = segs, ic_entrypoint = 0x22010000, ic_img_start = 0\<rparr>,
     ld_ctrl = \<lparr>ct_segment_cnt = 0, ct_state = st, ct_pkhash_src = 0, ct_segdata_recv_len = 0\<rparr>,
     ld_seg = \<lparr>sh_destaddr = 0, sh_len = 0, sh_rsv = 0, sh_crc32 = 0\<rparr>, ld_ram = (\<lambda>a. 0),
     ld_iap = \<lparr>iap_start_addr = 0x40000, iap_write_addr = 0x40000, iap_img_len = 3, inactive_index = 1,
       inactive_table_index = 1\<rparr>, ld_error = 0, ld_dev = demo_chip, ld_tx = [], ld_wdg = []\<rparr>"

lemma demo_env_simps [simp]: "le_flash demo_env = demo_ops" "le_support_flash demo_env" "le_hash_found demo_env"
  "le_hash_open demo_env = 0" "\<not> le_wdg demo_env" "le_sha256 demo_env b = replicate 32 (sum_list b)"
  by (simp_all add: demo_env_def)

lemma demo_loader_simps [simp]: "ld_dev (demo_loader st n) = demo_chip" "iap_start_addr (ld_iap (demo_loader st n)) = 0x40000"
  "iap_img_len (ld_iap (demo_loader st n)) = 3" "ct_state (ld_ctrl (demo_loader st n)) = st"
  "ic_encrypt_type (ld_img (demo_loader st n)) = 0" "ct_segment_cnt (ld_ctrl (demo_loader st n)) = 0"
  "ic_segment_cnt (ld_img (demo_loader st n)) = n"
  by (simp_all add: demo_loader_def)

section \<open>Properties of the loader\<close>

text \<open>C6: The answer to the write check can be trusted: after a successful erase command and write
  commands that send an image chunk by chunk to the start of the slot (in any split, within the
  erased length), the loader acknowledges the check only if the flash holds exactly the image;
  otherwise it answers with the write error.  Single writes may fail in any way.\<close>

theorem download_checked:
  assumes dev: "flash_device gp cell" and env: "le_flash env = gp" "le_support_flash env"
    and erase: "eflash_loader_cmd_process env 0x30 (le32 st @ le32 en) 8 s = (Returns 0, s1)"
    and fit: "length (concat cs) \<le> unat (en - st + 1)"
      "unat (iap_start_addr (ld_iap s)) + unat (en - st + 1) \<le> 2 ^ 24"
    and cs: "[] \<notin> set cs" "\<forall>c \<in> set cs. length c + 4 < 2 ^ 16"
  defines "s2 \<equiv> write_chunks env (iap_start_addr (ld_iap s)) cs s1"
  shows "let t = snd (eflash_loader_cmd_process env 0x3A d l s2) in
    if last (ld_tx t) = [0x4F, 0x4B]
    then image_at (cell (ld_dev t)) (unat (iap_start_addr (ld_iap s))) (length (concat cs)) = concat cs
    else last (ld_tx t) = [0x46, 0x4C, 0x06, 0x00]"
proof -
  have e: "ld_error s1 = 0"
    using erase env by (auto simp: eflash_loader_cmd_process_def eflash_cmd_erase_flash_def Let_def
        case_prod_unfold BFLB_EFLASH_LOADER_SUCCESS_def split: if_splits)
  have t: "snd (eflash_loader_cmd_process env 0x3A d l s2) = cmd_ack (ld_error s2) s2"
    using env by (simp add: eflash_loader_cmd_process_def eflash_cmd_write_flash_check_def)
  have "ld_error s2 = 0 \<or> ld_error s2 = FLASH_WRITE_ERROR"
    using write_chunks_error [OF env(2), of "iap_start_addr (ld_iap s)" cs s1] e unfolding s2_def by auto
  then show ?thesis
  proof
    assume ok: "ld_error s2 = 0"
    then have "last (ld_tx (cmd_ack (ld_error s2) s2)) = [0x4F, 0x4B]"
      by (simp add: cmd_ack_def ld_send_def CMD_ACK_def le32_def)
    moreover note download_ok [OF dev env erase fit cs ok [unfolded s2_def], folded s2_def]
    ultimately show ?thesis by (simp add: t)
  next
    assume bad: "ld_error s2 = FLASH_WRITE_ERROR"
    have "last (ld_tx (cmd_ack (ld_error s2) s2)) = [0x46, 0x4C, 0x06, 0x00]"
      by (simp add: bad cmd_ack_def ld_send_def CMD_NACK_def FLASH_WRITE_ERROR_def le32_def)
    then show ?thesis by (simp add: t)
  qed
qed

theorem download_checked_witness:
  "\<exists>s1. eflash_loader_cmd_process demo_env 0x30 (le32 0 @ le32 2) 8 (demo_loader BOOTROM_IMG_BOOTHEADER 0) = (Returns 0, s1) \<and>
    (let t = snd (eflash_loader_cmd_process demo_env 0x3A [] 0 (write_chunks demo_env 0x40000 [[1, 2], [3]] s1)) in
     if last (ld_tx t) = [0x4F, 0x4B] then image_at (sim_cells (ld_dev t)) 0x40000 3 = [1, 2, 3]
     else last (ld_tx t) = [0x46, 0x4C, 0x06, 0x00])"
proof -
  let ?s = "demo_loader BOOTROM_IMG_BOOTHEADER 0"
  have "fst (fl_erase demo_ops 0x40000 3 demo_chip) = SUCCESS" by (rule sim_flash_ok(1)) simp_all
  then have "fst (eflash_loader_cmd_process demo_env 0x30 (le32 0 @ le32 2) 8 ?s) = Returns 0"
    by (simp add: eflash_loader_cmd_process_def eflash_cmd_erase_flash_def Let_def case_prod_unfold
        ld_wdg_control_def loader_codes)
  then obtain s1 where e: "eflash_loader_cmd_process demo_env 0x30 (le32 0 @ le32 2) 8 ?s = (Returns 0, s1)"
    by (metis prod.collapse)
  have c: "unat (0x40000 :: u32) = 0x40000" "concat [[1, 2], [3 :: u8]] = [1, 2, 3]" "length [1, 2, 3 :: u8] = 3" by simp_all
  have "let t = snd (eflash_loader_cmd_process demo_env 0x3A [] 0 (write_chunks demo_env 0x40000 [[1, 2], [3]] s1)) in
     if last (ld_tx t) = [0x4F, 0x4B] then image_at (sim_cells (ld_dev t)) 0x40000 3 = [1, 2, 3]
     else last (ld_tx t) = [0x46, 0x4C, 0x06, 0x00]"
    by (rule download_checked [OF demo_device demo_env_simps(1,2) e, of "[[1, 2], [3]]" "[]" 0,
        unfolded demo_loader_simps c]) simp_all
  with e show ?thesis by blast
qed

text \<open>The hash command answers with the digest of the image in the slot, read from flash
  whatever its length is.\<close>

theorem readSha_digest:
  assumes dev: "xip_device gp cell" and env: "le_flash env = gp" "le_support_flash env"
      "le_hash_found env" "le_hash_open env = 0"
    and fit: "unat (iap_start_addr (ld_iap s)) + unat (iap_img_len (ld_iap s)) \<le> 2 ^ 24"
  shows "eflash_loader_cmd_process env 0x3E d 8 s = (Returns 0, ld_send ([0x4F, 0x4B, 32, 0] @
    take 32 (le_sha256 env (image_at (cell (ld_dev s)) (unat (iap_start_addr (ld_iap s)))
      (unat (iap_img_len (ld_iap s)))))) s)"
proof -
  have "sha_feed gp (ld_dev s) (iap_start_addr (ld_iap s)) (unat (iap_img_len (ld_iap s)))
      (replicate EFLASH_LOADER_READBUF_SIZE 0)
    = image_at (cell (ld_dev s)) (unat (iap_start_addr (ld_iap s))) (unat (iap_img_len (ld_iap s)))"
    by (rule xip_device.sha_feed_image [OF dev fit]) simp
  then show ?thesis
    using env by (simp add: eflash_loader_cmd_process_def eflash_cmd_xip_readSha_flash_def
        BFLB_EFLASH_LOADER_SUCCESS_def ack_len)
qed

theorem readSha_digest_witness:
  "eflash_loader_cmd_process demo_env 0x3E [] 8 (demo_loader BOOTROM_IMG_BOOTHEADER 0) = (Returns 0,
     ld_send ([0x4F, 0x4B, 32, 0] @ replicate 32 (sum_list [0xFF, 0xFF, 0xFF])) (demo_loader BOOTROM_IMG_BOOTHEADER 0))"
proof -
  have "image_at (sim_cells demo_chip) 0x40000 3 = [0xFF, 0xFF, 0xFF]"
    by (simp add: image_at_def demo_chip_def map_replicate_const numeral_3_eq_3)
  then show ?thesis
    using readSha_digest [OF simx.xip_device_axioms demo_env_simps(1-4), of "demo_loader BOOTROM_IMG_BOOTHEADER 0" "[]"]
    by simp
qed

text \<open>C33: A segment that is announced by a good header and sent in any pieces lands in memory byte
  by byte at its destination, nothing else is written, and the loader waits for the next
  segment or for the check command according to the segment count.\<close>

theorem segment_loaded:
  assumes st: "ct_state (ld_ctrl s) = BOOTROM_IMG_SEGHEADER"
    and hdr: "length h = 16" "rd32 h 12 = BFLB_Soft_CRC32 (seg h 0 12)"
    and ps: "ps \<noteq> []" "[] \<notin> set ps"
      "\<forall>p \<in> set ps. length p < 2 ^ 16 \<and> (ic_encrypt_type (ld_img s) = 0 \<or> 16 dvd length p)"
    and len: "length (concat ps) = unat (rd32 h 4)"
  defines "t \<equiv> load_pieces ps (snd (bootrom_cmd_load_segheader h 16 s))"
  shows "(\<forall>i < length (concat ps). ld_ram t (rd32 h 0 + word_of_nat i) = concat ps ! i) \<and>
    (\<forall>x. (\<forall>i < length (concat ps). x \<noteq> rd32 h 0 + word_of_nat i) \<longrightarrow> ld_ram t x = ld_ram s x) \<and>
    ct_state (ld_ctrl t) = (if ucast (ct_segment_cnt (ld_ctrl s) + 1) = ic_segment_cnt (ld_img s)
      then BOOTROM_IMG_CHECK else BOOTROM_IMG_SEGHEADER)"
proof -
  let ?s1 = "snd (bootrom_cmd_load_segheader h 16 s)"
  have s1: "ct_state (ld_ctrl ?s1) = BOOTROM_IMG_SEGDATA" "ct_segdata_recv_len (ld_ctrl ?s1) = 0"
    "ct_segment_cnt (ld_ctrl ?s1) = ct_segment_cnt (ld_ctrl s)" "ld_img ?s1 = ld_img s"
    "sh_len (ld_seg ?s1) = rd32 h 4" "sh_destaddr (ld_seg ?s1) = rd32 h 0" "ld_ram ?s1 = ld_ram s"
    using st hdr
    by (simp_all add: bootrom_cmd_load_segheader_def bootrom_parse_seg_header_def SEGMENT_HEADER_SIZE_def
        bootrom_is_boot_dst_valid_def Let_def ld_set_state_def ld_send_def loader_codes)
  have t: "ld_ram t = ram_store (rd32 h 0) (concat ps) (ld_ram s) \<and>
    ct_state (ld_ctrl t) = (if ucast (ct_segment_cnt (ld_ctrl s) + 1) = ic_segment_cnt (ld_img s)
      then BOOTROM_IMG_CHECK else BOOTROM_IMG_SEGHEADER)"
    using load_pieces_segment [OF ps(1,2) _ s1(1)] ps(3) len unfolding t_def by (simp add: s1)
  have "unat (rd32 h 4) < 2 ^ LENGTH(32)" by (rule unsigned_less)
  then have "length (concat ps) \<le> 2 ^ 32" using len by simp
  then show ?thesis
    using t ram_store_at [of "concat ps" _ "rd32 h 0" "ld_ram s"] ram_store_other [of "concat ps" _ "rd32 h 0" "ld_ram s"]
    by simp
qed

theorem segment_loaded_witness:
  "let h = le32 0x22010000 @ le32 2 @ le32 0 @ le32 (BFLB_Soft_CRC32 (le32 0x22010000 @ le32 2 @ le32 0));
       t = load_pieces [[1], [2]] (snd (bootrom_cmd_load_segheader h 16 (demo_loader BOOTROM_IMG_SEGHEADER 1)))
   in ld_ram t 0x22010000 = 1 \<and> ld_ram t 0x22010001 = 2 \<and> ct_state (ld_ctrl t) = BOOTROM_IMG_CHECK"
proof -
  let ?x = "le32 0x22010000 @ le32 2 @ le32 (0 :: u32)"
  let ?h = "le32 0x22010000 @ le32 2 @ le32 0 @ le32 (BFLB_Soft_CRC32 ?x)"
  have "rd32 ?h 12 = rd32 (le32 (BFLB_Soft_CRC32 ?x)) 0" "rd32 ?h 4 = rd32 (le32 2) 0" "rd32 ?h 0 = rd32 (le32 0x22010000) 0"
    by (simp_all add: rd32_def nth_append) (simp_all add: le32_def)
  then have h: "rd32 ?h 12 = BFLB_Soft_CRC32 ?x" "rd32 ?h 4 = 2" "rd32 ?h 0 = 0x22010000"
    by (simp_all only: rd32_le32)
  have x: "seg ?h 0 12 = ?x" "length ?h = 16" by (simp_all add: seg_def)
  let ?t = "load_pieces [[1], [2]] (snd (bootrom_cmd_load_segheader ?h 16 (demo_loader BOOTROM_IMG_SEGHEADER 1)))"
  have "(\<forall>i < length (concat [[1], [2 :: u8]]). ld_ram ?t (rd32 ?h 0 + word_of_nat i) = concat [[1], [2]] ! i) \<and>
    (\<forall>x. (\<forall>i < length (concat [[1], [2 :: u8]]). x \<noteq> rd32 ?h 0 + word_of_nat i)
      \<longrightarrow> ld_ram ?t x = ld_ram (demo_loader BOOTROM_IMG_SEGHEADER 1) x) \<and>
    ct_state (ld_ctrl ?t) = (if ucast (ct_segment_cnt (ld_ctrl (demo_loader BOOTROM_IMG_SEGHEADER 1)) + 1)
        = ic_segment_cnt (ld_img (demo_loader BOOTROM_IMG_SEGHEADER 1)) then BOOTROM_IMG_CHECK else BOOTROM_IMG_SEGHEADER)"
    by (rule segment_loaded) (simp_all only: h x, simp_all)
  then have "\<forall>i < 2. ld_ram ?t (0x22010000 + word_of_nat i) = [1, 2] ! i" "ct_state (ld_ctrl ?t) = BOOTROM_IMG_CHECK"
    unfolding h by (simp_all del: load_pieces.simps)
  then show ?thesis unfolding all_less_two Let_def by (simp del: load_pieces.simps)
qed

text \<open>The host's commands while an image is loaded: segment headers and segment data.\<close>

fun load_cmds :: "(bool \<times> bytes \<times> u16) list \<Rightarrow> 'f loader \<Rightarrow> 'f loader" where
  "load_cmds [] s = s"
| "load_cmds ((hdr, d, l) # cs) s = load_cmds cs
     (snd (if hdr then bootrom_cmd_load_segheader d l s else bootrom_cmd_load_segdata d l s))"

lemma load_cmd_keeps_img:
  "ld_img (snd (bootrom_cmd_load_segheader d l s)) = ld_img s"
  "ld_img (snd (bootrom_cmd_load_segdata d l s)) = ld_img s"
  by (simp_all add: bootrom_cmd_load_segheader_def bootrom_cmd_load_segdata_def bootrom_parse_seg_header_def
      Let_def case_prod_unfold ld_send_def ld_set_state_def cmd_ack_def)

text \<open>An image with 256 or more segments can never be completed: the counter of loaded segments
  is 8 bits wide and is compared with the 32-bit count of the header, so no sequence of segment
  headers and data reaches the check state.\<close>

theorem many_segments_stuck:
  assumes "256 \<le> ic_segment_cnt (ld_img s)" "ct_state (ld_ctrl s) \<noteq> BOOTROM_IMG_CHECK"
  shows "ct_state (ld_ctrl (load_cmds cs s)) \<noteq> BOOTROM_IMG_CHECK"
  using assms
proof (induction cs s rule: load_cmds.induct)
  case (2 hdr d l cs s)
  let ?t = "snd (if hdr then bootrom_cmd_load_segheader d l s else bootrom_cmd_load_segdata d l s)"
  have ne: "ucast (c :: u8) \<noteq> ic_segment_cnt (ld_img s)" for c
  proof -
    have "unat c < 2 ^ LENGTH(8)" by (rule unsigned_less)
    then have "unat (ucast c :: u32) < 256" by (simp add: unsigned_ucast_eq take_bit_nat_eq_self)
    then show ?thesis using "2.prems"(1) by (auto simp: word_le_nat_alt)
  qed
  have "ct_state (ld_ctrl ?t) \<noteq> BOOTROM_IMG_CHECK"
    using "2.prems"(2) ne
    by (simp add: bootrom_cmd_load_segheader_def bootrom_cmd_load_segdata_def bootrom_parse_seg_header_def
        Let_def case_prod_unfold ld_send_def ld_set_state_def cmd_ack_def)
  moreover have "256 \<le> ic_segment_cnt (ld_img ?t)" using "2.prems"(1) by (simp add: load_cmd_keeps_img)
  ultimately show ?case using "2.IH" by simp
qed simp

theorem many_segments_stuck_witness:
  "ct_state (ld_ctrl (load_cmds [(True, replicate 16 0, 16), (False, [1], 1)]
     (demo_loader BOOTROM_IMG_SEGHEADER 300))) \<noteq> BOOTROM_IMG_CHECK"
  by (rule many_segments_stuck) (simp_all add: demo_loader_def)

text \<open>A rejected boot header still replaces the entry point: when an image has been loaded
  completely, a header with segment count 0 is refused, yet the check and run commands then
  jump to the entry of the refused header.\<close>

theorem rejected_header_runs:
  assumes st: "ct_state (ld_ctrl s) = BOOTROM_IMG_CHECK" and h: "length h = BOOTHEADER_SIZE" "bh_crc_ok h"
    "bh_field h 10 1 = 0" "le32 (bh_magiccode h) = [0x42, 0x46, 0x4E, 0x50]"
    "bh_segment_cnt h = 0" "bh_bootentry h \<noteq> 0"
  shows "fst (bootrom_cmd_load_bootheader h (word_of_nat (length h)) s) = Returns IMG_SEGMENT_CNT_ERROR \<and>
    fst (bootrom_cmd_run b m (snd (bootrom_cmd_check_img a n
      (snd (bootrom_cmd_load_bootheader h (word_of_nat (length h)) s))))) = Jumps (bh_bootentry h)"
proof -
  have l: "unat (word_of_nat (length h) :: u16) = BOOTHEADER_SIZE"
    unfolding h(1) by (simp add: BOOTHEADER_SIZE_def)
  show ?thesis
    using h st
    by (simp add: bootrom_cmd_load_bootheader_def l [unfolded h(1)] bootrom_parse_bootheader_def Let_def loader_codes
        bootrom_cmd_check_img_def bootrom_cmd_run_def ld_set_state_def eflash_loader_jump_entry_def)
qed

definition demo_header :: bytes where
  "demo_header = [0x42, 0x46, 0x4E, 0x50] @ replicate 112 0 @ le32 0x10000 @ le32 0 @ le32 0x22010100
     @ replicate 44 0 @ le32 BOOTROM_DEADBEEF_VAL"

theorem rejected_header_runs_witness:
  "fst (bootrom_cmd_run [] 0 (snd (bootrom_cmd_check_img [] 0 (snd (bootrom_cmd_load_bootheader demo_header
     (word_of_nat (length demo_header)) (demo_loader BOOTROM_IMG_CHECK 1)))))) = Jumps 0x22010100"
proof -
  have cfg: "bh_bootcfg demo_header = 0x10000" "bh_segment_cnt demo_header = 0" "bh_bootentry demo_header = 0x22010100"
    "bh_magiccode demo_header = 0x504E4642" "bh_crc32 demo_header = BOOTROM_DEADBEEF_VAL" "length demo_header = BOOTHEADER_SIZE"
    by (simp_all add: bh_bootcfg_def bh_segment_cnt_def bh_bootentry_def bh_magiccode_def bh_crc32_def demo_header_def
        rd32_def nth_append le32_def BOOTROM_DEADBEEF_VAL_def BOOTHEADER_SIZE_def)
  show ?thesis
    using rejected_header_runs [of "demo_loader BOOTROM_IMG_CHECK 1" demo_header "[]" 0 "[]" 0]
    by (simp add: bh_crc_ok_def bh_field_def cfg le32_def demo_loader_def)
qed

lemma sum_list_update_word: "i < length xs \<Longrightarrow> sum_list (xs[i := b]) = sum_list xs + b - (xs ! i :: u8)"
proof (induction xs arbitrary: i)
  case (Cons x xs)
  then show ?case by (cases i) simp_all
qed simp

text \<open>C34: A frame with one damaged byte behind the length field is never executed: if a frame passes
  with a checksum other than 0 (0 switches the check off), then with any other value of one of
  these bytes the loader only answers that the checksum is wrong.\<close>

theorem damaged_frame_rejected:
  assumes "frame_ok buf" "rd8 buf 1 \<noteq> 0" "4 \<le> i" "i < 4 + frame_len buf" "4 + frame_len buf \<le> length buf"
    "b \<noteq> buf ! i"
  shows "loader_frame env (buf[i := b]) s = (Returns 0, ld_send [0x46, 0x4C, 0x03, 0x01] s)"
proof -
  let ?n = "frame_len buf + 2"
  have same: "rd8 (buf[i := b]) 1 = rd8 buf 1" "frame_len (buf[i := b]) = frame_len buf"
    using assms(3) by (simp_all add: rd8_def frame_len_def rd16_def)
  have "seg (buf[i := b]) 2 ?n = (seg buf 2 ?n)[i - 2 := b]"
    using assms by (simp add: seg_def drop_update_swap take_update_swap)
  moreover have "2 + (i - 2) = i" using assms(3) by simp
  then have "i - 2 < length (seg buf 2 ?n)" "seg buf 2 ?n ! (i - 2) = buf ! i"
    using assms by (simp_all add: seg_def del: add_2_eq_Suc)
  ultimately have "frame_sum (buf[i := b]) = frame_sum buf + b - buf ! i"
    by (simp add: frame_sum_def same sum_list_update_word)
  moreover have "v + b - buf ! i \<noteq> v" for v using assms(6) by (simp add: algebra_simps)
  ultimately have "\<not> frame_ok (buf[i := b])"
    using assms(1,2) unfolding frame_ok_def same by metis
  then show ?thesis
    by (simp add: loader_frame_def BFLB_EFLASH_LOADER_SUCCESS_def nack_crc)
qed

theorem damaged_frame_rejected_witness:
  "loader_frame demo_env [0x31, 6, 1, 0, 7] (demo_loader BOOTROM_IMG_CHECK 1)
   = (Returns 0, ld_send [0x46, 0x4C, 0x03, 0x01] (demo_loader BOOTROM_IMG_CHECK 1))"
  using damaged_frame_rejected [of "[0x31, 6, 1, 0, 5]" 4 7 demo_env "demo_loader BOOTROM_IMG_CHECK 1"]
  by (simp add: frame_ok_def frame_sum_def frame_len_def rd16_def rd8_def seg_def)

end
