(* ===== verification/Transport.thy ===== *)
theory Transport
  imports EflashLoader
begin

text \<open>
  The two transports of the download protocol, \<open>bflb_eflash_loader_uart.c\<close> and
  \<open>bflb_eflash_loader_ble.c\<close>, over the globals they share (\<open>bflb_eflash_loader_interface.c\<close>):
  two receive buffers, the index of the current one and the number of bytes in it.  What
  happens while the code waits (bytes on the wire, writes of the BLE peer, connections) is a
  list of events for each time slot; \<open>None\<close> is an access outside a live buffer or a free of a
  block that is not allocated.  The watchdog, printing and the start-up of the BLE stack are left out.
\<close>

section \<open>Shared state\<close>

datatype heap_ptr = Null | Live bytes | Dangling

datatype loader_if_type = IF_UART | IF_BLE

record link =
  lk_buf :: "nat \<Rightarrow> heap_ptr"
  lk_index :: u32
  lk_len :: u32
  lk_if :: "loader_if_type option"
  lk_uart :: bool
  lk_uart_int :: bool
  lk_conn :: bool
  lk_indicate :: bool
  lk_rx_sem :: bool
  lk_tx_sem :: bool
  lk_sent :: "bytes list"

definition BLE_READBUF_SIZE :: u32 where "BLE_READBUF_SIZE = 4096 + 1024"
definition UART_READBUF_SIZE :: u32 where "UART_READBUF_SIZE = 4096 + 8"
definition CMD_DATA_MAX_LEN :: u32 where "CMD_DATA_MAX_LEN = UART_READBUF_SIZE - 4"
definition IF_UART_RX_TIMEOUT :: u16 where "IF_UART_RX_TIMEOUT = 8000"
definition IF_BLE_RX_TIMEOUT :: u16 where "IF_BLE_RX_TIMEOUT = 10000"

lemmas link_sizes = BLE_READBUF_SIZE_def UART_READBUF_SIZE_def CMD_DATA_MAX_LEN_def

text \<open>\<open>arch_memcpy(buf + off, bs, length bs)\<close> into a receive buffer.\<close>

definition buf_store :: "nat \<Rightarrow> nat \<Rightarrow> bytes \<Rightarrow> link \<Rightarrow> link option" where
  "buf_store i off bs s =
     (case lk_buf s i of
        Live b \<Rightarrow> if off + length bs \<le> length b then Some (s\<lparr>lk_buf := (lk_buf s)(i := Live (patch b off bs))\<rparr>) else None
      | _ \<Rightarrow> None)"

definition buf_get :: "nat \<Rightarrow> link \<Rightarrow> bytes option" where
  "buf_get i s = (case lk_buf s i of Live b \<Rightarrow> Some b | _ \<Rightarrow> None)"

text \<open>\<open>vPortFree\<close> ignores NULL; the pointer variable keeps its value.\<close>

definition buf_free :: "nat \<Rightarrow> link \<Rightarrow> link option" where
  "buf_free i s =
     (case lk_buf s i of
        Null \<Rightarrow> Some s
      | Live b \<Rightarrow> Some (s\<lparr>lk_buf := (lk_buf s)(i := Dangling)\<rparr>)
      | Dangling \<Rightarrow> None)"

definition buf_alloc :: "nat \<Rightarrow> u32 \<Rightarrow> link \<Rightarrow> link" where
  "buf_alloc i n s = s\<lparr>lk_buf := (lk_buf s)(i := Live (replicate (unat n) 0))\<rparr>"

definition bflb_eflash_loader_if_set :: "loader_if_type \<Rightarrow> link \<Rightarrow> link" where
  "bflb_eflash_loader_if_set type s = s\<lparr>lk_if := Some type\<rparr>"

section \<open>UART\<close>

definition uart0_irq_callback :: "bytes \<Rightarrow> link \<Rightarrow> link option" where
  "uart0_irq_callback args s =
     (case buf_store (unat (lk_index s)) (unat (lk_len s)) args s of
        None \<Rightarrow> None
      | Some s1 \<Rightarrow> Some (s1\<lparr>lk_len := lk_len s1 + word_of_nat (length args)\<rparr>))"

definition uart_if_send :: "bytes \<Rightarrow> link \<Rightarrow> link" where
  "uart_if_send data s = (if lk_uart s then s\<lparr>lk_sent := lk_sent s @ [data]\<rparr> else s)"

definition uart_if_enable_int :: "link \<Rightarrow> link" where
  "uart_if_enable_int s = (if lk_uart s then s\<lparr>lk_uart_int := True\<rparr> else s)"

text \<open>The count of handshake bytes in the first sixteen; the loop stops above the success count.\<close>

fun handshake_count :: "bytes \<Rightarrow> nat \<Rightarrow> nat" where
  "handshake_count [] n = n"
| "handshake_count (b # bs) n =
     (if b = 0x55 then (if n + 1 > 5 then n + 1 else handshake_count bs (n + 1)) else handshake_count bs n)"

text \<open>
  \<open>read\<close> is what \<open>device_read\<close> returns and leaves in the local buffer; with the receive
  interrupt on it returns \<open>-2\<close>, which the unsigned length takes for a very long read.
\<close>

definition bflb_eflash_loader_uart_handshake_poll :: "u32 \<times> bytes \<Rightarrow> link \<Rightarrow> i32 \<times> link" where
  "bflb_eflash_loader_uart_handshake_poll read s =
     (let rcv_buf_len = (if lk_uart s then if lk_uart_int s then - 2 else fst read else 0);
          n = (if rcv_buf_len \<ge> 16 then handshake_count (take 16 (snd read)) 0 else 0)
      in if n \<ge> 5 then
           (let s1 = (uart_if_send [0x4F, 0x4B] s)\<lparr>lk_index := 0, lk_len := 0\<rparr>;
                s2 = (if lk_buf s1 0 = Null
                      then buf_alloc 1 UART_READBUF_SIZE (buf_alloc 0 UART_READBUF_SIZE s1) else s1)
            in (0, uart_if_enable_int s2))
         else (- 1, s))"

section \<open>BLE\<close>

definition ATT_ERR_INVALID_LEN :: int where "ATT_ERR_INVALID_LEN = - 0x0d"
definition ATT_ERR_NOT_ALLOWED :: int where "ATT_ERR_NOT_ALLOWED = - 0x13"
definition WRITE_FLAG_PREPARE :: u8 where "WRITE_FLAG_PREPARE = 1"

text \<open>A write of the peer to the characteristic.\<close>

definition ble_blf_recv :: "bytes \<Rightarrow> u16 \<Rightarrow> u8 \<Rightarrow> link \<Rightarrow> (int \<times> link) option" where
  "ble_blf_recv buf len flags s =
     (if flags = WRITE_FLAG_PREPARE then Some (0, s)
      else if ucast len + lk_len s \<ge> BLE_READBUF_SIZE then Some (ATT_ERR_INVALID_LEN, s)
      else
        (case buf_store 0 (unat (lk_len s)) (take (unat len) buf) s of
           None \<Rightarrow> None
         | Some s0 \<Rightarrow>
             (let s1 = s0\<lparr>lk_len := lk_len s0 + ucast len\<rparr>
              in if lk_len s1 < 2 then Some (ATT_ERR_NOT_ALLOWED, s1\<lparr>lk_len := 0\<rparr>)
                 else
                   (case buf_get 0 s1 of
                      None \<Rightarrow> None
                    | Some b \<Rightarrow>
                        (let pkg_length = rd16 b 0
                         in Some (uint len,
                              if lk_len s1 - 2 = ucast pkg_length then s1\<lparr>lk_len := lk_len s1 - 2, lk_rx_sem := True\<rparr>
                              else if lk_len s1 - 2 > ucast pkg_length then s1\<lparr>lk_len := 0, lk_rx_sem := True\<rparr>
                              else s1))))))"

definition ble_cfg_changed :: "u16 \<Rightarrow> link \<Rightarrow> link" where
  "ble_cfg_changed vblfue s = s\<lparr>lk_indicate := (vblfue = 2)\<rparr>"

definition bl_connected :: "u8 \<Rightarrow> link \<Rightarrow> link option" where
  "bl_connected err s =
     (let s0 = s\<lparr>lk_len := 0\<rparr>
      in if err \<noteq> 0 then Some s0
         else
           (let s1 = s0\<lparr>lk_conn := True\<rparr>
            in case (if lk_buf s1 0 = Null then Some s1
                     else (case buf_free 0 s1 of None \<Rightarrow> None | Some s2 \<Rightarrow> buf_free 1 s2)) of
                 None \<Rightarrow> None
               | Some s2 \<Rightarrow> Some (bflb_eflash_loader_if_set IF_BLE
                               ((buf_alloc 0 BLE_READBUF_SIZE s2)\<lparr>lk_rx_sem := False\<rparr>))))"

definition bl_disconnected :: "link \<Rightarrow> link option" where
  "bl_disconnected s =
     (case (if lk_buf s 0 = Null then buf_free 0 s else Some s) of
        None \<Rightarrow> None
      | Some s1 \<Rightarrow> Some (s1\<lparr>lk_conn := False, lk_indicate := False\<rparr>))"

definition bflb_eflash_loader_ble_handshake_poll :: "link \<Rightarrow> i32" where
  "bflb_eflash_loader_ble_handshake_poll s = (if lk_conn s then 0 else - 1)"

definition indicate_cb :: "link \<Rightarrow> link" where
  "indicate_cb s = s\<lparr>lk_tx_sem := True\<rparr>"

section \<open>Events and waiting\<close>

datatype link_event =
    UartRx bytes
  | BleWrite bytes u16 u8
  | BleConnected u8
  | BleDisconnected
  | BleCfg u16
  | BleIndicated

fun link_step :: "link_event \<Rightarrow> link \<Rightarrow> link option" where
  "link_step (UartRx bs) s = (if lk_uart s \<and> lk_uart_int s then uart0_irq_callback bs s else Some s)"
| "link_step (BleWrite buf len flags) s = map_option snd (ble_blf_recv buf len flags s)"
| "link_step (BleConnected err) s = bl_connected err s"
| "link_step BleDisconnected s = bl_disconnected s"
| "link_step (BleCfg v) s = Some (ble_cfg_changed v s)"
| "link_step BleIndicated s = Some (indicate_cb s)"

fun link_steps :: "link_event list \<Rightarrow> link \<Rightarrow> link option" where
  "link_steps [] s = Some s"
| "link_steps (e # es) s = (case link_step e s of None \<Rightarrow> None | Some s1 \<Rightarrow> link_steps es s1)"

text \<open>The outcome of a read: a frame, nothing, or still waiting when the given slots are used up.\<close>

datatype link_read = RFrame bytes nat | RNone | RWaiting

text \<open>One look at the UART buffer: \<open>Some (Some r, _)\<close> leaves the loop with \<open>r\<close>.\<close>

definition uart_poll :: "link \<Rightarrow> (link_read option \<times> link) option" where
  "uart_poll s =
     (if lk_len s \<ge> 4 then
        (case buf_get (unat (lk_index s)) s of
           None \<Rightarrow> None
         | Some buf \<Rightarrow>
             (let datalen = rd16 buf 2
              in if lk_len s = ucast datalen + 4 then
                   (let s1 = s\<lparr>lk_index := (lk_index s + 1) mod 2, lk_len := 0\<rparr>
                    in if ucast datalen \<le> CMD_DATA_MAX_LEN then Some (Some (RFrame buf (unat datalen + 4)), s1)
                       else Some (Some RNone, s1))
                 else Some (None, s)))
      else Some (None, s))"

text \<open>\<open>do \<dots> while (timeout)\<close> with a 16-bit \<open>timeout\<close> that falls by ten in each slot.\<close>

fun uart_if_receive :: "u16 \<Rightarrow> link_event list list \<Rightarrow> link \<Rightarrow> (link_read \<times> link) option" where
  "uart_if_receive timeout [] s =
     (case uart_poll s of
        None \<Rightarrow> None
      | Some (Some r, s1) \<Rightarrow> Some (r, s1)
      | Some (None, s1) \<Rightarrow> Some (RWaiting, s1))"
| "uart_if_receive timeout (es # slots) s =
     (case uart_poll s of
        None \<Rightarrow> None
      | Some (Some r, s1) \<Rightarrow> Some (r, s1)
      | Some (None, s1) \<Rightarrow>
          (case link_steps es s1 of
             None \<Rightarrow> None
           | Some s2 \<Rightarrow> if timeout - 10 = 0 then Some (RNone, s2) else uart_if_receive (timeout - 10) slots s2))"

text \<open>
  Taking a semaphore with a timeout of one slot: it returns as soon as the semaphore is given;
  the events of the slot that are left come later.
\<close>

definition sem_given :: "bool \<Rightarrow> link \<Rightarrow> bool" where
  "sem_given rx s = (if rx then lk_rx_sem s else lk_tx_sem s)"

definition sem_taken :: "bool \<Rightarrow> link \<Rightarrow> link" where
  "sem_taken rx s = (if rx then s\<lparr>lk_rx_sem := False\<rparr> else s\<lparr>lk_tx_sem := False\<rparr>)"

fun sem_take :: "bool \<Rightarrow> link_event list \<Rightarrow> link \<Rightarrow> (bool \<times> link_event list \<times> link) option" where
  "sem_take rx [] s = Some (if sem_given rx s then (True, [], sem_taken rx s) else (False, [], s))"
| "sem_take rx (e # es) s =
     (if sem_given rx s then Some (True, e # es, sem_taken rx s)
      else case link_step e s of None \<Rightarrow> None | Some s1 \<Rightarrow> sem_take rx es s1)"

text \<open>
  \<open>while (timeout) { timeout -= 20; if (take) break; }\<close>: the timeout that is left and the
  slots that are left, or \<open>None\<close> inside when the slots are used up.
\<close>

fun sem_loop :: "bool \<Rightarrow> u32 \<Rightarrow> link_event list list \<Rightarrow> link \<Rightarrow> ((u32 \<times> link_event list list) option \<times> link) option" where
  "sem_loop rx t [] s =
     Some (if t = 0 then (Some (0, []), s)
           else if sem_given rx s then (Some (t - 20, []), sem_taken rx s) else (None, s))"
| "sem_loop rx t (es # slots) s =
     (if t = 0 then Some (Some (0, es # slots), s)
      else case sem_take rx es s of
             None \<Rightarrow> None
           | Some (True, rest, s1) \<Rightarrow> Some (Some (t - 20, rest # slots), s1)
           | Some (False, rest, s1) \<Rightarrow> sem_loop rx (t - 20) slots s1)"

fun conn_loop :: "u32 \<Rightarrow> link_event list list \<Rightarrow> link \<Rightarrow> (link_event list list option \<times> link) option" where
  "conn_loop t [] s = Some (if t = 0 then Some [] else None, s)"
| "conn_loop t (es # slots) s =
     (if t = 0 then Some (Some (es # slots), s)
      else case link_steps es s of
             None \<Rightarrow> None
           | Some s1 \<Rightarrow> if lk_conn s1 then Some (Some slots, s1) else conn_loop (t - 20) slots s1)"

text \<open>\<open>indicate\<close> is the result of the host stack's \<open>bt_gatt_indicate\<close>.\<close>

definition bflb_eflash_loader_ble_send ::
  "i32 \<Rightarrow> bytes \<Rightarrow> link_event list list \<Rightarrow> link \<Rightarrow> (i32 option \<times> link_event list list \<times> link) option" where
  "bflb_eflash_loader_ble_send indicate data slots s =
     (let s1 = s\<lparr>lk_tx_sem := False\<rparr>
      in if lk_conn s1 \<and> lk_indicate s1 \<and> indicate = 0 then
           (case sem_loop False 5000 slots (s1\<lparr>lk_sent := lk_sent s1 @ [data]\<rparr>) of
              None \<Rightarrow> None
            | Some (None, s2) \<Rightarrow> Some (None, [], s2)
            | Some (Some (t, slots1), s2) \<Rightarrow> Some (Some (if t \<noteq> 0 then 0 else - 1), slots1, s2))
         else Some (Some (- 1), slots, s1))"

text \<open>The pause of ten slots before an erase or reset command is handed on.\<close>

fun pause :: "nat \<Rightarrow> link_event list list \<Rightarrow> link \<Rightarrow> (bool \<times> link) option" where
  "pause 0 slots s = Some (True, s)"
| "pause (Suc n) [] s = Some (False, s)"
| "pause (Suc n) (es # slots) s = (case link_steps es s of None \<Rightarrow> None | Some s1 \<Rightarrow> pause n slots s1)"

text \<open>What a packet that has arrived is handed over as; the pointer returned skips the two length bytes.\<close>

definition ble_take_packet ::
  "i32 \<Rightarrow> link_event list list \<Rightarrow> link \<Rightarrow> (link_read \<times> link) option" where
  "ble_take_packet indicate slots s =
     (if lk_len s \<noteq> 0 then
        (case buf_get 0 s of
           None \<Rightarrow> None
         | Some b \<Rightarrow>
             (let n = unat (lk_len s); s1 = s\<lparr>lk_len := 0\<rparr>
              in if rd8 b 2 = 0x30 \<or> rd8 b 2 = 0x21 then
                   (case pause 10 slots s1 of
                      None \<Rightarrow> None
                    | Some (False, s2) \<Rightarrow> Some (RWaiting, s2)
                    | Some (True, s2) \<Rightarrow> (case buf_get 0 s2 of None \<Rightarrow> None | Some b2 \<Rightarrow> Some (RFrame (drop 2 b2) n, s2)))
                 else Some (RFrame (drop 2 b) n, s1)))
      else
        (case bflb_eflash_loader_ble_send indicate [0x4E, 0x4F, 0x4B, 0] slots s of
           None \<Rightarrow> None
         | Some (r, slots1, s1) \<Rightarrow> Some (if r = None then RWaiting else RNone, s1)))"

definition bflb_eflash_loader_ble_recv ::
  "i32 \<Rightarrow> u32 \<Rightarrow> link_event list list \<Rightarrow> link \<Rightarrow> (link_read \<times> link) option" where
  "bflb_eflash_loader_ble_recv indicate timeout slots s =
     (case (if lk_conn s then Some (Some slots, s) else conn_loop timeout slots s) of
        None \<Rightarrow> None
      | Some (None, s1) \<Rightarrow> Some (RWaiting, s1)
      | Some (Some slots1, s1) \<Rightarrow>
          if \<not> lk_conn s1 then Some (RNone, s1)
          else
            (case sem_loop True timeout slots1 s1 of
               None \<Rightarrow> None
             | Some (None, s2) \<Rightarrow> Some (RWaiting, s2)
             | Some (Some (t, slots2), s2) \<Rightarrow>
                 if t \<noteq> 0 then ble_take_packet indicate slots2 s2 else Some (RNone, s2\<lparr>lk_len := 0\<rparr>)))"

text \<open>The interface functions go through the transport that was set last.\<close>

definition bflb_eflash_loader_if_handshake_poll :: "u32 \<times> bytes \<Rightarrow> link \<Rightarrow> (i32 \<times> link) option" where
  "bflb_eflash_loader_if_handshake_poll read s =
     (case lk_if s of
        None \<Rightarrow> None
      | Some IF_UART \<Rightarrow> Some (bflb_eflash_loader_uart_handshake_poll read s)
      | Some IF_BLE \<Rightarrow> Some (bflb_eflash_loader_ble_handshake_poll s, s))"

definition bflb_eflash_loader_if_read :: "i32 \<Rightarrow> link_event list list \<Rightarrow> link \<Rightarrow> (link_read \<times> link) option" where
  "bflb_eflash_loader_if_read indicate slots s =
     (case lk_if s of
        None \<Rightarrow> None
      | Some IF_UART \<Rightarrow> uart_if_receive IF_UART_RX_TIMEOUT slots s
      | Some IF_BLE \<Rightarrow> bflb_eflash_loader_ble_recv indicate (ucast IF_BLE_RX_TIMEOUT) slots s)"

section \<open>Putting a frame together from pieces\<close>

text \<open>
  What both transports promise: pieces that arrive one after the other, among other events, are
  collected until they make up the frame.  \<open>piece e\<close> is what the event \<open>e\<close> delivers,
  \<open>holds m s\<close> says that the buffer holds the part \<open>m\<close> of a frame, \<open>full f s\<close> that the whole
  frame \<open>f\<close> is ready to be read; a first piece has at least \<open>least\<close> bytes.
\<close>

fun feed :: "('e \<Rightarrow> 's \<Rightarrow> 's option) \<Rightarrow> 'e list \<Rightarrow> 's \<Rightarrow> 's option" where
  "feed step [] s = Some s"
| "feed step (e # es) s = (case step e s of None \<Rightarrow> None | Some s1 \<Rightarrow> feed step es s1)"

fun pieces :: "('e \<Rightarrow> bytes option) \<Rightarrow> 'e list \<Rightarrow> bytes list" where
  "pieces piece [] = []"
| "pieces piece (e # es) = (case piece e of None \<Rightarrow> pieces piece es | Some p \<Rightarrow> p # pieces piece es)"

lemma pieces_append [simp]: "pieces piece (es @ fs) = pieces piece es @ pieces piece fs"
  by (induction es) (auto split: option.splits)

lemma feed_link: "feed link_step es s = link_steps es s"
  by (induction es arbitrary: s) (simp_all del: link_step.simps split: option.splits)

locale frame_buffer =
  fixes step :: "'e \<Rightarrow> 's \<Rightarrow> 's option"
    and piece :: "'e \<Rightarrow> bytes option"
    and good :: "'e \<Rightarrow> bool"
    and frame :: "bytes \<Rightarrow> bool"
    and holds :: "bytes \<Rightarrow> 's \<Rightarrow> bool"
    and full :: "bytes \<Rightarrow> 's \<Rightarrow> bool"
    and least :: nat
  assumes quiet: "\<lbrakk>good e; piece e = None; holds m s\<rbrakk> \<Longrightarrow> \<exists>s'. step e s = Some s' \<and> holds m s'"
    and part: "\<lbrakk>good e; piece e = Some p; frame (m @ p @ q); holds m s; q \<noteq> []; least \<le> length (m @ p)\<rbrakk> \<Longrightarrow>
      \<exists>s'. step e s = Some s' \<and> holds (m @ p) s'"
    and last: "\<lbrakk>good e; piece e = Some p; frame (m @ p); holds m s; p \<noteq> []; least \<le> length (m @ p)\<rbrakk> \<Longrightarrow>
      \<exists>s'. step e s = Some s' \<and> full (m @ p) s'"
begin

text \<open>As long as the frame is not complete, the buffer holds what has come so far.\<close>

lemma collect:
  assumes "list_all good es" "frame (m @ concat (pieces piece es) @ q)" "q \<noteq> []" "holds m s"
    "pieces piece es = [] \<or> least \<le> length (m @ hd (pieces piece es))"
  shows "\<exists>s'. feed step es s = Some s' \<and> holds (m @ concat (pieces piece es)) s'"
  using assms
proof (induction es arbitrary: m s)
  case (Cons e es)
  show ?case
  proof (cases "piece e")
    case None
    obtain s1 where "step e s = Some s1" "holds m s1" using quiet [OF _ None] Cons.prems by auto
    then show ?thesis using Cons.IH [of m s1] Cons.prems None by auto
  next
    case (Some p)
    obtain s1 where s1: "step e s = Some s1" "holds (m @ p) s1"
      using part [OF _ Some, of m "concat (pieces piece es) @ q" s] Cons.prems Some by auto
    have "\<exists>s'. feed step es s1 = Some s' \<and> holds ((m @ p) @ concat (pieces piece es)) s'"
      by (rule Cons.IH) (use Cons.prems s1 Some in auto)
    then show ?thesis using s1 Some by simp
  qed
qed simp

lemma complete:
  assumes "list_all good es" "good e" "piece e = Some p" "frame (m @ concat (pieces piece es) @ p)" "p \<noteq> []" "holds m s"
    "least \<le> length (m @ hd (pieces piece es @ [p]))"
  shows "\<exists>s1 s'. feed step es s = Some s1 \<and> holds (m @ concat (pieces piece es)) s1 \<and>
    step e s1 = Some s' \<and> full (m @ concat (pieces piece es) @ p) s'"
proof -
  obtain s1 where s1: "feed step es s = Some s1" "holds (m @ concat (pieces piece es)) s1"
    using collect [OF assms(1,4,5,6)] assms(7) by (cases "pieces piece es") auto
  have "least \<le> length ((m @ concat (pieces piece es)) @ p)" using assms(7) by (cases "pieces piece es") auto
  then show ?thesis using last [OF assms(2,3), of "m @ concat (pieces piece es)" s1] assms(4,5) s1 by auto
qed

end

text \<open>The UART: bytes go to the current buffer, behind those that are there.\<close>

definition uart_frame :: "bytes \<Rightarrow> bool" where
  "uart_frame f \<longleftrightarrow> 4 \<le> length f \<and> length f \<le> 4104 \<and> unat (rd16 f 2) + 4 = length f"

fun uart_piece :: "link_event \<Rightarrow> bytes option" where
  "uart_piece (UartRx bs) = Some bs"
| "uart_piece e = None"

text \<open>What may happen on a link over UART, and what of it leaves the reception alone.\<close>

fun uart_event :: "link_event \<Rightarrow> bool" where
  "uart_event (UartRx bs) = True"
| "uart_event (BleCfg v) = True"
| "uart_event BleIndicated = True"
| "uart_event e = False"

definition uart_holds :: "bytes \<Rightarrow> link \<Rightarrow> bool" where
  "uart_holds m s \<longleftrightarrow> lk_uart s \<and> lk_uart_int s \<and> (\<exists>b. lk_buf s (unat (lk_index s)) = Live b \<and> length b = 4104 \<and> take (length m) b = m) \<and>
     length m \<le> 4104 \<and> unat (lk_len s) = length m"

lemma take_patch_end: "length m = off \<Longrightarrow> off + length p \<le> length b \<Longrightarrow> take off b = m \<Longrightarrow> take (off + length p) (patch b off p) = m @ p"
  by (auto simp: patch_def)

lemma uart_arrive:
  assumes "uart_holds m s" "length (m @ p) \<le> 4104"
  shows "\<exists>s'. uart0_irq_callback p s = Some s' \<and> uart_holds (m @ p) s'"
proof -
  obtain b where b: "lk_buf s (unat (lk_index s)) = Live b" "length b = 4104" "take (length m) b = m" "unat (lk_len s) = length m"
    using assms(1) by (auto simp: uart_holds_def)
  have n: "unat (lk_len s + word_of_nat (length p)) = length m + length p"
    using assms(2) b(4) by (subst unat_add_lt) (simp_all add: unat_of_nat)
  show ?thesis
    using assms b(1,2,3,4) n take_patch_end [of m "length m" p b]
    by (simp add: uart0_irq_callback_def buf_store_def uart_holds_def)
qed

lemma uart_rx:
  assumes "uart_event e" "uart_piece e = Some p" "uart_holds m s" "length (m @ p) \<le> 4104"
  shows "\<exists>s'. link_step e s = Some s' \<and> uart_holds (m @ p) s'"
  using assms uart_arrive [OF assms(3,4)] by (cases e) (auto simp: uart_holds_def)

lemma uart_quiet:
  assumes "uart_event e" "uart_piece e = None" "uart_holds m s"
  shows "\<exists>s'. link_step e s = Some s' \<and> uart_holds m s'"
  using assms by (cases e) (auto simp: uart_holds_def ble_cfg_changed_def indicate_cb_def)

interpretation uart: frame_buffer link_step uart_piece uart_event uart_frame uart_holds uart_holds 0
  by unfold_locales (erule (2) uart_quiet uart_rx, simp add: uart_frame_def)+

lemma unat_u16_u32 [simp]: "unat (ucast (w :: u16) :: u32) = unat w"
proof -
  have "unat w < 2 ^ 32" using unsigned_less [of w, where 'a = nat] by simp
  then show ?thesis by (simp add: unsigned_ucast_eq take_bit_nat_eq_self)
qed

lemma uart_frame_read:
  assumes f: "uart_frame f" and s: "uart_holds f s"
  shows "\<exists>buf s'. uart_if_receive t slots s = Some (RFrame buf (length f), s') \<and> take (length f) buf = f \<and>
    s' = s\<lparr>lk_index := (lk_index s + 1) mod 2, lk_len := 0\<rparr>"
proof -
  obtain b where b: "lk_buf s (unat (lk_index s)) = Live b" "length b = 4104" "take (length f) b = f" "unat (lk_len s) = length f"
    using s by (auto simp: uart_holds_def)
  have "rd16 b 2 = rd16 (take (length f) b) 2" using f b(2) by (simp add: uart_frame_def rd_take)
  then have r: "unat (rd16 b 2) + 4 = length f" using f b(3) by (simp add: uart_frame_def)
  have n: "4 \<le> lk_len s" using f b(4) by (simp add: uart_frame_def word_le_nat_alt)
  have e: "lk_len s = ucast (rd16 b 2) + 4"
    unfolding word_eq_unat using r b(4) f by (subst unat_add_lt) (simp_all add: uart_frame_def)
  have c: "(ucast (rd16 b 2) :: u32) \<le> CMD_DATA_MAX_LEN"
    using r f by (simp add: link_sizes word_le_nat_alt uart_frame_def)
  have p: "uart_poll s = Some (Some (RFrame b (length f)), s\<lparr>lk_index := (lk_index s + 1) mod 2, lk_len := 0\<rparr>)"
    using n e c r by (simp add: uart_poll_def buf_get_def b(1) Let_def)
  show ?thesis using b(3) p by (cases slots) simp_all
qed

lemma uart_run:
  "list_all uart_event es \<Longrightarrow> uart_holds m s \<Longrightarrow> length (m @ concat (pieces uart_piece es)) \<le> 4104 \<Longrightarrow>
    \<exists>s'. link_steps es s = Some s' \<and> uart_holds (m @ concat (pieces uart_piece es)) s'"
proof (induction es arbitrary: m s)
  case (Cons e es)
  show ?case
  proof (cases "uart_piece e")
    case None
    obtain s1 where "link_step e s = Some s1" "uart_holds m s1" using uart_quiet [OF _ None] Cons.prems by auto
    then show ?thesis using Cons.IH [of m s1] Cons.prems None by (auto simp del: link_step.simps)
  next
    case (Some p)
    obtain s1 where "link_step e s = Some s1" "uart_holds (m @ p) s1" using uart_rx [OF _ Some Cons.prems(2)] Cons.prems Some by auto
    then show ?thesis using Cons.IH [of "m @ p" s1] Cons.prems Some by (auto simp del: link_step.simps)
  qed
qed simp

text \<open>Until the frame is complete, a look at the buffer changes nothing.\<close>

lemma uart_partial_poll:
  assumes f: "uart_frame (m @ q)" and s: "uart_holds m s" and q: "q \<noteq> []"
  shows "uart_poll s = Some (None, s)"
proof (cases "4 \<le> lk_len s")
  case True
  obtain b where b: "lk_buf s (unat (lk_index s)) = Live b" "length b = 4104" "take (length m) b = m" "unat (lk_len s) = length m"
    using s by (auto simp: uart_holds_def)
  have l: "4 \<le> length m" using True b(4) by (simp add: word_le_nat_alt)
  then have "rd16 (take (length m) b) 2 = rd16 b 2" "rd16 (take (length m) (m @ q)) 2 = rd16 (m @ q) 2"
    using b(2) s by (intro rd_take; simp add: uart_holds_def)+
  then have "rd16 b 2 = rd16 (m @ q) 2" using b(3) by simp
  then have "unat (ucast (rd16 b 2) + 4 :: u32) = length (m @ q)"
    using f by (subst unat_add_lt) (simp_all add: uart_frame_def)
  then have "lk_len s \<noteq> ucast (rd16 b 2) + 4" using b(4) q by auto
  then show ?thesis using True b(1) by (simp add: uart_poll_def buf_get_def Let_def)
qed (simp add: uart_poll_def)

text \<open>The waiting loop over slots in which the frame does not become complete.\<close>

lemma uart_waits:
  assumes "list_all (list_all uart_event) slots" "uart_frame (m @ concat (pieces uart_piece (concat slots)) @ q)" "q \<noteq> []"
    "uart_holds m s"
  shows "\<exists>s'. uart_holds (m @ concat (pieces uart_piece (concat slots))) s' \<and>
     (10 * length slots < unat t \<longrightarrow> uart_if_receive t (slots @ later) s = uart_if_receive (t - word_of_nat (10 * length slots)) later s')"
  using assms
proof (induction slots arbitrary: m s t)
  case (Cons es slots)
  have p: "uart_poll s = Some (None, s)"
    by (rule uart_partial_poll [OF _ Cons.prems(4), of "concat (pieces uart_piece (concat (es # slots))) @ q"])
      (use Cons.prems(2,3) in auto)
  obtain s1 where s1: "link_steps es s = Some s1" "uart_holds (m @ concat (pieces uart_piece es)) s1"
    using uart.collect [of es m "concat (pieces uart_piece (concat slots)) @ q" s] Cons.prems by (auto simp: feed_link)
  obtain s' where s': "uart_holds ((m @ concat (pieces uart_piece es)) @ concat (pieces uart_piece (concat slots))) s'"
    "10 * length slots < unat (t - 10) \<longrightarrow>
       uart_if_receive (t - 10) (slots @ later) s1 = uart_if_receive (t - 10 - word_of_nat (10 * length slots)) later s'"
    using Cons.IH [of "m @ concat (pieces uart_piece es)" s1 "t - 10"] Cons.prems s1(2) by auto
  have "uart_if_receive t ((es # slots) @ later) s = uart_if_receive (t - word_of_nat (10 * length (es # slots))) later s'"
    if l: "10 * length (es # slots) < unat t"
  proof -
    have "unat (t - 10) = unat t - 10" using l by (subst unat_sub_le) (simp_all add: word_le_nat_alt)
    moreover from this have "t - 10 \<noteq> 0" using l by auto
    ultimately show ?thesis using s' p s1(1) l by (simp add: algebra_simps)
  qed
  then show ?case using s'(1) by auto
qed auto

text \<open>
  A frame over UART, in any pieces over any time slots, is read as soon as it is complete, when that
  is before the last of the 800 slots (of 10 ms) the receiver waits.
\<close>

lemma uart_delivers:
  assumes s: "uart_holds [] s" and f: "uart_frame f"
    and ev: "list_all (list_all uart_event) slots" "list_all uart_event es"
      "concat (pieces uart_piece (concat slots @ es)) = f" "concat (pieces uart_piece es) \<noteq> []"
    and n: "length slots < 799"
  shows "\<exists>buf s'. uart_if_receive 8000 (slots @ es # later) s = Some (RFrame buf (length f), s') \<and> take (length f) buf = f"
proof -
  let ?m = "concat (pieces uart_piece (concat slots))" and ?q = "concat (pieces uart_piece es)"
  define t where "t = (8000 - word_of_nat (10 * length slots) :: u16)"
  have w: "unat (word_of_nat (10 * length slots) :: u16) = 10 * length slots" unfolding unat_of_nat using n by simp
  then have "word_of_nat (10 * length slots) \<le> (8000 :: u16)" unfolding word_le_nat_alt using n by simp
  then have t: "unat t = 8000 - 10 * length slots" unfolding t_def by (simp only: unat_sub w) simp
  have fr: "uart_frame (?m @ ?q)" using f ev(3) by simp
  obtain s1 where s1: "uart_holds ?m s1" "uart_if_receive 8000 (slots @ es # later) s = uart_if_receive t (es # later) s1"
    using uart_waits [of slots "[]" ?q s 8000 "es # later"] ev(1,4) fr s n by (auto simp: t_def)
  note p = uart_partial_poll [OF fr s1(1) ev(4)]
  obtain s2 where s2: "link_steps es s1 = Some s2" "uart_holds f s2"
  proof -
    have "\<exists>s2. link_steps es s1 = Some s2 \<and> uart_holds (?m @ ?q) s2"
      using uart_run [OF ev(2) s1(1)] fr by (simp add: uart_frame_def)
    then show ?thesis using that ev(3) by auto
  qed
  have "unat (t - 10) = unat t - 10" using t n by (subst unat_sub_le) (simp_all add: word_le_nat_alt)
  then have "t - 10 \<noteq> 0" using t n by auto
  then have "uart_if_receive t (es # later) s1 = uart_if_receive (t - 10) later s2" using p s2(1) by simp
  then show ?thesis using s1(2) uart_frame_read [OF f s2(2), of "t - 10" later] by auto
qed

text \<open>
  BLE: two length bytes and the payload, collected in buffer 0 of a connected link.  When the
  packet is complete, the count is cut down to the payload and the semaphore given.
\<close>

definition ble_frame :: "bytes \<Rightarrow> bool" where
  "ble_frame f \<longleftrightarrow> 3 \<le> length f \<and> length f < 5120 \<and> unat (rd16 f 0) + 2 = length f"

definition ble_holds :: "bytes \<Rightarrow> link \<Rightarrow> bool" where
  "ble_holds m s \<longleftrightarrow> (\<exists>b. lk_buf s 0 = Live b \<and> length b = 5120 \<and> take (length m) b = m) \<and>
     length m < 5120 \<and> unat (lk_len s) = length m \<and> lk_conn s \<and> \<not> lk_rx_sem s"

definition ble_full :: "bytes \<Rightarrow> link \<Rightarrow> bool" where
  "ble_full f s \<longleftrightarrow> (\<exists>b. lk_buf s 0 = Live b \<and> length b = 5120 \<and> take (length f) b = f) \<and>
     unat (lk_len s) + 2 = length f \<and> lk_conn s \<and> lk_rx_sem s"

definition ble_arrive :: "bytes \<Rightarrow> link \<Rightarrow> link option" where
  "ble_arrive p s = link_step (BleWrite p (word_of_nat (length p)) 0) s"

text \<open>
  What may happen while a packet comes in: writes, and events that leave the reception alone
  (prepared writes, notification settings, confirmed indications).
\<close>

fun ble_piece :: "link_event \<Rightarrow> bytes option" where
  "ble_piece (BleWrite p len flags) = (if flags = WRITE_FLAG_PREPARE then None else Some p)"
| "ble_piece e = None"

fun ble_quiet :: "link_event \<Rightarrow> bool" where
  "ble_quiet (BleWrite p len flags) \<longleftrightarrow> flags = WRITE_FLAG_PREPARE"
| "ble_quiet (BleCfg v) \<longleftrightarrow> True"
| "ble_quiet BleIndicated \<longleftrightarrow> True"
| "ble_quiet e \<longleftrightarrow> False"

fun ble_rx :: "link_event \<Rightarrow> bool" where
  "ble_rx (BleWrite p len flags) \<longleftrightarrow> len = word_of_nat (length p)"
| "ble_rx e \<longleftrightarrow> ble_quiet e"

lemma ble_rx_arrive: "ble_rx e \<Longrightarrow> ble_piece e = Some p \<Longrightarrow> link_step e s = ble_arrive p s"
  by (cases e) (auto simp: ble_arrive_def ble_blf_recv_def WRITE_FLAG_PREPARE_def split: if_splits)

lemma ble_rx_quiet: "ble_rx e \<Longrightarrow> ble_piece e = None \<Longrightarrow> ble_quiet e"
  by (cases e) (auto split: if_splits)

definition same_rx :: "link \<Rightarrow> link \<Rightarrow> bool" where
  "same_rx s t \<longleftrightarrow> lk_buf s = lk_buf t \<and> lk_len s = lk_len t \<and> lk_conn s = lk_conn t \<and> lk_rx_sem s = lk_rx_sem t"

lemma quiet_step: "ble_quiet e \<Longrightarrow> \<exists>s'. link_step e s = Some s' \<and> same_rx s' s"
  by (cases e) (auto simp: ble_blf_recv_def same_rx_def ble_cfg_changed_def indicate_cb_def)

lemma quiet_steps: "list_all ble_quiet es \<Longrightarrow> \<exists>s'. link_steps es s = Some s' \<and> same_rx s' s"
proof (induction es arbitrary: s)
  case (Cons e es)
  obtain s1 where s1: "link_step e s = Some s1" "same_rx s1 s" using quiet_step Cons.prems by fastforce
  obtain s2 where "link_steps es s1 = Some s2" "same_rx s2 s1" using Cons.IH [of s1] Cons.prems by auto
  then show ?case using s1 by (auto simp: same_rx_def)
qed (simp add: same_rx_def)

lemma quiet_pause:
  "n \<le> length slots \<Longrightarrow> list_all (list_all ble_quiet) (take n slots) \<Longrightarrow> \<exists>s'. pause n slots s = Some (True, s') \<and> same_rx s' s"
proof (induction n arbitrary: slots s)
  case (Suc n)
  then obtain es rest where sl: "slots = es # rest" by (cases slots) auto
  obtain s1 where s1: "link_steps es s = Some s1" "same_rx s1 s" using quiet_steps [of es s] Suc.prems sl by auto
  obtain s2 where "pause n rest s1 = Some (True, s2)" "same_rx s2 s1" using Suc.IH [of rest s1] Suc.prems sl by auto
  then show ?case using s1 sl by (auto simp: same_rx_def)
qed (simp add: same_rx_def)

lemma ble_store:
  assumes "ble_holds m s" "length (m @ p) < 5120" "2 \<le> length (m @ p)"
  obtains b where "length b = 5120" "take (length (m @ p)) b = m @ p"
    "unat (lk_len s + word_of_nat (length p)) = length (m @ p)"
    "ble_arrive p s = (let s1 = s\<lparr>lk_buf := (lk_buf s)(0 := Live b), lk_len := lk_len s + word_of_nat (length p)\<rparr>
       in Some (if lk_len s1 - 2 = ucast (rd16 b 0) then s1\<lparr>lk_len := lk_len s1 - 2, lk_rx_sem := True\<rparr>
                else if lk_len s1 - 2 > ucast (rd16 b 0) then s1\<lparr>lk_len := 0, lk_rx_sem := True\<rparr> else s1))"
proof -
  obtain b where b: "lk_buf s 0 = Live b" "length b = 5120" "take (length m) b = m" "unat (lk_len s) = length m"
    using assms(1) by (auto simp: ble_holds_def)
  have l: "(ucast (word_of_nat (length p) :: u16) :: u32) = word_of_nat (length p)" "unat (word_of_nat (length p) :: u16) = length p"
    using assms(2) by (simp_all add: word_eq_unat [where 'a = 32] unat_of_nat)
  have n: "unat (lk_len s + word_of_nat (length p)) = length (m @ p)"
    using assms(2) b(4) by (subst unat_add_lt) (simp_all add: unat_of_nat)
  have sz: "unat BLE_READBUF_SIZE = 5120" by (simp add: link_sizes)
  have c: "\<not> BLE_READBUF_SIZE \<le> word_of_nat (length p) + lk_len s" "\<not> lk_len s + word_of_nat (length p) < 2"
    using n assms(2,3) by (simp_all add: word_le_nat_alt word_less_nat_alt sz add.commute [of _ "lk_len s"])
  show ?thesis
  proof (rule that)
    show "take (length (m @ p)) (patch b (length m) p) = m @ p" "length (patch b (length m) p) = 5120"
      using take_patch_end [of m "length m" p b] b assms(2) by simp_all
  qed (use n b c l assms(2) in \<open>simp_all add: ble_arrive_def ble_blf_recv_def buf_store_def buf_get_def WRITE_FLAG_PREPARE_def Let_def\<close>)
qed

lemma ble_len_field:
  assumes "ble_frame f" "2 \<le> n" "n \<le> length f" "take n b = take n f" "n \<le> length b"
  shows "unat (rd16 b 0) + 2 = length f"
proof -
  have "rd16 b 0 = rd16 (take n b) 0" "rd16 f 0 = rd16 (take n f) 0" using assms(2,3,5) by (simp_all add: rd_take)
  then show ?thesis using assms(1,4) by (simp add: ble_frame_def)
qed

lemma ble_part:
  assumes f: "ble_frame (m @ p @ q)" and s: "ble_holds m s" and q: "q \<noteq> []" "2 \<le> length (m @ p)"
  shows "\<exists>s'. ble_arrive p s = Some s' \<and> ble_holds (m @ p) s'"
proof -
  have l: "length (m @ p) < 5120" using f by (simp add: ble_frame_def)
  obtain b where b: "length b = 5120" "take (length (m @ p)) b = m @ p" "unat (lk_len s + word_of_nat (length p)) = length (m @ p)"
    "ble_arrive p s = (let s1 = s\<lparr>lk_buf := (lk_buf s)(0 := Live b), lk_len := lk_len s + word_of_nat (length p)\<rparr>
       in Some (if lk_len s1 - 2 = ucast (rd16 b 0) then s1\<lparr>lk_len := lk_len s1 - 2, lk_rx_sem := True\<rparr>
                else if lk_len s1 - 2 > ucast (rd16 b 0) then s1\<lparr>lk_len := 0, lk_rx_sem := True\<rparr> else s1))"
    by (rule ble_store [OF s l q(2)])
  have r: "unat (rd16 b 0) + 2 = length (m @ p @ q)"
    by (rule ble_len_field [OF f q(2)]) (use b l in simp_all)
  have d: "unat (lk_len s + word_of_nat (length p) - 2) = length (m @ p) - 2"
    using b(3) q(2) by (subst unat_sub_le) (simp_all add: word_le_nat_alt)
  have c: "lk_len s + word_of_nat (length p) - 2 < ucast (rd16 b 0)"
    unfolding word_less_nat_alt d using r q by (simp; cases q) simp_all
  then show ?thesis using b s l by (auto simp: ble_holds_def Let_def)
qed

lemma ble_last:
  assumes f: "ble_frame (m @ p)" and s: "ble_holds m s" and q: "p \<noteq> []" "2 \<le> length (m @ p)"
  shows "\<exists>s'. ble_arrive p s = Some s' \<and> ble_full (m @ p) s'"
proof -
  have l: "length (m @ p) < 5120" using f by (simp add: ble_frame_def)
  obtain b where b: "length b = 5120" "take (length (m @ p)) b = m @ p" "unat (lk_len s + word_of_nat (length p)) = length (m @ p)"
    "ble_arrive p s = (let s1 = s\<lparr>lk_buf := (lk_buf s)(0 := Live b), lk_len := lk_len s + word_of_nat (length p)\<rparr>
       in Some (if lk_len s1 - 2 = ucast (rd16 b 0) then s1\<lparr>lk_len := lk_len s1 - 2, lk_rx_sem := True\<rparr>
                else if lk_len s1 - 2 > ucast (rd16 b 0) then s1\<lparr>lk_len := 0, lk_rx_sem := True\<rparr> else s1))"
    by (rule ble_store [OF s l q(2)])
  have r: "unat (rd16 b 0) + 2 = length (m @ p)"
    by (rule ble_len_field [OF f q(2)]) (use b l in simp_all)
  have d: "unat (lk_len s + word_of_nat (length p) - 2) = length (m @ p) - 2"
    using b(3) q(2) by (subst unat_sub_le) (simp_all add: word_le_nat_alt)
  have c: "lk_len s + word_of_nat (length p) - 2 = ucast (rd16 b 0)"
    unfolding word_eq_unat d using r by simp
  then show ?thesis using b s r by (auto simp: ble_full_def ble_holds_def Let_def)
qed

interpretation ble: frame_buffer link_step ble_piece ble_rx ble_frame ble_holds ble_full 2
proof unfold_locales
  show "\<exists>s'. link_step e s = Some s' \<and> ble_holds m s'" if "ble_rx e" "ble_piece e = None" "ble_holds m s" for e m s
    using quiet_step [OF ble_rx_quiet [OF that(1,2)], of s] that(3) by (auto simp: same_rx_def ble_holds_def)
qed (simp_all add: ble_rx_arrive ble_part ble_last)

abbreviation ble_write :: "bytes \<Rightarrow> link_event" where
  "ble_write p \<equiv> BleWrite p (word_of_nat (length p)) 0"

text \<open>A slot in which the packet does not become complete ends with a time-out; one in which it does, with the packet.\<close>

lemma ble_slot_waits:
  assumes "list_all ble_rx es" "ble_frame (m @ concat (pieces ble_piece es) @ q)" "q \<noteq> []" "ble_holds m s"
    "pieces ble_piece es = [] \<or> 2 \<le> length (m @ hd (pieces ble_piece es))"
  shows "\<exists>s'. sem_take True (es @ fs) s = sem_take True fs s' \<and> ble_holds (m @ concat (pieces ble_piece es)) s'"
  using assms
proof (induction es arbitrary: m s)
  case (Cons e es)
  have n: "\<not> sem_given True s" using Cons.prems(4) by (simp add: sem_given_def ble_holds_def)
  obtain s1 where s1: "link_step e s = Some s1" "ble_holds (m @ concat (pieces ble_piece [e])) s1"
    using ble.collect [of "[e]" m "concat (pieces ble_piece es) @ q" s] Cons.prems
    by (auto simp del: link_step.simps split: option.splits)
  have "\<exists>s'. sem_take True (es @ fs) s1 = sem_take True fs s' \<and>
      ble_holds ((m @ concat (pieces ble_piece [e])) @ concat (pieces ble_piece es)) s'"
    by (rule Cons.IH) (use Cons.prems s1 in \<open>auto split: option.splits\<close>)
  then show ?case using n s1(1) by (auto simp del: link_step.simps split: option.splits)
qed auto

lemma ble_slot_takes:
  assumes "ble_holds m s" "link_step e s = Some s'" "lk_rx_sem s'"
  shows "sem_take True (e # rest) s = Some (True, rest, s'\<lparr>lk_rx_sem := False\<rparr>)"
  using assms by (cases rest) (simp_all add: sem_given_def sem_taken_def ble_holds_def del: link_step.simps)

lemma ble_waits:
  assumes "list_all (list_all ble_rx) slots" "ble_frame (m @ concat (pieces ble_piece (concat slots)) @ q)" "q \<noteq> []"
    "ble_holds m s" "pieces ble_piece (concat slots) = [] \<or> 2 \<le> length (m @ hd (pieces ble_piece (concat slots)))"
    "20 * length slots \<le> unat t"
  shows "\<exists>s'. sem_loop True t (slots @ later) s = sem_loop True (t - word_of_nat (20 * length slots)) later s' \<and>
    ble_holds (m @ concat (pieces ble_piece (concat slots))) s'"
  using assms
proof (induction slots arbitrary: m s t)
  case (Cons es slots)
  obtain s1 where s1: "sem_take True es s = sem_take True [] s1" "ble_holds (m @ concat (pieces ble_piece es)) s1"
    using ble_slot_waits [of es m "concat (pieces ble_piece (concat slots)) @ q" s "[]"] Cons.prems
    by (cases "pieces ble_piece es") auto
  have t: "sem_take True es s = Some (False, [], s1)" using s1 by (simp add: sem_given_def ble_holds_def)
  have t20: "20 \<le> unat t" using Cons.prems(6) by simp
  have u: "unat (t - 20) = unat t - 20" using t20 by (subst unat_sub_le) (auto simp: word_le_nat_alt)
  have "t \<noteq> 0" using t20 by auto
  have "\<exists>s'. sem_loop True (t - 20) (slots @ later) s1 = sem_loop True (t - 20 - word_of_nat (20 * length slots)) later s' \<and>
      ble_holds ((m @ concat (pieces ble_piece es)) @ concat (pieces ble_piece (concat slots))) s'"
    by (rule Cons.IH) (use Cons.prems s1(2) u in \<open>cases "pieces ble_piece es"; auto\<close>)+
  then show ?case using t \<open>t \<noteq> 0\<close> by (auto simp: algebra_simps)
qed auto

text \<open>Commands before which the receiver pauses.\<close>

definition ble_pauses :: "bytes \<Rightarrow> bool" where
  "ble_pauses f \<longleftrightarrow> rd8 f 2 = 0x30 \<or> rd8 f 2 = 0x21"

lemma ble_packet_taken:
  assumes f: "ble_frame f" and s: "ble_full f s"
    and k: "ble_pauses f \<Longrightarrow> 10 \<le> length slots \<and> list_all (list_all ble_quiet) (take 10 slots)"
  shows "\<exists>buf s'. ble_take_packet ind slots (s\<lparr>lk_rx_sem := False\<rparr>) = Some (RFrame buf (length f - 2), s') \<and>
    take (length f - 2) buf = drop 2 f \<and> ble_holds [] s'"
proof -
  obtain b where b: "lk_buf s 0 = Live b" "length b = 5120" "take (length f) b = f" "unat (lk_len s) + 2 = length f" "lk_conn s"
    using s by (auto simp: ble_full_def)
  have n: "lk_len s \<noteq> 0" "unat (lk_len s) = length f - 2" using b(4) f by (auto simp: ble_frame_def)
  have t: "take (length f - 2) (drop 2 b) = drop 2 f" using b(3) by (metis drop_take)
  have "b ! 2 = f ! 2" using b(2,3) f by (metis ble_frame_def less_le_trans nth_take numeral_2_eq_2 numeral_3_eq_3 lessI)
  then have c: "ble_pauses f \<longleftrightarrow> rd8 b 2 = 0x30 \<or> rd8 b 2 = 0x21" by (simp add: ble_pauses_def rd8_def)
  let ?s = "s\<lparr>lk_rx_sem := False, lk_len := 0\<rparr>"
  have h: "ble_holds [] s'" if "same_rx s' ?s" for s'
    using that b(1,2,5) by (simp add: ble_holds_def same_rx_def)
  show ?thesis
  proof (cases "ble_pauses f")
    case True
    obtain s' where "pause 10 slots ?s = Some (True, s')" "same_rx s' ?s" using quiet_pause [of 10 slots ?s] k [OF True] by auto
    then show ?thesis using n b(1) t True h [of s'] unfolding c
      by (auto simp: ble_take_packet_def buf_get_def Let_def same_rx_def)
  next
    case False
    then show ?thesis using n b(1) t h [of ?s] unfolding c
      by (auto simp: ble_take_packet_def buf_get_def Let_def same_rx_def)
  qed
qed

text \<open>The whole wait for a packet: it comes in time, or the slots run out first.\<close>

lemma ble_in_time:
  assumes "ble_holds [] s" "ble_frame f"
    and "list_all (list_all ble_rx) slots" "list_all ble_rx es" "p \<noteq> []"
      "concat (pieces ble_piece (concat slots @ es)) @ p = f" "2 \<le> length (hd (pieces ble_piece (concat slots @ es) @ [p]))"
    and n: "length slots < 500"
  shows "\<exists>s1 t. sem_loop True 10000 (slots @ (es @ ble_write p # rest) # later) s
      = Some (Some (t, rest # later), s1\<lparr>lk_rx_sem := False\<rparr>) \<and> ble_full f s1 \<and> (t = 0 \<longleftrightarrow> length slots = 499)"
proof -
  let ?a = "concat (pieces ble_piece (concat slots))" and ?b = "concat (pieces ble_piece es)"
  have ff: "ble_frame (?a @ ?b @ p)" using assms(2,6) by simp
  define t where "t = (10000 - word_of_nat (20 * length slots) :: u32)"
  have t: "unat t = 10000 - 20 * length slots"
  proof -
    have w: "unat (word_of_nat (20 * length slots) :: u32) = 20 * length slots" unfolding unat_of_nat using n by simp
    then have "word_of_nat (20 * length slots) \<le> (10000 :: u32)" unfolding word_le_nat_alt using n by simp
    then show ?thesis unfolding t_def by (simp only: unat_sub w) simp
  qed
  obtain s1 where s1: "sem_loop True 10000 (slots @ (es @ ble_write p # rest) # later) s
      = sem_loop True t ((es @ ble_write p # rest) # later) s1" "ble_holds ?a s1"
    using ble_waits [of slots "[]" "?b @ p" s 10000 "(es @ ble_write p # rest) # later"] assms(1,3,5,7) ff n
    by (cases "pieces ble_piece (concat slots)") (auto simp: t_def)
  obtain s2 where s2: "sem_take True (es @ ble_write p # rest) s1 = sem_take True (ble_write p # rest) s2" "ble_holds (?a @ ?b) s2"
    using ble_slot_waits [of es ?a p s1 "ble_write p # rest"] assms(4,5,7) ff s1(2)
    by (cases "pieces ble_piece (concat slots)"; cases "pieces ble_piece es") auto
  have l: "2 \<le> length ((?a @ ?b) @ p)" using ff by (simp add: ble_frame_def)
  obtain s3 where s3: "link_step (ble_write p) s2 = Some s3" "ble_full ((?a @ ?b) @ p) s3"
    using ble.last [of "ble_write p" p "?a @ ?b" s2] s2(2) ff assms(5) l by (auto simp: WRITE_FLAG_PREPARE_def simp del: link_step.simps)
  have "sem_take True (es @ ble_write p # rest) s1 = Some (True, rest, s3\<lparr>lk_rx_sem := False\<rparr>)"
    unfolding s2(1) by (rule ble_slot_takes [OF s2(2) s3(1)]) (use s3(2) in \<open>simp add: ble_full_def\<close>)
  moreover have "t \<noteq> 0" using t n by auto
  moreover have "unat (t - 20) = unat t - 20" using t n by (subst unat_sub_le) (simp_all add: word_le_nat_alt)
  then have "t - 20 = 0 \<longleftrightarrow> length slots = 499" using t n by (auto simp: unat_eq_0 [symmetric])
  ultimately show ?thesis using s1(1) s3(2) assms(6) by (intro exI [of _ s3] exI [of _ "t - 20"]) simp
qed

lemma ble_too_late:
  assumes "ble_holds [] s" "ble_frame f"
    and "list_all (list_all ble_rx) slots" "list_all ble_rx es" "p \<noteq> []"
      "concat (pieces ble_piece (concat slots @ es)) @ p = f" "2 \<le> length (hd (pieces ble_piece (concat slots @ es) @ [p]))"
    and n: "500 \<le> length slots"
  shows "\<exists>r s1. sem_loop True 10000 (slots @ rs) s = Some (Some (0, r), s1) \<and> ble_holds [] (s1\<lparr>lk_len := 0\<rparr>)"
proof -
  let ?x = "take 500 slots" and ?y = "drop 500 slots"
  have sp: "concat slots = concat ?x @ concat ?y" by (metis append_take_drop_id concat_append)
  have l: "list_all (list_all ble_rx) ?x" using assms(3) by (auto simp: list_all_iff dest: in_set_takeD)
  obtain s1 where s1: "sem_loop True 10000 (?x @ ?y @ rs) s = sem_loop True 0 (?y @ rs) s1"
    "ble_holds (concat (pieces ble_piece (concat ?x))) s1"
    using ble_waits [of ?x "[]" "concat (pieces ble_piece (concat ?y)) @ concat (pieces ble_piece es) @ p" s 10000 "?y @ rs"]
      assms(1,2,5,6,7) l n by (cases "pieces ble_piece (concat ?x)") (auto simp: sp)
  have "sem_loop True 0 zs s1 = Some (Some (0, zs), s1)" for zs by (cases zs) simp_all
  moreover have "ble_holds [] (s1\<lparr>lk_len := 0\<rparr>)" using s1(2) by (auto simp: ble_holds_def)
  ultimately show ?thesis using s1(1) by (metis append_assoc append_take_drop_id)
qed

text \<open>
  An overrun of the UART buffer: once it holds more than the frame its length field announces, the
  field does not change any more and the count only grows.
\<close>

definition uart_overrun :: "link \<Rightarrow> bool" where
  "uart_overrun s \<longleftrightarrow> (\<exists>b. lk_buf s (unat (lk_index s)) = Live b \<and> length b = 4104 \<and>
     unat (rd16 b 2) + 4 < unat (lk_len s) \<and> unat (lk_len s) \<le> 4104)"

lemma uart_overrun_poll: "uart_overrun s \<Longrightarrow> uart_poll s = Some (None, s)"
proof -
  assume "uart_overrun s"
  then obtain b where b: "lk_buf s (unat (lk_index s)) = Live b" "unat (rd16 b 2) + 4 < unat (lk_len s)"
    by (auto simp: uart_overrun_def)
  have "unat (ucast (rd16 b 2) + 4 :: u32) = unat (rd16 b 2) + 4"
    using unsigned_less [of "rd16 b 2", where 'a = nat] by (subst unat_add_lt) simp_all
  then have "lk_len s \<noteq> ucast (rd16 b 2) + 4" using b(2) by auto
  then show ?thesis using b by (simp add: uart_poll_def buf_get_def Let_def)
qed

lemma uart_overrun_step:
  assumes "uart_overrun s" "link_step (UartRx bs) s = Some s'"
  shows "uart_overrun s'"
proof (cases "lk_uart s \<and> lk_uart_int s")
  case True
  obtain b where b: "lk_buf s (unat (lk_index s)) = Live b" "length b = 4104"
    "unat (rd16 b 2) + 4 < unat (lk_len s)" "unat (lk_len s) \<le> 4104"
    using assms(1) by (auto simp: uart_overrun_def)
  have l: "unat (lk_len s) + length bs \<le> 4104"
    using assms(2) True b by (auto simp: uart0_irq_callback_def buf_store_def split: if_splits)
  have n: "unat (lk_len s + word_of_nat (length bs)) = unat (lk_len s) + length bs"
    using l by (subst unat_add_lt) (simp_all add: unat_of_nat)
  have "rd16 (patch b (unat (lk_len s)) bs) 2 = rd16 b 2"
    using b l by (simp add: rd_patch_other)
  then show ?thesis
    using assms(2) True b l n by (auto simp: uart0_irq_callback_def buf_store_def uart_overrun_def)
qed (use assms in \<open>auto split: if_splits\<close>)

lemma uart_overrun_steps:
  "uart_overrun s \<Longrightarrow> link_steps (map UartRx bss) s = Some s' \<Longrightarrow> uart_overrun s'"
proof (induction bss arbitrary: s)
  case (Cons b bss)
  then obtain s1 where "link_step (UartRx b) s = Some s1" "link_steps (map UartRx bss) s1 = Some s'"
    by (auto simp del: link_step.simps split: option.splits)
  then show ?case using Cons uart_overrun_step by blast
qed simp

text \<open>The BLE link by itself: buffer 0 has its full size and the count stays below it; buffer 1 is not used.\<close>

definition ble_ok :: "link \<Rightarrow> bool" where
  "ble_ok s \<longleftrightarrow> (\<exists>b. lk_buf s 0 = Live b \<and> length b = 5120) \<and> unat (lk_len s) < 5120 \<and> lk_buf s 1 = Null"

fun ble_event :: "link_event \<Rightarrow> bool" where
  "ble_event (UartRx bs) = False"
| "ble_event (BleWrite p len flags) = (length p = unat len)"
| "ble_event e = True"

lemma ble_ok_write:
  assumes "ble_ok s" "length p = unat len"
  shows "\<exists>r s'. ble_blf_recv p len flags s = Some (r, s') \<and> ble_ok s'"
proof -
  obtain b where b: "lk_buf s 0 = Live b" "length b = 5120" "unat (lk_len s) < 5120" "lk_buf s 1 = Null"
    using assms(1) by (auto simp: ble_ok_def)
  have n: "unat (ucast len + lk_len s) = unat len + unat (lk_len s)"
    using b(3) unsigned_less [of len, where 'a = nat] by (subst unat_add_lt) simp_all
  have sz: "unat BLE_READBUF_SIZE = 5120" by (simp add: link_sizes)
  show ?thesis
  proof (cases "flags = WRITE_FLAG_PREPARE \<or> BLE_READBUF_SIZE \<le> ucast len + lk_len s")
    case True
    then show ?thesis using assms(1) by (auto simp: ble_blf_recv_def)
  next
    case False
    then have l: "unat (lk_len s) + unat len < 5120" using n sz by (simp add: word_le_nat_alt not_le)
    have n': "unat (lk_len s + ucast len) = unat (lk_len s) + unat len" using n by (simp add: add.commute)
    have "unat (lk_len s + ucast len - 2) < 5120" if "\<not> lk_len s + ucast len < 2"
      using that n' l by (subst unat_sub_le) (simp_all add: word_le_nat_alt not_less)
    then show ?thesis
      using False b l n' assms(2) by (auto simp: ble_blf_recv_def buf_store_def buf_get_def Let_def ble_ok_def)
  qed
qed

lemma ble_ok_step: "ble_ok s \<Longrightarrow> ble_event e \<Longrightarrow> \<exists>s'. link_step e s = Some s' \<and> ble_ok s'"
proof (cases e)
  case (BleWrite p len flags)
  assume "ble_ok s" "ble_event e"
  then obtain r s' where "ble_blf_recv p len flags s = Some (r, s')" "ble_ok s'" using ble_ok_write BleWrite by fastforce
  then show ?thesis using BleWrite by simp
qed (auto simp: ble_ok_def bl_connected_def bl_disconnected_def buf_free_def buf_alloc_def ble_cfg_changed_def indicate_cb_def
    bflb_eflash_loader_if_set_def link_sizes Let_def)

section \<open>Links at work\<close>

text \<open>The globals after a reset, a link over BLE and one over UART.\<close>

definition link_init :: link where
  "link_init = \<lparr>lk_buf = (\<lambda>i. Null), lk_index = 0, lk_len = 0, lk_if = None, lk_uart = True, lk_uart_int = False,
     lk_conn = False, lk_indicate = False, lk_rx_sem = False, lk_tx_sem = False, lk_sent = []\<rparr>"

definition link_ble :: link where
  "link_ble = link_init\<lparr>lk_buf := (\<lambda>i. Null)(0 := Live (replicate 5120 0)), lk_conn := True, lk_if := Some IF_BLE\<rparr>"

definition link_uart :: link where
  "link_uart = link_init\<lparr>lk_buf := (\<lambda>i. Null)(0 := Live (replicate 4104 0), 1 := Live (replicate 4104 0)), lk_uart_int := True\<rparr>"

lemma link_ble_start: "link_steps [BleConnected 0] link_init = Some link_ble"
  by (simp add: link_init_def link_ble_def bl_connected_def buf_free_def buf_alloc_def bflb_eflash_loader_if_set_def
      link_sizes Let_def)

lemma link_ble_ok: "ble_ok link_ble" "ble_holds [] link_ble"
  by (simp_all add: ble_ok_def ble_holds_def link_ble_def link_init_def)

lemma link_overrun: "uart_overrun (link_uart\<lparr>lk_len := 5\<rparr>)"
  by (simp add: uart_overrun_def link_uart_def link_init_def rd16_def)

section \<open>Properties\<close>

text \<open>C22: A packet written over BLE in any pieces, the first of at least two bytes, spread in any way
  over time slots, is handed to the command loop exactly as it was sent, without its two length
  bytes, when it is complete before the last of the 500 slots (of 20 ms) the receiver waits, and the
  link is ready for the next one.  A packet that is complete only later is dropped, also the one
  that is complete in the last slot: then nothing is handed over and the buffer is emptied.  The
  link stays connected and nothing but the writes, prepared writes, notification settings and confirmed
  indications happens until the packet is complete; after an erase or reset command also no
  write in the ten slots the receiver pauses.\<close>

theorem ble_delivers:
  assumes "ble_holds [] s" "ble_frame f"
    and "list_all (list_all ble_rx) slots" "list_all ble_rx es" "p \<noteq> []"
      "concat (pieces ble_piece (concat slots @ es)) @ p = f" "2 \<le> length (hd (pieces ble_piece (concat slots @ es) @ [p]))"
    and "ble_pauses f \<Longrightarrow> 9 \<le> length later \<and> list_all (list_all ble_quiet) (take 10 (rest # later))"
  shows "\<exists>s'. ble_holds [] s' \<and>
    (if length slots < 499
     then \<exists>buf. bflb_eflash_loader_ble_recv ind 10000 (slots @ (es @ ble_write p # rest) # later) s
            = Some (RFrame buf (length f - 2), s') \<and> take (length f - 2) buf = drop 2 f
     else bflb_eflash_loader_ble_recv ind 10000 (slots @ (es @ ble_write p # rest) # later) s = Some (RNone, s'))"
proof -
  let ?all = "slots @ (es @ ble_write p # rest) # later"
  have conn: "lk_conn s" using assms(1) by (simp add: ble_holds_def)
  show ?thesis
  proof (cases "length slots < 500")
    case True
    obtain s1 t where lp: "sem_loop True 10000 ?all s = Some (Some (t, rest # later), s1\<lparr>lk_rx_sem := False\<rparr>)"
      and s1: "ble_full f s1" and t: "t = 0 \<longleftrightarrow> length slots = 499"
      using ble_in_time [OF assms(1-7) True] by blast
    show ?thesis
    proof (cases "length slots < 499")
      case True
      then show ?thesis
        using ble_packet_taken [OF assms(2) s1, of "rest # later" ind] assms(8) lp t conn
        by (auto simp: bflb_eflash_loader_ble_recv_def)
    next
      case False
      then have "t = 0" using t \<open>length slots < 500\<close> by simp
      moreover have "ble_holds [] (s1\<lparr>lk_rx_sem := False, lk_len := 0\<rparr>)" using s1 by (auto simp: ble_full_def ble_holds_def)
      ultimately show ?thesis using False lp conn by (auto simp: bflb_eflash_loader_ble_recv_def)
    qed
  next
    case False
    obtain r s1 where lp: "sem_loop True 10000 ?all s = Some (Some (0, r), s1)" and s1: "ble_holds [] (s1\<lparr>lk_len := 0\<rparr>)"
      using ble_too_late [OF assms(1-7)] False by (metis not_less)
    then show ?thesis using False conn by (auto simp: bflb_eflash_loader_ble_recv_def)
  qed
qed

theorem ble_delivers_witness:
  "(\<exists>buf s'. bflb_eflash_loader_ble_recv 0 10000 ([[BleIndicated, ble_write [3, 0, 1]], []] @ [[BleCfg 2, ble_write [2, 3]]]) link_ble
     = Some (RFrame buf 3, s') \<and> take 3 buf = [1, 2, 3])
   \<and> (\<exists>s'. bflb_eflash_loader_ble_recv 0 10000 (([ble_write [3, 0, 1]] # replicate 498 []) @ [[ble_write [2, 3]]]) link_ble
     = Some (RNone, s'))"
proof -
  have f: "ble_frame [3, 0, 1, 2, 3]" and p: "\<not> ble_pauses [3, 0, 1, 2, 3]" by (simp_all add: ble_frame_def ble_pauses_def rd16_def rd8_def)
  have c: "concat (replicate n []) = ([] :: link_event list)" "list_all (list_all ble_rx) (replicate n [])" for n
    by (induction n) simp_all
  show ?thesis
    using ble_delivers [OF link_ble_ok(2) f, of "[[BleIndicated, ble_write [3, 0, 1]], []]" "[BleCfg 2]" "[2, 3]" "[]" "[]" 0]
      ble_delivers [OF link_ble_ok(2) f, of "[ble_write [3, 0, 1]] # replicate 498 []" "[]" "[2, 3]" "[]" "[]" 0] p
    by (auto simp: WRITE_FLAG_PREPARE_def c numeral_3_eq_3)
qed

text \<open>C29: As long as only BLE is used, no sequence of connections, disconnections and writes of any size
  makes the receiver access memory outside its buffer.\<close>

theorem ble_never_overflows:
  assumes "ble_ok s" "\<forall>e \<in> set es. ble_event e"
  shows "\<exists>s'. link_steps es s = Some s' \<and> ble_ok s'"
  using assms
proof (induction es arbitrary: s)
  case (Cons e es)
  then obtain s1 where "link_step e s = Some s1" "ble_ok s1" using ble_ok_step by force
  then show ?case using Cons by simp
qed simp

theorem ble_never_overflows_witness:
  "\<exists>s'. link_steps [BleWrite (replicate 5118 7) 5118 0, BleWrite [1, 2] 2 0, BleDisconnected, BleConnected 0] link_ble = Some s'"
  using ble_never_overflows [OF link_ble_ok(1), of "[BleWrite (replicate 5118 7) 5118 0, BleWrite [1, 2] 2 0, BleDisconnected, BleConnected 0]"]
  by fastforce

text \<open>A UART frame with more bytes than its length field announces jams the receiver: whatever comes
  later, no frame is ever read again, until the buffer overflows.\<close>

theorem uart_overrun_jams:
  assumes "uart_overrun s" "uart_if_receive t (map (map UartRx) slots) s = Some (r, s')"
  shows "(r = RNone \<or> r = RWaiting) \<and> uart_overrun s'"
  using assms
proof (induction slots arbitrary: s t)
  case Nil
  then show ?case by (auto simp: uart_overrun_poll)
next
  case (Cons bss slots)
  obtain s1 where s1: "link_steps (map UartRx bss) s = Some s1"
    using Cons.prems by (auto simp: uart_overrun_poll split: option.splits)
  then have "uart_overrun s1" using uart_overrun_steps Cons.prems(1) by blast
  then show ?case
    using Cons s1 by (auto simp: uart_overrun_poll split: if_splits)
qed

theorem uart_overrun_jams_witness:
  "\<exists>r s'. uart_if_receive 8000 (map (map UartRx) [[]]) (link_uart\<lparr>lk_len := 5\<rparr>) = Some (r, s') \<and> uart_overrun s' \<and> (r = RNone \<or> r = RWaiting)"
proof -
  have "uart_if_receive 8000 (map (map UartRx) [[]]) (link_uart\<lparr>lk_len := 5\<rparr>) = Some (RWaiting, link_uart\<lparr>lk_len := 5\<rparr>)"
    by (simp add: uart_overrun_poll [OF link_overrun])
  then show ?thesis using uart_overrun_jams [OF link_overrun] by blast
qed

text \<open>The transports do not mix.  After a UART session, the second BLE connection frees the second
  receive buffer again; after a BLE connection, a UART session receives its second frame through a
  null pointer.\<close>

theorem transports_do_not_mix:
  assumes "lk_buf s 0 = Live a" "lk_buf s 1 = Live b"
    and "lk_buf t 0 = Live c" "lk_buf t 1 = Null" "lk_uart t"
      "bflb_eflash_loader_uart_handshake_poll read t = (0, t1)"
      "link_steps [UartRx f] t1 = Some t2" "uart_if_receive n [] t2 = Some (RFrame buf k, t3)"
  shows "link_steps [BleConnected 0, BleDisconnected, BleConnected 0] s = None \<and> link_steps [UartRx [x]] t3 = None"
proof
  show "link_steps [BleConnected 0, BleDisconnected, BleConnected 0] s = None"
    using assms(1,2) by (simp add: bl_connected_def bl_disconnected_def buf_free_def buf_alloc_def bflb_eflash_loader_if_set_def)
next
  have t1: "lk_buf t1 1 = Null" "lk_index t1 = 0" "lk_uart t1" "lk_uart_int t1"
    using assms(3-6)
    by (auto simp: bflb_eflash_loader_uart_handshake_poll_def Let_def uart_if_send_def uart_if_enable_int_def split: if_splits)
  then have t2: "lk_buf t2 1 = Null" "lk_index t2 = 0" "lk_uart t2" "lk_uart_int t2"
    using assms(7) by (auto simp: uart0_irq_callback_def buf_store_def split: option.splits heap_ptr.splits if_splits)
  then have "lk_buf t3 1 = Null" "lk_index t3 = 1" "lk_uart t3" "lk_uart_int t3"
    using assms(8) by (auto simp: uart_poll_def Let_def split: option.splits if_splits)
  then show "link_steps [UartRx [x]] t3 = None" by (simp add: uart0_irq_callback_def buf_store_def)
qed

theorem transports_do_not_mix_witness:
  "link_steps [BleConnected 0, BleDisconnected, BleConnected 0] link_uart = None \<and>
   (\<exists>t1 t2 t3 buf. bflb_eflash_loader_uart_handshake_poll (16, replicate 16 0x55) link_ble = (0, t1) \<and>
      link_steps [UartRx [0x10, 0, 0, 0]] t1 = Some t2 \<and> uart_if_receive 8000 [] t2 = Some (RFrame buf 4, t3) \<and>
      link_steps [UartRx [0x10]] t3 = None)"
proof -
  let ?t1 = "link_ble\<lparr>lk_sent := [[0x4F, 0x4B]], lk_uart_int := True\<rparr>" and ?b = "patch (replicate 5120 0) 0 [0x10, 0, 0, 0]"
  let ?t2 = "?t1\<lparr>lk_buf := (lk_buf link_ble)(0 := Live ?b), lk_len := 4\<rparr>"
  have h: "bflb_eflash_loader_uart_handshake_poll (16, replicate 16 0x55) link_ble = (0, ?t1)"
    by (simp add: bflb_eflash_loader_uart_handshake_poll_def link_ble_def link_init_def uart_if_send_def uart_if_enable_int_def
        numeral_eq_Suc)
  have r: "link_steps [UartRx [0x10, 0, 0, 0]] ?t1 = Some ?t2"
    by (simp add: uart0_irq_callback_def buf_store_def link_ble_def link_init_def)
  have z: "rd16 ?b 2 = 0" by (simp add: rd16_def patch_def)
  have p: "uart_if_receive 8000 [] ?t2 = Some (RFrame ?b 4, ?t2\<lparr>lk_index := 1, lk_len := 0\<rparr>)"
    by (simp add: uart_poll_def buf_get_def Let_def z link_ble_def link_init_def)
  show ?thesis
    using transports_do_not_mix [OF _ _ _ _ _ h r p, of link_uart "replicate 4104 0" "replicate 4104 0" "replicate 5120 0"]
      h r p by (simp add: link_uart_def link_ble_def link_init_def)
qed

end
