(* ===== verification/BootParser.thy ===== *)
theory BootParser
  imports EflashLoader
begin

text \<open>
  \<open>robot_bootloader/blsp_boot_parser.c\<close>: the second-stage loader's parsing of an image in
  flash.  The boot header, public key, signature and AES IV are read into a buffer and checked
  here; a hash device accumulates the bytes whose digest is compared with the header.
\<close>

section \<open>State\<close>

text \<open>\<open>boot2_image_config\<close> (without the fields no code uses) and \<open>boot2_efuse_hw_config\<close>.\<close>

record boot_img =
  bi_encrypt_type :: u8
  bi_sign_type :: u8
  bi_key_sel :: u8
  bi_img_valid :: u8
  bi_no_segment :: u8
  bi_cache_enable :: u8
  bi_cache_way_disable :: u8
  bi_hash_ignore :: u8
  bi_aes_region_lock :: u8
  bi_halt_cpu1 :: u8
  bi_cpu_type :: u8
  bi_img_len :: u32
  bi_msp_val :: u32
  bi_entry_point :: u32
  bi_flash_offset :: u32
  bi_sig_len :: u32
  bi_sig_len2 :: u32
  bi_img_hash :: bytes
  bi_aes_iv :: bytes
  bi_eckye_x :: bytes
  bi_eckey_y :: bytes
  bi_signature :: bytes
  bi_signature2 :: bytes

record efuse_cfg =
  ef_encrypted :: "nat \<Rightarrow> u8"
  ef_sign :: "nat \<Rightarrow> u8"
  ef_hbn_check_sign :: u8
  ef_pk_hash_cpu0 :: bytes
  ef_pk_hash_cpu1 :: bytes

text \<open>
  What the code calls outside: the flash functions, the SHA-256 engine (whether the device is
  found, the result of opening it, its digest of all data written), the ECDSA verification
  (public key, hash, \<open>r\<close>, \<open>s\<close>), the feature flag in the vector table and the address of \<open>main\<close>.
\<close>

record 'f boot_env =
  be_flash :: "'f flash_ops"
  be_hash_found :: bool
  be_hash_open :: u32
  be_sha256 :: "bytes \<Rightarrow> bytes"
  be_ecdsa_verify :: "bytes \<times> bytes \<Rightarrow> bytes \<Rightarrow> bytes \<Rightarrow> bytes \<Rightarrow> u32"
  be_feature_flag :: u8
  be_main :: u32

text \<open>
  The globals: the two image configurations, the fuses, the power-save mode, the CPU count,
  the hash-ignore request, the read buffer and the data written to the hash device.
\<close>

record 'f boot =
  bt_img :: "nat \<Rightarrow> boot_img"
  bt_efuse :: efuse_cfg
  bt_ps_mode :: u8
  bt_cpu_count :: nat
  bt_user_hash_ignored :: u32
  bt_buf :: bytes
  bt_hash :: bytes
  bt_dev :: 'f

definition BFLB_BOOT2_SUCCESS :: u32 where "BFLB_BOOT2_SUCCESS = 0"
definition BOOT2_HEADER_NOT_LOAD_ERROR :: u32 where "BOOT2_HEADER_NOT_LOAD_ERROR = 0x0202"
definition BOOT2_HEADER_MAGIC_ERROR :: u32 where "BOOT2_HEADER_MAGIC_ERROR = 0x0203"
definition BOOT2_HEADER_CRC_ERROR :: u32 where "BOOT2_HEADER_CRC_ERROR = 0x0204"
definition BOOT2_HEADER_ENCRYPT_NOTFIT :: u32 where "BOOT2_HEADER_ENCRYPT_NOTFIT = 0x0205"
definition BOOT2_HEADER_SIGN_NOTFIT :: u32 where "BOOT2_HEADER_SIGN_NOTFIT = 0x0206"
definition BOOT2_SEGMENT_CNT_ERROR :: u32 where "BOOT2_SEGMENT_CNT_ERROR = 0x0207"
definition BOOT2_AES_IV_CRC_ERROR :: u32 where "BOOT2_AES_IV_CRC_ERROR = 0x0209"
definition BOOT2_PK_CRC_ERROR :: u32 where "BOOT2_PK_CRC_ERROR = 0x020b"
definition BOOT2_PK_HASH_ERROR :: u32 where "BOOT2_PK_HASH_ERROR = 0x020c"
definition BOOT2_SIGNATURE_LEN_ERROR :: u32 where "BOOT2_SIGNATURE_LEN_ERROR = 0x020d"
definition BOOT2_SIGNATURE_CRC_ERROR :: u32 where "BOOT2_SIGNATURE_CRC_ERROR = 0x020e"
definition BOOT2_HASH_ERROR :: u32 where "BOOT2_HASH_ERROR = 0x0217"
definition BOOT2_SIGN_ERROR :: u32 where "BOOT2_SIGN_ERROR = 0x0219"
definition BOOT2_ALL_INVALID_ERROR :: u32 where "BOOT2_ALL_INVALID_ERROR = 0x021b"
definition BOOT2_Roll_Back :: u32 where "BOOT2_Roll_Back = 0x021c"

lemmas boot2_codes = BFLB_BOOT2_SUCCESS_def BOOT2_HEADER_NOT_LOAD_ERROR_def BOOT2_HEADER_MAGIC_ERROR_def
  BOOT2_HEADER_CRC_ERROR_def BOOT2_HEADER_ENCRYPT_NOTFIT_def BOOT2_HEADER_SIGN_NOTFIT_def
  BOOT2_SEGMENT_CNT_ERROR_def BOOT2_AES_IV_CRC_ERROR_def BOOT2_PK_CRC_ERROR_def BOOT2_PK_HASH_ERROR_def
  BOOT2_SIGNATURE_LEN_ERROR_def BOOT2_SIGNATURE_CRC_ERROR_def BOOT2_HASH_ERROR_def BOOT2_SIGN_ERROR_def
  BOOT2_ALL_INVALID_ERROR_def BOOT2_Roll_Back_def BFLB_BOOT2_FAIL_def

definition BFLB_PSM_HBN :: u8 where "BFLB_PSM_HBN = 1"

section \<open>The parsers\<close>

definition blsp_boot_parse_is_pkhash_valid :: "efuse_cfg \<Rightarrow> u8 \<Rightarrow> bytes \<Rightarrow> bool" where
  "blsp_boot_parse_is_pkhash_valid ef cpu_type pkhash =
     (if cpu_type = 0 then ef_pk_hash_cpu0 ef = pkhash
      else if cpu_type = 1 then ef_pk_hash_cpu1 ef = pkhash
      else False)"

text \<open>Registering and opening the hash device starts a new digest.\<close>

definition hash_open :: "'f boot_env \<Rightarrow> 'f boot \<Rightarrow> u32 \<times> 'f boot" where
  "hash_open env s = (if be_hash_found env \<and> be_hash_open env = 0 then (BFLB_BOOT2_SUCCESS, s\<lparr>bt_hash := []\<rparr>)
     else (BFLB_BOOT2_FAIL, s))"

definition hash_write :: "bytes \<Rightarrow> 'f boot \<Rightarrow> 'f boot" where
  "hash_write bs s = s\<lparr>bt_hash := bt_hash s @ bs\<rparr>"

text \<open>\<open>for (i = 0; i < BFLB_BOOT2_CPU_MAX; i++)\<close> over the magic codes; both branches leave the loop.\<close>

function cpu_loop :: "bytes \<Rightarrow> nat \<Rightarrow> nat" where
  "cpu_loop magic i =
     (if i < 2 then
        if magic = [0x42, 0x46, 0x4E, 0x50] then i
        else if magic = [0x42, 0x46, 0x41, 0x50] then i
        else cpu_loop magic (i + 1)
      else i)"
  by pat_completeness auto
termination by (relation "measure (\<lambda>(m, i). 2 - i)") auto

declare cpu_loop.simps [simp del]

text \<open>The fields that are taken over from a header with a good checksum and magic code.\<close>

definition bh_take_over :: "bytes \<Rightarrow> nat \<Rightarrow> boot_img \<Rightarrow> boot_img" where
  "bh_take_over h i c = c\<lparr>bi_cpu_type := word_of_nat i, bi_img_valid := 0,
     bi_encrypt_type := bh_field h 2 2, bi_sign_type := bh_field h 0 2, bi_key_sel := bh_field h 4 2,
     bi_no_segment := bh_field h 8 1, bi_cache_enable := bh_field h 9 1,
     bi_aes_region_lock := bh_field h 11 1, bi_halt_cpu1 := bh_field h 18 1,
     bi_cache_way_disable := bh_field h 12 4, bi_hash_ignore := bh_field h 17 1,
     bi_img_len := bh_segment_cnt h, bi_entry_point := bh_bootentry h, bi_flash_offset := bh_img_start h\<rparr>"

definition bh_hash :: "bytes \<Rightarrow> bytes" where "bh_hash h = seg h 132 32"

text \<open>Whether the hash check is skipped: the three statements on \<open>hash_ignore\<close>, in order.\<close>

definition bh_hash_ignore :: "'f boot \<Rightarrow> bytes \<Rightarrow> nat \<Rightarrow> u8 \<Rightarrow> u8" where
  "bh_hash_ignore s h i ign =
     (let ign1 = (if bt_ps_mode s = BFLB_PSM_HBN \<and> ef_hbn_check_sign (bt_efuse s) = 0 then 1
                  else if (ign = 1 \<and> rd32 h 132 \<noteq> BOOTROM_DEADBEEF_VAL) \<or> ef_sign (bt_efuse s) i \<noteq> 0 then 0
                  else ign)
      in if bt_user_hash_ignored s \<noteq> 0 then 1 else ign1)"

definition blsp_boot_parse_bootheader ::
  "'f boot_env \<Rightarrow> boot_img \<Rightarrow> bytes \<Rightarrow> 'f boot \<Rightarrow> u32 \<times> boot_img \<times> 'f boot" where
  "blsp_boot_parse_bootheader env c h s =
     (if bh_crc_ok h then
        if bh_field h 10 1 \<noteq> 0 then (BOOT2_HEADER_NOT_LOAD_ERROR, c, s)
        else
          (let i = cpu_loop (le32 (bh_magiccode h)) 0
           in if i = 2 then (BOOT2_HEADER_MAGIC_ERROR, c, s)
              else
                (let c1 = bh_take_over h i c
                 in if ef_encrypted (bt_efuse s) i \<noteq> 0 \<and> bi_encrypt_type c1 = 0
                    then (BOOT2_HEADER_ENCRYPT_NOTFIT, c1, s)
                    else if ef_sign (bt_efuse s) i XOR bi_sign_type c1 \<noteq> 0
                    then (BOOT2_HEADER_SIGN_NOTFIT, c1\<lparr>bi_sign_type := ef_sign (bt_efuse s) i\<rparr>, s)
                    else
                      (let c2 = c1\<lparr>bi_hash_ignore := bh_hash_ignore s h i (bi_hash_ignore c1),
                                   bi_img_hash := bh_hash h\<rparr>
                       in if bi_img_len c2 = 0 then (BOOT2_SEGMENT_CNT_ERROR, c2, s)
                          else (let (r, s1) = hash_open env s in (r, c2, s1)))))
      else (BOOT2_HEADER_CRC_ERROR, c, s))"

definition blsp_boot_parse_pkey ::
  "'f boot_env \<Rightarrow> boot_img \<Rightarrow> bytes \<Rightarrow> bool \<Rightarrow> 'f boot \<Rightarrow> u32 \<times> boot_img \<times> 'f boot" where
  "blsp_boot_parse_pkey env c data own s =
     (if rd32 data 64 = BFLB_Soft_CRC32 (seg data 0 64) then
        (let s1 = hash_write (seg data 0 64) s;
             pk_hash = be_sha256 env (bt_hash s1);
             (r, s2) = hash_open env s1
         in if r \<noteq> BFLB_BOOT2_SUCCESS then (BFLB_BOOT2_FAIL, c, s2)
            else if own \<and> \<not> blsp_boot_parse_is_pkhash_valid (bt_efuse s) (bi_cpu_type c) pk_hash
            then (BOOT2_PK_HASH_ERROR, c, s2)
            else (BFLB_BOOT2_SUCCESS,
                  (if own then c\<lparr>bi_eckye_x := seg data 0 32, bi_eckey_y := seg data 32 32\<rparr> else c), s2))
      else (BOOT2_PK_CRC_ERROR, c, s))"

text \<open>
  The signature data: its length field, that many bytes, a checksum over both.  \<open>None\<close> is an
  access behind the end of the buffer.
\<close>

definition blsp_boot_parse_signature :: "boot_img \<Rightarrow> bytes \<Rightarrow> bool \<Rightarrow> (u32 \<times> boot_img) option" where
  "blsp_boot_parse_signature c data own =
     (let sig_len = rd32 data 0; n = unat sig_len
      in if sig_len > 256 then Some (BOOT2_SIGNATURE_LEN_ERROR, c)
         else if n + 8 > length data then None
         else if seg data (4 + n) 4 = le32 (BFLB_Soft_CRC32 (seg data 0 (n + 4))) then
           Some (BFLB_BOOT2_SUCCESS,
             (if own then c\<lparr>bi_signature := patch (bi_signature c) 0 (seg data 4 n), bi_sig_len := sig_len\<rparr>
              else c\<lparr>bi_signature2 := patch (bi_signature2 c) 0 (seg data 4 n), bi_sig_len2 := sig_len\<rparr>))
         else Some (BOOT2_SIGNATURE_CRC_ERROR, c))"

definition blsp_boot_parse_aesiv :: "boot_img \<Rightarrow> bytes \<Rightarrow> 'f boot \<Rightarrow> u32 \<times> boot_img \<times> 'f boot" where
  "blsp_boot_parse_aesiv c data s =
     (if rd32 data 16 = BFLB_Soft_CRC32 (seg data 0 16) then
        (BFLB_BOOT2_SUCCESS, c\<lparr>bi_aes_iv := seg data 0 20\<rparr>,
         if bi_hash_ignore c = 0 then hash_write (seg data 0 20) s else s)
      else (BOOT2_AES_IV_CRC_ERROR, c, s))"

text \<open>The verification is called, its result is dropped and the untouched \<open>ret\<close> is tested.\<close>

definition blsp_boot_parser_check_signature :: "'f boot_env \<Rightarrow> boot_img \<Rightarrow> 'f boot \<Rightarrow> u32" where
  "blsp_boot_parser_check_signature env c s =
     (if bt_ps_mode s = BFLB_PSM_HBN \<and> ef_hbn_check_sign (bt_efuse s) = 0 then BFLB_BOOT2_SUCCESS
      else if bi_sign_type c \<noteq> 0 then
        (let ret = 0 :: u32;
             verified = be_ecdsa_verify env (bi_eckye_x c, bi_eckey_y c) (bi_img_hash c)
                          (seg (bi_signature c) 0 32) (seg (bi_signature c) 32 32)
         in if ret \<noteq> 0 then BOOT2_SIGN_ERROR else BFLB_BOOT2_SUCCESS)
      else BFLB_BOOT2_SUCCESS)"

definition blsp_boot_parser_check_hash :: "'f boot_env \<Rightarrow> boot_img \<Rightarrow> 'f boot \<Rightarrow> u32" where
  "blsp_boot_parser_check_hash env c s =
     (if bi_hash_ignore c = 0 then
        if be_sha256 env (bt_hash s) \<noteq> bi_img_hash c then BOOT2_HASH_ERROR else BFLB_BOOT2_SUCCESS
      else BFLB_BOOT2_SUCCESS)"

section \<open>Lemmas\<close>

lemma cpu_loop_start:
  "cpu_loop m 0 = (if m = [0x42, 0x46, 0x4E, 0x50] \<or> m = [0x42, 0x46, 0x41, 0x50] then 0 else 2)"
  by (simp add: cpu_loop.simps [of m 0] cpu_loop.simps [of m "Suc 0"] cpu_loop.simps [of m 2] numeral_2_eq_2 [symmetric])

lemma hash_open_frame [simp]:
  "bt_dev (snd (hash_open env s)) = bt_dev s" "bt_efuse (snd (hash_open env s)) = bt_efuse s"
  "bt_buf (snd (hash_open env s)) = bt_buf s" "bt_img (snd (hash_open env s)) = bt_img s"
  "bt_ps_mode (snd (hash_open env s)) = bt_ps_mode s"
  "bt_user_hash_ignored (snd (hash_open env s)) = bt_user_hash_ignored s"
  "bt_cpu_count (snd (hash_open env s)) = bt_cpu_count s"
  by (simp_all add: hash_open_def)

lemma hash_write_frame [simp]:
  "bt_dev (hash_write b s) = bt_dev s" "bt_efuse (hash_write b s) = bt_efuse s"
  "bt_buf (hash_write b s) = bt_buf s" "bt_img (hash_write b s) = bt_img s" "bt_ps_mode (hash_write b s) = bt_ps_mode s"
  "bt_user_hash_ignored (hash_write b s) = bt_user_hash_ignored s" "bt_cpu_count (hash_write b s) = bt_cpu_count s"
  "bt_hash (hash_write b s) = bt_hash s @ b"
  by (simp_all add: hash_write_def)

lemma word_xor_eq_0: "(a :: 'a::len word) XOR b = 0 \<longleftrightarrow> a = b"
  by (metis xor.assoc xor.left_neutral xor_self_eq xor.right_neutral)

text \<open>What an accepted boot header guarantees.\<close>

lemma parse_bootheader_ok:
  assumes "blsp_boot_parse_bootheader env c h s = (0, c', s')"
  shows "bh_crc_ok h" "bi_cpu_type c' = 0" "bi_img_len c' \<noteq> 0" "bi_img_len c' = bh_segment_cnt h"
    "bi_img_hash c' = bh_hash h" "bi_sign_type c' = ef_sign (bt_efuse s) 0"
    "bi_hash_ignore c' = bh_hash_ignore s h 0 (bh_field h 17 1)"
    "ef_encrypted (bt_efuse s) 0 \<noteq> 0 \<Longrightarrow> bi_encrypt_type c' \<noteq> 0"
    "bi_no_segment c' = bh_field h 8 1" "bi_img_valid c' = 0" "bi_entry_point c' = bh_bootentry h"
    "bi_encrypt_type c' = bh_field h 2 2"
    "s' = s\<lparr>bt_hash := []\<rparr>" "be_hash_found env \<and> be_hash_open env = 0"
  using assms
  by (auto simp: blsp_boot_parse_bootheader_def cpu_loop_start Let_def case_prod_unfold boot2_codes
      bh_take_over_def hash_open_def word_xor_eq_0 split: if_splits)

end
