(* ===== verification/MediaBoot.thy ===== *)
theory MediaBoot
  imports BootParser
begin

text \<open>
  \<open>robot_bootloader/blsp_media_boot.c\<close>, with \<open>blsp_boot2_set_encrypt\<close> of \<open>blsp_port.c\<close> and the
  jump of \<open>blsp_common.c\<close>: an image in flash is read, its header, key, signature and IV are
  parsed, the flash image is hashed, and the accepted image is started.  \<open>None\<close> stands for an
  access outside the 256-byte read buffer, for which the C program has no defined behaviour.
  \<open>blsp_mediaboot_read\<close> always returns success, so the error exits behind the reads are
  never taken and are left out.
\<close>

section \<open>Reading and hashing\<close>

text \<open>A boot read of \<open>n\<close> bytes into the buffer at offset \<open>off\<close>.\<close>

definition boot_read :: "'f boot_env \<Rightarrow> u32 \<Rightarrow> nat \<Rightarrow> nat \<Rightarrow> 'f boot \<Rightarrow> 'f boot option" where
  "boot_read env addr off n s =
     (if off + n > length (bt_buf s) then None
      else Some (s\<lparr>bt_buf := patch (bt_buf s) off
             (snd (blsp_mediaboot_read (be_flash env) addr (seg (bt_buf s) off n) (bt_dev s)))\<rparr>))"

definition BFLB_BOOT2_READBUF_SIZE :: u32 where "BFLB_BOOT2_READBUF_SIZE = 256"

text \<open>
  \<open>read_len = total_len - deal_len; if (read_len > BFLB_BOOT2_READBUF_SIZE) ...\<close> with a signed
  \<open>read_len\<close>.
\<close>

definition hash_piece :: "u32 \<Rightarrow> u32 \<Rightarrow> u32" where
  "hash_piece deal tot = (if sint (tot - deal) > 256 then BFLB_BOOT2_READBUF_SIZE else tot - deal)"

lemma sint_le_uint: "sint (w :: u32) \<le> uint w"
proof -
  have "uint w < 2 ^ LENGTH(32)" by (rule unsigned_less)
  then have t: "take_bit 32 (uint w) = uint w" by (intro take_bit_int_eq_self) simp_all
  have "signed_take_bit 31 (uint w) = take_bit 32 (uint w) - 2 ^ 32 * of_bool (bit (uint w) 31)"
    by (simp add: signed_take_bit_eq_take_bit_minus)
  then show ?thesis unfolding sint_uint t by simp
qed

lemma hash_piece_le: "deal < tot \<Longrightarrow> 0 < unat (hash_piece deal tot) \<and> unat deal + unat (hash_piece deal tot) \<le> unat tot"
proof -
  assume d: "deal < tot"
  then have u: "unat (tot - deal) = unat tot - unat deal" by (intro unat_sub) simp
  have "256 \<le> unat (tot - deal)" if "sint (tot - deal) > 256"
  proof -
    have "256 < uint (tot - deal)" using that sint_le_uint [of "tot - deal"] by (rule less_le_trans)
    then show ?thesis unfolding unat_eq_nat_uint by linarith
  qed
  then show ?thesis using d u by (auto simp: hash_piece_def BFLB_BOOT2_READBUF_SIZE_def word_less_nat_alt)
qed

function cal_hash_loop :: "'f boot_env \<Rightarrow> u32 \<Rightarrow> u32 \<Rightarrow> u32 \<Rightarrow> 'f boot \<Rightarrow> 'f boot option" where
  "cal_hash_loop env addr deal tot s =
     (if deal < tot then
        (let read_len = hash_piece deal tot
         in case boot_read env addr 0 (unat read_len) s of
              None \<Rightarrow> None
            | Some s1 \<Rightarrow> cal_hash_loop env (addr + read_len) (deal + read_len) tot
                           (hash_write (seg (bt_buf s1) 0 (unat read_len)) s1))
      else Some s)"
  by pat_completeness auto
termination
proof (relation "measure (\<lambda>(e, a, d, t, s). unat t - unat d)")
  fix env :: "'f boot_env" and addr deal tot read_len :: u32 and s s1 :: "'f boot"
  assume d: "deal < tot" and r: "read_len = hash_piece deal tot"
  have "unat (deal + read_len) = unat deal + unat read_len"
    using hash_piece_le [OF d] unsigned_less [of tot, where 'a = nat]
    by (subst unat_add_lt) (auto simp: r)
  then show "((env, addr + read_len, deal + read_len, tot, hash_write (seg (bt_buf s1) 0 (unat read_len)) s1),
      (env, addr, deal, tot, s)) \<in> measure (\<lambda>(e, a, d, t, s). unat t - unat d)"
    using hash_piece_le [OF d] by (simp add: r) linarith
qed simp

declare cal_hash_loop.simps [simp del]

definition blsp_mediaboot_cal_hash :: "'f boot_env \<Rightarrow> u32 \<Rightarrow> u32 \<Rightarrow> 'f boot \<Rightarrow> 'f boot option" where
  "blsp_mediaboot_cal_hash env start_addr total_len s = cal_hash_loop env start_addr 0 total_len s"

text \<open>
  Reading a signature: the length goes to a local variable, the data and checksum behind the
  place of the length in the buffer.  The second component is the length handed to the
  caller, which is unchanged (0) when the length is refused.
\<close>

definition blsp_mediaboot_read_signaure :: "'f boot_env \<Rightarrow> u32 \<Rightarrow> 'f boot \<Rightarrow> (u32 \<times> u32 \<times> 'f boot) option" where
  "blsp_mediaboot_read_signaure env addr s =
     (let sig_len = rd32 (snd (blsp_mediaboot_read (be_flash env) addr [0, 0, 0, 0] (bt_dev s))) 0
      in if sig_len > 256 then Some (BOOT2_SIGNATURE_LEN_ERROR, 0, s)
         else case boot_read env (addr + 4) 4 (unat (sig_len + 4)) s of
                None \<Rightarrow> None
              | Some s1 \<Rightarrow> Some (BFLB_BOOT2_SUCCESS, sig_len, s1\<lparr>bt_buf := patch (bt_buf s1) 0 (le32 sig_len)\<rparr>))"

section \<open>Parsing one firmware\<close>

text \<open>
  The public key and signature of a signed image; the result of \<open>blsp_mediaboot_read_signaure\<close>
  is not looked at.  The second component is the address behind what was read.
\<close>

definition parse_fw_sign ::
  "'f boot_env \<Rightarrow> boot_img \<Rightarrow> u32 \<Rightarrow> 'f boot \<Rightarrow> (u32 \<times> u32 \<times> boot_img \<times> 'f boot) option" where
  "parse_fw_sign env c addr s =
     (if bi_sign_type c = 0 then Some (BFLB_BOOT2_SUCCESS, addr, c, s)
      else
        (case boot_read env addr 0 68 s of
           None \<Rightarrow> None
         | Some s1 \<Rightarrow>
             (let addr1 = addr + 68; (r, c1, s2) = blsp_boot_parse_pkey env c (bt_buf s1) True s1
              in if r \<noteq> BFLB_BOOT2_SUCCESS then Some (r, addr1, c1, s2)
                 else
                   (case blsp_mediaboot_read_signaure env addr1 s2 of
                      None \<Rightarrow> None
                    | Some (r1, sig_len, s3) \<Rightarrow>
                        (case blsp_boot_parse_signature c1 (bt_buf s3) True of
                           None \<Rightarrow> None
                         | Some (r2, c2) \<Rightarrow> Some (r2, addr1 + 4 + (sig_len + 4), c2, s3))))))"

definition parse_fw_aes ::
  "'f boot_env \<Rightarrow> boot_img \<Rightarrow> u32 \<Rightarrow> 'f boot \<Rightarrow> (u32 \<times> boot_img \<times> 'f boot) option" where
  "parse_fw_aes env c addr s =
     (if bi_encrypt_type c = 0 then Some (BFLB_BOOT2_SUCCESS, c, s)
      else (case boot_read env addr 0 20 s of
              None \<Rightarrow> None
            | Some s1 \<Rightarrow> Some (blsp_boot_parse_aesiv c (bt_buf s1) s1)))"

definition parse_fw_hash ::
  "'f boot_env \<Rightarrow> boot_img \<Rightarrow> u32 \<Rightarrow> 'f boot \<Rightarrow> (u32 \<times> boot_img \<times> 'f boot) option" where
  "parse_fw_hash env c img_addr s =
     (if bi_no_segment c = 0 then Some (BFLB_BOOT2_SUCCESS, c\<lparr>bi_img_valid := 0\<rparr>, s)
      else
        (case (if bi_hash_ignore c \<noteq> 0 then Some (BFLB_BOOT2_SUCCESS, s)
               else case blsp_mediaboot_cal_hash env img_addr (bi_img_len c) s of
                      None \<Rightarrow> None
                    | Some s1 \<Rightarrow> Some (blsp_boot_parser_check_hash env c s1, s1)) of
           None \<Rightarrow> None
         | Some (r, s1) \<Rightarrow>
             if r \<noteq> BFLB_BOOT2_SUCCESS then Some (r, c, s1)
             else
               (let r2 = blsp_boot_parser_check_signature env c s1
                in if r2 \<noteq> BFLB_BOOT2_SUCCESS then Some (r2, c, s1)
                   else Some (r2, c\<lparr>bi_img_valid := 1\<rparr>, s1))))"

definition blsp_mediaboot_parse_one_fw ::
  "'f boot_env \<Rightarrow> boot_img \<Rightarrow> u32 \<Rightarrow> u32 \<Rightarrow> 'f boot \<Rightarrow> (u32 \<times> boot_img \<times> 'f boot) option" where
  "blsp_mediaboot_parse_one_fw env c boot_header_addr img_addr s =
     (case boot_read env boot_header_addr 0 BOOTHEADER_SIZE s of
        None \<Rightarrow> None
      | Some s1 \<Rightarrow>
          (let (r, c1, s2) = blsp_boot_parse_bootheader env c (bt_buf s1) s1
           in if r \<noteq> BFLB_BOOT2_SUCCESS then Some (r, c1, s2)
              else
                (case parse_fw_sign env (c1\<lparr>bi_flash_offset := img_addr\<rparr>)
                        (boot_header_addr + word_of_nat BOOTHEADER_SIZE) s2 of
                   None \<Rightarrow> None
                 | Some (r3, addr, c3, s3) \<Rightarrow>
                     if r3 \<noteq> BFLB_BOOT2_SUCCESS then Some (r3, c3, s3)
                     else
                       (case parse_fw_aes env c3 addr s3 of
                          None \<Rightarrow> None
                        | Some (r4, c4, s4) \<Rightarrow>
                            if r4 \<noteq> BFLB_BOOT2_SUCCESS then Some (r4, c4, s4)
                            else parse_fw_hash env c4 img_addr s4))))"

section \<open>Starting the image\<close>

text \<open>The AES region \<open>blsp_boot2_set_encrypt\<close> programs: index, key type, IV, first and last address, lock.\<close>

record aes_region =
  ar_index :: u8
  ar_key_type :: u8
  ar_iv :: bytes
  ar_start :: u32
  ar_end :: u32
  ar_lock :: u8

definition blsp_boot2_set_encrypt :: "u8 \<Rightarrow> boot_img \<Rightarrow> aes_region list" where
  "blsp_boot2_set_encrypt index c =
     (if bi_encrypt_type c \<noteq> 0 \<and> bi_img_len c \<noteq> 0 then
        [\<lparr>ar_index = index, ar_key_type = bi_encrypt_type c - 1, ar_iv = bi_aes_iv c,
          ar_start = bi_flash_offset c, ar_end = bi_flash_offset c + bi_img_len c - 1,
          ar_lock = bi_aes_region_lock c\<rparr>]
      else [])"

text \<open>
  How booting ends: with a return code, at an entry point (with the stack pointer and the
  AES regions set up before), or waiting for ever.
\<close>

datatype boot_exit = BRet u32 | BJump u32 u32 "aes_region list" | BStay

definition BLSP_BOOT2_CP_FLAG :: u8 where "BLSP_BOOT2_CP_FLAG = 2"

definition cp_copy :: "(nat \<Rightarrow> boot_img) \<Rightarrow> (nat \<Rightarrow> boot_img)" where
  "cp_copy g = g(1 := (g 1)\<lparr>bi_flash_offset := bi_flash_offset (g 0), bi_msp_val := bi_msp_val (g 0),
     bi_entry_point := bi_entry_point (g 0), bi_cache_enable := bi_cache_enable (g 0),
     bi_img_valid := 1, bi_cache_way_disable := 0xf\<rparr>)"

text \<open>
  The jump.  \<open>set_cache\<close> is \<open>flash_set_cache\<close> (continuous read, cache enable, ways, offset); on
  this single-core chip releasing the other CPU is an empty function.
\<close>

definition blsp_boot2_jump_entry ::
  "'f boot_env \<Rightarrow> (u8 \<Rightarrow> u8 \<Rightarrow> u8 \<Rightarrow> u32 \<Rightarrow> u32) \<Rightarrow> 'f boot \<Rightarrow> boot_exit \<times> 'f boot" where
  "blsp_boot2_jump_entry env set_cache s =
     (let c0 = bt_img s 0; enc = ef_encrypted (bt_efuse s) 0 \<noteq> 0;
          ret = set_cache (if enc then 0 else 1) (bi_cache_enable c0) (bi_cache_way_disable c0) (bi_flash_offset c0)
      in if ret \<noteq> BFLB_BOOT2_SUCCESS then (BRet BFLB_BOOT2_SUCCESS, s)
         else
           (let aes = (if enc then blsp_boot2_set_encrypt 0 c0 @ blsp_boot2_set_encrypt 1 (bt_img s 1) else []);
                s1 = (if enc \<and> be_feature_flag env = BLSP_BOOT2_CP_FLAG
                      then s\<lparr>bt_img := cp_copy (bt_img s)\<rparr> else s)
            in (if bi_img_valid c0 \<noteq> 0 \<and> bi_entry_point c0 \<noteq> 0
                then BJump (bi_entry_point c0) (bi_msp_val c0) aes else BStay, s1)))"

definition boot_img_zero :: boot_img where
  "boot_img_zero = \<lparr>bi_encrypt_type = 0, bi_sign_type = 0, bi_key_sel = 0, bi_img_valid = 0, bi_no_segment = 0,
     bi_cache_enable = 0, bi_cache_way_disable = 0, bi_hash_ignore = 0, bi_aes_region_lock = 0,
     bi_halt_cpu1 = 0, bi_cpu_type = 0, bi_img_len = 0, bi_msp_val = 0, bi_entry_point = 0,
     bi_flash_offset = 0, bi_sig_len = 0, bi_sig_len2 = 0, bi_img_hash = replicate 32 0,
     bi_aes_iv = replicate 20 0, bi_eckye_x = replicate 32 0, bi_eckey_y = replicate 32 0,
     bi_signature = replicate 256 0, bi_signature2 = replicate 256 0\<rparr>"

definition BFLB_FW_IMG_OFFSET_AFTER_HEADER :: u32 where "BFLB_FW_IMG_OFFSET_AFTER_HEADER = 4 * 1024"

text \<open>The loop over the CPUs: the images, the roll-back flags and the number of images found.\<close>

fun mediaboot_cpus ::
  "'f boot_env \<Rightarrow> (nat \<Rightarrow> u32) \<Rightarrow> nat list \<Rightarrow> (nat \<Rightarrow> u8) \<Rightarrow> nat \<Rightarrow> 'f boot \<Rightarrow> ((nat \<Rightarrow> u8) \<times> nat \<times> 'f boot) option" where
  "mediaboot_cpus env hdr [] rb found s = Some (rb, found, s)"
| "mediaboot_cpus env hdr (i # is) rb found s =
     (if hdr i = 0 then mediaboot_cpus env hdr is rb found s
      else
        (case blsp_mediaboot_parse_one_fw env (bt_img s i) (hdr i) (hdr i + BFLB_FW_IMG_OFFSET_AFTER_HEADER) s of
           None \<Rightarrow> None
         | Some (r, c, s1) \<Rightarrow>
             (let s2 = s1\<lparr>bt_img := (bt_img s1)(i := c)\<rparr>
              in if r \<noteq> BFLB_BOOT2_SUCCESS then mediaboot_cpus env hdr is (rb(i := 1)) found s2
                 else mediaboot_cpus env hdr is rb (found + 1) s2)))"

text \<open>\<open>entry_point = (uint32_t)main & 0xff000000\<close> for valid images without an entry point.\<close>

definition fix_entries :: "'f boot_env \<Rightarrow> 'f boot \<Rightarrow> 'f boot" where
  "fix_entries env s = s\<lparr>bt_img := (\<lambda>i. if i < bt_cpu_count s \<and> bi_img_valid (bt_img s i) \<noteq> 0
       \<and> bi_entry_point (bt_img s i) = 0
     then (bt_img s i)\<lparr>bi_entry_point := be_main env AND 0xff000000\<rparr> else bt_img s i)\<rparr>"

text \<open>
  The boot process.  \<open>visit\<close> is the stop at the download protocol before the jump (the
  handshake poll and, if a host answers, its command loop, when it comes back).
\<close>

definition blsp_mediaboot_main ::
  "'f boot_env \<Rightarrow> (u8 \<Rightarrow> u8 \<Rightarrow> u8 \<Rightarrow> u32 \<Rightarrow> u32) \<Rightarrow> ('f boot \<Rightarrow> 'f boot) \<Rightarrow> (nat \<Rightarrow> u32) \<Rightarrow> bool \<Rightarrow> 'f boot
   \<Rightarrow> (boot_exit \<times> (nat \<Rightarrow> u8) \<times> 'f boot) option" where
  "blsp_mediaboot_main env set_cache visit hdr roll_back s =
     (case mediaboot_cpus env hdr [0..<bt_cpu_count s] (\<lambda>i. 0) 0 (s\<lparr>bt_img := (\<lambda>i. boot_img_zero)\<rparr>) of
        None \<Rightarrow> None
      | Some (rb, found, s1) \<Rightarrow>
          if found \<noteq> bt_cpu_count s \<and> roll_back \<and> \<not> (rb 0 = 0 \<and> found = 1)
          then Some (BRet BOOT2_Roll_Back, rb, s1)
          else if found = 0 then Some (BRet BOOT2_ALL_INVALID_ERROR, rb, s1)
          else
            (let s2 = fix_entries env s1;
                 s3 = (if be_feature_flag env = BLSP_BOOT2_CP_FLAG
                       then s2\<lparr>bt_img := cp_copy (bt_img s2)\<rparr> else s2);
                 (e, s4) = blsp_boot2_jump_entry env set_cache (visit s3)
             in Some (if e = BRet BFLB_BOOT2_SUCCESS then BRet BFLB_BOOT2_FAIL else e, rb, s4)))"

section \<open>The reads and the image hash\<close>

lemma int_unat_eq: "int (unat w) = uint w"
  unfolding unat_eq_nat_uint by (rule nat_0_le) simp

lemma sint_small: "unat (w :: u32) < 2 ^ 31 \<Longrightarrow> sint w = int (unat w)"
proof -
  assume "unat w < 2 ^ 31"
  then have "int (unat w) < int (2 ^ 31)" by (simp only: of_nat_less_iff)
  then have "uint w < 2 ^ 31" by (simp only: int_unat_eq of_nat_power of_nat_numeral)
  then have "signed_take_bit 31 (uint w) = uint w" by (intro signed_take_bit_int_eq_self) (rule order_trans [OF _ uint_ge_0], simp_all)
  then show ?thesis unfolding int_unat_eq by (simp add: sint_uint)
qed

lemma sint_big: "2 ^ 31 \<le> unat (w :: u32) \<Longrightarrow> sint w < 0"
proof -
  assume w: "2 ^ 31 \<le> unat w"
  have u: "uint w < 2 ^ LENGTH(32)" by (rule unsigned_less)
  then have t: "take_bit 32 (uint w) = uint w" by (intro take_bit_int_eq_self) simp_all
  have "int (2 ^ 31) \<le> int (unat w)" using w by (simp only: of_nat_le_iff)
  then have "2 ^ 31 \<le> uint w" by (simp only: int_unat_eq of_nat_power of_nat_numeral)
  then have "uint w div 2 ^ 31 = 1" using u by simp
  then have b: "bit (uint w) 31" by (simp add: bit_iff_odd)
  have "sint w = take_bit 32 (uint w) - 2 ^ 32"
    by (simp add: sint_uint signed_take_bit_eq_take_bit_minus b)
  then show ?thesis using u unfolding t by simp
qed

lemma hash_piece_small:
  assumes "deal \<le> tot" "unat tot - unat deal < 2 ^ 31"
  shows "unat (hash_piece deal tot) = min 256 (unat tot - unat deal)"
proof -
  have u: "unat (tot - deal) = unat tot - unat deal" using assms(1) by (rule unat_sub)
  have "sint (tot - deal) = int (unat tot - unat deal)"
    using sint_small [of "tot - deal"] assms(2) unfolding u by simp
  then show ?thesis using u by (auto simp: hash_piece_def BFLB_BOOT2_READBUF_SIZE_def)
qed

lemma boot_read_ok:
  assumes "xip_device (be_flash env) cell" "off + n \<le> length (bt_buf s)" "unat addr + n \<le> 2 ^ 24"
  shows "boot_read env addr off n s = Some (s\<lparr>bt_buf := patch (bt_buf s) off (image_at (cell (bt_dev s)) (unat addr) n)\<rparr>)"
  using xip_device.mediaboot_read [OF assms(1), of addr "seg (bt_buf s) off n" "bt_dev s"] assms(2,3)
  by (simp add: boot_read_def)

lemma cal_hash_image:
  assumes "xip_device (be_flash env) cell" "length (bt_buf s) = 256" "deal \<le> tot"
    "unat addr + (unat tot - unat deal) \<le> 2 ^ 24"
  shows "\<exists>b. length b = 256 \<and> cal_hash_loop env addr deal tot s = Some (s\<lparr>bt_buf := b,
    bt_hash := bt_hash s @ image_at (cell (bt_dev s)) (unat addr) (unat tot - unat deal)\<rparr>)"
  using assms
proof (induction "unat tot - unat deal" arbitrary: addr deal s rule: less_induct)
  case less
  show ?case
  proof (cases "deal < tot")
    case False
    then have "deal = tot" using less.prems(3) by simp
    then show ?thesis using less.prems(2) by (auto simp: cal_hash_loop.simps image_at_def intro!: exI [of _ "bt_buf s"])
  next
    case True
    define r where "r = hash_piece deal tot"
    have big: "unat tot - unat deal < 2 ^ 31" using less.prems(4) by simp
    have r: "unat r = min 256 (unat tot - unat deal)"
      unfolding r_def by (rule hash_piece_small [OF less.prems(3) big])
    have r0: "0 < unat r" "unat deal + unat r \<le> unat tot" using hash_piece_le [OF True] by (simp_all add: r_def)
    have ud: "unat (deal + r) = unat deal + unat r"
      using r0 unsigned_less [of tot, where 'a = nat] by (subst unat_add_lt) auto
    have ua: "unat (addr + r) = unat addr + unat r"
      using less.prems(4) r r0 by (subst unat_add_lt) auto
    let ?im = "image_at (cell (bt_dev s)) (unat addr) (unat r)"
    let ?s1 = "hash_write ?im (s\<lparr>bt_buf := patch (bt_buf s) 0 ?im\<rparr>)"
    have read: "boot_read env addr 0 (unat r) s = Some (s\<lparr>bt_buf := patch (bt_buf s) 0 ?im\<rparr>)"
      using boot_read_ok [OF less.prems(1), of 0 "unat r" s addr] less.prems(2,4) r by simp
    have sg: "seg (patch (bt_buf s) 0 ?im) 0 (unat r) = ?im" using less.prems(2) r by (simp add: seg_patch_same)
    have "\<exists>b. length b = 256 \<and> cal_hash_loop env (addr + r) (deal + r) tot ?s1 = Some (?s1\<lparr>bt_buf := b,
        bt_hash := bt_hash ?s1 @ image_at (cell (bt_dev ?s1)) (unat (addr + r)) (unat tot - unat (deal + r))\<rparr>)"
    proof (rule less.hyps)
      show "unat tot - unat (deal + r) < unat tot - unat deal" using ud r0 True by (simp add: word_less_nat_alt)
      show "length (bt_buf ?s1) = 256" using less.prems(2) r by (simp add: hash_write_def)
      show "deal + r \<le> tot" using ud r0 by (simp add: word_le_nat_alt)
      show "unat (addr + r) + (unat tot - unat (deal + r)) \<le> 2 ^ 24" using ua ud less.prems(4) r0 by linarith
    qed (rule less.prems(1))
    then obtain b where b: "length b = 256" "cal_hash_loop env (addr + r) (deal + r) tot ?s1 = Some (?s1\<lparr>bt_buf := b,
        bt_hash := bt_hash ?s1 @ image_at (cell (bt_dev ?s1)) (unat (addr + r)) (unat tot - unat (deal + r))\<rparr>)"
      by blast
    have im: "?im @ image_at (cell (bt_dev s)) (unat addr + unat r) (unat tot - unat deal - unat r)
        = image_at (cell (bt_dev s)) (unat addr) (unat tot - unat deal)"
      using r0 by (simp add: image_at_append)
    have "cal_hash_loop env addr deal tot s = cal_hash_loop env (addr + r) (deal + r) tot ?s1"
      using True read sg by (subst cal_hash_loop.simps) (simp add: Let_def flip: r_def)
    then show ?thesis using b im by (intro exI [of _ b]) (simp add: ua ud hash_write_def)
  qed
qed

lemma cal_hash_overflow:
  assumes "length (bt_buf s) = 256" "2 ^ 31 \<le> unat tot"
  shows "blsp_mediaboot_cal_hash env addr tot s = None"
proof -
  have n: "\<not> sint tot > 256" using sint_big [OF assms(2)] by linarith
  then have "hash_piece 0 tot = tot" by (simp add: hash_piece_def)
  moreover have "0 < tot" using assms(2) by (auto simp: word_less_nat_alt)
  moreover have "256 < unat tot" using assms(2) by simp
  ultimately show ?thesis
    using assms(1) by (subst blsp_mediaboot_cal_hash_def, subst cal_hash_loop.simps) (simp add: boot_read_def)
qed

section \<open>What the parsing steps keep and guarantee\<close>

text \<open>The parts of an image configuration that the steps behind the header do not change.\<close>

definition same_fw :: "boot_img \<Rightarrow> boot_img \<Rightarrow> bool" where
  "same_fw c d \<longleftrightarrow> bi_img_len c = bi_img_len d \<and> bi_img_hash c = bi_img_hash d \<and>
     bi_hash_ignore c = bi_hash_ignore d \<and> bi_no_segment c = bi_no_segment d \<and>
     bi_encrypt_type c = bi_encrypt_type d \<and> bi_sign_type c = bi_sign_type d \<and> bi_cpu_type c = bi_cpu_type d \<and>
     bi_flash_offset c = bi_flash_offset d \<and> bi_entry_point c = bi_entry_point d"

definition same_boot :: "'f boot \<Rightarrow> 'f boot \<Rightarrow> bool" where
  "same_boot s t \<longleftrightarrow> bt_dev s = bt_dev t \<and> bt_efuse s = bt_efuse t \<and> bt_ps_mode s = bt_ps_mode t \<and>
     bt_user_hash_ignored s = bt_user_hash_ignored t \<and> bt_img s = bt_img t \<and> bt_cpu_count s = bt_cpu_count t"

lemma same_boot_refl [simp]: "same_boot s s"
  "same_boot (s\<lparr>bt_buf := b\<rparr>) t \<longleftrightarrow> same_boot s t" "same_boot (s\<lparr>bt_hash := x\<rparr>) t \<longleftrightarrow> same_boot s t"
  "same_boot (hash_write x s) t \<longleftrightarrow> same_boot s t"
  by (simp_all add: same_boot_def)

text \<open>The signature length the reader hands on: the word in flash, or 0 when that is refused.\<close>

definition flash_sig_len :: "(nat \<Rightarrow> u8) \<Rightarrow> nat \<Rightarrow> u32" where
  "flash_sig_len m a = (let n = rd32 (image_at m a 4) 0 in if n > 256 then 0 else n)"

text \<open>
  Where the AES IV of a signed image lies: behind the header, the public key with its checksum,
  the length field, the signature and its checksum.
\<close>

definition flash_iv_at :: "(nat \<Rightarrow> u8) \<Rightarrow> nat \<Rightarrow> nat" where
  "flash_iv_at m a = a + BOOTHEADER_SIZE + 68 + 4 + unat (flash_sig_len m (a + BOOTHEADER_SIZE + 68)) + 4"

lemma read_signature_ok:
  assumes xip: "xip_device (be_flash env) cell" and buf: "length (bt_buf s) = 256" "unat addr + 264 \<le> 2 ^ 24"
    and sg: "blsp_mediaboot_read_signaure env addr s = Some (r, n, s')"
  shows "same_boot s' s \<and> bt_hash s' = bt_hash s \<and> length (bt_buf s') = 256 \<and> n \<le> 256 \<and>
    n = flash_sig_len (cell (bt_dev s)) (unat addr)"
proof -
  define m where "m = rd32 (snd (blsp_mediaboot_read (be_flash env) addr [0, 0, 0, 0] (bt_dev s))) 0"
  have fm: "flash_sig_len (cell (bt_dev s)) (unat addr) = (if m > 256 then 0 else m)"
  proof -
    have "length [0, 0, 0, 0 :: u8] = 4" by simp
    then show ?thesis
      using xip_device.mediaboot_read [OF xip, of addr "[0, 0, 0, 0]" "bt_dev s"] buf(2)
      by (simp only: flash_sig_len_def m_def Let_def) simp
  qed
  show ?thesis
  proof (cases "m > 256")
    case True
    then show ?thesis using sg buf fm by (auto simp: blsp_mediaboot_read_signaure_def Let_def m_def)
  next
    case m: False
    then have m': "unat m \<le> 256" by (simp add: word_le_nat_alt not_less)
    then have m4: "unat (m + 4) = unat m + 4" by (subst unat_add_lt) simp_all
    have a4: "unat (addr + 4) = unat addr + 4" using buf by (subst unat_add_lt) simp_all
    have fit: "4 + (unat m + 4) \<le> 256"
    proof (rule ccontr)
      assume "\<not> 4 + (unat m + 4) \<le> 256"
      then have "boot_read env (addr + 4) 4 (unat (m + 4)) s = None" by (simp add: boot_read_def m4 buf)
      then show False using sg m by (simp add: blsp_mediaboot_read_signaure_def Let_def flip: m_def)
    qed
    then have "boot_read env (addr + 4) 4 (unat (m + 4)) s = Some (s\<lparr>bt_buf := patch (bt_buf s) 4
        (image_at (cell (bt_dev s)) (unat (addr + 4)) (unat m + 4))\<rparr>)"
      unfolding m4 by (intro boot_read_ok [OF xip]) (use buf a4 in simp_all)
    then show ?thesis
      using sg m buf fit fm by (auto simp: blsp_mediaboot_read_signaure_def Let_def simp flip: m_def)
  qed
qed

lemma parse_fw_sign_ok:
  assumes xip: "xip_device (be_flash env) cell" and buf: "length (bt_buf s) = 256" "unat addr + 356 \<le> 2 ^ 24"
    and st: "bt_hash s = []" and ok: "parse_fw_sign env c addr s = Some (0, addr', c', s')"
  shows "bt_hash s' = [] \<and> same_boot s' s \<and> length (bt_buf s') = 256 \<and> same_fw c' c \<and> unat addr' + 24 \<le> 2 ^ 24 \<and>
    (bi_sign_type c \<noteq> 0 \<longrightarrow> blsp_boot_parse_is_pkhash_valid (bt_efuse s) (bi_cpu_type c)
       (be_sha256 env (image_at (cell (bt_dev s)) (unat addr) 64)) \<and>
       unat addr' = unat addr + 76 + unat (flash_sig_len (cell (bt_dev s)) (unat addr + 68)))"
proof (cases "bi_sign_type c = 0")
  case True
  then show ?thesis using ok st buf by (simp add: parse_fw_sign_def same_fw_def)
next
  case False
  let ?im = "image_at (cell (bt_dev s)) (unat addr) 68"
  define s1 where "s1 = s\<lparr>bt_buf := patch (bt_buf s) 0 ?im\<rparr>"
  have r1: "boot_read env addr 0 68 s = Some s1"
    using boot_read_ok [OF xip, of 0 68 s addr] buf by (simp add: s1_def)
  have im: "seg (bt_buf s1) 0 64 = image_at (cell (bt_dev s)) (unat addr) 64"
    using buf by (simp add: s1_def patch_def seg_def take_image_at)
  obtain r c1 s2 where pk: "blsp_boot_parse_pkey env c (bt_buf s1) True s1 = (r, c1, s2)" by (metis prod_cases3)
  have r0: "r = 0" using ok False r1 pk by (auto simp: parse_fw_sign_def Let_def boot2_codes split: if_splits)
  have p: "blsp_boot_parse_is_pkhash_valid (bt_efuse s) (bi_cpu_type c) (be_sha256 env (seg (bt_buf s1) 0 64))"
    "bt_hash s2 = []" "same_boot s2 s" "bt_buf s2 = bt_buf s1" "same_fw c1 c"
    using pk st unfolding r0
    by (auto simp: blsp_boot_parse_pkey_def Let_def case_prod_unfold hash_open_def boot2_codes s1_def same_fw_def
        same_boot_def split: if_splits)
  have l1: "length (bt_buf s2) = 256" using p(4) buf by (simp add: s1_def)
  define a1 where "a1 = addr + 68"
  have a1: "unat a1 = unat addr + 68" using buf unfolding a1_def by (subst unat_add_lt) simp_all
  obtain r2 n s3 where sg: "blsp_mediaboot_read_signaure env a1 s2 = Some (r2, n, s3)"
    using ok False r1 pk r0 by (auto simp: parse_fw_sign_def Let_def boot2_codes a1_def split: if_splits option.splits)
  have q: "same_boot s3 s \<and> bt_hash s3 = [] \<and> length (bt_buf s3) = 256 \<and> n \<le> 256 \<and>
      n = flash_sig_len (cell (bt_dev s)) (unat addr + 68)"
    using read_signature_ok [OF xip l1 _ sg] a1 buf p(2,3) by (auto simp: same_boot_def)
  obtain c2 where c2: "blsp_boot_parse_signature c1 (bt_buf s3) True = Some (0, c2)"
    and fin: "addr' = a1 + 4 + (n + 4)" "c' = c2" "s' = s3"
    using ok False r1 pk r0 sg by (auto simp: parse_fw_sign_def Let_def boot2_codes a1_def split: if_splits option.splits)
  have "same_fw c2 c1"
    using c2 by (auto simp: blsp_boot_parse_signature_def Let_def same_fw_def boot2_codes split: if_splits)
  then have fw: "same_fw c' c" using p(5) fin by (simp add: same_fw_def)
  have n: "unat n \<le> 256" using q by (auto simp: word_le_nat_alt)
  have "unat (n + 4) = unat n + 4" using n by (subst unat_add_lt) simp_all
  moreover have "unat (a1 + 4) = unat addr + 72" using buf a1 by (subst unat_add_lt) simp_all
  ultimately have "unat addr' = unat addr + 72 + (unat n + 4)"
    using n buf unfolding fin by (subst unat_add_lt) simp_all
  moreover from this have "unat addr' + 24 \<le> 2 ^ 24" using n buf(2) by linarith
  ultimately show ?thesis using q fw p(1) im fin(2,3) by simp
qed

lemma parse_fw_aes_ok:
  assumes xip: "xip_device (be_flash env) cell" and buf: "length (bt_buf s) = 256" "unat addr + 20 \<le> 2 ^ 24"
    and ok: "parse_fw_aes env c addr s = Some (0, c', s')"
  shows "same_boot s' s \<and> length (bt_buf s') = 256 \<and> same_fw c' c \<and>
    (bi_hash_ignore c = 0 \<longrightarrow> bt_hash s' = bt_hash s @
       (if bi_encrypt_type c = 0 then [] else image_at (cell (bt_dev s)) (unat addr) 20))"
proof (cases "bi_encrypt_type c = 0")
  case True
  then show ?thesis using ok buf by (simp add: parse_fw_aes_def same_fw_def)
next
  case False
  let ?im = "image_at (cell (bt_dev s)) (unat addr) 20"
  have r: "boot_read env addr 0 20 s = Some (s\<lparr>bt_buf := patch (bt_buf s) 0 ?im\<rparr>)"
    using boot_read_ok [OF xip, of 0 20 s addr] buf by simp
  have "seg (patch (bt_buf s) 0 ?im) 0 20 = ?im" using buf by (simp add: seg_patch_same)
  then show ?thesis
    using ok False buf
    by (auto simp: parse_fw_aes_def r blsp_boot_parse_aesiv_def boot2_codes same_fw_def split: if_splits)
qed

lemma parse_fw_hash_ok:
  assumes xip: "xip_device (be_flash env) cell" and buf: "length (bt_buf s) = 256"
      "unat addr + unat (bi_img_len c) \<le> 2 ^ 24"
    and ok: "parse_fw_hash env c addr s = Some (0, c', s')" "bi_img_valid c' = 1" "bi_hash_ignore c = 0"
  shows "same_fw c' c \<and> same_boot s' s \<and>
    be_sha256 env (bt_hash s @ image_at (cell (bt_dev s)) (unat addr) (unat (bi_img_len c))) = bi_img_hash c"
proof -
  obtain b where h: "blsp_mediaboot_cal_hash env addr (bi_img_len c) s = Some (s\<lparr>bt_buf := b,
      bt_hash := bt_hash s @ image_at (cell (bt_dev s)) (unat addr) (unat (bi_img_len c))\<rparr>)"
    using cal_hash_image [OF xip buf(1), of 0 "bi_img_len c" addr] buf(2)
    by (auto simp: blsp_mediaboot_cal_hash_def)
  show ?thesis
    using ok h
    by (auto simp: parse_fw_hash_def Let_def blsp_boot_parser_check_hash_def boot2_codes same_fw_def split: if_splits)
qed

text \<open>The steps behind an accepted header, for an accepted flash image.\<close>

lemma parse_one_fw_steps:
  assumes ok: "blsp_mediaboot_parse_one_fw env c ha ia s = Some (0, c', s')"
  obtains s1 c1 s2 a3 c3 s3 c4 s4 where
    "boot_read env ha 0 BOOTHEADER_SIZE s = Some s1"
    "blsp_boot_parse_bootheader env c (bt_buf s1) s1 = (0, c1, s2)"
    "parse_fw_sign env (c1\<lparr>bi_flash_offset := ia\<rparr>) (ha + word_of_nat BOOTHEADER_SIZE) s2 = Some (0, a3, c3, s3)"
    "parse_fw_aes env c3 a3 s3 = Some (0, c4, s4)"
    "parse_fw_hash env c4 ia s4 = Some (0, c', s')"
  using ok
  by (auto simp: blsp_mediaboot_parse_one_fw_def Let_def boot2_codes split: option.splits if_splits prod.splits)

text \<open>The header accessors only look at the first 176 bytes of the buffer.\<close>

lemma header_prefix:
  assumes "seg buf 0 BOOTHEADER_SIZE = h" "BOOTHEADER_SIZE \<le> length buf"
  shows "bh_crc_ok buf = bh_crc_ok h" "bh_hash buf = bh_hash h" "bh_segment_cnt buf = bh_segment_cnt h"
    "bh_field buf lo n = bh_field h lo n" "rd32 buf 132 = rd32 h 132" "bh_bootentry buf = bh_bootentry h"
    "bh_magiccode buf = bh_magiccode h"
proof -
  have nth: "h ! i = buf ! i" if "i < 176" for i
    using assms that by (auto simp: seg_def BOOTHEADER_SIZE_def)
  have len: "length h = 176" using assms by (auto simp: seg_def BOOTHEADER_SIZE_def)
  have sg: "seg h p n = seg buf p n" if "p + n \<le> 176" for p n
    using assms that len by (intro nth_equalityI) (auto simp: seg_def BOOTHEADER_SIZE_def)
  show "bh_crc_ok buf = bh_crc_ok h" "bh_hash buf = bh_hash h" "bh_segment_cnt buf = bh_segment_cnt h"
    "bh_field buf lo n = bh_field h lo n" "rd32 buf 132 = rd32 h 132" "bh_bootentry buf = bh_bootentry h"
    "bh_magiccode buf = bh_magiccode h"
    by (simp_all add: bh_crc_ok_def bh_field_def bh_bootcfg_def bh_crc32_def bh_hash_def bh_segment_cnt_def
        bh_bootentry_def bh_magiccode_def rd32_def nth sg BOOTHEADER_SIZE_def)
qed

text \<open>Everything an accepted and valid flash image has passed, when hashing was not switched off.\<close>

lemma verified_fw:
  assumes xip: "xip_device (be_flash env) cell" and buf: "length (bt_buf s) = 256"
    and ok: "blsp_mediaboot_parse_one_fw env c ha (ha + 4096) s = Some (0, c', s')" "bi_img_valid c' = 1"
    and h: "h = image_at (cell (bt_dev s)) (unat ha) BOOTHEADER_SIZE"
    and range: "unat ha + 4096 + unat (bh_segment_cnt h) \<le> 2 ^ 24"
    and hash: "bt_user_hash_ignored s = 0" "\<not> (bt_ps_mode s = BFLB_PSM_HBN \<and> ef_hbn_check_sign (bt_efuse s) = 0)"
      "ef_sign (bt_efuse s) 0 \<noteq> 0"
  shows "bh_crc_ok h \<and> bi_img_len c' = bh_segment_cnt h \<and> bi_entry_point c' = bh_bootentry h \<and>
    ef_pk_hash_cpu0 (bt_efuse s) = be_sha256 env (image_at (cell (bt_dev s)) (unat ha + BOOTHEADER_SIZE) 64) \<and>
    be_sha256 env ((if bh_field h 2 2 = 0 then [] else image_at (cell (bt_dev s)) (flash_iv_at (cell (bt_dev s)) (unat ha)) 20)
       @ image_at (cell (bt_dev s)) (unat ha + 4096) (unat (bh_segment_cnt h))) = bh_hash h"
proof -
  from parse_one_fw_steps [OF ok(1)] obtain s1 c1 s2 a3 c3 s3 c4 s4 where
    rd: "boot_read env ha 0 BOOTHEADER_SIZE s = Some s1"
    and bh: "blsp_boot_parse_bootheader env c (bt_buf s1) s1 = (0, c1, s2)"
    and sg: "parse_fw_sign env (c1\<lparr>bi_flash_offset := ha + 4096\<rparr>) (ha + word_of_nat BOOTHEADER_SIZE) s2 = Some (0, a3, c3, s3)"
    and ae: "parse_fw_aes env c3 a3 s3 = Some (0, c4, s4)"
    and hs: "parse_fw_hash env c4 (ha + 4096) s4 = Some (0, c', s')" .
  have s1: "s1 = s\<lparr>bt_buf := patch (bt_buf s) 0 h\<rparr>"
    using boot_read_ok [OF xip, of 0 BOOTHEADER_SIZE s ha] rd buf range by (simp add: h BOOTHEADER_SIZE_def)
  have hl: "length h = 176" by (simp add: h BOOTHEADER_SIZE_def)
  then have pre: "seg (bt_buf s1) 0 BOOTHEADER_SIZE = h" "BOOTHEADER_SIZE \<le> length (bt_buf s1)" "length (bt_buf s1) = 256"
    using buf by (simp_all add: s1 BOOTHEADER_SIZE_def seg_patch_same)
  note b = parse_bootheader_ok [OF bh, unfolded header_prefix [OF pre(1,2)]]
  have ign: "bi_hash_ignore c1 = 0" and e1: "bt_efuse s1 = bt_efuse s"
    using b(7) hash by (simp_all add: bh_hash_ignore_def s1)
  have s2: "length (bt_buf s2) = 256" "bt_hash s2 = []" "same_boot s2 s"
    using b(13) pre by (simp_all add: s1)
  have ua: "unat (ha + word_of_nat BOOTHEADER_SIZE) = unat ha + BOOTHEADER_SIZE"
    using range by (subst unat_add_lt) (simp_all add: BOOTHEADER_SIZE_def)
  have r: "unat (ha + word_of_nat BOOTHEADER_SIZE) + 356 \<le> 2 ^ 24" using range unfolding ua by (simp add: BOOTHEADER_SIZE_def)
  note k = parse_fw_sign_ok [OF xip s2(1) r s2(2) sg]
  have "unat a3 + 20 \<le> 2 ^ 24" using k by simp
  note a = parse_fw_aes_ok [OF xip _ this ae]
  have f4: "same_fw c4 (c1\<lparr>bi_flash_offset := ha + 4096\<rparr>)" using k a by (simp add: same_fw_def)
  have b4: "length (bt_buf s4) = 256" "same_boot s4 s" using k a s2 by (simp_all add: same_boot_def)
  have i: "unat (ha + 4096) = unat ha + 4096" using range by (subst unat_add_lt) simp_all
  have fl: "bi_img_len c' = bi_img_len c4"
    using hs by (auto simp: parse_fw_hash_def Let_def boot2_codes split: option.splits if_splits)
  have l4: "bi_img_len c4 = bh_segment_cnt h" using f4 b(4) by (simp add: same_fw_def)
  have "bi_hash_ignore c4 = 0" using f4 ign by (simp add: same_fw_def)
  from parse_fw_hash_ok [OF xip b4(1) _ hs ok(2) this] have fin: "same_fw c' c4"
    "be_sha256 env (bt_hash s4 @ image_at (cell (bt_dev s4)) (unat ha + 4096) (unat (bi_img_len c4))) = bi_img_hash c4"
    using range l4 unfolding i by simp_all
  have len: "bi_img_len c4 = bh_segment_cnt h" "bi_img_hash c4 = bh_hash h" "bi_encrypt_type c' = bi_encrypt_type c3"
    "bi_entry_point c' = bh_bootentry h"
    using f4 b(4,5,11) fin(1) a k by (simp_all add: same_fw_def)
  have d: "bt_dev s4 = bt_dev s" "bt_dev s3 = bt_dev s" "bt_dev s2 = bt_dev s" "bt_efuse s2 = bt_efuse s"
    using b4(2) s2(3) k by (simp_all add: same_boot_def)
  have "unat a3 = flash_iv_at (cell (bt_dev s)) (unat ha)"
    using k b(6) hash(3) d e1 unfolding ua by (simp add: flash_iv_at_def)
  then have iv: "bt_hash s4 = (if bh_field h 2 2 = 0 then []
      else image_at (cell (bt_dev s)) (flash_iv_at (cell (bt_dev s)) (unat ha)) 20)"
    using a k b(12) ign d by (simp add: same_fw_def)
  have "blsp_boot_parse_is_pkhash_valid (bt_efuse s) 0
      (be_sha256 env (image_at (cell (bt_dev s)) (unat ha + BOOTHEADER_SIZE) 64))"
    using k b(2,6) hash(3) d e1 unfolding ua by simp
  then show ?thesis
    using b(1) fin(2) fl len iv d by (auto simp: blsp_boot_parse_is_pkhash_valid_def)
qed

text \<open>No step of the parsing changes anything but the buffer and the hash device.\<close>

lemma same_boot_trans: "same_boot s t \<Longrightarrow> same_boot t u \<Longrightarrow> same_boot s u"
  by (simp add: same_boot_def)

lemma boot_read_frame: "boot_read env a off n s = Some s' \<Longrightarrow> same_boot s' s"
  by (auto simp: boot_read_def split: if_splits)

lemma cal_hash_frame: "cal_hash_loop env a d l s = Some s' \<Longrightarrow> same_boot s' s"
proof (induction env a d l s rule: cal_hash_loop.induct)
  case (1 env a d l s)
  show ?case
  proof (cases "d < l")
    case True
    obtain s1 where r: "boot_read env a 0 (unat (hash_piece d l)) s = Some s1"
      using "1.prems" True by (subst (asm) cal_hash_loop.simps) (auto simp: Let_def split: option.splits)
    have "cal_hash_loop env (a + hash_piece d l) (d + hash_piece d l) l
        (hash_write (seg (bt_buf s1) 0 (unat (hash_piece d l))) s1) = Some s'"
      using "1.prems" True r by (subst (asm) cal_hash_loop.simps) (simp add: Let_def)
    from "1.IH" [OF True refl r this] show ?thesis
      using boot_read_frame [OF r] by (auto simp: same_boot_def)
  next
    case False
    then show ?thesis using "1.prems" by (simp add: cal_hash_loop.simps)
  qed
qed

lemma parse_pkey_frame: "blsp_boot_parse_pkey env c d own s = (r, c', s') \<Longrightarrow> same_boot s' s"
  by (auto simp: blsp_boot_parse_pkey_def Let_def case_prod_unfold same_boot_def split: if_splits)

lemma parse_bootheader_frame: "blsp_boot_parse_bootheader env c h s = (r, c', s') \<Longrightarrow> same_boot s' s"
  by (auto simp: blsp_boot_parse_bootheader_def Let_def case_prod_unfold same_boot_def split: if_splits)

lemma read_signature_frame: "blsp_mediaboot_read_signaure env a s = Some (r, n, s') \<Longrightarrow> same_boot s' s"
  by (auto simp: blsp_mediaboot_read_signaure_def Let_def dest: boot_read_frame split: if_splits option.splits)

lemma parse_fw_sign_frame: "parse_fw_sign env c a s = Some (r, a', c', s') \<Longrightarrow> same_boot s' s"
  by (auto simp: parse_fw_sign_def Let_def split: if_splits option.splits prod.splits
      dest!: boot_read_frame parse_pkey_frame read_signature_frame intro: same_boot_trans)

lemma parse_fw_aes_frame: "parse_fw_aes env c a s = Some (r, c', s') \<Longrightarrow> same_boot s' s"
  by (auto simp: parse_fw_aes_def blsp_boot_parse_aesiv_def split: if_splits option.splits
      dest!: boot_read_frame)

lemma parse_fw_hash_frame: "parse_fw_hash env c a s = Some (r, c', s') \<Longrightarrow> same_boot s' s"
  by (auto simp: parse_fw_hash_def blsp_mediaboot_cal_hash_def Let_def split: if_splits option.splits
      dest!: cal_hash_frame)

lemma parse_one_fw_frame: "blsp_mediaboot_parse_one_fw env c ha ia s = Some (r, c', s') \<Longrightarrow> same_boot s' s"
  by (auto simp: blsp_mediaboot_parse_one_fw_def Let_def split: if_splits option.splits prod.splits
      dest!: boot_read_frame parse_bootheader_frame parse_fw_sign_frame parse_fw_aes_frame parse_fw_hash_frame)
    (simp_all add: same_boot_def)

section \<open>Booting one image\<close>

lemma main_one_cpu:
  assumes "bt_cpu_count s = 1" "be_feature_flag env \<noteq> BLSP_BOOT2_CP_FLAG" "hdr 0 \<noteq> 0"
    "blsp_mediaboot_parse_one_fw env boot_img_zero (hdr 0) (hdr 0 + 4096) (s\<lparr>bt_img := (\<lambda>i. boot_img_zero)\<rparr>)
      = Some (r, c, s1)"
  shows "blsp_mediaboot_main env set_cache visit hdr roll_back s =
    (let s2 = s1\<lparr>bt_img := (bt_img s1)(0 := c)\<rparr>; rb = (\<lambda>i. 0) in
     if r = 0 then
       (let (e, s4) = blsp_boot2_jump_entry env set_cache (visit (fix_entries env s2))
        in Some (if e = BRet 0 then BRet BFLB_BOOT2_FAIL else e, rb, s4))
     else if roll_back then Some (BRet BOOT2_Roll_Back, rb(0 := 1), s2)
     else Some (BRet BOOT2_ALL_INVALID_ERROR, rb(0 := 1), s2))"
  using assms
  by (auto simp: blsp_mediaboot_main_def BFLB_FW_IMG_OFFSET_AFTER_HEADER_def boot2_codes Let_def case_prod_unfold)

end
