(* ===== verification/SecureBoot.thy ===== *)
theory SecureBoot
  imports MediaBoot
begin

text \<open>
  What booting guarantees, and what it does not: the properties of the boot path
  (\<open>blsp_boot_parser.c\<close>, \<open>blsp_media_boot.c\<close>), with a signed image on the simulated chip as
  witness.
\<close>

section \<open>From the jump back to the checks\<close>

lemma jump_cases:
  assumes "bt_cpu_count s = 1" "be_feature_flag env \<noteq> BLSP_BOOT2_CP_FLAG"
    and run: "blsp_mediaboot_main env set_cache visit hdr rb s = Some (BJump e msp aes, rbs, s')"
  obtains c s1 where "hdr 0 \<noteq> 0"
    "blsp_mediaboot_parse_one_fw env boot_img_zero (hdr 0) (hdr 0 + 4096) (s\<lparr>bt_img := (\<lambda>i. boot_img_zero)\<rparr>)
      = Some (0, c, s1)"
    "blsp_boot2_jump_entry env set_cache (visit (fix_entries env (s1\<lparr>bt_img := (bt_img s1)(0 := c)\<rparr>))) = (BJump e msp aes, s')"
proof -
  have h0: "hdr 0 \<noteq> 0"
  proof
    assume "hdr 0 = 0"
    then show False using assms by (auto simp: blsp_mediaboot_main_def split: if_splits)
  qed
  show thesis
  proof (cases "blsp_mediaboot_parse_one_fw env boot_img_zero (hdr 0) (hdr 0 + 4096) (s\<lparr>bt_img := (\<lambda>i. boot_img_zero)\<rparr>)")
    case None
    then show thesis using run assms(1) h0
      by (simp add: blsp_mediaboot_main_def BFLB_FW_IMG_OFFSET_AFTER_HEADER_def)
  next
    case (Some z)
    obtain r c s1 where z: "z = (r, c, s1)" by (metis prod_cases3)
    note p = Some [unfolded z]
    have "r = 0" "blsp_boot2_jump_entry env set_cache (visit (fix_entries env (s1\<lparr>bt_img := (bt_img s1)(0 := c)\<rparr>)))
        = (BJump e msp aes, s')"
      using run unfolding main_one_cpu [where hdr = hdr, OF assms(1,2) h0 p]
      by (auto simp: Let_def case_prod_unfold prod_eq_iff split: if_splits)
    then show thesis using that [OF h0, of c s1] p by simp
  qed
qed

lemma jump_entry_jumps:
  assumes "blsp_boot2_jump_entry env set_cache s = (BJump e msp aes, s')"
  shows "e = bi_entry_point (bt_img s 0)" "bi_img_valid (bt_img s 0) \<noteq> 0" "e \<noteq> 0"
  using assms by (auto simp: blsp_boot2_jump_entry_def Let_def split: if_splits)

lemma parse_one_fw_valid:
  assumes "blsp_mediaboot_parse_one_fw env c ha ia s = Some (0, c', s')"
  shows "bi_img_valid c' = (if bi_no_segment c' = 0 then 0 else 1)"
  using assms
  by (auto simp: blsp_mediaboot_parse_one_fw_def parse_fw_hash_def Let_def boot2_codes
      split: option.splits if_splits prod.splits)

section \<open>Genuine images are accepted\<close>

lemma seg_image_at: "p + n \<le> k \<Longrightarrow> seg (image_at m a k) p n = image_at m (a + p) n"
  by (intro nth_equalityI) (auto simp: image_at_def seg_def add.assoc)

lemma seg_patch_0: "length bs \<le> length s \<Longrightarrow> p + n \<le> length bs \<Longrightarrow> seg (patch s 0 bs) p n = seg bs p n"
  by (simp add: patch_def seg_def)

lemma read_signature_image:
  assumes xip: "xip_device (be_flash env) cell" and buf: "length (bt_buf s) = 256" "unat addr + 264 \<le> 2 ^ 24"
    and n: "n = rd32 (image_at (cell (bt_dev s)) (unat addr) 4) 0" "unat n \<le> 248"
  shows "\<exists>b. blsp_mediaboot_read_signaure env addr s = Some (0, n, s\<lparr>bt_buf := b\<rparr>) \<and> length b = 256 \<and>
    seg b 0 (unat n + 8) = image_at (cell (bt_dev s)) (unat addr) (unat n + 8)"
proof -
  let ?im = "\<lambda>a k. image_at (cell (bt_dev s)) a k"
  have l4: "length [0, 0, 0, 0 :: u8] = 4" by simp
  have len: "rd32 (snd (blsp_mediaboot_read (be_flash env) addr [0, 0, 0, 0] (bt_dev s))) 0 = n"
    using xip_device.mediaboot_read [OF xip, of addr "[0, 0, 0, 0]" "bt_dev s", unfolded l4] buf n by simp
  have n4: "unat (n + 4) = unat n + 4" using n(2) by (subst unat_add_lt) simp_all
  have a4: "unat (addr + 4) = unat addr + 4" using buf by (subst unat_add_lt) simp_all
  have le: "\<not> n > 256" using n(2) by (simp add: word_less_nat_alt)
  have rd: "boot_read env (addr + 4) 4 (unat (n + 4)) s
      = Some (s\<lparr>bt_buf := patch (bt_buf s) 4 (?im (unat addr + 4) (unat n + 4))\<rparr>)"
    using boot_read_ok [OF xip, of 4 "unat n + 4" s "addr + 4"] buf n(2) unfolding n4 a4 by simp
  define b where "b = patch (patch (bt_buf s) 4 (?im (unat addr + 4) (unat n + 4))) 0 (le32 n)"
  have l: "length b = 256" using buf n(2) by (simp add: b_def)
  have "le32 n = ?im (unat addr) 4" unfolding n(1) by (rule le32_rd32) simp
  then have "b = ?im (unat addr) 4 @ ?im (unat addr + 4) (unat n + 4) @ drop (unat n + 8) (bt_buf s)"
    using buf n(2) by (simp add: b_def patch_def add.commute)
  then have "b = ?im (unat addr) (unat n + 8) @ drop (unat n + 8) (bt_buf s)"
    using image_at_append [of "cell (bt_dev s)" "unat addr" 4 "unat n + 4"] by (simp add: add.commute)
  then have "seg b 0 (unat n + 8) = ?im (unat addr) (unat n + 8)" by (simp add: seg_def)
  moreover have "blsp_mediaboot_read_signaure env addr s = Some (0, n, s\<lparr>bt_buf := b\<rparr>)"
    by (simp add: blsp_mediaboot_read_signaure_def len le rd b_def boot2_codes)
  ultimately show ?thesis using l by blast
qed

lemma parse_signature_image:
  assumes "seg b 0 (unat n + 8) = im" "length b = 256" "unat n \<le> 248" "rd32 im 0 = n"
    "seg im (4 + unat n) 4 = le32 (BFLB_Soft_CRC32 (seg im 0 (unat n + 4)))"
  shows "\<exists>c'. blsp_boot_parse_signature c b True = Some (0, c')"
proof -
  have r: "rd32 b 0 = n" using assms(1,2,3,4) by (simp add: rd32_def seg_def flip: assms(1))
  have sg: "seg b p k = seg im p k" if "p + k \<le> unat n + 8" for p k
    using that assms(2,3) by (simp add: seg_seg flip: assms(1))
  have "\<not> n > 256" using assms(3) by (simp add: word_less_nat_alt)
  then show ?thesis
    using assms(2,3,5) by (simp add: blsp_boot_parse_signature_def r sg Let_def boot2_codes)
qed

lemma sign_accepted:
  assumes xip: "xip_device (be_flash env) cell" and buf: "length (bt_buf s) = 256" "unat addr + 356 \<le> 2 ^ 24"
    and hash: "be_hash_found env" "be_hash_open env = 0" "bt_hash s = []" and sig: "bi_sign_type c \<noteq> 0"
    and key: "k = image_at (cell (bt_dev s)) (unat addr) 64"
      "image_at (cell (bt_dev s)) (unat addr + 64) 4 = le32 (BFLB_Soft_CRC32 k)"
      "blsp_boot_parse_is_pkhash_valid (bt_efuse s) (bi_cpu_type c) (be_sha256 env k)"
    and n: "n = rd32 (image_at (cell (bt_dev s)) (unat addr + 68) 4) 0" "unat n \<le> 248"
      "image_at (cell (bt_dev s)) (unat addr + 72 + unat n) 4
        = le32 (BFLB_Soft_CRC32 (image_at (cell (bt_dev s)) (unat addr + 68) (unat n + 4)))"
  shows "\<exists>a c' s'. parse_fw_sign env c addr s = Some (0, a, c', s')"
proof -
  let ?im = "\<lambda>a k. image_at (cell (bt_dev s)) a k"
  define s1 where "s1 = s\<lparr>bt_buf := patch (bt_buf s) 0 (?im (unat addr) 68)\<rparr>"
  have rd: "boot_read env addr 0 68 s = Some s1"
    using boot_read_ok [OF xip, of 0 68 s addr] buf by (simp add: s1_def)
  have sg: "seg (bt_buf s1) p m = ?im (unat addr + p) m" if "p + m \<le> 68" for p m
    using that buf by (simp add: s1_def seg_patch_0 seg_image_at)
  have crc: "rd32 (bt_buf s1) 64 = BFLB_Soft_CRC32 k"
    using sg [of 64 4] key(2) buf by (simp add: rd32_seg s1_def)
  obtain c1 where pk: "blsp_boot_parse_pkey env c (bt_buf s1) True s1 = (0, c1, s1\<lparr>bt_hash := []\<rparr>)"
    using crc sg [of 0 64] key hash
    by (auto simp: blsp_boot_parse_pkey_def hash_open_def hash_write_def s1_def boot2_codes)
  have a1: "unat (addr + 68) = unat addr + 68" using buf by (subst unat_add_lt) simp_all
  obtain b where rs: "blsp_mediaboot_read_signaure env (addr + 68) (s1\<lparr>bt_hash := []\<rparr>)
      = Some (0, n, (s1\<lparr>bt_hash := []\<rparr>)\<lparr>bt_buf := b\<rparr>)"
    and b: "length b = 256" "seg b 0 (unat n + 8) = ?im (unat addr + 68) (unat n + 8)"
    using read_signature_image [OF xip, of "s1\<lparr>bt_hash := []\<rparr>" "addr + 68" n] buf n a1
    by (auto simp: s1_def)
  have "rd32 (?im (unat addr + 68) (unat n + 8)) 0 = n"
    unfolding n(1) by (simp add: rd32_def image_at_def)
  then obtain c2 where "blsp_boot_parse_signature c1 b True = Some (0, c2)"
    using parse_signature_image [OF b(2,1) n(2)] n(3) by (auto simp: seg_image_at add.commute add.left_commute)
  then show ?thesis
    using sig rd pk rs by (auto simp: parse_fw_sign_def Let_def boot2_codes)
qed

lemma hash_accepted:
  assumes xip: "xip_device (be_flash env) cell" and buf: "length (bt_buf s) = 256"
      "unat addr + unat (bi_img_len c) \<le> 2 ^ 24"
    and c: "bi_no_segment c \<noteq> 0" "bi_hash_ignore c = 0"
    and dig: "be_sha256 env (bt_hash s @ image_at (cell (bt_dev s)) (unat addr) (unat (bi_img_len c))) = bi_img_hash c"
  shows "\<exists>s'. parse_fw_hash env c addr s = Some (0, c\<lparr>bi_img_valid := 1\<rparr>, s')"
proof -
  obtain b where h: "blsp_mediaboot_cal_hash env addr (bi_img_len c) s = Some (s\<lparr>bt_buf := b,
      bt_hash := bt_hash s @ image_at (cell (bt_dev s)) (unat addr) (unat (bi_img_len c))\<rparr>)"
    using cal_hash_image [OF xip buf(1), of 0 "bi_img_len c" addr] buf(2)
    by (auto simp: blsp_mediaboot_cal_hash_def)
  then show ?thesis
    using c dig by (simp add: parse_fw_hash_def blsp_boot_parser_check_hash_def
        blsp_boot_parser_check_signature_def boot2_codes Let_def)
qed

lemma parse_bootheader_accepts:
  assumes "bh_crc_ok h" "bh_field h 10 1 = 0" "le32 (bh_magiccode h) = [0x42, 0x46, 0x4E, 0x50]"
    "bh_field h 0 2 = ef_sign (bt_efuse s) 0" "ef_encrypted (bt_efuse s) 0 = 0" "bh_segment_cnt h \<noteq> 0"
    "be_hash_found env" "be_hash_open env = 0"
  shows "blsp_boot_parse_bootheader env c h s = (0, (bh_take_over h 0 c)\<lparr>bi_hash_ignore :=
    bh_hash_ignore s h 0 (bh_field h 17 1), bi_img_hash := bh_hash h\<rparr>, s\<lparr>bt_hash := []\<rparr>)"
  using assms
  by (simp add: blsp_boot_parse_bootheader_def cpu_loop_start Let_def bh_take_over_def hash_open_def
      boot2_codes word_xor_eq_0)

lemma genuine_fw:
  assumes xip: "xip_device (be_flash env) cell" and buf: "length (bt_buf s) = 256"
    and hash: "be_hash_found env" "be_hash_open env = 0"
    and h: "h = image_at (cell (bt_dev s)) (unat ha) BOOTHEADER_SIZE"
    and range: "unat ha + 4096 + unat (bh_segment_cnt h) \<le> 2 ^ 24"
    and hdr: "bh_crc_ok h" "bh_field h 10 1 = 0" "le32 (bh_magiccode h) = [0x42, 0x46, 0x4E, 0x50]"
      "bh_field h 0 2 = ef_sign (bt_efuse s) 0" "bh_field h 2 2 = 0" "ef_encrypted (bt_efuse s) 0 = 0"
      "bh_field h 8 1 \<noteq> 0" "bh_segment_cnt h \<noteq> 0" "bh_hash_ignore s h 0 (bh_field h 17 1) = 0"
    and sign: "ef_sign (bt_efuse s) 0 \<noteq> 0" "k = image_at (cell (bt_dev s)) (unat ha + 176) 64"
      "image_at (cell (bt_dev s)) (unat ha + 240) 4 = le32 (BFLB_Soft_CRC32 k)"
      "be_sha256 env k = ef_pk_hash_cpu0 (bt_efuse s)"
      "n = rd32 (image_at (cell (bt_dev s)) (unat ha + 244) 4) 0" "unat n \<le> 248"
      "image_at (cell (bt_dev s)) (unat ha + 248 + unat n) 4
        = le32 (BFLB_Soft_CRC32 (image_at (cell (bt_dev s)) (unat ha + 244) (unat n + 4)))"
    and dig: "be_sha256 env (image_at (cell (bt_dev s)) (unat ha + 4096) (unat (bh_segment_cnt h))) = bh_hash h"
  shows "\<exists>c' s'. blsp_mediaboot_parse_one_fw env c ha (ha + 4096) s = Some (0, c', s') \<and>
    bi_img_valid c' = 1 \<and> bi_entry_point c' = bh_bootentry h"
proof -
  define s1 where "s1 = s\<lparr>bt_buf := patch (bt_buf s) 0 h\<rparr>"
  define s2 where "s2 = s1\<lparr>bt_hash := []\<rparr>"
  define c1 where "c1 = (bh_take_over (bt_buf s1) 0 c)\<lparr>bi_hash_ignore := bh_hash_ignore s1 (bt_buf s1) 0
    (bh_field (bt_buf s1) 17 1), bi_img_hash := bh_hash (bt_buf s1)\<rparr>"
  have rd: "boot_read env ha 0 BOOTHEADER_SIZE s = Some s1"
    using boot_read_ok [OF xip, of 0 BOOTHEADER_SIZE s ha] buf range by (simp add: s1_def h BOOTHEADER_SIZE_def)
  have hl: "length h = 176" by (simp add: h BOOTHEADER_SIZE_def)
  then have "seg (bt_buf s1) 0 BOOTHEADER_SIZE = h" "BOOTHEADER_SIZE \<le> length (bt_buf s1)"
    using buf by (simp_all add: s1_def BOOTHEADER_SIZE_def seg_patch_same)
  note pre = header_prefix [OF this]
  have "bh_hash_ignore s1 (bt_buf s1) 0 x = bh_hash_ignore s h 0 x" for x
    by (simp only: bh_hash_ignore_def pre(5)) (simp add: s1_def)
  then have ign: "bh_hash_ignore s1 (bt_buf s1) 0 (bh_field h 17 1) = 0" using hdr(9) by simp
  have bh: "blsp_boot_parse_bootheader env c (bt_buf s1) s1 = (0, c1, s2)"
    unfolding c1_def s2_def
    by (rule parse_bootheader_accepts) (use hdr hash in \<open>simp_all add: pre s1_def [THEN arg_cong, of bt_efuse]\<close>)
  have s2: "length (bt_buf s2) = 256" "bt_hash s2 = []" "bt_dev s2 = bt_dev s" "bt_efuse s2 = bt_efuse s"
    using buf hl by (simp_all add: s2_def s1_def)
  have c1: "bi_sign_type c1 \<noteq> 0" "bi_cpu_type c1 = 0" "bi_encrypt_type c1 = 0" "bi_no_segment c1 \<noteq> 0"
    "bi_hash_ignore c1 = 0" "bi_img_len c1 = bh_segment_cnt h" "bi_img_hash c1 = bh_hash h" "bi_entry_point c1 = bh_bootentry h"
    using hdr sign ign by (simp_all add: c1_def bh_take_over_def pre)
  have a: "unat (ha + word_of_nat BOOTHEADER_SIZE) = unat ha + 176"
    using range by (subst unat_add_lt) (simp_all add: BOOTHEADER_SIZE_def)
  have i: "unat (ha + 4096) = unat ha + 4096" using range by (subst unat_add_lt) simp_all
  let ?c = "c1\<lparr>bi_flash_offset := ha + 4096\<rparr>"
  have "\<exists>a c' s'. parse_fw_sign env ?c (ha + word_of_nat BOOTHEADER_SIZE) s2 = Some (0, a, c', s')"
    by (rule sign_accepted [where addr = "ha + word_of_nat BOOTHEADER_SIZE" and c = ?c and k = k and n = n,
          OF xip s2(1) _ hash s2(2), unfolded a s2(3,4)])
      (use c1 sign range in \<open>simp_all add: blsp_boot_parse_is_pkhash_valid_def add.assoc\<close>)
  then obtain a3 c3 s3 where sg: "parse_fw_sign env ?c (ha + word_of_nat BOOTHEADER_SIZE) s2 = Some (0, a3, c3, s3)" by blast
  have k: "bt_hash s3 = []" "bt_dev s3 = bt_dev s" "length (bt_buf s3) = 256" "same_fw c3 ?c"
    using parse_fw_sign_ok [OF xip s2(1) _ s2(2) sg, unfolded a] range s2(3) by (simp_all add: same_boot_def)
  have c3: "bi_encrypt_type c3 = 0" "bi_no_segment c3 \<noteq> 0" "bi_hash_ignore c3 = 0" "bi_img_len c3 = bh_segment_cnt h"
    "bi_img_hash c3 = bh_hash h" "bi_entry_point c3 = bh_bootentry h"
    using k(4) c1 by (simp_all add: same_fw_def)
  have "\<exists>s'. parse_fw_hash env c3 (ha + 4096) s3 = Some (0, c3\<lparr>bi_img_valid := 1\<rparr>, s')"
    by (rule hash_accepted [where addr = "ha + 4096" and c = c3, OF xip k(3), unfolded i]) (use range c3 k dig in simp_all)
  then show ?thesis
    using rd bh sg c3 by (auto simp: blsp_mediaboot_parse_one_fw_def parse_fw_aes_def boot2_codes Let_def)
qed

text \<open>
  What a genuine signed image at flash address \<open>a\<close> is: a good header that fits the fuses, a public
  key with the digest of the fuses, a well-formed signature of at most 248 bytes, and the digest
  of the header over the image behind it.
\<close>

definition genuine_image :: "(bytes \<Rightarrow> bytes) \<Rightarrow> efuse_cfg \<Rightarrow> (nat \<Rightarrow> u8) \<Rightarrow> nat \<Rightarrow> bool" where
  "genuine_image sha ef m a \<longleftrightarrow>
     (let h = image_at m a BOOTHEADER_SIZE; k = image_at m (a + 176) 64; n = rd32 (image_at m (a + 244) 4) 0
      in bh_crc_ok h \<and> bh_field h 10 1 = 0 \<and> le32 (bh_magiccode h) = [0x42, 0x46, 0x4E, 0x50] \<and>
         bh_field h 0 2 = ef_sign ef 0 \<and> ef_sign ef 0 \<noteq> 0 \<and> bh_field h 2 2 = 0 \<and> ef_encrypted ef 0 = 0 \<and>
         bh_field h 8 1 \<noteq> 0 \<and> bh_segment_cnt h \<noteq> 0 \<and>
         image_at m (a + 240) 4 = le32 (BFLB_Soft_CRC32 k) \<and> sha k = ef_pk_hash_cpu0 ef \<and> unat n \<le> 248 \<and>
         image_at m (a + 248 + unat n) 4 = le32 (BFLB_Soft_CRC32 (image_at m (a + 244) (unat n + 4))) \<and>
         sha (image_at m (a + 4096) (unat (bh_segment_cnt h))) = bh_hash h)"

lemma bh_hash_ignore_img: "bh_hash_ignore (s\<lparr>bt_img := g\<rparr>) h i x = bh_hash_ignore s h i x"
  by (simp add: bh_hash_ignore_def)

section \<open>A signed image on the simulated chip\<close>

text \<open>
  Header, key with checksum, signature length, signature with checksum; the image itself is
  three erased cells.  The digest is a sum here, and the ECDSA engine refuses everything.
\<close>

definition fw_header :: bytes where
  "fw_header = [0x42, 0x46, 0x4E, 0x50] @ replicate 112 0 @ le32 0x10101 @ le32 3 @ le32 0x23000100 @ le32 0
     @ replicate 32 0xFD @ replicate 8 0 @ le32 BOOTROM_DEADBEEF_VAL"

definition fw_key :: bytes where "fw_key = replicate 64 1"
definition fw_sig :: bytes where "fw_sig = le32 64 @ replicate 64 2"

definition fw_image :: bytes where
  "fw_image = fw_header @ fw_key @ le32 (BFLB_Soft_CRC32 fw_key) @ fw_sig @ le32 (BFLB_Soft_CRC32 fw_sig)"

definition fw_chip :: sim_chip where
  "fw_chip = demo_chip\<lparr>sim_cells := (\<lambda>x. if 0x10000 \<le> x \<and> x < 0x10000 + length fw_image
     then fw_image ! (x - 0x10000) else 0xFF)\<rparr>"

definition fw_env :: "sim_chip boot_env" where
  "fw_env = \<lparr>be_flash = demo_ops, be_hash_found = True, be_hash_open = 0,
     be_sha256 = (\<lambda>b. replicate 32 (sum_list b)), be_ecdsa_verify = (\<lambda>k h r s. 1),
     be_feature_flag = 0, be_main = 0x23001234\<rparr>"

definition fw_boot :: "sim_chip boot" where
  "fw_boot = \<lparr>bt_img = (\<lambda>i. boot_img_zero), bt_efuse = \<lparr>ef_encrypted = (\<lambda>i. 0), ef_sign = (\<lambda>i. 1),
       ef_hbn_check_sign = 0, ef_pk_hash_cpu0 = replicate 32 64, ef_pk_hash_cpu1 = replicate 32 0\<rparr>,
     bt_ps_mode = 0, bt_cpu_count = 1, bt_user_hash_ignored = 0, bt_buf = replicate 256 0, bt_hash = [],
     bt_dev = fw_chip\<rparr>"

lemma fw_lengths [simp]: "length fw_header = 176" "length fw_key = 64" "length fw_sig = 68" "length fw_image = 316"
  by (simp_all add: fw_header_def fw_key_def fw_sig_def fw_image_def)

lemma fw_at: "p + n \<le> 316 \<Longrightarrow> image_at (sim_cells fw_chip) (0x10000 + p) n = seg fw_image p n"
  by (intro nth_equalityI) (simp_all add: image_at_def seg_def fw_chip_def)

lemma fw_parts:
  "image_at (sim_cells fw_chip) 0x10000 176 = fw_header" "image_at (sim_cells fw_chip) 0x100B0 64 = fw_key"
  "image_at (sim_cells fw_chip) 0x100F0 4 = le32 (BFLB_Soft_CRC32 fw_key)"
  "image_at (sim_cells fw_chip) 0x100F4 4 = le32 64" "image_at (sim_cells fw_chip) 0x100F4 68 = fw_sig"
  "image_at (sim_cells fw_chip) 0x10138 4 = le32 (BFLB_Soft_CRC32 fw_sig)"
  using fw_at [of 0 176] fw_at [of 176 64] fw_at [of 240 4] fw_at [of 244 4] fw_at [of 244 68] fw_at [of 312 4]
  by (simp_all add: fw_image_def seg_def fw_sig_def)

lemma fw_body: "image_at (sim_cells fw_chip) 0x11000 3 = [0xFF, 0xFF, 0xFF]"
  by (simp add: image_at_def fw_chip_def map_replicate_const numeral_3_eq_3)

lemma fw_header_fields:
  "bh_bootcfg fw_header = 0x10101" "bh_segment_cnt fw_header = 3" "bh_bootentry fw_header = 0x23000100"
  "bh_magiccode fw_header = 0x504E4642" "bh_crc32 fw_header = BOOTROM_DEADBEEF_VAL" "bh_hash fw_header = replicate 32 0xFD"
  by (simp_all add: bh_bootcfg_def bh_segment_cnt_def bh_bootentry_def bh_magiccode_def bh_crc32_def bh_hash_def
      fw_header_def rd32_def nth_append le32_def BOOTROM_DEADBEEF_VAL_def seg_def)

lemma genuine_main:
  assumes xip: "xip_device (be_flash env) cell" and buf: "length (bt_buf s) = 256" "bt_cpu_count s = 1"
    and env: "be_hash_found env" "be_hash_open env = 0" "be_feature_flag env \<noteq> BLSP_BOOT2_CP_FLAG"
      "\<And>cont en way off. set_cache cont en way off = 0"
    and h: "h = image_at (cell (bt_dev s)) (unat (hdr 0)) BOOTHEADER_SIZE" "hdr 0 \<noteq> 0" "bh_bootentry h \<noteq> 0"
      "unat (hdr 0) + 4096 + unat (bh_segment_cnt h) \<le> 2 ^ 24"
    and mode: "bt_user_hash_ignored s = 0" "\<not> (bt_ps_mode s = BFLB_PSM_HBN \<and> ef_hbn_check_sign (bt_efuse s) = 0)"
    and good: "genuine_image (be_sha256 env) (bt_efuse s) (cell (bt_dev s)) (unat (hdr 0))"
  shows "\<exists>msp rbs s'. blsp_mediaboot_main env set_cache (\<lambda>s. s) hdr rb s = Some (BJump (bh_bootentry h) msp [], rbs, s')"
proof -
  let ?s = "s\<lparr>bt_img := (\<lambda>i. boot_img_zero)\<rparr>"
  note good = good [unfolded genuine_image_def Let_def, folded h(1)]
  have ign: "bh_hash_ignore s h 0 x = 0" for x using good mode by (simp add: bh_hash_ignore_def)
  have "\<exists>c' s'. blsp_mediaboot_parse_one_fw env boot_img_zero (hdr 0) (hdr 0 + 4096) ?s = Some (0, c', s') \<and>
      bi_img_valid c' = 1 \<and> bi_entry_point c' = bh_bootentry h"
    by (rule genuine_fw [where k = "image_at (cell (bt_dev s)) (unat (hdr 0) + 176) 64"
          and n = "rd32 (image_at (cell (bt_dev s)) (unat (hdr 0) + 244) 4) 0", OF xip _ env(1,2) _ h(4)])
      (use buf good in \<open>simp_all add: bh_hash_ignore_img ign flip: h(1)\<close>)
  then obtain c s1 where p: "blsp_mediaboot_parse_one_fw env boot_img_zero (hdr 0) (hdr 0 + 4096) ?s = Some (0, c, s1)"
    and c: "bi_img_valid c = 1" "bi_entry_point c = bh_bootentry h" by blast
  have f: "bt_efuse s1 = bt_efuse s" "bt_cpu_count s1 = 1"
    using parse_one_fw_frame [OF p] buf by (simp_all add: same_boot_def)
  show ?thesis
    unfolding main_one_cpu [where hdr = hdr, OF buf(2) env(3) h(2) p]
    using c f good h(3) env(4)
    by (simp add: Let_def blsp_boot2_jump_entry_def fix_entries_def boot2_codes)
qed

lemma fw_setup: "xip_device (be_flash fw_env) sim_cells" "length (bt_buf fw_boot) = 256" "bt_cpu_count fw_boot = 1"
  "be_hash_found fw_env" "be_hash_open fw_env = 0" "be_feature_flag fw_env \<noteq> BLSP_BOOT2_CP_FLAG" "bt_dev fw_boot = fw_chip"
  "ef_sign (bt_efuse fw_boot) 0 = 1" "ef_encrypted (bt_efuse fw_boot) 0 = 0" "ef_pk_hash_cpu0 (bt_efuse fw_boot) = replicate 32 64"
  "bt_user_hash_ignored fw_boot = 0" "bt_ps_mode fw_boot = 0" "be_sha256 fw_env b = replicate 32 (sum_list b)"
  using simx.xip_device_axioms by (simp_all add: fw_env_def fw_boot_def BLSP_BOOT2_CP_FLAG_def)

lemma fw_genuine: "genuine_image (be_sha256 fw_env) (bt_efuse fw_boot) (sim_cells fw_chip) 0x10000"
proof -
  have key: "replicate 32 (sum_list fw_key) = replicate 32 (64 :: u8)"
    by (simp add: fw_key_def sum_list_replicate)
  show ?thesis
    unfolding genuine_image_def Let_def
    by (simp add: fw_setup(7-13) fw_parts fw_body fw_header_fields BOOTHEADER_SIZE_def bh_crc_ok_def bh_field_def key
        flip: fw_sig_def) (simp add: le32_def)
qed

lemmas fw_facts = fw_setup fw_parts fw_header_fields fw_genuine

lemma fw_runs:
  "\<exists>msp rbs s'. blsp_mediaboot_main fw_env (\<lambda>a b c d. 0) (\<lambda>s. s) (\<lambda>i. 0x10000) False fw_boot
     = Some (BJump 0x23000100 msp [], rbs, s')"
  using genuine_main [where hdr = "\<lambda>i. 0x10000" and h = fw_header, OF fw_setup(1-6), of "\<lambda>a b c d. 0" False]
  by (simp add: fw_facts BOOTHEADER_SIZE_def BFLB_PSM_HBN_def)

text \<open>Nothing but the signature check uses the ECDSA engine, and its result does not depend on it.\<close>

lemma verify_read: "boot_read (env\<lparr>be_ecdsa_verify := v\<rparr>) a off n s = boot_read env a off n s"
  "hash_open (env\<lparr>be_ecdsa_verify := v\<rparr>) s = hash_open env s" "be_sha256 (env\<lparr>be_ecdsa_verify := v\<rparr>) = be_sha256 env"
  "be_flash (env\<lparr>be_ecdsa_verify := v\<rparr>) = be_flash env"
  by (simp_all add: boot_read_def hash_open_def)

lemma verify_hash:
  "cal_hash_loop (env\<lparr>be_ecdsa_verify := v\<rparr>) a d l s = cal_hash_loop env a d l s"
proof (induction env a d l s rule: cal_hash_loop.induct)
  case (1 env a d l s)
  then show ?case
    by (subst (1 2) cal_hash_loop.simps) (auto simp: verify_read Let_def split: option.splits)
qed

lemma verify_parts:
  "blsp_boot_parse_bootheader (env\<lparr>be_ecdsa_verify := v\<rparr>) c h s = blsp_boot_parse_bootheader env c h s"
  "blsp_boot_parse_pkey (env\<lparr>be_ecdsa_verify := v\<rparr>) c k own s = blsp_boot_parse_pkey env c k own s"
  "blsp_mediaboot_read_signaure (env\<lparr>be_ecdsa_verify := v\<rparr>) a s = blsp_mediaboot_read_signaure env a s"
  "blsp_boot_parser_check_hash (env\<lparr>be_ecdsa_verify := v\<rparr>) c s = blsp_boot_parser_check_hash env c s"
  unfolding blsp_boot_parse_bootheader_def blsp_boot_parse_pkey_def blsp_mediaboot_read_signaure_def
    blsp_boot_parser_check_hash_def verify_read by (rule refl)+

lemma check_signature_ok: "blsp_boot_parser_check_signature env c s = BFLB_BOOT2_SUCCESS"
  by (simp add: blsp_boot_parser_check_signature_def)

lemma verify_steps:
  "parse_fw_sign (env\<lparr>be_ecdsa_verify := v\<rparr>) c a s = parse_fw_sign env c a s"
  "parse_fw_aes (env\<lparr>be_ecdsa_verify := v\<rparr>) c a s = parse_fw_aes env c a s"
  "parse_fw_hash (env\<lparr>be_ecdsa_verify := v\<rparr>) c a s = parse_fw_hash env c a s"
  unfolding parse_fw_sign_def parse_fw_aes_def parse_fw_hash_def blsp_mediaboot_cal_hash_def
    verify_read verify_parts verify_hash check_signature_ok by (rule refl)+

lemma verify_fw:
  "blsp_mediaboot_parse_one_fw (env\<lparr>be_ecdsa_verify := v\<rparr>) c ha ia s = blsp_mediaboot_parse_one_fw env c ha ia s"
  unfolding blsp_mediaboot_parse_one_fw_def verify_read verify_parts verify_steps by (rule refl)

lemma verify_cpus:
  "mediaboot_cpus (env\<lparr>be_ecdsa_verify := v\<rparr>) hdr is rb found s = mediaboot_cpus env hdr is rb found s"
  by (induction "is" arbitrary: rb found s) (auto simp: verify_fw Let_def split: option.splits prod.splits)

lemma verify_flags: "be_feature_flag (env\<lparr>be_ecdsa_verify := v\<rparr>) = be_feature_flag env"
  "be_main (env\<lparr>be_ecdsa_verify := v\<rparr>) = be_main env"
  by simp_all

lemma verify_main:
  "fix_entries (env\<lparr>be_ecdsa_verify := v\<rparr>) s = fix_entries env s"
  "blsp_boot2_jump_entry (env\<lparr>be_ecdsa_verify := v\<rparr>) set_cache s = blsp_boot2_jump_entry env set_cache s"
  unfolding fix_entries_def blsp_boot2_jump_entry_def verify_flags by (rule refl)+

lemma secure_boot_main:
  assumes xip: "xip_device (be_flash env) cell" and buf: "length (bt_buf s) = 256" "bt_cpu_count s = 1"
    and cp: "be_feature_flag env \<noteq> BLSP_BOOT2_CP_FLAG"
    and mode: "bt_user_hash_ignored s = 0" "\<not> (bt_ps_mode s = BFLB_PSM_HBN \<and> ef_hbn_check_sign (bt_efuse s) = 0)"
      "ef_sign (bt_efuse s) 0 \<noteq> 0"
    and range: "unat (hdr 0) + 4096 + unat (bh_segment_cnt h) \<le> 2 ^ 24"
    and h: "h = image_at (cell (bt_dev s)) (unat (hdr 0)) BOOTHEADER_SIZE"
    and run: "blsp_mediaboot_main env set_cache (\<lambda>s. s) hdr rb s = Some (BJump e msp aes, rbs, s')"
  shows "e = (if bh_bootentry h = 0 then be_main env AND 0xff000000 else bh_bootentry h) \<and>
    be_sha256 env (image_at (cell (bt_dev s)) (unat (hdr 0) + BOOTHEADER_SIZE) 64) = ef_pk_hash_cpu0 (bt_efuse s) \<and>
    be_sha256 env ((if bh_field h 2 2 = 0 then [] else image_at (cell (bt_dev s)) (flash_iv_at (cell (bt_dev s)) (unat (hdr 0))) 20)
       @ image_at (cell (bt_dev s)) (unat (hdr 0) + 4096) (unat (bh_segment_cnt h))) = bh_hash h"
proof -
  let ?s = "s\<lparr>bt_img := (\<lambda>i. boot_img_zero)\<rparr>"
  obtain c s1 where c: "blsp_mediaboot_parse_one_fw env boot_img_zero (hdr 0) (hdr 0 + 4096) ?s = Some (0, c, s1)"
    and j: "blsp_boot2_jump_entry env set_cache (fix_entries env (s1\<lparr>bt_img := (bt_img s1)(0 := c)\<rparr>)) = (BJump e msp aes, s')"
    using jump_cases [OF buf(2) cp run] by blast
  have cnt: "bt_cpu_count s1 = 1" using parse_one_fw_frame [OF c] buf by (simp add: same_boot_def)
  note jj = jump_entry_jumps [OF j]
  have valid: "bi_img_valid c = 1"
    using jj(2) parse_one_fw_valid [OF c] by (auto simp: fix_entries_def split: if_splits)
  have e: "e = (if bi_entry_point c = 0 then be_main env AND 0xff000000 else bi_entry_point c)"
    using jj(1) valid cnt by (simp add: fix_entries_def)
  show ?thesis
    using verified_fw [OF xip _ c valid _ range] buf mode h e by auto
qed

section \<open>Properties\<close>

text \<open>C2: Secure boot.  On a single-CPU device whose fuses demand signed images, not built as the CP
  loader, in normal power mode (or with the check kept in hibernation), without the hash-ignore
  request and with no host at the stop for downloads, the boot process jumps only into an image
  whose public key has the digest burned into the fuses and whose flash contents, exactly the
  bytes the header counts, from 4 KiB behind the header on, have the digest of the boot header.  For an encrypted image the
  digest also covers, in front of these, the 20 bytes of AES IV and checksum that lie in flash
  behind the signature.  The jump goes to the entry point of that header (to the start of the
  loader's own region when the header has none).\<close>

theorem secure_boot:
  assumes xip: "xip_device (be_flash env) cell" and buf: "length (bt_buf s) = 256" "bt_cpu_count s = 1"
    and cp: "be_feature_flag env \<noteq> BLSP_BOOT2_CP_FLAG"
    and mode: "bt_user_hash_ignored s = 0" "\<not> (bt_ps_mode s = BFLB_PSM_HBN \<and> ef_hbn_check_sign (bt_efuse s) = 0)"
      "ef_sign (bt_efuse s) 0 \<noteq> 0"
    and range: "unat (hdr 0) + 4096 + unat (bh_segment_cnt h) \<le> 2 ^ 24"
    and h: "h = image_at (cell (bt_dev s)) (unat (hdr 0)) BOOTHEADER_SIZE"
    and run: "blsp_mediaboot_main env set_cache (\<lambda>s. s) hdr rb s = Some (BJump e msp aes, rbs, s')"
  shows "e = (if bh_bootentry h = 0 then be_main env AND 0xff000000 else bh_bootentry h) \<and>
    be_sha256 env (image_at (cell (bt_dev s)) (unat (hdr 0) + BOOTHEADER_SIZE) 64) = ef_pk_hash_cpu0 (bt_efuse s) \<and>
    be_sha256 env ((if bh_field h 2 2 = 0 then [] else image_at (cell (bt_dev s)) (flash_iv_at (cell (bt_dev s)) (unat (hdr 0))) 20)
       @ image_at (cell (bt_dev s)) (unat (hdr 0) + 4096) (unat (bh_segment_cnt h))) = bh_hash h"
  by (rule secure_boot_main [OF assms])

theorem secure_boot_witness:
  "replicate 32 (sum_list (image_at (sim_cells fw_chip) 0x100B0 64)) = (replicate 32 64 :: bytes)"
proof -
  obtain msp rbs s' where run: "blsp_mediaboot_main fw_env (\<lambda>a b c d. 0) (\<lambda>s. s) (\<lambda>i. 0x10000) False fw_boot
      = Some (BJump 0x23000100 msp [], rbs, s')" using fw_runs by blast
  show ?thesis
    using secure_boot [where hdr = "\<lambda>i. 0x10000" and h = fw_header, OF fw_setup(1-3,6) _ _ _ _ _ run]
    by (simp add: fw_facts BOOTHEADER_SIZE_def BFLB_PSM_HBN_def)
qed

text \<open>C9: Genuine signed images boot: on a device in normal power mode the boot process starts every
  image that is genuine in the sense of \<open>genuine_image\<close> at the entry point of its header.\<close>

theorem genuine_image_boots:
  assumes "xip_device (be_flash env) cell" "length (bt_buf s) = 256" "bt_cpu_count s = 1"
    and "be_hash_found env" "be_hash_open env = 0" "be_feature_flag env \<noteq> BLSP_BOOT2_CP_FLAG"
    and "\<And>cont en way off. set_cache cont en way off = 0"
    and "h = image_at (cell (bt_dev s)) (unat (hdr 0)) BOOTHEADER_SIZE" "hdr 0 \<noteq> 0" "bh_bootentry h \<noteq> 0"
      "unat (hdr 0) + 4096 + unat (bh_segment_cnt h) \<le> 2 ^ 24"
    and "bt_user_hash_ignored s = 0" "\<not> (bt_ps_mode s = BFLB_PSM_HBN \<and> ef_hbn_check_sign (bt_efuse s) = 0)"
    and "genuine_image (be_sha256 env) (bt_efuse s) (cell (bt_dev s)) (unat (hdr 0))"
  shows "\<exists>msp rbs s'. blsp_mediaboot_main env set_cache (\<lambda>s. s) hdr rb s = Some (BJump (bh_bootentry h) msp [], rbs, s')"
  by (rule genuine_main [where hdr = hdr, OF assms])

theorem genuine_image_boots_witness:
  "\<exists>msp rbs s'. blsp_mediaboot_main fw_env (\<lambda>a b c d. 0) (\<lambda>s. s) (\<lambda>i. 0x10000) False fw_boot
     = Some (BJump 0x23000100 msp [], rbs, s')"
  using genuine_image_boots [where hdr = "\<lambda>i. 0x10000" and h = fw_header, OF fw_setup(1-6), of "\<lambda>a b c d. 0" False]
  by (simp add: fw_facts BOOTHEADER_SIZE_def BFLB_PSM_HBN_def)

text \<open>C38: The signature is never checked: the whole parse of an image has the same outcome for every
  behaviour of the ECDSA engine, since its verdict is dropped.\<close>

theorem signature_not_checked:
  "blsp_mediaboot_main (env\<lparr>be_ecdsa_verify := v\<rparr>) set_cache visit hdr rb s
   = blsp_mediaboot_main env set_cache visit hdr rb s"
  unfolding blsp_mediaboot_main_def verify_cpus verify_main verify_flags by (rule refl)

text \<open>The image hash works for every image below 2 GiB and for none above: up to there the hash
  device is fed exactly the flash contents, in buffer-sized pieces; from \<open>2 ^ 31\<close> bytes on the
  signed length is negative and the first read runs over the 256-byte buffer.\<close>

theorem hash_reads_image:
  assumes "xip_device (be_flash env) cell" "length (bt_buf s) = 256"
    "unat tot < 2 ^ 31 \<Longrightarrow> unat addr + unat tot \<le> 2 ^ 24"
  shows "case blsp_mediaboot_cal_hash env addr tot s of
      None \<Rightarrow> 2 ^ 31 \<le> unat tot
    | Some t \<Rightarrow> unat tot < 2 ^ 31 \<and> bt_hash t = bt_hash s @ image_at (cell (bt_dev s)) (unat addr) (unat tot)"
proof (cases "unat tot < 2 ^ 31")
  case True
  then obtain b where "blsp_mediaboot_cal_hash env addr tot s = Some (s\<lparr>bt_buf := b,
      bt_hash := bt_hash s @ image_at (cell (bt_dev s)) (unat addr) (unat tot)\<rparr>)"
    using cal_hash_image [OF assms(1,2), of 0 tot addr] assms(3) by (auto simp: blsp_mediaboot_cal_hash_def)
  then show ?thesis using True by simp
next
  case False
  then show ?thesis using cal_hash_overflow [OF assms(2), of tot] by simp
qed

theorem hash_reads_image_witness:
  "case blsp_mediaboot_cal_hash fw_env 0x11000 3 fw_boot of None \<Rightarrow> False | Some t \<Rightarrow> bt_hash t = [0xFF, 0xFF, 0xFF]"
  using hash_reads_image [where tot = 3 and addr = "0x11000", OF fw_setup(1,2)]
  by (auto simp: fw_setup(7) fw_body fw_boot_def split: option.splits)

text \<open>C39: A signature of 249 to 256 bytes passes the length check but does not fit the read buffer:
  reading it with its length field and checksum writes past the end, and only then.\<close>

theorem signature_overflow:
  assumes "length (bt_buf s) = 256"
    and n: "n = rd32 (snd (blsp_mediaboot_read (be_flash env) addr [0, 0, 0, 0] (bt_dev s))) 0"
  shows "blsp_mediaboot_read_signaure env addr s = None \<longleftrightarrow> 248 < unat n \<and> unat n \<le> 256"
proof -
  have "\<not> n > 256 \<longleftrightarrow> unat n \<le> 256" by (simp add: word_less_nat_alt not_less)
  moreover have "unat (n + 4) = unat n + 4" if "unat n \<le> 256" using that by (subst unat_add_lt) simp_all
  ultimately show ?thesis
    using assms(1) by (auto simp: blsp_mediaboot_read_signaure_def boot_read_def Let_def simp flip: n split: option.splits)
qed

theorem signature_overflow_witness:
  "blsp_mediaboot_read_signaure fw_env 0 (fw_boot\<lparr>bt_dev := demo_chip\<lparr>sim_cells := (\<lambda>x. if x = 0 then 250 else 0)\<rparr>\<rparr>) = None"
proof -
  let ?s = "fw_boot\<lparr>bt_dev := demo_chip\<lparr>sim_cells := (\<lambda>x. if x = 0 then 250 else 0)\<rparr>\<rparr>"
  have "blsp_mediaboot_read (be_flash fw_env) 0 [0, 0, 0, 0] (bt_dev ?s) = (0, [250, 0, 0, 0])"
    using xip_device.mediaboot_read [OF fw_setup(1), of 0 "[0, 0, 0, 0]" "bt_dev ?s"]
    by (simp add: image_at_def)
  then show ?thesis
    using signature_overflow [of ?s 250 fw_env 0] by (simp add: fw_boot_def rd32_def)
qed

text \<open>An image with segments is counted as found but never marked valid, so the boot process
  neither starts it nor reports an error: it waits for ever.\<close>

theorem segmented_image_stuck:
  assumes "bt_cpu_count s = 1" "be_feature_flag env \<noteq> BLSP_BOOT2_CP_FLAG" "hdr 0 \<noteq> 0"
    and "\<And>cont en way off. set_cache cont en way off = 0"
    and p: "blsp_mediaboot_parse_one_fw env boot_img_zero (hdr 0) (hdr 0 + 4096) (s\<lparr>bt_img := (\<lambda>i. boot_img_zero)\<rparr>)
      = Some (0, c, s1)" "bi_no_segment c = 0"
  shows "\<exists>rbs s'. blsp_mediaboot_main env set_cache (\<lambda>s. s) hdr rb s = Some (BStay, rbs, s')"
proof -
  have "bi_img_valid c = 0" using parse_one_fw_valid [OF p(1)] p(2) by simp
  then show ?thesis
    unfolding main_one_cpu [where hdr = hdr, OF assms(1-3) p(1)]
    using assms(4) by (simp add: Let_def blsp_boot2_jump_entry_def fix_entries_def boot2_codes)
qed

definition seg_header :: bytes where
  "seg_header = [0x42, 0x46, 0x4E, 0x50] @ replicate 112 0 @ le32 0x10000 @ le32 1 @ le32 0x22010000 @ le32 0
     @ replicate 40 0 @ le32 BOOTROM_DEADBEEF_VAL"

definition seg_boot :: "sim_chip boot" where
  "seg_boot = fw_boot\<lparr>bt_efuse := (bt_efuse fw_boot)\<lparr>ef_sign := (\<lambda>i. 0)\<rparr>, bt_dev := demo_chip\<lparr>sim_cells :=
     (\<lambda>x. if 0x10000 \<le> x \<and> x < 0x10000 + length seg_header then seg_header ! (x - 0x10000) else 0xFF)\<rparr>\<rparr>"

lemma seg_header_fields: "length seg_header = 176" "bh_bootcfg seg_header = 0x10000" "bh_segment_cnt seg_header = 1"
  "bh_magiccode seg_header = 0x504E4642" "bh_crc32 seg_header = BOOTROM_DEADBEEF_VAL"
  by (simp_all add: bh_bootcfg_def bh_segment_cnt_def bh_magiccode_def bh_crc32_def seg_header_def rd32_def nth_append
      le32_def BOOTROM_DEADBEEF_VAL_def)

lemma seg_parse: "\<exists>c s1. blsp_mediaboot_parse_one_fw fw_env boot_img_zero 0x10000 0x11000 seg_boot = Some (0, c, s1) \<and>
  bi_no_segment c = 0"
proof -
  define s1 where "s1 = seg_boot\<lparr>bt_buf := patch (replicate 256 0) 0 seg_header\<rparr>"
  have "image_at (sim_cells (bt_dev seg_boot)) 0x10000 176 = seg_header"
    by (intro nth_equalityI) (simp_all add: image_at_def seg_boot_def seg_header_fields(1))
  then have rd: "boot_read fw_env 0x10000 0 BOOTHEADER_SIZE seg_boot = Some s1"
    using boot_read_ok [OF fw_setup(1), of 0 176 seg_boot "0x10000"]
    by (simp add: s1_def BOOTHEADER_SIZE_def seg_boot_def fw_boot_def)
  have "seg (bt_buf s1) 0 BOOTHEADER_SIZE = seg_header" "BOOTHEADER_SIZE \<le> length (bt_buf s1)"
    by (simp_all add: s1_def BOOTHEADER_SIZE_def seg_patch_same seg_header_fields(1))
  note pre = header_prefix [OF this]
  define c1 where "c1 = (bh_take_over (bt_buf s1) 0 boot_img_zero)\<lparr>bi_hash_ignore :=
    bh_hash_ignore s1 (bt_buf s1) 0 (bh_field (bt_buf s1) 17 1), bi_img_hash := bh_hash (bt_buf s1)\<rparr>"
  have bh: "blsp_boot_parse_bootheader fw_env boot_img_zero (bt_buf s1) s1 = (0, c1, s1\<lparr>bt_hash := []\<rparr>)"
    unfolding c1_def by (rule parse_bootheader_accepts)
      (simp_all add: pre, simp_all add: bh_crc_ok_def bh_field_def seg_header_fields le32_def s1_def seg_boot_def fw_boot_def fw_env_def)
  have "bi_sign_type c1 = bh_field seg_header 0 2" "bi_encrypt_type c1 = bh_field seg_header 2 2"
    "bi_no_segment c1 = bh_field seg_header 8 1"
    unfolding c1_def bh_take_over_def pre by simp_all
  then have "bi_sign_type c1 = 0" "bi_encrypt_type c1 = 0" "bi_no_segment c1 = 0"
    by (simp_all add: bh_field_def seg_header_fields)
  then show ?thesis
    using rd bh by (simp add: blsp_mediaboot_parse_one_fw_def boot2_codes parse_fw_sign_def parse_fw_aes_def parse_fw_hash_def)
qed

theorem segmented_image_stuck_witness:
  "\<exists>rbs s'. blsp_mediaboot_main fw_env (\<lambda>a b c d. 0) (\<lambda>s. s) (\<lambda>i. 0x10000) False seg_boot = Some (BStay, rbs, s')"
proof -
  have z: "seg_boot\<lparr>bt_img := (\<lambda>i. boot_img_zero)\<rparr> = seg_boot" "bt_cpu_count seg_boot = 1"
    by (simp_all add: seg_boot_def fw_boot_def)
  obtain c s1 where p: "blsp_mediaboot_parse_one_fw fw_env boot_img_zero 0x10000 0x11000 seg_boot = Some (0, c, s1)"
    "bi_no_segment c = 0" using seg_parse by blast
  show ?thesis
    by (rule segmented_image_stuck [of _ _ "\<lambda>i. 0x10000" _ c s1, OF z(2) fw_setup(6)]) (use p in \<open>simp_all add: z(1)\<close>)
qed

text \<open>The image is checked before the last stop at the download protocol and not again: whatever a
  host then does to the flash, the boot process ends the same way.\<close>

theorem late_download_unchecked:
  "map_option fst (blsp_mediaboot_main env set_cache (\<lambda>s. s\<lparr>bt_dev := f (bt_dev s)\<rparr>) hdr rb s)
   = map_option fst (blsp_mediaboot_main env set_cache (\<lambda>s. s) hdr rb s)"
  by (auto simp: blsp_mediaboot_main_def blsp_boot2_jump_entry_def fix_entries_def cp_copy_def Let_def
      case_prod_unfold split: option.splits)

end
