(* ===== verification/BootMain.thy ===== *)
theory BootMain
  imports SecureBoot
begin

text \<open>
  \<open>robot_bootloader/main.c\<close>: choosing the firmware.  The active partition table is read, the
  firmware's entry looked up, an image that arrived over the air is copied to its slot and the
  table switched over, and the image of the entry is booted.  The C variables of \<open>main_task\<close>
  that live across the loop are the record \<open>main_vars\<close>.  Printing, the watchdog set-up and the
  passing of parameters to the application (an empty function on this chip) are left out.
\<close>

section \<open>Copying an over-the-air image\<close>

text \<open>The loop of \<open>blsp_boot2_do_fw_copy\<close>; \<open>None\<close> is an access outside the read buffer.\<close>

definition BOOT2_FLASH_ERASE_ERROR :: u32 where "BOOT2_FLASH_ERASE_ERROR = 0x0003"
definition BOOT2_FLASH_WRITE_ERROR :: u32 where "BOOT2_FLASH_WRITE_ERROR = 0x0006"

definition copy_piece :: "u32 \<Rightarrow> u32 \<Rightarrow> u32" where
  "copy_piece deal_len total_len =
     (let cur_len = total_len - deal_len
      in if cur_len > BFLB_BOOT2_READBUF_SIZE then BFLB_BOOT2_READBUF_SIZE else cur_len)"

lemma copy_piece_eq:
  "d \<le> t \<Longrightarrow> unat (copy_piece d t) = min 256 (unat t - unat d)"
  by (auto simp: copy_piece_def BFLB_BOOT2_READBUF_SIZE_def Let_def unat_sub word_less_nat_alt)

lemma copy_piece_step:
  assumes "d < t"
  shows "0 < unat (copy_piece d t)" "unat (d + copy_piece d t) = unat d + unat (copy_piece d t)"
    "unat d + unat (copy_piece d t) \<le> unat t"
proof -
  have p: "unat (copy_piece d t) = min 256 (unat t - unat d)" using assms by (intro copy_piece_eq) simp
  have l: "unat d < unat t" using assms by (simp add: word_less_nat_alt)
  then show "0 < unat (copy_piece d t)" and le: "unat d + unat (copy_piece d t) \<le> unat t" using p by simp_all
  show "unat (d + copy_piece d t) = unat d + unat (copy_piece d t)"
    using le unsigned_less [of t, where 'a = nat] by (intro unat_add_lt) simp
qed

lemma copy_piece_dec: "d < t \<Longrightarrow> unat t - unat (d + copy_piece d t) < unat t - unat d"
  using copy_piece_step [of d t] by simp

function fw_copy_loop :: "'f boot_env \<Rightarrow> u32 \<Rightarrow> u32 \<Rightarrow> u32 \<Rightarrow> u32 \<Rightarrow> 'f boot \<Rightarrow> (u32 \<times> 'f boot) option" where
  "fw_copy_loop env src_address dest_address deal_len total_len s =
     (if deal_len < total_len then
        (let cur_len = copy_piece deal_len total_len
         in case boot_read env src_address 0 (unat cur_len) s of
              None \<Rightarrow> None
            | Some s1 \<Rightarrow>
                (let (r, d) = fl_write (be_flash env) dest_address (seg (bt_buf s1) 0 (unat cur_len)) (bt_dev s1);
                     s2 = s1\<lparr>bt_dev := d\<rparr>
                 in if r \<noteq> SUCCESS then Some (BOOT2_FLASH_WRITE_ERROR, s2)
                    else fw_copy_loop env (src_address + cur_len) (dest_address + cur_len) (deal_len + cur_len) total_len s2))
      else Some (BFLB_BOOT2_SUCCESS, s))"
  by pat_completeness auto
termination
  by (relation "measure (\<lambda>(e, a, b, d, t, s). unat t - unat d)")
    (auto simp: copy_piece_dec)

declare fw_copy_loop.simps [simp del]

definition blsp_boot2_do_fw_copy :: "'f boot_env \<Rightarrow> bytes \<Rightarrow> 'f boot \<Rightarrow> (u32 \<times> 'f boot) option" where
  "blsp_boot2_do_fw_copy env e s =
     (let active_index = entry_active_index e;
          src_address = entry_start_address e (active_bit active_index);
          dest_address = entry_start_address e (other_bit active_index);
          dest_max_size = entry_max_len e (other_bit active_index);
          (r, d) = fl_erase (be_flash env) dest_address dest_max_size (bt_dev s);
          s1 = s\<lparr>bt_dev := d\<rparr>
      in if r \<noteq> SUCCESS then Some (BOOT2_FLASH_ERASE_ERROR, s1)
         else fw_copy_loop env src_address dest_address 0 (entry_len e) s1)"

section \<open>Choosing the firmware\<close>

text \<open>
  \<open>blsp_boot2_deal_one_fw\<close>: the result (0: the table changed, read it again), the table and entry
  in memory, and the state.  The decompression of packed images is not built for this chip.
\<close>

definition blsp_boot2_deal_one_fw ::
  "'f boot_env \<Rightarrow> pt_table_id_type \<Rightarrow> bytes \<Rightarrow> bytes \<Rightarrow> bytes option \<Rightarrow> u32 \<Rightarrow> 'f boot
   \<Rightarrow> (u32 \<times> bytes \<times> bytes \<times> 'f boot) option" where
  "blsp_boot2_deal_one_fw env active_id pt_stuff pt_entry fw_name type s =
     (let (ret, found) =
        (case fw_name of
           Some name \<Rightarrow> pt_table_get_active_entries_by_name (Some pt_stuff) name (Some pt_entry)
         | None \<Rightarrow> pt_table_get_active_entries_by_id (Some pt_stuff) type (Some pt_entry));
          e = the found
      in if ret \<noteq> PT_ERROR_SUCCESS then Some (1, pt_stuff, e, s)
         else if entry_active_index e \<ge> 2 then
           (case blsp_boot2_do_fw_copy env e s of
              None \<Rightarrow> None
            | Some (r, s1) \<Rightarrow>
                if r \<noteq> BFLB_BOOT2_SUCCESS then Some (1, pt_stuff, e, s1)
                else
                  (let e1 = wr8 e 2 (word_of_nat (other_bit (entry_active_index e)));
                       e2 = wr32 e1 32 (entry_age e1 + 1);
                       (u, stuff, d) = pt_table_update_entry (be_flash env) (pt_other active_id)
                                         (Some pt_stuff) (Some e2) (bt_dev s1)
                   in Some (if u \<noteq> PT_ERROR_SUCCESS then BFLB_BOOT2_FAIL else 0, the stuff, e2, s1\<lparr>bt_dev := d\<rparr>)))
         else Some (1, pt_stuff, e, s))"

definition MFG_START_REQUEST_OFFSET :: u32 where "MFG_START_REQUEST_OFFSET = (4 + 184) * 1024"

text \<open>
  \<open>blsp_boot2_get_mfg_startreq\<close>: the start request of the manufacturing firmware, 16 bytes read
  from flash into a zeroed buffer of 17, may name the firmware to boot.
\<close>

definition blsp_boot2_get_mfg_startreq ::
  "'f boot_env \<Rightarrow> bytes \<Rightarrow> bytes \<Rightarrow> bytes \<Rightarrow> 'f boot \<Rightarrow> bytes \<times> bytes" where
  "blsp_boot2_get_mfg_startreq env pt_stuff pt_entry user_fw_name s =
     (let (ret, found) = pt_table_get_active_entries_by_name (Some pt_stuff) [0x6D, 0x66, 0x67, 0] (Some pt_entry);
          e = the found
      in if ret \<noteq> PT_ERROR_SUCCESS then (e, user_fw_name)
         else
           (let tmp = snd (fl_read (be_flash env) (entry_start_address e 0 + MFG_START_REQUEST_OFFSET)
                             (replicate 16 0) (bt_dev s)) @ [0];
                len = c_strlen tmp
            in if (tmp ! 0 = 0x30 \<or> tmp ! 0 = 0x31) \<and> len < 9
               then (e, patch user_fw_name 0 (take len tmp)) else (e, user_fw_name)))"

record main_vars =
  mv_entry :: "nat \<Rightarrow> bytes"
  mv_user_fw :: bytes
  mv_mfg :: bool

text \<open>How \<open>main_task\<close> ends; \<open>MUndef\<close> is an access outside an object, \<open>MFuel\<close> a bound on the loops used up.\<close>

datatype main_exit = MJump u32 u32 "aes_region list" | MStay | MIdle | MNoTable | MUndef | MFuel

text \<open>
  One pass of the inner loop: the table is read, the start request looked at, and the entries
  of the CPUs are dealt with.  \<open>Some (True, \<dots>)\<close> asks for another pass (the table changed).
\<close>

definition main_pass ::
  "'f boot_env \<Rightarrow> bytes \<Rightarrow> pt_table_id_type \<Rightarrow> main_vars \<Rightarrow> 'f boot \<Rightarrow> (bool \<times> main_vars \<times> 'f boot) option" where
  "main_pass env stuff active_id m s =
     (let (e0, name) = blsp_boot2_get_mfg_startreq env stuff (mv_entry m 0) (mv_user_fw m) s;
          m1 = m\<lparr>mv_entry := (mv_entry m)(0 := e0), mv_user_fw := name\<rparr>;
          deal = (\<lambda>i nm st m s. case blsp_boot2_deal_one_fw env active_id st (mv_entry m i) nm (word_of_nat i) s of
                    None \<Rightarrow> None
                  | Some (r, st1, e, s1) \<Rightarrow> Some (r = 0, st1, m\<lparr>mv_entry := (mv_entry m)(i := e)\<rparr>, s1));
          by_name = (\<lambda>i. case deal i (Some (drop 1 name)) stuff m1 (s\<lparr>bt_user_hash_ignored := 1\<rparr>) of
                    None \<Rightarrow> None
                  | Some (again, st1, m2, s1) \<Rightarrow>
                      if again then Some (True, m2, s1)
                      else Some (False, m2\<lparr>mv_mfg := True, mv_user_fw := wr8 (mv_user_fw m2) 0 0\<rparr>, s1))
      in if rd8 name 0 = 0x30 then by_name 0
         else if rd8 name 0 = 0x31 \<and> bt_cpu_count s > 1 then by_name 1
         else
           (case deal 0 None stuff m1 s of
              None \<Rightarrow> None
            | Some (again, st1, m2, s1) \<Rightarrow>
                if again then Some (True, m2, s1)
                else if bt_cpu_count s > 1 then
                  (case deal 1 None st1 m2 s1 of
                     None \<Rightarrow> None
                   | Some (again, st2, m3, s2) \<Rightarrow> Some (again, m3, s2))
                else Some (False, m2, s1)))"

text \<open>
  The boot header address of an entry.  The index is not masked: behind the two start addresses
  of the packed structure lie the maximal lengths, the length and the age.
\<close>

definition boot_header_addr :: "bytes \<Rightarrow> u32 option" where
  "boot_header_addr e = (if entry_active_index e < 6 then Some (entry_start_address e (unat (entry_active_index e)))
     else None)"

text \<open>The loops of \<open>main_task\<close>; \<open>bufs\<close> is the old content of the two table buffers on the stack.\<close>

fun main_loop ::
  "'f boot_env \<Rightarrow> (u8 \<Rightarrow> u8 \<Rightarrow> u8 \<Rightarrow> u32 \<Rightarrow> u32) \<Rightarrow> ('f boot \<Rightarrow> 'f boot) \<Rightarrow> bytes \<times> bytes \<Rightarrow> nat
   \<Rightarrow> main_vars \<Rightarrow> 'f boot \<Rightarrow> main_exit \<times> 'f boot" where
  "main_loop env set_cache visit bufs 0 m s = (MFuel, s)"
| "main_loop env set_cache visit bufs (Suc n) m s =
     (case pt_table_get_active_partition_need_lock (be_flash env) (bt_dev s) (Some bufs) of
        (active_id, stuffs) \<Rightarrow>
          if active_id = PT_TABLE_ID_INVALID then (MNoTable, s)
          else
            (case main_pass env ((if active_id = PT_TABLE_ID_0 then fst else snd) (the stuffs)) active_id m s of
               None \<Rightarrow> (MUndef, s)
             | Some (True, m1, s1) \<Rightarrow> main_loop env set_cache visit bufs n m1 s1
             | Some (False, m1, s1) \<Rightarrow>
                 if \<exists>i < bt_cpu_count s1. boot_header_addr (mv_entry m1 i) = None then (MUndef, s1)
                 else
                   (case blsp_mediaboot_main env set_cache visit
                           (\<lambda>i. if i < bt_cpu_count s1 then the (boot_header_addr (mv_entry m1 i)) else 0) False s1 of
                      None \<Rightarrow> (MUndef, s1)
                    | Some (BJump e msp aes, rb, s2) \<Rightarrow> (MJump e msp aes, s2)
                    | Some (BStay, rb, s2) \<Rightarrow> (MStay, s2)
                    | Some (BRet r, rb, s2) \<Rightarrow>
                        if mv_mfg m1 then main_loop env set_cache visit bufs n (m1\<lparr>mv_mfg := False\<rparr>) s2
                        else (MIdle, s2))))"

section \<open>The copy\<close>

lemma boot_read_seg:
  assumes "xip_device (be_flash env) cell" "n \<le> length (bt_buf s)" "unat addr + n \<le> 2 ^ 24"
    "boot_read env addr 0 n s = Some s1"
  shows "seg (bt_buf s1) 0 n = image_at (cell (bt_dev s)) (unat addr) n" "length (bt_buf s1) = length (bt_buf s)"
    "bt_dev s1 = bt_dev s"
  using boot_read_ok [OF assms(1), of 0 n s addr] assms(2-4) by (auto simp: seg_patch_same)

text \<open>
  Whatever happens, the copy writes only to the destination; when it succeeds over erased
  cells, the destination holds what the source held.
\<close>

lemma fw_copy_loop_cells:
  assumes xip: "xip_device (be_flash env) cell" and buf: "length (bt_buf s) = 256" and d: "d \<le> t"
    and src: "unat a + (unat t - unat d) \<le> 2 ^ 24" and dst: "unat b + (unat t - unat d) \<le> 2 ^ 24"
    and apart: "unat a + (unat t - unat d) \<le> unat b \<or> unat b + (unat t - unat d) \<le> unat a"
    and run: "fw_copy_loop env a b d t s = Some (r, s')"
  shows "(\<forall>x. x < unat b \<or> unat b + (unat t - unat d) \<le> x \<longrightarrow> cell (bt_dev s') x = cell (bt_dev s) x) \<and>
    (r = 0 \<longrightarrow> (\<forall>i < unat t - unat d. cell (bt_dev s') (unat b + i)
       = cell (bt_dev s) (unat b + i) AND cell (bt_dev s) (unat a + i)))"
  using assms
proof (induction "unat t - unat d" arbitrary: a b d s rule: less_induct)
  case less
  show ?case
  proof (cases "d < t")
    case False
    then show ?thesis using less.prems(3,7) by (simp add: fw_copy_loop.simps)
  next
    case True
    define k where "k = copy_piece d t"
    note st = copy_piece_step [OF True, folded k_def]
    have k: "unat k \<le> 256" using copy_piece_eq [OF less.prems(3)] by (simp add: k_def)
    obtain s1 where rd: "boot_read env a 0 (unat k) s = Some s1"
      using boot_read_ok [OF less.prems(1), of 0 "unat k" s a] less.prems(2,4) st k by auto
    note im = boot_read_seg [OF less.prems(1) _ _ rd]
    have n: "unat k \<le> length (bt_buf s)" "unat a + unat k \<le> 2 ^ 24" "unat b + unat k \<le> 2 ^ 24"
      using less.prems(2,4,5) st k by simp_all
    note im = im [OF n(1,2)]
    let ?p = "image_at (cell (bt_dev s)) (unat a) (unat k)"
    obtain q d1 where w: "fl_write (be_flash env) b ?p (bt_dev s) = (q, d1)" by fastforce
    let ?s2 = "s1\<lparr>bt_dev := d1\<rparr>"
    note fd = xip_device.axioms(1) [OF less.prems(1)]
    have fr: "cell d1 x = cell (bt_dev s) x" if "x < unat b \<or> unat b + unat k \<le> x" for x
      by (rule flash_device.write_frame [OF fd w]) (use n that in simp_all)
    have run: "(if q \<noteq> SUCCESS then Some (BOOT2_FLASH_WRITE_ERROR, ?s2)
        else fw_copy_loop env (a + k) (b + k) (d + k) t ?s2) = Some (r, s')"
      using less.prems(7) True rd im w by (subst (asm) fw_copy_loop.simps) (simp add: Let_def flip: k_def)
    show ?thesis
    proof (cases "q = SUCCESS")
      case False
      then show ?thesis using run st by (auto simp: BOOT2_FLASH_WRITE_ERROR_def intro!: fr)
    next
      case ok: True
      have u: "unat (a + k) = unat a + unat k" "unat (b + k) = unat b + unat k" "unat (d + k) = unat d + unat k"
        using n st less.prems(4,5) by (simp_all add: unat_add_lt)
      have rest: "(\<forall>x. x < unat (b + k) \<or> unat (b + k) + (unat t - unat (d + k)) \<le> x \<longrightarrow>
            cell (bt_dev s') x = cell (bt_dev ?s2) x) \<and>
          (r = 0 \<longrightarrow> (\<forall>i < unat t - unat (d + k). cell (bt_dev s') (unat (b + k) + i)
            = cell (bt_dev ?s2) (unat (b + k) + i) AND cell (bt_dev ?s2) (unat (a + k) + i)))"
      proof (rule less.hyps [OF _ less.prems(1)])
        show "fw_copy_loop env (a + k) (b + k) (d + k) t ?s2 = Some (r, s')" using run ok by simp
        show "length (bt_buf ?s2) = 256" using im less.prems(2) by simp
      qed (use u st less.prems(4-6) in \<open>auto simp: word_le_nat_alt\<close>)
      have cells: "cell d1 (unat b + i) = cell (bt_dev s) (unat b + i) AND cell (bt_dev s) (unat a + i)" if "i < unat k" for i
        using flash_device.write_cells [OF fd w [unfolded ok], of i] n that by (simp add: image_at_def)
      have src1: "cell d1 (unat a + i) = cell (bt_dev s) (unat a + i)" if "i < unat t - unat d" for i
        by (rule fr) (use less.prems(6) that st in auto)
      show ?thesis
      proof (intro conjI allI impI)
        fix x assume "x < unat b \<or> unat b + (unat t - unat d) \<le> x"
        then show "cell (bt_dev s') x = cell (bt_dev s) x" using rest u st by (auto intro!: fr)
      next
        fix i assume r: "r = 0" and i: "i < unat t - unat d"
        show "cell (bt_dev s') (unat b + i) = cell (bt_dev s) (unat b + i) AND cell (bt_dev s) (unat a + i)"
        proof (cases "i < unat k")
          case True
          then show ?thesis using rest u cells by simp
        next
          case False
          then have j: "i = unat k + (i - unat k)" "i - unat k < unat t - unat (d + k)" using i u st by simp_all
          then have "cell (bt_dev s') (unat b + i) = cell d1 (unat b + i) AND cell d1 (unat a + i)"
            using rest [THEN conjunct2, rule_format, OF r j(2)] u False by simp
          then show ?thesis using src1 [OF i] fr [of "unat b + i"] False by simp
        qed
      qed
    qed
  qed
qed

text \<open>
  The layout of an entry that can be copied: two disjoint slots, the destination made of whole
  sectors outside the partition tables and large enough for the image.
\<close>

definition ota_entry :: "bytes \<Rightarrow> bool" where
  "ota_entry e \<longleftrightarrow>
     (let a = entry_active_index e; src = unat (entry_start_address e (active_bit a));
          dst = unat (entry_start_address e (other_bit a)); mx = unat (entry_max_len e (other_bit a));
          n = unat (entry_len e)
      in length e = PT_ENTRY_SIZE \<and> src + n \<le> 2 ^ 24 \<and> dst + mx \<le> 2 ^ 24 \<and> dst mod 4096 = 0 \<and> mx mod 4096 = 0 \<and>
         0 < mx \<and> n \<le> mx \<and> (src + n \<le> dst \<or> dst + mx \<le> src) \<and> (dst + mx \<le> 0x2D000 \<or> 0x2F000 \<le> dst))"

lemma whole_sectors: "dst mod 4096 = 0 \<Longrightarrow> mx mod 4096 = 0 \<Longrightarrow> 0 < mx \<Longrightarrow> (dst + mx - 1) div 4096 * 4096 + 4096 = dst + mx"
  for dst mx :: nat
proof -
  assume "dst mod 4096 = 0" "mx mod 4096 = 0" "0 < mx"
  then have "4096 dvd dst + mx" "0 < dst + mx" by (auto simp: mod_eq_0_iff_dvd)
  then obtain k where k: "dst + mx = 4096 * k" "0 < k" by (auto elim!: dvdE)
  then obtain j where "k = Suc j" by (cases k) auto
  then have n: "dst + mx = 4096 * j + 4096" using k(1) by simp
  then have "dst + mx - 1 = 4095 + j * 4096" by simp
  moreover have "(4095 + j * 4096) div 4096 = j" by simp
  ultimately show ?thesis using n by simp
qed

lemma do_fw_copy_cells:
  assumes xip: "xip_device (be_flash env) cell" and buf: "length (bt_buf s) = 256" and e: "ota_entry e"
    and run: "blsp_boot2_do_fw_copy env e s = Some (r, s')"
  defines "src \<equiv> unat (entry_start_address e (active_bit (entry_active_index e)))"
    and "dst \<equiv> unat (entry_start_address e (other_bit (entry_active_index e)))"
    and "mx \<equiv> unat (entry_max_len e (other_bit (entry_active_index e)))"
  shows "(\<forall>x. x < dst \<or> dst + mx \<le> x \<longrightarrow> cell (bt_dev s') x = cell (bt_dev s) x) \<and>
    (r = 0 \<longrightarrow> image_at (cell (bt_dev s')) dst (unat (entry_len e)) = image_at (cell (bt_dev s)) src (unat (entry_len e)))"
proof -
  let ?a = "entry_start_address e (active_bit (entry_active_index e))"
  let ?b = "entry_start_address e (other_bit (entry_active_index e))"
  let ?m = "entry_max_len e (other_bit (entry_active_index e))"
  have o: "src + unat (entry_len e) \<le> 2 ^ 24" "dst + mx \<le> 2 ^ 24" "dst mod 4096 = 0" "mx mod 4096 = 0"
    "0 < mx" "unat (entry_len e) \<le> mx" "src + unat (entry_len e) \<le> dst \<or> dst + mx \<le> src"
    using e by (simp_all add: ota_entry_def Let_def src_def dst_def mx_def)
  note fd = xip_device.axioms(1) [OF xip]
  obtain q d where er: "fl_erase (be_flash env) ?b ?m (bt_dev s) = (q, d)" by fastforce
  have m0: "0 < ?m" using o(5) by (simp add: mx_def word_less_nat_alt)
  have end_eq: "(unat ?b + unat ?m - 1) div 4096 * 4096 + 4096 = dst + mx"
    using whole_sectors [OF o(3,4,5)] by (simp add: dst_def mx_def)
  have start_eq: "unat ?b div 4096 * 4096 = dst" using o(3) by (simp add: dst_def) (metis div_mult_mod_eq add.right_neutral)
  have fr: "cell d x = cell (bt_dev s) x" if "x < dst \<or> dst + mx \<le> x" for x
    by (rule flash_device.erase_frame [OF fd er m0, unfolded end_eq start_eq])
      (use o(2) that in \<open>simp_all add: dst_def mx_def\<close>)
  show ?thesis
  proof (cases "q = SUCCESS")
    case False
    then show ?thesis using run er fr
      by (auto simp: blsp_boot2_do_fw_copy_def Let_def BOOT2_FLASH_ERASE_ERROR_def)
  next
    case True
    have ff: "cell d x = 0xFF" if "dst \<le> x" "x < dst + mx" for x
      by (rule flash_device.erase_cells [OF fd er [unfolded True] m0, unfolded end_eq start_eq])
        (use o(2) that in \<open>simp_all add: dst_def mx_def\<close>)
    have run: "fw_copy_loop env ?a ?b 0 (entry_len e) (s\<lparr>bt_dev := d\<rparr>) = Some (r, s')"
      using run er True by (simp add: blsp_boot2_do_fw_copy_def Let_def)
    have c: "(\<forall>x. x < unat ?b \<or> unat ?b + (unat (entry_len e) - unat (0 :: u32)) \<le> x \<longrightarrow>
          cell (bt_dev s') x = cell (bt_dev (s\<lparr>bt_dev := d\<rparr>)) x) \<and>
        (r = 0 \<longrightarrow> (\<forall>i < unat (entry_len e) - unat (0 :: u32). cell (bt_dev s') (unat ?b + i)
         = cell (bt_dev (s\<lparr>bt_dev := d\<rparr>)) (unat ?b + i) AND cell (bt_dev (s\<lparr>bt_dev := d\<rparr>)) (unat ?a + i)))"
      by (rule fw_copy_loop_cells [OF xip _ _ _ _ _ run]) (use buf o in \<open>auto simp: src_def dst_def\<close>)
    have same: "cell d (src + i) = cell (bt_dev s) (src + i)" if "i < unat (entry_len e)" for i
      by (rule fr) (use that o(7) in auto)
    have "cell (bt_dev s') (dst + i) = cell (bt_dev s) (src + i)" if "r = 0" "i < unat (entry_len e)" for i
      using c that ff [of "dst + i"] o(6) same [OF that(2)]
      by (simp add: dst_def [symmetric] src_def [symmetric] and_0xFF_u8 and.commute [of "0xFF :: u8"])
    moreover have "cell (bt_dev s') x = cell (bt_dev s) x" if "x < dst \<or> dst + mx \<le> x" for x
      using c fr [OF that] that o(6) by (auto simp: dst_def)
    ultimately show ?thesis by (auto simp: image_at_def)
  qed
qed

section \<open>The copy and the partition table together\<close>

context flash_device
begin

text \<open>An update of the table touches nothing outside the two table sectors.\<close>

lemma update_local:
  assumes act: "pt_active (cell f) = i" "i \<noteq> PT_TABLE_ID_INVALID"
    and upd: "pt_table_update_entry gp (pt_other i) (Some (pt_stored (cell f) i)) (Some e) f = (r, st, f')"
    and e: "length e = PT_ENTRY_SIZE" and x: "x < 0x2D000 \<or> 0x2F000 \<le> x"
  shows "cell f' x = cell f x"
proof (cases "pt_put_entry (pt_stored (cell f) i) e")
  case None
  with upd act show ?thesis
    by (auto simp: pt_table_update_entry_def Let_def split: if_splits)
next
  case (Some s1)
  let ?s2 = "pt_seal (wr32 s1 8 (pt_age s1 + 1))" and ?j = "pt_other i"
  let ?n = "word_of_nat (PT_CONFIG_SIZE + pt_count ?s2 * PT_ENTRY_SIZE + 4) :: u32"
  have wf: "pt_wf (wr32 s1 8 (pt_age s1 + 1))" by (rule put_entry_wf [OF act Some e])
  then have wf2: "pt_wf ?s2" by (auto simp: pt_wf_def [of ?s2] frame) (simp add: pt_wf_def)+
  note u = used_bounds [OF wf2]
  have n: "0 < ?n" "unat ?n \<le> 596" "0 < unat ?n" using u by (simp_all add: PT_STUFF_SIZE_def word_less_nat_alt)
  have a: "unat (pt_table_address ?j) = 0x2D000 \<or> unat (pt_table_address ?j) = 0x2E000" by (simp add: pt_addresses)
  obtain r1 f1 where er: "fl_erase gp (pt_table_address ?j) ?n f = (r1, f1)" by fastforce
  have sec: "(unat (pt_table_address ?j) + unat ?n - 1) div 4096 * 4096 + 4096 = unat (pt_table_address ?j) + 4096"
    "unat (pt_table_address ?j) div 4096 * 4096 = unat (pt_table_address ?j)"
    using a n(2,3) by (auto simp: div_nat_eqI)
  have k1: "cell f1 x = cell f x"
    by (rule erase_frame [OF er n(1), unfolded sec]) (use a n(2) x in auto)
  obtain r2 f2 where w: "fl_write gp (pt_table_address ?j) ?s2 f1 = (r2, f2)" by fastforce
  have "length ?s2 = 596" using wf by (simp add: PT_STUFF_SIZE_def)
  then have k2: "cell f2 x = cell f1 x"
    by (intro write_frame [OF w]) (use a x in auto)
  have "?j \<noteq> PT_TABLE_ID_INVALID" by (simp add: pt_other_def)
  with upd Some er w have "f' = f1 \<or> f' = f2"
    by (auto simp: pt_table_update_entry_def Let_def split: if_splits)
  then show ?thesis using k1 k2 by auto
qed

end

lemma stored_cong:
  assumes "\<And>x. 0x2D000 \<le> x \<Longrightarrow> x < 0x2F000 \<Longrightarrow> m' x = m x"
  shows "pt_stored m' i = pt_stored m i" "pt_active m' = pt_active m"
proof -
  show st: "pt_stored m' i = pt_stored m i" for i
    by (rule image_at_cong) (use assms in \<open>auto simp: pt_addresses PT_STUFF_SIZE_def\<close>)
  show "pt_active m' = pt_active m" by (simp only: pt_active_def st)
qed

text \<open>The entry that is written after the copy.\<close>

definition ota_done :: "bytes \<Rightarrow> bytes" where
  "ota_done e = (let e1 = wr8 e 2 (word_of_nat (other_bit (entry_active_index e))) in wr32 e1 32 (entry_age e1 + 1))"

lemma ota_done_fields:
  assumes "length e = PT_ENTRY_SIZE"
  shows "length (ota_done e) = PT_ENTRY_SIZE" "entry_type (ota_done e) = entry_type e"
    "entry_active_index (ota_done e) = word_of_nat (other_bit (entry_active_index e))"
    "k < 2 \<Longrightarrow> entry_start_address (ota_done e) k = entry_start_address e k"
    "entry_len (ota_done e) = entry_len e" "entry_age (ota_done e) = entry_age e + 1"
  using assms
  by (simp_all add: ota_done_def Let_def PT_ENTRY_SIZE_def entry_type_def entry_active_index_def entry_start_address_def
      entry_len_def entry_age_def layout)

lemma other_bit_u8 [simp]: "unat (word_of_nat (other_bit a) :: u8) = other_bit a" "other_bit a < 2"
  by (simp_all add: other_bit_def)

lemma deal_ota:
  assumes found: "pt_table_get_active_entries_by_id (Some stuff) type (Some e0) = (PT_ERROR_SUCCESS, Some e)"
    and idx: "2 \<le> entry_active_index e"
  shows "blsp_boot2_deal_one_fw env i stuff e0 None type s =
    (case blsp_boot2_do_fw_copy env e s of
       None \<Rightarrow> None
     | Some (r, s1) \<Rightarrow>
         if r \<noteq> BFLB_BOOT2_SUCCESS then Some (1, stuff, e, s1)
         else
           (let (u, st, d) = pt_table_update_entry (be_flash env) (pt_other i) (Some stuff) (Some (ota_done e)) (bt_dev s1)
            in Some (if u \<noteq> PT_ERROR_SUCCESS then BFLB_BOOT2_FAIL else 0, the st, ota_done e, s1\<lparr>bt_dev := d\<rparr>)))"
  using idx unfolding blsp_boot2_deal_one_fw_def ota_done_def Let_def option.case found prod.case option.sel by simp

lemma ota_copy_tables:
  assumes "xip_device (be_flash env) cell" "length (bt_buf s) = 256" "ota_entry e"
    "blsp_boot2_do_fw_copy env e s = Some (r, s')"
  shows "pt_stored (cell (bt_dev s')) i = pt_stored (cell (bt_dev s)) i" "pt_active (cell (bt_dev s')) = pt_active (cell (bt_dev s))"
proof -
  have "cell (bt_dev s') x = cell (bt_dev s) x" if "0x2D000 \<le> x" "x < 0x2F000" for x
    using assms(3) do_fw_copy_cells [OF assms, THEN conjunct1] that by (auto simp: ota_entry_def Let_def)
  then show "pt_stored (cell (bt_dev s')) i = pt_stored (cell (bt_dev s)) i" "pt_active (cell (bt_dev s')) = pt_active (cell (bt_dev s))"
    using stored_cong [of "cell (bt_dev s')" "cell (bt_dev s)"] by blast+
qed

lemma ota_install_cells:
  assumes xip: "xip_device (be_flash env) cell" and buf: "length (bt_buf s) = 256"
    and act: "pt_active (cell (bt_dev s)) = i" "i \<noteq> PT_TABLE_ID_INVALID"
    and found: "pt_table_get_active_entries_by_id (Some (pt_stored (cell (bt_dev s)) i)) type (Some e0) = (PT_ERROR_SUCCESS, Some e)"
    and e: "ota_entry e" "2 \<le> entry_active_index e" and age: "pt_age (pt_stored (cell (bt_dev s)) i) \<noteq> - 1"
    and run: "blsp_boot2_deal_one_fw env i (pt_stored (cell (bt_dev s)) i) e0 None type s = Some (0, st, e', s')"
  shows "e' = ota_done e" "pt_active (cell (bt_dev s')) = pt_other i"
    "pt_table_get_active_entries_by_id (Some (pt_stored (cell (bt_dev s')) (pt_other i))) (ucast (entry_type e)) (Some b)
      = (PT_ERROR_SUCCESS, Some e')"
    "image_at (cell (bt_dev s')) (unat (entry_start_address e (other_bit (entry_active_index e)))) (unat (entry_len e))
      = image_at (cell (bt_dev s)) (unat (entry_start_address e (active_bit (entry_active_index e)))) (unat (entry_len e))"
proof -
  let ?stuff = "pt_stored (cell (bt_dev s)) i"
  obtain s1 u so d where cp: "blsp_boot2_do_fw_copy env e s = Some (0, s1)"
    and up: "pt_table_update_entry (be_flash env) (pt_other i) (Some ?stuff) (Some (ota_done e)) (bt_dev s1) = (PT_ERROR_SUCCESS, so, d)"
    and res: "e' = ota_done e" "s' = s1\<lparr>bt_dev := d\<rparr>"
    using run unfolding deal_ota [OF found e(2)]
    by (auto simp: Let_def boot2_codes split: option.splits if_splits prod.splits)
  note fd = xip_device.axioms(1) [OF xip]
  note c = do_fw_copy_cells [OF xip buf e(1) cp]
  have o: "length e = PT_ENTRY_SIZE"
    "unat (entry_start_address e (other_bit (entry_active_index e))) + unat (entry_max_len e (other_bit (entry_active_index e))) \<le> 0x2D000
     \<or> 0x2F000 \<le> unat (entry_start_address e (other_bit (entry_active_index e)))"
    "unat (entry_len e) \<le> unat (entry_max_len e (other_bit (entry_active_index e)))"
    using e(1) by (simp_all add: ota_entry_def Let_def)
  have tab: "pt_stored (cell (bt_dev s1)) j = pt_stored (cell (bt_dev s)) j" "pt_active (cell (bt_dev s1)) = i" for j
    using ota_copy_tables [OF xip buf e(1) cp] act by simp_all
  note f = ota_done_fields [OF o(1)]
  note us = flash_device.update_success [OF fd tab(2) act(2), unfolded tab, OF up f(1) age]
  show "e' = ota_done e" by (rule res)
  show "pt_active (cell (bt_dev s')) = pt_other i" using us(1) res by simp
  show "pt_table_get_active_entries_by_id (Some (pt_stored (cell (bt_dev s')) (pt_other i))) (ucast (entry_type e)) (Some b)
      = (PT_ERROR_SUCCESS, Some e')" using us(2) [of b] res f(2) by simp
  have "cell d x = cell (bt_dev s1) x" if "x < 0x2D000 \<or> 0x2F000 \<le> x" for x
    by (rule flash_device.update_local [OF fd tab(2) act(2), unfolded tab, OF up f(1) that])
  then have "image_at (cell d) (unat (entry_start_address e (other_bit (entry_active_index e)))) (unat (entry_len e))
      = image_at (cell (bt_dev s1)) (unat (entry_start_address e (other_bit (entry_active_index e)))) (unat (entry_len e))"
    using o(2,3) by (intro image_at_cong) auto
  then show "image_at (cell (bt_dev s')) (unat (entry_start_address e (other_bit (entry_active_index e)))) (unat (entry_len e))
      = image_at (cell (bt_dev s)) (unat (entry_start_address e (active_bit (entry_active_index e)))) (unat (entry_len e))"
    using c res by simp
qed

section \<open>On a flash that works the installation succeeds\<close>

lemma fw_copy_loop_some:
  assumes "xip_device (be_flash env) cell" "length (bt_buf s) = 256" "d \<le> t" "unat a + (unat t - unat d) \<le> 2 ^ 24"
    "unat b + (unat t - unat d) \<le> 2 ^ 24"
  shows "\<exists>r s'. fw_copy_loop env a b d t s = Some (r, s') \<and>
    ((\<forall>x p c. unat x + length p \<le> 2 ^ 24 \<longrightarrow> fst (fl_write (be_flash env) x p c) = SUCCESS) \<longrightarrow> r = 0)"
  using assms
proof (induction "unat t - unat d" arbitrary: a b d s rule: less_induct)
  case less
  show ?case
  proof (cases "d < t")
    case True
    define k where "k = copy_piece d t"
    note st = copy_piece_step [OF True, folded k_def]
    have k: "unat k \<le> 256" using copy_piece_eq [OF less.prems(3)] by (simp add: k_def)
    obtain s1 where rd: "boot_read env a 0 (unat k) s = Some s1"
      using boot_read_ok [OF less.prems(1), of 0 "unat k" s a] less.prems(2,4) st k by auto
    have l: "length (bt_buf s1) = 256"
      using boot_read_seg(2) [OF less.prems(1) _ _ rd] less.prems(2,4) st k by simp
    obtain q d1 where w: "fl_write (be_flash env) b (seg (bt_buf s1) 0 (unat k)) (bt_dev s1) = (q, d1)" by fastforce
    have u: "unat (a + k) = unat a + unat k" "unat (b + k) = unat b + unat k"
      using st less.prems(4,5) by (simp_all add: unat_add_lt)
    have "\<exists>r s'. fw_copy_loop env (a + k) (b + k) (d + k) t (s1\<lparr>bt_dev := d1\<rparr>) = Some (r, s') \<and>
        ((\<forall>x p c. unat x + length p \<le> 2 ^ 24 \<longrightarrow> fst (fl_write (be_flash env) x p c) = SUCCESS) \<longrightarrow> r = 0)"
      by (rule less.hyps [OF _ less.prems(1)]) (use u st l less.prems(4,5) in \<open>auto simp: word_le_nat_alt\<close>)
    moreover have "q = SUCCESS"
      if ok: "\<forall>x p c. unat x + length p \<le> 2 ^ 24 \<longrightarrow> fst (fl_write (be_flash env) x p c) = SUCCESS"
    proof -
      have "unat b + length (seg (bt_buf s1) 0 (unat k)) \<le> 2 ^ 24" using st k l less.prems(5) by (simp add: seg_def)
      then show ?thesis using ok w by (metis fst_conv)
    qed
    ultimately show ?thesis
      using True rd w by (subst fw_copy_loop.simps) (cases "q = SUCCESS", auto simp: Let_def simp flip: k_def)
  qed (simp add: fw_copy_loop.simps boot2_codes)
qed

lemma do_fw_copy_some:
  assumes "xip_device (be_flash env) cell" "length (bt_buf s) = 256" "ota_entry e"
  shows "\<exists>r s'. blsp_boot2_do_fw_copy env e s = Some (r, s') \<and>
    ((\<forall>a n d. 0 < n \<longrightarrow> unat a + unat n \<le> 2 ^ 24 \<longrightarrow> fst (fl_erase (be_flash env) a n d) = SUCCESS) \<longrightarrow>
     (\<forall>a bs d. unat a + length bs \<le> 2 ^ 24 \<longrightarrow> fst (fl_write (be_flash env) a bs d) = SUCCESS) \<longrightarrow> r = 0)"
proof -
  obtain q d where er: "fl_erase (be_flash env) (entry_start_address e (other_bit (entry_active_index e)))
      (entry_max_len e (other_bit (entry_active_index e))) (bt_dev s) = (q, d)" by fastforce
  obtain r s' where c: "fw_copy_loop env (entry_start_address e (active_bit (entry_active_index e)))
      (entry_start_address e (other_bit (entry_active_index e))) 0 (entry_len e) (s\<lparr>bt_dev := d\<rparr>) = Some (r, s')"
    "(\<forall>a bs d. unat a + length bs \<le> 2 ^ 24 \<longrightarrow> fst (fl_write (be_flash env) a bs d) = SUCCESS) \<longrightarrow> r = 0"
    using fw_copy_loop_some [OF assms(1), of "s\<lparr>bt_dev := d\<rparr>" 0 "entry_len e"
        "entry_start_address e (active_bit (entry_active_index e))"
        "entry_start_address e (other_bit (entry_active_index e))"] assms(2,3)
    by (fastforce simp: ota_entry_def Let_def)
  have "q = SUCCESS" if ok: "\<forall>a n d. 0 < n \<longrightarrow> unat a + unat n \<le> 2 ^ 24 \<longrightarrow> fst (fl_erase (be_flash env) a n d) = SUCCESS"
  proof -
    have "0 < entry_max_len e (other_bit (entry_active_index e))" "unat (entry_start_address e (other_bit (entry_active_index e)))
        + unat (entry_max_len e (other_bit (entry_active_index e))) \<le> 2 ^ 24"
      using assms(3) by (auto simp: ota_entry_def Let_def word_less_nat_alt)
    then show ?thesis using ok er by (metis fst_conv)
  qed
  then show ?thesis using er c by (auto simp: blsp_boot2_do_fw_copy_def Let_def)
qed

text \<open>An entry that was found in the table can be put back.\<close>

lemma put_found:
  assumes found: "pt_table_get_active_entries_by_id (Some s) type (Some b) = (PT_ERROR_SUCCESS, Some e)"
    and e: "entry_type e' = entry_type e"
  shows "pt_put_entry s e' \<noteq> None"
proof -
  let ?P = "\<lambda>i. ucast (entry_type (pt_entries s i)) = type"
  let ?j = "pt_scan ?P 0 (pt_count s)"
  have j: "?j < pt_count s" "pt_entries s ?j = e"
    using found by (auto simp: pt_table_get_active_entries_by_id_def Let_def split: if_splits)
  have "?P = (\<lambda>i. entry_type (pt_entries s i) = entry_type e')"
    using pt_scan_hit [OF j(1)] j(2) e by (auto simp: ucast_u8_inj)
  then show ?thesis using j(1) by (simp add: pt_put_entry_def Let_def)
qed

lemma update_works:
  assumes fd: "flash_device gp cell"
    and erases: "\<And>a n d. 0 < n \<Longrightarrow> unat a + unat n \<le> 2 ^ 24 \<Longrightarrow> fst (fl_erase gp a n d) = SUCCESS"
    and writes: "\<And>a bs d. unat a + length bs \<le> 2 ^ 24 \<Longrightarrow> fst (fl_write gp a bs d) = SUCCESS"
    and t: "pt_wf tab" "pt_put_entry tab e = Some s1" "length e = PT_ENTRY_SIZE" "j \<noteq> PT_TABLE_ID_INVALID"
  shows "\<exists>st d. pt_table_update_entry gp j (Some tab) (Some e) c = (PT_ERROR_SUCCESS, st, d)"
proof -
  let ?s = "pt_seal (wr32 s1 8 (pt_age s1 + 1))"
  have "pt_wf s1" by (rule pt_put_entry_wf(1) [OF t(2,1,3)])
  then have "pt_wf (wr32 s1 8 (pt_age s1 + 1))" by (simp add: pt_wf_def pt_sizes pt_field_defs layout)
  then have wf: "pt_wf ?s" by (auto simp: pt_wf_def [of ?s] frame) (simp add: pt_wf_def)+
  note u = flash_device.used_bounds [OF fd wf]
  have "fst (fl_erase gp (pt_table_address j) (word_of_nat (PT_CONFIG_SIZE + pt_count ?s * PT_ENTRY_SIZE + 4)) c) = SUCCESS"
    by (rule erases) (use u in \<open>simp_all add: pt_addresses PT_STUFF_SIZE_def\<close>)
  moreover have "unat (pt_table_address j) + length ?s \<le> 2 ^ 24"
    using wf by (simp add: pt_wf_def pt_addresses PT_STUFF_SIZE_def)
  ultimately have "fst (pt_table_update_entry gp j (Some tab) (Some e) c) = PT_ERROR_SUCCESS"
    using t(2,4) writes by (simp add: pt_table_update_entry_def Let_def case_prod_unfold)
  then show ?thesis by (metis prod.collapse)
qed

text \<open>The whole installation: no erase and no write fails, so the table is switched.\<close>

lemma deal_works:
  assumes xip: "xip_device (be_flash env) cell" and buf: "length (bt_buf s) = 256"
    and erases: "\<And>a n d. 0 < n \<Longrightarrow> unat a + unat n \<le> 2 ^ 24 \<Longrightarrow> fst (fl_erase (be_flash env) a n d) = SUCCESS"
    and writes: "\<And>a bs d. unat a + length bs \<le> 2 ^ 24 \<Longrightarrow> fst (fl_write (be_flash env) a bs d) = SUCCESS"
    and act: "pt_active (cell (bt_dev s)) = i" "i \<noteq> PT_TABLE_ID_INVALID"
    and found: "pt_table_get_active_entries_by_id (Some (pt_stored (cell (bt_dev s)) i)) type (Some e0) = (PT_ERROR_SUCCESS, Some e)"
    and e: "ota_entry e" "2 \<le> entry_active_index e"
  shows "\<exists>st s'. blsp_boot2_deal_one_fw env i (pt_stored (cell (bt_dev s)) i) e0 None type s = Some (0, st, ota_done e, s')"
proof -
  have l: "length e = PT_ENTRY_SIZE" using e(1) by (simp add: ota_entry_def Let_def)
  note f = ota_done_fields [OF l]
  obtain s1 where cp: "blsp_boot2_do_fw_copy env e s = Some (0, s1)"
    using do_fw_copy_some [OF xip buf e(1)] erases writes by blast
  obtain t where put: "pt_put_entry (pt_stored (cell (bt_dev s)) i) (ota_done e) = Some t"
    using put_found [OF found f(2)] by blast
  have wf: "pt_wf (pt_stored (cell (bt_dev s)) i)" by (rule pt_table_valid_wf [OF pt_active_valid [OF act]]) simp
  have "pt_other i \<noteq> PT_TABLE_ID_INVALID" by (simp add: pt_other_def)
  from update_works [OF xip_device.axioms(1) [OF xip] erases writes wf put f(1) this, of "bt_dev s1"]
  obtain st d where "pt_table_update_entry (be_flash env) (pt_other i) (Some (pt_stored (cell (bt_dev s)) i))
      (Some (ota_done e)) (bt_dev s1) = (PT_ERROR_SUCCESS, st, d)" by blast
  then show ?thesis by (simp add: deal_ota [OF found e(2)] cp boot2_codes)
qed

section \<open>An over-the-air image on the simulated chip\<close>

text \<open>
  A table with one entry whose image, the signed one of \<open>fw_chip\<close> in slot 0, waits to be copied to
  slot 1 (active index 2).
\<close>

definition ota_demo :: bytes where
  "ota_demo = [0, 0, 2] @ replicate 9 0 @ le32 0x10000 @ le32 0x40000 @ le32 0x2000 @ le32 0x2000 @ le32 0x1003 @ le32 7"

definition ota_base :: bytes where
  "ota_base = patch (wr32 (wr16 (wr16 (wr32 (replicate 596 0xFF) 0 BFLB_PT_MAGIC_CODE) 4 0) 6 1) 8 5) 16 ota_demo"

definition ota_boot :: "sim_chip boot" where
  "ota_boot = fw_boot\<lparr>bt_dev := fw_chip\<lparr>sim_cells := (\<lambda>x. if 0x2D000 \<le> x \<and> x < 0x2D000 + 596
     then pt_seal ota_base ! (x - 0x2D000) else sim_cells fw_chip x)\<rparr>\<rparr>"

lemma ota_demo_fields: "length ota_demo = PT_ENTRY_SIZE" "entry_type ota_demo = 0" "entry_active_index ota_demo = 2"
  "entry_start_address ota_demo 0 = 0x10000" "entry_start_address ota_demo (Suc 0) = 0x40000"
  "entry_max_len ota_demo (Suc 0) = 0x2000" "entry_len ota_demo = 0x1003" "active_bit 2 = 0" "other_bit 2 = Suc 0"
  by (simp_all add: ota_demo_def PT_ENTRY_SIZE_def entry_type_def entry_active_index_def entry_start_address_def
      entry_max_len_def entry_len_def rd8_def rd32_def nth_append le32_def active_bit_def other_bit_def)

lemma ota_demo_entry: "ota_entry ota_demo"
  by (simp add: ota_entry_def ota_demo_fields)

lemma ota_base_wf: "pt_wf ota_base" "pt_age ota_base = 5" "pt_entryCnt ota_base = 1" "pt_entries ota_base 0 = ota_demo"
  using ota_demo_fields(1)
  by (simp_all add: ota_base_def pt_wf_def pt_sizes pt_field_defs pt_entries_def pt_entry_off_simps layout)

lemma ota_table: "pt_table_valid (pt_seal ota_base)" "pt_age (pt_seal ota_base) = 5" "pt_count (pt_seal ota_base) = 1"
  "pt_entries (pt_seal ota_base) 0 = ota_demo" "length (pt_seal ota_base) = PT_STUFF_SIZE" "pt_wf (pt_seal ota_base)"
proof -
  show 1: "pt_table_valid (pt_seal ota_base)" "pt_age (pt_seal ota_base) = 5" "pt_count (pt_seal ota_base) = 1"
    "pt_entries (pt_seal ota_base) 0 = ota_demo" and 2: "length (pt_seal ota_base) = PT_STUFF_SIZE"
    using ota_base_wf by (simp_all add: pt_seal_valid pt_seal_frame)
  show "pt_wf (pt_seal ota_base)" by (rule pt_table_valid_wf [OF 1(1) 2])
qed

lemma ota_stored: "pt_stored (sim_cells (bt_dev ota_boot)) PT_TABLE_ID_0 = pt_seal ota_base"
  using ota_table(5)
  by (intro nth_equalityI) (simp_all add: image_at_def ota_boot_def fw_chip_def pt_addresses PT_STUFF_SIZE_def)

lemma ota_active: "pt_active (sim_cells (bt_dev ota_boot)) = PT_TABLE_ID_0"
proof -
  have "pt_magicCode (pt_stored (sim_cells (bt_dev ota_boot)) PT_TABLE_ID_1) = - 1"
    by (simp add: pt_magicCode_def rd32_def image_at_def ota_boot_def fw_chip_def pt_addresses PT_STUFF_SIZE_def)
  then have "\<not> pt_table_valid (pt_stored (sim_cells (bt_dev ota_boot)) PT_TABLE_ID_1)"
    by (simp add: pt_table_valid_def BFLB_PT_MAGIC_CODE_def Let_def)
  then show ?thesis using ota_stored ota_table by (simp add: pt_active_def pt_select_def)
qed

lemma ota_setup: "length (bt_buf ota_boot) = 256" "be_flash fw_env = demo_ops"
  by (simp_all add: ota_boot_def fw_boot_def fw_env_def)

lemma fw_xip: "xip_device (be_flash fw_env) sim_cells"
  using simx.xip_device_axioms by (simp add: ota_setup)

lemma ota_found:
  "pt_table_get_active_entries_by_id (Some (pt_seal ota_base)) 0 (Some b) = (PT_ERROR_SUCCESS, Some ota_demo)"
  using ota_table(3,4)
  by (simp add: pt_table_get_active_entries_by_id_def pt_scan.simps ota_demo_fields Let_def)

lemma ota_deal_ok:
  "\<exists>st s'. blsp_boot2_deal_one_fw fw_env PT_TABLE_ID_0 (pt_seal ota_base) (replicate 36 0) None 0 ota_boot
     = Some (0, st, ota_done ota_demo, s')"
  using deal_works [OF fw_xip ota_setup(1) _ _ ota_active, unfolded ota_stored, OF _ _ _ ota_found ota_demo_entry]
  by (simp add: ota_demo_fields ota_setup sim_flash_ok)

section \<open>Properties\<close>

text \<open>C5: Copying an over-the-air image always ends with a result, and whatever the result (an erase
  or a write may fail at any point) the image it was copied from, both stored partition tables and
  the choice of the active one are untouched, so a failed update can be repeated.\<close>

theorem ota_copy_safe:
  assumes "xip_device (be_flash env) cell" "length (bt_buf s) = 256" "ota_entry e"
  shows "\<exists>r s'. blsp_boot2_do_fw_copy env e s = Some (r, s') \<and>
    image_at (cell (bt_dev s')) (unat (entry_start_address e (active_bit (entry_active_index e)))) (unat (entry_len e))
      = image_at (cell (bt_dev s)) (unat (entry_start_address e (active_bit (entry_active_index e)))) (unat (entry_len e)) \<and>
    (\<forall>i. pt_stored (cell (bt_dev s')) i = pt_stored (cell (bt_dev s)) i) \<and>
    pt_active (cell (bt_dev s')) = pt_active (cell (bt_dev s))"
proof -
  obtain r s' where run: "blsp_boot2_do_fw_copy env e s = Some (r, s')" using do_fw_copy_some [OF assms] by blast
  note c = do_fw_copy_cells [OF assms run, THEN conjunct1]
  have "image_at (cell (bt_dev s')) (unat (entry_start_address e (active_bit (entry_active_index e)))) (unat (entry_len e))
      = image_at (cell (bt_dev s)) (unat (entry_start_address e (active_bit (entry_active_index e)))) (unat (entry_len e))"
    by (rule image_at_cong) (use assms(3) c in \<open>auto simp: ota_entry_def Let_def\<close>)
  then show ?thesis using run ota_copy_tables [OF assms run] by blast
qed

theorem ota_copy_safe_witness:
  "\<exists>r s'. blsp_boot2_do_fw_copy fw_env ota_demo ota_boot = Some (r, s') \<and>
    pt_active (sim_cells (bt_dev s')) = PT_TABLE_ID_0"
  using ota_copy_safe [OF fw_xip ota_setup(1) ota_demo_entry] ota_active by auto

text \<open>C15: When the boot loader reports that it has installed an over-the-air image, the other
  partition table has become the active one, looking the firmware up there gives the entry with
  the other slot selected and its age advanced, and that slot holds the image, byte for byte.\<close>

theorem ota_install:
  assumes "xip_device (be_flash env) cell" "length (bt_buf s) = 256"
    "pt_active (cell (bt_dev s)) = i" "i \<noteq> PT_TABLE_ID_INVALID"
    "pt_table_get_active_entries_by_id (Some (pt_stored (cell (bt_dev s)) i)) type (Some e0) = (PT_ERROR_SUCCESS, Some e)"
    "ota_entry e" "2 \<le> entry_active_index e" "pt_age (pt_stored (cell (bt_dev s)) i) \<noteq> - 1"
    "blsp_boot2_deal_one_fw env i (pt_stored (cell (bt_dev s)) i) e0 None type s = Some (0, st, e', s')"
  shows "pt_active (cell (bt_dev s')) = pt_other i \<and>
    pt_table_get_active_entries_by_id (Some (pt_stored (cell (bt_dev s')) (pt_other i))) (ucast (entry_type e)) (Some b)
      = (PT_ERROR_SUCCESS, Some e') \<and>
    unat (entry_active_index e') = other_bit (entry_active_index e) \<and> entry_age e' = entry_age e + 1 \<and>
    image_at (cell (bt_dev s')) (unat (entry_start_address e' (unat (entry_active_index e')))) (unat (entry_len e'))
      = image_at (cell (bt_dev s)) (unat (entry_start_address e (active_bit (entry_active_index e)))) (unat (entry_len e))"
proof -
  have "length e = PT_ENTRY_SIZE" using assms(6) by (simp add: ota_entry_def Let_def)
  then show ?thesis using ota_install_cells [OF assms] by (simp add: ota_done_fields)
qed

theorem ota_install_witness:
  "\<exists>st s'. blsp_boot2_deal_one_fw fw_env PT_TABLE_ID_0 (pt_seal ota_base) (replicate 36 0) None 0 ota_boot
      = Some (0, st, ota_done ota_demo, s') \<and> pt_active (sim_cells (bt_dev s')) = PT_TABLE_ID_1"
proof -
  obtain st s' where r: "blsp_boot2_deal_one_fw fw_env PT_TABLE_ID_0 (pt_seal ota_base) (replicate 36 0) None 0 ota_boot
     = Some (0, st, ota_done ota_demo, s')" using ota_deal_ok by blast
  have "pt_active (sim_cells (bt_dev s')) = pt_other PT_TABLE_ID_0"
    using ota_install [OF fw_xip ota_setup(1) ota_active _ _ ota_demo_entry, unfolded ota_stored, OF _ ota_found _ _ r]
    by (simp add: ota_demo_fields ota_table)
  then show ?thesis using r by (auto simp: pt_other_def)
qed

text \<open>C37: An image is installed once: on the pass that follows, the table that has become active is
  dealt with without another copy, the flash stays as it is, and the boot loader goes on to boot.\<close>

theorem ota_once:
  assumes "xip_device (be_flash env) cell" "length (bt_buf s) = 256"
    "pt_active (cell (bt_dev s)) = i" "i \<noteq> PT_TABLE_ID_INVALID"
    "pt_table_get_active_entries_by_id (Some (pt_stored (cell (bt_dev s)) i)) type (Some e0) = (PT_ERROR_SUCCESS, Some e)"
    "ota_entry e" "2 \<le> entry_active_index e" "pt_age (pt_stored (cell (bt_dev s)) i) \<noteq> - 1"
    "blsp_boot2_deal_one_fw env i (pt_stored (cell (bt_dev s)) i) e0 None type s = Some (0, st, e', s')"
  shows "blsp_boot2_deal_one_fw env (pt_active (cell (bt_dev s'))) (pt_stored (cell (bt_dev s')) (pt_active (cell (bt_dev s'))))
      b None (ucast (entry_type e)) s' =
    Some (1, pt_stored (cell (bt_dev s')) (pt_active (cell (bt_dev s'))), e', s')"
proof -
  note c = ota_install_cells [OF assms]
  have "unat (entry_active_index e') < 2"
    using c(1) assms(6) by (simp add: ota_done_fields ota_entry_def Let_def)
  then have "\<not> 2 \<le> entry_active_index e'" by (simp add: word_le_nat_alt)
  then show ?thesis using c(2,3) by (simp add: blsp_boot2_deal_one_fw_def)
qed

theorem ota_once_witness:
  "\<exists>s'. blsp_boot2_deal_one_fw fw_env PT_TABLE_ID_1 (pt_stored (sim_cells (bt_dev s')) PT_TABLE_ID_1) (replicate 36 0)
      None 0 s' = Some (1, pt_stored (sim_cells (bt_dev s')) PT_TABLE_ID_1, ota_done ota_demo, s')"
proof -
  obtain st s' where r: "blsp_boot2_deal_one_fw fw_env PT_TABLE_ID_0 (pt_seal ota_base) (replicate 36 0) None 0 ota_boot
     = Some (0, st, ota_done ota_demo, s')" using ota_deal_ok by blast
  have a: "pt_active (sim_cells (bt_dev s')) = pt_other PT_TABLE_ID_0"
    using ota_install_cells(2) [OF fw_xip ota_setup(1) ota_active _ _ ota_demo_entry, unfolded ota_stored, OF _ ota_found _ _ r]
    by (simp add: ota_demo_fields ota_table)
  have "blsp_boot2_deal_one_fw fw_env (pt_active (sim_cells (bt_dev s')))
      (pt_stored (sim_cells (bt_dev s')) (pt_active (sim_cells (bt_dev s')))) (replicate 36 0) None 0 s' =
    Some (1, pt_stored (sim_cells (bt_dev s')) (pt_active (sim_cells (bt_dev s'))), ota_done ota_demo, s')"
    using ota_once [OF fw_xip ota_setup(1) ota_active _ _ ota_demo_entry, unfolded ota_stored, OF _ ota_found _ _ r]
    by (simp add: ota_demo_fields ota_table)
  then show ?thesis unfolding a by (auto simp: pt_other_def)
qed

text \<open>When the copy of a waiting image fails, the firmware's entry keeps its index 2, the boot
  loader goes on with it, and takes as the address of the image to boot what lies behind the two
  start addresses: the maximal length of the first slot.\<close>

theorem failed_copy_address:
  assumes "pt_table_get_active_entries_by_id (Some stuff) type (Some e0) = (PT_ERROR_SUCCESS, Some e)"
    "entry_active_index e = 2" "blsp_boot2_do_fw_copy env e s = Some (r, s1)" "r \<noteq> BFLB_BOOT2_SUCCESS"
  shows "\<exists>e'. blsp_boot2_deal_one_fw env i stuff e0 None type s = Some (1, stuff, e', s1) \<and>
    boot_header_addr e' = Some (entry_max_len e 0)"
  using assms
  by (simp add: deal_ota boot_header_addr_def entry_start_address_def entry_max_len_def)

theorem failed_copy_address_witness:
  "\<exists>env st s1 e'. blsp_boot2_deal_one_fw env PT_TABLE_ID_0 (pt_seal ota_base) (replicate 36 0) None 0 ota_boot
      = Some (1, st, e', s1) \<and> boot_header_addr e' = Some 0x2000"
proof -
  let ?env = "fw_env\<lparr>be_flash := demo_ops\<lparr>fl_erase := \<lambda>a n c. (ERROR, c)\<rparr>\<rparr>"
  have c: "blsp_boot2_do_fw_copy ?env ota_demo ota_boot = Some (BOOT2_FLASH_ERASE_ERROR, ota_boot\<lparr>bt_dev := bt_dev ota_boot\<rparr>)"
    by (simp add: blsp_boot2_do_fw_copy_def Let_def)
  have n: "BOOT2_FLASH_ERASE_ERROR \<noteq> BFLB_BOOT2_SUCCESS" by (simp add: BOOT2_FLASH_ERASE_ERROR_def boot2_codes)
  have "\<exists>e'. blsp_boot2_deal_one_fw ?env PT_TABLE_ID_0 (pt_seal ota_base) (replicate 36 0) None 0 ota_boot
      = Some (1, pt_seal ota_base, e', ota_boot) \<and> boot_header_addr e' = Some (entry_max_len ota_demo 0)"
    using failed_copy_address [OF ota_found ota_demo_fields(3) c n, of PT_TABLE_ID_0] by simp
  moreover have "entry_max_len ota_demo 0 = 0x2000"
    by (simp add: entry_max_len_def ota_demo_def rd32_def nth_append le32_def)
  ultimately show ?thesis by metis
qed

end
