(* ===== verification/OtaBoot.thy ===== *)
theory OtaBoot
  imports BootMain
begin

text \<open>
  The whole way of an update: a waiting over-the-air image is copied, the partition table
  switched, and on the next pass of the main loop the image is checked in its new place and
  started.  The parts are \<open>BootMain\<close> (copy, table, loops), \<open>Partition\<close> (what an update
  stores) and \<open>SecureBoot\<close> (a genuine image boots).
\<close>

section \<open>An image that has moved is still genuine\<close>

lemma genuine_image_moved:
  assumes good: "genuine_image sha ef m a" and same: "image_at m' a' n = image_at m a n"
    and n: "4096 + unat (bh_segment_cnt (image_at m a BOOTHEADER_SIZE)) \<le> n"
  shows "genuine_image sha ef m' a'" "image_at m' a' BOOTHEADER_SIZE = image_at m a BOOTHEADER_SIZE"
proof -
  have sub: "image_at m' (a' + p) k = image_at m (a + p) k" if "p + k \<le> n" for p k
    using seg_image_at [OF that, of m a] seg_image_at [OF that, of m' a'] same by simp
  have h: "image_at m' a' BOOTHEADER_SIZE = image_at m a BOOTHEADER_SIZE"
    using sub [of 0 BOOTHEADER_SIZE] n by (simp add: BOOTHEADER_SIZE_def)
  then show "image_at m' a' BOOTHEADER_SIZE = image_at m a BOOTHEADER_SIZE" .
  have parts: "image_at m' (a' + 176) 64 = image_at m (a + 176) 64" "image_at m' (a' + 240) 4 = image_at m (a + 240) 4"
    "image_at m' (a' + 244) 4 = image_at m (a + 244) 4"
    "image_at m' (a' + 4096) (unat (bh_segment_cnt (image_at m a BOOTHEADER_SIZE)))
      = image_at m (a + 4096) (unat (bh_segment_cnt (image_at m a BOOTHEADER_SIZE)))"
    using n by (intro sub; simp)+
  let ?k = "unat (rd32 (image_at m (a + 244) 4) 0)"
  have "?k \<le> 248" using good by (simp add: genuine_image_def Let_def)
  then have "image_at m' (a' + 248 + ?k) 4 = image_at m (a + 248 + ?k) 4"
    "image_at m' (a' + 244) (?k + 4) = image_at m (a + 244) (?k + 4)"
    using n sub [of "248 + ?k" 4] sub [of 244 "?k + 4"] by (simp_all add: add.assoc)
  then show "genuine_image sha ef m' a'"
    using good by (simp add: genuine_image_def Let_def h parts)
qed

section \<open>What choosing the firmware leaves alone\<close>

definition same_control :: "'f boot \<Rightarrow> 'f boot \<Rightarrow> bool" where
  "same_control s t \<longleftrightarrow> bt_efuse s = bt_efuse t \<and> bt_ps_mode s = bt_ps_mode t \<and>
     bt_user_hash_ignored s = bt_user_hash_ignored t \<and> bt_cpu_count s = bt_cpu_count t \<and>
     length (bt_buf s) = length (bt_buf t)"

lemma same_control_simps [simp]: "same_control s s" "same_control (s\<lparr>bt_dev := d\<rparr>) t \<longleftrightarrow> same_control s t"
  by (simp_all add: same_control_def)

lemma fw_copy_loop_control:
  assumes "xip_device (be_flash env) cell" "length (bt_buf s) = 256" "d \<le> t" "unat a + (unat t - unat d) \<le> 2 ^ 24"
    "fw_copy_loop env a b d t s = Some (r, s')"
  shows "same_control s' s"
  using assms
proof (induction env a b d t s rule: fw_copy_loop.induct)
  case (1 env a b d t s)
  show ?case
  proof (cases "d < t")
    case True
    define k where "k = copy_piece d t"
    note st = copy_piece_step [OF True, folded k_def]
    have k: "unat k \<le> 256" using copy_piece_eq [OF "1.prems"(3)] by (simp add: k_def)
    obtain s1 where rd: "boot_read env a 0 (unat k) s = Some s1"
      using boot_read_ok [OF "1.prems"(1), of 0 "unat k" s a] "1.prems"(2,4) st k by auto
    have c: "same_control s1 s"
      using boot_read_ok [OF "1.prems"(1), of 0 "unat k" s a] rd "1.prems"(2,4) st k by (auto simp: same_control_def)
    obtain q d1 where w: "fl_write (be_flash env) b (seg (bt_buf s1) 0 (unat k)) (bt_dev s1) = (q, d1)" by fastforce
    have run: "(if q \<noteq> SUCCESS then Some (BOOT2_FLASH_WRITE_ERROR, s1\<lparr>bt_dev := d1\<rparr>)
        else fw_copy_loop env (a + k) (b + k) (d + k) t (s1\<lparr>bt_dev := d1\<rparr>)) = Some (r, s')"
      using "1.prems"(5) True rd w by (subst (asm) fw_copy_loop.simps) (simp add: Let_def flip: k_def)
    have u: "unat (a + k) = unat a + unat k" using st "1.prems"(4) by (intro unat_add_lt) simp
    have "same_control s' (s1\<lparr>bt_dev := d1\<rparr>)" if q: "q = SUCCESS"
      by (rule "1.IH" [OF True k_def rd refl w [symmetric] refl _ "1.prems"(1)])
        (use q run u st c "1.prems"(2,4) in \<open>auto simp: word_le_nat_alt same_control_def\<close>)
    then show ?thesis using run c by (cases "q = SUCCESS") (auto simp: same_control_def)
  qed (use "1.prems"(5) in \<open>simp add: fw_copy_loop.simps\<close>)
qed

lemma do_fw_copy_control:
  assumes "xip_device (be_flash env) cell" "length (bt_buf s) = 256" "ota_entry e"
    "blsp_boot2_do_fw_copy env e s = Some (r, s')"
  shows "same_control s' s"
proof -
  obtain q d where er: "fl_erase (be_flash env) (entry_start_address e (other_bit (entry_active_index e)))
      (entry_max_len e (other_bit (entry_active_index e))) (bt_dev s) = (q, d)" by fastforce
  have "same_control s' (s\<lparr>bt_dev := d\<rparr>)" if "fw_copy_loop env (entry_start_address e (active_bit (entry_active_index e)))
      (entry_start_address e (other_bit (entry_active_index e))) 0 (entry_len e) (s\<lparr>bt_dev := d\<rparr>) = Some (r, s')"
    by (rule fw_copy_loop_control [OF assms(1) _ _ _ that]) (use assms(2,3) in \<open>auto simp: ota_entry_def Let_def\<close>)
  then show ?thesis using er assms(4)
    by (auto simp: blsp_boot2_do_fw_copy_def Let_def same_control_def split: if_splits)
qed

lemma deal_one_fw_control:
  assumes "xip_device (be_flash env) cell" "length (bt_buf s) = 256" "ota_entry e"
    "pt_table_get_active_entries_by_id (Some stuff) type (Some e0) = (PT_ERROR_SUCCESS, Some e)" "2 \<le> entry_active_index e"
    "blsp_boot2_deal_one_fw env i stuff e0 None type s = Some (r, st, e', s')"
  shows "same_control s' s"
proof -
  have "\<forall>q s1. blsp_boot2_do_fw_copy env e s = Some (q, s1) \<longrightarrow> same_control s1 s"
    using do_fw_copy_control [OF assms(1-3)] by blast
  then show ?thesis using assms(6) unfolding deal_ota [OF assms(4,5)]
    by (auto simp: Let_def split: option.splits if_splits prod.splits)
qed

section \<open>The manufacturing entry\<close>

text \<open>A lookup by name looks at four bytes of each entry, which an update of the firmware entry keeps.\<close>

definition mfg_name :: bytes where "mfg_name = [0x6D, 0x66, 0x67, 0]"

lemma strlen_three:
  assumes "4 \<le> length bs" "a \<noteq> 0" "b \<noteq> 0" "c \<noteq> 0"
  shows "c_strlen bs = 3 \<and> take 3 bs = [a, b, c] \<longleftrightarrow> take 4 bs = [a, b, c, 0]"
proof -
  obtain w x y z r where "bs = w # x # y # z # r"
    using assms(1) by (auto simp: Suc_le_length_iff numeral_eq_Suc)
  then show ?thesis using assms(2-4) by (auto simp: c_strlen_def)
qed

lemma mfg_matches:
  assumes "length s = PT_STUFF_SIZE" "k < 16"
  shows "pt_name_matches s mfg_name k \<longleftrightarrow> seg (pt_entries s k) 3 4 = mfg_name"
proof -
  have n: "c_strlen mfg_name = 3" "take 3 mfg_name = [0x6D, 0x66, 0x67]" by (simp_all add: mfg_name_def c_strlen_def)
  have "seg (pt_entries s k) 3 4 = take 4 (drop (pt_entry_off k + 3) s)"
    unfolding pt_entries_def by (subst seg_seg) (simp_all add: PT_ENTRY_SIZE_def seg_def add.commute)
  moreover have "4 \<le> length (drop (pt_entry_off k + 3) s)" using assms by (simp add: pt_entry_off_simps pt_sizes)
  ultimately show ?thesis
    using strlen_three [of "drop (pt_entry_off k + 3) s" "0x6D" "0x66" "0x67"]
    by (simp add: pt_name_matches_def n seg_def Let_def mfg_name_def [symmetric])
qed

lemma mfg_absent:
  assumes "pt_wf s"
  shows "pt_table_get_active_entries_by_name (Some s) mfg_name (Some b) = (PT_ERROR_ENTRY_NOT_FOUND, Some b) \<longleftrightarrow>
    (\<forall>k < pt_count s. seg (pt_entries s k) 3 4 \<noteq> mfg_name)"
proof -
  have c: "length s = PT_STUFF_SIZE" "pt_count s \<le> 16" using assms by (simp_all add: pt_wf_def PT_ENTRY_MAX_def)
  let ?i = "pt_scan (pt_name_matches s mfg_name) 0 (pt_count s)"
  have "?i < pt_count s \<longleftrightarrow> (\<exists>k < pt_count s. pt_name_matches s mfg_name k)"
    using pt_scan_hit [of "pt_name_matches s mfg_name" 0 "pt_count s"] pt_scan_first [of 0 _ "pt_name_matches s mfg_name" "pt_count s"]
    by (metis le0 linorder_not_less order_less_le_trans)
  then show ?thesis
    using mfg_matches [OF c(1)] c(2)
    by (auto simp: pt_table_get_active_entries_by_name_def Let_def)
qed

lemma ota_done_name: "length e = PT_ENTRY_SIZE \<Longrightarrow> seg (ota_done e) 3 4 = seg e 3 4"
  by (simp add: ota_done_def Let_def PT_ENTRY_SIZE_def layout)

lemma put_mfg_absent:
  assumes wf: "pt_wf s" and found: "pt_table_get_active_entries_by_id (Some s) type (Some b) = (PT_ERROR_SUCCESS, Some e)"
    and e: "length e = PT_ENTRY_SIZE" "entry_type e' = entry_type e" "length e' = PT_ENTRY_SIZE" "seg e' 3 4 = seg e 3 4"
    and put: "pt_put_entry s e' = Some s1" and none: "\<forall>k < pt_count s. seg (pt_entries s k) 3 4 \<noteq> mfg_name"
  shows "\<forall>k < pt_count s1. seg (pt_entries s1 k) 3 4 \<noteq> mfg_name"
proof -
  have c: "length s = PT_STUFF_SIZE" "pt_count s \<le> 16" using wf by (simp_all add: pt_wf_def PT_ENTRY_MAX_def)
  let ?j = "pt_scan (\<lambda>i. ucast (entry_type (pt_entries s i)) = type) 0 (pt_count s)"
  have j: "?j < pt_count s" "pt_entries s ?j = e"
    using found by (auto simp: pt_table_get_active_entries_by_id_def Let_def split: if_splits)
  have "?j = pt_scan (\<lambda>i. entry_type (pt_entries s i) = entry_type e') 0 (pt_count s)"
    using pt_scan_hit [OF j(1)] j(2) e(2) by (auto simp: ucast_u8_inj)
  then have s1: "s1 = patch s (pt_entry_off ?j) e'"
    using put j(1) by (simp add: pt_put_entry_def Let_def)
  have n: "pt_entryCnt s1 = pt_entryCnt s" unfolding s1 using c e(3) j(1) by (intro pt_count_patch) simp_all
  show ?thesis
  proof (intro allI impI)
    fix k assume k: "k < pt_count s1"
    then show "seg (pt_entries s1 k) 3 4 \<noteq> mfg_name"
      using n none j c e(3,4) pt_entries_same [OF c(1) e(3), of ?j] pt_entries_other [OF c(1) e(3), of ?j k]
      by (cases "k = ?j") (auto simp: s1)
  qed
qed

section \<open>The passes of the main loop\<close>

text \<open>Without a manufacturing entry and on one CPU, a pass deals with the firmware entry.\<close>

lemma main_pass_plain:
  assumes "pt_table_get_active_entries_by_name (Some stuff) mfg_name (Some (mv_entry m 0)) = (PT_ERROR_ENTRY_NOT_FOUND, Some (mv_entry m 0))"
    "rd8 (mv_user_fw m) 0 \<noteq> 0x30" "bt_cpu_count s = 1"
    "blsp_boot2_deal_one_fw env i stuff (mv_entry m 0) None 0 s = Some (r, st, e, s1)" "bt_cpu_count s1 = 1"
  shows "main_pass env stuff i m s = Some (r = 0, m\<lparr>mv_entry := (mv_entry m)(0 := e)\<rparr>, s1)"
proof -
  have "blsp_boot2_get_mfg_startreq env stuff (mv_entry m 0) (mv_user_fw m) s = (mv_entry m 0, mv_user_fw m)"
    using assms(1) by (simp add: blsp_boot2_get_mfg_startreq_def mfg_name_def)
  then show ?thesis
    using assms(2-) by (simp add: main_pass_def Let_def)
qed

lemma main_loop_step:
  assumes xip: "xip_device (be_flash env) cell" and bufs: "length b0 = PT_STUFF_SIZE" "length b1 = PT_STUFF_SIZE"
    and act: "pt_active (cell (bt_dev s)) = i" "i \<noteq> PT_TABLE_ID_INVALID"
    and pass: "main_pass env (pt_stored (cell (bt_dev s)) i) i m s = Some (again, m1, s1)"
  shows "main_loop env sc v (b0, b1) (Suc n) m s =
    (if again then main_loop env sc v (b0, b1) n m1 s1
     else if \<exists>k < bt_cpu_count s1. boot_header_addr (mv_entry m1 k) = None then (MUndef, s1)
     else (case blsp_mediaboot_main env sc v
             (\<lambda>k. if k < bt_cpu_count s1 then the (boot_header_addr (mv_entry m1 k)) else 0) False s1 of
             None \<Rightarrow> (MUndef, s1)
           | Some (BJump e msp aes, rb, s2) \<Rightarrow> (MJump e msp aes, s2)
           | Some (BStay, rb, s2) \<Rightarrow> (MStay, s2)
           | Some (BRet r, rb, s2) \<Rightarrow>
               if mv_mfg m1 then main_loop env sc v (b0, b1) n (m1\<lparr>mv_mfg := False\<rparr>) s2 else (MIdle, s2)))"
proof -
  have "(if i = PT_TABLE_ID_0 then fst else snd) (pt_stored (cell (bt_dev s)) PT_TABLE_ID_0, pt_stored (cell (bt_dev s)) PT_TABLE_ID_1)
      = pt_stored (cell (bt_dev s)) i"
    using act(2) by (cases i) simp_all
  then show ?thesis
    using act pass by (simp add: flash_device.get_active [OF xip_device.axioms(1) [OF xip] bufs])
qed

lemma install_mfg_absent:
  assumes xip: "xip_device (be_flash env) cell" and buf: "length (bt_buf s) = 256"
    and act: "pt_active (cell (bt_dev s)) = i" "i \<noteq> PT_TABLE_ID_INVALID"
    and found: "pt_table_get_active_entries_by_id (Some (pt_stored (cell (bt_dev s)) i)) type (Some e0) = (PT_ERROR_SUCCESS, Some e)"
    and e: "ota_entry e" "2 \<le> entry_active_index e"
    and run: "blsp_boot2_deal_one_fw env i (pt_stored (cell (bt_dev s)) i) e0 None type s = Some (0, st, e', s')"
    and none: "pt_table_get_active_entries_by_name (Some (pt_stored (cell (bt_dev s)) i)) mfg_name (Some b) = (PT_ERROR_ENTRY_NOT_FOUND, Some b)"
  shows "pt_table_get_active_entries_by_name (Some (pt_stored (cell (bt_dev s')) (pt_other i))) mfg_name (Some b') = (PT_ERROR_ENTRY_NOT_FOUND, Some b')"
proof -
  let ?stuff = "pt_stored (cell (bt_dev s)) i"
  note fd = xip_device.axioms(1) [OF xip]
  obtain s1 so d where cp: "blsp_boot2_do_fw_copy env e s = Some (0, s1)"
    and up: "pt_table_update_entry (be_flash env) (pt_other i) (Some ?stuff) (Some (ota_done e)) (bt_dev s1) = (PT_ERROR_SUCCESS, so, d)"
    and res: "s' = s1\<lparr>bt_dev := d\<rparr>"
    using run unfolding deal_ota [OF found e(2)]
    by (auto simp: Let_def boot2_codes split: option.splits if_splits prod.splits)
  have l: "length e = PT_ENTRY_SIZE" using e(1) by (simp add: ota_entry_def Let_def)
  note f = ota_done_fields [OF l]
  have tab: "pt_stored (cell (bt_dev s1)) j = pt_stored (cell (bt_dev s)) j" "pt_active (cell (bt_dev s1)) = i" for j
    using ota_copy_tables [OF xip buf e(1) cp] act by simp_all
  have wf: "pt_wf ?stuff" by (rule pt_table_valid_wf [OF pt_active_valid [OF act]]) simp
  obtain t where t: "pt_put_entry ?stuff (ota_done e) = Some t" "pt_wf t"
    "pt_table_valid (pt_stored (cell d) (pt_other i))"
    "pt_entryCnt (pt_stored (cell d) (pt_other i)) = pt_entryCnt t"
    "\<And>x. x < pt_count t \<Longrightarrow> pt_entries (pt_stored (cell d) (pt_other i)) x = pt_entries t x"
    using flash_device.update_stored [OF fd tab(2) act(2), unfolded tab, OF up f(1)] by blast
  have wf': "pt_wf (pt_stored (cell d) (pt_other i))" by (rule pt_table_valid_wf [OF t(3)]) simp
  have "\<forall>k < pt_count t. seg (pt_entries t k) 3 4 \<noteq> mfg_name"
    by (rule put_mfg_absent [OF wf found l f(2,1) ota_done_name [OF l] t(1)]) (use none mfg_absent [OF wf] in blast)
  then show ?thesis unfolding res using mfg_absent [OF wf'] t(4,5) by simp
qed

text \<open>
  The two passes of an installation: the first installs, the second finds the new table with the
  new slot selected and lets the boot go on.
\<close>

lemma ota_passes:
  assumes xip: "xip_device (be_flash env) cell" and s: "length (bt_buf s) = 256" "bt_cpu_count s = 1"
    and act: "pt_active (cell (bt_dev s)) = i" "i \<noteq> PT_TABLE_ID_INVALID" "pt_age (pt_stored (cell (bt_dev s)) i) \<noteq> - 1"
    and found: "pt_table_get_active_entries_by_id (Some (pt_stored (cell (bt_dev s)) i)) 0 (Some (mv_entry m 0)) = (PT_ERROR_SUCCESS, Some e)"
    and e: "ota_entry e" "2 \<le> entry_active_index e"
    and user: "rd8 (mv_user_fw m) 0 \<noteq> 0x30"
      "pt_table_get_active_entries_by_name (Some (pt_stored (cell (bt_dev s)) i)) mfg_name (Some (mv_entry m 0))
        = (PT_ERROR_ENTRY_NOT_FOUND, Some (mv_entry m 0))"
    and run: "blsp_boot2_deal_one_fw env i (pt_stored (cell (bt_dev s)) i) (mv_entry m 0) None 0 s = Some (0, st, e', s')"
  defines "m' \<equiv> m\<lparr>mv_entry := (mv_entry m)(0 := e')\<rparr>" and "j \<equiv> pt_other i"
  shows "main_pass env (pt_stored (cell (bt_dev s)) i) i m s = Some (True, m', s')"
    "main_pass env (pt_stored (cell (bt_dev s')) j) j m' s' = Some (False, m', s')"
    "boot_header_addr (mv_entry m' 0) = Some (entry_start_address e (other_bit (entry_active_index e)))"
proof -
  note c = ota_install_cells [OF xip s(1) act(1,2) found e act(3) run]
  have l: "length e = PT_ENTRY_SIZE" using e(1) by (simp add: ota_entry_def Let_def)
  note f = ota_done_fields [OF l]
  have k: "bt_cpu_count s' = 1" using deal_one_fw_control [OF xip s(1) e(1) found e(2) run] s(2) by (simp add: same_control_def)
  show "main_pass env (pt_stored (cell (bt_dev s)) i) i m s = Some (True, m', s')"
    using main_pass_plain [OF user(2,1) s(2) run k] by (simp add: m'_def)
  have none: "pt_table_get_active_entries_by_name (Some (pt_stored (cell (bt_dev s')) j)) mfg_name (Some (mv_entry m' 0))
      = (PT_ERROR_ENTRY_NOT_FOUND, Some (mv_entry m' 0))"
    unfolding j_def by (rule install_mfg_absent [OF xip s(1) act(1,2) found e run user(2)])
  have t: "ucast (entry_type e) = (0 :: u32)"
    using found pt_scan_hit [of "\<lambda>k. ucast (entry_type (pt_entries (pt_stored (cell (bt_dev s)) i) k)) = (0 :: u32)" 0]
    by (auto simp: pt_table_get_active_entries_by_id_def Let_def split: if_splits)
  have idx: "unat (entry_active_index e') = other_bit (entry_active_index e)" "\<not> 2 \<le> entry_active_index e'"
    using c(1) f(3) by (simp_all add: word_le_nat_alt not_le)
  have d2: "blsp_boot2_deal_one_fw env j (pt_stored (cell (bt_dev s')) j) (mv_entry m' 0) None 0 s'
      = Some (1, pt_stored (cell (bt_dev s')) j, e', s')"
    using c(3) [of e'] idx(2) by (simp add: blsp_boot2_deal_one_fw_def t j_def m'_def)
  show "main_pass env (pt_stored (cell (bt_dev s')) j) j m' s' = Some (False, m', s')"
    using main_pass_plain [OF none _ k d2 k] user(1) by (simp add: m'_def)
  have "other_bit (entry_active_index e) < 6" using other_bit_u8(2) [of "entry_active_index e"] by linarith
  then show "boot_header_addr (mv_entry m' 0) = Some (entry_start_address e (other_bit (entry_active_index e)))"
    using idx c(1) f(4) by (simp add: boot_header_addr_def word_less_nat_alt m'_def)
qed

section \<open>Properties\<close>

text \<open>C1: An update from end to end.  A genuine signed image waits in the inactive slot of a flash whose
  erases and writes succeed; the boot loader finds it, copies it, switches the partition table, reads
  the table again, checks the image in its new place and jumps to the entry point of its header, in
  two passes of its main loop.  The conditions: the active table has a well-formed firmware entry
  (\<open>ota_entry\<close>), its age is not the largest one, and it has no manufacturing entry nor is the
  manufacturing firmware asked for; one CPU, not the CP build, normal power mode (or the check kept
  in hibernation), no hash-ignore request; the hash device opens, the cache can be set and no host
  connects at the stop for downloads.  The image fits the length of its entry and its header names an
  entry point (not 0).\<close>

theorem ota_boots_new_image:
  assumes xip: "xip_device (be_flash env) cell" and bufs: "length b0 = PT_STUFF_SIZE" "length b1 = PT_STUFF_SIZE"
    and s: "length (bt_buf s) = 256" "bt_cpu_count s = 1" "bt_user_hash_ignored s = 0"
      "\<not> (bt_ps_mode s = BFLB_PSM_HBN \<and> ef_hbn_check_sign (bt_efuse s) = 0)"
    and env: "be_hash_found env" "be_hash_open env = 0" "be_feature_flag env \<noteq> BLSP_BOOT2_CP_FLAG"
      "\<And>cont en way off. set_cache cont en way off = 0"
    and act: "pt_active (cell (bt_dev s)) = i" "i \<noteq> PT_TABLE_ID_INVALID" "pt_age (pt_stored (cell (bt_dev s)) i) \<noteq> - 1"
    and found: "pt_table_get_active_entries_by_id (Some (pt_stored (cell (bt_dev s)) i)) 0 (Some (mv_entry m 0)) = (PT_ERROR_SUCCESS, Some e)"
    and e: "ota_entry e" "2 \<le> entry_active_index e" "entry_start_address e (other_bit (entry_active_index e)) \<noteq> 0"
    and user: "rd8 (mv_user_fw m) 0 \<noteq> 0x30"
      "pt_table_get_active_entries_by_name (Some (pt_stored (cell (bt_dev s)) i)) mfg_name (Some (mv_entry m 0))
        = (PT_ERROR_ENTRY_NOT_FOUND, Some (mv_entry m 0))"
    and h: "h = image_at (cell (bt_dev s)) (unat (entry_start_address e (active_bit (entry_active_index e)))) BOOTHEADER_SIZE"
      "bh_bootentry h \<noteq> 0" "4096 + unat (bh_segment_cnt h) \<le> unat (entry_len e)"
    and good: "genuine_image (be_sha256 env) (bt_efuse s) (cell (bt_dev s))
      (unat (entry_start_address e (active_bit (entry_active_index e))))"
    and works: "\<And>a n d. 0 < n \<Longrightarrow> unat a + unat n \<le> 2 ^ 24 \<Longrightarrow> fst (fl_erase (be_flash env) a n d) = SUCCESS"
      "\<And>a bs d. unat a + length bs \<le> 2 ^ 24 \<Longrightarrow> fst (fl_write (be_flash env) a bs d) = SUCCESS"
  shows "\<exists>msp s''. main_loop env set_cache (\<lambda>s. s) (b0, b1) (Suc (Suc n)) m s = (MJump (bh_bootentry h) msp [], s'')"
proof -
  obtain st s' where run: "blsp_boot2_deal_one_fw env i (pt_stored (cell (bt_dev s)) i) (mv_entry m 0) None 0 s
      = Some (0, st, ota_done e, s')"
    using deal_works [OF xip s(1) works act(1,2) found e(1,2)] by blast
  note c = ota_install_cells [OF xip s(1) act(1,2) found e(1,2) act(3) run]
  note p = ota_passes [OF xip s(1,2) act found e(1,2) user run]
  have k: "length (bt_buf s') = 256" "bt_cpu_count s' = 1" "bt_user_hash_ignored s' = 0" "bt_efuse s' = bt_efuse s"
    "\<not> (bt_ps_mode s' = BFLB_PSM_HBN \<and> ef_hbn_check_sign (bt_efuse s') = 0)"
    using s deal_one_fw_control [OF xip s(1) e(1) found e(2) run] by (simp_all add: same_control_def)
  let ?m = "m\<lparr>mv_entry := (mv_entry m)(0 := ota_done e)\<rparr>" and ?a = "entry_start_address e (other_bit (entry_active_index e))"
  let ?hdr = "\<lambda>k. if k < bt_cpu_count s' then the (boot_header_addr (mv_entry ?m k)) else 0"
  have h0: "?hdr 0 = ?a" using k(2) p(3) by simp
  note moved = genuine_image_moved [OF good c(4)] h(3) [unfolded h(1)]
  have hd: "h = image_at (cell (bt_dev s')) (unat (?hdr 0)) BOOTHEADER_SIZE"
    unfolding h0 using moved(2,3) h(1) by simp
  have "\<exists>msp rbs s''. blsp_mediaboot_main env set_cache (\<lambda>s. s) ?hdr False s' = Some (BJump (bh_bootentry h) msp [], rbs, s'')"
    by (rule genuine_main [where hdr = ?hdr, OF xip k(1,2) env hd _ h(2) _ k(3,5)])
      (use e moved(1,3) h k(4) in \<open>auto simp only: h0 ota_entry_def Let_def\<close>)
  moreover have "pt_other i \<noteq> PT_TABLE_ID_INVALID" by (simp add: pt_other_def)
  ultimately show ?thesis
    using p(3) k(2) main_loop_step [OF xip bufs act(1,2) p(1), of set_cache "\<lambda>s. s" "Suc n"]
      main_loop_step [OF xip bufs c(2) _ p(2), of set_cache "\<lambda>s. s" n]
    by auto
qed

definition ota_vars :: main_vars where
  "ota_vars = \<lparr>mv_entry = (\<lambda>i. replicate 36 0), mv_user_fw = replicate 9 0, mv_mfg = False\<rparr>"

lemma ota_image: "image_at (sim_cells (bt_dev ota_boot)) 0x10000 0x1003 = image_at (sim_cells fw_chip) 0x10000 0x1003"
  by (rule image_at_cong) (simp add: ota_boot_def)

lemma ota_no_mfg: "pt_table_get_active_entries_by_name (Some (pt_seal ota_base)) mfg_name (Some b) = (PT_ERROR_ENTRY_NOT_FOUND, Some b)"
proof -
  have "hd (seg ota_demo 3 4) \<noteq> hd mfg_name" by (simp add: ota_demo_def mfg_name_def seg_def)
  then show ?thesis using mfg_absent [OF ota_table(6)] ota_table(3,4) by auto
qed

theorem ota_boots_new_image_witness:
  "\<exists>msp s''. main_loop fw_env (\<lambda>a b c d. 0) (\<lambda>s. s) (replicate 596 0, replicate 596 0) (Suc (Suc 0)) ota_vars ota_boot
     = (MJump 0x23000100 msp [], s'')"
proof -
  note g = genuine_image_moved [OF fw_genuine ota_image]
  have o: "bt_cpu_count ota_boot = 1" "bt_user_hash_ignored ota_boot = 0" "bt_ps_mode ota_boot = 0" "bt_efuse ota_boot = bt_efuse fw_boot"
    by (simp_all add: ota_boot_def fw_setup fw_boot_def)
  have hd: "fw_header = image_at (sim_cells (bt_dev ota_boot)) 0x10000 BOOTHEADER_SIZE"
    using g(2) by (simp add: fw_parts(1) fw_header_fields(2) BOOTHEADER_SIZE_def)
  have b: "length (replicate 596 (0 :: u8)) = PT_STUFF_SIZE" by (simp add: PT_STUFF_SIZE_def)
  have v: "mv_entry ota_vars 0 = replicate 36 0" "rd8 (mv_user_fw ota_vars) 0 \<noteq> 0x30"
    by (simp_all add: ota_vars_def rd8_def)
  have gi: "genuine_image (be_sha256 fw_env) (bt_efuse ota_boot) (sim_cells (bt_dev ota_boot)) 0x10000"
    using g(1) by (simp add: o fw_parts(1) fw_header_fields(2) BOOTHEADER_SIZE_def)
  have "\<exists>msp s''. main_loop fw_env (\<lambda>a b c d. 0) (\<lambda>s. s) (replicate 596 0, replicate 596 0) (Suc (Suc 0)) ota_vars ota_boot
     = (MJump (bh_bootentry fw_header) msp [], s'')"
    by (rule ota_boots_new_image [where m = ota_vars and h = fw_header, OF fw_xip b b ota_setup(1) o(1,2) _ fw_setup(4-6) _ ota_active, unfolded ota_stored v(1),
          OF _ _ _ _ ota_found ota_demo_entry _ _ v(2) ota_no_mfg])
      (simp_all add: o gi [unfolded o] ota_demo_fields ota_table fw_header_fields BFLB_PSM_HBN_def ota_setup(2) sim_flash_ok flip: hd)
  then show ?thesis by (simp only: fw_header_fields)
qed

end
