(* ===== verification/Train.thy ===== *)
theory Train
  imports Transport
begin

text \<open>
  The train, \<open>examples/lego_train\<close>: its BLE service (\<open>ble_app.c\<close>), whose only command asks for
  a restart into the boot loader, and the choice of the sleep time in the idle hook
  (\<open>vApplicationSleep\<close> of \<open>main.c\<close>).  The host stack is seen through the calls made to it: the
  advertising parameters that are in use and the notifications that have been handed over.
\<close>

section \<open>The BLE service\<close>

definition MAGIC_CODE :: bytes where
  "MAGIC_CODE = [0x42, 0x4C, 0x37, 0x30, 0x32, 0x42, 0x4F, 0x4F, 0x54]"

definition ADV_1S_DURATION :: u32 where "ADV_1S_DURATION = 30"
definition BT_GAP_ADV_SLOW_INT_MIN :: u16 where "BT_GAP_ADV_SLOW_INT_MIN = 0x0640"
definition BT_GAP_ADV_SLOW_INT_MAX :: u16 where "BT_GAP_ADV_SLOW_INT_MAX = 0x0780"
definition UPDATE_REQUEST :: u32 where "UPDATE_REQUEST = 0xAABBCCDD"

record train =
  tr_conn :: bool
  tr_jump :: bool
  tr_rx_sem :: bool
  tr_adv_duration :: u32
  tr_adv_2s :: bool
  tr_adv :: "(u16 \<times> u16) option"
  tr_rsv3 :: u32
  tr_notified :: "bytes list"

definition ble_app_recv :: "bytes \<Rightarrow> u16 \<Rightarrow> u8 \<Rightarrow> train \<Rightarrow> int \<times> train" where
  "ble_app_recv buf len flags s =
     (if flags = WRITE_FLAG_PREPARE then (0, s)
      else if len \<noteq> word_of_nat (length MAGIC_CODE) then (ATT_ERR_NOT_ALLOWED, s)
      else if \<not> strncmp_eq buf MAGIC_CODE (length MAGIC_CODE) then (ATT_ERR_NOT_ALLOWED, s)
      else (uint len, s\<lparr>tr_jump := True, tr_rx_sem := True\<rparr>))"

definition adv_start :: "u16 \<Rightarrow> train \<Rightarrow> train" where
  "adv_start factor s = s\<lparr>tr_adv := Some (BT_GAP_ADV_SLOW_INT_MIN * factor, BT_GAP_ADV_SLOW_INT_MAX * factor)\<rparr>"

definition train_connected :: "u8 \<Rightarrow> train \<Rightarrow> train" where
  "train_connected err s = (if err \<noteq> 0 then s else s\<lparr>tr_adv_2s := False, tr_adv_duration := 0, tr_conn := True\<rparr>)"

definition train_disconnected :: "train \<Rightarrow> train" where
  "train_disconnected s = adv_start 1 (s\<lparr>tr_conn := False\<rparr>)"

definition train_enable_cb :: "int \<Rightarrow> train \<Rightarrow> train" where
  "train_enable_cb err s = (if err = 0 then adv_start 1 s else s)"

text \<open>
  One turn of the main loop once its wait has ended, by the semaphore or after 24 hours; a
  restart leaves the program for the boot loader.
\<close>

datatype train_next = TRun train | TReset train

definition ble_app_process :: "train \<Rightarrow> train_next" where
  "ble_app_process s =
     (if tr_rx_sem s then
        (let s1 = s\<lparr>tr_rx_sem := False\<rparr>
         in if tr_jump s1 then TReset (s1\<lparr>tr_rsv3 := UPDATE_REQUEST\<rparr>) else TRun s1)
      else if \<not> tr_adv_2s s then
        (let s1 = s\<lparr>tr_adv_duration := tr_adv_duration s + 1\<rparr>
         in if tr_adv_duration s1 \<ge> ADV_1S_DURATION
            then TRun (adv_start 2 (s1\<lparr>tr_adv_duration := 0, tr_adv_2s := True\<rparr>)) else TRun s1)
      else TRun s)"

text \<open>
  \<open>ble_app_send\<close>: the data in notifications of at most the MTU less ten bytes; the
  16-bit offset moves on by the length sent, so the loop ends only if that is not zero.
\<close>

partial_function (option) send_loop :: "u16 \<Rightarrow> bytes \<Rightarrow> u16 \<Rightarrow> u16 \<Rightarrow> train \<Rightarrow> train option" where
  "send_loop mtu data len offset s =
     (if offset < len then
        (let sent_length = (if len - offset \<ge> mtu then mtu else len - offset)
         in send_loop mtu data len (offset + sent_length)
              (s\<lparr>tr_notified := tr_notified s @ [seg data (unat offset) (unat sent_length)]\<rparr>))
      else Some s)"

definition ble_app_send :: "u16 \<Rightarrow> bytes \<Rightarrow> u16 \<Rightarrow> train \<Rightarrow> train option" where
  "ble_app_send gatt_mtu data len s = (if len \<noteq> 0 then send_loop (gatt_mtu - 10) data len 0 s else Some s)"

definition ble_app_is_connected :: "train \<Rightarrow> bool" where
  "ble_app_is_connected s = tr_conn s"

section \<open>The idle hook\<close>

definition TIME_5MS_IN_32768CYCLE :: i32 where "TIME_5MS_IN_32768CYCLE = 164"
definition portMAX_DELAY :: u32 where "portMAX_DELAY = 0xFFFFFFFF"

datatype sleep_status = eAbortSleep | eStandardSleep | eNoTasksWaitingTimeout

text \<open>What the kernel, the radio and the flash configuration answer.\<close>

record sleep_env =
  se_ticks :: u32
  se_status :: sleep_status
  se_radio_busy :: bool
  se_radio_cycles :: i32
  se_io_mode :: u8
  se_cont_read :: u8
  se_xtal :: bool

definition reduce_sleep_time :: "sleep_env \<Rightarrow> u32" where
  "reduce_sleep_time e =
     (let ioMode = se_io_mode e AND 0xF
      in if ioMode = 4 \<and> se_cont_read e = 1 \<and> se_xtal e then 100
         else if ioMode = 1 \<and> se_cont_read e = 0 \<and> se_xtal e then 130
         else 130)"

text \<open>The length of the sleep in cycles of 32768 Hz, if the processor sleeps at all.\<close>

definition vApplicationSleep :: "sleep_env \<Rightarrow> train \<Rightarrow> u32 \<Rightarrow> u32 option" where
  "vApplicationSleep e s xExpectedIdleTime_ms =
     (if ble_app_is_connected s then None
      else
        (let max_idle = (xExpectedIdleTime_ms + se_ticks e = portMAX_DELAY);
             expected = (if max_idle then 0 else (32768 * (xExpectedIdleTime_ms - 1)) div 1000)
         in if \<not> max_idle \<and> expected <s TIME_5MS_IN_32768CYCLE then None
            else if se_status e = eAbortSleep \<or> se_radio_busy e then None
            else if se_radio_cycles e <s TIME_5MS_IN_32768CYCLE then None
            else if se_status e = eStandardSleep \<and> \<not> max_idle \<and> expected <s se_radio_cycles e
                 then Some (expected - reduce_sleep_time e)
            else Some (se_radio_cycles e - reduce_sleep_time e)))"

section \<open>Runs\<close>

datatype train_event =
    TrConnected u8
  | TrDisconnected
  | TrWrite bytes u16 u8
  | TrWaitEnds

fun train_step :: "train_event \<Rightarrow> train \<Rightarrow> train_next" where
  "train_step (TrConnected err) s = TRun (train_connected err s)"
| "train_step TrDisconnected s = TRun (train_disconnected s)"
| "train_step (TrWrite buf len flags) s = TRun (snd (ble_app_recv buf len flags s))"
| "train_step TrWaitEnds s = ble_app_process s"

fun train_run :: "train_event list \<Rightarrow> train \<Rightarrow> train_next" where
  "train_run [] s = TRun s"
| "train_run (e # es) s = (case train_step e s of TRun s1 \<Rightarrow> train_run es s1 | TReset s1 \<Rightarrow> TReset s1)"

definition train_init :: train where
  "train_init = \<lparr>tr_conn = False, tr_jump = False, tr_rx_sem = False, tr_adv_duration = 0, tr_adv_2s = False,
     tr_adv = None, tr_rsv3 = 0, tr_notified = []\<rparr>"

text \<open>The writes that are the command.\<close>

fun is_magic :: "train_event \<Rightarrow> bool" where
  "is_magic (TrWrite buf len flags) = (flags \<noteq> WRITE_FLAG_PREPARE \<and> len = 9 \<and> take 9 buf = MAGIC_CODE)"
| "is_magic _ = False"

lemma strncmp_eq_iff: "0 \<notin> set b \<Longrightarrow> strncmp_eq a b (length b) = (take (length b) a = b)"
proof (induction b arbitrary: a)
  case (Cons x b)
  then show ?case by (cases a) auto
qed simp

lemma magic_length [simp]: "length MAGIC_CODE = 9"
  by (simp add: MAGIC_CODE_def)

lemma ble_app_recv_magic:
  "ble_app_recv buf len flags s =
     (if flags = WRITE_FLAG_PREPARE then (0, s)
      else if is_magic (TrWrite buf len flags) then (9, s\<lparr>tr_jump := True, tr_rx_sem := True\<rparr>)
      else (ATT_ERR_NOT_ALLOWED, s))"
proof -
  have "0 \<notin> set MAGIC_CODE" by (simp add: MAGIC_CODE_def)
  then show ?thesis using strncmp_eq_iff [of MAGIC_CODE buf] by (simp add: ble_app_recv_def)
qed

text \<open>Before the command the train keeps running, after it the next end of the wait restarts it.\<close>

lemma train_waits:
  "\<not> tr_rx_sem s \<Longrightarrow> \<not> tr_jump s \<Longrightarrow> \<not> is_magic e \<Longrightarrow>
    \<exists>s1. train_step e s = TRun s1 \<and> \<not> tr_rx_sem s1 \<and> \<not> tr_jump s1"
  by (cases e) (auto simp: train_connected_def train_disconnected_def adv_start_def ble_app_process_def Let_def
      ble_app_recv_magic)

lemma train_armed:
  "tr_rx_sem s \<Longrightarrow> tr_jump s \<Longrightarrow>
    (case train_step e s of TRun s1 \<Rightarrow> e \<noteq> TrWaitEnds \<and> tr_rx_sem s1 \<and> tr_jump s1
     | TReset s1 \<Rightarrow> e = TrWaitEnds \<and> tr_rsv3 s1 = UPDATE_REQUEST)"
  by (cases e) (auto simp: train_connected_def train_disconnected_def adv_start_def ble_app_process_def Let_def
      ble_app_recv_magic)

lemma train_arms:
  "is_magic e \<Longrightarrow> \<exists>s1. train_step e s = TRun s1 \<and> tr_rx_sem s1 \<and> tr_jump s1"
  by (cases e) (auto simp: ble_app_recv_magic)

lemma armed_run:
  "tr_rx_sem s \<Longrightarrow> tr_jump s \<Longrightarrow>
    (\<exists>t. train_run es s = TReset t \<and> tr_rsv3 t = UPDATE_REQUEST) = (TrWaitEnds \<in> set es)"
proof (induction es arbitrary: s)
  case (Cons e es)
  then show ?case using train_armed [of s e] by (cases "train_step e s") auto
qed simp

lemma waiting_run:
  "\<not> tr_rx_sem s \<Longrightarrow> \<not> tr_jump s \<Longrightarrow>
    (\<exists>t. train_run es s = TReset t \<and> tr_rsv3 t = UPDATE_REQUEST)
      = (TrWaitEnds \<in> set (dropWhile (\<lambda>e. \<not> is_magic e) es))"
proof (induction es arbitrary: s)
  case (Cons e es)
  show ?case
  proof (cases "is_magic e")
    case True
    then obtain s1 where "train_step e s = TRun s1" "tr_rx_sem s1" "tr_jump s1" using train_arms by blast
    then show ?thesis using armed_run [of s1 es] True by auto
  next
    case False
    then obtain s1 where "train_step e s = TRun s1" "\<not> tr_rx_sem s1" "\<not> tr_jump s1"
      using train_waits Cons.prems by blast
    then show ?thesis using Cons.IH [of s1] False by simp
  qed
qed simp

section \<open>Sending\<close>

text \<open>With an MTU above ten the loop ends and the notifications are the data, in pieces that fit.\<close>

lemma send_loop_pieces:
  assumes "mtu \<noteq> 0" "offset \<le> len" "unat len \<le> length data"
  shows "\<exists>ps. send_loop mtu data len offset s = Some (s\<lparr>tr_notified := tr_notified s @ ps\<rparr>) \<and>
    concat ps = seg data (unat offset) (unat len - unat offset) \<and> (\<forall>p \<in> set ps. length p \<le> unat mtu)"
  using assms
proof (induction "unat len - unat offset" arbitrary: offset s rule: less_induct)
  case less
  show ?case
  proof (cases "offset < len")
    case False
    then show ?thesis using less.prems(2) by (intro exI [of _ "[]"]) (simp add: send_loop.simps)
  next
    case True
    define k where "k = (if len - offset \<ge> mtu then mtu else len - offset)"
    have d: "unat (len - offset) = unat len - unat offset" using less.prems(2) by (rule unat_sub)
    have k: "unat k \<le> unat len - unat offset" "unat k \<le> unat mtu" "0 < unat k"
      using True less.prems(1) d by (auto simp: k_def word_le_nat_alt word_less_nat_alt unat_gt_0)
    have "unat offset + unat k < 2 ^ 16" using k(1) less.prems(2) unsigned_less [of len, where 'a = nat]
      by (simp add: word_le_nat_alt)
    then have o: "unat (offset + k) = unat offset + unat k" by (simp add: unat_add_lt)
    let ?s = "s\<lparr>tr_notified := tr_notified s @ [seg data (unat offset) (unat k)]\<rparr>"
    have m: "unat len - unat (offset + k) < unat len - unat offset" "offset + k \<le> len"
      using k(1,3) o True by (auto simp: word_le_nat_alt word_less_nat_alt)
    obtain ps where ps: "send_loop mtu data len (offset + k) ?s = Some (?s\<lparr>tr_notified := tr_notified ?s @ ps\<rparr>)"
      "concat ps = seg data (unat (offset + k)) (unat len - unat (offset + k))" "\<forall>p \<in> set ps. length p \<le> unat mtu"
      using less.hyps [OF m(1) less.prems(1) m(2) less.prems(3), of ?s] by blast
    have "seg data (unat offset) (unat k) @ concat ps = seg data (unat offset) (unat len - unat offset)"
      using seg_split [of data "unat offset" "unat k" "unat len - unat (offset + k)"]
      by (simp add: ps(2) o le_add_diff_inverse [OF k(1)] flip: diff_diff_left)
    moreover have "send_loop mtu data len offset s = Some (s\<lparr>tr_notified := tr_notified s @ (seg data (unat offset) (unat k) # ps)\<rparr>)"
      using True ps(1) by (subst send_loop.simps) (simp add: k_def [symmetric] Let_def)
    moreover have "length (seg data (unat offset) (unat k)) \<le> unat mtu" using k(2) by (simp add: seg_def)
    ultimately show ?thesis using ps(3) by (intro exI [of _ "seg data (unat offset) (unat k) # ps"]) simp
  qed
qed

text \<open>With an MTU of ten the loop never ends.\<close>

section \<open>Sleeping\<close>

lemma sint_nonneg:
  fixes x :: u32
  assumes "0 \<le> sint x"
  shows "sint x = uint x"
  using assms sint_lt [of x] by (simp add: uint_sint take_bit_int_eq_self)

lemma sleep_margin:
  assumes "\<not> x <s TIME_5MS_IN_32768CYCLE"
  shows "34 \<le> uint (x - reduce_sleep_time e) \<and> uint (x - reduce_sleep_time e) + 100 \<le> uint x \<and> sint x = uint x"
proof -
  have "164 \<le> sint x" using assms by (simp add: TIME_5MS_IN_32768CYCLE_def word_sless_alt)
  then have x: "sint x = uint x" "164 \<le> uint x" using sint_nonneg [of x] by auto
  have r: "uint (reduce_sleep_time e) = 100 \<or> uint (reduce_sleep_time e) = 130"
    by (auto simp: reduce_sleep_time_def Let_def)
  then have "reduce_sleep_time e \<le> x" using x(2) by (auto simp: word_le_def)
  then have "uint (x - reduce_sleep_time e) = uint x - uint (reduce_sleep_time e)" by (simp add: uint_minus_simple_alt)
  then show ?thesis using r x by auto
qed

text \<open>The product wraps around for more than 131 seconds, but then only makes the sleep shorter.\<close>

lemma idle_cycles:
  fixes idle :: u32
  assumes "0 < idle"
  defines "x \<equiv> (32768 * (idle - 1)) div 1000"
  shows "uint x * 1000 < 32768 * uint idle" "sint x = uint x"
proof -
  have wrap: "uint (32768 * y) \<le> 32768 * uint y" for y :: u32
    by (simp add: uint_word_ariths zmod_le_nonneg_dividend)
  have i: "uint (idle - 1) = uint idle - 1"
    using assms(1) by (subst uint_sub_if') (auto simp: word_less_def)
  have d: "uint x = uint (32768 * (idle - 1)) div 1000" by (simp only: x_def uint_div) simp
  show "uint x * 1000 < 32768 * uint idle" unfolding d using wrap [of "idle - 1"] i by linarith
  have "uint x < 2 ^ 31" unfolding d using uint_lt2p [of "32768 * (idle - 1)"] by simp
  then show "sint x = uint x" by (simp add: sint_uint signed_take_bit_int_eq_self order_trans [OF _ uint_ge_0])
qed

section \<open>Properties\<close>

text \<open>C30: The train restarts into its boot loader exactly if the nine bytes of the command were written and
  the wait of the main loop ended afterwards; no other write, connection or waiting does it.\<close>

theorem train_resets_iff_magic:
  "(\<exists>t. train_run es train_init = TReset t \<and> tr_rsv3 t = UPDATE_REQUEST) =
   (\<exists>es1 m es2. es = es1 @ m # es2 \<and> is_magic m \<and> TrWaitEnds \<in> set es2)"
proof -
  have "(TrWaitEnds \<in> set (dropWhile (\<lambda>e. \<not> is_magic e) es)) =
    (\<exists>es1 m es2. es = es1 @ m # es2 \<and> is_magic m \<and> TrWaitEnds \<in> set es2)"
  proof (induction es)
    case (Cons e es)
    show ?case
    proof (cases "is_magic e")
      case True
      then show ?thesis
        by (auto simp: Cons_eq_append_conv)
    next
      case False
      then show ?thesis using Cons by (auto simp: Cons_eq_append_conv)
    qed
  qed simp
  then show ?thesis using waiting_run [of train_init es] by (simp add: train_init_def)
qed

text \<open>The processor never sleeps longer than the radio allows or, when the kernel gives a finite idle
  time, than that time, and the subtraction of the wake-up time never wraps around.\<close>

theorem sleep_bounded:
  assumes "vApplicationSleep e s idle = Some c" "0 < idle"
  shows "\<not> ble_app_is_connected s \<and> 34 \<le> uint c \<and> uint c + 100 \<le> sint (se_radio_cycles e) \<and>
    (se_status e = eStandardSleep \<and> idle + se_ticks e \<noteq> portMAX_DELAY \<longrightarrow> uint c * 1000 < 32768 * uint idle)"
proof -
  let ?x = "(32768 * (idle - 1)) div 1000"
  note x = idle_cycles [OF assms(2)]
  show ?thesis
  proof (cases "se_status e = eStandardSleep \<and> idle + se_ticks e \<noteq> portMAX_DELAY \<and> ?x <s se_radio_cycles e")
    case True
    then have "c = ?x - reduce_sleep_time e" "\<not> ?x <s TIME_5MS_IN_32768CYCLE" "\<not> ble_app_is_connected s"
      using assms(1) by (auto simp: vApplicationSleep_def Let_def split: if_splits)
    then show ?thesis using sleep_margin [of ?x e] x True by (auto simp: word_sless_alt)
  next
    case False
    then have "c = se_radio_cycles e - reduce_sleep_time e" "\<not> se_radio_cycles e <s TIME_5MS_IN_32768CYCLE" "\<not> ble_app_is_connected s"
      using assms(1) by (auto simp: vApplicationSleep_def Let_def split: if_splits)
    then show ?thesis using sleep_margin [of "se_radio_cycles e" e] x False by (auto simp: word_sless_alt)
  qed
qed

theorem sleep_bounded_witness:
  "vApplicationSleep \<lparr>se_ticks = 5, se_status = eStandardSleep, se_radio_busy = False, se_radio_cycles = 40000,
     se_io_mode = 4, se_cont_read = 1, se_xtal = True\<rparr> train_init 1001 = Some 32668 \<and>
   uint (32668 :: u32) + 100 \<le> sint (40000 :: i32) \<and> uint (32668 :: u32) * 1000 < 32768 * uint (1001 :: u32)"
proof -
  let ?e = "\<lparr>se_ticks = 5, se_status = eStandardSleep, se_radio_busy = False, se_radio_cycles = 40000,
     se_io_mode = 4, se_cont_read = 1, se_xtal = True\<rparr>"
  have "vApplicationSleep ?e train_init 1001 = Some 32668"
    by (simp add: vApplicationSleep_def ble_app_is_connected_def train_init_def reduce_sleep_time_def Let_def portMAX_DELAY_def
        TIME_5MS_IN_32768CYCLE_def word_sless_alt)
  then show ?thesis using sleep_bounded [of ?e train_init 1001 32668] by (simp add: portMAX_DELAY_def)
qed

end
