(* ===== verification/Update.thy ===== *)
theory Update
  imports Train
begin

text \<open>
  How an update starts: the train stores a request in a register that survives the reset, and
  the boot loader (\<open>main_task\<close> of \<open>robot_bootloader/main.c\<close>) then looks for a handshake for ten
  seconds instead of one before it boots.
\<close>

definition boot_window :: "u32 \<Rightarrow> u32 \<times> u32" where
  "boot_window rsv3 = (if rsv3 = 0xAABBCCDD then (10000 div 20, 0) else (1000 div 20, rsv3))"

text \<open>
  The loop of 20 ms slots: what the UART has received when it is polled, and what happens in
  the slot.  \<open>WDownload\<close> is the entry of the download protocol, \<open>WBoot\<close> the end of the loop.
\<close>

datatype window = WDownload link | WBoot link | WWaiting link

fun download_window :: "u32 \<Rightarrow> ((u32 \<times> bytes) \<times> link_event list) list \<Rightarrow> link \<Rightarrow> window option" where
  "download_window timeout [] s = Some (if timeout = 0 then WBoot s else WWaiting s)"
| "download_window timeout ((read, es) # slots) s =
     (if timeout = 0 then Some (WBoot s)
      else
        (case bflb_eflash_loader_if_handshake_poll read s of
           None \<Rightarrow> None
         | Some (r, s1) \<Rightarrow>
             if r = 0 then Some (WDownload s1)
             else (case link_steps es s1 of None \<Rightarrow> None | Some s2 \<Rightarrow> download_window (timeout - 1) slots s2)))"

text \<open>The link as \<open>main_task\<close> sets it up: UART is chosen last, nothing is connected.\<close>

definition link_boot :: "link \<Rightarrow> bool" where
  "link_boot s \<longleftrightarrow> lk_if s = Some IF_UART \<and> \<not> lk_uart_int s \<and> lk_buf s 0 = Null"

lemma quiet_poll:
  "link_boot s \<Longrightarrow> fst r < 16 \<Longrightarrow> bflb_eflash_loader_if_handshake_poll r s = Some (- 1, s)"
  by (auto simp: link_boot_def bflb_eflash_loader_if_handshake_poll_def bflb_eflash_loader_uart_handshake_poll_def Let_def not_le)

lemma quiet_slots:
  assumes "link_boot s" "fst r < 16"
  shows "download_window t (replicate k (r, []) @ slots) s =
    (if unat t < k then Some (WBoot s) else download_window (t - word_of_nat k) slots s)"
proof (induction k arbitrary: t)
  case (Suc k)
  show ?case
  proof (cases "t = 0")
    case False
    then have "unat (t - 1) = unat t - 1" by (simp add: unat_minus_one)
    moreover have "0 < unat t" using False by (simp add: unat_gt_0)
    ultimately show ?thesis using Suc [of "t - 1"] False quiet_poll [OF assms] by (auto simp: algebra_simps)
  qed simp
qed simp

lemma connected_polls:
  "link_boot s \<Longrightarrow> \<exists>s1. link_steps [BleConnected 0] s = Some s1 \<and>
    bflb_eflash_loader_if_handshake_poll r s1 = Some (0, s1)"
  by (simp add: link_boot_def bl_connected_def Let_def buf_alloc_def bflb_eflash_loader_if_set_def
      bflb_eflash_loader_if_handshake_poll_def bflb_eflash_loader_ble_handshake_poll_def)

lemma reset_request: "train_run es s = TReset t \<Longrightarrow> tr_rsv3 t = UPDATE_REQUEST"
proof (induction es arbitrary: s)
  case (Cons e es)
  then show ?case
    by (cases e) (auto simp: ble_app_process_def Let_def split: train_next.splits if_splits)
qed simp

text \<open>C17: After the train has been asked to restart, the boot loader clears the request and lets a phone that
  connects within ten seconds start the download; without the request a phone that comes after one
  second finds the old firmware booted.\<close>

theorem update_request_opens_window:
  assumes "train_run es train_init = TReset t" and "link_boot s" "fst r < 16"
  shows "snd (boot_window (tr_rsv3 t)) = 0 \<and>
    (k < 499 \<longrightarrow> (\<exists>s1. download_window (fst (boot_window (tr_rsv3 t)))
        (replicate k (r, []) @ [(r, [BleConnected 0]), (r, [])]) s = Some (WDownload s1))) \<and>
    (49 \<le> k \<longrightarrow> (\<exists>s1. download_window (fst (boot_window 0))
        (replicate k (r, []) @ [(r, [BleConnected 0]), (r, [])]) s = Some (WBoot s1)))"
proof -
  have w: "boot_window (tr_rsv3 t) = (500, 0)" "boot_window 0 = (50, 0)"
    using reset_request [OF assms(1)] by (simp_all add: boot_window_def UPDATE_REQUEST_def)
  obtain s1 where s1: "link_steps [BleConnected 0] s = Some s1" "bflb_eflash_loader_if_handshake_poll r s1 = Some (0, s1)"
    using connected_polls [OF assms(2)] by blast
  note quiet = quiet_slots [OF assms(2,3), of _ k "[(r, [BleConnected 0]), (r, [])]"] quiet_poll [OF assms(2,3)]
  have "download_window 500 (replicate k (r, []) @ [(r, [BleConnected 0]), (r, [])]) s = Some (WDownload s1)" if "k < 499"
  proof -
    define w :: u32 where "w = 500 - word_of_nat k"
    have "unat w = 500 - k"
      unfolding w_def using that by (subst unat_sub) (auto simp: word_le_nat_alt unat_of_nat)
    then have "w \<noteq> 0" "w \<noteq> 1" using that by auto
    then show ?thesis using that s1 quiet(1) [of 500, folded w_def] quiet(2) by (simp del: link_steps.simps)
  qed
  moreover have "\<exists>s1. download_window 50 (replicate k (r, []) @ [(r, [BleConnected 0]), (r, [])]) s = Some (WBoot s1)" if "49 \<le> k"
    using that s1 quiet by (cases "k = 49 \<or> k = 50") auto
  ultimately show ?thesis using w by auto
qed

theorem update_request_opens_window_witness:
  "\<exists>t. train_run [TrConnected 0, TrWrite MAGIC_CODE 9 0, TrWaitEnds] train_init = TReset t \<and>
     (\<exists>s. download_window (fst (boot_window (tr_rsv3 t))) (replicate 100 ((0, []), []) @ [((0, []), [BleConnected 0]), ((0, []), [])])
        (link_init\<lparr>lk_if := Some IF_UART\<rparr>) = Some (WDownload s))"
proof -
  have "is_magic (TrWrite MAGIC_CODE 9 0)" by (simp add: WRITE_FLAG_PREPARE_def)
  then obtain t where t: "train_run [TrConnected 0, TrWrite MAGIC_CODE 9 0, TrWaitEnds] train_init = TReset t"
    by (simp add: ble_app_recv_magic WRITE_FLAG_PREPARE_def ble_app_process_def train_connected_def train_init_def)
  have "link_boot (link_init\<lparr>lk_if := Some IF_UART\<rparr>)" by (simp add: link_boot_def link_init_def)
  then show ?thesis using update_request_opens_window [OF t, of _ "(0, [])" 100] t by auto
qed

end
