(* ===== verification/Controller.thy ===== *)
theory Controller
  imports Train
begin

text \<open>
  The remote control, \<open>examples/lego_train_controller/ble_app.c\<close>: looking for the train, and the
  button that changes the advertised speed.  The callbacks of the host stack only set bits of the
  notification value of the main task (\<open>ct_status\<close>), which handles all bits that are set in one turn.
  What the stack answers to a request is a parameter of the turn (\<open>host\<close>); the requests are recorded
  in order (\<open>ct_cmds\<close>).
\<close>

section \<open>State\<close>

definition BLE_STATUS_FOUND_ADDRESS :: u32 where "BLE_STATUS_FOUND_ADDRESS = 0x01"
definition BLE_STATUS_CONNECTED :: u32 where "BLE_STATUS_CONNECTED = 0x02"
definition BLE_STATUS_DISCOVERED_CHAR :: u32 where "BLE_STATUS_DISCOVERED_CHAR = 0x04"
definition BLE_STATUS_DISCOVERED_DES :: u32 where "BLE_STATUS_DISCOVERED_DES = 0x08"
definition BLE_STATUS_SUBCRIBED :: u32 where "BLE_STATUS_SUBCRIBED = 0x10"
definition BLE_STATUS_DEVICE_CONFIRMED :: u32 where "BLE_STATUS_DEVICE_CONFIRMED = 0x20"
definition BLE_STATUS_BT_PRESSED :: u32 where "BLE_STATUS_BT_PRESSED = 0x40"

lemmas ble_status = BLE_STATUS_FOUND_ADDRESS_def BLE_STATUS_CONNECTED_def BLE_STATUS_DISCOVERED_CHAR_def
  BLE_STATUS_DISCOVERED_DES_def BLE_STATUS_SUBCRIBED_def BLE_STATUS_DEVICE_CONFIRMED_def BLE_STATUS_BT_PRESSED_def

definition SCAN_CODE :: bytes where "SCAN_CODE = [0x53, 0x43, 0x41, 0x4E]"
definition RESP_OK_CODE :: bytes where "RESP_OK_CODE = [0x4F, 0x4B]"
definition SCAN_CMD_LENGTH :: u16 where "SCAN_CMD_LENGTH = 10"
definition BLE_ADV_MOTOR_CODE :: u16 where "BLE_ADV_MOTOR_CODE = 0x3456"

type_synonym uuid = "128 word"

definition DEVICE_WRITE_CHAR :: uuid where "DEVICE_WRITE_CHAR = 0x00070002074546508d93df59be2fc10a"
definition DEVICE_READ_CHAR :: uuid where "DEVICE_READ_CHAR = 0x00070001074546508d93df59be2fc10a"
definition BT_UUID_GATT_CCC :: uuid where "BT_UUID_GATT_CCC = 0x0000290200001000800000805F9B34FB"

datatype discover_type = DISCOVER_PRIMARY | DISCOVER_SECONDARY | DISCOVER_INCLUDE | DISCOVER_CHARACTERISTIC | DISCOVER_DESCRIPTOR

text \<open>The requests to the host stack.\<close>

datatype host_cmd =
    ScanStart
  | ScanStop
  | Connect bytes
  | Disconnect
  | Discover discover_type u16
  | Subscribe u16 u16
  | Write u16 bytes
  | Advertise bytes

record controller =
  ct_conn :: bool
  ct_status :: u32
  ct_wr_hdl :: u16
  ct_rd_hdl :: u16
  ct_ccc_hdl :: u16
  ct_sub_value :: u16
  ct_sub_handle :: u16
  ct_type :: discover_type
  ct_dev_addr :: bytes
  ct_adv_buf :: bytes
  ct_forever :: bool
  ct_cmds :: "host_cmd list"

definition notify :: "u32 \<Rightarrow> controller \<Rightarrow> controller" where
  "notify b s = s\<lparr>ct_status := ct_status s OR b\<rparr>"

definition request :: "host_cmd \<Rightarrow> controller \<Rightarrow> controller" where
  "request c s = s\<lparr>ct_cmds := ct_cmds s @ [c]\<rparr>"

section \<open>Callbacks\<close>

text \<open>The flag returned says whether the stack should go on calling.\<close>

definition notify_func :: "bytes \<Rightarrow> u16 \<Rightarrow> controller \<Rightarrow> bool \<times> controller" where
  "notify_func data len s =
     (if ct_sub_value s = 0 then (False, s\<lparr>ct_sub_handle := 0\<rparr>)
      else
        (let s1 = (if len = 0 then notify BLE_STATUS_SUBCRIBED s else s)
         in (True, if len = word_of_nat (length RESP_OK_CODE) \<and> take (length RESP_OK_CODE) data = RESP_OK_CODE
                   then notify BLE_STATUS_DEVICE_CONFIRMED s1 else s1)))"

record gatt_attr =
  at_handle :: u16
  at_uuid :: uuid
  at_chrc_uuid :: uuid
  at_chrc_handle :: u16

definition ble_discover_func :: "gatt_attr option \<Rightarrow> controller \<Rightarrow> bool \<times> controller" where
  "ble_discover_func attr s =
     (case attr of
        None \<Rightarrow> (False, notify (if ct_ccc_hdl s \<noteq> 0 then BLE_STATUS_DISCOVERED_DES else BLE_STATUS_DISCOVERED_CHAR) s)
      | Some a \<Rightarrow>
          (True,
           case ct_type s of
             DISCOVER_CHARACTERISTIC \<Rightarrow>
               (if at_chrc_uuid a = DEVICE_WRITE_CHAR then s\<lparr>ct_wr_hdl := at_chrc_handle a\<rparr>
                else if at_chrc_uuid a = DEVICE_READ_CHAR then s\<lparr>ct_rd_hdl := at_chrc_handle a\<rparr>
                else s)
           | DISCOVER_DESCRIPTOR \<Rightarrow> (if at_uuid a = BT_UUID_GATT_CCC then s\<lparr>ct_ccc_hdl := at_handle a\<rparr> else s)
           | _ \<Rightarrow> s))"

definition ctl_connected :: "u8 \<Rightarrow> controller \<Rightarrow> controller" where
  "ctl_connected err s = (if err \<noteq> 0 then s else notify BLE_STATUS_CONNECTED (s\<lparr>ct_conn := True\<rparr>))"

definition ctl_disconnected :: "controller \<Rightarrow> controller" where
  "ctl_disconnected s = s\<lparr>ct_conn := False\<rparr>"

text \<open>The name of a device that advertises: the first name field, at most 29 bytes of a zeroed buffer.\<close>

definition data_cb :: "u8 \<times> bytes \<Rightarrow> bytes \<Rightarrow> bool \<times> bytes" where
  "data_cb f name =
     (if fst f = 0x08 \<or> fst f = 0x09
      then (False, patch name 0 (take (if length (snd f) > 29 then 29 else length (snd f)) (snd f)))
      else (True, name))"

fun bt_data_parse :: "(u8 \<times> bytes) list \<Rightarrow> bytes \<Rightarrow> bytes" where
  "bt_data_parse [] name = name"
| "bt_data_parse (f # fs) name = (case data_cb f name of (True, n) \<Rightarrow> bt_data_parse fs n | (False, n) \<Rightarrow> n)"

text \<open>\<open>strstr(s, t) != NULL\<close> on the bytes before the terminating zero.\<close>

fun is_part :: "bytes \<Rightarrow> bytes \<Rightarrow> bool" where
  "is_part t [] = (t = [])"
| "is_part t (x # xs) = (take (length t) (x # xs) = t \<or> is_part t xs)"

definition strstr :: "bytes \<Rightarrow> bytes \<Rightarrow> bool" where
  "strstr s t = is_part t (takeWhile (\<lambda>b. b \<noteq> 0) s)"

definition lego_train_name :: bytes where
  "lego_train_name = [0x6C, 0x65, 0x67, 0x6F, 0x5F, 0x74, 0x72, 0x61, 0x69, 0x6E, 0x5F]"

definition device_found :: "bytes \<Rightarrow> (u8 \<times> bytes) list \<Rightarrow> controller \<Rightarrow> controller" where
  "device_found addr ads s =
     (if strstr (bt_data_parse ads (replicate 30 0)) lego_train_name
      then notify BLE_STATUS_FOUND_ADDRESS ((request ScanStop s)\<lparr>ct_dev_addr := addr\<rparr>)
      else s)"

definition bt_press :: "controller \<Rightarrow> controller" where
  "bt_press s = notify BLE_STATUS_BT_PRESSED s"

datatype ctl_event =
    CtFound bytes "(u8 \<times> bytes) list"
  | CtConnected u8
  | CtDisconnected
  | CtAttr "gatt_attr option"
  | CtNotified bytes u16
  | CtPressed

fun ctl_callback :: "ctl_event \<Rightarrow> controller \<Rightarrow> controller" where
  "ctl_callback (CtFound addr ads) s = device_found addr ads s"
| "ctl_callback (CtConnected err) s = ctl_connected err s"
| "ctl_callback CtDisconnected s = ctl_disconnected s"
| "ctl_callback (CtAttr a) s = snd (ble_discover_func a s)"
| "ctl_callback (CtNotified data len) s = snd (notify_func data len s)"
| "ctl_callback CtPressed s = bt_press s"

section \<open>Looking for the train\<close>

record host =
  ho_connect :: bool
  ho_chars :: int
  ho_descs :: int
  ho_subscribe :: int
  ho_write :: int
  ho_address :: bytes

definition ble_discover :: "int \<Rightarrow> discover_type \<Rightarrow> u16 \<Rightarrow> controller \<Rightarrow> int \<times> controller" where
  "ble_discover err type start_handle s =
     (if \<not> ct_conn s then (- 1, s) else (err, request (Discover type start_handle) (s\<lparr>ct_type := type\<rparr>)))"

definition ble_subscribe :: "int \<Rightarrow> controller \<Rightarrow> int \<times> controller" where
  "ble_subscribe err s =
     (if \<not> ct_conn s then (- 1, s)
      else (err, request (Subscribe (ct_ccc_hdl s) (ct_rd_hdl s)) (s\<lparr>ct_sub_value := 1, ct_sub_handle := ct_rd_hdl s\<rparr>)))"

text \<open>The steps of one turn, in the order of the code; each looks at its bit of the status.\<close>

definition on_found :: "host \<Rightarrow> u32 \<Rightarrow> controller \<Rightarrow> controller" where
  "on_found h st s =
     (if st AND BLE_STATUS_FOUND_ADDRESS \<noteq> 0
      then (request (Connect (ct_dev_addr s)) s)\<lparr>ct_forever := \<not> ho_connect h\<rparr> else s)"

definition on_connected :: "host \<Rightarrow> u32 \<Rightarrow> controller \<Rightarrow> controller" where
  "on_connected h st s =
     (if st AND BLE_STATUS_CONNECTED \<noteq> 0
      then (case ble_discover (ho_chars h) DISCOVER_CHARACTERISTIC 1 (s\<lparr>ct_wr_hdl := 0, ct_rd_hdl := 0, ct_ccc_hdl := 0\<rparr>) of
              (err, s1) \<Rightarrow> if err \<noteq> 0 then s1\<lparr>ct_forever := True\<rparr> else s1)
      else s)"

definition on_chars :: "host \<Rightarrow> u32 \<Rightarrow> controller \<Rightarrow> controller" where
  "on_chars h st s =
     (if st AND BLE_STATUS_DISCOVERED_CHAR \<noteq> 0
      then (if ct_wr_hdl s = 0 \<or> ct_rd_hdl s = 0 then s\<lparr>ct_forever := True\<rparr>
            else (case ble_discover (ho_descs h) DISCOVER_DESCRIPTOR 1 s of
                    (err, s1) \<Rightarrow> if err \<noteq> 0 then s1\<lparr>ct_forever := True\<rparr> else s1))
      else s)"

definition on_descs :: "host \<Rightarrow> u32 \<Rightarrow> controller \<Rightarrow> controller" where
  "on_descs h st s =
     (if st AND BLE_STATUS_DISCOVERED_DES \<noteq> 0
      then (if ct_ccc_hdl s = 0 then s\<lparr>ct_forever := True\<rparr>
            else (case ble_subscribe (ho_subscribe h) s of
                    (err, s1) \<Rightarrow> if err \<noteq> 0 then s1\<lparr>ct_forever := True\<rparr> else s1))
      else s)"

definition on_subscribed :: "host \<Rightarrow> u32 \<Rightarrow> controller \<Rightarrow> controller" where
  "on_subscribed h st s =
     (if st AND BLE_STATUS_SUBCRIBED \<noteq> 0
      then (let s1 = request (Write (ct_wr_hdl s) (take (unat SCAN_CMD_LENGTH) (SCAN_CODE @ take 6 (ho_address h)))) s
            in if ho_write h \<noteq> 0 then s1\<lparr>ct_forever := True\<rparr> else s1)
      else s)"

definition on_confirmed :: "u32 \<Rightarrow> controller \<Rightarrow> bool \<times> controller" where
  "on_confirmed st s =
     (if st AND BLE_STATUS_DEVICE_CONFIRMED \<noteq> 0 then (True, request Disconnect s) else (False, s))"

definition scan_again :: "controller \<Rightarrow> controller" where
  "scan_again s = request ScanStart (if ct_conn s then request Disconnect s else s)"

text \<open>
  One turn of the loop: nothing while it waits for ever without a notification; otherwise the
  notification is handled, or the time is up.  The flag says that the device is confirmed, which
  ends the loop.
\<close>

definition find_turn :: "host \<Rightarrow> controller \<Rightarrow> bool \<times> controller" where
  "find_turn h s =
     (if ct_status s \<noteq> 0 then
        (let st = ct_status s;
             (found, s1) = on_confirmed st (on_subscribed h st (on_descs h st (on_chars h st (on_connected h st
                             (on_found h st (s\<lparr>ct_status := 0\<rparr>))))))
         in (found, if ct_forever s1 then scan_again s1 else s1))
      else if ct_forever s then (False, s)
      else (False, (scan_again s)\<lparr>ct_forever := True\<rparr>))"

fun find_loop :: "(ctl_event list \<times> host) list \<Rightarrow> controller \<Rightarrow> bool \<times> controller" where
  "find_loop [] s = (False, s)"
| "find_loop ((es, h) # turns) s =
     (case find_turn h (fold ctl_callback es s) of
        (True, s1) \<Rightarrow> (True, s1)
      | (False, s1) \<Rightarrow> find_loop turns s1)"

definition ble_app_find_device :: "(ctl_event list \<times> host) list \<Rightarrow> controller \<Rightarrow> bool \<times> controller" where
  "ble_app_find_device turns s = find_loop turns ((request ScanStart s)\<lparr>ct_forever := True\<rparr>)"

section \<open>The button\<close>

definition button_step :: "u8 \<Rightarrow> u8" where
  "button_step b =
     (if b AND 0x01 = 0 then b OR 0x01
      else if b AND 0x02 = 0 then b OR 0x02
      else if b AND 0x03 \<noteq> 0 then 0
      else 0)"

definition process_start :: "controller \<Rightarrow> controller" where
  "process_start s =
     (let s1 = s\<lparr>ct_adv_buf := [ucast (BLE_ADV_MOTOR_CODE AND 0xFF), ucast (drop_bit 8 BLE_ADV_MOTOR_CODE), 0]\<rparr>
      in request (Advertise (ct_adv_buf s1)) s1)"

definition process_turn :: "controller \<Rightarrow> controller" where
  "process_turn s =
     (let s1 = s\<lparr>ct_status := 0\<rparr>
      in if ct_status s AND BLE_STATUS_BT_PRESSED \<noteq> 0
         then (let s2 = s1\<lparr>ct_adv_buf := (ct_adv_buf s1)[2 := button_step (ct_adv_buf s1 ! 2)]\<rparr>
               in request (Advertise (ct_adv_buf s2)) s2)
         else s1)"

fun process_loop :: "ctl_event list list \<Rightarrow> controller \<Rightarrow> controller" where
  "process_loop [] s = s"
| "process_loop (es # turns) s =
     (let s1 = fold ctl_callback es s
      in process_loop turns (if ct_status s1 \<noteq> 0 then process_turn s1 else s1))"

definition ctl_process :: "ctl_event list list \<Rightarrow> controller \<Rightarrow> controller" where
  "ctl_process turns s = process_loop turns (process_start s)"

definition ctl_init :: controller where
  "ctl_init = \<lparr>ct_conn = False, ct_status = 0, ct_wr_hdl = 0, ct_rd_hdl = 0, ct_ccc_hdl = 0, ct_sub_value = 0,
     ct_sub_handle = 0, ct_type = DISCOVER_PRIMARY, ct_dev_addr = [], ct_adv_buf = [0, 0, 0], ct_forever = True, ct_cmds = []\<rparr>"

section \<open>What the search never does\<close>

text \<open>
  What holds after any events \<open>E\<close> and any answers of the host stack: connections go to devices
  named like the train, subscriptions to a descriptor that was reported, and a device counts as
  confirmed only when it has notified ``OK'' after a subscription was asked for.
\<close>

definition named :: "(u8 \<times> bytes) list \<Rightarrow> bool" where
  "named ads \<longleftrightarrow> strstr (bt_data_parse ads (replicate 30 0)) lego_train_name"

definition says_ok :: "ctl_event \<Rightarrow> bool" where
  "says_ok e \<longleftrightarrow> (\<exists>data. e = CtNotified data 2 \<and> take 2 data = RESP_OK_CODE)"

definition reports_ccc :: "u16 \<Rightarrow> ctl_event \<Rightarrow> bool" where
  "reports_ccc h e \<longleftrightarrow> (\<exists>a. e = CtAttr (Some a) \<and> at_uuid a = BT_UUID_GATT_CCC \<and> at_handle a = h)"

fun sound_cmd :: "ctl_event list \<Rightarrow> bytes set \<Rightarrow> host_cmd \<Rightarrow> bool" where
  "sound_cmd E A (Connect addr) = (\<exists>ads. CtFound addr ads \<in> set E \<and> named ads)"
| "sound_cmd E A (Subscribe c r) = (c \<noteq> 0 \<and> (\<exists>e \<in> set E. reports_ccc c e))"
| "sound_cmd E A (Write hdl data) = (\<exists>own \<in> A. data = take 10 (SCAN_CODE @ take 6 own))"
| "sound_cmd E A _ = True"

definition subscribed :: "controller \<Rightarrow> bool" where
  "subscribed s \<longleftrightarrow> (\<exists>c r. Subscribe c r \<in> set (ct_cmds s))"

definition search_ok :: "ctl_event list \<Rightarrow> bytes set \<Rightarrow> controller \<Rightarrow> bool" where
  "search_ok E A s \<longleftrightarrow> list_all (sound_cmd E A) (ct_cmds s) \<and>
     (ct_status s AND BLE_STATUS_FOUND_ADDRESS \<noteq> 0 \<longrightarrow> sound_cmd E A (Connect (ct_dev_addr s))) \<and>
     (ct_ccc_hdl s \<noteq> 0 \<longrightarrow> (\<exists>e \<in> set E. reports_ccc (ct_ccc_hdl s) e)) \<and>
     (ct_sub_value s \<noteq> 0 \<longrightarrow> subscribed s) \<and>
     (ct_status s AND BLE_STATUS_DEVICE_CONFIRMED \<noteq> 0 \<longrightarrow> subscribed s \<and> (\<exists>e \<in> set E. says_ok e))"

lemma sound_cmd_more: "sound_cmd E A c \<Longrightarrow> set E \<subseteq> set E' \<Longrightarrow> A \<subseteq> A' \<Longrightarrow> sound_cmd E' A' c"
  by (cases c) auto

lemma search_ok_more: "search_ok E A s \<Longrightarrow> set E \<subseteq> set E' \<Longrightarrow> A \<subseteq> A' \<Longrightarrow> search_ok E' A' s"
  unfolding search_ok_def list_all_iff by (meson sound_cmd_more subsetD)

lemma status_bits: "(w OR b) AND c \<noteq> 0 \<longleftrightarrow> w AND c \<noteq> 0 \<or> b AND c \<noteq> 0" for w b c :: u32
  by (simp add: bit.conj_disj_distrib2 or_eq_0_iff)

lemma search_ok_notify:
  assumes "search_ok E A s" "b AND BLE_STATUS_FOUND_ADDRESS = 0" "b AND BLE_STATUS_DEVICE_CONFIRMED = 0"
  shows "search_ok E A (notify b s)"
  using assms by (simp add: search_ok_def notify_def status_bits subscribed_def)

lemma search_ok_callback:
  assumes "search_ok E A s"
  shows "search_ok (E @ [e]) A (ctl_callback e s)"
proof -
  have s: "search_ok (E @ [e]) A s" by (rule search_ok_more [OF assms]) auto
  show ?thesis
  proof (cases e)
    case (CtFound addr ads)
    then show ?thesis using s
      by (auto simp: device_found_def search_ok_def notify_def request_def status_bits subscribed_def named_def ble_status)
  next
    case (CtAttr a)
    then show ?thesis using s
      by (auto simp: ble_discover_func_def search_ok_notify ble_status split: option.splits discover_type.splits)
        (auto simp: search_ok_def subscribed_def reports_ccc_def)
  next
    case (CtNotified data len)
    have ok: "search_ok (E @ [e]) A (notify BLE_STATUS_DEVICE_CONFIRMED t)"
      if "search_ok (E @ [e]) A t" "ct_sub_value t \<noteq> 0" "len = 2" "take 2 data = RESP_OK_CODE" for t
      using that CtNotified by (auto simp: search_ok_def notify_def status_bits subscribed_def says_ok_def ble_status)
    have l: "(word_of_nat (length RESP_OK_CODE) :: u16) = 2" "length RESP_OK_CODE = 2" by (simp_all add: RESP_OK_CODE_def)
    have z: "search_ok (E @ [e]) A (s\<lparr>ct_sub_handle := 0\<rparr>)" using s by (simp add: search_ok_def subscribed_def)
    show ?thesis using s z CtNotified ok l
      by (auto simp: notify_func_def Let_def search_ok_notify ble_status)
  next
    case (CtConnected err)
    have "search_ok (E @ [e]) A (s\<lparr>ct_conn := True\<rparr>)" using s by (simp add: search_ok_def subscribed_def)
    then have "search_ok (E @ [e]) A (notify BLE_STATUS_CONNECTED (s\<lparr>ct_conn := True\<rparr>))"
      by (rule search_ok_notify) (simp_all add: ble_status)
    then show ?thesis using s unfolding CtConnected by (auto simp: ctl_connected_def)
  next
    case CtDisconnected
    then show ?thesis using s by (simp add: ctl_disconnected_def search_ok_def subscribed_def)
  next
    case CtPressed
    then show ?thesis using s by (simp add: bt_press_def search_ok_notify ble_status)
  qed
qed

lemma search_ok_events: "search_ok E A s \<Longrightarrow> search_ok (E @ es) A (fold ctl_callback es s)"
proof (induction es arbitrary: E s)
  case (Cons e es)
  then show ?case using Cons.IH [OF search_ok_callback [OF Cons.prems]] by simp
qed simp

lemma search_ok_steps:
  assumes "search_ok E A s" "ho_address h \<in> A"
  shows "search_ok E A (on_connected h st s)" "search_ok E A (on_chars h st s)" "search_ok E A (on_descs h st s)"
    "search_ok E A (on_subscribed h st s)" "search_ok E A (scan_again s)"
    "st AND BLE_STATUS_FOUND_ADDRESS \<noteq> 0 \<longrightarrow> sound_cmd E A (Connect (ct_dev_addr s)) \<Longrightarrow> search_ok E A (on_found h st s)"
    "search_ok E A (snd (on_confirmed st s))"
  using assms
  by (auto simp: search_ok_def subscribed_def on_found_def on_connected_def on_chars_def on_descs_def on_subscribed_def
      on_confirmed_def scan_again_def ble_discover_def ble_subscribe_def request_def SCAN_CMD_LENGTH_def Let_def)

lemma subscribed_steps:
  assumes "subscribed s"
  shows "subscribed (on_connected h st s)" "subscribed (on_chars h st s)" "subscribed (on_descs h st s)"
    "subscribed (on_subscribed h st s)" "subscribed (scan_again s)" "subscribed (on_found h st s)"
    "subscribed (snd (on_confirmed st s))"
  using assms
  by (auto simp: subscribed_def on_found_def on_connected_def on_chars_def on_descs_def on_subscribed_def
      on_confirmed_def scan_again_def ble_discover_def ble_subscribe_def request_def Let_def)

lemma search_ok_turn:
  assumes s: "search_ok E A s" and a: "ho_address h \<in> A" and t: "find_turn h s = (f, t)"
  shows "search_ok E A t \<and> (f \<longrightarrow> subscribed t \<and> Disconnect \<in> set (ct_cmds t) \<and> (\<exists>e \<in> set E. says_ok e))"
proof (cases "ct_status s = 0")
  case True
  have "search_ok E A ((scan_again s)\<lparr>ct_forever := True\<rparr>)"
    using search_ok_steps(5) [OF s a] by (simp add: search_ok_def subscribed_def)
  then show ?thesis using t True s by (auto simp: find_turn_def split: if_splits)
next
  case False
  let ?st = "ct_status s"
  define s1 where "s1 = on_subscribed h ?st (on_descs h ?st (on_chars h ?st (on_connected h ?st (on_found h ?st (s\<lparr>ct_status := 0\<rparr>)))))"
  have s0: "search_ok E A (s\<lparr>ct_status := 0\<rparr>)" using s by (simp add: search_ok_def subscribed_def)
  have f: "?st AND BLE_STATUS_FOUND_ADDRESS \<noteq> 0 \<longrightarrow> sound_cmd E A (Connect (ct_dev_addr (s\<lparr>ct_status := 0\<rparr>)))"
    using s by (simp add: search_ok_def)
  have s1: "search_ok E A s1" unfolding s1_def by (intro search_ok_steps(1-4) search_ok_steps(6) [OF s0 a f] a)
  let ?s2 = "snd (on_confirmed ?st s1)"
  have s2: "search_ok E A ?s2" "search_ok E A (scan_again ?s2)"
    using search_ok_steps(7) [OF s1 a] search_ok_steps(5) [OF search_ok_steps(7) [OF s1 a] a] by blast+
  have run: "f = (?st AND BLE_STATUS_DEVICE_CONFIRMED \<noteq> 0)" "t = (if ct_forever ?s2 then scan_again ?s2 else ?s2)"
    using t False by (auto simp: find_turn_def Let_def s1_def [symmetric] on_confirmed_def split: if_splits)
  have "subscribed t \<and> Disconnect \<in> set (ct_cmds t) \<and> (\<exists>e \<in> set E. says_ok e)" if f: f
  proof -
    have c: "subscribed s" "\<exists>e \<in> set E. says_ok e" using s f run(1) by (simp_all add: search_ok_def)
    then have "subscribed (s\<lparr>ct_status := 0\<rparr>)" by (simp add: subscribed_def)
    then have "subscribed s1" unfolding s1_def by (intro subscribed_steps)
    then have "subscribed ?s2" "subscribed (scan_again ?s2)" using subscribed_steps(5,7) by blast+
    moreover have "Disconnect \<in> set (ct_cmds ?s2)" using f run(1) by (simp add: on_confirmed_def request_def)
    then have "Disconnect \<in> set (ct_cmds ?s2)" "Disconnect \<in> set (ct_cmds (scan_again ?s2))" by (auto simp: scan_again_def request_def)
    ultimately show ?thesis using c(2) run(2) by auto
  qed
  then show ?thesis using s2 run(2) by auto
qed

lemma search_ok_loop:
  assumes "search_ok E A s" "\<forall>x \<in> set turns. ho_address (snd x) \<in> A" "find_loop turns s = (f, t)"
  shows "search_ok (E @ concat (map fst turns)) A t \<and>
    (f \<longrightarrow> subscribed t \<and> Disconnect \<in> set (ct_cmds t) \<and> (\<exists>e \<in> set (E @ concat (map fst turns)). says_ok e))"
  using assms
proof (induction turns arbitrary: E s)
  case (Cons x turns)
  obtain es h where x: "x = (es, h)" by (cases x)
  obtain g u where u: "find_turn h (fold ctl_callback es s) = (g, u)" by fastforce
  have a: "ho_address h \<in> A" using Cons.prems(2) x by simp
  note k = search_ok_turn [OF search_ok_events [OF Cons.prems(1)] a u]
  show ?case
  proof (cases g)
    case True
    then have "f" "t = u" using Cons.prems(3) x u by simp_all
    moreover have "search_ok (E @ concat (map fst (x # turns))) A u"
      by (rule search_ok_more [OF k [THEN conjunct1]]) (auto simp: x)
    ultimately show ?thesis using k True x by auto
  next
    case False
    then have "find_loop turns u = (f, t)" using Cons.prems(3) x u by simp
    from Cons.IH [OF k [THEN conjunct1] _ this] Cons.prems(2) show ?thesis by (simp add: x)
  qed
qed simp

lemma search_sound:
  assumes "ble_app_find_device turns ctl_init = (f, t)"
  shows "list_all (sound_cmd (concat (map fst turns)) (ho_address ` snd ` set turns)) (ct_cmds t) \<and>
    (f \<longrightarrow> (\<exists>c r. Subscribe c r \<in> set (ct_cmds t)) \<and> Disconnect \<in> set (ct_cmds t) \<and>
       (\<exists>e \<in> set (concat (map fst turns)). says_ok e))"
proof -
  let ?i = "(request ScanStart ctl_init)\<lparr>ct_forever := True\<rparr>"
  have "search_ok [] (ho_address ` snd ` set turns) ?i"
    by (simp add: search_ok_def ctl_init_def request_def)
  from search_ok_loop [OF this, of turns f t] assms show ?thesis
    by (auto simp: ble_app_find_device_def search_ok_def subscribed_def)
qed

section \<open>The search as it should go\<close>

text \<open>
  A device that is named like the train, has both characteristics and the descriptor, completes
  the subscription and answers ``OK''.
\<close>

definition answering_device :: "bytes \<Rightarrow> (u8 \<times> bytes) list \<Rightarrow> u16 \<Rightarrow> u16 \<Rightarrow> u16 \<Rightarrow> ctl_event list list" where
  "answering_device addr ads wr rd ccc =
     [[CtFound addr ads], [CtConnected 0],
      [CtAttr (Some \<lparr>at_handle = rd - 1, at_uuid = 0, at_chrc_uuid = DEVICE_READ_CHAR, at_chrc_handle = rd\<rparr>),
       CtAttr (Some \<lparr>at_handle = wr - 1, at_uuid = 0, at_chrc_uuid = DEVICE_WRITE_CHAR, at_chrc_handle = wr\<rparr>), CtAttr None],
      [CtAttr (Some \<lparr>at_handle = ccc, at_uuid = BT_UUID_GATT_CCC, at_chrc_uuid = 0, at_chrc_handle = 0\<rparr>), CtAttr None],
      [CtNotified [] 0], [CtNotified RESP_OK_CODE 2]]"

definition host_ok :: "bytes \<Rightarrow> host" where
  "host_ok own = \<lparr>ho_connect = True, ho_chars = 0, ho_descs = 0, ho_subscribe = 0, ho_write = 0, ho_address = own\<rparr>"

lemmas find_defs = find_turn_def on_found_def on_connected_def on_chars_def on_descs_def on_subscribed_def on_confirmed_def
  device_found_def ctl_connected_def ble_discover_func_def ble_discover_def ble_subscribe_def notify_func_def notify_def
  request_def ble_status Let_def

lemma controller_asks:
  assumes "strstr (bt_data_parse ads (replicate 30 0)) lego_train_name" "wr \<noteq> 0" "rd \<noteq> 0" "ccc \<noteq> 0" "length own = 6"
  shows "\<exists>s. find_loop (take 5 (map (\<lambda>es. (es, host_ok own)) (answering_device addr ads wr rd ccc)))
      ((request ScanStart ctl_init)\<lparr>ct_forever := True\<rparr>) = (False, s) \<and> Write wr (SCAN_CODE @ own) \<in> set (ct_cmds s)"
  using assms
  by (simp add: answering_device_def host_ok_def ctl_init_def find_defs RESP_OK_CODE_def
      DEVICE_READ_CHAR_def DEVICE_WRITE_CHAR_def BT_UUID_GATT_CCC_def SCAN_CMD_LENGTH_def SCAN_CODE_def)

text \<open>
  The phases of the search.  In each, events may come that do not matter: devices with other names,
  presses of the button (once the search has left its first phase), attributes of all kinds, notifications that are not
  the answer.  The phase ends with its own event; a turn before that needs an event that wakes the
  task (a press), otherwise the time is up.
\<close>

datatype phase = Searching | Connecting | Chars | Descs | Subscribing | Asking

fun idle_event :: "phase \<Rightarrow> ctl_event \<Rightarrow> bool" where
  "idle_event p (CtFound addr ads) \<longleftrightarrow> \<not> named ads"
| "idle_event p CtPressed \<longleftrightarrow> p \<noteq> Searching"
| "idle_event p (CtAttr a) \<longleftrightarrow> (p = Chars \<or> p = Descs) \<and> a \<noteq> None"
| "idle_event p (CtNotified data len) \<longleftrightarrow> p = Asking \<and> len \<noteq> 0 \<and> \<not> (len = 2 \<and> take 2 data = RESP_OK_CODE)"
| "idle_event p e \<longleftrightarrow> False"

fun end_event :: "bytes \<Rightarrow> phase \<Rightarrow> ctl_event \<Rightarrow> bool" where
  "end_event addr Searching e \<longleftrightarrow> (\<exists>ads. e = CtFound addr ads \<and> named ads)"
| "end_event addr Connecting e \<longleftrightarrow> e = CtConnected 0"
| "end_event addr Chars e \<longleftrightarrow> e = CtAttr None"
| "end_event addr Descs e \<longleftrightarrow> e = CtAttr None"
| "end_event addr Subscribing e \<longleftrightarrow> (\<exists>data. e = CtNotified data 0)"
| "end_event addr Asking e \<longleftrightarrow> says_ok e"

definition quiet_event :: "ctl_event \<Rightarrow> bool" where
  "quiet_event e \<longleftrightarrow> idle_event Connecting e"

text \<open>The events of the turns of one phase: turns that pass, and the one in which the phase ends.\<close>

definition phase_events :: "bytes \<Rightarrow> phase \<Rightarrow> ctl_event list list \<Rightarrow> bool" where
  "phase_events addr p ts \<longleftrightarrow> (\<exists>idle es e fs. ts = idle @ [es @ e # fs] \<and>
     list_all (\<lambda>t. list_all (idle_event p) t \<and> (p \<noteq> Searching \<longrightarrow> CtPressed \<in> set t)) idle \<and>
     list_all (idle_event p) es \<and> end_event addr p e \<and> list_all quiet_event fs)"

text \<open>The handle a list of events reports last for a characteristic, and for the descriptor.\<close>

fun chrc_handle :: "uuid \<Rightarrow> ctl_event list \<Rightarrow> u16 \<Rightarrow> u16" where
  "chrc_handle u [] h = h"
| "chrc_handle u (CtAttr (Some a) # es) h = chrc_handle u es (if at_chrc_uuid a = u then at_chrc_handle a else h)"
| "chrc_handle u (e # es) h = chrc_handle u es h"

fun ccc_handle :: "ctl_event list \<Rightarrow> u16 \<Rightarrow> u16" where
  "ccc_handle [] h = h"
| "ccc_handle (CtAttr (Some a) # es) h = ccc_handle es (if at_uuid a = BT_UUID_GATT_CCC then at_handle a else h)"
| "ccc_handle (e # es) h = ccc_handle es h"

text \<open>The state between the turns of a phase.\<close>

definition in_phase :: "phase \<Rightarrow> controller \<Rightarrow> bool" where
  "in_phase p s \<longleftrightarrow> ct_forever s = (p = Searching) \<and>
     (p \<notin> {Searching, Connecting} \<longrightarrow> ct_conn s) \<and>
     (p = Chars \<longrightarrow> ct_type s = DISCOVER_CHARACTERISTIC \<and> ct_ccc_hdl s = 0) \<and>
     (p = Descs \<longrightarrow> ct_type s = DISCOVER_DESCRIPTOR) \<and>
     (p \<in> {Subscribing, Asking} \<longrightarrow> ct_sub_value s \<noteq> 0)"

definition pressed :: "ctl_event list \<Rightarrow> u32" where
  "pressed es = (if CtPressed \<in> set es then BLE_STATUS_BT_PRESSED else 0)"

text \<open>What the events of a phase do before it ends.\<close>

definition learn :: "phase \<Rightarrow> ctl_event list \<Rightarrow> controller \<Rightarrow> controller" where
  "learn p es s = s\<lparr>ct_wr_hdl := (if p = Chars then chrc_handle DEVICE_WRITE_CHAR es (ct_wr_hdl s) else ct_wr_hdl s),
     ct_rd_hdl := (if p = Chars then chrc_handle DEVICE_READ_CHAR es (ct_rd_hdl s) else ct_rd_hdl s),
     ct_ccc_hdl := (if p = Descs then ccc_handle es (ct_ccc_hdl s) else ct_ccc_hdl s)\<rparr>"

lemma learn_empty: "(learn p [] s)\<lparr>ct_status := x\<rparr> = s\<lparr>ct_status := x\<rparr>"
  by (cases s) (simp add: learn_def)

lemma idle_step:
  assumes "idle_event p e" "in_phase p s"
  shows "ctl_callback e s = (learn p [e] s)\<lparr>ct_status := ct_status s OR pressed [e]\<rparr>"
proof (cases e)
  case (CtAttr a)
  then obtain b where "a = Some b" "p = Chars \<or> p = Descs" using assms(1) by auto
  moreover have "DEVICE_WRITE_CHAR \<noteq> DEVICE_READ_CHAR" by (simp add: DEVICE_WRITE_CHAR_def DEVICE_READ_CHAR_def)
  ultimately show ?thesis using assms(2) CtAttr
    by (cases s) (auto simp: in_phase_def ble_discover_func_def learn_def pressed_def)
next
  case (CtNotified data len)
  then have "ctl_callback e s = s" "p = Asking"
    using assms by (auto simp: in_phase_def notify_func_def RESP_OK_CODE_def numeral_2_eq_2 Let_def)
  then show ?thesis using CtNotified by (cases s) (simp add: learn_def pressed_def)
qed (use assms in \<open>cases s; auto simp: device_found_def named_def bt_press_def notify_def learn_def pressed_def\<close>)+

lemma learn_Cons: "learn p es ((learn p [e] s)\<lparr>ct_status := x\<rparr>) = (learn p (e # es) s)\<lparr>ct_status := x\<rparr>"
proof (cases e)
  case (CtAttr a)
  then show ?thesis by (cases a) (simp_all add: learn_def)
qed (simp_all add: learn_def)

lemma pressed_Cons: "pressed [e] OR pressed es = pressed (e # es)"
  by (simp add: pressed_def)

lemma in_phase_learn: "in_phase p s \<Longrightarrow> in_phase p ((learn p es s)\<lparr>ct_status := x\<rparr>)"
  by (auto simp: in_phase_def learn_def)

lemma idle_fold:
  "list_all (idle_event p) es \<Longrightarrow> in_phase p s \<Longrightarrow>
    fold ctl_callback es s = (learn p es s)\<lparr>ct_status := ct_status s OR pressed es\<rparr>"
proof (induction es arbitrary: s)
  case Nil
  then show ?case using learn_empty [where p = p and s = s and x = "ct_status s"] by (simp add: pressed_def learn_empty)
next
  case (Cons e es)
  let ?s = "(learn p [e] s)\<lparr>ct_status := ct_status s OR pressed [e]\<rparr>"
  have "fold ctl_callback es ?s = (learn p es ?s)\<lparr>ct_status := ct_status ?s OR pressed es\<rparr>"
    by (rule Cons.IH) (use Cons.prems in \<open>simp_all add: in_phase_learn\<close>)
  then show ?case using Cons.prems idle_step [of p e s] by (simp add: learn_Cons or.assoc pressed_Cons)
qed

lemma quiet_fold: "list_all quiet_event es \<Longrightarrow> fold ctl_callback es s = s\<lparr>ct_status := ct_status s OR pressed es\<rparr>"
proof (induction es arbitrary: s)
  case (Cons e es)
  have "ctl_callback e s = s\<lparr>ct_status := ct_status s OR pressed [e]\<rparr>"
    using Cons.prems by (cases e; cases s; auto simp: quiet_event_def device_found_def named_def bt_press_def notify_def pressed_def)
  then show ?case using Cons by (simp add: or.assoc pressed_Cons)
qed (simp add: pressed_def)

text \<open>A turn that passes, and any number of them.\<close>

lemma idle_turn:
  assumes "list_all (idle_event p) t" "p \<noteq> Searching \<longrightarrow> CtPressed \<in> set t" "in_phase p s" "ct_status s = 0"
  shows "find_turn h (fold ctl_callback t s) = (False, learn p t s)"
proof -
  have l: "ct_status (learn p t s) = 0" "ct_forever (learn p t s) = (p = Searching)"
    using assms(3,4) by (simp_all add: learn_def in_phase_def)
  have u: "(learn p t s)\<lparr>ct_status := 0\<rparr> = learn p t s" using l(1) by (cases "learn p t s") simp
  have "pressed t = 0" if "p = Searching"
    using assms(1) that by (auto simp: pressed_def list_all_iff)
  then show ?thesis
    using idle_fold [OF assms(1,3)] assms(2,4) l u
    by (auto simp: find_turn_def on_found_def on_connected_def on_chars_def on_descs_def on_subscribed_def on_confirmed_def
        pressed_def ble_status Let_def)
qed

lemma learn_append: "learn p fs (learn p es s) = learn p (es @ fs) s"
proof -
  have "chrc_handle u fs (chrc_handle u es h) = chrc_handle u (es @ fs) h" for u h
    by (induction u es h rule: chrc_handle.induct) simp_all
  moreover have "ccc_handle fs (ccc_handle es h) = ccc_handle (es @ fs) h" for h
    by (induction es h rule: ccc_handle.induct) simp_all
  ultimately show ?thesis by (simp add: learn_def)
qed

lemma idle_turns:
  assumes "list_all (\<lambda>t. list_all (idle_event p) (fst t) \<and> (p \<noteq> Searching \<longrightarrow> CtPressed \<in> set (fst t))) turns"
    "in_phase p s" "ct_status s = 0"
  shows "find_loop (turns @ more_turns) s = find_loop more_turns (learn p (concat (map fst turns)) s)"
  using assms
proof (induction turns arbitrary: s)
  case Nil
  then show ?case using learn_empty [where p = p and s = s and x = "ct_status s"] by (simp add: learn_def)
next
  case (Cons x turns)
  obtain t h where x: "x = (t, h)" by (cases x)
  have k: "in_phase p (learn p t s)" "ct_status (learn p t s) = 0"
    using Cons.prems by (auto simp: in_phase_def learn_def)
  have "find_turn h (fold ctl_callback t s) = (False, learn p t s)"
    by (rule idle_turn) (use Cons.prems x in auto)
  then show ?case using Cons.IH [OF _ k] Cons.prems(1) x by (simp add: learn_append)
qed

text \<open>The host stack takes every request.\<close>

definition accepting :: "bytes \<Rightarrow> host \<Rightarrow> bool" where
  "accepting own h \<longleftrightarrow> ho_connect h \<and> ho_chars h = 0 \<and> ho_descs h = 0 \<and> ho_subscribe h = 0 \<and> ho_write h = 0 \<and> ho_address h = own"

text \<open>What the end of a phase does to the state.\<close>

definition phase_end :: "bytes \<Rightarrow> bytes \<Rightarrow> phase \<Rightarrow> controller \<Rightarrow> controller" where
  "phase_end addr own p s =
     (case p of
        Searching \<Rightarrow> s\<lparr>ct_dev_addr := addr, ct_forever := False, ct_cmds := ct_cmds s @ [ScanStop, Connect addr]\<rparr>
      | Connecting \<Rightarrow> s\<lparr>ct_conn := True, ct_wr_hdl := 0, ct_rd_hdl := 0, ct_ccc_hdl := 0, ct_type := DISCOVER_CHARACTERISTIC,
          ct_cmds := ct_cmds s @ [Discover DISCOVER_CHARACTERISTIC 1]\<rparr>
      | Chars \<Rightarrow> s\<lparr>ct_type := DISCOVER_DESCRIPTOR, ct_cmds := ct_cmds s @ [Discover DISCOVER_DESCRIPTOR 1]\<rparr>
      | Descs \<Rightarrow> s\<lparr>ct_sub_value := 1, ct_sub_handle := ct_rd_hdl s, ct_cmds := ct_cmds s @ [Subscribe (ct_ccc_hdl s) (ct_rd_hdl s)]\<rparr>
      | Subscribing \<Rightarrow> s\<lparr>ct_cmds := ct_cmds s @ [Write (ct_wr_hdl s) (SCAN_CODE @ own)]\<rparr>
      | Asking \<Rightarrow> s\<lparr>ct_cmds := ct_cmds s @ [Disconnect]\<rparr>)"

fun phase_bit :: "phase \<Rightarrow> u32" where
  "phase_bit Searching = BLE_STATUS_FOUND_ADDRESS"
| "phase_bit Connecting = BLE_STATUS_CONNECTED"
| "phase_bit Chars = BLE_STATUS_DISCOVERED_CHAR"
| "phase_bit Descs = BLE_STATUS_DISCOVERED_DES"
| "phase_bit Subscribing = BLE_STATUS_SUBCRIBED"
| "phase_bit Asking = BLE_STATUS_DEVICE_CONFIRMED"

lemma phase_bits:
  defines "w \<equiv> \<lambda>p es fs. (pressed es OR phase_bit p) OR pressed fs"
  shows "w p es fs AND BLE_STATUS_FOUND_ADDRESS = 0 \<longleftrightarrow> p \<noteq> Searching"
    "w p es fs AND BLE_STATUS_CONNECTED = 0 \<longleftrightarrow> p \<noteq> Connecting"
    "w p es fs AND BLE_STATUS_DISCOVERED_CHAR = 0 \<longleftrightarrow> p \<noteq> Chars"
    "w p es fs AND BLE_STATUS_DISCOVERED_DES = 0 \<longleftrightarrow> p \<noteq> Descs"
    "w p es fs AND BLE_STATUS_SUBCRIBED = 0 \<longleftrightarrow> p \<noteq> Subscribing"
    "w p es fs AND BLE_STATUS_DEVICE_CONFIRMED = 0 \<longleftrightarrow> p \<noteq> Asking"
    "w p es fs \<noteq> 0"
  unfolding w_def by (cases p; simp add: pressed_def ble_status)+

text \<open>The event that ends a phase.\<close>

definition arrived :: "bytes \<Rightarrow> phase \<Rightarrow> controller \<Rightarrow> controller" where
  "arrived addr p s =
     (case p of
        Searching \<Rightarrow> s\<lparr>ct_dev_addr := addr, ct_cmds := ct_cmds s @ [ScanStop]\<rparr>
      | Connecting \<Rightarrow> s\<lparr>ct_conn := True\<rparr>
      | _ \<Rightarrow> s)"

lemma end_arrived:
  assumes "end_event addr p e" "in_phase p s" "p = Descs \<longrightarrow> ct_ccc_hdl s \<noteq> 0"
  shows "ctl_callback e s = (arrived addr p s)\<lparr>ct_status := ct_status s OR phase_bit p\<rparr>"
  using assms
  by (cases p) (auto simp: arrived_def device_found_def named_def ctl_connected_def ble_discover_func_def notify_func_def
      notify_def request_def in_phase_def says_ok_def RESP_OK_CODE_def numeral_2_eq_2 Let_def)

lemma end_turn:
  assumes ev: "list_all (idle_event p) es" "end_event addr p e" "list_all quiet_event fs"
    and s: "in_phase p s" "ct_status s = 0" and h: "accepting own h" "length own = 6"
    and found: "p = Chars \<longrightarrow> ct_wr_hdl (learn p es s) \<noteq> 0 \<and> ct_rd_hdl (learn p es s) \<noteq> 0"
      "p = Descs \<longrightarrow> ct_ccc_hdl (learn p es s) \<noteq> 0"
  shows "find_turn h (fold ctl_callback (es @ e # fs) s) = (p = Asking, phase_end addr own p (learn p es s))"
proof -
  define l where "l = learn p es s"
  have l: "in_phase p l" "ct_status l = 0" using s by (auto simp: l_def in_phase_def learn_def)
  have z: "l\<lparr>ct_status := 0\<rparr> = l" using l(2) by (cases l) simp
  have "in_phase p (l\<lparr>ct_status := pressed es\<rparr>)" using l(1) by (simp add: in_phase_def)
  from end_arrived [OF ev(2) this] found(2)
  have u: "ctl_callback e (l\<lparr>ct_status := pressed es\<rparr>) = (arrived addr p l)\<lparr>ct_status := pressed es OR phase_bit p\<rparr>"
    by (cases p) (simp_all add: arrived_def l_def)
  have "fold ctl_callback (es @ e # fs) s
      = (arrived addr p l)\<lparr>ct_status := (pressed es OR phase_bit p) OR pressed fs\<rparr>"
    using idle_fold [OF ev(1) s(1)] s(2) u by (simp add: quiet_fold [OF ev(3)] l_def)
  moreover have "(arrived addr p l)\<lparr>ct_status := 0\<rparr> = arrived addr p l"
    using l(2) by (cases p; cases l) (simp_all add: arrived_def)
  moreover have own: "take 10 (SCAN_CODE @ take 6 own) = SCAN_CODE @ own" using h(2) by (simp add: SCAN_CODE_def)
  ultimately show ?thesis
    using l(1) found h(1) unfolding l_def [symmetric]
    by (cases p) (simp_all add: find_turn_def on_found_def on_connected_def on_chars_def on_descs_def on_subscribed_def
        on_confirmed_def phase_bits phase_end_def arrived_def in_phase_def accepting_def ble_discover_def ble_subscribe_def request_def
        SCAN_CMD_LENGTH_def Let_def del: phase_bit.simps)
qed

text \<open>A whole phase.\<close>

lemma quiet_handles:
  "list_all quiet_event fs \<Longrightarrow> chrc_handle u fs k = k \<and> ccc_handle fs k = k"
proof (induction fs)
  case (Cons e fs)
  then show ?case by (cases e) (auto simp: quiet_event_def)
qed simp

lemma phase_learn:
  assumes "end_event addr p e" "list_all quiet_event fs"
  shows "learn p (ts @ es @ e # fs) s = learn p (ts @ es) s"
proof -
  have "chrc_handle u (e # fs) k = k" "ccc_handle (e # fs) k = k" if "p = Chars \<or> p = Descs" for u k
    using assms(1) that quiet_handles [OF assms(2)] by auto
  then show ?thesis unfolding learn_append [symmetric] by (auto simp: learn_def)
qed

lemma phase_run:
  assumes ph: "phase_events addr p (map fst ts)" and s: "in_phase p s" "ct_status s = 0"
    and h: "list_all (\<lambda>t. accepting own (snd t)) ts" "length own = 6"
  defines "l \<equiv> learn p (concat (map fst ts)) s"
  assumes found: "p = Chars \<longrightarrow> ct_wr_hdl l \<noteq> 0 \<and> ct_rd_hdl l \<noteq> 0" "p = Descs \<longrightarrow> ct_ccc_hdl l \<noteq> 0"
  shows "find_loop (ts @ rs) s = (if p = Asking then (True, phase_end addr own p l) else find_loop rs (phase_end addr own p l))"
proof -
  obtain idle es e fs where p: "map fst ts = idle @ [es @ e # fs]"
    "list_all (\<lambda>t. list_all (idle_event p) t \<and> (p \<noteq> Searching \<longrightarrow> CtPressed \<in> set t)) idle"
    "list_all (idle_event p) es" "end_event addr p e" "list_all quiet_event fs"
    using ph by (auto simp: phase_events_def)
  obtain us h1 where ts: "ts = us @ [(es @ e # fs, h1)]" "map fst us = idle"
    using p(1) by (auto simp: map_eq_append_conv)
  have l: "l = learn p es (learn p (concat idle) s)"
    using phase_learn [OF p(4,5), of "concat idle" es s] ts by (simp add: l_def learn_append)
  have k: "in_phase p (learn p (concat idle) s)" "ct_status (learn p (concat idle) s) = 0"
    using s by (auto simp: in_phase_def learn_def)
  have "find_loop (ts @ rs) s = find_loop ((es @ e # fs, h1) # rs) (learn p (concat (map fst us)) s)"
    unfolding ts(1) append_assoc using p(2) unfolding ts(2) [symmetric]
    by (subst idle_turns [OF _ s]) (simp_all add: list.pred_map comp_def)
  moreover have "find_turn h1 (fold ctl_callback (es @ e # fs) (learn p (concat idle) s)) = (p = Asking, phase_end addr own p l)"
    unfolding l by (rule end_turn [OF p(3,4,5) k _ h(2)]) (use h(1) ts(1) found l in simp_all)
  ultimately show ?thesis using ts(2) by (cases "p = Asking") simp_all
qed

text \<open>The handles after a phase, and the phase that follows.\<close>

fun next_phase :: "phase \<Rightarrow> phase" where
  "next_phase Searching = Connecting"
| "next_phase Connecting = Chars"
| "next_phase Chars = Descs"
| "next_phase Descs = Subscribing"
| "next_phase Subscribing = Asking"
| "next_phase Asking = Asking"

lemma phase_next:
  "in_phase p s \<Longrightarrow> ct_status s = 0 \<Longrightarrow>
    in_phase (next_phase p) (phase_end addr own p (learn p es s)) \<and> ct_status (phase_end addr own p (learn p es s)) = 0"
  by (cases p) (auto simp: in_phase_def phase_end_def learn_def)

lemma search_run:
  assumes ph: "phase_events addr Searching (map fst t1)" "phase_events addr Connecting (map fst t2)"
      "phase_events addr Chars (map fst t3)" "phase_events addr Descs (map fst t4)"
      "phase_events addr Subscribing (map fst t5)" "phase_events addr Asking (map fst t6)"
    and h: "list_all (\<lambda>t. accepting own (snd t)) (t1 @ t2 @ t3 @ t4 @ t5 @ t6)" "length own = 6"
    and wr: "wr = chrc_handle DEVICE_WRITE_CHAR (concat (map fst t3)) 0" "wr \<noteq> 0"
    and rd: "rd = chrc_handle DEVICE_READ_CHAR (concat (map fst t3)) 0" "rd \<noteq> 0"
    and ccc: "ccc = ccc_handle (concat (map fst t4)) 0" "ccc \<noteq> 0"
    and s: "ct_status s = 0" "ct_cmds s = []"
  shows "\<exists>s'. ble_app_find_device (t1 @ t2 @ t3 @ t4 @ t5 @ t6) s = (True, s') \<and>
    ct_cmds s' = [ScanStart, ScanStop, Connect addr, Discover DISCOVER_CHARACTERISTIC 1, Discover DISCOVER_DESCRIPTOR 1,
      Subscribe ccc rd, Write wr (SCAN_CODE @ own), Disconnect]"
proof -
  note run = phase_run [OF _ _ _ _ h(2)] and hh = h(1) [unfolded list_all_append]
  define s1 where "s1 = (request ScanStart s)\<lparr>ct_forever := True\<rparr>"
  have i1: "in_phase Searching s1" "ct_status s1 = 0" using s by (simp_all add: s1_def in_phase_def request_def)
  let ?fin = "\<lambda>p t s. phase_end addr own p (learn p (concat (map fst t)) s)"
  define s2 where "s2 = ?fin Searching t1 s1"
  define s3 where "s3 = ?fin Connecting t2 s2"
  define s4 where "s4 = ?fin Chars t3 s3"
  define s5 where "s5 = ?fin Descs t4 s4"
  define s6 where "s6 = ?fin Subscribing t5 s5"
  define s7 where "s7 = ?fin Asking t6 s6"
  have i2: "in_phase Connecting s2" "ct_status s2 = 0" using phase_next [OF i1] by (simp_all add: s2_def)
  have i3: "in_phase Chars s3" "ct_status s3 = 0" using phase_next [OF i2] by (simp_all add: s3_def)
  have i4: "in_phase Descs s4" "ct_status s4 = 0" using phase_next [OF i3] by (simp_all add: s4_def)
  have i5: "in_phase Subscribing s5" "ct_status s5 = 0" using phase_next [OF i4] by (simp_all add: s5_def)
  have i6: "in_phase Asking s6" "ct_status s6 = 0" using phase_next [OF i5] by (simp_all add: s6_def)
  have h3: "ct_wr_hdl s3 = 0" "ct_rd_hdl s3 = 0" "ct_ccc_hdl s3 = 0" by (simp_all add: s3_def phase_end_def)
  have h4: "ct_wr_hdl s4 = wr" "ct_rd_hdl s4 = rd" "ct_ccc_hdl s4 = 0"
    using wr rd h3 by (simp_all add: s4_def phase_end_def learn_def)
  have h5: "ct_wr_hdl s5 = wr" "ct_rd_hdl s5 = rd" "ct_ccc_hdl s5 = ccc"
    using ccc h4 by (simp_all add: s5_def phase_end_def learn_def)
  have c: "ct_cmds s7 = ct_cmds s1 @ [ScanStop, Connect addr, Discover DISCOVER_CHARACTERISTIC 1, Discover DISCOVER_DESCRIPTOR 1,
      Subscribe ccc rd, Write wr (SCAN_CODE @ own), Disconnect]"
  proof -
    have "ct_cmds s2 = ct_cmds s1 @ [ScanStop, Connect addr]" by (simp add: s2_def phase_end_def learn_def)
    moreover have "ct_cmds s3 = ct_cmds s2 @ [Discover DISCOVER_CHARACTERISTIC 1]" by (simp add: s3_def phase_end_def learn_def)
    moreover have "ct_cmds s4 = ct_cmds s3 @ [Discover DISCOVER_DESCRIPTOR 1]" by (simp add: s4_def phase_end_def learn_def)
    moreover have "ct_cmds s5 = ct_cmds s4 @ [Subscribe ccc rd]" using h4 ccc by (simp add: s5_def phase_end_def learn_def)
    moreover have "ct_cmds s6 = ct_cmds s5 @ [Write wr (SCAN_CODE @ own)]" using h5 by (simp add: s6_def phase_end_def learn_def)
    moreover have "ct_cmds s7 = ct_cmds s6 @ [Disconnect]" by (simp add: s7_def phase_end_def learn_def)
    ultimately show ?thesis by simp
  qed
  have "find_loop (t1 @ t2 @ t3 @ t4 @ t5 @ t6) s1 = find_loop (t2 @ t3 @ t4 @ t5 @ t6) s2"
    using run [OF ph(1) i1] hh by (simp add: s2_def)
  also have "\<dots> = find_loop (t3 @ t4 @ t5 @ t6) s3" using run [OF ph(2) i2] hh by (simp add: s3_def)
  also have "\<dots> = find_loop (t4 @ t5 @ t6) s4"
    using run [OF ph(3) i3] hh wr rd h3 by (simp add: s4_def learn_def)
  also have "\<dots> = find_loop (t5 @ t6) s5" using run [OF ph(4) i4] hh ccc h4 by (simp add: s5_def learn_def)
  also have "\<dots> = find_loop t6 s6" using run [OF ph(5) i5] hh by (simp add: s6_def)
  also have "\<dots> = (True, s7)" using run [OF ph(6) i6, of "[]"] hh by (simp add: s7_def)
  finally show ?thesis using c s by (simp add: ble_app_find_device_def s1_def [symmetric]) (simp add: s1_def request_def)
qed

section \<open>Properties\<close>

text \<open>C28: The controller's search ends with a device that answers, and only with one.  For every run of
  events in which a device named like the train is found and connected, reports its
  characteristics and its descriptor, completes the subscription and answers ``OK'', it asks the host stack
  for exactly the right things in order, subscribes with the handles reported last, writes its request
  with its own address and stops: whatever other attributes, adverts of other names, notifications
  that are not the answer and presses of the button come between, in any order and over any number of turns, as
  long as the host stack takes its requests and no wait times out.  And for every run at all, with
  any events and answers of the stack, it connects only to devices named like the train, subscribes
  only to a descriptor that was reported, writes nothing but its request, and when it ends it had asked
  for a subscription, a device had notified ``OK'', and it has asked for the disconnection.\<close>

theorem controller_confirms:
  assumes "phase_events addr Searching (map fst t1)" "phase_events addr Connecting (map fst t2)"
      "phase_events addr Chars (map fst t3)" "phase_events addr Descs (map fst t4)"
      "phase_events addr Subscribing (map fst t5)" "phase_events addr Asking (map fst t6)"
    and "list_all (\<lambda>t. accepting own (snd t)) (t1 @ t2 @ t3 @ t4 @ t5 @ t6)" "length own = 6"
    and "wr = chrc_handle DEVICE_WRITE_CHAR (concat (map fst t3)) 0" "wr \<noteq> 0"
    and "rd = chrc_handle DEVICE_READ_CHAR (concat (map fst t3)) 0" "rd \<noteq> 0"
    and "ccc = ccc_handle (concat (map fst t4)) 0" "ccc \<noteq> 0"
  shows "(\<exists>s'. ble_app_find_device (t1 @ t2 @ t3 @ t4 @ t5 @ t6) ctl_init = (True, s') \<and>
      ct_cmds s' = [ScanStart, ScanStop, Connect addr, Discover DISCOVER_CHARACTERISTIC 1, Discover DISCOVER_DESCRIPTOR 1,
        Subscribe ccc rd, Write wr (SCAN_CODE @ own), Disconnect]) \<and>
    (\<forall>turns f s'. ble_app_find_device turns ctl_init = (f, s') \<longrightarrow>
      list_all (sound_cmd (concat (map fst turns)) (ho_address ` snd ` set turns)) (ct_cmds s') \<and>
      (f \<longrightarrow> (\<exists>c r. Subscribe c r \<in> set (ct_cmds s')) \<and> Disconnect \<in> set (ct_cmds s') \<and>
         (\<exists>e \<in> set (concat (map fst turns)). says_ok e)))"
proof (intro conjI allI impI)
  show "\<exists>s'. ble_app_find_device (t1 @ t2 @ t3 @ t4 @ t5 @ t6) ctl_init = (True, s') \<and>
      ct_cmds s' = [ScanStart, ScanStop, Connect addr, Discover DISCOVER_CHARACTERISTIC 1, Discover DISCOVER_DESCRIPTOR 1,
        Subscribe ccc rd, Write wr (SCAN_CODE @ own), Disconnect]"
    by (rule search_run [OF assms]) (simp_all add: ctl_init_def)
next
  fix turns f s' assume run: "ble_app_find_device turns ctl_init = (f, s')"
  note sound = search_sound [OF run]
  show "list_all (sound_cmd (concat (map fst turns)) (ho_address ` snd ` set turns)) (ct_cmds s')" using sound by blast
  assume f
  then show "\<exists>c r. Subscribe c r \<in> set (ct_cmds s')" "Disconnect \<in> set (ct_cmds s')"
    "\<exists>e \<in> set (concat (map fst turns)). says_ok e"
    using sound by blast+
qed

text \<open>A train among other devices, with its attributes in another order, and a press of the button.\<close>

theorem controller_confirms_witness:
  "\<exists>s'. ble_app_find_device (map (\<lambda>es. (es, host_ok [1, 2, 3, 4, 5, 6]))
      [[CtFound [8] [(9, [0x41])]], [CtFound [9] [(1, [6]), (9, lego_train_name @ [0x41])]], [CtConnected 0],
       [CtAttr (Some \<lparr>at_handle = 6, at_uuid = 0, at_chrc_uuid = DEVICE_WRITE_CHAR, at_chrc_handle = 7\<rparr>), CtPressed],
       [CtAttr (Some \<lparr>at_handle = 2, at_uuid = 0, at_chrc_uuid = DEVICE_READ_CHAR, at_chrc_handle = 3\<rparr>), CtAttr None],
       [CtAttr (Some \<lparr>at_handle = 5, at_uuid = BT_UUID_GATT_CCC, at_chrc_uuid = 0, at_chrc_handle = 0\<rparr>), CtAttr None],
       [CtNotified [] 0], [CtNotified [0x4E] 1, CtNotified RESP_OK_CODE 2]]) ctl_init = (True, s') \<and>
    last (ct_cmds s') = Disconnect"
proof -
  let ?h = "host_ok [1, 2, 3, 4, 5, 6]" and ?w = "map (\<lambda>es. (es, host_ok [1, 2, 3, 4, 5, 6]))"
  let ?name = "lego_train_name @ [0x41] :: bytes"
  have n: "named [(1, [6]), (9, ?name)]" "\<not> named [(9, [0x41])]"
    by (simp_all add: named_def strstr_def data_cb_def lego_train_name_def patch_def)
  have one: "phase_events addr p [es @ e # fs]"
    if "list_all (idle_event p) es" "end_event addr p e" "list_all quiet_event fs" for addr p es e fs
    unfolding phase_events_def using that by (intro exI [of _ "[]"] exI [of _ es] exI [of _ e] exI [of _ fs]) simp
  have two: "phase_events addr p [t, es @ e # fs]"
    if "list_all (idle_event p) t" "p \<noteq> Searching \<longrightarrow> CtPressed \<in> set t" "list_all (idle_event p) es" "end_event addr p e"
      "list_all quiet_event fs" for addr p t es e fs
    unfolding phase_events_def using that by (intro exI [of _ "[t]"] exI [of _ es] exI [of _ e] exI [of _ fs]) simp
  let ?t1 = "[[CtFound [8] [(9, [0x41])]], [CtFound [9] [(1, [6]), (9, ?name)]]] :: ctl_event list list"
  let ?t2 = "[[CtConnected 0]] :: ctl_event list list"
  let ?t3 = "[[CtAttr (Some \<lparr>at_handle = 6, at_uuid = 0, at_chrc_uuid = DEVICE_WRITE_CHAR, at_chrc_handle = 7\<rparr>), CtPressed],
       [CtAttr (Some \<lparr>at_handle = 2, at_uuid = 0, at_chrc_uuid = DEVICE_READ_CHAR, at_chrc_handle = 3\<rparr>), CtAttr None]] :: ctl_event list list"
  let ?t4 = "[[CtAttr (Some \<lparr>at_handle = 5, at_uuid = BT_UUID_GATT_CCC, at_chrc_uuid = 0, at_chrc_handle = 0\<rparr>), CtAttr None]] :: ctl_event list list"
  let ?t5 = "[[CtNotified [] 0]] :: ctl_event list list"
  let ?t6 = "[[CtNotified [0x4E] 1, CtNotified RESP_OK_CODE 2]] :: ctl_event list list"
  have ok: "says_ok (CtNotified RESP_OK_CODE 2)" by (simp add: says_ok_def RESP_OK_CODE_def)
  have "phase_events [9] Searching (map fst (?w ?t1))" using two [of Searching _ "[]" "[9]" _ "[]"] n by auto
  moreover have "phase_events [9] Connecting (map fst (?w ?t2))" using one [of Connecting "[]" "[9]" _ "[]"] by simp
  moreover have "phase_events [9] Chars (map fst (?w ?t3))"
    using two [of Chars "hd ?t3" "[hd (?t3 ! 1)]" "[9]" "CtAttr None" "[]"] by simp
  moreover have "phase_events [9] Descs (map fst (?w ?t4))" using one [of Descs "[hd (hd ?t4)]" "[9]" "CtAttr None" "[]"] by simp
  moreover have "phase_events [9] Subscribing (map fst (?w ?t5))" using one [of Subscribing "[]" "[9]" _ "[]"] by simp
  moreover have "phase_events [9] Asking (map fst (?w ?t6))"
    using one [of Asking "[CtNotified [0x4E] 1]" "[9]" "CtNotified RESP_OK_CODE 2" "[]"] ok by simp
  ultimately show ?thesis
    using controller_confirms [of "[9]" "?w ?t1" "?w ?t2" "?w ?t3" "?w ?t4" "?w ?t5" "?w ?t6" "[1, 2, 3, 4, 5, 6]" 7 3 5]
    by (simp add: accepting_def host_ok_def DEVICE_WRITE_CHAR_def DEVICE_READ_CHAR_def) auto
qed

lemma button_values: "button_step 0 = 1" "button_step 1 = 3" "button_step 3 = 0"
  by (simp_all add: button_step_def)

lemma process_press:
  assumes "ct_status s = 0" "ct_adv_buf s = [x, y, b]"
  shows "ct_status (process_turn (ctl_callback CtPressed s)) = 0 \<and>
    ct_adv_buf (process_turn (ctl_callback CtPressed s)) = [x, y, button_step b] \<and> ct_status (ctl_callback CtPressed s) \<noteq> 0"
  using assms by (simp add: process_turn_def bt_press_def notify_def request_def ble_status Let_def)

lemma process_presses:
  "ct_status s = 0 \<Longrightarrow> ct_adv_buf s = [x, y, b] \<Longrightarrow>
    ct_adv_buf (process_loop (replicate n [CtPressed]) s) = [x, y, (button_step ^^ n) b]"
proof (induction n arbitrary: s b)
  case (Suc n)
  then show ?case using process_press [of s x y b] Suc.IH [of "process_turn (ctl_callback CtPressed s)" "button_step b"]
    by (simp add: Let_def funpow_swap1)
qed simp

lemma button_cycle: "(button_step ^^ n) 0 = [0, 1, 3] ! (n mod 3)"
proof (induction n)
  case (Suc n)
  have "n mod 3 = 0 \<or> n mod 3 = 1 \<or> n mod 3 = 2" by linarith
  then show ?case using Suc by (auto simp: mod_Suc button_values)
qed simp

text \<open>Each press of the button advertises the next speed, in the cycle 0, 1, 3.\<close>

theorem button_cycles_speed:
  assumes "ct_status s = 0"
  shows "ct_adv_buf (ctl_process (replicate n [CtPressed]) s) = [0x56, 0x34, [0, 1, 3] ! (n mod 3)]"
proof -
  have "ct_adv_buf (process_start s) = [0x56, 0x34, 0]" "ct_status (process_start s) = 0"
    using assms by (simp_all add: process_start_def request_def BLE_ADV_MOTOR_CODE_def Let_def)
  then show ?thesis using process_presses [of "process_start s" "0x56" "0x34" 0 n] by (simp add: ctl_process_def button_cycle)
qed

theorem button_cycles_speed_witness:
  "ct_adv_buf (ctl_process (replicate 5 [CtPressed]) ctl_init) = [0x56, 0x34, 3]"
  using button_cycles_speed [of ctl_init 5] by (simp add: ctl_init_def)

end
