(* ===== verification/TrainSystem.thy ===== *)
theory TrainSystem
  imports Controller
begin

text \<open>
  The remote control and the train together, over a link that delivers what is written and what is
  notified unchanged.  The train is the only device the controller can be connected to.
\<close>

record sys =
  sy_train :: train
  sy_ctl :: controller
  sy_found :: bool
  sy_answers :: "int list"

fun from_peer :: "ctl_event \<Rightarrow> bool" where
  "from_peer (CtNotified _ _) = True"
| "from_peer _ = False"

fun is_write :: "train_event \<Rightarrow> bool" where
  "is_write (TrWrite _ _ _) = True"
| "is_write _ = False"

inductive sys_step :: "sys \<Rightarrow> sys \<Rightarrow> bool" where
  callback: "\<not> from_peer e \<Longrightarrow> sys_step s (s\<lparr>sy_ctl := ctl_callback e (sy_ctl s)\<rparr>)"
| subscribed: "sys_step s (s\<lparr>sy_ctl := ctl_callback (CtNotified [] 0) (sy_ctl s)\<rparr>)"
| notified: "n \<in> set (tr_notified (sy_train s)) \<Longrightarrow>
    sys_step s (s\<lparr>sy_ctl := ctl_callback (CtNotified n (word_of_nat (length n))) (sy_ctl s)\<rparr>)"
| turn: "\<not> sy_found s \<Longrightarrow> length (ho_address h) = 6 \<Longrightarrow> find_turn h (sy_ctl s) = (f, c) \<Longrightarrow>
    sys_step s (s\<lparr>sy_ctl := c, sy_found := f\<rparr>)"
| written: "Write hdl data \<in> set (ct_cmds (sy_ctl s)) \<Longrightarrow>
    ble_app_recv data (word_of_nat (length data)) 0 (sy_train s) = (r, t) \<Longrightarrow>
    sys_step s (s\<lparr>sy_train := t, sy_answers := sy_answers s @ [r]\<rparr>)"
| train: "\<not> is_write e \<Longrightarrow> train_step e (sy_train s) = TRun t \<Longrightarrow> sys_step s (s\<lparr>sy_train := t\<rparr>)"

definition sys_init :: sys where
  "sys_init = \<lparr>sy_train = train_init, sy_ctl = (request ScanStart ctl_init)\<lparr>ct_forever := True\<rparr>, sy_found = False, sy_answers = []\<rparr>"

section \<open>The invariant\<close>

fun scan_cmd :: "host_cmd \<Rightarrow> bool" where
  "scan_cmd (Write hdl data) = (\<exists>own. length own = 6 \<and> data = SCAN_CODE @ own)"
| "scan_cmd _ = True"

definition ctl_ok :: "controller \<Rightarrow> bool" where
  "ctl_ok c \<longleftrightarrow> ct_status c AND BLE_STATUS_DEVICE_CONFIRMED = 0 \<and> (\<forall>x \<in> set (ct_cmds c). scan_cmd x)"

definition train_ok :: "train \<Rightarrow> bool" where
  "train_ok t \<longleftrightarrow> tr_notified t = [] \<and> \<not> tr_jump t \<and> \<not> tr_rx_sem t"

definition sys_ok :: "sys \<Rightarrow> bool" where
  "sys_ok s \<longleftrightarrow> train_ok (sy_train s) \<and> ctl_ok (sy_ctl s) \<and> \<not> sy_found s \<and> set (sy_answers s) \<subseteq> {ATT_ERR_NOT_ALLOWED}"

lemma ctl_ok_callback: "ctl_ok c \<Longrightarrow> \<not> from_peer e \<or> e = CtNotified [] 0 \<Longrightarrow> ctl_ok (ctl_callback e c)"
  by (cases e)
    (auto simp: ctl_ok_def notify_def request_def device_found_def ctl_connected_def ctl_disconnected_def ble_discover_func_def
      notify_func_def bt_press_def RESP_OK_CODE_def Let_def ble_status bit.conj_disj_distrib2
      split: option.splits discover_type.splits)

text \<open>The steps of a turn record only requests that fit and leave the status alone.\<close>

definition asks :: "controller \<Rightarrow> controller \<Rightarrow> bool" where
  "asks c d \<longleftrightarrow> ct_status d = ct_status c \<and> ((\<forall>x \<in> set (ct_cmds c). scan_cmd x) \<longrightarrow> (\<forall>x \<in> set (ct_cmds d). scan_cmd x))"

lemma asks_trans: "asks c d \<Longrightarrow> asks d e \<Longrightarrow> asks c e"
  by (simp add: asks_def)

lemma asks_step:
  "asks c (on_found h st c)" "asks c (on_connected h st c)" "asks c (on_chars h st c)" "asks c (on_descs h st c)"
  "length (ho_address h) = 6 \<Longrightarrow> asks c (on_subscribed h st c)" "asks c (scan_again c)" "asks c (snd (on_confirmed st c))"
  by (auto simp: asks_def on_found_def on_connected_def on_chars_def on_descs_def on_subscribed_def on_confirmed_def scan_again_def
      ble_discover_def ble_subscribe_def request_def Let_def SCAN_CODE_def SCAN_CMD_LENGTH_def)

lemma ctl_ok_turn:
  assumes "ctl_ok c" "length (ho_address h) = 6" "find_turn h c = (f, d)"
  shows "ctl_ok d \<and> \<not> f"
proof (cases "ct_status c = 0")
  case True
  then show ?thesis using assms asks_step(6) [of c] by (auto simp: find_turn_def ctl_ok_def asks_def split: if_splits)
next
  case False
  let ?s = "on_subscribed h (ct_status c) (on_descs h (ct_status c) (on_chars h (ct_status c) (on_connected h (ct_status c)
    (on_found h (ct_status c) (c\<lparr>ct_status := 0\<rparr>)))))"
  have s: "asks (c\<lparr>ct_status := 0\<rparr>) ?s"
    using assms(2) by (intro asks_trans [OF asks_trans [OF asks_trans [OF asks_trans [OF asks_step(1) asks_step(2)] asks_step(3)]
        asks_step(4)] asks_step(5)])
  have "on_confirmed (ct_status c) ?s = (False, ?s)" using assms(1) by (simp add: on_confirmed_def ctl_ok_def)
  then have "\<not> f \<and> (d = ?s \<or> d = scan_again ?s)" using assms(3) False by (auto simp: find_turn_def Let_def split: if_splits)
  then show ?thesis using asks_trans [OF s asks_step(6)] s assms(1) by (auto simp: ctl_ok_def asks_def)
qed

lemma train_ok_step: "train_ok t \<Longrightarrow> \<not> is_write e \<Longrightarrow> train_step e t = TRun u \<Longrightarrow> train_ok u"
  by (cases e) (auto simp: train_ok_def train_connected_def train_disconnected_def adv_start_def ble_app_process_def Let_def
      split: if_splits)

text \<open>The request of the controller has ten bytes, the command of the train nine.\<close>

lemma scan_refused:
  "scan_cmd (Write hdl data) \<Longrightarrow> ble_app_recv data (word_of_nat (length data)) 0 t = (ATT_ERR_NOT_ALLOWED, t)"
  by (auto simp: ble_app_recv_def SCAN_CODE_def WRITE_FLAG_PREPARE_def)

lemma sys_ok_step: "sys_step s s' \<Longrightarrow> sys_ok s \<Longrightarrow> sys_ok s'"
proof (induction rule: sys_step.induct)
  case (written hdl data s r t)
  then have "scan_cmd (Write hdl data)" by (auto simp: sys_ok_def ctl_ok_def)
  then show ?case using written scan_refused by (auto simp: sys_ok_def)
next
  case (turn s h f c)
  then show ?case using ctl_ok_turn by (auto simp: sys_ok_def)
next
  case (notified n s)
  then show ?case by (simp add: sys_ok_def train_ok_def)
qed (auto simp: sys_ok_def simp del: ctl_callback.simps intro: ctl_ok_callback train_ok_step)

lemma sys_ok_init: "sys_ok sys_init"
  by (simp add: sys_ok_def sys_init_def train_ok_def train_init_def ctl_ok_def ctl_init_def request_def)

section \<open>Properties\<close>

text \<open>C23: This controller never gets hold of this train: in every interleaving the train refuses each request
  of the controller and sends nothing, so the search for the device never ends and the button
  never gets to work.\<close>

theorem controller_never_finds_train:
  assumes "sys_step\<^sup>*\<^sup>* sys_init s"
  shows "\<not> sy_found s \<and> set (sy_answers s) \<subseteq> {ATT_ERR_NOT_ALLOWED} \<and> tr_notified (sy_train s) = []"
proof -
  have "sys_ok s" using assms by (induction rule: rtranclp_induct) (auto intro: sys_ok_init sys_ok_step)
  then show ?thesis by (auto simp: sys_ok_def train_ok_def)
qed

text \<open>A run in which the controller reaches the train and writes its request.\<close>

lemma sys_callbacks:
  "\<forall>e \<in> set es. \<not> from_peer e \<or> e = CtNotified [] 0 \<Longrightarrow>
    sys_step\<^sup>*\<^sup>* s (s\<lparr>sy_ctl := fold ctl_callback es (sy_ctl s)\<rparr>)"
proof (induction es arbitrary: s)
  case (Cons e es)
  let ?s = "s\<lparr>sy_ctl := ctl_callback e (sy_ctl s)\<rparr>"
  have "sys_step s ?s" using Cons.prems by (auto simp del: ctl_callback.simps intro: sys_step.callback sys_step.subscribed)
  moreover have "sys_step\<^sup>*\<^sup>* ?s (?s\<lparr>sy_ctl := fold ctl_callback es (sy_ctl ?s)\<rparr>)"
    using Cons.IH [of ?s] Cons.prems by simp
  ultimately show ?case by (auto intro: converse_rtranclp_into_rtranclp)
qed simp

lemma sys_turns:
  assumes "\<forall>(es, h) \<in> set turns. (\<forall>e \<in> set es. \<not> from_peer e \<or> e = CtNotified [] 0) \<and> length (ho_address h) = 6"
    "find_loop turns (sy_ctl s) = (False, c)" "\<not> sy_found s"
  shows "sys_step\<^sup>*\<^sup>* s (s\<lparr>sy_ctl := c, sy_found := False\<rparr>)"
  using assms
proof (induction turns arbitrary: s)
  case Nil
  then have "s\<lparr>sy_ctl := c, sy_found := False\<rparr> = s" by simp
  then show ?case by simp
next
  case (Cons x turns)
  obtain es h where x: "x = (es, h)" by (cases x)
  let ?s = "s\<lparr>sy_ctl := fold ctl_callback es (sy_ctl s)\<rparr>"
  obtain d where d: "find_turn h (sy_ctl ?s) = (False, d)" "find_loop turns d = (False, c)"
    using Cons.prems(2) x by (auto split: prod.splits bool.splits)
  let ?t = "?s\<lparr>sy_ctl := d, sy_found := False\<rparr>"
  have "sys_step ?s ?t" using d(1) Cons.prems x by (intro sys_step.turn) auto
  then have "sys_step\<^sup>*\<^sup>* s ?t"
    using sys_callbacks [of es s] Cons.prems(1) x by (auto intro: rtranclp.rtrancl_into_rtrancl)
  moreover have "sys_step\<^sup>*\<^sup>* ?t (?t\<lparr>sy_ctl := c, sy_found := False\<rparr>)"
    using Cons.IH [of ?t] Cons.prems(1) d(2) by simp
  ultimately show ?case by simp
qed

theorem controller_never_finds_train_witness:
  "\<exists>s. sys_step\<^sup>*\<^sup>* sys_init s \<and> sy_answers s = [ATT_ERR_NOT_ALLOWED] \<and> \<not> sy_found s"
proof -
  let ?ads = "[(9, lego_train_name)] :: (u8 \<times> bytes) list" and ?own = "[1, 2, 3, 4, 5, 6] :: bytes"
  let ?turns = "take 5 (map (\<lambda>es. (es, host_ok ?own)) (answering_device [9] ?ads 7 3 5))"
  let ?i = "(request ScanStart ctl_init)\<lparr>ct_forever := True\<rparr>"
  have "strstr (bt_data_parse ?ads (replicate 30 0)) lego_train_name"
    by (simp add: strstr_def data_cb_def lego_train_name_def patch_def)
  from controller_asks [OF this, of 7 3 5 ?own "[9]"]
  obtain c where c: "find_loop ?turns ?i = (False, c)" "Write 7 (SCAN_CODE @ ?own) \<in> set (ct_cmds c)" by auto
  let ?s = "sys_init\<lparr>sy_ctl := c, sy_found := False\<rparr>"
  have "sys_step\<^sup>*\<^sup>* sys_init ?s"
    using c(1) by (intro sys_turns [of ?turns]) (simp_all add: answering_device_def host_ok_def sys_init_def)
  moreover have "sys_step ?s (?s\<lparr>sy_train := sy_train ?s, sy_answers := sy_answers ?s @ [ATT_ERR_NOT_ALLOWED]\<rparr>)"
    using c(2) by (intro sys_step.written [OF _ scan_refused, of 7 "SCAN_CODE @ ?own"]) simp_all
  ultimately have r: "sys_step\<^sup>*\<^sup>* sys_init (?s\<lparr>sy_train := sy_train ?s, sy_answers := sy_answers ?s @ [ATT_ERR_NOT_ALLOWED]\<rparr>)"
    by (rule rtranclp.rtrancl_into_rtrancl)
  show ?thesis by (intro exI conjI, rule r) (use controller_never_finds_train [OF r] in \<open>simp_all add: sys_init_def\<close>)
qed

end
