(* ===== verification/Motor.thy ===== *)
theory Motor
  imports Prelude
begin

text \<open>
  The two motors of the robot variant of the train, \<open>examples/lego_train/motor.c\<close>.  Each motor has two
  PWM inputs with a period of 100; the state is the upper threshold of each input (the lower one is
  always 0), 100 keeps an input idle.  An operation is the sequence of the thresholds it writes.
  Registration and start of the channels (\<open>motor_init\<close>) leave all inputs idle.
\<close>

datatype motor_input = MotorLA | MotorLB | MotorRA | MotorRB

datatype motor_direction = FORWARD | BACKWARD | FORWARD_LEFT | FORWARD_RIGHT | BACKWARD_LEFT | BACKWARD_RIGHT
  | CIRCLE_LEFT | CIRCLE_RIGHT | STOP

type_synonym pwm = "motor_input \<Rightarrow> u16"

definition motor_init :: pwm where
  "motor_init = (\<lambda>i. 100)"

text \<open>\<open>device_control(input, DEVICE_CTRL_PWM_DUTYCYCLE_CONFIG, \<dots>)\<close>.\<close>

fun set_duty :: "motor_input \<times> u16 \<Rightarrow> pwm \<Rightarrow> pwm" where
  "set_duty (i, threshold_high) p = p(i := threshold_high)"

definition motor_run :: "motor_direction \<Rightarrow> u8 \<Rightarrow> (motor_input \<times> u16) list" where
  "motor_run dir speed0 =
     (let speed1 = (if speed0 > 100 then 100 else speed0);
          turn_speed = (if speed1 = 100 then 25 else 100 - speed1 div 4);
          speed = (if speed1 = 100 then 0 else 100 - speed1)
      in [(MotorLA, 100), (MotorLB, 100), (MotorRA, 100), (MotorRB, 100)] @
         (case dir of
            FORWARD \<Rightarrow> [(MotorLA, ucast speed), (MotorRA, ucast speed)]
          | BACKWARD \<Rightarrow> [(MotorLB, ucast speed), (MotorRB, ucast speed)]
          | FORWARD_LEFT \<Rightarrow> [(MotorLA, ucast turn_speed), (MotorRA, ucast speed)]
          | FORWARD_RIGHT \<Rightarrow> [(MotorRA, ucast turn_speed), (MotorLA, ucast speed)]
          | BACKWARD_LEFT \<Rightarrow> [(MotorLB, ucast turn_speed), (MotorRB, ucast speed)]
          | BACKWARD_RIGHT \<Rightarrow> [(MotorRB, ucast turn_speed), (MotorLB, ucast speed)]
          | CIRCLE_LEFT \<Rightarrow> [(MotorLB, ucast speed), (MotorRA, ucast speed)]
          | CIRCLE_RIGHT \<Rightarrow> [(MotorRB, ucast speed), (MotorLA, ucast speed)]
          | STOP \<Rightarrow> []))"

text \<open>The speeds are signed bytes; the threshold takes the sign-extended byte as 16 bits.\<close>

definition motor_run_manual :: "u8 \<Rightarrow> u8 \<Rightarrow> (motor_input \<times> u16) list" where
  "motor_run_manual r_speed l_speed =
     (if 0 <s r_speed then [(MotorLA, scast (100 - l_speed)), (MotorRA, scast (100 - r_speed))]
      else [(MotorLB, scast (100 - (l_speed * - 1))), (MotorRB, scast (100 - (r_speed * - 1)))])"

section \<open>Lemmas\<close>

text \<open>An input drives its motor when it is active for a part of the period only.\<close>

definition driven :: "pwm \<Rightarrow> motor_input \<Rightarrow> bool" where
  "driven p i \<longleftrightarrow> p i < 100"

definition no_short :: "pwm \<Rightarrow> bool" where
  "no_short p \<longleftrightarrow> \<not> (driven p MotorLA \<and> driven p MotorLB) \<and> \<not> (driven p MotorRA \<and> driven p MotorRB)"

text \<open>What the commands mean: the part of the period, in percent, in which an input drives its motor.\<close>

definition turn_drive :: "nat \<Rightarrow> nat" where
  "turn_drive s = (if s = 100 then 75 else s div 4)"

fun drive :: "motor_direction \<Rightarrow> nat \<Rightarrow> motor_input \<Rightarrow> nat" where
  "drive FORWARD s = (\<lambda>i. 0)(MotorLA := s, MotorRA := s)"
| "drive BACKWARD s = (\<lambda>i. 0)(MotorLB := s, MotorRB := s)"
| "drive FORWARD_LEFT s = (\<lambda>i. 0)(MotorLA := turn_drive s, MotorRA := s)"
| "drive FORWARD_RIGHT s = (\<lambda>i. 0)(MotorLA := s, MotorRA := turn_drive s)"
| "drive BACKWARD_LEFT s = (\<lambda>i. 0)(MotorLB := turn_drive s, MotorRB := s)"
| "drive BACKWARD_RIGHT s = (\<lambda>i. 0)(MotorLB := s, MotorRB := turn_drive s)"
| "drive CIRCLE_LEFT s = (\<lambda>i. 0)(MotorLB := s, MotorRA := s)"
| "drive CIRCLE_RIGHT s = (\<lambda>i. 0)(MotorLA := s, MotorRB := s)"
| "drive STOP s = (\<lambda>i. 0)"

text \<open>No moment of a sequence of writes drives both inputs of a motor.\<close>

fun never_short :: "(motor_input \<times> u16) list \<Rightarrow> pwm \<Rightarrow> bool" where
  "never_short [] p = no_short p"
| "never_short (w # ws) p = (no_short p \<and> never_short ws (set_duty w p))"

lemma never_short_take: "never_short ws p \<Longrightarrow> no_short (fold set_duty (take k ws) p)"
proof (induction ws arbitrary: p k)
  case (Cons w ws)
  then show ?case by (cases k) auto
qed simp

fun other_input :: "motor_input \<Rightarrow> motor_input" where
  "other_input MotorLA = MotorLB"
| "other_input MotorLB = MotorLA"
| "other_input MotorRA = MotorRB"
| "other_input MotorRB = MotorRA"

lemma no_short_set: "no_short p \<Longrightarrow> v = 100 \<or> p (other_input i) = 100 \<Longrightarrow> no_short (set_duty (i, v) p)"
  by (cases i) (auto simp: no_short_def driven_def)

lemma motor_run_never_short: "no_short p \<Longrightarrow> never_short (motor_run dir speed) p"
  by (cases dir) (simp_all add: motor_run_def Let_def no_short_set del: set_duty.simps, simp_all add: no_short_def driven_def)

lemma duty_values:
  fixes s :: u8
  assumes "s < 100"
  shows "unat (ucast (100 - s) :: u16) = 100 - unat s" "unat (ucast (100 - s div 4) :: u16) = 100 - unat s div 4"
proof -
  have s: "unat s < 100" using assms by (simp add: word_less_nat_alt)
  then have "unat (100 - s) = 100 - unat s" using assms by (subst unat_sub) (auto simp: word_le_nat_alt)
  then show "unat (ucast (100 - s) :: u16) = 100 - unat s" by (simp add: unsigned_ucast_eq take_bit_nat_eq_self)
  have "unat (100 - s div 4) = 100 - unat s div 4" using s by (subst unat_sub) (auto simp: word_le_nat_alt unat_div)
  then show "unat (ucast (100 - s div 4) :: u16) = 100 - unat s div 4" by (simp add: unsigned_ucast_eq take_bit_nat_eq_self)
qed

section \<open>Properties\<close>

text \<open>C40: While \<open>motor_run\<close> writes the duty cycles, at no moment are both inputs of one motor driven, and in the
  end each input has the duty cycle that belongs to the direction and the speed, limited to 100.\<close>

theorem motor_run_safe:
  assumes "no_short p"
  shows "no_short (fold set_duty (take k (motor_run dir speed)) p) \<and>
    unat (fold set_duty (motor_run dir speed) p i) = 100 - drive dir (min (unat speed) 100) i"
proof
  let ?m = "motor_run dir speed"
  show "no_short (fold set_duty (take k ?m) p)" using assms by (intro never_short_take motor_run_never_short)
  show "unat (fold set_duty ?m p i) = 100 - drive dir (min (unat speed) 100) i"
  proof (cases "speed < 100")
    case True
    then have "unat speed < 100" by (simp add: word_less_nat_alt)
    then show ?thesis using True duty_values [OF True]
      by (cases dir; cases i) (auto simp: motor_run_def Let_def turn_drive_def min_def)
  next
    case False
    then have "100 \<le> unat speed" by (simp add: word_less_nat_alt not_less)
    then show ?thesis using False
      by (cases dir; cases i) (auto simp: motor_run_def Let_def turn_drive_def min_def not_less)
  qed
qed

theorem motor_run_safe_witness:
  "no_short (fold set_duty (take 5 (motor_run FORWARD_LEFT 60)) (fold set_duty (motor_run BACKWARD 100) motor_init)) \<and>
   unat (fold set_duty (motor_run FORWARD_LEFT 60) (fold set_duty (motor_run BACKWARD 100) motor_init) MotorLA) = 85"
proof -
  have "no_short motor_init" by (simp add: no_short_def driven_def motor_init_def)
  then have "no_short (fold set_duty (take 6 (motor_run BACKWARD 100)) motor_init)"
    by (simp add: motor_run_def no_short_def driven_def motor_init_def)
  then have "no_short (fold set_duty (motor_run BACKWARD 100) motor_init)" by (simp add: motor_run_def)
  from motor_run_safe [OF this, of 5 FORWARD_LEFT 60 MotorLA] show ?thesis by (simp add: turn_drive_def)
qed

text \<open>
  \<open>motor_run_manual\<close> only writes two inputs, so a change of direction drives both inputs of both
  motors; and a right wheel at rest leaves the forward input of the left wheel as it was.
\<close>

lemma manual_shorts: "\<not> no_short (fold set_duty (motor_run_manual 50 50 @ motor_run_manual (- 50) (- 50)) motor_init)"
  by (simp add: motor_run_manual_def no_short_def driven_def motor_init_def word_sless_alt)

lemma manual_ignores_left: "fold set_duty (motor_run_manual 0 l) p MotorLA = p MotorLA"
  by (simp add: motor_run_manual_def word_sless_alt)

end
