(* ===== verification/MemHeap.thy ===== *)
theory MemHeap
  imports Prelude
begin

text \<open>
  The memory manager behind \<open>malloc\<close>, \<open>common/memheap/drv_mmheap.c\<close>.  A block is a header (the next
  free block and the size of its payload) followed by the payload; the top bit of the size marks a
  block that is in use.  The free blocks are chained in the order of their addresses, between a start
  node of size 0 and an end node.  Headers and payload are kept in separate maps from addresses;
  that they never overlap is what the invariant below says.  A loop that does not end is \<open>None\<close>.
\<close>

section \<open>State\<close>

record heap =
  hp_next :: "u32 \<Rightarrow> u32"
  hp_size :: "u32 \<Rightarrow> u32"
  hp_mem :: "u32 \<Rightarrow> u8"
  hp_start :: u32
  hp_end :: u32
  hp_total :: u32

definition MEM_STRUCT_SIZE :: u32 where "MEM_STRUCT_SIZE = 8"
definition MINUM_MEM_SIZE :: u32 where "MINUM_MEM_SIZE = push_bit 1 MEM_STRUCT_SIZE"
definition ALLOCA_LABAL :: u32 where "ALLOCA_LABAL = push_bit 31 1"
definition ALIGNMENT_BYTE_DEFAULT :: u32 where "ALIGNMENT_BYTE_DEFAULT = 8"

lemmas mmheap_sizes = MEM_STRUCT_SIZE_def MINUM_MEM_SIZE_def ALIGNMENT_BYTE_DEFAULT_def

definition mmheap_align_down :: "u32 \<Rightarrow> u32 \<Rightarrow> u32" where
  "mmheap_align_down data align_byte = data AND NOT (align_byte - 1)"

definition mmheap_align_up :: "u32 \<Rightarrow> u32 \<Rightarrow> u32" where
  "mmheap_align_up data align_byte = (data + align_byte - 1) AND NOT (align_byte - 1)"

definition mmheap_addr_sub :: "u32 \<Rightarrow> u32" where "mmheap_addr_sub addr = addr - MEM_STRUCT_SIZE"
definition mmheap_addr_add :: "u32 \<Rightarrow> u32" where "mmheap_addr_add mem_node = mem_node + MEM_STRUCT_SIZE"

definition set_next :: "u32 \<Rightarrow> u32 \<Rightarrow> heap \<Rightarrow> heap" where
  "set_next a v h = h\<lparr>hp_next := (hp_next h)(a := v)\<rparr>"

definition set_size :: "u32 \<Rightarrow> u32 \<Rightarrow> heap \<Rightarrow> heap" where
  "set_size a v h = h\<lparr>hp_size := (hp_size h)(a := v)\<rparr>"

section \<open>Operations\<close>

partial_function (option) find_prev :: "heap \<Rightarrow> u32 \<Rightarrow> u32 \<Rightarrow> u32 option" where
  "find_prev h pPriv_Node pNode =
     (if hp_next h pPriv_Node < pNode then find_prev h (hp_next h pPriv_Node) pNode else Some pPriv_Node)"

text \<open>The two merges of an insertion; the first returns the node that the second goes on with.\<close>

definition merge_prev :: "heap \<Rightarrow> u32 \<Rightarrow> u32 \<Rightarrow> u32 \<times> heap" where
  "merge_prev h pPriv_Node pNode =
     (if mmheap_addr_add pPriv_Node + hp_size h pPriv_Node = pNode then
        (if pPriv_Node \<noteq> hp_start h
         then (pPriv_Node, set_size pPriv_Node (hp_size h pPriv_Node + (MEM_STRUCT_SIZE + hp_size h pNode)) h)
         else (pNode, set_next (hp_start h) pNode h))
      else (pNode, set_next pPriv_Node pNode h))"

definition merge_next :: "heap \<Rightarrow> u32 \<Rightarrow> u32 \<Rightarrow> heap" where
  "merge_next h pNode pNext_Node =
     (if mmheap_addr_add pNode + hp_size h pNode = pNext_Node then
        (if pNext_Node \<noteq> hp_end h
         then set_next pNode (hp_next h pNext_Node)
                (set_size pNode (hp_size h pNode + (MEM_STRUCT_SIZE + hp_size h pNext_Node)) h)
         else set_next pNode (hp_end h) h)
      else set_next pNode pNext_Node h)"

definition mmheap_insert_node_to_freelist :: "heap \<Rightarrow> u32 \<Rightarrow> heap option" where
  "mmheap_insert_node_to_freelist h pNode =
     (case find_prev h (hp_start h) pNode of
        None \<Rightarrow> None
      | Some pPriv_Node \<Rightarrow>
          (case merge_prev h pPriv_Node pNode of
             (node, h1) \<Rightarrow> Some (merge_next h1 node (hp_next h pPriv_Node))))"

text \<open>
  The search of an allocation: the node taken, the payload address and the heap with the node out
  of the free chain; at the end of the chain the end node.
\<close>

partial_function (option) alloc_scan :: "u32 \<Rightarrow> u32 \<Rightarrow> heap \<Rightarrow> u32 \<Rightarrow> u32 \<Rightarrow> u32 \<Rightarrow> (u32 \<times> u32 \<times> heap) option" where
  "alloc_scan align_size want_size h pReturn pPriv_Node pNow_Node =
     (if hp_next h pNow_Node = 0 then Some (pNow_Node, pReturn, h)
      else if hp_size h pNow_Node \<ge> want_size + MEM_STRUCT_SIZE then
        (let ret = mmheap_align_up (mmheap_addr_add pNow_Node) align_size;
             use_align_size = ret - mmheap_addr_add pNow_Node
         in if use_align_size \<noteq> 0 then
              (let ret1 = (if use_align_size < MINUM_MEM_SIZE + MEM_STRUCT_SIZE
                           then mmheap_align_up (mmheap_addr_add pNow_Node + MINUM_MEM_SIZE + MEM_STRUCT_SIZE) align_size
                           else ret);
                   use1 = ret1 - mmheap_addr_add pNow_Node;
                   new_size = hp_size h pNow_Node - use1;
                   pNew_Node = mmheap_addr_sub ret1
               in if use1 \<le> hp_size h pNow_Node \<and> new_size \<ge> want_size
                  then Some (pNew_Node, ret1,
                         set_next pNew_Node 0 (set_size pNew_Node new_size
                           (set_size pNow_Node (hp_size h pNow_Node - (new_size + MEM_STRUCT_SIZE)) h)))
                  else alloc_scan align_size want_size h ret1 pNow_Node (hp_next h pNow_Node))
            else Some (pNow_Node, ret, set_next pNow_Node 0 (set_next pPriv_Node (hp_next h pNow_Node) h)))
      else alloc_scan align_size want_size h pReturn pNow_Node (hp_next h pNow_Node))"

text \<open>What is left of the node behind the wanted size goes back to the free chain.\<close>

definition alloc_rest :: "u32 \<Rightarrow> u32 \<Rightarrow> heap \<Rightarrow> heap option" where
  "alloc_rest want_size pNow_Node h =
     (if hp_size h pNow_Node \<ge> MINUM_MEM_SIZE + MEM_STRUCT_SIZE + want_size then
        (let pNew_Node = mmheap_addr_add pNow_Node + want_size
         in mmheap_insert_node_to_freelist
              (set_size pNow_Node want_size
                (set_next pNew_Node 0
                  (set_size pNew_Node (hp_size h pNow_Node - want_size - MEM_STRUCT_SIZE) h))) pNew_Node)
      else Some h)"

definition mark_used :: "u32 \<Rightarrow> heap \<Rightarrow> heap" where
  "mark_used a h = set_size a (hp_size h a OR ALLOCA_LABAL) h"

definition mmheap_align_alloc :: "heap \<Rightarrow> u32 \<Rightarrow> u32 \<Rightarrow> (u32 \<times> heap) option" where
  "mmheap_align_alloc h align_size want_size =
     (if want_size = 0 then Some (0, h)
      else if want_size AND ALLOCA_LABAL \<noteq> 0 then Some (0, h)
      else if align_size AND (align_size - 1) \<noteq> 0 then Some (0, h)
      else
        (let want1 = (if want_size < MINUM_MEM_SIZE then MINUM_MEM_SIZE else want_size);
             align1 = (if align_size < ALIGNMENT_BYTE_DEFAULT then ALIGNMENT_BYTE_DEFAULT else align_size);
             want2 = mmheap_align_up want1 ALIGNMENT_BYTE_DEFAULT
         in case alloc_scan align1 want2 h 0 (hp_start h) (hp_next h (hp_start h)) of
              None \<Rightarrow> None
            | Some (pNow_Node, pReturn, h1) \<Rightarrow>
                if pNow_Node = hp_end h then Some (0, h1)
                else (case alloc_rest want2 pNow_Node h1 of
                        None \<Rightarrow> None
                      | Some h2 \<Rightarrow> Some (pReturn, mark_used pNow_Node h2))))"

definition mmheap_alloc :: "heap \<Rightarrow> u32 \<Rightarrow> (u32 \<times> heap) option" where
  "mmheap_alloc h want_size = mmheap_align_alloc h ALIGNMENT_BYTE_DEFAULT want_size"

definition mmheap_free :: "heap \<Rightarrow> u32 \<Rightarrow> heap option" where
  "mmheap_free h addr =
     (if addr = 0 then Some h
      else
        (let pFree_Node = mmheap_addr_sub addr
         in if hp_size h pFree_Node AND ALLOCA_LABAL = 0 then Some h
            else if hp_next h pFree_Node \<noteq> 0 then Some h
            else mmheap_insert_node_to_freelist
                   (set_size pFree_Node (hp_size h pFree_Node AND NOT ALLOCA_LABAL) h) pFree_Node))"

text \<open>\<open>memset\<close> and \<open>memcpy\<close> on the payload.\<close>

fun mem_fill :: "u32 \<Rightarrow> u8 \<Rightarrow> nat \<Rightarrow> heap \<Rightarrow> heap" where
  "mem_fill a v 0 h = h"
| "mem_fill a v (Suc n) h = mem_fill (a + 1) v n (h\<lparr>hp_mem := (hp_mem h)(a := v)\<rparr>)"

fun mem_copy :: "u32 \<Rightarrow> u32 \<Rightarrow> nat \<Rightarrow> heap \<Rightarrow> heap" where
  "mem_copy d a 0 h = h"
| "mem_copy d a (Suc n) h = mem_copy (d + 1) (a + 1) n (h\<lparr>hp_mem := (hp_mem h)(d := hp_mem h a)\<rparr>)"

definition mmheap_calloc :: "heap \<Rightarrow> u32 \<Rightarrow> u32 \<Rightarrow> (u32 \<times> heap) option" where
  "mmheap_calloc h num msize =
     (case mmheap_alloc h (msize * num) of
        None \<Rightarrow> None
      | Some (r, h1) \<Rightarrow> Some (r, if r \<noteq> 0 then mem_fill r 0 (unat (num * msize)) h1 else h1))"

text \<open>The block grows into the free block behind it.\<close>

definition realloc_grow :: "heap \<Rightarrow> u32 \<Rightarrow> u32 \<Rightarrow> u32 \<Rightarrow> u32 \<Rightarrow> heap option" where
  "realloc_grow h pSrc_Node pPriv_Node pNext_Node want_size =
     (let h1 = set_size pSrc_Node (hp_size h pSrc_Node + (MEM_STRUCT_SIZE + hp_size h pNext_Node))
                 (set_next pPriv_Node (hp_next h pNext_Node) h)
      in map_option (mark_used pSrc_Node)
           (alloc_rest (mmheap_align_up want_size ALIGNMENT_BYTE_DEFAULT) pSrc_Node h1))"

definition mmheap_realloc :: "heap \<Rightarrow> u32 \<Rightarrow> u32 \<Rightarrow> (u32 \<times> heap) option" where
  "mmheap_realloc h src_addr want_size =
     (if src_addr = 0 then mmheap_align_alloc h ALIGNMENT_BYTE_DEFAULT want_size
      else if want_size = 0 then (case mmheap_free h src_addr of None \<Rightarrow> None | Some h1 \<Rightarrow> Some (0, h1))
      else if want_size AND ALLOCA_LABAL \<noteq> 0 then Some (0, h)
      else
        (let pSrc_Node = mmheap_addr_sub src_addr
         in if hp_size h pSrc_Node AND ALLOCA_LABAL = 0 then Some (0, h)
            else
              (let h0 = set_size pSrc_Node (hp_size h pSrc_Node AND NOT ALLOCA_LABAL) h
               in if hp_size h0 pSrc_Node \<ge> want_size then Some (src_addr, mark_used pSrc_Node h0)
                  else
                    (case find_prev h0 (hp_start h0) pSrc_Node of
                       None \<Rightarrow> None
                     | Some pPriv_Node \<Rightarrow>
                         (let pNext_Node = hp_next h0 pPriv_Node
                          in if pNext_Node \<noteq> hp_end h0 \<and> src_addr + hp_size h0 pSrc_Node = pNext_Node \<and>
                                hp_size h0 pSrc_Node + hp_size h0 pNext_Node + MEM_STRUCT_SIZE \<ge> want_size
                             then (case realloc_grow h0 pSrc_Node pPriv_Node pNext_Node want_size of
                                     None \<Rightarrow> None | Some h1 \<Rightarrow> Some (src_addr, h1))
                             else
                               (case mmheap_align_alloc h0 ALIGNMENT_BYTE_DEFAULT want_size of
                                  None \<Rightarrow> None
                                | Some (r, h1) \<Rightarrow>
                                    if r = 0 then Some (0, mark_used pSrc_Node h1)
                                    else
                                      (case mmheap_free
                                              (mark_used pSrc_Node (mem_copy r src_addr (unat (hp_size h1 pSrc_Node)) h1)) src_addr of
                                         None \<Rightarrow> None
                                       | Some h2 \<Rightarrow> Some (r, h2))))))))"

section \<open>Initialisation and statistics\<close>

text \<open>One region; the second component is the last block so far, 0 at first.\<close>

definition init_region :: "u32 \<times> u32 \<Rightarrow> heap \<times> u32 \<Rightarrow> heap \<times> u32" where
  "init_region region st =
     (case (region, st) of
        ((addr, msize), (h, pPriv_node)) \<Rightarrow>
          (let align_addr = mmheap_align_up addr ALIGNMENT_BYTE_DEFAULT;
               align_size = msize - (align_addr - addr)
           in if align_addr > msize + addr then (h, pPriv_node)
              else if align_size < MINUM_MEM_SIZE + MEM_STRUCT_SIZE then (h, pPriv_node)
              else
                (let size1 = align_size - MEM_STRUCT_SIZE;
                     h1 = set_next align_addr 0 (set_size align_addr size1 h)
                 in if hp_start h1 = 0 then
                      (if size1 \<ge> MINUM_MEM_SIZE + MEM_STRUCT_SIZE then
                         (let size2 = size1 - MEM_STRUCT_SIZE; addr2 = align_addr + MEM_STRUCT_SIZE
                          in (set_next align_addr addr2 (set_size align_addr 0 (set_next addr2 0 (set_size addr2 size2
                                (h1\<lparr>hp_start := align_addr, hp_total := size2\<rparr>)))), addr2))
                       else (set_size align_addr 0 (h1\<lparr>hp_start := align_addr, hp_total := 0\<rparr>), align_addr))
                    else ((set_next pPriv_node align_addr h1)\<lparr>hp_total := hp_total h1 + size1\<rparr>, align_addr))))"

text \<open>The end node goes to the end of the last block; without any block the code reads through NULL.\<close>

definition init_end :: "heap \<times> u32 \<Rightarrow> heap option" where
  "init_end st =
     (case st of
        (h, pPriv_node) \<Rightarrow>
          if pPriv_node = 0 then None
          else
            (let align_addr = mmheap_align_down (mmheap_addr_add pPriv_node + hp_size h pPriv_node - MEM_STRUCT_SIZE) ALIGNMENT_BYTE_DEFAULT;
                 align_size = align_addr - mmheap_addr_add pPriv_node
             in if align_size \<ge> MINUM_MEM_SIZE then
                  Some (set_size align_addr 0 (set_next align_addr 0 (set_size pPriv_node align_size (set_next pPriv_node align_addr
                    (h\<lparr>hp_total := hp_total h - (hp_size h pPriv_node - align_size), hp_end := align_addr\<rparr>)))))
                else Some (h\<lparr>hp_end := pPriv_node, hp_total := hp_total h - hp_size h pPriv_node\<rparr>)))"

definition mmheap_init :: "(u32 \<times> u32) list \<Rightarrow> heap \<Rightarrow> heap option" where
  "mmheap_init regions h =
     init_end (fold init_region (takeWhile (\<lambda>r. fst r \<noteq> 0) regions) (h\<lparr>hp_total := 0, hp_end := 0, hp_start := 0\<rparr>, 0))"

record heap_state =
  hs_remain :: u32
  hs_nodes :: u32
  hs_max :: u32
  hs_min :: u32

partial_function (option) state_scan :: "heap \<Rightarrow> u32 \<Rightarrow> heap_state \<Rightarrow> heap_state option" where
  "state_scan h pNode st =
     (if hp_next h pNode \<noteq> 0 then
        state_scan h (hp_next h pNode)
          (st\<lparr>hs_remain := hs_remain st + hp_size h pNode, hs_nodes := hs_nodes st + 1,
              hs_max := (if hp_size h pNode > hs_max st then hp_size h pNode else hs_max st),
              hs_min := (if hp_size h pNode < hs_min st then hp_size h pNode else hs_min st)\<rparr>)
      else Some st)"

definition mmheap_get_state :: "heap \<Rightarrow> heap_state option" where
  "mmheap_get_state h =
     (let first = hp_next h (hp_start h)
      in state_scan h first \<lparr>hs_remain = 0, hs_nodes = 0, hs_max = hp_size h first, hs_min = hp_size h first\<rparr>)"

section \<open>Blocks and tilings\<close>

type_synonym block = "u32 \<times> u32"

definition block_ext :: "block \<Rightarrow> nat set" where
  "block_ext b = {unat (fst b) ..< unat (fst b) + 8 + unat (snd b)}"

text \<open>The blocks divide the memory up: together they are all of it, and no two of them overlap.\<close>

definition tiles :: "nat set \<Rightarrow> block set \<Rightarrow> bool" where
  "tiles R B \<longleftrightarrow> \<Union> (block_ext ` B) = R \<and> (\<forall>x \<in> B. \<forall>y \<in> B. x \<noteq> y \<longrightarrow> block_ext x \<inter> block_ext y = {})"

definition adjacent :: "block \<Rightarrow> block \<Rightarrow> bool" where
  "adjacent x y \<longleftrightarrow> unat (fst y) = unat (fst x) + 8 + unat (snd x)"

text \<open>No block directly follows another: two free blocks that touch have been merged.\<close>

definition coalesced :: "block set \<Rightarrow> bool" where
  "coalesced S \<longleftrightarrow> (\<forall>x \<in> S. \<forall>y \<in> S. \<not> adjacent x y)"

lemma coalesced_sub: "coalesced S \<Longrightarrow> T \<subseteq> S \<Longrightarrow> coalesced T"
  by (auto simp: coalesced_def)

lemma adjacent_less: "adjacent x y \<Longrightarrow> fst x < fst y"
  by (simp add: adjacent_def word_less_nat_alt)

lemma not_adjacent_le: "fst y \<le> fst x \<Longrightarrow> \<not> adjacent x y"
  by (metis adjacent_less leD)

lemma coalesced_insertI:
  "coalesced S \<Longrightarrow> (\<And>x. x \<in> S \<Longrightarrow> \<not> adjacent b x) \<Longrightarrow> (\<And>x. x \<in> S \<Longrightarrow> \<not> adjacent x b) \<Longrightarrow> coalesced (insert b S)"
  unfolding coalesced_def by (simp add: not_adjacent_le)

definition joined :: "block \<Rightarrow> block \<Rightarrow> block" where
  "joined x y = (fst x, snd x + (8 + snd y))"

lemma addr_in_ext [simp]: "unat (fst b) \<in> block_ext b"
  by (simp add: block_ext_def)

lemma tiles_sub: "tiles R B \<Longrightarrow> b \<in> B \<Longrightarrow> block_ext b \<subseteq> R"
  by (auto simp: tiles_def)

lemma tiles_addr_inj: "tiles R B \<Longrightarrow> x \<in> B \<Longrightarrow> y \<in> B \<Longrightarrow> fst x = fst y \<Longrightarrow> x = y"
  by (metis addr_in_ext disjoint_iff tiles_def)

lemma tiles_inside:
  assumes "tiles R B" "b \<in> B" "unat (fst y) \<in> block_ext b" "y \<in> B"
  shows "y = b"
proof (rule ccontr)
  assume "y \<noteq> b"
  then have "block_ext y \<inter> block_ext b = {}" using assms(1,2,4) by (simp add: tiles_def)
  then show False using assms(3) addr_in_ext [of y] by blast
qed

text \<open>Only the block right below can be adjacent to another.\<close>

lemma adjacent_between:
  assumes "tiles R B" "x \<in> B" "y \<in> B" "fst x < fst y" "fst y < fst z"
  shows "\<not> adjacent x z"
proof
  assume "adjacent x z"
  then have "unat (fst y) \<in> block_ext x" using assms(4,5) by (simp add: adjacent_def block_ext_def word_less_nat_alt)
  then have "y = x" using tiles_inside [OF assms(1,2)] assms(3) by blast
  then show False using assms(4) by simp
qed

lemma tiles_swap:
  assumes "tiles R (X \<union> B)" "X \<inter> B = {}" "\<Union> (block_ext ` Y) = \<Union> (block_ext ` X)"
    "\<forall>x \<in> Y. \<forall>y \<in> Y. x \<noteq> y \<longrightarrow> block_ext x \<inter> block_ext y = {}"
  shows "tiles R (Y \<union> B)"
proof -
  have sep: "block_ext x \<inter> block_ext y = {}" if "x \<in> Y" "y \<in> B" for x y
  proof -
    have "block_ext z \<inter> block_ext y = {}" if "z \<in> X" for z
    proof -
      have "z \<noteq> y" using assms(2) that \<open>y \<in> B\<close> by blast
      then show ?thesis using assms(1) that \<open>y \<in> B\<close> by (simp add: tiles_def)
    qed
    then show ?thesis using assms(3) \<open>x \<in> Y\<close> by blast
  qed
  show ?thesis
    unfolding tiles_def
  proof (intro conjI ballI impI)
    show "\<Union> (block_ext ` (Y \<union> B)) = R" using assms(1,3) by (simp add: tiles_def)
  next
    fix x y assume "x \<in> Y \<union> B" "y \<in> Y \<union> B" "x \<noteq> y"
    moreover have "block_ext x \<inter> block_ext y = {}" if "x \<in> B" "y \<in> B" "x \<noteq> y"
      using assms(1) that by (simp add: tiles_def)
    ultimately show "block_ext x \<inter> block_ext y = {}" using sep [of x y] sep [of y x] assms(4) by (auto simp: Int_commute)
  qed
qed

lemma joined_ext:
  assumes "adjacent x y" "unat (fst y) + 8 + unat (snd y) < 2 ^ 32"
  shows "block_ext (joined x y) = block_ext x \<union> block_ext y"
    "unat (snd (joined x y)) = unat (snd x) + 8 + unat (snd y)"
proof -
  have "unat (8 + snd y) = 8 + unat (snd y)" using assms by (subst unat_add_lt) simp_all
  then show s: "unat (snd (joined x y)) = unat (snd x) + 8 + unat (snd y)"
    using assms by (simp add: joined_def adjacent_def) (subst unat_add_lt; simp)
  then show "block_ext (joined x y) = block_ext x \<union> block_ext y"
    using assms(1) by (auto simp: block_ext_def adjacent_def joined_def)
qed

text \<open>Two adjacent blocks make one, and a block is cut in two.\<close>

lemma tiles_join:
  assumes "tiles R (insert x (insert y B))" "x \<notin> B" "y \<notin> B" "adjacent x y" "unat (fst y) + 8 + unat (snd y) < 2 ^ 32"
  shows "tiles R (insert (joined x y) B)"
  using tiles_swap [of R "{x, y}" B "{joined x y}"] assms joined_ext [OF assms(4,5)] by simp

lemma tiles_cut:
  assumes "tiles R (insert (joined x y) B)" "joined x y \<notin> B" "adjacent x y" "unat (fst y) + 8 + unat (snd y) < 2 ^ 32"
  shows "tiles R (insert x (insert y B))"
proof -
  have "block_ext x \<inter> block_ext y = {}" using assms(3) by (auto simp: block_ext_def adjacent_def)
  then show ?thesis
    using tiles_swap [of R "{joined x y}" B "{x, y}"] assms joined_ext [OF assms(3,4)] by (simp add: Int_commute)
qed

section \<open>The free chain\<close>

fun path :: "heap \<Rightarrow> u32 \<Rightarrow> block list \<Rightarrow> u32 \<Rightarrow> bool" where
  "path h p [] q = (hp_next h p = q)"
| "path h p (b # F) q = (hp_next h p = fst b \<and> hp_size h (fst b) = snd b \<and> path h (fst b) F q)"

lemma path_append:
  "path h p (F @ b # G) q = (path h p F (fst b) \<and> hp_size h (fst b) = snd b \<and> path h (fst b) G q)"
  by (induction F arbitrary: p) auto

definition last_node :: "u32 \<Rightarrow> block list \<Rightarrow> u32" where
  "last_node p F = (if F = [] then p else fst (last F))"

lemma path_end: "path h p F q \<Longrightarrow> hp_next h (last_node p F) = q"
  by (induction F arbitrary: p) (auto simp: last_node_def)

text \<open>A path only depends on its own nodes.\<close>

lemma path_frame:
  "path h p F q \<Longrightarrow> \<forall>a \<in> insert p (fst ` set F). hp_next h' a = hp_next h a \<Longrightarrow>
    \<forall>a \<in> fst ` set F. hp_size h' a = hp_size h a \<Longrightarrow> path h' p F q"
  by (induction F arbitrary: p) auto

lemma path_redirect:
  assumes "path h p F q" "distinct (p # map fst F)"
    "\<forall>a \<in> insert p (fst ` set F) - {last_node p F}. hp_next h' a = hp_next h a"
    "\<forall>a \<in> fst ` set F. hp_size h' a = hp_size h a" "hp_next h' (last_node p F) = q'"
  shows "path h' p F q'"
  using assms
proof (induction F arbitrary: p)
  case (Cons b F)
  then have "path h' (fst b) F q'" by (intro Cons.IH) (auto simp: last_node_def split: if_splits)
  moreover have "p \<noteq> last_node p (b # F)" using Cons.prems(2) by (auto simp: last_node_def)
  ultimately show ?case using Cons.prems by auto
qed (simp add: last_node_def)

text \<open>
  The chain as the code keeps it: sorted by address, inside the memory managed (\<open>R\<close>), which lies
  between the start node and the end node and is smaller than the mark of used blocks.
\<close>

definition chain :: "heap \<Rightarrow> nat set \<Rightarrow> block list \<Rightarrow> bool" where
  "chain h R F \<longleftrightarrow> path h (hp_start h) F (hp_end h) \<and> hp_next h (hp_end h) = 0 \<and> hp_size h (hp_start h) = 0 \<and>
     sorted_wrt (\<lambda>x y. fst x < fst y) F \<and> coalesced (set F) \<and> R \<subseteq> {unat (hp_start h) + 8 ..< unat (hp_end h)} \<and> card R < 2 ^ 31"

text \<open>\<open>h'\<close> has the same headers as \<open>h\<close> outside \<open>N\<close>.\<close>

definition same_headers :: "u32 set \<Rightarrow> heap \<Rightarrow> heap \<Rightarrow> bool" where
  "same_headers N h h' \<longleftrightarrow> hp_start h' = hp_start h \<and> hp_end h' = hp_end h \<and>
     (\<forall>a. a \<notin> N \<longrightarrow> hp_next h' a = hp_next h a \<and> hp_size h' a = hp_size h a)"

lemma same_headers_trans: "same_headers N h h1 \<Longrightarrow> same_headers M h1 h2 \<Longrightarrow> N \<union> M \<subseteq> K \<Longrightarrow> same_headers K h h2"
  unfolding same_headers_def by (metis UnCI subsetD)

lemma same_headers_set:
  "a \<in> N \<Longrightarrow> same_headers N h (set_next a v h)" "a \<in> N \<Longrightarrow> same_headers N h (set_size a v h)"
  by (auto simp: same_headers_def set_next_def set_size_def)

lemma header_simps [simp]:
  "hp_next (set_next a v h) = (hp_next h)(a := v)" "hp_next (set_size a v h) = hp_next h"
  "hp_size (set_size a v h) = (hp_size h)(a := v)" "hp_size (set_next a v h) = hp_size h"
  "hp_start (set_next a v h) = hp_start h" "hp_start (set_size a v h) = hp_start h"
  "hp_end (set_next a v h) = hp_end h" "hp_end (set_size a v h) = hp_end h"
  by (simp_all add: set_next_def set_size_def)

lemma distinct_map_fst_sorted: "sorted_wrt (\<lambda>x y. fst x < fst y) F \<Longrightarrow> distinct (map fst F)" for F :: "block list"
  by (induction F) auto

lemma block_bounds:
  assumes "tiles R B" "b \<in> B" "R \<subseteq> {lo ..< unat (e :: u32)}"
  shows "lo \<le> unat (fst b)" "unat (fst b) + 8 + unat (snd b) \<le> unat e" "unat (fst b) + 8 + unat (snd b) < 2 ^ 32"
    "fst b \<noteq> e"
proof -
  have "block_ext b \<subseteq> {lo ..< unat e}" using tiles_sub [OF assms(1,2)] assms(3) by blast
  moreover have "unat (fst b) \<in> block_ext b" "unat (fst b) + 8 + unat (snd b) - 1 \<in> block_ext b" by (auto simp: block_ext_def)
  ultimately have *: "lo \<le> unat (fst b)" "unat (fst b) + 8 + unat (snd b) - 1 < unat e"
    by (blast dest: atLeastLessThan_iff [THEN iffD1])+
  then show "lo \<le> unat (fst b)" "unat (fst b) + 8 + unat (snd b) \<le> unat e" by auto
  then show "unat (fst b) + 8 + unat (snd b) < 2 ^ 32" using unsigned_less [of e, where 'a = nat] by simp
  show "fst b \<noteq> e" using * by auto
qed

lemma next_addr:
  "unat a + 8 + unat s < 2 ^ 32 \<Longrightarrow> unat (mmheap_addr_add a + s) = unat a + 8 + unat s"
  unfolding mmheap_addr_add_def MEM_STRUCT_SIZE_def by (subst unat_add_lt; simp add: unat_add_lt)

lemma next_addr_eq:
  "unat a + 8 + unat s < 2 ^ 32 \<Longrightarrow> (mmheap_addr_add a + s = b) = (unat b = unat a + 8 + unat s)"
  using next_addr [of a s] by (metis word_unat_eq_iff)

lemma find_prev_path:
  "path h p (L @ G) e \<Longrightarrow> \<forall>b \<in> set L. fst b < n \<Longrightarrow> n \<le> (if G = [] then e else fst (hd G)) \<Longrightarrow>
    find_prev h p n = Some (last_node p L) \<and> hp_next h (last_node p L) = (if G = [] then e else fst (hd G))"
proof (induction L arbitrary: p)
  case Nil
  then show ?case by (subst find_prev.simps) (cases G; auto simp: last_node_def not_less)
next
  case (Cons b L)
  then show ?case by (subst find_prev.simps) (auto simp: last_node_def)
qed

lemma path_same:
  "path h p F q \<Longrightarrow> same_headers N h h' \<Longrightarrow> p \<notin> N \<Longrightarrow> \<forall>x \<in> set F. fst x \<notin> N \<Longrightarrow> path h' p F q"
  by (rule path_frame) (auto simp: same_headers_def)

section \<open>Putting a block back\<close>

lemma merge_prev_ok:
  assumes path: "path h (hp_start h) (L @ G) (hp_end h)" "hp_size h (hp_start h) = 0"
    and tiles: "tiles R (insert b (set L \<union> set G \<union> A))" "R \<subseteq> {unat (hp_start h) + 8 ..< unat (hp_end h)}"
    and new: "b \<notin> set L \<union> set G \<union> A" "hp_size h (fst b) = snd b" "set L \<inter> (set G \<union> A) = {}"
    and sorted: "sorted_wrt (\<lambda>x y. fst x < fst y) (L @ b # G)" and coal: "coalesced (set L)"
  shows "\<exists>L1 b1 h1. merge_prev h (last_node (hp_start h) L) (fst b) = (fst b1, h1) \<and> path h1 (hp_start h) L1 (fst b1) \<and>
    hp_size h1 (fst b1) = snd b1 \<and> tiles R (insert b1 (set L1 \<union> set G \<union> A)) \<and> b1 \<notin> set L1 \<union> set G \<union> A \<and>
    set L1 \<subseteq> set L \<and> sorted_wrt (\<lambda>x y. fst x < fst y) (L1 @ b1 # G) \<and> same_headers {last_node (hp_start h) L} h h1 \<and>
    (fst b1 = fst b \<or> fst b1 \<in> fst ` set L) \<and> hp_size h1 (hp_start h) = 0 \<and> (\<forall>x \<in> set L1. \<not> adjacent x b1)"
proof -
  let ?s = "hp_start h" and ?B = "insert b (set L \<union> set G \<union> A)"
  note bounds = block_bounds [OF tiles(1) _ tiles(2)]
  have above: "?s < fst x" if "x \<in> ?B" for x using bounds(1) [OF that] by (simp add: word_less_nat_alt)
  have dist: "distinct (?s # map fst L)" using sorted above
    by (force simp: sorted_wrt_append distinct_map_fst_sorted)
  show ?thesis
  proof (cases "L \<noteq> [] \<and> adjacent (last L) b")
    case True
    then obtain L' l where L: "L = L' @ [l]" by (metis rev_exhaust)
    have l: "l \<in> ?B" "adjacent l b" "last_node ?s L = fst l" using True by (auto simp: L last_node_def)
    have pl: "path h ?s L' (fst l)" "hp_size h (fst l) = snd l" using path by (simp_all add: L path_append)
    let ?h = "set_size (fst l) (snd l + (8 + snd b)) h"
    have m: "merge_prev h (last_node ?s L) (fst b) = (fst l, ?h)"
      using l(2,3) pl(2) new(2) above [OF l(1)] next_addr_eq [of "fst l" "snd l" "fst b"] bounds(3) [OF l(1)]
      by (auto simp: merge_prev_def adjacent_def MEM_STRUCT_SIZE_def)
    have lB: "l \<notin> set L' \<union> set G \<union> A" using sorted new(3) by (auto simp: L sorted_wrt_append)
    have ins: "?B = insert l (insert b (set L' \<union> set G \<union> A))" by (auto simp: L)
    have t: "tiles R (insert (joined l b) (set L' \<union> set G \<union> A))"
      using tiles_join [of R l b] tiles(1) lB l(2) new(1) bounds(3) [of b] unfolding ins by (auto simp: L)
    have j: "joined l b \<notin> set L' \<union> set G \<union> A"
    proof
      assume "joined l b \<in> set L' \<union> set G \<union> A"
      then have "joined l b = l" using tiles_addr_inj [OF tiles(1), of "joined l b" l] l(1) by (auto simp: L joined_def)
      then show False using \<open>joined l b \<in> _\<close> lB by simp
    qed
    have na: "\<forall>x \<in> set L'. \<not> adjacent x (joined l b)" using coal by (auto simp: L coalesced_def adjacent_def joined_def)
    have "path ?h ?s L' (fst l)" using pl(1) sorted by (rule_tac path_frame) (auto simp: L sorted_wrt_append)
    then show ?thesis
      using m t j na sorted l(3) path(2) above [OF l(1)]
      by (intro exI [of _ L'] exI [of _ "joined l b"] exI [of _ ?h])
        (auto simp: L joined_def sorted_wrt_append same_headers_def)
  next
    case False
    let ?p = "last_node ?s L"
    let ?h = "set_next ?p (fst b) h"
    have "merge_prev h ?p (fst b) = (fst b, ?h)"
    proof (cases "L = []")
      case False': False
      then have l: "last L \<in> ?B" "\<not> adjacent (last L) b" "?p = fst (last L)" using False by (auto simp: last_node_def)
      have "path h ?s (butlast L @ last L # G) (hp_end h)" using path(1) False' by (metis append_butlast_last_id append.assoc append_Cons append_Nil)
      then have "hp_size h (fst (last L)) = snd (last L)" by (simp add: path_append)
      then show ?thesis using l next_addr_eq [of "fst (last L)" "snd (last L)" "fst b"] bounds(3) [OF l(1)]
        by (simp add: merge_prev_def adjacent_def)
    qed (simp add: merge_prev_def last_node_def)
    moreover have "path h ?s L (if G = [] then hp_end h else fst (hd G))" using path by (cases G) (auto simp: path_append)
    then have "path ?h ?s L (fst b)" using dist by (rule path_redirect) auto
    moreover have "\<forall>x \<in> set L. \<not> adjacent x b"
    proof
      fix x assume x: "x \<in> set L"
      then obtain L' l where L: "L = L' @ [l]" by (cases L rule: rev_cases) auto
      have l: "\<not> adjacent l b" using False by (simp add: L)
      show "\<not> adjacent x b"
      proof (cases "x = l")
        case False
        then have "fst x < fst l" "fst l < fst b" using x sorted by (auto simp: L sorted_wrt_append)
        then show ?thesis using x by (intro adjacent_between [OF tiles(1)]) (auto simp: L)
      qed (use l in simp)
    qed
    moreover have "tiles R (insert b (set L \<union> set G \<union> A))" by (rule tiles(1))
    ultimately show ?thesis
      using new sorted path(2) by (intro exI [of _ L] exI [of _ b] exI [of _ ?h]) (auto simp: same_headers_def)
  qed
qed

lemma merge_next_ok:
  assumes path: "path h (hp_start h) L (fst b)" "hp_size h (fst b) = snd b"
      "G \<noteq> [] \<Longrightarrow> hp_size h (fst (hd G)) = snd (hd G) \<and> path h (fst (hd G)) (tl G) (hp_end h)"
    and q: "q = (if G = [] then hp_end h else fst (hd G))"
    and tiles: "tiles R (insert b (set L \<union> set G \<union> A))" "R \<subseteq> {unat (hp_start h) + 8 ..< unat (hp_end h)}"
    and new: "b \<notin> set L \<union> set G \<union> A" "(set L \<union> set G) \<inter> A = {}"
    and sorted: "sorted_wrt (\<lambda>x y. fst x < fst y) (L @ b # G)"
    and coal: "coalesced (set L \<union> set G)" "\<forall>x \<in> set L. \<not> adjacent x b"
  shows "\<exists>F. path (merge_next h (fst b) q) (hp_start h) F (hp_end h) \<and> tiles R (set F \<union> A) \<and> set F \<inter> A = {} \<and>
    sorted_wrt (\<lambda>x y. fst x < fst y) F \<and> coalesced (set F) \<and> same_headers {fst b} h (merge_next h (fst b) q)"
proof -
  let ?s = "hp_start h" and ?B = "insert b (set L \<union> set G \<union> A)" and ?h = "merge_next h (fst b) q"
  note bounds = block_bounds [OF tiles(1) _ tiles(2)]
  have above: "?s < fst b" using bounds(1) [of b] by (simp add: word_less_nat_alt)
  have frame: "same_headers {fst b} h ?h" by (auto simp: merge_next_def same_headers_def)
  have before: "path ?h ?s L (fst b)"
    using path(1) frame sorted above by (rule_tac path_frame) (auto simp: same_headers_def sorted_wrt_append)
  have test: "(mmheap_addr_add (fst b) + snd b = q) = (unat q = unat (fst b) + 8 + unat (snd b))"
    using next_addr_eq bounds(3) [of b] by simp
  show ?thesis
  proof (cases "G \<noteq> [] \<and> adjacent b (hd G)")
    case True
    then obtain g G' where G: "G = g # G'" by (cases G) auto
    have g: "adjacent b g" "q = fst g" "g \<in> ?B" "hp_size h (fst g) = snd g" "path h (fst g) G' (hp_end h)"
      using True path(3) by (auto simp: G q)
    have e: "q \<noteq> hp_end h" using bounds(4) [OF g(3)] g(2) by simp
    then have h: "?h = set_next (fst b) (hp_next h (fst g)) (set_size (fst b) (snd b + (8 + snd g)) h)"
      using test g path(2) by (auto simp: merge_next_def adjacent_def MEM_STRUCT_SIZE_def)
    have sep: "b \<notin> set L \<union> set G' \<union> A" "g \<notin> set L \<union> set G' \<union> A" using new sorted by (auto simp: G sorted_wrt_append)
    have ins: "?B = insert b (insert g (set L \<union> set G' \<union> A))" by (auto simp: G)
    have t: "tiles R (insert (joined b g) (set L \<union> set G' \<union> A))"
      using tiles_join [of R b g] tiles(1) sep g(1) bounds(3) [OF g(3)] unfolding ins by blast
    have j: "joined b g \<notin> A"
    proof
      assume "joined b g \<in> A"
      then have "joined b g = b" using tiles_addr_inj [OF tiles(1), of "joined b g" b] by (simp add: joined_def)
      then show False using \<open>joined b g \<in> A\<close> new(1) by simp
    qed
    have after: "path ?h (fst b) G' (hp_end h)"
    proof (cases G')
      case Nil
      then show ?thesis using g(5) h by simp
    next
      case (Cons c G'')
      then have c: "path h (fst c) G'' (hp_end h)" "hp_next h (fst g) = fst c" "hp_size h (fst c) = snd c" using g(5) by auto
      have "\<forall>x \<in> set G'. fst x \<notin> {fst b}" using sorted by (auto simp: G sorted_wrt_append)
      then have "path ?h (fst c) G'' (hp_end h)" "fst c \<noteq> fst b"
        using path_same [OF c(1) frame] by (auto simp: Cons)
      then show ?thesis using c h Cons by simp
    qed
    have "hp_size ?h (fst b) = snd (joined b g)" using h by (simp add: joined_def)
    then have "path ?h ?s (L @ joined b g # G') (hp_end h)"
      using before after unfolding path_append by (simp add: joined_def)
    moreover have "coalesced (set (L @ joined b g # G'))"
    proof -
      have "unat (snd (joined b g)) = unat (snd b) + 8 + unat (snd g)" by (rule joined_ext(2) [OF g(1) bounds(3) [OF g(3)]])
      then have "adjacent g y" if "adjacent (joined b g) y" for y using that g(1) by (simp add: adjacent_def joined_def)
      moreover have "adjacent x b" if "adjacent x (joined b g)" for x using that by (simp add: adjacent_def joined_def)
      moreover have "\<not> adjacent x (joined b g)" if "x \<in> insert (joined b g) (set G')" for x
        using that sorted by (intro not_adjacent_le) (auto simp: G joined_def sorted_wrt_append less_imp_le)
      moreover have "\<not> adjacent (joined b g) x" if "x \<in> set L" for x
        using that sorted by (intro not_adjacent_le) (auto simp: joined_def sorted_wrt_append less_imp_le)
      ultimately show ?thesis
        using coal unfolding coalesced_def G
        by (simp, blast)
    qed
    ultimately show ?thesis
      using t j new sorted frame
      by (intro exI [of _ "L @ joined b g # G'"]) (auto simp: G joined_def sorted_wrt_append)
  next
    case False
    have h: "?h = set_next (fst b) q h"
      using test path(2) False by (cases G) (auto simp: merge_next_def adjacent_def q)
    have after: "path ?h (fst b) G (hp_end h)"
    proof (cases G)
      case Nil
      then show ?thesis using h q by simp
    next
      case (Cons c G')
      then have c: "path h (fst c) G' (hp_end h)" "hp_size h (fst c) = snd c" "q = fst c" using path(3) q by auto
      have "\<forall>x \<in> set G. fst x \<notin> {fst b}" using sorted by (auto simp: sorted_wrt_append)
      then have "path ?h (fst c) G' (hp_end h)" "fst c \<noteq> fst b"
        using path_same [OF c(1) frame] by (auto simp: Cons)
      then show ?thesis using c h Cons by simp
    qed
    have "hp_size ?h (fst b) = snd b" using h path(2) by simp
    then have "path ?h ?s (L @ b # G) (hp_end h)" using before after unfolding path_append by simp
    moreover have "\<not> adjacent b y" if y: "y \<in> set G" for y
    proof -
      obtain g G' where G: "G = g # G'" using y by (cases G) auto
      have g: "\<not> adjacent b g" using False by (simp add: G)
      show ?thesis
      proof (cases "y = g")
        case False
        then have "fst b < fst g" "fst g < fst y" using y sorted by (auto simp: G sorted_wrt_append)
        then show ?thesis by (intro adjacent_between [OF tiles(1)]) (auto simp: G)
      qed (use g in simp)
    qed
    moreover have "\<not> adjacent b x" if "x \<in> set L" for x
      using that sorted by (intro not_adjacent_le) (auto simp: sorted_wrt_append less_imp_le)
    moreover have "\<not> adjacent y b" if "y \<in> set G" for y
      using that sorted by (intro not_adjacent_le) (auto simp: sorted_wrt_append less_imp_le)
    ultimately have "coalesced (insert b (set L \<union> set G))" using coal by (intro coalesced_insertI) auto
    then have cF: "coalesced (set (L @ b # G))" by simp
    from \<open>path ?h ?s (L @ b # G) (hp_end h)\<close> cF show ?thesis using tiles(1) new sorted frame by (intro exI [of _ "L @ b # G"]) (auto simp: Un_assoc)
  qed
qed

text \<open>Where the search for the predecessor of a node outside the chain stops.\<close>

lemma chain_split:
  assumes chain: "chain h R F" and tiles: "tiles R (insert (n, s) (set F \<union> A))" and new: "(n, s) \<notin> set F \<union> A"
  shows "\<exists>L G. F = L @ G \<and> (\<forall>x \<in> set L. fst x < n) \<and> (\<forall>x \<in> set G. n < fst x) \<and>
    find_prev h (hp_start h) n = Some (last_node (hp_start h) L) \<and>
    hp_next h (last_node (hp_start h) L) = (if G = [] then hp_end h else fst (hd G))"
proof -
  let ?s = "hp_start h" and ?e = "hp_end h" and ?b = "(n, s)"
  note c = chain [unfolded chain_def]
  have c_range: "R \<subseteq> {unat ?s + 8 ..< unat ?e}" using c by simp
  define L where "L = takeWhile (\<lambda>x. fst x < n) F"
  define G where "G = dropWhile (\<lambda>x. fst x < n) F"
  have F: "F = L @ G" by (simp add: L_def G_def)
  have bnd: "n \<noteq> ?e" "unat n + 8 + unat s \<le> unat ?e" "unat ?s + 8 \<le> unat n"
    using block_bounds [OF tiles _ c_range, of ?b] by auto
  have L: "\<forall>x \<in> set L. fst x < n" by (auto simp: L_def dest: set_takeWhileD)
  have ne: "fst x \<noteq> n" if "x \<in> set F" for x using tiles_addr_inj [OF tiles, of x ?b] that new by auto
  have G: "n < fst x" if "x \<in> set G" for x
  proof -
    have "G \<noteq> []" using that by auto
    moreover from this have "\<not> fst (hd G) < n" unfolding G_def by (rule hd_dropWhile)
    moreover have "fst (hd G) \<le> fst x" using that c by (cases G) (auto simp: F sorted_wrt_append)
    ultimately have "n \<le> fst x" by simp
    then show ?thesis using ne [of x] that by (simp add: F order_less_le)
  qed
  have first: "n \<le> (if G = [] then ?e else fst (hd G))"
    using bnd G [of "hd G"] by (auto simp: word_le_nat_alt word_less_nat_alt)
  obtain find: "find_prev h ?s n = Some (last_node ?s L)"
    and next_: "hp_next h (last_node ?s L) = (if G = [] then ?e else fst (hd G))"
    using find_prev_path [of h ?s L G ?e n] c L first by (auto simp: F)
  then show ?thesis using F L G by (intro exI [of _ L] exI [of _ G]) auto
qed

lemma insert_ok:
  assumes chain: "chain h R F" and tiles: "tiles R (insert (n, s) (set F \<union> A))"
    and new: "(n, s) \<notin> set F \<union> A" "hp_size h n = s" "set F \<inter> A = {}"
  shows "\<exists>h' F'. mmheap_insert_node_to_freelist h n = Some h' \<and> chain h' R F' \<and> tiles R (set F' \<union> A) \<and> set F' \<inter> A = {} \<and>
    same_headers (insert (hp_start h) (insert n (fst ` set F))) h h'"
proof -
  let ?s = "hp_start h" and ?e = "hp_end h" and ?b = "(n, s)"
  note c = chain [unfolded chain_def]
  have c_range: "R \<subseteq> {unat ?s + 8 ..< unat ?e}" using c by simp
  obtain L G where F: "F = L @ G" and L: "\<forall>x \<in> set L. fst x < n" and G': "\<forall>x \<in> set G. n < fst x"
    and find: "find_prev h ?s n = Some (last_node ?s L)"
    and next_: "hp_next h (last_node ?s L) = (if G = [] then ?e else fst (hd G))"
    using chain_split [OF chain tiles new(1)] by blast
  have G: "n < fst x" if "x \<in> set G" for x using G' that by blast
  have bnd: "n \<noteq> ?e" "unat n + 8 + unat s \<le> unat ?e" "unat ?s + 8 \<le> unat n"
    using block_bounds [OF tiles _ c_range, of ?b] by auto
  have sorted: "sorted_wrt (\<lambda>x y. fst x < fst y) (L @ ?b # G)"
    using c L G by (auto simp: F sorted_wrt_append dest: less_trans)
  have coal: "coalesced (set F)" "coalesced (set L)" using c by (auto simp: F intro: coalesced_sub)
  have disj: "set L \<inter> set G = {}" using sorted by (auto simp: sorted_wrt_append)
  have q: "path h ?s (L @ G) ?e" "hp_size h ?s = 0" "tiles R (insert ?b (set L \<union> set G \<union> A))"
      "?b \<notin> set L \<union> set G \<union> A" "hp_size h (fst ?b) = snd ?b" "set L \<inter> (set G \<union> A) = {}" "(set L \<union> set G) \<inter> A = {}"
    using c tiles new disj by (auto simp: F)
  obtain L1 b1 h1 where m: "merge_prev h (last_node ?s L) n = (fst b1, h1)" "path h1 ?s L1 (fst b1)" "hp_size h1 (fst b1) = snd b1"
    "tiles R (insert b1 (set L1 \<union> set G \<union> A))" "b1 \<notin> set L1 \<union> set G \<union> A" "set L1 \<subseteq> set L"
    "sorted_wrt (\<lambda>x y. fst x < fst y) (L1 @ b1 # G)" "same_headers {last_node ?s L} h h1" "fst b1 = n \<or> fst b1 \<in> fst ` set L" "hp_size h1 ?s = 0"
    "\<forall>x \<in> set L1. \<not> adjacent x b1"
    using merge_prev_ok [OF q(1-3) c_range q(4-6) sorted coal(2)] unfolding fst_conv by blast
  let ?q = "if G = [] then ?e else fst (hd G)"
  have ends: "hp_start h1 = ?s" "hp_end h1 = ?e" using m(8) by (simp_all add: same_headers_def)
  have p: "last_node ?s L \<in> insert ?s (fst ` set L)" by (auto simp: last_node_def)
  have rest: "hp_size h1 (fst (hd G)) = snd (hd G) \<and> path h1 (fst (hd G)) (tl G) ?e" if "G \<noteq> []"
  proof -
    obtain g G' where g: "G = g # G'" using \<open>G \<noteq> []\<close> by (cases G) auto
    have "path h (fst g) G' ?e" "hp_size h (fst g) = snd g" using c by (simp_all add: F g path_append)
    moreover have "\<forall>x \<in> set G. fst x \<notin> {last_node ?s L}"
    proof
      fix x assume "x \<in> set G"
      have "last_node ?s L < n" using p L bnd(3) by (auto simp: word_less_nat_alt)
      also have "n < fst x" using G \<open>x \<in> set G\<close> by simp
      finally show "fst x \<notin> {last_node ?s L}" by simp
    qed
    ultimately show ?thesis using path_same [OF _ m(8)] m(8) by (simp add: g same_headers_def)
  qed
  obtain F' where F': "path (merge_next h1 (fst b1) ?q) ?s F' ?e" "tiles R (set F' \<union> A)" "set F' \<inter> A = {}"
    "sorted_wrt (\<lambda>x y. fst x < fst y) F'" "same_headers {fst b1} h1 (merge_next h1 (fst b1) ?q)" "coalesced (set F')"
  proof -
    have d: "(set L1 \<union> set G) \<inter> A = {}" using q(7) m(6) by blast
    show ?thesis
      using merge_next_ok [of h1 L1 b1 G ?q R A, unfolded ends, OF m(2,3) rest refl m(4) c_range m(5) d m(7) coalesced_sub [OF coal(1)] m(11)] that m(6) unfolding F by auto
  qed
  let ?h = "merge_next h1 (fst b1) ?q"
  have frame: "same_headers (insert ?s (insert n (fst ` set F))) h ?h"
    by (rule same_headers_trans [OF m(8) F'(5)]) (use p m(9) in \<open>auto simp: F\<close>)
  have "?s \<noteq> fst b1" using block_bounds(1) [OF m(4) _ c_range, of b1] by auto
  then have "hp_size ?h ?s = 0" using F'(5) m(10) by (simp add: same_headers_def)
  moreover have "\<forall>x \<in> set F. fst x \<noteq> ?e" using block_bounds(4) [OF tiles _ c_range] by simp
  then have "?e \<notin> insert ?s (insert n (fst ` set F))" using bnd by auto
  then have "hp_next ?h ?e = 0" using c frame by (simp add: same_headers_def)
  ultimately have "chain ?h R F'" using c F' frame by (simp add: chain_def same_headers_def)
  moreover have "mmheap_insert_node_to_freelist h n = Some ?h"
    by (simp add: mmheap_insert_node_to_freelist_def find next_ m(1))
  ultimately show ?thesis using F'(2,3) frame by (intro exI [of _ ?h] exI [of _ F']) simp
qed

end
