(* ===== verification/MemAlloc.thy ===== *)
theory MemAlloc
  imports MemHeap
begin

text \<open>
  The invariant of the memory manager's heap, and that \<open>mmheap_free\<close>, \<open>mmheap_align_alloc\<close> and
  \<open>mmheap_init\<close> keep it: the free chain and the blocks in use divide the region up.
\<close>

section \<open>Alignment and the mark\<close>

lemma and_split: "(y AND m) + (y AND NOT m) = y" for y m :: u32
  by (subst disjunctive_add_eq_or) (auto intro!: bit_word_eqI simp: bit_and_iff bit_or_iff bit_not_iff)

lemma align_up_pad: "mmheap_align_up x a - x \<le> a - 1"
proof -
  from and_split [of "x + (a - 1)" "a - 1"]
  have "(x + (a - 1)) AND NOT (a - 1) = x + (a - 1) - ((x + (a - 1)) AND (a - 1))"
    by (simp add: eq_diff_eq add.commute)
  then have "mmheap_align_up x a - x = (a - 1) - ((x + (a - 1)) AND (a - 1))"
    by (simp add: mmheap_align_up_def algebra_simps)
  moreover have "(x + (a - 1)) AND (a - 1) \<le> a - 1" by (rule word_and_le1)
  ultimately show ?thesis by (simp add: word_sub_le)
qed

lemma align_up_aligned: "mmheap_align_up x a AND (a - 1) = 0"
  by (simp add: mmheap_align_up_def and.assoc)

lemma high_bit: "2 ^ 31 \<le> unat (w :: u32) \<Longrightarrow> drop_bit 31 w = 1"
proof -
  assume "2 ^ 31 \<le> unat w"
  then have "unat w div 2 ^ 31 = 1" using unsigned_less [of w, where 'a = nat] by (simp add: div_nat_eqI)
  then have "unat (drop_bit 31 w) = unat (1 :: u32)" by (simp add: unsigned_drop_bit_eq drop_bit_eq_div unat_div)
  then show ?thesis by (simp only: word_unat_eq_iff)
qed

lemma power_of_two_small:
  assumes "(a :: u32) AND (a - 1) = 0" "a \<noteq> 0"
  shows "unat (a - 1) < 2 ^ 31"
proof (rule ccontr)
  assume "\<not> unat (a - 1) < 2 ^ 31"
  then have b: "2 ^ 31 \<le> unat (a - 1)" by simp
  then have "2 ^ 31 \<le> unat a" using assms(2) by (simp add: unat_minus_one)
  then have "drop_bit 31 (a AND (a - 1)) = 1" using b high_bit by (simp add: drop_bit_and)
  then show False using assms(1) by simp
qed

lemma label_clear:
  assumes "w AND ALLOCA_LABAL = 0"
  shows "unat w < 2 ^ 31"
proof (rule ccontr)
  assume "\<not> unat w < 2 ^ 31"
  then have "drop_bit 31 (w AND ALLOCA_LABAL) = 1" using high_bit [of w] high_bit [of ALLOCA_LABAL]
    by (simp add: drop_bit_and ALLOCA_LABAL_def)
  then show False unfolding assms by simp
qed

lemma bit_label: "bit ALLOCA_LABAL n = (n = 31)"
  unfolding ALLOCA_LABAL_def bit_push_bit_iff bit_1_iff by auto

lemma label_facts:
  assumes "unat s < 2 ^ 31"
  shows "(s OR ALLOCA_LABAL) AND ALLOCA_LABAL \<noteq> 0" "(s OR ALLOCA_LABAL) AND NOT ALLOCA_LABAL = s"
proof -
  have "unat s div 2 ^ 31 = 0" using assms by simp
  then have "drop_bit 31 s = 0" by (simp add: word_unat_eq_iff unsigned_drop_bit_eq drop_bit_eq_div unat_div)
  then have "\<not> bit s 31" by (simp add: bit_iff_odd_drop_bit)
  then have "s AND ALLOCA_LABAL = 0"
    by (intro bit_word_eqI) (auto simp: bit_label bit_and_iff)
  then show "(s OR ALLOCA_LABAL) AND NOT ALLOCA_LABAL = s"
    by (intro bit_word_eqI) (metis bit_0_eq bit_and_iff bit_or_iff bit_not_iff bot_apply bot_bool_def impossible_bit)
  show "(s OR ALLOCA_LABAL) AND ALLOCA_LABAL \<noteq> 0"
    by (simp add: bit.conj_disj_distrib2 ALLOCA_LABAL_def)
qed

section \<open>The invariant\<close>

text \<open>
  \<open>heap_as m h R A\<close>: the free blocks and the blocks \<open>A\<close> in use divide the memory \<open>R\<close> up; those in use
  are out of the chain and have the size fields \<open>m\<close>, which normally is the marked size.  \<open>taken\<close> is
  the state inside an operation that has one block out of the chain but not yet marked.
\<close>

definition used :: "(block \<Rightarrow> u32) \<Rightarrow> heap \<Rightarrow> block set \<Rightarrow> bool" where
  "used m h A \<longleftrightarrow> (\<forall>x \<in> A. hp_next h (fst x) = 0 \<and> hp_size h (fst x) = m x)"

definition heap_with :: "(block \<Rightarrow> u32) \<Rightarrow> heap \<Rightarrow> nat set \<Rightarrow> block list \<Rightarrow> block set \<Rightarrow> bool" where
  "heap_with m h R F A \<longleftrightarrow> chain h R F \<and> tiles R (set F \<union> A) \<and> set F \<inter> A = {} \<and> used m h A"

definition heap_as :: "(block \<Rightarrow> u32) \<Rightarrow> heap \<Rightarrow> nat set \<Rightarrow> block set \<Rightarrow> bool" where
  "heap_as m h R A \<longleftrightarrow> (\<exists>F. heap_with m h R F A)"

definition taken :: "(block \<Rightarrow> u32) \<Rightarrow> heap \<Rightarrow> nat set \<Rightarrow> block set \<Rightarrow> block \<Rightarrow> bool" where
  "taken m h R A b \<longleftrightarrow> (\<exists>F. chain h R F \<and> tiles R (insert b (set F \<union> A)) \<and> b \<notin> set F \<union> A \<and> set F \<inter> A = {} \<and>
     used m h A \<and> hp_size h (fst b) = snd b \<and> hp_next h (fst b) = 0)"

definition marked :: "block \<Rightarrow> u32" where
  "marked b = snd b OR ALLOCA_LABAL"

definition heap_ok :: "heap \<Rightarrow> nat set \<Rightarrow> block set \<Rightarrow> bool" where
  "heap_ok h R A \<longleftrightarrow> heap_as marked h R A"

lemma chain_same:
  assumes "chain h R F" "same_headers N h h'" "hp_start h \<notin> N" "hp_end h \<notin> N" "\<forall>x \<in> set F. fst x \<notin> N"
  shows "chain h' R F"
proof -
  have "path h' (hp_start h) F (hp_end h)" using assms by (intro path_same [OF _ assms(2)]) (auto simp: chain_def)
  then show ?thesis using assms by (simp add: chain_def same_headers_def)
qed

lemma used_same: "used m h A \<Longrightarrow> same_headers N h h' \<Longrightarrow> \<forall>x \<in> A. fst x \<notin> N \<Longrightarrow> used m h' A"
  by (simp add: used_def same_headers_def)

text \<open>The addresses of different blocks differ, from each other and from the two end nodes.\<close>

lemma chain_addrs:
  assumes "chain h R F" "tiles R B" "x \<in> B"
  shows "fst x \<noteq> hp_start h" "fst x \<noteq> hp_end h" "unat (fst x) + 8 + unat (snd x) < 2 ^ 32" "8 \<le> unat (fst x)"
    "unat (snd x) < 2 ^ 31"
proof -
  have R: "R \<subseteq> {unat (hp_start h) + 8 ..< unat (hp_end h)}" "card R < 2 ^ 31" using assms(1) by (auto simp: chain_def)
  show "fst x \<noteq> hp_start h" "8 \<le> unat (fst x)" using block_bounds(1) [OF assms(2,3) R(1)] by auto
  show "fst x \<noteq> hp_end h" by (rule block_bounds(4) [OF assms(2,3) R(1)])
  show "unat (fst x) + 8 + unat (snd x) < 2 ^ 32" by (rule block_bounds(3) [OF assms(2,3) R(1)])
  have "card (block_ext x) \<le> card R"
    using tiles_sub [OF assms(2,3)] finite_subset [OF R(1)] by (intro card_mono) auto
  then show "unat (snd x) < 2 ^ 31" using R(2) by (simp add: block_ext_def)
qed

lemma chain_addrs_differ:
  "tiles R B \<Longrightarrow> x \<in> B \<Longrightarrow> C \<subseteq> B \<Longrightarrow> x \<notin> C \<Longrightarrow> \<forall>y \<in> C. fst y \<noteq> fst x"
  using tiles_addr_inj [of R B x] by (metis subsetD)

lemma differ_image: "\<forall>y \<in> S. fst y \<noteq> a \<Longrightarrow> a \<notin> fst ` S"
  by (erule contrapos_pn, erule imageE) blast

section \<open>Freeing\<close>

lemma taken_insert:
  assumes "taken m h R A b"
  shows "\<exists>h'. mmheap_insert_node_to_freelist h (fst b) = Some h' \<and> heap_as m h' R A"
proof -
  obtain F where F: "chain h R F" "tiles R (insert b (set F \<union> A))" "b \<notin> set F \<union> A" "set F \<inter> A = {}" "used m h A"
    "hp_size h (fst b) = snd b" using assms by (auto simp: taken_def)
  obtain h' F' where h': "mmheap_insert_node_to_freelist h (fst b) = Some h'" "chain h' R F'" "tiles R (set F' \<union> A)"
    "set F' \<inter> A = {}" "same_headers (insert (hp_start h) (insert (fst b) (fst ` set F))) h h'"
    using insert_ok [of h R F "fst b" "snd b" A] F by auto
  have "\<forall>x \<in> A. fst x \<notin> insert (hp_start h) (insert (fst b) (fst ` set F))"
  proof
    fix x assume x: "x \<in> A"
    then have "\<forall>y \<in> insert b (set F). fst y \<noteq> fst x"
      using F(3,4) by (intro chain_addrs_differ [OF F(2)]) auto
    moreover have "fst x \<noteq> hp_start h" using chain_addrs(1) [OF F(1,2)] x by simp
    ultimately show "fst x \<notin> insert (hp_start h) (insert (fst b) (fst ` set F))" by auto
  qed
  from used_same [OF F(5) h'(5) this] show ?thesis using h' by (auto simp: heap_as_def heap_with_def)
qed

text \<open>Taking the mark off a block in use.\<close>

lemma unmark:
  assumes ok: "heap_as m h R (insert b A)" and b: "b \<notin> A"
  shows "taken m (set_size (fst b) (snd b) h) R A b" "hp_size h (fst b) = m b" "hp_next h (fst b) = 0"
    "unat (snd b) < 2 ^ 31" "unat (fst b + 8) = unat (fst b) + 8" "unat (fst b) + 8 + unat (snd b) < 2 ^ 32"
proof -
  obtain F where F: "chain h R F" "tiles R (set F \<union> insert b A)" "set F \<inter> insert b A = {}" "used m h (insert b A)"
    using ok by (auto simp: heap_as_def heap_with_def)
  note addr = chain_addrs [OF F(1,2), of b, simplified]
  let ?h = "set_size (fst b) (snd b) h"
  have same: "same_headers {fst b} h ?h" by (simp add: same_headers_def)
  show "unat (fst b + 8) = unat (fst b) + 8" using addr(3) by (subst unat_add_lt) simp_all
  show "unat (snd b) < 2 ^ 31" "unat (fst b) + 8 + unat (snd b) < 2 ^ 32" using addr(3,5) by simp_all
  show "hp_size h (fst b) = m b" "hp_next h (fst b) = 0" using F(4) by (simp_all add: used_def)
  have others: "\<forall>x \<in> set F \<union> A. fst x \<noteq> fst b" using F(3) b by (intro chain_addrs_differ [OF F(2)]) auto
  have "chain ?h R F" using addr(1,2) others by (intro chain_same [OF F(1) same]) auto
  moreover have "used m ?h A" using others F(4) by (intro used_same [OF _ same]) (auto simp: used_def)
  ultimately show "taken m ?h R A b"
    unfolding taken_def using F b by (intro exI [of _ F]) (auto simp: used_def)
qed

lemma free_ok:
  assumes ok: "heap_ok h R (insert b A)" and b: "b \<notin> A"
  shows "\<exists>h'. mmheap_free h (fst b + 8) = Some h' \<and> heap_ok h' R A"
proof -
  note un = unmark [OF ok [unfolded heap_ok_def] b]
  have nz: "fst b + 8 \<noteq> 0" using un(5) by (metis add_is_0 unat_0 zero_neq_numeral)
  from taken_insert [OF un(1)] show ?thesis
    using un(2-4) nz label_facts [of "snd b"]
    by (simp add: mmheap_free_def marked_def mmheap_addr_sub_def MEM_STRUCT_SIZE_def Let_def heap_ok_def)
qed

section \<open>Allocation\<close>

lemma mark_used_ok:
  assumes "taken m h R A b" "m b = marked b"
  shows "heap_as m (mark_used (fst b) h) R (insert b A)"
proof -
  obtain F where F: "chain h R F" "tiles R (insert b (set F \<union> A))" "b \<notin> set F \<union> A" "set F \<inter> A = {}" "used m h A"
    "hp_size h (fst b) = snd b" "hp_next h (fst b) = 0" using assms(1) by (auto simp: taken_def)
  let ?h = "mark_used (fst b) h"
  have same: "same_headers {fst b} h ?h" by (simp add: mark_used_def same_headers_def)
  have others: "\<forall>x \<in> set F \<union> A. fst x \<noteq> fst b" using F(3) by (intro chain_addrs_differ [OF F(2)]) auto
  have "chain ?h R F" using chain_addrs(1,2) [OF F(1,2), of b] others by (intro chain_same [OF F(1) same]) auto
  moreover have "used m ?h (insert b A)"
    using used_same [OF F(5) same] others F(6,7) assms(2) by (simp add: used_def mark_used_def marked_def)
  ultimately show ?thesis using F by (auto simp: heap_as_def heap_with_def intro!: exI [of _ F])
qed

text \<open>The rest behind the wanted size is given back; what is kept has at least the wanted size.\<close>

lemma alloc_rest_ok:
  assumes "taken m h R A b" "unat w \<le> 2 ^ 31 + 7"
  shows "\<exists>h' s. alloc_rest w (fst b) h = Some h' \<and> taken m h' R A (fst b, s) \<and> min w (snd b) \<le> s"
proof (cases "MINUM_MEM_SIZE + MEM_STRUCT_SIZE + w \<le> snd b")
  case False
  then show ?thesis using assms by (intro exI [of _ h] exI [of _ "snd b"]) (auto simp: alloc_rest_def taken_def)
next
  case True
  obtain F where F: "chain h R F" "tiles R (insert b (set F \<union> A))" "b \<notin> set F \<union> A" "set F \<inter> A = {}" "used m h A"
    "hp_size h (fst b) = snd b" "hp_next h (fst b) = 0" using assms(1) by (auto simp: taken_def)
  let ?x = "(fst b, w)" and ?y = "(mmheap_addr_add (fst b) + w, snd b - w - MEM_STRUCT_SIZE)" and ?B = "set F \<union> A"
  have bb: "b \<in> insert b ?B" by simp
  note addr = chain_addrs [OF F(1,2) bb]
  have w: "unat w + 24 \<le> unat (snd b)"
  proof -
    have "unat (MINUM_MEM_SIZE + MEM_STRUCT_SIZE + w) = 24 + unat w"
      using assms(2) by (subst unat_add_lt) (auto simp: mmheap_sizes word_le_nat_alt)
    then show ?thesis using True by (simp add: word_le_nat_alt)
  qed
  then have wb: "w \<le> snd b" by (simp add: word_le_nat_alt)
  have y: "unat (fst ?y) = unat (fst b) + 8 + unat w" "unat (snd ?y) = unat (snd b) - unat w - 8"
    subgoal unfolding fst_conv by (rule next_addr) (use w addr(3) in linarith)
    subgoal using w wb by (simp add: unat_sub_if_size word_size MEM_STRUCT_SIZE_def word_le_nat_alt)
    done
  have j: "joined ?x ?y = b" by (cases b) (simp add: joined_def MEM_STRUCT_SIZE_def)
  have adj: "adjacent ?x ?y" using y(1) by (simp add: adjacent_def)
  have "tiles R (insert ?x (insert ?y ?B))"
    using tiles_cut [of R ?x ?y ?B] F(2,3) j adj y w addr(3) by simp
  then have t: "tiles R (insert ?y (set F \<union> insert ?x A))" by (simp add: insert_commute)
  have x: "?x \<notin> ?B" using tiles_addr_inj [OF F(2), of ?x b] F(3) by auto
  have xy: "fst ?y \<noteq> fst b" using y(1) by (auto simp: word_unat_eq_iff)
  have "unat (fst ?y) \<in> block_ext b" using y(1) w by (simp add: block_ext_def)
  then have yB: "?y \<notin> ?B" using tiles_inside [OF F(2), of b ?y] F(3) xy by auto
  let ?h = "set_size (fst b) w (set_next (fst ?y) 0 (set_size (fst ?y) (snd ?y) h))"
  have same: "same_headers {fst b, fst ?y} h ?h" by (simp add: same_headers_def)
  have others: "\<forall>z \<in> ?B. fst z \<noteq> fst b" "\<forall>z \<in> insert ?x ?B. fst z \<noteq> fst ?y"
    using chain_addrs_differ [OF F(2) bb, of ?B] chain_addrs_differ [OF t, of ?y "insert ?x ?B"] F(3) yB xy by auto
  have c: "chain ?h R F"
    using addr(1,2) chain_addrs(1,2) [OF F(1) t, of ?y] others by (intro chain_same [OF F(1) same]) auto
  have u: "used m ?h A" using others by (intro used_same [OF F(5) same]) auto
  have ins: "?y \<notin> set F \<union> insert ?x A" "hp_size ?h (fst ?y) = snd ?y" "set F \<inter> insert ?x A = {}"
    using yB xy x F(4) by auto
  obtain h' F' where h': "mmheap_insert_node_to_freelist ?h (fst ?y) = Some h'" "chain h' R F'" "tiles R (set F' \<union> insert ?x A)"
    "set F' \<inter> insert ?x A = {}" "same_headers (insert (hp_start ?h) (insert (fst ?y) (fst ` set F))) ?h h'"
    using insert_ok [OF c _ ins(1)] t ins by auto
  have "\<forall>z \<in> insert ?x A. fst z \<notin> insert (hp_start ?h) (insert (fst ?y) (fst ` set F))"
  proof
    fix z assume z: "z \<in> insert ?x A"
    then have "\<forall>v \<in> insert ?y (set F). fst v \<noteq> fst z" using ins(1,3) by (intro chain_addrs_differ [OF t]) auto
    moreover have "fst z \<noteq> hp_start h" using chain_addrs(1) [OF F(1) t, of z] z by blast
    ultimately show "fst z \<notin> insert (hp_start ?h) (insert (fst ?y) (fst ` set F))" by auto
  qed
  then have "used m h' A" "hp_size h' (fst b) = w" "hp_next h' (fst b) = 0"
    using used_same [OF u h'(5)] h'(5) F(7) xy by (simp_all add: same_headers_def)
  then have "taken m h' R A ?x" unfolding taken_def using h'(2-4) x by (intro exI [of _ F']) auto
  moreover have "alloc_rest w (fst b) h = Some h'" using True F(6) h'(1) by (simp add: alloc_rest_def Let_def)
  ultimately show ?thesis by (intro exI [of _ h'] exI [of _ w]) simp
qed

text \<open>A whole free block is taken out of the chain, or the end of one is cut off.\<close>

lemma take_out:
  assumes "heap_with m h R (L @ g # G) A"
    and h': "h' = set_next (fst g) v (set_next (last_node (hp_start h) L) (hp_next h (fst g)) h)"
  shows "chain h' R (L @ G)" "tiles R (insert g (set (L @ G) \<union> A))" "g \<notin> set (L @ G) \<union> A" "set (L @ G) \<inter> A = {}" "used m h' A"
    "hp_size h' (fst g) = snd g" "hp_next h' (fst g) = v"
proof -
  let ?s = "hp_start h" and ?e = "hp_end h" and ?p = "last_node (hp_start h) L"
  let ?h = "set_next (fst g) v (set_next ?p (hp_next h (fst g)) h)"
  have F: "chain h R (L @ g # G)" "tiles R (set (L @ g # G) \<union> A)" "set (L @ g # G) \<inter> A = {}" "used m h A"
    using assms by (auto simp: heap_with_def)
  note c = F(1) [unfolded chain_def]
  have sorted: "sorted_wrt (\<lambda>x y. fst x < fst y) (L @ g # G)" using c by simp
  have above: "?s < fst x" if "x \<in> set (L @ g # G) \<union> A" for x
    using block_bounds(1) [OF F(2) that, of "unat ?s + 8" ?e] c by (simp add: word_less_nat_alt)
  have g: "path h ?s L (fst g)" "hp_size h (fst g) = snd g" "path h (fst g) G ?e" using c by (simp_all add: path_append)
  have same: "same_headers {fst g, ?p} h ?h" by (simp add: same_headers_def)
  have dist: "distinct (?s # map fst L)"
    using sorted above by (force simp: sorted_wrt_append distinct_map_fst_sorted)
  have p: "?p = ?s \<or> ?p \<in> fst ` set L" "?p < fst g" using sorted above by (auto simp: last_node_def sorted_wrt_append)
  have first: "path ?h ?s L (hp_next h (fst g))"
  proof (rule path_redirect [OF g(1) dist])
    have "\<forall>a \<in> insert ?s (fst ` set L). a < fst g" using above [of g] sorted by (auto simp: sorted_wrt_append)
    then show "\<forall>a \<in> insert ?s (fst ` set L) - {?p}. hp_next ?h a = hp_next h a" by auto
  qed (use p(2) in auto)
  have later: "\<forall>x \<in> set G. fst x \<notin> {fst g, ?p}"
  proof
    fix x assume "x \<in> set G"
    then have "fst g < fst x" using sorted by (auto simp: sorted_wrt_append)
    then show "fst x \<notin> {fst g, ?p}" using p(2) by auto
  qed
  have "path ?h ?s (L @ G) ?e"
  proof (cases G)
    case Nil
    then show ?thesis using first g(3) by simp
  next
    case (Cons x G')
    then have x: "hp_next h (fst g) = fst x" "hp_size h (fst x) = snd x" "path h (fst x) G' ?e" using g(3) by auto
    have "path ?h (fst x) G' ?e" using later Cons by (intro path_same [OF x(3) same]) auto
    then show ?thesis unfolding Cons path_append using first x by simp
  qed
  moreover have "?e \<noteq> fst g" "?e \<noteq> ?p"
    using chain_addrs(2) [OF F(1,2), of g] p(2) block_bounds(2) [OF F(2), of g "unat ?s + 8" ?e] c by (auto simp: word_less_nat_alt)
  moreover have "coalesced (set (L @ G))" using c by (auto intro: coalesced_sub)
  ultimately show "chain h' R (L @ G)" unfolding h' using c by (auto simp: chain_def sorted_wrt_append)
  show "g \<notin> set (L @ G) \<union> A" using sorted F(3) by (auto simp: sorted_wrt_append)
  show "used m h' A" unfolding h'
  proof (rule used_same [OF F(4) same])
    show "\<forall>x \<in> A. fst x \<notin> {fst g, ?p}"
    proof
      fix x assume x: "x \<in> A"
      then have "\<forall>y \<in> set (L @ g # G). fst y \<noteq> fst x" using F(3) by (intro chain_addrs_differ [OF F(2)]) auto
      then have "fst x \<notin> fst ` set (L @ g # G)" by (rule differ_image)
      moreover have "?s \<noteq> fst x" using above [of x] x by auto
      moreover have "?p \<in> insert ?s (fst ` set (L @ g # G))" "fst g \<in> fst ` set (L @ g # G)" using p(1) by auto
      ultimately show "fst x \<notin> {fst g, ?p}" by (metis insertE singletonD)
    qed
  qed
  show "tiles R (insert g (set (L @ G) \<union> A))" using F(2) by simp
  show "set (L @ G) \<inter> A = {}" using F(3) by auto
  show "hp_size h' (fst g) = snd g" "hp_next h' (fst g) = v" using g(2) by (simp_all add: h')
qed

lemma take_whole:
  assumes "heap_with m h R (L @ g # G) A"
  shows "taken m (set_next (fst g) 0 (set_next (last_node (hp_start h) L) (hp_next h (fst g)) h)) R A g"
  unfolding taken_def using take_out [OF assms refl] by blast

lemma cut_block:
  assumes "heap_with m h R (L @ g # G) A" "24 \<le> unat u" "u \<le> snd g"
  shows "taken m (set_next (fst g + u) 0 (set_size (fst g + u) (snd g - u)
      (set_size (fst g) (snd g - (snd g - u + MEM_STRUCT_SIZE)) h))) R A (fst g + u, snd g - u)"
proof -
  let ?s = "hp_start h" and ?e = "hp_end h" and ?x = "(fst g, u - 8)" and ?y = "(fst g + u, snd g - u)" and ?F = "L @ (fst g, u - 8) # G"
  let ?h = "set_next (fst ?y) 0 (set_size (fst ?y) (snd ?y) (set_size (fst g) (u - 8) h))"
  have F: "chain h R (L @ g # G)" "tiles R (set (L @ g # G) \<union> A)" "set (L @ g # G) \<inter> A = {}" "used m h A"
    using assms(1) by (auto simp: heap_with_def)
  note c = F(1) [unfolded chain_def]
  have sorted: "sorted_wrt (\<lambda>x y. fst x < fst y) (L @ g # G)" using c by simp
  have gi: "g \<in> set (L @ g # G) \<union> A" by simp
  note addr = chain_addrs [OF F(1,2) gi]
  have u: "unat (u - 8) = unat u - 8" using assms(2) by (subst unat_sub) (auto simp: word_le_nat_alt)
  have y: "unat (fst g + u) = unat (fst g) + unat u" "unat (snd g - u) = unat (snd g) - unat u"
    using addr(3) assms(3) by (subst unat_add_lt; simp add: word_le_nat_alt) (simp add: unat_sub assms(3))
  have us: "unat u \<le> unat (snd g)" using assms(3) by (simp add: word_le_nat_alt)
  have gB: "g \<notin> set (L @ G) \<union> A" using sorted F(3) by (auto simp: sorted_wrt_append)
  have j: "joined ?x ?y = g" by (cases g) (simp add: joined_def)
  have adj: "adjacent ?x ?y" using y(1) u assms(2) by (simp add: adjacent_def)
  have t0: "tiles R (insert g (set (L @ G) \<union> A))" using F(2) by simp
  have "tiles R (insert ?x (insert ?y (set (L @ G) \<union> A)))"
    using tiles_cut [of R ?x ?y "set (L @ G) \<union> A"] t0 gB j adj y us addr(3) by simp
  then have t: "tiles R (insert ?y (set ?F \<union> A))" by (simp add: insert_commute)
  have xy: "fst ?y \<noteq> fst g" using y(1) assms(2) by (auto simp: word_unat_eq_iff)
  have "unat (fst ?y) \<in> block_ext g" using y(1) us by (simp add: block_ext_def)
  then have yB: "?y \<notin> set ?F \<union> A" using tiles_inside [OF t0, of g ?y] gB xy by auto
  have xA: "?x \<notin> A" using tiles_addr_inj [OF t0, of ?x g] gB by auto
  have same: "same_headers {fst g, fst ?y} h ?h" by (simp add: same_headers_def)
  have others: "\<forall>z \<in> set (L @ G) \<union> A. fst z \<noteq> fst g" "\<forall>z \<in> set ?F \<union> A. fst z \<noteq> fst ?y"
    using chain_addrs_differ [OF t0, of g "set (L @ G) \<union> A"] chain_addrs_differ [OF t, of ?y "set ?F \<union> A"] gB yB by auto
  have yse: "fst ?y \<noteq> ?s" "fst ?y \<noteq> ?e"
    using block_bounds(1,4) [OF t, of ?y "unat ?s + 8" ?e] c by auto
  have g: "path h ?s L (fst g)" "path h (fst g) G ?e" using c by (simp_all add: path_append)
  have sg: "?s \<noteq> fst g" using addr(1) by simp
  have pL: "path ?h ?s L (fst g)"
    using others yse(1) sg by (intro path_frame [OF g(1)]) auto
  have pG: "path ?h (fst g) G ?e"
    using others xy by (intro path_frame [OF g(2)]) auto
  have "path ?h ?s ?F ?e" unfolding path_append using pL pG xy by simp
  moreover have "coalesced (set ?F)"
  proof -
    have "\<not> adjacent ?x z" if "z \<in> set ?F" for z
    proof
      assume "adjacent ?x z"
      then have "unat (fst z) = unat (fst ?y)" using y(1) u assms(2) by (simp add: adjacent_def)
      then show False using others(2) that by (metis UnI1 word_unat_eq_iff)
    qed
    moreover have "adjacent z g" if "adjacent z ?x" for z using that by (simp add: adjacent_def)
    moreover have g: "coalesced (insert g (set L \<union> set G))" using c by simp
    then have rest: "coalesced (set L \<union> set G)" "\<forall>z \<in> set L \<union> set G. \<not> adjacent z g" by (auto simp: coalesced_def)
    ultimately have "\<forall>z \<in> set L \<union> set G. \<not> adjacent ?x z \<and> \<not> adjacent z ?x" by (metis UnCI list.set_intros(2) set_append UnE)
    then have "coalesced (insert ?x (set L \<union> set G))" by (intro coalesced_insertI [OF rest(1)]) blast+
    then show ?thesis by simp
  qed
  ultimately have "chain ?h R ?F" using c yse sg by (auto simp: chain_def sorted_wrt_append)
  moreover have "used m ?h A" using others by (intro used_same [OF F(4) same]) auto
  moreover have "snd g - (snd g - u + MEM_STRUCT_SIZE) = u - 8" by (simp add: MEM_STRUCT_SIZE_def)
  ultimately show ?thesis
    unfolding taken_def using t yB F(3) xA by (intro exI [of _ ?F]) auto
qed

text \<open>The address an unaligned block is cut at lies at least a minimal block and a header behind its payload.\<close>

lemma cut_offset:
  assumes al: "al AND (al - 1) = 0" "al \<noteq> 0"
    and r: "r = mmheap_align_up a al \<and> \<not> mmheap_align_up a al - a < MINUM_MEM_SIZE + MEM_STRUCT_SIZE \<or>
      r = mmheap_align_up (a + MINUM_MEM_SIZE + MEM_STRUCT_SIZE) al"
  shows "24 \<le> unat (r - a)" "r AND (al - 1) = 0"
proof -
  show "r AND (al - 1) = 0" using r align_up_aligned by auto
  from r show "24 \<le> unat (r - a)"
  proof (elim disjE conjE)
    assume "r = mmheap_align_up a al" "\<not> mmheap_align_up a al - a < MINUM_MEM_SIZE + MEM_STRUCT_SIZE"
    then show ?thesis by (simp add: mmheap_sizes word_le_nat_alt not_less)
  next
    assume "r = mmheap_align_up (a + MINUM_MEM_SIZE + MEM_STRUCT_SIZE) al"
    then have "r - (a + 24) \<le> al - 1" using align_up_pad [of "a + 24" al] by (simp add: mmheap_sizes algebra_simps)
    then have "unat (r - (a + 24)) < 2 ^ 31" using power_of_two_small [OF al] by (simp add: word_le_nat_alt)
    then have "unat (24 + (r - (a + 24))) = 24 + unat (r - (a + 24))" by (subst unat_add_lt) simp_all
    then show ?thesis by (simp add: algebra_simps)
  qed
qed

lemma alloc_scan_ok:
  assumes "heap_with m h R (L @ G) A" "al AND (al - 1) = 0" "al \<noteq> 0" "unat want \<le> 2 ^ 31 + 7"
  shows "\<exists>n r h1. alloc_scan al want h r0 (last_node (hp_start h) L) (if G = [] then hp_end h else fst (hd G)) = Some (n, r, h1) \<and>
    hp_end h1 = hp_end h \<and>
    (n = hp_end h \<and> h1 = h \<or> (\<exists>s. taken m h1 R A (n, s) \<and> want \<le> s \<and> r = mmheap_addr_add n \<and> r AND (al - 1) = 0))"
  using assms(1)
proof (induction G arbitrary: L r0)
  case Nil
  then have "hp_next h (hp_end h) = 0" by (simp add: heap_with_def chain_def)
  then show ?case by (subst alloc_scan.simps) simp
next
  case (Cons g G)
  let ?s = "hp_start h" and ?e = "hp_end h"
  have F: "chain h R (L @ g # G)" "tiles R (set (L @ g # G) \<union> A)" using Cons.prems by (auto simp: heap_with_def)
  have c: "path h (fst g) G ?e" "hp_size h (fst g) = snd g" using F(1) by (auto simp: chain_def path_append)
  have next_: "hp_next h (fst g) = (if G = [] then ?e else fst (hd G))" using c(1) by (cases G) auto
  have gi: "g \<in> set (L @ g # G) \<union> A" by simp
  note addr = chain_addrs [OF F gi]
  have "unat (fst g) + 8 \<le> unat ?e"
    using block_bounds(2) [OF F(2) gi, of "unat ?s + 8" ?e] F(1) by (simp add: chain_def)
  then have "?e \<noteq> 0" by auto
  moreover have "fst (hd G) \<noteq> 0" if "G \<noteq> []" using chain_addrs(4) [OF F, of "hd G"] that by auto
  ultimately have nz: "hp_next h (fst g) \<noteq> 0" using next_ by simp
  have IH: "\<exists>n r h1. alloc_scan al want h r1 (fst g) (hp_next h (fst g)) = Some (n, r, h1) \<and> hp_end h1 = ?e \<and>
    (n = ?e \<and> h1 = h \<or> (\<exists>s. taken m h1 R A (n, s) \<and> want \<le> s \<and> r = mmheap_addr_add n \<and> r AND (al - 1) = 0))" for r1
    using Cons.IH [of "L @ [g]" r1] Cons.prems next_ by (simp add: last_node_def)
  let ?a = "mmheap_addr_add (fst g)"
  let ?ret = "mmheap_align_up ?a al"
  let ?p = "last_node ?s L"
  show ?case
  proof (cases "want + MEM_STRUCT_SIZE \<le> snd g")
    case False
    then show ?thesis using IH [of r0] nz c(2) by (subst alloc_scan.simps) (simp add: last_node_def)
  next
    case fits: True
    have big: "want \<le> snd g"
    proof -
      have "unat (want + 8) = unat want + 8" using assms(4) by (subst unat_add_lt) simp_all
      then show ?thesis using fits by (simp add: word_le_nat_alt MEM_STRUCT_SIZE_def)
    qed
    show ?thesis
    proof (cases "?ret - ?a = 0")
      case True
      let ?h = "set_next (fst g) 0 (set_next ?p (hp_next h (fst g)) h)"
      have t: "taken m ?h R A (fst g, snd g)" using take_whole [OF Cons.prems] by simp
      have "alloc_scan al want h r0 ?p (fst g) = Some (fst g, ?ret, ?h)"
        using True nz fits c(2) by (subst alloc_scan.simps) (simp add: Let_def)
      moreover have "?ret AND (al - 1) = 0" by (rule align_up_aligned)
      ultimately show ?thesis using t big True by auto
    next
      case False
      define r1 where "r1 = (if ?ret - ?a < MINUM_MEM_SIZE + MEM_STRUCT_SIZE
        then mmheap_align_up (?a + MINUM_MEM_SIZE + MEM_STRUCT_SIZE) al else ?ret)"
      define u where "u = r1 - ?a"
      have u: "24 \<le> unat u" "r1 AND (al - 1) = 0" unfolding u_def
        using cut_offset [OF assms(2,3), of r1 ?a] by (auto simp: r1_def)
      show ?thesis
      proof (cases "u \<le> snd g \<and> want \<le> snd g - u")
        case True
        have n: "mmheap_addr_sub r1 = fst g + u" "r1 = mmheap_addr_add (fst g + u)"
          by (simp_all add: u_def mmheap_addr_sub_def mmheap_addr_add_def)
        let ?h = "set_next (fst g + u) 0 (set_size (fst g + u) (snd g - u)
          (set_size (fst g) (snd g - (snd g - u + MEM_STRUCT_SIZE)) h))"
        have "alloc_scan al want h r0 ?p (fst g) = Some (fst g + u, r1, ?h)"
          using True False nz fits c(2) n(1)
          by (subst alloc_scan.simps) (simp add: Let_def r1_def [symmetric] u_def [symmetric])
        moreover have "taken m ?h R A (fst g + u, snd g - u)" using cut_block [OF Cons.prems u(1)] True by simp
        ultimately show ?thesis using True n(2) u(2) by auto
      next
        case no: False
        have "alloc_scan al want h r0 ?p (fst g) = alloc_scan al want h r1 (fst g) (hp_next h (fst g))"
          using no False nz fits c(2) by (subst alloc_scan.simps) (simp add: Let_def r1_def [symmetric] u_def [symmetric], blast)
        then show ?thesis using IH [of r1] by simp
      qed
    qed
  qed
qed

lemma align_up_8:
  assumes "unat w \<le> 2 ^ 31 - 1"
  shows "w \<le> mmheap_align_up w 8" "unat (mmheap_align_up w 8) \<le> 2 ^ 31 + 7"
proof -
  define d where "d = mmheap_align_up w 8 - w"
  have d: "unat d \<le> 7" "mmheap_align_up w 8 = w + d" using align_up_pad [of w 8] by (simp_all add: d_def word_le_nat_alt)
  then have "unat (w + d) = unat w + unat d" using assms by (subst unat_add_lt) simp_all
  then show "w \<le> mmheap_align_up w 8" "unat (mmheap_align_up w 8) \<le> 2 ^ 31 + 7" using d assms by (simp_all add: word_le_nat_alt)
qed

lemma align_alloc_ok:
  assumes "heap_as m h R A" "\<And>x. x \<notin> A \<Longrightarrow> m x = marked x"
  shows "\<exists>p h'. mmheap_align_alloc h al w = Some (p, h') \<and>
    (p = 0 \<and> h' = h \<or>
     (\<exists>n s. p = n + 8 \<and> heap_as m h' R (insert (n, s) A) \<and> (n, s) \<notin> A \<and> w \<le> s \<and> p AND (max al 8 - 1) = 0))"
proof (cases "w = 0 \<or> w AND ALLOCA_LABAL \<noteq> 0 \<or> al AND (al - 1) \<noteq> 0")
  case True
  then show ?thesis by (auto simp: mmheap_align_alloc_def)
next
  case False
  define al1 where "al1 = (if al < ALIGNMENT_BYTE_DEFAULT then ALIGNMENT_BYTE_DEFAULT else al)"
  define w1 where "w1 = (if w < MINUM_MEM_SIZE then MINUM_MEM_SIZE else w)"
  define w2 where "w2 = mmheap_align_up w1 ALIGNMENT_BYTE_DEFAULT"
  obtain F where F: "heap_with m h R F A" using assms(1) by (auto simp: heap_as_def)
  have al: "al1 AND (al1 - 1) = 0" "al1 \<noteq> 0" "al1 = max al 8"
    using False by (auto simp: al1_def ALIGNMENT_BYTE_DEFAULT_def max_def)
  have "unat w < 2 ^ 31" using False label_clear by blast
  then have "unat w1 \<le> 2 ^ 31 - 1" "w \<le> w1" by (auto simp: w1_def mmheap_sizes word_le_nat_alt word_less_nat_alt)
  then have w2: "unat w2 \<le> 2 ^ 31 + 7" "w \<le> w2" using align_up_8 [of w1] by (auto simp: w2_def ALIGNMENT_BYTE_DEFAULT_def)
  have first: "hp_next h (hp_start h) = (if F = [] then hp_end h else fst (hd F))"
    using F by (cases F) (auto simp: heap_with_def chain_def)
  obtain n r h1 where scan: "alloc_scan al1 w2 h 0 (hp_start h) (hp_next h (hp_start h)) = Some (n, r, h1)" "hp_end h1 = hp_end h"
    "n = hp_end h \<and> h1 = h \<or> (\<exists>s. taken m h1 R A (n, s) \<and> w2 \<le> s \<and> r = mmheap_addr_add n \<and> r AND (al1 - 1) = 0)"
    using alloc_scan_ok [of m h R "[]" F A al1 w2 0] F al w2(1) first by (auto simp: last_node_def)
  have unfold: "mmheap_align_alloc h al w = (if n = hp_end h then Some (0, h1)
      else (case alloc_rest w2 n h1 of None \<Rightarrow> None | Some h2 \<Rightarrow> Some (r, mark_used n h2)))"
    using False scan(1) by (simp add: mmheap_align_alloc_def Let_def al1_def w1_def w2_def)
  show ?thesis
  proof (cases "n = hp_end h")
    case True
    then have "h1 = h" using scan(2,3) by (auto simp: taken_def dest: chain_addrs(2))
    then show ?thesis using unfold True by simp
  next
    case False
    then obtain s where s: "taken m h1 R A (n, s)" "w2 \<le> s" "r = mmheap_addr_add n" "r AND (al1 - 1) = 0" using scan(3) by auto
    obtain h2 s2 where h2: "alloc_rest w2 n h1 = Some h2" "taken m h2 R A (n, s2)" "w2 \<le> s2"
      using alloc_rest_ok [OF s(1) w2(1)] s(2) by (auto simp: min_def)
    have new: "(n, s2) \<notin> A" using h2(2) by (auto simp: taken_def)
    have "heap_as m (mark_used n h2) R (insert (n, s2) A)" using mark_used_ok [OF h2(2)] assms(2) [OF new] by simp
    then show ?thesis
      using new unfold False h2 s(3,4) al(3) w2(2)
      by (intro exI [of _ r] exI [of _ "mark_used n h2"]) (auto simp: mmheap_addr_add_def MEM_STRUCT_SIZE_def intro: order_trans)
  qed
qed

section \<open>Initialisation\<close>

lemma align_down_le: "mmheap_align_down x 8 \<le> x" "x - mmheap_align_down x 8 \<le> 7"
proof -
  have e: "x - mmheap_align_down x 8 = x AND 7"
    using and_split [of x 7] by (simp add: mmheap_align_down_def diff_eq_eq)
  then show "x - mmheap_align_down x 8 \<le> 7" by (simp add: word_and_le1)
  show "mmheap_align_down x 8 \<le> x" by (simp add: mmheap_align_down_def word_and_le2)
qed

lemma init_end_eq:
  "p \<noteq> 0 \<Longrightarrow> mmheap_align_down (mmheap_addr_add p + hp_size h p - MEM_STRUCT_SIZE) ALIGNMENT_BYTE_DEFAULT = e \<Longrightarrow>
    e - mmheap_addr_add p = k \<Longrightarrow> MINUM_MEM_SIZE \<le> k \<Longrightarrow>
    init_end (h, p) = Some (set_size e 0 (set_next e 0 (set_size p k (set_next p e
      (h\<lparr>hp_total := hp_total h - (hp_size h p - k), hp_end := e\<rparr>)))))"
  by (simp add: init_end_def Let_def)

lemma init_ok:
  assumes addr: "addr \<noteq> 0" "unat addr + unat n < 2 ^ 32" "64 \<le> unat n" "unat n < 2 ^ 31"
  shows "\<exists>h'. mmheap_init [(addr, n)] h = Some h' \<and>
    heap_ok h' {unat (mmheap_align_up addr 8) + 8 ..< unat (mmheap_align_down (addr + n - 8) 8)} {} \<and>
    unat addr \<le> unat (mmheap_align_up addr 8) \<and> unat (mmheap_align_up addr 8) + 32 \<le> unat (mmheap_align_down (addr + n - 8) 8) \<and>
    unat (mmheap_align_down (addr + n - 8) 8) + 8 \<le> unat addr + unat n \<and>
    unat (hp_total h') = unat (mmheap_align_down (addr + n - 8) 8) - unat (mmheap_align_up addr 8) - 16"
proof -
  define a where "a = mmheap_align_up addr 8"
  define e where "e = mmheap_align_down (addr + n - 8) 8"
  define d where "d = a - addr"
  have d: "unat d \<le> 7" "a = addr + d" using align_up_pad [of addr 8] by (simp_all add: a_def d_def word_le_nat_alt)
  have ua: "unat a = unat addr + unat d" unfolding d(2) using d(1) addr by (subst unat_add_lt) simp_all
  have un: "unat (n - d) = unat n - unat d" using d(1) addr(3) by (subst unat_sub) (auto simp: word_le_nat_alt)
  have u1: "unat (addr + n) = unat addr + unat n" using addr(2) by (subst unat_add_lt) simp_all
  have u2: "unat (addr + n - 8) = unat addr + unat n - 8" using addr(3) u1 by (subst unat_sub) (auto simp: word_le_nat_alt)
  have e: "unat e \<le> unat addr + unat n - 8" "unat addr + unat n - 8 \<le> unat e + 7"
    using align_down_le [of "addr + n - 8"] u2 by (auto simp: e_def word_le_nat_alt unat_sub_if_size word_size)
  define b where "b = a + 8"
  define k where "k = e - (a + 16)"
  define m where "m = n - d - 8 - 8"
  let ?h0 = "h\<lparr>hp_total := 0, hp_end := 0, hp_start := 0\<rparr>"
  let ?h1 = "set_next a b (set_size a 0 (set_next b 0 (set_size b m
    ((set_next a 0 (set_size a (n - d - 8) ?h0))\<lparr>hp_start := a, hp_total := m\<rparr>))))"
  let ?h2 = "set_size e 0 (set_next e 0 (set_size b k (set_next b e
    (?h1\<lparr>hp_total := hp_total ?h1 - (m - k), hp_end := e\<rparr>))))"
  have ub: "unat b = unat a + 8" "unat (a + 16) = unat a + 16" unfolding b_def using ua d(1) addr by (subst unat_add_lt; simp)+
  have uk: "unat k = unat e - (unat a + 16)" "16 \<le> unat k"
    using e ub(2) ua d(1) addr(3) by (auto simp: k_def unat_sub_if_size word_size)
  have ne: "b \<noteq> 0" "a \<noteq> 0" "b \<noteq> a" "e \<noteq> a" "e \<noteq> b" using ub uk ua addr(1) by (auto simp: word_unat_eq_iff)
  have tests: "\<not> a > n + addr" "\<not> n - d < 24" "n - d - 8 \<ge> 24"
  proof -
    have "unat (n - d - 8) = unat n - unat d - 8" using un d(1) addr(3) by (subst unat_sub) (auto simp: word_le_nat_alt)
    moreover have "unat (n + addr) = unat addr + unat n" using u1 by (simp add: add.commute)
    ultimately show "\<not> a > n + addr" "\<not> n - d < 24" "n - d - 8 \<ge> 24"
      using ua un d(1) addr(3) by (simp_all add: word_less_nat_alt word_le_nat_alt)
  qed
  have "init_region (addr, n) (?h0, 0) = (?h1, b)"
    using tests by (simp add: init_region_def mmheap_sizes a_def [symmetric] d_def [symmetric] b_def [symmetric] m_def [symmetric] Let_def)
  moreover have "init_end (?h1, b) = Some ?h2"
  proof -
    have sz: "hp_size ?h1 b = m" using ne by simp
    have "b + 8 + m - 8 = addr + n - 8" "e - (b + 8) = k" using d(2) by (simp_all add: b_def m_def k_def)
    then show ?thesis
      using init_end_eq [of b ?h1 e k] ne(1) uk(2)
      unfolding sz mmheap_addr_add_def mmheap_sizes by (simp add: e_def word_le_nat_alt)
  qed
  ultimately have init: "mmheap_init [(addr, n)] h = Some ?h2" using addr(1) by (simp add: mmheap_init_def)
  let ?R = "{unat a + 8 ..< unat e}"
  have "chain ?h2 ?R [(b, k)]"
    unfolding chain_def
  proof (intro conjI)
    show "path ?h2 (hp_start ?h2) [(b, k)] (hp_end ?h2)" "hp_next ?h2 (hp_end ?h2) = 0" "hp_size ?h2 (hp_start ?h2) = 0"
      using ne by (simp_all add: set_next_def set_size_def)
    show "coalesced (set [(b, k)])" by (simp add: coalesced_def adjacent_def)
    show "?R \<subseteq> {unat (hp_start ?h2) + 8 ..< unat (hp_end ?h2)}" by (simp add: set_next_def set_size_def)
    show "card ?R < 2 ^ 31" using e(1) ua addr(4) by simp
  qed simp
  moreover have "tiles ?R {(b, k)}" using ub uk by (simp add: tiles_def block_ext_def)
  ultimately have "heap_ok ?h2 ?R {}" unfolding heap_ok_def heap_as_def heap_with_def used_def by (intro exI [of _ "[(b, k)]"]) simp
  moreover have "unat (hp_total ?h2) = unat e - unat a - 16" using uk(1) by (simp add: set_next_def set_size_def)
  moreover have "unat addr \<le> unat a" "unat a + 32 \<le> unat e" "unat e + 8 \<le> unat addr + unat n"
    using ua uk e addr(3) by linarith+
  ultimately show ?thesis unfolding a_def [symmetric] e_def [symmetric] using init by blast
qed

end
