(* ===== verification/MemRealloc.thy ===== *)
theory MemRealloc
  imports MemAlloc
begin

text \<open>
  \<open>mmheap_realloc\<close>: the block grows into the free block behind it, or moves; either way the invariant
  holds again and the contents are those of the old block.
\<close>

section \<open>Payload is left alone\<close>

lemma mem_simps [simp]:
  "hp_mem (set_next a v h) = hp_mem h" "hp_mem (set_size a v h) = hp_mem h" "hp_mem (mark_used a h) = hp_mem h"
  by (simp_all add: set_next_def set_size_def mark_used_def)

lemma insert_mem: "mmheap_insert_node_to_freelist h n = Some h' \<Longrightarrow> hp_mem h' = hp_mem h"
  by (auto simp: mmheap_insert_node_to_freelist_def merge_prev_def merge_next_def split: option.splits if_splits)

lemma alloc_rest_mem: "alloc_rest w n h = Some h' \<Longrightarrow> hp_mem h' = hp_mem h"
  by (auto simp: alloc_rest_def Let_def dest: insert_mem split: if_splits)

lemma alloc_scan_mem:
  assumes "alloc_scan al w h r p n = Some x"
  shows "hp_mem (snd (snd x)) = hp_mem h"
  by (rule alloc_scan.raw_induct [OF _ assms, of "\<lambda>al w h r p n x. hp_mem (snd (snd x)) = hp_mem h"])
    (auto simp: Let_def split: if_splits)

lemma align_alloc_mem: "mmheap_align_alloc h al w = Some (p, h') \<Longrightarrow> hp_mem h' = hp_mem h"
  by (auto simp: mmheap_align_alloc_def Let_def dest!: alloc_scan_mem alloc_rest_mem split: if_splits option.splits prod.splits)

lemma free_mem: "mmheap_free h p = Some h' \<Longrightarrow> hp_mem h' = hp_mem h"
  by (auto simp: mmheap_free_def Let_def dest: insert_mem split: if_splits)

lemma mem_copy_headers [simp]:
  "hp_next (mem_copy d a n h) = hp_next h" "hp_size (mem_copy d a n h) = hp_size h"
  "hp_start (mem_copy d a n h) = hp_start h" "hp_end (mem_copy d a n h) = hp_end h"
  by (induction n arbitrary: d a h) auto

lemma mem_copy_other: "\<forall>i < n. x \<noteq> d + word_of_nat i \<Longrightarrow> hp_mem (mem_copy d a n h) x = hp_mem h x"
proof (induction n arbitrary: d a h)
  case (Suc n)
  have "\<forall>i < n. x \<noteq> d + 1 + word_of_nat i"
  proof (intro allI impI)
    fix i assume "i < n"
    then show "x \<noteq> d + 1 + word_of_nat i" using Suc.prems [rule_format, of "Suc i"] by (simp add: add.assoc)
  qed
  moreover have "x \<noteq> d" using Suc.prems [rule_format, of 0] by simp
  ultimately show ?case using Suc.IH by simp
qed simp

lemma mem_copy_get:
  assumes "i < n" "n \<le> 2 ^ 32" "\<forall>j < n. \<forall>k < n. d + word_of_nat j \<noteq> a + word_of_nat k"
  shows "hp_mem (mem_copy d a n h) (d + word_of_nat i) = hp_mem h (a + word_of_nat i)"
  using assms
proof (induction n arbitrary: d a h i)
  case (Suc n)
  let ?h = "h\<lparr>hp_mem := (hp_mem h)(d := hp_mem h a)\<rparr>"
  show ?case
  proof (cases i)
    case 0
    have "d \<noteq> d + 1 + word_of_nat j" if "j < n" for j
    proof -
      have "unat (word_of_nat (Suc j) :: u32) = Suc j" using that Suc.prems(2) by (simp add: unat_of_nat del: of_nat_Suc)
      then have "word_of_nat (Suc j) \<noteq> (0 :: u32)" by (metis unat_0 nat.distinct(1))
      then show ?thesis by (simp add: add.assoc)
    qed
    then have "hp_mem (mem_copy (d + 1) (a + 1) n ?h) d = hp_mem ?h d" by (intro mem_copy_other) blast
    then show ?thesis using 0 by simp
  next
    case (Suc k)
    have ap: "\<forall>j < n. \<forall>k < n. d + 1 + word_of_nat j \<noteq> a + 1 + word_of_nat k"
    proof (intro allI impI)
      fix j k assume "j < n" "k < n"
      then show "d + 1 + word_of_nat j \<noteq> a + 1 + word_of_nat k"
        using Suc.prems(3) [rule_format, of "Suc j" "Suc k"] by (simp add: add.assoc)
    qed
    have "hp_mem (mem_copy (d + 1) (a + 1) n ?h) (d + 1 + word_of_nat k) = hp_mem ?h (a + 1 + word_of_nat k)"
      using Suc.IH [of k "d + 1" "a + 1" ?h] Suc.prems(1,2) ap Suc by simp
    moreover have "a + 1 + word_of_nat k \<noteq> d"
      using Suc.prems(3) [rule_format, of 0 "Suc k"] Suc.prems(1) Suc by (auto simp: add.assoc)
    ultimately show ?thesis using Suc by (simp add: add.assoc)
  qed
qed simp

section \<open>Changing the size\<close>

text \<open>The free block behind a block in use is taken out of the chain and joined to it.\<close>

lemma join_behind:
  assumes "heap_with marked h R (L @ g # G) (insert b A)" "b \<notin> A" "adjacent b g"
  shows "taken marked (set_size (fst b) (snd b + (8 + snd g)) (set_next (last_node (hp_start h) L) (hp_next h (fst g)) h)) R A (joined b g)"
proof -
  let ?p = "last_node (hp_start h) L" and ?B = "set (L @ G) \<union> A"
  let ?X = "set_next ?p (hp_next h (fst g)) h" and ?h = "set_size (fst b) (snd b + (8 + snd g)) (set_next (last_node (hp_start h) L) (hp_next h (fst g)) h)"
  have F: "chain h R (L @ g # G)" "tiles R (set (L @ g # G) \<union> insert b A)" using assms(1) by (auto simp: heap_with_def)
  have sorted: "sorted_wrt (\<lambda>x y. fst x < fst y) (L @ g # G)" using F(1) by (simp add: chain_def)
  have "?p < fst g"
    using sorted block_bounds(1) [OF F(2), of g "unat (hp_start h) + 8" "hp_end h"] F(1)
    by (auto simp: last_node_def sorted_wrt_append chain_def word_less_nat_alt)
  then have "set_next (fst g) (hp_next h (fst g)) ?X = ?X" by (simp add: set_next_def fun_upd_idem)
  note out = take_out [OF assms(1), of ?X "hp_next h (fst g)", OF this [symmetric]]
  have g: "g \<notin> ?B" "b \<noteq> g" and b: "b \<notin> ?B" using out(3,4) assms(2) by auto
  have t: "tiles R (insert b (insert g ?B))" using out(2) by (simp add: insert_commute)
  have gi: "g \<in> set (L @ g # G) \<union> insert b A" by simp
  have j: "tiles R (insert (joined b g) ?B)"
    by (rule tiles_join [OF t b g(1) assms(3) chain_addrs(3) [OF F gi]])
  have jB: "joined b g \<notin> ?B"
  proof
    assume "joined b g \<in> ?B"
    then have "joined b g = b" using tiles_addr_inj [OF t, of "joined b g" b] by (simp add: joined_def)
    then show False using \<open>joined b g \<in> ?B\<close> b by simp
  qed
  have same: "same_headers {fst b} ?X ?h" by (simp add: same_headers_def)
  have others: "\<forall>x \<in> ?B. fst x \<noteq> fst b" using b by (intro chain_addrs_differ [OF t]) auto
  have bt: "b \<in> insert b (insert g ?B)" by simp
  have "chain ?h R (L @ G)"
    using chain_addrs(1,2) [OF out(1) t bt] others by (intro chain_same [OF out(1) same]) auto
  moreover have "used marked ?h A" using out(5) others by (intro used_same [OF _ same]) (auto simp: used_def)
  moreover have "hp_next ?h (fst b) = 0" using out(5) by (simp add: used_def)
  ultimately show ?thesis
    unfolding taken_def using j jB out(4) by (intro exI [of _ "L @ G"]) (auto simp: joined_def)
qed

lemma realloc_grow_ok:
  assumes ok: "heap_ok h R (insert b A)" "b \<notin> A" and w: "unat w < 2 ^ 31"
  defines "h0 \<equiv> set_size (fst b) (snd b) h"
  shows "\<exists>p. find_prev h0 (hp_start h0) (fst b) = Some p \<and>
    (hp_next h0 p \<noteq> hp_end h0 \<longrightarrow> mmheap_addr_add (fst b) + snd b = hp_next h0 p \<longrightarrow>
      w \<le> snd b + hp_size h0 (hp_next h0 p) + 8 \<longrightarrow>
      (\<exists>h1 s. realloc_grow h0 (fst b) p (hp_next h0 p) w = Some h1 \<and> heap_ok h1 R (insert (fst b, s) A) \<and>
        (fst b, s) \<notin> A \<and> w \<le> s \<and> hp_mem h1 = hp_mem h))"
proof -
  obtain F where F: "heap_with marked h R F (insert b A)" using ok(1) by (auto simp: heap_ok_def heap_as_def)
  then have c: "chain h R F" "tiles R (insert (fst b, snd b) (set F \<union> A))" "(fst b, snd b) \<notin> set F \<union> A"
    using ok(2) by (auto simp: heap_with_def)
  have bt: "b \<in> insert (fst b, snd b) (set F \<union> A)" by simp
  have "\<forall>x \<in> set F. fst x \<noteq> fst b" using c(3) by (intro chain_addrs_differ [OF c(2) bt]) auto
  then have "chain h0 R F" using chain_addrs(1,2) [OF c(1,2) bt]
    by (intro chain_same [OF c(1), of "{fst b}"]) (auto simp: h0_def same_headers_def)
  from chain_split [OF this c(2,3)] obtain L G where LG: "F = L @ G"
    "find_prev h0 (hp_start h0) (fst b) = Some (last_node (hp_start h) L)"
    "hp_next h (last_node (hp_start h) L) = (if G = [] then hp_end h else fst (hd G))"
    by (auto simp: h0_def)
  let ?p = "last_node (hp_start h) L"
  note un = unmark [OF ok(1) [unfolded heap_ok_def] ok(2)]
  show ?thesis
  proof (rule exI [of _ ?p], intro conjI impI)
    show "find_prev h0 (hp_start h0) (fst b) = Some ?p" by (rule LG(2))
    assume fits: "hp_next h0 ?p \<noteq> hp_end h0" "mmheap_addr_add (fst b) + snd b = hp_next h0 ?p"
      "w \<le> snd b + hp_size h0 (hp_next h0 ?p) + 8"
    obtain g G' where G: "G = g # G'" using fits(1) LG(3) by (cases G) (auto simp: h0_def)
    have g: "hp_next h ?p = fst g" using LG(3) G by simp
    have adj: "adjacent b g" using fits(2) g next_addr_eq [of "fst b" "snd b" "fst g"] un(6) by (simp add: h0_def adjacent_def)
    have F': "heap_with marked h R (L @ g # G') (insert b A)" using F LG(1) G by simp
    have sz: "hp_size h (fst g) = snd g" "fst g \<noteq> fst b"
      using F' adj by (auto simp: heap_with_def chain_def path_append adjacent_def)
    let ?h1 = "set_size (fst b) (snd b + (8 + snd g)) (set_next ?p (hp_next h (fst g)) h)"
    have t: "taken marked ?h1 R A (joined b g)" by (rule join_behind [OF F' ok(2) adj])
    let ?w = "mmheap_align_up w ALIGNMENT_BYTE_DEFAULT"
    have w8: "w \<le> ?w" "unat ?w \<le> 2 ^ 31 + 7" using align_up_8 [of w] w by (simp_all add: ALIGNMENT_BYTE_DEFAULT_def)
    have big: "w \<le> snd (joined b g)" using fits(3) g sz by (simp add: h0_def joined_def algebra_simps)
    obtain h2 s where h2: "alloc_rest ?w (fst b) ?h1 = Some h2" "taken marked h2 R A (fst b, s)" "min ?w (snd (joined b g)) \<le> s"
      using alloc_rest_ok [OF t w8(2)] by (auto simp: joined_def)
    have eq: "realloc_grow h0 (fst b) ?p (hp_next h0 ?p) w = Some (mark_used (fst b) h2)"
    proof -
      have "set_size (fst b) (snd b + (8 + snd g)) (set_next ?p (hp_next h (fst g)) h0) = ?h1"
        by (simp add: h0_def set_size_def set_next_def)
      then show ?thesis using h2(1) g sz by (simp add: realloc_grow_def Let_def h0_def MEM_STRUCT_SIZE_def)
    qed
    have "heap_ok (mark_used (fst b) h2) R (insert (fst b, s) A)"
      using mark_used_ok [OF h2(2)] by (simp add: heap_ok_def)
    moreover have "(fst b, s) \<notin> A" using h2(2) by (auto simp: taken_def)
    moreover have "w \<le> s" using h2(3) w8(1) big by (auto simp: min_def split: if_splits)
    moreover have "hp_mem (mark_used (fst b) h2) = hp_mem h" using alloc_rest_mem [OF h2(1)] by simp
    ultimately show "\<exists>h1 s. realloc_grow h0 (fst b) ?p (hp_next h0 ?p) w = Some h1 \<and> heap_ok h1 R (insert (fst b, s) A) \<and>
        (fst b, s) \<notin> A \<and> w \<le> s \<and> hp_mem h1 = hp_mem h" using eq by blast
  qed
qed

lemma taken_cong:
  assumes "taken m h R A b" "same_headers {} h h'" "\<forall>x \<in> A. m' x = m x"
  shows "taken m' h' R A b"
proof -
  obtain F where F: "chain h R F" "tiles R (insert b (set F \<union> A))" "b \<notin> set F \<union> A" "set F \<inter> A = {}" "used m h A"
    "hp_size h (fst b) = snd b" "hp_next h (fst b) = 0" using assms(1) by (auto simp: taken_def)
  have "chain h' R F" by (rule chain_same [OF F(1) assms(2)]) auto
  then show ?thesis unfolding taken_def using F assms(2,3) by (intro exI [of _ F]) (auto simp: used_def same_headers_def)
qed

lemma payload_addr:
  assumes "unat (fst x) + 8 + unat (snd x) < 2 ^ 32" "i < unat (snd x)"
  shows "unat (fst x + 8 + word_of_nat i) = unat (fst x) + 8 + i" "unat (fst x + 8 + word_of_nat i) \<in> block_ext x"
proof -
  have "unat (word_of_nat i :: u32) = i" using assms by (simp add: unat_of_nat)
  moreover have "unat (fst x + 8) = unat (fst x) + 8" using assms by (subst unat_add_lt) simp_all
  ultimately show "unat (fst x + 8 + word_of_nat i) = unat (fst x) + 8 + i"
    using assms by (subst unat_add_lt) simp_all
  then show "unat (fst x + 8 + word_of_nat i) \<in> block_ext x" using assms(2) by (simp add: block_ext_def)
qed

lemma tiles_apart: "heap_as m h R A \<Longrightarrow> x \<in> A \<Longrightarrow> y \<in> A \<Longrightarrow> x \<noteq> y \<Longrightarrow> block_ext x \<inter> block_ext y = {}"
  by (auto simp: heap_as_def heap_with_def tiles_def)

text \<open>The block is moved: allocated anew, copied, and the old one freed.\<close>

lemma realloc_move_ok:
  assumes ok: "heap_ok h R (insert b A)" "b \<notin> A" and w: "snd b < w"
  defines "h0 \<equiv> set_size (fst b) (snd b) h"
  shows "\<exists>r h1. mmheap_align_alloc h0 8 w = Some (r, h1) \<and> hp_size h1 (fst b) = snd b \<and>
    (r = 0 \<and> h1 = h0 \<or>
     (\<exists>n s h2. r = n + 8 \<and> r \<noteq> 0 \<and> (n, s) \<notin> A \<and> w \<le> s \<and>
       mmheap_free (mark_used (fst b) (mem_copy r (fst b + 8) (unat (hp_size h1 (fst b))) h1)) (fst b + 8) = Some h2 \<and>
       heap_ok h2 R (insert (n, s) A) \<and> (\<forall>a :: u32. unat a \<notin> block_ext (n, s) \<longrightarrow> hp_mem h2 a = hp_mem h a) \<and>
       (\<forall>i < unat (snd b). hp_mem h2 (r + word_of_nat i) = hp_mem h (fst b + 8 + word_of_nat i))))"
proof -
  define m where "m = marked(b := snd b)"
  note un = unmark [OF ok(1) [unfolded heap_ok_def] ok(2)]
  have "heap_as m h0 R (insert b A)"
  proof -
    obtain F where F: "chain h0 R F" "tiles R (insert b (set F \<union> A))" "b \<notin> set F \<union> A" "set F \<inter> A = {}" "used marked h0 A"
      using un(1) by (auto simp: taken_def h0_def)
    then have "used m h0 (insert b A)" using un(3) ok(2) by (auto simp: used_def m_def h0_def)
    then show ?thesis unfolding heap_as_def heap_with_def using F by (intro exI [of _ F]) auto
  qed
  moreover have "m x = marked x" if "x \<notin> insert b A" for x using that by (simp add: m_def)
  ultimately obtain r h1 where r: "mmheap_align_alloc h0 8 w = Some (r, h1)"
    "r = 0 \<and> h1 = h0 \<or> (\<exists>n s. r = n + 8 \<and> heap_as m h1 R (insert (n, s) (insert b A)) \<and> (n, s) \<notin> insert b A \<and> w \<le> s \<and>
       r AND (max 8 8 - 1) = 0)"
    using align_alloc_ok [of m h0 R "insert b A" 8 w] by blast
  show ?thesis
  proof (cases "r = 0 \<and> h1 = h0")
    case True
    then show ?thesis using r(1) by (simp add: h0_def)
  next
    case False
    then obtain n s where n: "r = n + 8" "heap_as m h1 R (insert (n, s) (insert b A))" "(n, s) \<notin> insert b A" "w \<le> s"
      using r(2) by blast
    let ?A = "insert (n, s) A" and ?k = "unat (snd b)"
    have as: "heap_as m h1 R (insert b ?A)" "b \<notin> ?A" using n(2,3) ok(2) by (auto simp: insert_commute)
    note u1 = unmark [OF as]
    note u2 = unmark [OF n(2,3)]
    have sz: "hp_size h1 (fst b) = snd b" using u1(2) by (simp add: m_def)
    then have "taken m h1 R ?A b" using u1(1) by (simp add: set_size_def fun_upd_idem)
    let ?h = "mem_copy r (fst b + 8) ?k h1"
    have "taken marked ?h R ?A b"
      by (rule taken_cong [OF \<open>taken m h1 R ?A b\<close>]) (use as(2) in \<open>auto simp: same_headers_def m_def\<close>)
    then have "heap_ok (mark_used (fst b) ?h) R (insert b ?A)" using mark_used_ok by (simp add: heap_ok_def)
    then obtain h2 where h2: "mmheap_free (mark_used (fst b) ?h) (fst b + 8) = Some h2" "heap_ok h2 R ?A"
      using free_ok [of "mark_used (fst b) ?h" R b ?A] as(2) by blast
    have ks: "?k \<le> unat s" using w n(4) by (auto simp: word_le_nat_alt word_less_nat_alt)
    have "\<forall>i < ?k. hp_mem h2 (r + word_of_nat i) = hp_mem h (fst b + 8 + word_of_nat i)"
    proof (intro allI impI)
      fix i assume i: "i < ?k"
      have ap: "\<forall>j < ?k. \<forall>k < ?k. r + word_of_nat j \<noteq> fst b + 8 + word_of_nat k"
      proof (intro allI impI)
        fix j k assume "j < ?k" "k < ?k"
        then have "unat (r + word_of_nat j) \<in> block_ext (n, s)" "unat (fst b + 8 + word_of_nat k) \<in> block_ext b"
          using payload_addr(2) [of "(n, s)" j] payload_addr(2) [of b k] u1(6) u2(6) ks n(1) by auto
        then show "r + word_of_nat j \<noteq> fst b + 8 + word_of_nat k"
          using tiles_apart [OF as(1), of "(n, s)" b] as(2) by auto
      qed
      have "hp_mem h2 (r + word_of_nat i) = hp_mem ?h (r + word_of_nat i)" using free_mem [OF h2(1)] by simp
      also have "\<dots> = hp_mem h1 (fst b + 8 + word_of_nat i)"
        using un(4) by (intro mem_copy_get [OF i _ ap]) simp
      also have "\<dots> = hp_mem h (fst b + 8 + word_of_nat i)" using align_alloc_mem [OF r(1)] by (simp add: h0_def)
      finally show "hp_mem h2 (r + word_of_nat i) = hp_mem h (fst b + 8 + word_of_nat i)" .
    qed
    moreover have "\<forall>a :: u32. unat a \<notin> block_ext (n, s) \<longrightarrow> hp_mem h2 a = hp_mem h a"
    proof (intro allI impI)
      fix a :: u32 assume "unat a \<notin> block_ext (n, s)"
      then have "\<forall>i < ?k. a \<noteq> r + word_of_nat i"
        using payload_addr(2) [of "(n, s)"] u2(6) ks n(1) by fastforce
      then have "hp_mem ?h a = hp_mem h1 a" by (rule mem_copy_other)
      then show "hp_mem h2 a = hp_mem h a" using free_mem [OF h2(1)] align_alloc_mem [OF r(1)] by (simp add: h0_def)
    qed
    moreover have "r \<noteq> 0" using u2(5) n(1) by (metis add_is_0 fst_conv unat_0 zero_neq_numeral)
    ultimately show ?thesis using r(1) sz n(1,3,4) h2 by (intro exI [of _ r] exI [of _ h1]) auto
  qed
qed

text \<open>The result of \<open>mmheap_realloc\<close> on a block in use.\<close>

lemma realloc_ok:
  assumes ok: "heap_ok h R (insert b A)" "b \<notin> A" and w: "w \<noteq> 0"
  shows "\<exists>p h'. mmheap_realloc h (fst b + 8) w = Some (p, h') \<and>
    (p = 0 \<and> heap_ok h' R (insert b A) \<and> hp_mem h' = hp_mem h \<or>
     (\<exists>n s. p = n + 8 \<and> heap_ok h' R (insert (n, s) A) \<and> (n, s) \<notin> A \<and> w \<le> s \<and>
       (\<forall>a :: u32. unat a \<notin> block_ext (n, s) \<longrightarrow> hp_mem h' a = hp_mem h a) \<and>
       (\<forall>i < min (unat (snd b)) (unat w). hp_mem h' (p + word_of_nat i) = hp_mem h (fst b + 8 + word_of_nat i))))"
proof (cases "w AND ALLOCA_LABAL = 0")
  case False
  have "fst b + 8 \<noteq> 0" using unmark(5) [OF ok(1) [unfolded heap_ok_def] ok(2)] by (metis add_is_0 unat_0 zero_neq_numeral)
  then show ?thesis using False w ok(1) by (auto simp: mmheap_realloc_def)
next
  case True
  then have ws: "unat w < 2 ^ 31" by (rule label_clear)
  note un = unmark [OF ok(1) [unfolded heap_ok_def] ok(2)]
  have nz: "fst b + 8 \<noteq> 0" using un(5) by (metis add_is_0 unat_0 zero_neq_numeral)
  define h0 where "h0 = set_size (fst b) (snd b) h"
  have src: "mmheap_addr_sub (fst b + 8) = fst b" "mmheap_addr_add (fst b) = fst b + 8"
    by (simp_all add: mmheap_addr_sub_def mmheap_addr_add_def MEM_STRUCT_SIZE_def)
  have lab: "hp_size h (fst b) AND ALLOCA_LABAL \<noteq> 0" "hp_size h (fst b) AND NOT ALLOCA_LABAL = snd b"
    using un(2,4) label_facts [of "snd b"] by (simp_all add: marked_def)
  have mark: "heap_ok (mark_used (fst b) h0) R (insert b A)"
    using mark_used_ok [OF un(1)] by (simp add: h0_def heap_ok_def)
  show ?thesis
  proof (cases "w \<le> snd b")
    case fits: True
    then have "mmheap_realloc h (fst b + 8) w = Some (fst b + 8, mark_used (fst b) h0)"
      using nz w True lab by (simp add: mmheap_realloc_def src h0_def Let_def)
    then show ?thesis using mark ok(2) fits
      by (intro exI [of _ "fst b + 8"] exI [of _ "mark_used (fst b) h0"] conjI disjI2 exI [of _ "fst b"] exI [of _ "snd b"])
        (auto simp: h0_def)
  next
    case bigger: False
    then have bw: "snd b < w" by simp
    obtain p where p: "find_prev h0 (hp_start h0) (fst b) = Some p"
      and grow: "hp_next h0 p \<noteq> hp_end h0 \<longrightarrow> mmheap_addr_add (fst b) + snd b = hp_next h0 p \<longrightarrow>
      w \<le> snd b + hp_size h0 (hp_next h0 p) + 8 \<longrightarrow>
      (\<exists>h1 s. realloc_grow h0 (fst b) p (hp_next h0 p) w = Some h1 \<and> heap_ok h1 R (insert (fst b, s) A) \<and>
        (fst b, s) \<notin> A \<and> w \<le> s \<and> hp_mem h1 = hp_mem h)"
      using realloc_grow_ok [OF ok ws] by (auto simp: h0_def)
    define fits where "fits \<longleftrightarrow> hp_next h0 p \<noteq> hp_end h0 \<and> fst b + 8 + snd b = hp_next h0 p \<and>
      w \<le> snd b + hp_size h0 (hp_next h0 p) + 8"
    show ?thesis
    proof (cases fits)
      case True': True
      then obtain h1 s where h1: "realloc_grow h0 (fst b) p (hp_next h0 p) w = Some h1" "heap_ok h1 R (insert (fst b, s) A)"
        "(fst b, s) \<notin> A" "w \<le> s" "hp_mem h1 = hp_mem h"
        using grow src by (auto simp: fits_def)
      have "mmheap_realloc h (fst b + 8) w = Some (fst b + 8, h1)"
        using nz w True bigger lab p h1(1) True'
        by (simp add: mmheap_realloc_def src h0_def [symmetric] Let_def fits_def MEM_STRUCT_SIZE_def) (simp add: h0_def)
      then show ?thesis using h1
        by (intro exI [of _ "fst b + 8"] exI [of _ h1] conjI disjI2 exI [of _ "fst b"] exI [of _ s]) simp_all
    next
      case no: False
      obtain r h1 where r: "mmheap_align_alloc h0 8 w = Some (r, h1)" "hp_size h1 (fst b) = snd b"
        "r = 0 \<and> h1 = h0 \<or>
         (\<exists>n s h2. r = n + 8 \<and> r \<noteq> 0 \<and> (n, s) \<notin> A \<and> w \<le> s \<and>
           mmheap_free (mark_used (fst b) (mem_copy r (fst b + 8) (unat (hp_size h1 (fst b))) h1)) (fst b + 8) = Some h2 \<and>
           heap_ok h2 R (insert (n, s) A) \<and> (\<forall>a :: u32. unat a \<notin> block_ext (n, s) \<longrightarrow> hp_mem h2 a = hp_mem h a) \<and>
       (\<forall>i < unat (snd b). hp_mem h2 (r + word_of_nat i) = hp_mem h (fst b + 8 + word_of_nat i)))"
        using realloc_move_ok [OF ok bw] unfolding h0_def by blast
      have eq: "mmheap_realloc h (fst b + 8) w =
        (if r = 0 then Some (0, mark_used (fst b) h1)
         else case mmheap_free (mark_used (fst b) (mem_copy r (fst b + 8) (unat (hp_size h1 (fst b))) h1)) (fst b + 8) of
                None \<Rightarrow> None | Some h2 \<Rightarrow> Some (r, h2))"
      proof -
        have "(hp_next h0 p \<noteq> hp_end h0 \<and> fst b + 8 + hp_size h0 (fst b) = hp_next h0 p \<and>
            w \<le> hp_size h0 (fst b) + hp_size h0 (hp_next h0 p) + MEM_STRUCT_SIZE) = False"
          using no by (simp add: fits_def h0_def MEM_STRUCT_SIZE_def)
        moreover have "set_size (fst b) (hp_size h (fst b) AND NOT ALLOCA_LABAL) h = h0" by (simp add: h0_def lab(2))
        moreover have "\<not> w \<le> hp_size h0 (fst b)" using bigger by (simp add: h0_def)
        ultimately show ?thesis
          using nz w True lab(1) p r(1) unfolding mmheap_realloc_def src Let_def ALIGNMENT_BYTE_DEFAULT_def by (simp, blast)
      qed
      show ?thesis
      proof (cases "r = 0")
        case True
        then show ?thesis using eq mark r(3) by (auto simp: h0_def)
      next
        case False
        then obtain n s h2 where h2: "r = n + 8" "(n, s) \<notin> A" "w \<le> s"
          "mmheap_free (mark_used (fst b) (mem_copy r (fst b + 8) (unat (hp_size h1 (fst b))) h1)) (fst b + 8) = Some h2"
          "heap_ok h2 R (insert (n, s) A)" "\<forall>a :: u32. unat a \<notin> block_ext (n, s) \<longrightarrow> hp_mem h2 a = hp_mem h a"
          "\<forall>i < unat (snd b). hp_mem h2 (r + word_of_nat i) = hp_mem h (fst b + 8 + word_of_nat i)"
          using r(3) by blast
        then show ?thesis using eq False by (intro exI [of _ r] exI [of _ h2]) auto
      qed
    qed
  qed
qed

end
