(* ===== verification/MemRequests.thy ===== *)
theory MemRequests
  imports MemRealloc
begin

text \<open>
  What the memory manager promises its callers, for any sequence of requests: the contract of an
  allocator as the locale \<open>allocator\<close>, interpreted on the code's functions, and the properties.
\<close>

section \<open>A session of requests\<close>

datatype request = Malloc u32 | Free nat | Realloc nat u32

text \<open>
  The caller's side: the blocks it holds, as pointer and requested size.  \<open>Free i\<close> and
  \<open>Realloc i w\<close> pass the pointer of the \<open>i\<close>-th of them.
\<close>

definition drop_nth :: "nat \<Rightarrow> 'a list \<Rightarrow> 'a list" where
  "drop_nth i xs = take i xs @ drop (Suc i) xs"

definition hold :: "u32 \<Rightarrow> u32 \<Rightarrow> (u32 \<times> u32) list \<Rightarrow> (u32 \<times> u32) list" where
  "hold p w live = (if p = 0 then live else (p, w) # live)"

fun serve :: "('h \<Rightarrow> u32 \<Rightarrow> (u32 \<times> 'h) option) \<Rightarrow> ('h \<Rightarrow> u32 \<Rightarrow> 'h option) \<Rightarrow> ('h \<Rightarrow> u32 \<Rightarrow> u32 \<Rightarrow> (u32 \<times> 'h) option) \<Rightarrow>
    request \<Rightarrow> 'h \<times> (u32 \<times> u32) list \<Rightarrow> ('h \<times> (u32 \<times> u32) list) option" where
  "serve alloc free resize (Malloc w) (h, live) = map_option (\<lambda>(p, h'). (h', hold p w live)) (alloc h w)"
| "serve alloc free resize (Free i) (h, live) =
     (if i < length live then map_option (\<lambda>h'. (h', drop_nth i live)) (free h (fst (live ! i))) else Some (h, live))"
| "serve alloc free resize (Realloc i w) (h, live) =
     (if i < length live then
        map_option (\<lambda>(p, h'). (h', if w = 0 then drop_nth i live else if p = 0 then live else (p, w) # drop_nth i live))
          (resize h (fst (live ! i)) w)
      else Some (h, live))"

fun serve_all :: "('h \<Rightarrow> u32 \<Rightarrow> (u32 \<times> 'h) option) \<Rightarrow> ('h \<Rightarrow> u32 \<Rightarrow> 'h option) \<Rightarrow> ('h \<Rightarrow> u32 \<Rightarrow> u32 \<Rightarrow> (u32 \<times> 'h) option) \<Rightarrow>
    request list \<Rightarrow> 'h \<times> (u32 \<times> u32) list \<Rightarrow> ('h \<times> (u32 \<times> u32) list) option" where
  "serve_all alloc free resize [] st = Some st"
| "serve_all alloc free resize (r # rs) st = Option.bind (serve alloc free resize r st) (serve_all alloc free resize rs)"

definition payload :: "u32 \<times> u32 \<Rightarrow> nat set" where
  "payload b = {unat (fst b) ..< unat (fst b) + unat (snd b)}"

text \<open>The payloads held are pieces of \<open>R\<close>, and no two of them share a byte.\<close>

definition disjoint_payloads :: "nat set \<Rightarrow> (u32 \<times> u32) list \<Rightarrow> bool" where
  "disjoint_payloads R live \<longleftrightarrow> (\<forall>b \<in> set live. payload b \<subseteq> R) \<and>
     (\<forall>i < length live. \<forall>j < i. payload (live ! i) \<inter> payload (live ! j) = {})"

definition backed :: "u32 \<times> u32 \<Rightarrow> block \<Rightarrow> bool" where
  "backed l b \<longleftrightarrow> fst l = fst b + 8 \<and> snd l \<le> snd b"

locale allocator =
  fixes inv :: "'h \<Rightarrow> nat set \<Rightarrow> block set \<Rightarrow> bool"
    and alloc :: "'h \<Rightarrow> u32 \<Rightarrow> (u32 \<times> 'h) option"
    and free :: "'h \<Rightarrow> u32 \<Rightarrow> 'h option"
    and resize :: "'h \<Rightarrow> u32 \<Rightarrow> u32 \<Rightarrow> (u32 \<times> 'h) option"
  assumes alloc_law: "inv h R A \<Longrightarrow> \<exists>p h'. alloc h w = Some (p, h') \<and>
      (p = 0 \<and> h' = h \<or> (\<exists>b. p = fst b + 8 \<and> b \<notin> A \<and> w \<le> snd b \<and> inv h' R (insert b A)))"
    and free_law: "inv h R (insert b A) \<Longrightarrow> b \<notin> A \<Longrightarrow> \<exists>h'. free h (fst b + 8) = Some h' \<and> inv h' R A"
    and resize_law: "inv h R (insert b A) \<Longrightarrow> b \<notin> A \<Longrightarrow> w \<noteq> 0 \<Longrightarrow> \<exists>p h'. resize h (fst b + 8) w = Some (p, h') \<and>
      (p = 0 \<and> inv h' R (insert b A) \<or> (\<exists>b'. p = fst b' + 8 \<and> b' \<notin> A \<and> w \<le> snd b' \<and> inv h' R (insert b' A)))"
    and resize_zero: "p \<noteq> 0 \<Longrightarrow> resize h p 0 = map_option (Pair 0) (free h p)"
    and apart: "inv h R A \<Longrightarrow> x \<in> A \<Longrightarrow> y \<in> A \<Longrightarrow> x \<noteq> y \<Longrightarrow> block_ext x \<inter> block_ext y = {}"
    and inside: "inv h R A \<Longrightarrow> x \<in> A \<Longrightarrow> block_ext x \<subseteq> R"
    and no_wrap: "inv h R A \<Longrightarrow> x \<in> A \<Longrightarrow> unat (fst x + 8) = unat (fst x) + 8"
begin

text \<open>What the caller holds are the used blocks, each at least as large as was asked for.\<close>

definition serving :: "nat set \<Rightarrow> 'h \<times> (u32 \<times> u32) list \<Rightarrow> bool" where
  "serving R st \<longleftrightarrow> (\<exists>bs. inv (fst st) R (set bs) \<and> distinct bs \<and>
     list_all2 backed (snd st) bs)"

lemma addr_nz: "inv h R A \<Longrightarrow> x \<in> A \<Longrightarrow> fst x + 8 \<noteq> 0"
  using no_wrap [of h R A x] by (metis add_is_0 unat_0 zero_neq_numeral)

lemma serving_nth:
  assumes "serving R (h, live)" "i < length live"
  obtains b bs where "inv h R (insert b (set bs))" "b \<notin> set bs" "backed (live ! i) b" "distinct bs"
    "list_all2 backed (drop_nth i live) bs" "\<forall>h'. inv h' R (insert b (set bs)) \<longrightarrow> serving R (h', live)"
proof -
  obtain bs where bs: "inv h R (set bs)" "distinct bs" "list_all2 backed live bs" using assms(1) by (auto simp: serving_def)
  have len: "i < length bs" using bs(3) assms(2) by (simp add: list_all2_lengthD)
  then have split: "bs = take i bs @ bs ! i # drop (Suc i) bs" by (simp add: id_take_nth_drop)
  let ?bs = "drop_nth i bs"
  have "set bs = insert (bs ! i) (set ?bs)" unfolding drop_nth_def by (subst split) auto
  moreover have "distinct ?bs \<and> bs ! i \<notin> set ?bs"
  proof -
    have "distinct (take i bs @ bs ! i # drop (Suc i) bs)" using bs(2) split by simp
    then show ?thesis by (auto simp: drop_nth_def)
  qed
  moreover have "list_all2 backed (drop_nth i live) ?bs"
    unfolding drop_nth_def using bs(3) by (intro list_all2_appendI list_all2_takeI list_all2_dropI)
  moreover have "backed (live ! i) (bs ! i)" using list_all2_nthD [OF bs(3) assms(2)] .
  moreover have "serving R (h', live)" if "inv h' R (insert (bs ! i) (set ?bs))" for h'
    unfolding serving_def using bs(2,3) calculation(1) that by (intro exI [of _ bs]) simp
  ultimately show ?thesis using that [of "bs ! i" ?bs] bs(1) by simp
qed

lemma serve_ok:
  assumes "serving R st"
  shows "\<exists>st'. serve alloc free resize r st = Some st' \<and> serving R st'"
proof -
  obtain h live where st: "st = (h, live)" by (cases st)
  show ?thesis
  proof (cases r)
    case (Malloc w)
    obtain bs where bs: "inv h R (set bs)" "distinct bs" "list_all2 backed live bs"
      using assms by (auto simp: serving_def st)
    obtain p h' where a: "alloc h w = Some (p, h')"
      "p = 0 \<and> h' = h \<or> (\<exists>b. p = fst b + 8 \<and> b \<notin> set bs \<and> w \<le> snd b \<and> inv h' R (insert b (set bs)))"
      using alloc_law [OF bs(1)] by blast
    have "serving R (h', hold p w live)"
    proof (cases "p = 0 \<and> h' = h")
      case True
      then show ?thesis using assms by (simp add: hold_def st)
    next
      case False
      then obtain b where b: "p = fst b + 8" "b \<notin> set bs" "w \<le> snd b" "inv h' R (insert b (set bs))" using a(2) by blast
      have "p \<noteq> 0" using addr_nz [OF b(4)] b(1) by simp
      then show ?thesis using b bs unfolding serving_def by (intro exI [of _ "b # bs"]) (simp add: hold_def backed_def)
    qed
    then show ?thesis using a(1) by (simp add: Malloc st)
  next
    case (Free i)
    show ?thesis
    proof (cases "i < length live")
      case True
      obtain b bs where b: "inv h R (insert b (set bs))" "b \<notin> set bs" "backed (live ! i) b" "distinct bs"
        "list_all2 backed (drop_nth i live) bs" "\<forall>h'. inv h' R (insert b (set bs)) \<longrightarrow> serving R (h', live)"
        by (rule serving_nth [OF assms [unfolded st] True])
      obtain h' where h': "free h (fst b + 8) = Some h'" "inv h' R (set bs)" using free_law [OF b(1,2)] by blast
      have "serving R (h', drop_nth i live)" unfolding serving_def using h'(2) b(4,5) by (intro exI [of _ bs]) simp
      then show ?thesis using h'(1) b(3) True by (simp add: Free st backed_def)
    qed (use assms in \<open>simp add: Free st\<close>)
  next
    case (Realloc i w)
    show ?thesis
    proof (cases "i < length live")
      case True
      obtain b bs where b: "inv h R (insert b (set bs))" "b \<notin> set bs" "backed (live ! i) b" "distinct bs"
        "list_all2 backed (drop_nth i live) bs" "\<forall>h'. inv h' R (insert b (set bs)) \<longrightarrow> serving R (h', live)"
        by (rule serving_nth [OF assms [unfolded st] True])
      have at: "fst (live ! i) = fst b + 8" "fst b + 8 \<noteq> 0" using b(3) addr_nz [OF b(1)] by (simp_all add: backed_def)
      show ?thesis
      proof (cases "w = 0")
        case True
        obtain h' where h': "free h (fst b + 8) = Some h'" "inv h' R (set bs)" using free_law [OF b(1,2)] by blast
        have "serving R (h', drop_nth i live)" unfolding serving_def using h'(2) b(4,5) by (intro exI [of _ bs]) simp
        then show ?thesis using h'(1) at True \<open>i < length live\<close> by (simp add: Realloc st resize_zero)
      next
        case False
        obtain p h' where r: "resize h (fst b + 8) w = Some (p, h')" "p = 0 \<and> inv h' R (insert b (set bs)) \<or>
          (\<exists>b'. p = fst b' + 8 \<and> b' \<notin> set bs \<and> w \<le> snd b' \<and> inv h' R (insert b' (set bs)))"
          using resize_law [OF b(1,2) False] by blast
        have "serving R (h', if p = 0 then live else (p, w) # drop_nth i live)"
        proof (cases "p = 0")
          case True
          then have "inv h' R (insert b (set bs))" using r(2) addr_nz by (metis insertI1)
          then show ?thesis using b(6) True by simp
        next
          case False
          then obtain b' where b': "p = fst b' + 8" "b' \<notin> set bs" "w \<le> snd b'" "inv h' R (insert b' (set bs))" using r(2) by blast
          then show ?thesis using False b(4,5) unfolding serving_def by (intro exI [of _ "b' # bs"]) (simp add: backed_def)
        qed
        then show ?thesis using r(1) True False at by (cases "p = 0") (simp_all add: Realloc st)
      qed
    qed (use assms in \<open>simp add: Realloc st\<close>)
  qed
qed

lemma payload_inside:
  assumes "inv h R A" "b \<in> A" "backed l b"
  shows "payload l \<subseteq> block_ext b"
proof -
  have "fst l = fst b + 8" "snd l \<le> snd b" using assms(3) by (simp_all add: backed_def)
  moreover have "unat (fst b + 8) = unat (fst b) + 8" using no_wrap [OF assms(1,2)] .
  ultimately show ?thesis by (auto simp: payload_def block_ext_def word_le_nat_alt)
qed

text \<open>The blocks held besides the \<open>i\<close>-th one are backed by the other blocks in use.\<close>

lemma others_backed:
  assumes "list_all2 backed (drop_nth i live) bs" "j < length live" "j \<noteq> i"
  shows "\<exists>c \<in> set bs. backed (live ! j) c"
proof -
  have "live ! j \<in> set (drop_nth i live)"
  proof (cases "j < i")
    case True
    then have "live ! j = take i live ! j" "j < length (take i live)" using assms(2) by simp_all
    then show ?thesis unfolding drop_nth_def by (metis UnI1 nth_mem set_append)
  next
    case False
    then have "live ! j = drop (Suc i) live ! (j - Suc i)" "j - Suc i < length (drop (Suc i) live)" using assms(2,3) by simp_all
    then show ?thesis unfolding drop_nth_def by (metis UnI2 nth_mem set_append)
  qed
  then obtain k where k: "k < length (drop_nth i live)" "drop_nth i live ! k = live ! j" by (auto simp: in_set_conv_nth)
  have "backed (live ! j) (bs ! k)" using list_all2_nthD [OF assms(1) k(1)] k(2) by simp
  then show ?thesis using k(1) list_all2_lengthD [OF assms(1)] by (intro bexI [of _ "bs ! k"]) simp_all
qed

lemma serve_all_ok:
  "serving R st \<Longrightarrow> \<exists>st'. serve_all alloc free resize rs st = Some st' \<and> serving R st'"
proof (induction rs arbitrary: st)
  case (Cons r rs)
  obtain st1 where "serve alloc free resize r st = Some st1" "serving R st1" using serve_ok [OF Cons.prems] by blast
  then show ?case using Cons.IH [of st1] by simp
qed simp

lemma serving_payloads:
  assumes "serving R (h, live)"
  shows "disjoint_payloads R live"
proof -
  obtain bs where bs: "inv h R (set bs)" "distinct bs" "list_all2 backed live bs"
    using assms by (auto simp: serving_def)
  have len: "length live = length bs" using bs(3) by (rule list_all2_lengthD)
  have sub: "payload (live ! i) \<subseteq> block_ext (bs ! i)" if "i < length bs" for i
    using payload_inside [OF bs(1)] list_all2_nthD [OF bs(3), of i] that len by simp
  have "payload l \<subseteq> R" if "l \<in> set live" for l
  proof -
    obtain i where i: "i < length bs" "l = live ! i" using \<open>l \<in> set live\<close> len by (auto simp: in_set_conv_nth)
    show ?thesis using sub [OF i(1)] inside [OF bs(1), of "bs ! i"] i by fastforce
  qed
  moreover have "payload (live ! i) \<inter> payload (live ! j) = {}" if "i < length live" "j < i" for i j
  proof -
    have "bs ! i \<noteq> bs ! j" using bs(2) that len by (simp add: nth_eq_iff_index_eq)
    then have "block_ext (bs ! i) \<inter> block_ext (bs ! j) = {}" using that len by (intro apart [OF bs(1)]) auto
    moreover have "payload (live ! i) \<subseteq> block_ext (bs ! i)" "payload (live ! j) \<subseteq> block_ext (bs ! j)"
      using sub [of i] sub [of j] that len by simp_all
    ultimately show ?thesis by blast
  qed
  ultimately show ?thesis by (simp add: disjoint_payloads_def)
qed

theorem requests_safe:
  assumes "inv h R {}"
  shows "\<exists>h' live. serve_all alloc free resize rs (h, []) = Some (h', live) \<and> disjoint_payloads R live \<and> (live = [] \<longrightarrow> inv h' R {})"
proof -
  have "serving R (h, [])" using assms by (simp add: serving_def)
  then obtain st where st: "serve_all alloc free resize rs (h, []) = Some st" "serving R st" using serve_all_ok by blast
  then show ?thesis using serving_payloads [of R "fst st" "snd st"]
    by (intro exI [of _ "fst st"] exI [of _ "snd st"]) (auto simp: serving_def)
qed

end

section \<open>The memory manager serves requests\<close>

interpretation mmheap: allocator heap_ok mmheap_alloc mmheap_free mmheap_realloc
proof (unfold_locales, goal_cases)
  case (1 h R A w)
  then show ?case using align_alloc_ok [of marked h R A 8 w]
    unfolding mmheap_alloc_def ALIGNMENT_BYTE_DEFAULT_def heap_ok_def by fastforce
next
  case (2 h R b A)
  then show ?case by (rule free_ok)
next
  case (3 h R b A w)
  then show ?case using realloc_ok [of h R b A w] by fastforce
next
  case (4 p h)
  then show ?case by (simp add: mmheap_realloc_def split: option.splits)
next
  case (5 h R A x y)
  then show ?case unfolding heap_ok_def by (rule tiles_apart)
next
  case (6 h R A x)
  then show ?case by (auto simp: heap_ok_def heap_as_def heap_with_def dest: tiles_sub)
next
  case (7 h R A x)
  then show ?case using unmark(5) [of marked h R x "A - {x}"] by (simp add: heap_ok_def insert_absorb)
qed

text \<open>With nothing in use, the chain is one block that covers everything.\<close>

lemma all_free:
  assumes "heap_with m h {lo ..< hi} F {}" "lo < hi"
  shows "\<exists>b. F = [b] \<and> unat (fst b) = lo \<and> lo + 8 + unat (snd b) = hi"
proof -
  have t: "tiles {lo ..< hi} (set F)" and d: "distinct (map fst F)" and co: "coalesced (set F)"
    using assms(1) by (auto simp: heap_with_def chain_def distinct_map_fst_sorted)
  have in_R: "lo \<le> unat (fst x) \<and> unat (fst x) + 8 + unat (snd x) \<le> hi" if "x \<in> set F" for x
    using tiles_sub [OF t that] by (simp add: block_ext_def atLeastLessThan_subset_iff)
  have "lo \<in> \<Union> (block_ext ` set F)" using t assms(2) by (simp add: tiles_def)
  then obtain b where b: "b \<in> set F" "lo \<in> block_ext b" by blast
  have lo: "unat (fst b) = lo" using b in_R [OF b(1)] by (simp add: block_ext_def)
  have hi: "lo + 8 + unat (snd b) = hi"
  proof (rule ccontr)
    assume "lo + 8 + unat (snd b) \<noteq> hi"
    then have "lo + 8 + unat (snd b) \<in> {lo ..< hi}" using in_R [OF b(1)] lo by simp
    then have "lo + 8 + unat (snd b) \<in> \<Union> (block_ext ` set F)" using t by (simp add: tiles_def)
    then obtain y where y: "y \<in> set F" "lo + 8 + unat (snd b) \<in> block_ext y" by blast
    have "unat (fst y) \<notin> block_ext b"
    proof
      assume "unat (fst y) \<in> block_ext b"
      then have "y = b" using tiles_inside [OF t b(1)] y(1) by blast
      then show False using y(2) lo by (simp add: block_ext_def)
    qed
    then have "unat (fst y) = lo + 8 + unat (snd b)" using y(2) in_R [OF y(1)] lo by (simp add: block_ext_def)
    then have "adjacent b y" using lo by (simp add: adjacent_def)
    then show False using co b(1) y(1) by (simp add: coalesced_def)
  qed
  have same: "x = b" if "x \<in> set F" for x
    using tiles_inside [OF t b(1) _ that] in_R [OF that] lo hi by (simp add: block_ext_def)
  have "F = [b]"
  proof (cases F)
    case (Cons x F')
    then have "x = b" using same by simp
    moreover have "F' = []"
    proof (rule ccontr)
      assume "F' \<noteq> []"
      then have "hd F' \<in> set F'" by simp
      then have "fst (hd F') = fst x" using same [of "hd F'"] same [of x] Cons by simp
      then have "fst x \<in> set (map fst F')" using \<open>hd F' \<in> set F'\<close> by (metis image_eqI set_map)
      then show False using d Cons by simp
    qed
    ultimately show ?thesis using Cons by simp
  qed (use b in simp)
  then show ?thesis using lo hi by simp
qed

lemma state_scan_end: "hp_next h n = 0 \<Longrightarrow> state_scan h n st = Some st"
  by (subst state_scan.simps) simp

lemma state_scan_node:
  "hp_next h n \<noteq> 0 \<Longrightarrow> state_scan h n st = state_scan h (hp_next h n)
     (st\<lparr>hs_remain := hs_remain st + hp_size h n, hs_nodes := hs_nodes st + 1,
         hs_max := (if hp_size h n > hs_max st then hp_size h n else hs_max st),
         hs_min := (if hp_size h n < hs_min st then hp_size h n else hs_min st)\<rparr>)"
  by (subst state_scan.simps) simp

lemma state_all_free:
  assumes "heap_ok h {lo ..< hi} {}" "lo < hi"
  shows "\<exists>k. unat k = hi - lo - 8 \<and> mmheap_get_state h = Some \<lparr>hs_remain = k, hs_nodes = 1, hs_max = k, hs_min = k\<rparr>"
proof -
  obtain F where F: "heap_with marked h {lo ..< hi} F {}" using assms(1) by (auto simp: heap_ok_def heap_as_def)
  obtain b where b: "F = [b]" "unat (fst b) = lo" "lo + 8 + unat (snd b) = hi" using all_free [OF F assms(2)] by blast
  have p: "hp_next h (hp_start h) = fst b" "hp_size h (fst b) = snd b" "hp_next h (fst b) = hp_end h" "hp_next h (hp_end h) = 0"
    using F b(1) by (auto simp: heap_with_def chain_def)
  have "{lo ..< hi} \<subseteq> {unat (hp_start h) + 8 ..< unat (hp_end h)}" using F by (simp add: heap_with_def chain_def)
  then have "hp_end h \<noteq> 0" using assms(2) by auto
  then have "mmheap_get_state h = Some \<lparr>hs_remain = snd b, hs_nodes = 1, hs_max = snd b, hs_min = snd b\<rparr>"
    by (simp add: mmheap_get_state_def Let_def p state_scan_node state_scan_end)
  then show ?thesis using b(3) by (intro exI [of _ "snd b"]) simp
qed

text \<open>The size of a \<open>calloc\<close> wraps: a request for 4 GiB and more can be served with a small block.\<close>

lemma mmheap_calloc_wraps: "mmheap_calloc h 0x10000 0x10001 = mmheap_calloc h 0x10000 1"
proof -
  have "(0x10000 * 0x10001 :: u32) = 0x10000" "(0x10001 * 0x10000 :: u32) = 0x10000" by (simp_all add: word_uint_eq_iff)
  then show ?thesis unfolding mmheap_calloc_def by (simp only: mult_1_left mult_1_right)
qed

section \<open>Properties\<close>

text \<open>Where the heap of one region lies: the start and the end node take their part.\<close>

definition heap_range :: "u32 \<Rightarrow> u32 \<Rightarrow> nat set" where
  "heap_range addr n = {unat (mmheap_align_up addr 8) + 8 ..< unat (mmheap_align_down (addr + n - 8) 8)}"

text \<open>Cleared memory, and the heap that \<open>mmheap_init\<close> makes of 4096 bytes of it.\<close>

definition empty_heap :: heap where
  "empty_heap = \<lparr>hp_next = \<lambda>_. 0, hp_size = \<lambda>_. 0, hp_mem = \<lambda>_. 0, hp_start = 0, hp_end = 0, hp_total = 0\<rparr>"

definition boot_heap :: heap where
  "boot_heap = \<lparr>hp_next = (\<lambda>_. 0)(0x42018000 := 0x42018008, 0x42018008 := 0x42018FF8, 0x42018FF8 := 0),
     hp_size = (\<lambda>_. 0)(0x42018000 := 0, 0x42018008 := 4072, 0x42018FF8 := 0), hp_mem = \<lambda>_. 0,
     hp_start = 0x42018000, hp_end = 0x42018FF8, hp_total = 4072\<rparr>"

lemmas heap_eval = mmheap_alloc_def mmheap_align_alloc_def mmheap_free_def mmheap_realloc_def realloc_grow_def
  alloc_scan.simps find_prev.simps alloc_rest_def mark_used_def merge_prev_def merge_next_def mmheap_insert_node_to_freelist_def
  mmheap_sizes ALLOCA_LABAL_def mmheap_align_up_def mmheap_align_down_def mmheap_addr_add_def mmheap_addr_sub_def set_next_def set_size_def

lemma boot_heap_init: "mmheap_init [(0x42018000, 0x1000)] empty_heap = Some boot_heap"
  by (simp add: mmheap_init_def init_region_def init_end_def empty_heap_def boot_heap_def heap_eval Let_def)

text \<open>
  C13: Whatever sequence of \<open>malloc\<close>, \<open>free\<close> and \<open>realloc\<close> calls follows the initialisation of a heap,
  every call returns; the blocks the caller holds at the end lie inside the region (8 bytes above
  its start and below its end), and no two of them share a byte.
\<close>
theorem mmheap_requests_safe:
  assumes "addr \<noteq> 0" "unat addr + unat n < 2 ^ 32" "64 \<le> unat n" "unat n < 2 ^ 31"
  shows "\<exists>h0. mmheap_init [(addr, n)] h = Some h0 \<and>
    (\<forall>rs. \<exists>h' live. serve_all mmheap_alloc mmheap_free mmheap_realloc rs (h0, []) = Some (h', live) \<and>
      disjoint_payloads {unat addr + 8 ..< unat addr + unat n - 8} live)"
proof -
  obtain h0 where h0: "mmheap_init [(addr, n)] h = Some h0" "heap_ok h0 (heap_range addr n) {}"
    "heap_range addr n \<subseteq> {unat addr + 8 ..< unat addr + unat n - 8}"
    using init_ok [OF assms, of h] by (auto simp: heap_range_def)
  then show ?thesis using mmheap.requests_safe [OF h0(2)]
    by (intro exI [of _ h0]) (meson disjoint_payloads_def order_trans)
qed

theorem mmheap_requests_safe_witness:
  "\<exists>h0. mmheap_init [(0x42018000, 0x1000)] empty_heap = Some h0 \<and>
    (\<forall>rs. \<exists>h' live. serve_all mmheap_alloc mmheap_free mmheap_realloc rs (h0, []) = Some (h', live) \<and>
      disjoint_payloads {unat (0x42018000 :: u32) + 8 ..< unat (0x42018000 :: u32) + unat (0x1000 :: u32) - 8} live)"
  by (rule mmheap_requests_safe) simp_all

text \<open>
  C14: No request leaks memory or leaves the heap in pieces: once the caller holds nothing any more, the
  heap is a single free block again that has all of \<open>total_size\<close>, and \<open>mmheap_get_state\<close> reports that.
\<close>
theorem mmheap_no_leak:
  assumes "addr \<noteq> 0" "unat addr + unat n < 2 ^ 32" "64 \<le> unat n" "unat n < 2 ^ 31"
    and init: "mmheap_init [(addr, n)] h = Some h0"
    and run: "serve_all mmheap_alloc mmheap_free mmheap_realloc rs (h0, []) = Some (h', [])"
  shows "mmheap_get_state h' = Some \<lparr>hs_remain = hp_total h0, hs_nodes = 1, hs_max = hp_total h0, hs_min = hp_total h0\<rparr>"
proof -
  let ?lo = "unat (mmheap_align_up addr 8) + 8" and ?hi = "unat (mmheap_align_down (addr + n - 8) 8)"
  have h0: "heap_ok h0 {?lo ..< ?hi} {}" "?lo < ?hi" "unat (hp_total h0) = ?hi - ?lo - 8"
    using init_ok [OF assms(1-4), of h] init by auto
  have "heap_ok h' {?lo ..< ?hi} {}" using mmheap.requests_safe [OF h0(1), of rs] run by simp
  then obtain k where "unat k = ?hi - ?lo - 8"
    "mmheap_get_state h' = Some \<lparr>hs_remain = k, hs_nodes = 1, hs_max = k, hs_min = k\<rparr>"
    using state_all_free [OF _ h0(2)] by blast
  then show ?thesis using h0(3) by (metis word_unat_eq_iff)
qed

theorem mmheap_no_leak_witness:
  "\<exists>h'. serve_all mmheap_alloc mmheap_free mmheap_realloc [Malloc 100, Malloc 40, Realloc 1 200, Free 1, Free 0] (boot_heap, []) =
      Some (h', []) \<and>
    mmheap_get_state h' = Some \<lparr>hs_remain = 4072, hs_nodes = 1, hs_max = 4072, hs_min = 4072\<rparr>"
proof -
  let ?rs = "[Malloc 100, Malloc 40, Realloc 1 200, Free 1, Free 0]"
  obtain h' where run: "serve_all mmheap_alloc mmheap_free mmheap_realloc ?rs (boot_heap, []) = Some (h', [])"
    by (simp add: boot_heap_def heap_eval Let_def hold_def drop_nth_def)
  have "hp_total boot_heap = 4072" by (simp add: boot_heap_def)
  then show ?thesis using mmheap_no_leak [OF _ _ _ _ boot_heap_init run] run by simp
qed

text \<open>
  C24: \<open>realloc\<close> on a block that the caller holds either fails and leaves every byte of memory alone, or
  returns a block that starts with the contents of the old one (as far as both reach), and no other
  block of the caller is touched.
\<close>
theorem mmheap_realloc_keeps:
  assumes "addr \<noteq> 0" "unat addr + unat n < 2 ^ 32" "64 \<le> unat n" "unat n < 2 ^ 31"
    and init: "mmheap_init [(addr, n)] h = Some h0"
    and run: "serve_all mmheap_alloc mmheap_free mmheap_realloc rs (h0, []) = Some (h1, live)"
    and i: "i < length live" "w \<noteq> 0"
  shows "\<exists>p h2. mmheap_realloc h1 (fst (live ! i)) w = Some (p, h2) \<and>
    (p = 0 \<longrightarrow> hp_mem h2 = hp_mem h1) \<and>
    (p \<noteq> 0 \<longrightarrow> (\<forall>k < min (unat (snd (live ! i))) (unat w).
        hp_mem h2 (p + word_of_nat k) = hp_mem h1 (fst (live ! i) + word_of_nat k)) \<and>
      (\<forall>j < length live. j \<noteq> i \<longrightarrow> (\<forall>a. unat a \<in> payload (live ! j) \<longrightarrow> hp_mem h2 a = hp_mem h1 a)))"
proof -
  let ?R = "heap_range addr n" and ?l = "live ! i"
  have "heap_ok h0 ?R {}" using init_ok [OF assms(1-4), of h] init by (auto simp: heap_range_def)
  then have "mmheap.serving ?R (h0, [])" by (simp add: mmheap.serving_def)
  then have "mmheap.serving ?R (h1, live)" using mmheap.serve_all_ok [of ?R "(h0, [])" rs] run by simp
  then obtain b bs where b: "heap_ok h1 ?R (insert b (set bs))" "b \<notin> set bs" "backed ?l b" "distinct bs"
    "list_all2 backed (drop_nth i live) bs"
    using mmheap.serving_nth [OF _ i(1)] by metis
  have l: "fst ?l = fst b + 8" "snd ?l \<le> snd b" using b(3) by (simp_all add: backed_def)
  obtain p h2 where r: "mmheap_realloc h1 (fst b + 8) w = Some (p, h2)"
    "p = 0 \<and> heap_ok h2 ?R (insert b (set bs)) \<and> hp_mem h2 = hp_mem h1 \<or>
     (\<exists>m s. p = m + 8 \<and> heap_ok h2 ?R (insert (m, s) (set bs)) \<and> (m, s) \<notin> set bs \<and> w \<le> s \<and>
       (\<forall>a :: u32. unat a \<notin> block_ext (m, s) \<longrightarrow> hp_mem h2 a = hp_mem h1 a) \<and>
       (\<forall>k < min (unat (snd b)) (unat w). hp_mem h2 (p + word_of_nat k) = hp_mem h1 (fst b + 8 + word_of_nat k)))"
    using realloc_ok [OF b(1,2) i(2)] by blast
  show ?thesis
  proof (cases "p = 0")
    case True
    moreover have "m + 8 \<noteq> 0" if "heap_ok h2 ?R (insert (m, s) (set bs))" for m s
      using mmheap.addr_nz [OF that, of "(m, s)"] by simp
    ultimately have "hp_mem h2 = hp_mem h1" using r(2) by metis
    then show ?thesis using r(1) l(1) True by (intro exI [of _ p] exI [of _ h2]) simp
  next
    case False
    then obtain m s where ms: "heap_ok h2 ?R (insert (m, s) (set bs))" "(m, s) \<notin> set bs"
      "\<forall>a :: u32. unat a \<notin> block_ext (m, s) \<longrightarrow> hp_mem h2 a = hp_mem h1 a"
      "\<forall>k < min (unat (snd b)) (unat w). hp_mem h2 (p + word_of_nat k) = hp_mem h1 (fst b + 8 + word_of_nat k)"
      using r(2) by blast
    have "hp_mem h2 a = hp_mem h1 a" if j: "j < length live" "j \<noteq> i" and a: "unat a \<in> payload (live ! j)" for j and a :: u32
    proof -
      obtain c where c: "c \<in> set bs" "backed (live ! j) c" using mmheap.others_backed [OF b(5) j] by blast
      have "unat a \<in> block_ext c" using mmheap.payload_inside [OF b(1) _ c(2)] c(1) a by blast
      moreover have "block_ext c \<inter> block_ext (m, s) = {}" using c(1) ms(2) by (intro mmheap.apart [OF ms(1)]) auto
      ultimately show ?thesis using ms(3) by blast
    qed
    moreover have "\<forall>k < min (unat (snd ?l)) (unat w). hp_mem h2 (p + word_of_nat k) = hp_mem h1 (fst ?l + word_of_nat k)"
      using ms(4) l by (auto simp: word_le_nat_alt)
    ultimately show ?thesis using r(1) l(1) False by (intro exI [of _ p] exI [of _ h2]) simp
  qed
qed


theorem mmheap_realloc_keeps_witness:
  "\<exists>h1 p h2. serve_all mmheap_alloc mmheap_free mmheap_realloc [Malloc 100, Malloc 40] (boot_heap, []) =
      Some (h1, [(0x42018080, 40), (0x42018010, 100)]) \<and>
    mmheap_realloc h1 0x42018010 200 = Some (p, h2) \<and> (p = 0 \<longrightarrow> hp_mem h2 = hp_mem h1) \<and>
    (p \<noteq> 0 \<longrightarrow> (\<forall>k < 100. hp_mem h2 (p + word_of_nat k) = hp_mem h1 (0x42018010 + word_of_nat k)))"
proof -
  obtain h1 where run: "serve_all mmheap_alloc mmheap_free mmheap_realloc [Malloc 100, Malloc 40] (boot_heap, []) =
      Some (h1, [(0x42018080, 40), (0x42018010, 100)])"
    by (simp add: boot_heap_def heap_eval Let_def hold_def drop_nth_def)
  from mmheap_realloc_keeps [OF _ _ _ _ boot_heap_init run, of 1 200] obtain p h2 where
    "mmheap_realloc h1 0x42018010 200 = Some (p, h2)" "p = 0 \<longrightarrow> hp_mem h2 = hp_mem h1"
    "p \<noteq> 0 \<longrightarrow> (\<forall>k < 100. hp_mem h2 (p + word_of_nat k) = hp_mem h1 (0x42018010 + word_of_nat k))" by auto
  then show ?thesis using run by blast
qed

end
