(* ===== verification/SList.thy ===== *)
theory SList
  imports Prelude
begin

text \<open>
  \<open>common/list/drv_list.h\<close>: the singly linked list.  The links are a map from addresses, 0 is the end;
  the list node \<open>l\<close> itself is not an element.  An access through a null pointer is \<open>None\<close>.
\<close>

section \<open>Operations\<close>

type_synonym slist_node = "u32 \<Rightarrow> u32"

definition slist_init :: "u32 \<Rightarrow> slist_node \<Rightarrow> slist_node" where
  "slist_init l nx = nx(l := 0)"

definition slist_add_head :: "u32 \<Rightarrow> u32 \<Rightarrow> slist_node \<Rightarrow> slist_node" where
  "slist_add_head l n nx = (let nx1 = nx(n := nx l) in nx1(l := n))"

partial_function (option) slist_tail :: "slist_node \<Rightarrow> u32 \<Rightarrow> u32 option" where
  "slist_tail nx l = (if nx l \<noteq> 0 then slist_tail nx (nx l) else Some l)"

definition slist_add_tail :: "u32 \<Rightarrow> u32 \<Rightarrow> slist_node \<Rightarrow> slist_node option" where
  "slist_add_tail l n nx =
     (if l = 0 then None
      else case slist_tail nx l of None \<Rightarrow> None | Some t \<Rightarrow> Some ((nx(t := n))(n := 0)))"

partial_function (option) insert_loop :: "u32 \<Rightarrow> u32 \<Rightarrow> u32 \<Rightarrow> slist_node \<Rightarrow> slist_node option" where
  "insert_loop nxt n l nx =
     (if nx l \<noteq> 0 then
        (let nx1 = (if nx l = nxt then (nx(l := n))(n := nxt) else nx) in insert_loop nxt n (nx1 l) nx1)
      else Some nx)"

definition slist_insert :: "u32 \<Rightarrow> u32 \<Rightarrow> u32 \<Rightarrow> slist_node \<Rightarrow> slist_node option" where
  "slist_insert l nxt n nx = (if nxt = 0 then slist_add_tail nxt l nx else insert_loop nxt n l nx)"

partial_function (option) slist_before :: "slist_node \<Rightarrow> u32 \<Rightarrow> u32 \<Rightarrow> u32 option" where
  "slist_before nx n l = (if nx l \<noteq> 0 \<and> nx l \<noteq> n then slist_before nx n (nx l) else Some l)"

definition slist_remove :: "u32 \<Rightarrow> u32 \<Rightarrow> slist_node \<Rightarrow> (u32 \<times> slist_node) option" where
  "slist_remove l n nx =
     (case slist_before nx n l of
        None \<Rightarrow> None
      | Some p \<Rightarrow> Some (p, if nx p \<noteq> 0 then nx(p := nx (nx p)) else nx))"

partial_function (option) slist_count :: "slist_node \<Rightarrow> u32 \<Rightarrow> u32 \<Rightarrow> u32 option" where
  "slist_count nx p len = (if p \<noteq> 0 then slist_count nx (nx p) (len + 1) else Some len)"

definition slist_len :: "u32 \<Rightarrow> slist_node \<Rightarrow> u32 option" where
  "slist_len l nx = slist_count nx (nx l) 0"

partial_function (option) slist_contains :: "slist_node \<Rightarrow> u32 \<Rightarrow> u32 \<Rightarrow> u32 option" where
  "slist_contains nx n l = (if nx l \<noteq> 0 then (if nx l = n then Some 0 else slist_contains nx n (nx l)) else Some 1)"

definition slist_head :: "u32 \<Rightarrow> slist_node \<Rightarrow> u32" where "slist_head l nx = nx l"
definition slist_next :: "u32 \<Rightarrow> slist_node \<Rightarrow> u32" where "slist_next n nx = nx n"
definition slist_isempty :: "u32 \<Rightarrow> slist_node \<Rightarrow> bool" where "slist_isempty l nx \<longleftrightarrow> nx l = 0"

section \<open>Lists of nodes\<close>

fun chained :: "slist_node \<Rightarrow> u32 \<Rightarrow> u32 list \<Rightarrow> u32 \<Rightarrow> bool" where
  "chained nx a [] b \<longleftrightarrow> nx a = b"
| "chained nx a (x # xs) b \<longleftrightarrow> nx a = x \<and> chained nx x xs b"

definition slist :: "slist_node \<Rightarrow> u32 \<Rightarrow> u32 list \<Rightarrow> bool" where
  "slist nx l xs \<longleftrightarrow> chained nx l xs 0 \<and> distinct (l # xs) \<and> 0 \<notin> set (l # xs)"

lemma chained_append: "chained nx a (xs @ x # ys) b \<longleftrightarrow> chained nx a xs x \<and> chained nx x ys b"
  by (induction xs arbitrary: a) auto

lemma chained_upd: "z \<notin> insert a (set xs) \<Longrightarrow> chained (nx(z := v)) a xs b \<longleftrightarrow> chained nx a xs b"
  by (induction xs arbitrary: a) auto

lemma slist_init_empty: "l \<noteq> 0 \<Longrightarrow> slist (slist_init l nx) l []"
  by (simp add: slist_def slist_init_def)

lemma slist_isempty_iff: "slist nx l xs \<Longrightarrow> slist_isempty l nx \<longleftrightarrow> xs = []"
  by (cases xs) (auto simp: slist_def slist_isempty_def)

lemma slist_add_head_list:
  "slist nx l xs \<Longrightarrow> n \<notin> set (l # xs) \<Longrightarrow> n \<noteq> 0 \<Longrightarrow> slist (slist_add_head l n nx) l (n # xs)"
  by (cases xs) (auto simp: slist_def slist_add_head_def chained_upd)

lemma slist_tail_last: "chained nx a xs 0 \<Longrightarrow> 0 \<notin> set xs \<Longrightarrow> slist_tail nx a = Some (last (a # xs))"
proof (induction xs arbitrary: a)
  case Nil
  then show ?case by (subst slist_tail.simps) simp
next
  case (Cons x xs)
  then show ?case by (subst slist_tail.simps) auto
qed

lemma slist_add_tail_list:
  assumes "slist nx l xs" "n \<notin> set (l # xs)" "n \<noteq> 0"
  shows "\<exists>nx'. slist_add_tail l n nx = Some nx' \<and> slist nx' l (xs @ [n])"
proof -
  have "chained nx l xs 0" and d: "distinct (l # xs)" "l \<noteq> 0" "0 \<notin> set xs" using assms(1) by (auto simp: slist_def)
  then have t: "slist_tail nx l = Some (last (l # xs))" by (intro slist_tail_last)
  have "slist ((nx(last (l # xs) := n))(n := 0)) l (xs @ [n])"
  proof (cases xs rule: rev_cases)
    case Nil
    then show ?thesis using assms d by (auto simp: slist_def)
  next
    case (snoc ys y)
    then show ?thesis using assms d by (auto simp: slist_def chained_append chained_upd)
  qed
  then show ?thesis using t d by (simp add: slist_add_tail_def)
qed

lemma insert_loop_past:
  "chained nx a xs 0 \<Longrightarrow> nxt \<notin> set xs \<Longrightarrow> 0 \<notin> set xs \<Longrightarrow> insert_loop nxt n a nx = Some nx"
proof (induction xs arbitrary: a)
  case Nil
  then show ?case by (subst insert_loop.simps) simp
next
  case (Cons x xs)
  then show ?case by (subst insert_loop.simps) auto
qed

text \<open>After the insertion the loop goes over the new node too, and writes its link again.\<close>

lemma insert_loop_list:
  "chained nx a (xs @ y # ys) 0 \<Longrightarrow> distinct (a # xs @ y # ys) \<Longrightarrow> 0 \<notin> set (a # xs @ y # ys) \<Longrightarrow> n \<noteq> 0 \<Longrightarrow>
    n \<notin> set (a # xs @ y # ys) \<Longrightarrow>
    insert_loop y n a nx = Some ((nx(last (a # xs) := n))(n := y))"
proof (induction xs arbitrary: a)
  case Nil
  let ?nx = "(nx(a := n))(n := y)"
  have y: "nx a = y" "y \<noteq> 0" "chained nx y ys 0" using Nil by auto
  have "chained ?nx y ys 0" using Nil by (simp add: chained_upd)
  then have "insert_loop y n y ?nx = Some ?nx" using Nil by (intro insert_loop_past) auto
  moreover have "?nx(n := n, n := y) = ?nx" by simp
  then have "insert_loop y n n ?nx = insert_loop y n y ?nx" using y by (subst insert_loop.simps) simp
  moreover have "insert_loop y n a nx = insert_loop y n n ?nx" using y Nil by (subst insert_loop.simps) (auto simp: Let_def)
  ultimately have "insert_loop y n a nx = Some ?nx" by simp
  then show ?case by (metis last_ConsL)
next
  case (Cons x xs)
  then have "nx a = x" "x \<noteq> 0" "x \<noteq> y" by auto
  then have "insert_loop y n a nx = insert_loop y n x nx" by (subst insert_loop.simps) simp
  then show ?case using Cons by simp
qed

lemma slist_insert_list:
  assumes "slist nx l (xs @ y # ys)" "n \<notin> set (l # xs @ y # ys)" "n \<noteq> 0"
  shows "\<exists>nx'. slist_insert l y n nx = Some nx' \<and> slist nx' l (xs @ n # y # ys)"
proof -
  have l: "chained nx l (xs @ y # ys) 0" "distinct (l # xs @ y # ys)" "0 \<notin> set (l # xs @ y # ys)" "y \<noteq> 0"
    using assms(1) by (auto simp: slist_def)
  have "slist ((nx(last (l # xs) := n))(n := y)) l (xs @ n # y # ys)"
    using l assms(2,3) by (cases xs rule: rev_cases) (auto simp: slist_def chained_append chained_upd)
  then show ?thesis using insert_loop_list [OF l(1-3) assms(3,2)] l(4) by (simp add: slist_insert_def)
qed

lemma slist_before_list:
  "chained nx a xs 0 \<Longrightarrow> 0 \<notin> set xs \<Longrightarrow> slist_before nx n a = Some (last (a # takeWhile (\<lambda>x. x \<noteq> n) xs))"
proof (induction xs arbitrary: a)
  case Nil
  then show ?case by (subst slist_before.simps) simp
next
  case (Cons x xs)
  then show ?case by (subst slist_before.simps) auto
qed

lemma slist_remove_list:
  assumes "slist nx l (xs @ n # ys)"
  shows "\<exists>p nx'. slist_remove l n nx = Some (p, nx') \<and> slist nx' l (xs @ ys)"
proof -
  have l: "chained nx l (xs @ n # ys) 0" "distinct (l # xs @ n # ys)" "0 \<notin> set (l # xs @ n # ys)" using assms by (simp_all add: slist_def)
  have "takeWhile (\<lambda>x. x \<noteq> n) (xs @ n # ys) = xs" using l(2) by (subst takeWhile_append2) auto
  then have p: "slist_before nx n l = Some (last (l # xs))" using slist_before_list [OF l(1), of n] l(3) by simp
  have "nx (last (l # xs)) = n" "n \<noteq> 0" using l by (cases xs rule: rev_cases; auto simp: chained_append)+
  moreover have "slist (nx(last (l # xs) := nx n)) l (xs @ ys)"
    using l by (cases xs rule: rev_cases; cases ys) (auto simp: slist_def chained_append chained_upd)
  ultimately show ?thesis using p by (simp add: slist_remove_def)
qed

lemma slist_count_list: "chained nx a xs 0 \<Longrightarrow> 0 \<notin> set xs \<Longrightarrow> slist_count nx (nx a) k = Some (k + word_of_nat (length xs))"
proof (induction xs arbitrary: a k)
  case Nil
  then show ?case by (subst slist_count.simps) simp
next
  case (Cons x xs)
  then show ?case by (subst slist_count.simps) (auto simp: add.assoc add.commute)
qed

lemma slist_len_list: "slist nx l xs \<Longrightarrow> slist_len l nx = Some (word_of_nat (length xs))"
  using slist_count_list [of nx l xs 0] by (simp add: slist_len_def slist_def)

text \<open>\<open>slist_contains\<close> answers 0 for yes.\<close>

lemma slist_contains_list:
  "chained nx a xs 0 \<Longrightarrow> 0 \<notin> set xs \<Longrightarrow> slist_contains nx n a = Some (if n \<in> set xs then 0 else 1)"
proof (induction xs arbitrary: a)
  case Nil
  then show ?case by (subst slist_contains.simps) simp
next
  case (Cons x xs)
  then show ?case by (subst slist_contains.simps) auto
qed

text \<open>With a null successor the node should go to the end, but the pointers are handed on the wrong way round.\<close>

lemma slist_insert_null: "slist_insert l 0 n nx = None"
  by (simp add: slist_insert_def slist_add_tail_def)

end
