(* ===== verification/DList.thy ===== *)
theory DList
  imports Prelude
begin

text \<open>
  \<open>common/list/drv_list.h\<close>: the circular doubly linked list that device structures are chained in.
  Nodes are addresses; the two links are maps from addresses.  \<open>dlist\<close> says that a head node and
  the nodes \<open>xs\<close> form a list; every operation is shown to act on \<open>xs\<close> as the list function it stands for.
\<close>

section \<open>Operations\<close>

record dlist_node =
  dl_next :: "u32 \<Rightarrow> u32"
  dl_prev :: "u32 \<Rightarrow> u32"

definition link_next :: "u32 \<Rightarrow> u32 \<Rightarrow> dlist_node \<Rightarrow> dlist_node" where
  "link_next a v s = s\<lparr>dl_next := (dl_next s)(a := v)\<rparr>"

definition link_prev :: "u32 \<Rightarrow> u32 \<Rightarrow> dlist_node \<Rightarrow> dlist_node" where
  "link_prev a v s = s\<lparr>dl_prev := (dl_prev s)(a := v)\<rparr>"

lemma link_simps [simp]:
  "dl_next (link_next a v s) = (dl_next s)(a := v)" "dl_next (link_prev a v s) = dl_next s"
  "dl_prev (link_prev a v s) = (dl_prev s)(a := v)" "dl_prev (link_next a v s) = dl_prev s"
  by (simp_all add: link_next_def link_prev_def)

definition dlist_init :: "u32 \<Rightarrow> dlist_node \<Rightarrow> dlist_node" where
  "dlist_init l s = link_next l l (link_prev l l s)"

definition dlist_insert_after :: "u32 \<Rightarrow> u32 \<Rightarrow> dlist_node \<Rightarrow> dlist_node" where
  "dlist_insert_after l n s =
     (let s1 = link_prev (dl_next s l) n s;
          s2 = link_next n (dl_next s1 l) s1;
          s3 = link_next l n s2
      in link_prev n l s3)"

definition dlist_insert_before :: "u32 \<Rightarrow> u32 \<Rightarrow> dlist_node \<Rightarrow> dlist_node" where
  "dlist_insert_before l n s =
     (let s1 = link_next (dl_prev s l) n s;
          s2 = link_prev n (dl_prev s1 l) s1;
          s3 = link_prev l n s2
      in link_next n l s3)"

definition dlist_remove :: "u32 \<Rightarrow> dlist_node \<Rightarrow> dlist_node" where
  "dlist_remove n s =
     (let s1 = link_prev (dl_next s n) (dl_prev s n) s;
          s2 = link_next (dl_prev s1 n) (dl_next s1 n) s1
      in link_next n n (link_prev n n s2))"

definition dlist_move_head :: "u32 \<Rightarrow> u32 \<Rightarrow> dlist_node \<Rightarrow> dlist_node" where
  "dlist_move_head l n s = dlist_insert_after l n (dlist_remove n s)"

definition dlist_move_tail :: "u32 \<Rightarrow> u32 \<Rightarrow> dlist_node \<Rightarrow> dlist_node" where
  "dlist_move_tail l n s = dlist_insert_before l n (dlist_remove n s)"

definition dlist_isempty :: "u32 \<Rightarrow> dlist_node \<Rightarrow> bool" where
  "dlist_isempty l s \<longleftrightarrow> dl_next s l = l"

partial_function (option) len_loop :: "dlist_node \<Rightarrow> u32 \<Rightarrow> u32 \<Rightarrow> u32 \<Rightarrow> u32 option" where
  "len_loop s l p len = (if dl_next s p \<noteq> l then len_loop s l (dl_next s p) (len + 1) else Some len)"

definition dlist_len :: "u32 \<Rightarrow> dlist_node \<Rightarrow> u32 option" where
  "dlist_len l s = len_loop s l l 0"

section \<open>Lists of nodes\<close>

text \<open>From \<open>a\<close> the links lead through \<open>xs\<close> to \<open>b\<close>, and back.\<close>

fun links :: "dlist_node \<Rightarrow> u32 \<Rightarrow> u32 list \<Rightarrow> u32 \<Rightarrow> bool" where
  "links s a [] b \<longleftrightarrow> dl_next s a = b \<and> dl_prev s b = a"
| "links s a (x # xs) b \<longleftrightarrow> dl_next s a = x \<and> dl_prev s x = a \<and> links s x xs b"

definition dlist :: "dlist_node \<Rightarrow> u32 \<Rightarrow> u32 list \<Rightarrow> bool" where
  "dlist s h xs \<longleftrightarrow> links s h xs h \<and> distinct (h # xs)"

lemma links_append: "links s a (xs @ x # ys) b \<longleftrightarrow> links s a xs x \<and> links s x ys b"
  by (induction xs arbitrary: a) auto

text \<open>Nodes elsewhere may be relinked: \<open>N\<close> are the ones whose next, \<open>P\<close> the ones whose previous node changes.\<close>

lemma links_frame:
  assumes "links s a xs b" "\<And>y. y \<notin> N \<Longrightarrow> dl_next s' y = dl_next s y" "\<And>y. y \<notin> P \<Longrightarrow> dl_prev s' y = dl_prev s y"
    "N \<inter> insert a (set xs) = {}" "P \<inter> insert b (set xs) = {}"
  shows "links s' a xs b"
  using assms(1,4,5)
proof (induction xs arbitrary: a)
  case Nil
  then show ?case using assms(2) [of a] assms(3) [of b] by auto
next
  case (Cons x xs)
  have "links s' x xs b" using Cons by (intro Cons.IH) auto
  then show ?case using assms(2) [of a] assms(3) [of x] Cons.prems by auto
qed

lemma dlist_init_empty: "dlist (dlist_init l s) l []"
  by (simp add: dlist_def dlist_init_def)

lemma dlist_isempty_iff: "dlist s h xs \<Longrightarrow> dlist_isempty h s \<longleftrightarrow> xs = []"
  by (cases xs) (auto simp: dlist_def dlist_isempty_def)

lemma insert_after_dlist:
  assumes "dlist s h xs" "n \<notin> set (h # xs)"
  shows "dlist (dlist_insert_after h n s) h (n # xs)"
proof (cases xs)
  case Nil
  then show ?thesis using assms by (simp add: dlist_def dlist_insert_after_def Let_def)
next
  case (Cons y ys)
  have l: "dl_next s h = y" "dl_prev s y = h" "links s y ys h" and d: "distinct (n # h # y # ys)"
    using assms by (simp_all add: dlist_def Cons)
  have "links (dlist_insert_after h n s) y ys h"
  proof (rule links_frame [OF l(3)])
    show "\<And>z. z \<notin> {n, h} \<Longrightarrow> dl_next (dlist_insert_after h n s) z = dl_next s z" by (simp add: dlist_insert_after_def Let_def)
    show "\<And>z. z \<notin> {n, y} \<Longrightarrow> dl_prev (dlist_insert_after h n s) z = dl_prev s z" using l(1) by (simp add: dlist_insert_after_def Let_def)
  qed (use d in auto)
  moreover have "n \<noteq> h" "n \<noteq> y" "h \<noteq> y" "y \<noteq> n" using d by auto
  ultimately show ?thesis using l d by (simp add: dlist_def Cons dlist_insert_after_def Let_def)
qed

lemma insert_before_dlist:
  assumes "dlist s h xs" "n \<notin> set (h # xs)"
  shows "dlist (dlist_insert_before h n s) h (xs @ [n])"
proof (cases xs rule: rev_cases)
  case Nil
  then show ?thesis using assms by (simp add: dlist_def dlist_insert_before_def Let_def)
next
  case (snoc ys y)
  have l: "links s h ys y" "dl_next s y = h" "dl_prev s h = y" and d: "distinct (n # h # y # ys)"
    using assms by (simp_all add: dlist_def snoc links_append)
  have "links (dlist_insert_before h n s) h ys y"
  proof (rule links_frame [OF l(1)])
    show "\<And>z. z \<notin> {n, y} \<Longrightarrow> dl_next (dlist_insert_before h n s) z = dl_next s z" using l(3) by (simp add: dlist_insert_before_def Let_def)
    show "\<And>z. z \<notin> {n, h} \<Longrightarrow> dl_prev (dlist_insert_before h n s) z = dl_prev s z" by (simp add: dlist_insert_before_def Let_def)
  qed (use d in auto)
  moreover have "n \<noteq> h" "n \<noteq> y" "h \<noteq> y" "y \<noteq> n" using d by auto
  ultimately show ?thesis using l d by (simp add: dlist_def snoc links_append dlist_insert_before_def Let_def)
qed

text \<open>What a removal does to the two neighbours; the head may be one of them, or both.\<close>

lemma remove_links:
  assumes "dl_prev s n = p" "dl_next s n = q" "n \<noteq> p" "n \<noteq> q"
  shows "dl_next (dlist_remove n s) = (dl_next s)(p := q, n := n)" "dl_prev (dlist_remove n s) = (dl_prev s)(q := p, n := n)"
  using assms by (simp_all add: dlist_remove_def Let_def fun_eq_iff)

lemma remove_dlist:
  assumes "dlist s h (xs @ n # ys)"
  shows "dlist (dlist_remove n s) h (xs @ ys)"
proof -
  have l: "links s h xs n" "links s n ys h" and d: "distinct (h # n # xs @ ys)" using assms by (simp_all add: dlist_def links_append)
  define p where "p = (if xs = [] then h else last xs)"
  define q where "q = (if ys = [] then h else hd ys)"
  have pq: "dl_prev s n = p" "dl_next s n = q" "n \<noteq> p" "n \<noteq> q"
  proof -
    show "dl_prev s n = p" using l(1) by (cases xs rule: rev_cases) (simp_all add: p_def links_append)
    show "dl_next s n = q" using l(2) by (cases ys) (simp_all add: q_def)
    show "n \<noteq> p" using d by (cases xs rule: rev_cases) (auto simp: p_def)
    show "n \<noteq> q" using d by (cases ys) (auto simp: q_def)
  qed
  note r = remove_links [OF pq]
  let ?s = "dlist_remove n s"
  have frame: "links ?s a zs b" if "links s a zs b" "{p, n} \<inter> insert a (set zs) = {}" "{q, n} \<inter> insert b (set zs) = {}" for a zs b
    by (rule links_frame [OF that(1) _ _ that(2,3)]) (simp_all add: r)
  have front: "links ?s h vs v" if "xs = vs @ [v]" for vs v
  proof (rule frame)
    show "links s h vs v" using l(1) that by (simp add: links_append)
    show "{p, n} \<inter> insert h (set vs) = {}" using d that by (auto simp: p_def)
    show "{q, n} \<inter> insert v (set vs) = {}" using d that by (cases ys) (auto simp: q_def)
  qed
  have rear: "links ?s z zs h" if "ys = z # zs" for z zs
  proof (rule frame)
    show "links s z zs h" using l(2) that by simp
    show "{p, n} \<inter> insert z (set zs) = {}" using d that by (cases xs rule: rev_cases) (auto simp: p_def)
    show "{q, n} \<inter> insert h (set zs) = {}" using d that by (auto simp: q_def)
  qed
  have edge: "dl_next ?s p = q" "dl_prev ?s q = p" using r pq(3,4) by simp_all
  show ?thesis
  proof (cases xs rule: rev_cases)
    case Nil
    then show ?thesis using edge rear d by (cases ys) (simp_all add: dlist_def p_def q_def)
  next
    case (snoc vs v)
    then show ?thesis using edge front [OF snoc] rear d by (cases ys) (simp_all add: dlist_def links_append p_def q_def)
  qed
qed

lemma remove_alone: "dl_next (dlist_remove n s) n = n" "dl_prev (dlist_remove n s) n = n"
  by (simp_all add: dlist_remove_def Let_def)

lemma move_head_dlist: "dlist s h (xs @ n # ys) \<Longrightarrow> dlist (dlist_move_head h n s) h (n # xs @ ys)"
  unfolding dlist_move_head_def by (rule insert_after_dlist [OF remove_dlist]) (auto simp: dlist_def)

lemma move_tail_dlist: "dlist s h (xs @ n # ys) \<Longrightarrow> dlist (dlist_move_tail h n s) h (xs @ ys @ [n])"
  using insert_before_dlist [OF remove_dlist, of s h xs n ys n] by (auto simp: dlist_move_tail_def dlist_def)

lemma len_loop_links:
  "links s p xs h \<Longrightarrow> h \<notin> set xs \<Longrightarrow> len_loop s h p k = Some (k + word_of_nat (length xs))"
proof (induction xs arbitrary: p k)
  case Nil
  then show ?case by (subst len_loop.simps) simp
next
  case (Cons x xs)
  then show ?case by (subst len_loop.simps) (auto simp: add.assoc add.commute)
qed

lemma dlist_len_length: "dlist s h xs \<Longrightarrow> dlist_len h s = Some (word_of_nat (length xs))"
  using len_loop_links [of s h xs h 0] by (simp add: dlist_len_def dlist_def)

end
