(* ===== verification/Device.thy ===== *)
theory Device
  imports DList Prelude
begin

text \<open>
  \<open>common/device/drv_device.c\<close>: the registry through which all drivers are found by name and called.
  A device is the address of its structure (the address of its list node, for short); the driver's
  functions are parameters that return any result, given the calls so far, and the log of the calls
  is part of the state.
\<close>

section \<open>State\<close>

datatype device_status_type = DEVICE_UNREGISTER | DEVICE_REGISTERED | DEVICE_OPENED | DEVICE_CLOSED

datatype device_call = CallOpen u32 u16 | CallClose u32 | CallControl u32 int u32 | CallWrite u32 u32 u32 u32 | CallRead u32 u32 u32 u32

text \<open>The structures of all devices; \<open>dv_head\<close> is the address of \<open>device_head\<close>. The newest call comes first.\<close>

record devices =
  dv_head :: u32
  dv_list :: dlist_node
  dv_name :: "u32 \<Rightarrow> bytes"
  dv_status :: "u32 \<Rightarrow> device_status_type"
  dv_oflag :: "u32 \<Rightarrow> u16"
  dv_callback :: "u32 \<Rightarrow> u32"
  dv_calls :: "device_call list"

text \<open>The function pointers of the devices, \<open>None\<close> for a null pointer.\<close>

record drivers =
  dr_open :: "u32 \<Rightarrow> (device_call list \<Rightarrow> int) option"
  dr_close :: "u32 \<Rightarrow> (device_call list \<Rightarrow> int) option"
  dr_control :: "u32 \<Rightarrow> (device_call list \<Rightarrow> int) option"
  dr_write :: "u32 \<Rightarrow> (device_call list \<Rightarrow> int) option"
  dr_read :: "u32 \<Rightarrow> (device_call list \<Rightarrow> int) option"

definition DEVICE_NAME_MAX :: nat where "DEVICE_NAME_MAX = 20"
definition DEVICE_EOK :: int where "DEVICE_EOK = 0"
definition DEVICE_EFAULT :: int where "DEVICE_EFAULT = 14"
definition DEVICE_EEXIST :: int where "DEVICE_EEXIST = 17"
definition DEVICE_ENODEV :: int where "DEVICE_ENODEV = 19"
definition DEVICE_EINVAL :: int where "DEVICE_EINVAL = 22"

lemmas device_codes = DEVICE_EOK_def DEVICE_EFAULT_def DEVICE_EEXIST_def DEVICE_ENODEV_def DEVICE_EINVAL_def

section \<open>Registry\<close>

partial_function (option) exists_loop :: "devices \<Rightarrow> u32 \<Rightarrow> u32 \<Rightarrow> bool option" where
  "exists_loop s dev node =
     (if node \<noteq> dv_head s then
        (if node = dev then Some True else exists_loop s dev (dl_next (dv_list s) node))
      else Some False)"

text \<open>\<open>strcpy\<close> into the name field; a name that does not fit would run on into the links.\<close>

definition device_register :: "u32 \<Rightarrow> bytes \<Rightarrow> devices \<Rightarrow> (int \<times> devices) option" where
  "device_register dev name s =
     (case exists_loop s dev (dl_next (dv_list s) (dv_head s)) of
        None \<Rightarrow> None
      | Some True \<Rightarrow> Some (- DEVICE_EEXIST, s)
      | Some False \<Rightarrow>
          if c_strlen name \<ge> DEVICE_NAME_MAX then None
          else Some (DEVICE_EOK,
            s\<lparr>dv_name := (dv_name s)(dev := patch (dv_name s dev) 0 (take (c_strlen name) name @ [0])),
              dv_list := dlist_insert_after (dv_head s) dev (dv_list s),
              dv_status := (dv_status s)(dev := DEVICE_REGISTERED)\<rparr>))"

partial_function (option) device_find_loop :: "devices \<Rightarrow> bytes \<Rightarrow> u32 \<Rightarrow> u32 option" where
  "device_find_loop s name node =
     (if node \<noteq> dv_head s then
        (if strncmp_eq (dv_name s node) name DEVICE_NAME_MAX then Some node
         else device_find_loop s name (dl_next (dv_list s) node))
      else Some 0)"

definition device_find :: "bytes \<Rightarrow> devices \<Rightarrow> u32 option" where
  "device_find name s = device_find_loop s name (dl_next (dv_list s) (dv_head s))"

definition device_unregister :: "bytes \<Rightarrow> devices \<Rightarrow> (int \<times> devices) option" where
  "device_unregister name s =
     (case device_find name s of
        None \<Rightarrow> None
      | Some dev \<Rightarrow>
          if dev = 0 then Some (- DEVICE_ENODEV, s)
          else Some (DEVICE_EOK,
            s\<lparr>dv_status := (dv_status s)(dev := DEVICE_UNREGISTER), dv_list := dlist_remove dev (dv_list s)\<rparr>))"

section \<open>Calls\<close>

definition call_driver :: "(device_call list \<Rightarrow> int) option \<Rightarrow> device_call \<Rightarrow> devices \<Rightarrow> int \<times> devices" where
  "call_driver f c s =
     (case f of None \<Rightarrow> (- DEVICE_EFAULT, s) | Some g \<Rightarrow> (g (c # dv_calls s), s\<lparr>dv_calls := c # dv_calls s\<rparr>))"

definition device_open :: "drivers \<Rightarrow> u32 \<Rightarrow> u16 \<Rightarrow> devices \<Rightarrow> int \<times> devices" where
  "device_open drv dev oflag s =
     (if dv_status s dev = DEVICE_REGISTERED \<or> dv_status s dev = DEVICE_CLOSED then
        (if dr_open drv dev \<noteq> None then
           (let (retval, s1) = call_driver (dr_open drv dev) (CallOpen dev oflag) s
            in (retval, s1\<lparr>dv_status := (dv_status s1)(dev := DEVICE_OPENED),
                           dv_oflag := (dv_oflag s1)(dev := dv_oflag s1 dev OR oflag)\<rparr>))
         else (- DEVICE_EFAULT, s))
      else (- DEVICE_EINVAL, s))"

definition device_close :: "drivers \<Rightarrow> u32 \<Rightarrow> devices \<Rightarrow> int \<times> devices" where
  "device_close drv dev s =
     (if dv_status s dev = DEVICE_OPENED then
        (if dr_close drv dev \<noteq> None then
           (let (retval, s1) = call_driver (dr_close drv dev) (CallClose dev) s
            in (retval, s1\<lparr>dv_status := (dv_status s1)(dev := DEVICE_CLOSED), dv_oflag := (dv_oflag s1)(dev := 0)\<rparr>))
         else (- DEVICE_EFAULT, s))
      else (- DEVICE_EINVAL, s))"

definition device_control :: "drivers \<Rightarrow> u32 \<Rightarrow> int \<Rightarrow> u32 \<Rightarrow> devices \<Rightarrow> int \<times> devices" where
  "device_control drv dev cmd args s =
     (if dv_status s dev \<noteq> DEVICE_UNREGISTER then call_driver (dr_control drv dev) (CallControl dev cmd args) s
      else (- DEVICE_EINVAL, s))"

definition device_write :: "drivers \<Rightarrow> u32 \<Rightarrow> u32 \<Rightarrow> u32 \<Rightarrow> u32 \<Rightarrow> devices \<Rightarrow> int \<times> devices" where
  "device_write drv dev pos buffer n s =
     (if dv_status s dev = DEVICE_OPENED then call_driver (dr_write drv dev) (CallWrite dev pos buffer n) s
      else (- DEVICE_EINVAL, s))"

definition device_read :: "drivers \<Rightarrow> u32 \<Rightarrow> u32 \<Rightarrow> u32 \<Rightarrow> u32 \<Rightarrow> devices \<Rightarrow> int \<times> devices" where
  "device_read drv dev pos buffer n s =
     (if dv_status s dev = DEVICE_OPENED then call_driver (dr_read drv dev) (CallRead dev pos buffer n) s
      else (- DEVICE_EINVAL, s))"

definition device_set_callback :: "u32 \<Rightarrow> u32 \<Rightarrow> devices \<Rightarrow> int \<times> devices" where
  "device_set_callback dev callback s =
     (if dv_status s dev \<noteq> DEVICE_UNREGISTER then
        (if callback \<noteq> 0 then (DEVICE_EOK, s\<lparr>dv_callback := (dv_callback s)(dev := callback)\<rparr>) else (- DEVICE_EFAULT, s))
      else (- DEVICE_EINVAL, s))"

text \<open>One call of the interface.\<close>

datatype dev_request = Register u32 bytes | Unregister bytes | Open u32 u16 | Close u32 | Control u32 int u32
  | Write u32 u32 u32 u32 | Read u32 u32 u32 u32 | Set_Callback u32 u32

fun dev_step :: "drivers \<Rightarrow> dev_request \<Rightarrow> devices \<Rightarrow> (int \<times> devices) option" where
  "dev_step drv (Register d name) s = device_register d name s"
| "dev_step drv (Unregister name) s = device_unregister name s"
| "dev_step drv (Open d oflag) s = Some (device_open drv d oflag s)"
| "dev_step drv (Close d) s = Some (device_close drv d s)"
| "dev_step drv (Control d cmd args) s = Some (device_control drv d cmd args s)"
| "dev_step drv (Write d pos buffer n) s = Some (device_write drv d pos buffer n s)"
| "dev_step drv (Read d pos buffer n) s = Some (device_read drv d pos buffer n s)"
| "dev_step drv (Set_Callback d f) s = Some (device_set_callback d f s)"

text \<open>The results of a sequence of requests and the state at the end.\<close>

fun dev_run :: "drivers \<Rightarrow> dev_request list \<Rightarrow> devices \<Rightarrow> (int list \<times> devices) option" where
  "dev_run drv [] s = Some ([], s)"
| "dev_run drv (r # rs) s =
     (case dev_step drv r s of
        None \<Rightarrow> None
      | Some (x, s1) \<Rightarrow> (case dev_run drv rs s1 of None \<Rightarrow> None | Some (xs, s2) \<Rightarrow> Some (x # xs, s2)))"

section \<open>What the registry stands for\<close>

definition cstr :: "bytes \<Rightarrow> bytes" where
  "cstr b = takeWhile (\<lambda>c. c \<noteq> 0) b"

lemma strncmp_cstr: "0 \<in> set a \<Longrightarrow> length a \<le> n \<Longrightarrow> 0 \<in> set b \<Longrightarrow> strncmp_eq a b n \<longleftrightarrow> cstr a = cstr b"
proof (induction a b n rule: strncmp_eq.induct)
  case (1 a as b bs n)
  then show ?case by (auto simp: cstr_def)
qed auto

lemma strcpy_cstr:
  assumes "0 \<in> set name" "c_strlen name < length old"
  shows "cstr (patch old 0 (take (c_strlen name) name @ [0])) = cstr name"
    "0 \<in> set (patch old 0 (take (c_strlen name) name @ [0]))" "length (patch old 0 (take (c_strlen name) name @ [0])) = length old"
proof -
  have n: "take (c_strlen name) name = cstr name" by (metis c_strlen_def cstr_def takeWhile_eq_take)
  have "c_strlen name = length (cstr name)" by (simp add: c_strlen_def cstr_def)
  then show "length (patch old 0 (take (c_strlen name) name @ [0])) = length old" using assms(2) n by simp
  have nz: "\<forall>x \<in> set (cstr name). x \<noteq> 0" by (auto simp: cstr_def dest: set_takeWhileD)
  show "0 \<in> set (patch old 0 (take (c_strlen name) name @ [0]))" by (simp add: patch_def)
  show "cstr (patch old 0 (take (c_strlen name) name @ [0])) = cstr name"
    unfolding n using nz by (simp add: patch_def cstr_def [of "_ @ _"] takeWhile_append2)
qed

text \<open>The registry as a list, the newest entry first; names need not be unique.\<close>

type_synonym registry = "(u32 \<times> bytes) list"

fun reg_find :: "bytes \<Rightarrow> registry \<Rightarrow> u32 option" where
  "reg_find nm [] = None"
| "reg_find nm ((d, n) # reg) = (if n = nm then Some d else reg_find nm reg)"

fun reg_step :: "dev_request \<Rightarrow> registry \<Rightarrow> registry" where
  "reg_step (Register d name) reg = (if d \<in> fst ` set reg then reg else (d, cstr name) # reg)"
| "reg_step (Unregister name) reg =
     (case reg_find (cstr name) reg of None \<Rightarrow> reg | Some d \<Rightarrow> filter (\<lambda>e. fst e \<noteq> d) reg)"
| "reg_step _ reg = reg"

text \<open>The list is well linked, its nodes are the devices that are not unregistered, and all names end.\<close>

definition devices_ok :: "devices \<Rightarrow> u32 list \<Rightarrow> bool" where
  "devices_ok s xs \<longleftrightarrow> dlist (dv_list s) (dv_head s) xs \<and> 0 \<notin> set xs \<and>
     (\<forall>d. d \<in> set xs \<longleftrightarrow> dv_status s d \<noteq> DEVICE_UNREGISTER) \<and>
     (\<forall>d. length (dv_name s d) = DEVICE_NAME_MAX) \<and> (\<forall>d \<in> set xs. 0 \<in> set (dv_name s d))"

definition registry_of :: "devices \<Rightarrow> u32 list \<Rightarrow> registry" where
  "registry_of s xs = map (\<lambda>d. (d, cstr (dv_name s d))) xs"

lemma exists_loop_links:
  "links (dv_list s) p xs (dv_head s) \<Longrightarrow> dv_head s \<notin> set xs \<Longrightarrow>
    exists_loop s d (dl_next (dv_list s) p) = Some (d \<in> set xs)"
proof (induction xs arbitrary: p)
  case Nil
  then show ?case by (subst exists_loop.simps) simp
next
  case (Cons x xs)
  then show ?case by (subst exists_loop.simps) auto
qed

lemma find_loop_links:
  assumes "0 \<in> set name"
  shows "links (dv_list s) p xs (dv_head s) \<Longrightarrow> dv_head s \<notin> set xs \<Longrightarrow>
    \<forall>d \<in> set xs. length (dv_name s d) = DEVICE_NAME_MAX \<and> 0 \<in> set (dv_name s d) \<Longrightarrow>
    device_find_loop s name (dl_next (dv_list s) p) =
      Some (case reg_find (cstr name) (registry_of s xs) of None \<Rightarrow> 0 | Some d \<Rightarrow> d)"
proof (induction xs arbitrary: p)
  case Nil
  then show ?case by (subst device_find_loop.simps) (simp add: registry_of_def)
next
  case (Cons x xs)
  have "strncmp_eq (dv_name s x) name DEVICE_NAME_MAX \<longleftrightarrow> cstr (dv_name s x) = cstr name"
    using Cons.prems(3) assms by (intro strncmp_cstr) auto
  then show ?case using Cons by (subst device_find_loop.simps) (auto simp: registry_of_def)
qed

lemma device_find_ok:
  assumes "devices_ok s xs" "0 \<in> set name"
  shows "device_find name s = Some (case reg_find (cstr name) (registry_of s xs) of None \<Rightarrow> 0 | Some d \<Rightarrow> d)"
  unfolding device_find_def using assms
  by (intro find_loop_links) (auto simp: devices_ok_def dlist_def)

lemma reg_find_in: "reg_find nm (registry_of s xs) = Some d \<Longrightarrow> d \<in> set xs"
  by (induction xs) (auto simp: registry_of_def split: if_splits)

lemma registry_devices [simp]: "fst ` set (registry_of s xs) = set xs"
  by (force simp: registry_of_def)

text \<open>A call changes neither the list nor the names; it moves only between the states of a registered device.\<close>

definition same_registry :: "devices \<Rightarrow> devices \<Rightarrow> bool" where
  "same_registry s t \<longleftrightarrow> dv_list t = dv_list s \<and> dv_head t = dv_head s \<and> dv_name t = dv_name s \<and>
     (\<forall>d. dv_status t d = DEVICE_UNREGISTER \<longleftrightarrow> dv_status s d = DEVICE_UNREGISTER)"

lemma same_registry_ok: "devices_ok s xs \<Longrightarrow> same_registry s t \<Longrightarrow> devices_ok t xs \<and> registry_of t xs = registry_of s xs"
  by (auto simp: devices_ok_def same_registry_def registry_of_def)

lemma calls_same_registry:
  "same_registry s (snd (device_open drv d oflag s))" "same_registry s (snd (device_close drv d s))"
  "same_registry s (snd (device_control drv d cmd args s))" "same_registry s (snd (device_write drv d pos buffer n s))"
  "same_registry s (snd (device_read drv d pos buffer n s))" "same_registry s (snd (device_set_callback d f s))"
  by (auto simp: same_registry_def device_open_def device_close_def device_control_def device_write_def device_read_def
      device_set_callback_def call_driver_def Let_def split: option.splits)

text \<open>What a caller has to see to: addresses of structures, and strings that end and fit.\<close>

definition request_ok :: "u32 \<Rightarrow> dev_request \<Rightarrow> bool" where
  "request_ok h r = (case r of
     Register d name \<Rightarrow> d \<noteq> 0 \<and> d \<noteq> h \<and> 0 \<in> set name \<and> c_strlen name < DEVICE_NAME_MAX
   | Unregister name \<Rightarrow> 0 \<in> set name
   | _ \<Rightarrow> True)"

lemma register_ok:
  assumes ok: "devices_ok s xs" and r: "d \<noteq> 0" "d \<noteq> dv_head s" "0 \<in> set name" "c_strlen name < DEVICE_NAME_MAX"
  shows "\<exists>x t ys. device_register d name s = Some (x, t) \<and> dv_head t = dv_head s \<and> devices_ok t ys \<and>
    registry_of t ys = reg_step (Register d name) (registry_of s xs)"
proof -
  have l: "dlist (dv_list s) (dv_head s) xs" using ok by (simp add: devices_ok_def)
  have e: "exists_loop s d (dl_next (dv_list s) (dv_head s)) = Some (d \<in> set xs)"
    using l by (intro exists_loop_links) (auto simp: dlist_def)
  show ?thesis
  proof (cases "d \<in> set xs")
    case True
    then show ?thesis using ok e by (intro exI [of _ "- DEVICE_EEXIST"] exI [of _ s] exI [of _ xs]) (simp add: device_register_def)
  next
    case False
    have len: "length (dv_name s d) = DEVICE_NAME_MAX" using ok by (simp add: devices_ok_def)
    note c = strcpy_cstr [OF r(3), of "dv_name s d", unfolded len, OF r(4)]
    let ?t = "s\<lparr>dv_name := (dv_name s)(d := patch (dv_name s d) 0 (take (c_strlen name) name @ [0])),
        dv_list := dlist_insert_after (dv_head s) d (dv_list s), dv_status := (dv_status s)(d := DEVICE_REGISTERED)\<rparr>"
    have "dlist (dlist_insert_after (dv_head s) d (dv_list s)) (dv_head s) (d # xs)"
      using l False r(2) by (intro insert_after_dlist) auto
    then have "devices_ok ?t (d # xs)" using ok c r(1) False by (auto simp: devices_ok_def)
    moreover have "registry_of ?t (d # xs) = reg_step (Register d name) (registry_of s xs)"
      using c False by (auto simp: registry_of_def)
    ultimately show ?thesis using e False r(4)
      by (intro exI [of _ DEVICE_EOK] exI [of _ ?t] exI [of _ "d # xs"]) (simp add: device_register_def)
  qed
qed

lemma unregister_ok:
  assumes ok: "devices_ok s xs" and r: "0 \<in> set name"
  shows "\<exists>x t ys. device_unregister name s = Some (x, t) \<and> dv_head t = dv_head s \<and> devices_ok t ys \<and>
    registry_of t ys = reg_step (Unregister name) (registry_of s xs)"
proof (cases "reg_find (cstr name) (registry_of s xs)")
  case None
  then show ?thesis using ok device_find_ok [OF ok r]
    by (intro exI [of _ "- DEVICE_ENODEV"] exI [of _ s] exI [of _ xs]) (simp add: device_unregister_def)
next
  case (Some d)
  have d: "d \<in> set xs" "d \<noteq> 0" using reg_find_in [OF Some] ok by (auto simp: devices_ok_def)
  obtain ys zs where xs: "xs = ys @ d # zs" using d(1) by (meson split_list)
  have l: "dlist (dv_list s) (dv_head s) (ys @ d # zs)" using ok by (simp add: devices_ok_def xs)
  let ?t = "s\<lparr>dv_status := (dv_status s)(d := DEVICE_UNREGISTER), dv_list := dlist_remove d (dv_list s)\<rparr>"
  have nd: "d \<notin> set ys \<union> set zs" using l by (auto simp: dlist_def)
  have "devices_ok ?t (ys @ zs)" using ok remove_dlist [OF l] nd by (auto simp: devices_ok_def xs)
  moreover have "registry_of ?t (ys @ zs) = reg_step (Unregister name) (registry_of s xs)"
  proof -
    have "filter (\<lambda>x. x \<noteq> d) ys = ys" "filter (\<lambda>x. x \<noteq> d) zs = zs" using nd by (auto simp: filter_id_conv)
    then have "registry_of ?t (ys @ zs) = filter (\<lambda>e. fst e \<noteq> d) (registry_of s xs)"
      by (simp add: registry_of_def xs filter_map comp_def)
    then show ?thesis using Some by simp
  qed
  ultimately show ?thesis using device_find_ok [OF ok r] Some d(2)
    by (intro exI [of _ DEVICE_EOK] exI [of _ ?t] exI [of _ "ys @ zs"]) (simp add: device_unregister_def)
qed

lemma dev_step_ok:
  assumes ok: "devices_ok s xs" and r: "request_ok (dv_head s) r"
  shows "\<exists>x t ys. dev_step drv r s = Some (x, t) \<and> dv_head t = dv_head s \<and> devices_ok t ys \<and>
    registry_of t ys = reg_step r (registry_of s xs)"
proof (cases r)
  case (Register d name)
  then show ?thesis using register_ok [OF ok, of d name] r by (simp add: request_ok_def)
next
  case (Unregister name)
  then show ?thesis using unregister_ok [OF ok, of name] r by (simp add: request_ok_def)
qed (use same_registry_ok [OF ok] calls_same_registry in
      \<open>(simp, metis (no_types, lifting) same_registry_def prod.collapse)+\<close>)

lemma dev_run_ok:
  "devices_ok s xs \<Longrightarrow> \<forall>r \<in> set rs. request_ok (dv_head s) r \<Longrightarrow>
    \<exists>vals t ys. dev_run drv rs s = Some (vals, t) \<and> devices_ok t ys \<and> registry_of t ys = fold reg_step rs (registry_of s xs)"
proof (induction rs arbitrary: s xs)
  case (Cons r rs)
  obtain x t ys where t: "dev_step drv r s = Some (x, t)" "dv_head t = dv_head s" "devices_ok t ys"
    "registry_of t ys = reg_step r (registry_of s xs)" using dev_step_ok [OF Cons.prems(1), of r drv] Cons.prems(2) by auto
  obtain vals u zs where "dev_run drv rs t = Some (vals, u)" "devices_ok u zs" "registry_of u zs = fold reg_step rs (registry_of t ys)"
    using Cons.IH [OF t(3)] Cons.prems(2) t(2) by auto
  then show ?case using t by (intro exI [of _ "x # vals"] exI [of _ u] exI [of _ zs]) simp
qed auto

text \<open>All structures cleared, the list head linked to itself.\<close>

definition devices_init :: "u32 \<Rightarrow> devices" where
  "devices_init h = \<lparr>dv_head = h, dv_list = dlist_init h \<lparr>dl_next = \<lambda>_. 0, dl_prev = \<lambda>_. 0\<rparr>, dv_name = \<lambda>_. replicate 20 0,
     dv_status = \<lambda>_. DEVICE_UNREGISTER, dv_oflag = \<lambda>_. 0, dv_callback = \<lambda>_. 0, dv_calls = []\<rparr>"

lemma devices_init_ok: "devices_ok (devices_init h) []" "dv_head (devices_init h) = h" "registry_of s [] = []"
  by (simp_all add: devices_ok_def devices_init_def DEVICE_NAME_MAX_def dlist_init_empty registry_of_def)

section \<open>The calls that drivers see\<close>

text \<open>Whether the last call of \<open>d\<close> to \<open>open\<close> or \<open>close\<close> was one to \<open>open\<close>; the newest call comes first.\<close>

fun is_open :: "u32 \<Rightarrow> device_call list \<Rightarrow> bool" where
  "is_open d [] = False"
| "is_open d (CallOpen e oflag # cs) = (d = e \<or> is_open d cs)"
| "is_open d (CallClose e # cs) = (d \<noteq> e \<and> is_open d cs)"
| "is_open d (_ # cs) = is_open d cs"

text \<open>Data is only moved, and \<open>close\<close> only called, while the device is open.\<close>

fun protocol :: "device_call list \<Rightarrow> bool" where
  "protocol [] = True"
| "protocol (CallWrite d pos buffer n # cs) = (is_open d cs \<and> protocol cs)"
| "protocol (CallRead d pos buffer n # cs) = (is_open d cs \<and> protocol cs)"
| "protocol (CallClose d # cs) = (is_open d cs \<and> protocol cs)"
| "protocol (_ # cs) = protocol cs"

definition calls_ok :: "devices \<Rightarrow> bool" where
  "calls_ok s \<longleftrightarrow> protocol (dv_calls s) \<and> (\<forall>d. dv_status s d = DEVICE_OPENED \<longrightarrow> is_open d (dv_calls s))"

lemma dev_step_calls: "calls_ok s \<Longrightarrow> dev_step drv r s = Some (x, t) \<Longrightarrow> calls_ok t"
proof (cases r)
  case (Close d)
  assume "calls_ok s" "dev_step drv r s = Some (x, t)"
  then show ?thesis by (auto simp: Close calls_ok_def device_close_def call_driver_def Let_def split: if_splits option.splits)
qed (auto simp: calls_ok_def device_register_def device_unregister_def device_open_def device_control_def device_write_def
      device_read_def device_set_callback_def call_driver_def Let_def split: if_splits option.splits bool.splits)

lemma dev_run_calls: "calls_ok s \<Longrightarrow> dev_run drv rs s = Some (vals, t) \<Longrightarrow> calls_ok t"
proof (induction rs arbitrary: s vals)
  case (Cons r rs)
  then show ?case using dev_step_calls [of s drv r] by (auto split: option.splits)
qed simp

section \<open>Properties\<close>

text \<open>
  C25: The registry is a list of named devices in which the newest wins: after any calls of the
  interface, \<open>device_find\<close> returns the device that was registered last under the name and not
  unregistered since, or null if there is none, and it always returns.
\<close>
theorem device_registry_refines:
  assumes "\<forall>r \<in> set rs. request_ok h r"
  shows "\<exists>vals s. dev_run drv rs (devices_init h) = Some (vals, s) \<and>
    (\<forall>name. 0 \<in> set name \<longrightarrow>
      device_find name s = Some (case reg_find (cstr name) (fold reg_step rs []) of None \<Rightarrow> 0 | Some d \<Rightarrow> d))"
proof -
  obtain vals s xs where s: "dev_run drv rs (devices_init h) = Some (vals, s)" "devices_ok s xs"
    "registry_of s xs = fold reg_step rs []"
    using dev_run_ok [OF devices_init_ok(1), of rs h drv] assms by (auto simp: devices_init_ok(2,3))
  then show ?thesis using device_find_ok [OF s(2)] by (intro exI [of _ vals] exI [of _ s]) simp
qed

text \<open>A driver whose \<open>open\<close> returns \<open>r\<close> and whose \<open>write\<close> counts the calls.\<close>

definition one_driver :: "int \<Rightarrow> drivers" where
  "one_driver r = \<lparr>dr_open = \<lambda>d. Some (\<lambda>cs. r), dr_close = \<lambda>d. None, dr_control = \<lambda>d. None,
     dr_write = \<lambda>d. Some (\<lambda>cs. int (length cs)), dr_read = \<lambda>d. None\<rparr>"

definition uart_name :: bytes where "uart_name = [0x75, 0x61, 0x72, 0x74, 0]"

theorem device_registry_refines_witness:
  "\<exists>vals s. dev_run (one_driver 0) [Register 0x100 uart_name, Register 0x200 uart_name, Open 0x200 1, Unregister uart_name] (devices_init 4) =
      Some (vals, s) \<and> device_find uart_name s = Some 0x100"
proof -
  let ?rs = "[Register 0x100 uart_name, Register 0x200 uart_name, Open 0x200 1, Unregister uart_name]"
  have "\<forall>r \<in> set ?rs. request_ok 4 r" by (simp add: request_ok_def uart_name_def c_strlen_def DEVICE_NAME_MAX_def)
  moreover have "reg_find (cstr uart_name) (fold reg_step ?rs []) = Some 0x100" by simp
  moreover have "0 \<in> set uart_name" by (simp add: uart_name_def)
  ultimately show ?thesis using device_registry_refines [of ?rs 4 "one_driver 0"] by fastforce
qed

text \<open>
  After any calls the devices are chained in a list whose links are each other's inverse, and
  the state of a device is one of the registered ones exactly if it is in that list.
\<close>
theorem device_states_typed:
  assumes "\<forall>r \<in> set rs. request_ok h r" and "dev_run drv rs (devices_init h) = Some (vals, s)"
  shows "\<exists>xs. dlist (dv_list s) (dv_head s) xs \<and> (\<forall>d. d \<in> set xs \<longleftrightarrow> dv_status s d \<noteq> DEVICE_UNREGISTER) \<and>
    dlist_len (dv_head s) (dv_list s) = Some (word_of_nat (length xs))"
proof -
  obtain xs where xs: "devices_ok s xs"
    using dev_run_ok [OF devices_init_ok(1), of rs h drv] assms by (auto simp: devices_init_ok(2))
  then show ?thesis using dlist_len_length [of "dv_list s" "dv_head s" xs] by (auto simp: devices_ok_def)
qed

theorem device_states_typed_witness:
  "\<exists>vals s xs. dev_run (one_driver 0) [Register 0x100 uart_name, Open 0x100 1] (devices_init 4) = Some (vals, s) \<and>
    dlist (dv_list s) (dv_head s) xs \<and> (\<forall>d. d \<in> set xs \<longleftrightarrow> dv_status s d \<noteq> DEVICE_UNREGISTER)"
proof -
  let ?rs = "[Register 0x100 uart_name, Open 0x100 1]"
  have r: "\<forall>r \<in> set ?rs. request_ok 4 r" by (simp add: request_ok_def uart_name_def c_strlen_def DEVICE_NAME_MAX_def)
  then obtain vals s where "dev_run (one_driver 0) ?rs (devices_init 4) = Some (vals, s)"
    using dev_run_ok [OF devices_init_ok(1), of ?rs 4 "one_driver 0"] by (auto simp: devices_init_ok(2))
  then show ?thesis using device_states_typed [OF r] by blast
qed

text \<open>
  C27: Whatever is called in whatever order, a driver's \<open>write\<close>, \<open>read\<close> and \<open>close\<close> functions are only
  entered after its \<open>open\<close> function, with no \<open>close\<close> in between.
\<close>
theorem device_io_protocol:
  assumes "dev_run drv rs (devices_init h) = Some (vals, s)"
  shows "protocol (dv_calls s)"
  using dev_run_calls [OF _ assms] by (simp add: calls_ok_def devices_init_def)

theorem device_io_protocol_witness:
  "\<exists>vals s. dev_run (one_driver 0) [Register 0x100 uart_name, Write 0x100 0 0 1, Open 0x100 1, Write 0x100 0 0 1] (devices_init 4) =
      Some (vals, s) \<and> vals = [0, -22, 0, 2] \<and> dv_calls s = [CallWrite 0x100 0 0 1, CallOpen 0x100 1] \<and> protocol (dv_calls s)"
proof -
  let ?rs = "[Register 0x100 uart_name, Write 0x100 0 0 1, Open 0x100 1, Write 0x100 0 0 1]"
  obtain vals s where run: "dev_run (one_driver 0) ?rs (devices_init 4) = Some (vals, s)" "vals = [0, -22, 0, 2]"
      "dv_calls s = [CallWrite 0x100 0 0 1, CallOpen 0x100 1]"
    by (simp add: devices_init_def device_register_def exists_loop.simps dlist_init_def uart_name_def c_strlen_def
        DEVICE_NAME_MAX_def device_write_def device_open_def one_driver_def call_driver_def device_codes)
  then show ?thesis using device_io_protocol [OF run(1)] by blast
qed

text \<open>A device whose \<open>open\<close> function failed counts as open.\<close>

lemma failed_open_is_open:
  "dv_status s d = DEVICE_REGISTERED \<Longrightarrow> fst (device_open (one_driver (- 1)) d oflag s) = - 1 \<and>
    dv_status (snd (device_open (one_driver (- 1)) d oflag s)) d = DEVICE_OPENED"
  by (simp add: device_open_def call_driver_def one_driver_def)

end
