(* ===== verification/Timestamp.thy ===== *)
theory Timestamp
  imports Prelude
begin

text \<open>
  \<open>common/timestamp/timestamp.c\<close>: from seconds since 1970 to the date and time of day in Beijing, against
  a calendar that counts the days of all years and months before.
\<close>

section \<open>The conversion\<close>

record rtc_time =
  rt_year :: u16
  rt_month :: u8
  rt_day :: u8
  rt_week :: u8
  rt_hour :: u8
  rt_minute :: u8
  rt_second :: u8

definition FOUR_YEAR_DAY :: u32 where "FOUR_YEAR_DAY = push_bit 2 365 + 1"
definition SEC_NUM_PER_DAY :: u32 where "SEC_NUM_PER_DAY = 24 * 60 * 60"
definition SEC_NUM_PER_HOUR :: u32 where "SEC_NUM_PER_HOUR = 60 * 60"
definition SEC_NUM_PER_MINUTE :: u32 where "SEC_NUM_PER_MINUTE = 60"

definition month_day :: "u8 list" where
  "month_day = [31, 28, 31, 30, 31, 30, 31, 31, 30, 31, 30, 31]"

definition Leap_month_day :: "u8 list" where
  "Leap_month_day = [31, 29, 31, 30, 31, 30, 31, 31, 30, 31, 30, 31]"

definition check_leap_year :: "u16 \<Rightarrow> bool" where
  "check_leap_year year =
     (if year mod 4 \<noteq> 0 then False else if year mod 100 = 0 \<and> year mod 400 \<noteq> 0 then False else True)"

definition cal_weekday :: "rtc_time \<Rightarrow> rtc_time" where
  "cal_weekday beijing_time =
     (let y0 = ucast (rt_year beijing_time) :: u32; m0 = ucast (rt_month beijing_time) :: u32; d = ucast (rt_day beijing_time) :: u32;
          (m, y) = (if m0 = 1 \<or> m0 = 2 then (m0 + 12, y0 - 1) else (m0, y0));
          w = (d + 2 * m + 3 * (m + 1) div 5 + y + y div 4 - y div 100 + y div 400 + 1) mod 7
      in beijing_time\<lparr>rt_week := ucast w\<rparr>)"

definition year_days :: "u16 \<Rightarrow> u16" where
  "year_days year = (if check_leap_year year then 366 else 365)"

function year_loop :: "u16 \<Rightarrow> u16 \<Rightarrow> u16 \<times> u16" where
  "year_loop year remain_day =
     (if remain_day \<ge> year_days year then year_loop (year + 1) (remain_day - year_days year) else (year, remain_day))"
  by pat_completeness auto
termination
  by (relation "measure (\<lambda>(y, r). unat r)")
    (auto simp: year_days_def word_le_nat_alt unat_sub split: if_splits)

declare year_loop.simps [simp del]

text \<open>\<open>None\<close>: the loop would read behind the table.\<close>

function month_loop :: "u8 list \<Rightarrow> u8 \<Rightarrow> u16 \<Rightarrow> (u8 \<times> u16) option" where
  "month_loop p month remain_day =
     (if month \<ge> 12 then None
      else if remain_day > ucast (p ! unat month)
      then month_loop p (month + 1) (remain_day - ucast (p ! unat month))
      else Some (month, remain_day))"
  by pat_completeness auto
termination
proof (relation "measure (\<lambda>(p, m, r). 256 - unat m)", goal_cases)
  case (2 p month r)
  then have m: "unat month < 12" by (simp add: word_less_nat_alt not_le)
  then have "unat (month + 1) = unat month + 1" by (subst unat_add_lt) simp_all
  then show ?case using m by simp
qed simp

declare month_loop.simps [simp del]

text \<open>The date: the days since 1970 are split into cycles of four years, years and months.\<close>

definition date_of_days :: "u32 \<Rightarrow> (u16 \<times> u8 \<times> u16) option" where
  "date_of_days days =
     (let (year, remain_day) = year_loop (ucast (1970 + (days div FOUR_YEAR_DAY) * 4)) (ucast (days mod FOUR_YEAR_DAY))
      in case month_loop (if check_leap_year year then Leap_month_day else month_day) 0 (remain_day + 1) of
           None \<Rightarrow> None | Some (month, day) \<Rightarrow> Some (year, month, day))"

text \<open>The week day that is computed inline first is overwritten by \<open>cal_weekday\<close>.\<close>

definition unixtime2bejingtime :: "u32 \<Rightarrow> rtc_time \<Rightarrow> rtc_time option" where
  "unixtime2bejingtime unixtime beijing_time =
     (let totle_day_num = unixtime div SEC_NUM_PER_DAY;
          current_sec_num = unixtime mod SEC_NUM_PER_DAY;
          hour0 = ucast (current_sec_num div SEC_NUM_PER_HOUR) + 8 :: u8;
          minute = ucast ((current_sec_num mod SEC_NUM_PER_HOUR) div SEC_NUM_PER_MINUTE) :: u8;
          second = ucast ((current_sec_num mod SEC_NUM_PER_HOUR) mod SEC_NUM_PER_MINUTE) :: u8;
          (hour, days) = (if hour0 > 23 then (hour0 - 24, totle_day_num + 1) else (hour0, totle_day_num))
      in case date_of_days days of
           None \<Rightarrow> None
         | Some (year, month, day) \<Rightarrow>
             Some (cal_weekday (beijing_time\<lparr>rt_year := year, rt_month := month + 1, rt_day := ucast day,
               rt_hour := hour, rt_minute := minute, rt_second := second\<rparr>)))"

section \<open>The calendar\<close>

definition leap :: "nat \<Rightarrow> bool" where
  "leap y \<longleftrightarrow> 4 dvd y \<and> (100 dvd y \<longrightarrow> 400 dvd y)"

definition month_lengths :: "nat \<Rightarrow> nat list" where
  "month_lengths y = [31, if leap y then 29 else 28, 31, 30, 31, 30, 31, 31, 30, 31, 30, 31]"

definition year_length :: "nat \<Rightarrow> nat" where
  "year_length y = sum_list (month_lengths y)"

text \<open>The days from 1 January 1970 to 1 January of the \<open>k\<close>-th year after it, and to a date.\<close>

fun year_start :: "nat \<Rightarrow> nat" where
  "year_start 0 = 0"
| "year_start (Suc k) = year_start k + year_length (1970 + k)"

definition date_day :: "nat \<Rightarrow> nat \<Rightarrow> nat \<Rightarrow> nat" where
  "date_day y m d = year_start (y - 1970) + sum_list (take (m - 1) (month_lengths y)) + (d - 1)"

definition valid_date :: "nat \<Rightarrow> nat \<Rightarrow> nat \<Rightarrow> bool" where
  "valid_date y m d \<longleftrightarrow> 1970 \<le> y \<and> 1 \<le> m \<and> m \<le> 12 \<and> 1 \<le> d \<and> d \<le> month_lengths y ! (m - 1)"

lemma year_length: "year_length y = (if leap y then 366 else 365)"
  by (simp add: year_length_def month_lengths_def)

lemma check_leap: "check_leap_year y \<longleftrightarrow> leap (unat y)"
  by (auto simp: check_leap_year_def leap_def word_unat_eq_iff unat_mod dvd_eq_mod_eq_0)

lemma year_days: "unat (year_days y) = year_length (unat y)"
  by (simp add: year_days_def year_length check_leap)

lemma year_loop_ok:
  "1970 \<le> unat y \<Longrightarrow> unat y + unat r < 2 ^ 16 \<Longrightarrow> year_loop y r = (y', r') \<Longrightarrow>
    year_start (unat y' - 1970) + unat r' = year_start (unat y - 1970) + unat r \<and> unat r' < year_length (unat y') \<and> unat y \<le> unat y'"
proof (induction y r rule: year_loop.induct)
  case (1 y r)
  show ?case
  proof (cases "year_days y \<le> r")
    case False
    then have "year_loop y r = (y, r)" by (subst year_loop.simps) simp
    then show ?thesis using 1(4) False by (auto simp: word_less_nat_alt year_days [symmetric] not_le)
  next
    case True
    have l: "365 \<le> year_length (unat y)" by (simp add: year_length)
    have r: "unat (r - year_days y) = unat r - year_length (unat y)" "year_length (unat y) \<le> unat r"
      using True by (simp_all add: unat_sub word_le_nat_alt year_days)
    have y: "unat (y + 1) = unat y + 1" using 1(3) r(2) l by (subst unat_add_lt) simp_all
    have "Suc (unat y - 1970) = unat (y + 1) - 1970" using y 1(2) by simp
    then have s: "year_start (unat (y + 1) - 1970) = year_start (unat y - 1970) + year_length (unat y)"
      using 1(2) by (metis le_add_diff_inverse year_start.simps(2))
    have "year_loop y r = year_loop (y + 1) (r - year_days y)" using True by (subst year_loop.simps) simp
    then have "year_loop (y + 1) (r - year_days y) = (y', r')" using 1(4) by simp
    moreover have "unat (y + 1) + unat (r - year_days y) < 2 ^ 16" "1970 \<le> unat (y + 1)" using 1(2,3) y r l by simp_all
    ultimately show ?thesis using 1(1) [OF True] y r s by fastforce
  qed
qed

lemma month_loop_ok:
  "length p = 12 \<Longrightarrow> unat m < 12 \<Longrightarrow> 1 \<le> unat r \<Longrightarrow> unat r \<le> sum_list (drop (unat m) (map unat p)) \<Longrightarrow>
    \<exists>m' r'. month_loop p m r = Some (m', r') \<and> unat m' < 12 \<and> 1 \<le> unat r' \<and> unat r' \<le> unat (p ! unat m') \<and>
      sum_list (take (unat m') (map unat p)) + unat r' = sum_list (take (unat m) (map unat p)) + unat r"
proof (induction p m r rule: month_loop.induct)
  case (1 p m r)
  have ml: "\<not> 12 \<le> m" using 1(3) by (simp add: word_le_nat_alt)
  have d: "drop (unat m) (map unat p) = unat (p ! unat m) # drop (Suc (unat m)) (map unat p)"
    using 1(2,3) by (simp add: Cons_nth_drop_Suc [symmetric] drop_map)
  have t: "take (Suc (unat m)) (map unat p) = take (unat m) (map unat p) @ [unat (p ! unat m)]"
    using 1(2,3) by (simp add: take_Suc_conv_app_nth)
  have u: "unat (ucast (p ! unat m) :: u16) = unat (p ! unat m)" using unsigned_less [of "p ! unat m", where 'a = nat] by (simp add: unsigned_ucast_eq take_bit_nat_eq_self)
  show ?case
  proof (cases "r > ucast (p ! unat m)")
    case False
    then show ?thesis using 1(2-4) u ml by (subst month_loop.simps) (simp add: word_less_nat_alt not_less)
  next
    case True
    have r: "unat (r - ucast (p ! unat m)) = unat r - unat (p ! unat m)" "unat (p ! unat m) < unat r"
      using True u by (simp_all add: unat_sub word_less_nat_alt word_le_nat_alt)
    have m: "unat (m + 1) = Suc (unat m)" using 1(3) by (subst unat_add_lt) simp_all
    have "Suc (unat m) < 12"
    proof (rule ccontr)
      assume "\<not> Suc (unat m) < 12"
      then show False using 1(2,5) r(2) d by simp
    qed
    moreover have "month_loop p m r = month_loop p (m + 1) (r - ucast (p ! unat m))"
      using True ml by (subst month_loop.simps) simp
    ultimately show ?thesis using 1(1) [OF ml True] 1(2-5) r m d t by (simp add: le_diff_conv)
  qed
qed

lemma ucast_unat: "unat w < 2 ^ LENGTH('b) \<Longrightarrow> unat (ucast (w :: 'a :: len word) :: 'b :: len word) = unat w"
  by (simp add: unsigned_ucast_eq take_bit_nat_eq_self)

text \<open>The leap years up to a year, and the closed form of the days before a year.\<close>

definition leap_years :: "nat \<Rightarrow> nat" where
  "leap_years y = y div 4 - y div 100 + y div 400"

lemma count_step:
  "\<lbrakk>b \<le> a; r \<longrightarrow> q; q \<longrightarrow> p\<rbrakk> \<Longrightarrow> (a + (if p then 1 else 0)) - (b + (if q then 1 else 0)) + (c + (if r then 1 else 0)) =
    a - b + c + (if p \<and> (q \<longrightarrow> r) then 1 else 0)" for a b c :: nat
  by (cases p; cases q; cases r) (simp_all add: Suc_diff_le)

lemma leap_years_Suc: "leap_years (Suc y) = leap_years y + (if leap (Suc y) then 1 else 0)"
proof -
  have s: "Suc y div 4 = y div 4 + (if 4 dvd Suc y then 1 else 0)" "Suc y div 100 = y div 100 + (if 100 dvd Suc y then 1 else 0)"
    "Suc y div 400 = y div 400 + (if 400 dvd Suc y then 1 else 0)" by (simp_all add: div_Suc dvd_eq_mod_eq_0)
  have d: "400 dvd Suc y \<longrightarrow> 100 dvd Suc y" "100 dvd Suc y \<longrightarrow> 4 dvd Suc y"
    using dvd_trans [of 100 400 "Suc y"] dvd_trans [of 4 100 "Suc y"] by simp_all
  show ?thesis unfolding leap_years_def leap_def s by (rule count_step [OF _ d]) (simp add: div_le_mono2)
qed

lemma year_start_closed: "year_start k + 477 = 365 * k + leap_years (1969 + k)"
proof (induction k)
  case (Suc k)
  then show ?case using leap_years_Suc [of "1969 + k"] by (simp add: year_length)
qed (simp add: leap_years_def)

lemma cycles: "c < 33 \<Longrightarrow> year_start (4 * c) = 1461 * c"
proof -
  assume c: "c < 33"
  have 4: "(1969 + 4 * c) div 4 = 492 + c" by (rule div_nat_eqI) simp_all
  have "leap_years (1969 + 4 * c) = 477 + c"
  proof (cases "c < 8")
    case True
    then have "(1969 + 4 * c) div 100 = 19" "(1969 + 4 * c) div 400 = 4" by (auto intro: div_nat_eqI)
    then show ?thesis using 4 by (simp add: leap_years_def)
  next
    case False
    then have "(1969 + 4 * c) div 100 = 20" "(1969 + 4 * c) div 400 = 5" using c by (auto intro: div_nat_eqI)
    then show ?thesis using 4 by (simp add: leap_years_def)
  qed
  then show ?thesis using year_start_closed [of "4 * c"] by simp
qed

lemma year_start_mono: "i \<le> j \<Longrightarrow> year_start i \<le> year_start j"
  by (induction j) (auto simp: le_Suc_eq)

lemma year_start_132: "year_start 132 = 48212" "year_start 133 = 48577"
  using year_start_closed [of 132] year_start_closed [of 133] by (simp_all add: leap_years_def)

lemma month_table: "map unat (if check_leap_year y then Leap_month_day else month_day) = month_lengths (unat y)"
  by (simp add: check_leap Leap_month_day_def month_day_def month_lengths_def)

section \<open>The week day\<close>

definition weekday_sum :: "nat \<Rightarrow> nat \<Rightarrow> nat \<Rightarrow> nat" where
  "weekday_sum y m d = (let (m, y) = (if m = 1 \<or> m = 2 then (m + 12, y - 1) else (m, y))
     in d + 2 * m + 3 * (m + 1) div 5 + y + leap_years y + 1)"

lemma weekday_sum:
  assumes "valid_date y m d"
  shows "weekday_sum y m d mod 7 = (date_day y m d + 4) mod 7"
proof -
  obtain k where y: "y = 1970 + k" using assms by (auto simp: valid_date_def le_iff_add)
  obtain e where d: "d = 1 + e" using assms by (auto simp: valid_date_def le_iff_add)
  have m: "m \<in> {1, 2, 3, 4, 5, 6, 7, 8, 9, 10, 11, 12}" using assms by (simp add: valid_date_def) presburger
  have next_: "leap_years (1970 + k) = leap_years (1969 + k) + (if leap (1970 + k) then 1 else 0)"
    using leap_years_Suc [of "1969 + k"] by simp
  define q where "q = (if m \<le> 2 then 358 - 4 * m else 354 - 4 * m)"
  have "weekday_sum y m d + 364 * k = date_day y m d + 4 + 7 * q"
    using m year_start_closed [of k] next_ unfolding y d
    by (elim insertE emptyE; cases "leap (1970 + k)") (simp_all add: weekday_sum_def date_day_def q_def month_lengths_def)
  then have "weekday_sum y m d + 7 * (52 * k) = date_day y m d + 4 + 7 * q" by simp
  then show ?thesis by (metis mod_mult_self2)
qed

lemma weekday_word:
  fixes d m y :: u32
  assumes "unat d < 256" "unat m < 16" "unat y < 65536"
  shows "unat ((d + 2 * m + 3 * (m + 1) div 5 + y + y div 4 - y div 100 + y div 400 + 1) mod 7) =
    (unat d + 2 * unat m + 3 * (unat m + 1) div 5 + unat y + leap_years (unat y) + 1) mod 7"
proof -
  let ?a = "d + 2 * m + 3 * (m + 1) div 5" and ?A = "unat d + 2 * unat m + 3 * (unat m + 1) div 5"
  have q: "unat (y div 4) = unat y div 4" "unat (y div 100) = unat y div 100" "unat (y div 400) = unat y div 400"
    by (simp_all add: unat_div)
  have m1: "unat (3 * (m + 1)) = 3 * (unat m + 1)" "unat (2 * m) = 2 * unat m"
    using assms(2) by (simp_all add: unat_word_ariths)
  then have m2: "unat (3 * (m + 1) div 5) = 3 * (unat m + 1) div 5" by (simp add: unat_div)
  have a: "unat ?a = ?A" "?A < 300"
    using assms m1 m2 by (simp_all add: unat_word_ariths)
  have b: "unat (?a + y) = ?A + unat y" using a assms(3) by (subst unat_add_lt) simp_all
  have c: "unat (?a + y + y div 4) = ?A + unat y + unat y div 4" using a b q(1) assms(3) by (subst unat_add_lt) simp_all
  have le: "unat y div 100 \<le> ?A + unat y + unat y div 4" by simp
  then have e: "unat (?a + y + y div 4 - y div 100) = ?A + unat y + unat y div 4 - unat y div 100"
    using c q(2) by (subst unat_sub) (simp_all add: word_le_nat_alt)
  have small: "?A + unat y + unat y div 4 - unat y div 100 + unat y div 400 < 300000"
    using a(2) assms(3) div_le_dividend [of "unat y" 4] div_le_dividend [of "unat y" 400] by linarith
  have lt: "unat (?a + y + y div 4 - y div 100) + unat (y div 400) < 2 ^ 32" unfolding e q(3) by (rule less_trans [OF small]) simp
  have f: "unat (?a + y + y div 4 - y div 100 + y div 400) = ?A + unat y + unat y div 4 - unat y div 100 + unat y div 400"
    unfolding e [symmetric] q(3) [symmetric] by (rule unat_add_lt) (use lt in simp)
  have "unat (?a + y + y div 4 - y div 100 + y div 400 + 1) = ?A + unat y + unat y div 4 - unat y div 100 + unat y div 400 + 1"
    unfolding f [symmetric] by (subst unat_add_lt) (use small f in simp_all)
  also have "\<dots> = ?A + unat y + leap_years (unat y) + 1"
    using div_le_mono2 [of 4 100 "unat y"] unfolding leap_years_def by linarith
  finally show ?thesis by (simp add: unat_mod)
qed

lemma cal_weekday_sum:
  assumes "1 \<le> unat (rt_month b)" "unat (rt_month b) \<le> 12" "1970 \<le> unat (rt_year b)"
  shows "unat (rt_week (cal_weekday b)) = weekday_sum (unat (rt_year b)) (unat (rt_month b)) (unat (rt_day b)) mod 7"
proof -
  let ?y = "ucast (rt_year b) :: u32" and ?m = "ucast (rt_month b) :: u32" and ?d = "ucast (rt_day b) :: u32"
  have u: "unat ?y = unat (rt_year b)" "unat ?m = unat (rt_month b)" "unat ?d = unat (rt_day b)"
    using unsigned_less [of "rt_year b", where 'a = nat] unsigned_less [of "rt_month b", where 'a = nat]
      unsigned_less [of "rt_day b", where 'a = nat] by (simp_all add: ucast_unat)
  have b: "unat (rt_year b) < 65536" "unat (rt_day b) < 256"
    using unsigned_less [of "rt_year b", where 'a = nat] unsigned_less [of "rt_day b", where 'a = nat] by simp_all
  have w: "unat (ucast (w mod 7) :: u8) = unat (w mod 7)" for w :: u32
    by (rule ucast_unat) (simp add: unat_mod order.strict_trans [OF mod_less_divisor])
  show ?thesis
  proof (cases "?m = 1 \<or> ?m = 2")
    case True
    then have m: "rt_month b = 1 \<or> rt_month b = 2" using u(2) by (auto simp: word_unat_eq_iff)
    have "unat (?m + 12) = unat (rt_month b) + 12" using u(2) assms(2) by (subst unat_add_lt) simp_all
    moreover have "unat (?y - 1) = unat (rt_year b) - 1" using u(1) assms(3) by (subst unat_sub) (simp_all add: word_le_nat_alt)
    ultimately show ?thesis
      using True m weekday_word [of ?d "?m + 12" "?y - 1"] u(3) b assms(2)
      by (auto simp: cal_weekday_def weekday_sum_def Let_def w)
  next
    case False
    then have m: "unat (rt_month b) \<noteq> 1 \<and> unat (rt_month b) \<noteq> 2" using u(2) by (auto simp: word_unat_eq_iff)
    then show ?thesis
      using False weekday_word [of ?d ?m ?y] u b assms(2) by (simp add: cal_weekday_def weekday_sum_def Let_def w)
  qed
qed

section \<open>The conversion against the calendar\<close>

text \<open>Hours and days after the shift to Beijing.\<close>

lemma time_of_day:
  fixes t :: nat
  defines "h \<equiv> t mod 86400 div 3600 + 8"
  shows "(if h > 23 then t div 86400 + 1 else t div 86400) = (t + 28800) div 86400"
    "(if h > 23 then h - 24 else h) * 3600 + t mod 86400 mod 3600 div 60 * 60 + t mod 86400 mod 3600 mod 60 = (t + 28800) mod 86400"
    "(if h > 23 then h - 24 else h) < 24" "h < 32"
proof -
  define D S where "D = t div 86400" and "S = t mod 86400"
  have t: "t = 86400 * D + S" "S < 86400" by (simp_all add: D_def S_def)
  define H M where "H = S div 3600" and "M = S mod 3600"
  have S: "S = 3600 * H + M" "M < 3600" by (simp_all add: H_def M_def)
  have H: "H < 24" using t(2) by (simp add: H_def less_mult_imp_div_less)
  have h: "h = H + 8" by (simp add: h_def H_def S_def)
  show "h < 32" "(if h > 23 then h - 24 else h) < 24" using H h by (simp, arith)
  have M: "M div 60 * 60 + M mod 60 = M" by simp
  have q: "(86400 * n + r) div 86400 = n \<and> (86400 * n + r) mod 86400 = r" if "r < 86400" for n r :: nat
    using that by simp
  have *: "(t + 28800) div 86400 = (if h > 23 then D + 1 else D) \<and>
      (t + 28800) mod 86400 = (if h > 23 then S - 57600 else S + 28800)"
  proof (cases "h > 23")
    case True
    then have "57600 \<le> S" using S h by simp
    then have "t + 28800 = 86400 * (D + 1) + (S - 57600)" "S - 57600 < 86400" using t by simp_all
    then show ?thesis using True q [of "S - 57600" "D + 1"] by (simp only: if_True simp_thms)
  next
    case False
    then have "t + 28800 = 86400 * D + (S + 28800)" "S + 28800 < 86400" using t S h by simp_all
    then show ?thesis using False q [of "S + 28800" D] by (simp only: if_False simp_thms)
  qed
  then show "(if h > 23 then t div 86400 + 1 else t div 86400) = (t + 28800) div 86400" by (simp add: D_def)
  have "(if h > 23 then h - 24 else h) * 3600 + M = (if h > 23 then S - 57600 else S + 28800)"
    using S h by (simp add: algebra_simps)
  then show "(if h > 23 then h - 24 else h) * 3600 + t mod 86400 mod 3600 div 60 * 60 + t mod 86400 mod 3600 mod 60 = (t + 28800) mod 86400"
    using * M by (simp add: M_def S_def)
qed

lemma date_of_days_ok:
  assumes "unat days < 48213"
  shows "\<exists>y m d. date_of_days days = Some (y, m, d) \<and> unat m < 12 \<and> unat d \<le> 31 \<and>
    valid_date (unat y) (unat m + 1) (unat d) \<and> date_day (unat y) (unat m + 1) (unat d) = unat days"
proof -
  define c where "c = unat days div 1461"
  have c: "c < 33" using assms by (simp add: c_def less_mult_imp_div_less)
  have F: "unat FOUR_YEAR_DAY = 1461" by (simp add: FOUR_YEAR_DAY_def)
  have y0: "unat (ucast (1970 + (days div FOUR_YEAR_DAY) * 4) :: u16) = 1970 + 4 * c"
  proof -
    have "unat (days div FOUR_YEAR_DAY) = c" by (simp add: unat_div F c_def)
    then have "unat (1970 + (days div FOUR_YEAR_DAY) * 4) = 1970 + 4 * c" using c by (simp add: unat_word_ariths)
    then show ?thesis using c by (subst ucast_unat) simp_all
  qed
  have r0: "unat (ucast (days mod FOUR_YEAR_DAY) :: u16) = unat days mod 1461"
    using mod_less_divisor [of 1461 "unat days"] by (subst ucast_unat) (simp_all add: unat_mod F)
  obtain y r where yr: "year_loop (ucast (1970 + (days div FOUR_YEAR_DAY) * 4)) (ucast (days mod FOUR_YEAR_DAY)) = (y, r)"
    by (cases "year_loop (ucast (1970 + (days div FOUR_YEAR_DAY) * 4)) (ucast (days mod FOUR_YEAR_DAY))") auto
  have "unat days mod 1461 < 1461" by simp
  then have "year_start (unat y - 1970) + unat r = year_start (4 * c) + unat days mod 1461" "unat r < year_length (unat y)" "1970 \<le> unat y"
    using year_loop_ok [OF _ _ yr] c unfolding y0 r0 by fastforce+
  then have y: "year_start (unat y - 1970) + unat r = unat days" "unat r < year_length (unat y)" "1970 \<le> unat y"
    using cycles [OF c] by (simp_all add: c_def)
  let ?p = "if check_leap_year y then Leap_month_day else month_day"
  have p: "length ?p = 12" "map unat ?p = month_lengths (unat y)" by (simp add: Leap_month_day_def month_day_def) (rule month_table)
  have r1: "unat (r + 1) = unat r + 1" using y(2) by (subst unat_add_lt) (simp_all add: year_length split: if_splits)
  obtain m d where md: "month_loop ?p 0 (r + 1) = Some (m, d)" "unat m < 12" "1 \<le> unat d" "unat d \<le> unat (?p ! unat m)"
    "sum_list (take (unat m) (map unat ?p)) + unat d = unat r + 1"
    using month_loop_ok [OF p(1), of 0 "r + 1"] r1 y(2) p(2) by (auto simp: year_length_def)
  have l: "unat (?p ! unat m) = month_lengths (unat y) ! unat m" using p md(2) by (metis nth_map)
  have "month_lengths (unat y) ! unat m \<le> 31"
  proof -
    have "\<forall>x \<in> set (month_lengths (unat y)). x \<le> 31" by (simp add: month_lengths_def)
    moreover have "length (month_lengths (unat y)) = 12" by (simp add: month_lengths_def)
    ultimately show ?thesis using md(2) by simp
  qed
  then have "unat d \<le> 31" "valid_date (unat y) (unat m + 1) (unat d)" using md(2-4) y(3) l by (simp_all add: valid_date_def)
  moreover have "date_day (unat y) (unat m + 1) (unat d) = unat days"
    using md(3,5) y(1) p(2) by (simp add: date_day_def)
  ultimately show ?thesis using yr md(1,2) by (simp add: date_of_days_def)
qed

section \<open>Properties\<close>

text \<open>
  C26: For every time up to the end of 1 January 2102 (Beijing time) the conversion returns the date and
  time of day of that second: the date is valid, counting the days from 1970 to it in the calendar
  gives back the days of the second, the time of day gives back the rest, and the week day is right.
\<close>
theorem unixtime_date:
  assumes "unat t + 8 * 3600 < 48213 * 86400"
  shows "\<exists>r. unixtime2bejingtime t b = Some r \<and>
    valid_date (unat (rt_year r)) (unat (rt_month r)) (unat (rt_day r)) \<and>
    unat (rt_hour r) < 24 \<and> unat (rt_minute r) < 60 \<and> unat (rt_second r) < 60 \<and>
    date_day (unat (rt_year r)) (unat (rt_month r)) (unat (rt_day r)) * 86400 +
      unat (rt_hour r) * 3600 + unat (rt_minute r) * 60 + unat (rt_second r) = unat t + 8 * 3600 \<and>
    unat (rt_week r) = (date_day (unat (rt_year r)) (unat (rt_month r)) (unat (rt_day r)) + 4) mod 7"
proof -
  define S where "S = t mod SEC_NUM_PER_DAY"
  define h0 where "h0 = (ucast (S div SEC_NUM_PER_HOUR) + 8 :: u8)"
  define hour where "hour = (if h0 > 23 then h0 - 24 else h0)"
  define days where "days = (if h0 > 23 then t div SEC_NUM_PER_DAY + 1 else t div SEC_NUM_PER_DAY)"
  define mi where "mi = (ucast ((S mod SEC_NUM_PER_HOUR) div SEC_NUM_PER_MINUTE) :: u8)"
  define se where "se = (ucast ((S mod SEC_NUM_PER_HOUR) mod SEC_NUM_PER_MINUTE) :: u8)"
  note secs = SEC_NUM_PER_DAY_def SEC_NUM_PER_HOUR_def SEC_NUM_PER_MINUTE_def
  let ?T = "unat t"
  note tod = time_of_day [of ?T]
  have uS: "unat S = ?T mod 86400" by (simp add: S_def secs unat_mod)
  have sdiv: "?T mod 86400 div 3600 < 24" by (simp add: less_mult_imp_div_less)
  have uh: "unat h0 = ?T mod 86400 div 3600 + 8"
  proof -
    have "unat (S div SEC_NUM_PER_HOUR) = ?T mod 86400 div 3600" by (simp add: unat_div secs uS)
    then have "unat (ucast (S div SEC_NUM_PER_HOUR) :: u8) = ?T mod 86400 div 3600" using sdiv by (subst ucast_unat) simp_all
    then show ?thesis unfolding h0_def using sdiv by (subst unat_add_lt) simp_all
  qed
  have late: "h0 > 23 \<longleftrightarrow> ?T mod 86400 div 3600 + 8 > 23" using uh by (simp add: word_less_nat_alt)
  have uhour: "unat hour = (if ?T mod 86400 div 3600 + 8 > 23 then ?T mod 86400 div 3600 + 8 - 24 else ?T mod 86400 div 3600 + 8)"
    unfolding hour_def late using uh by (simp add: unat_sub word_le_nat_alt)
  have umi: "unat mi = ?T mod 86400 mod 3600 div 60"
  proof -
    have "unat ((S mod SEC_NUM_PER_HOUR) div SEC_NUM_PER_MINUTE) = ?T mod 86400 mod 3600 div 60" by (simp add: unat_div unat_mod secs uS)
    moreover have "?T mod 86400 mod 3600 div 60 < 60" by (rule less_mult_imp_div_less) simp
    ultimately show ?thesis unfolding mi_def by (subst ucast_unat) simp_all
  qed
  have use: "unat se = ?T mod 86400 mod 3600 mod 60"
  proof -
    have "unat ((S mod SEC_NUM_PER_HOUR) mod SEC_NUM_PER_MINUTE) = ?T mod 86400 mod 3600 mod 60" by (simp add: unat_mod secs uS)
    moreover have "?T mod 86400 mod 3600 mod 60 < 60" by simp
    ultimately show ?thesis unfolding se_def by (subst ucast_unat) simp_all
  qed
  have udays: "unat days = (?T + 28800) div 86400"
  proof -
    have d: "unat (t div SEC_NUM_PER_DAY) = ?T div 86400" by (simp add: unat_div secs)
    have "?T div 86400 < 50000" using unsigned_less [of t, where 'a = nat] by (simp add: less_mult_imp_div_less)
    then have "unat (t div SEC_NUM_PER_DAY + 1) = ?T div 86400 + 1" using d by (subst unat_add_lt) simp_all
    then show ?thesis unfolding days_def late tod(1) [symmetric] using d by simp
  qed
  have "unat days < 48213" unfolding udays using assms by (intro less_mult_imp_div_less) simp
  then obtain y m d where date: "date_of_days days = Some (y, m, d)" "unat m < 12" "unat d \<le> 31"
    "valid_date (unat y) (unat m + 1) (unat d)" "date_day (unat y) (unat m + 1) (unat d) = unat days"
    using date_of_days_ok by blast
  let ?b = "b\<lparr>rt_year := y, rt_month := m + 1, rt_day := ucast d, rt_hour := hour, rt_minute := mi, rt_second := se\<rparr>"
  have m1: "unat (m + 1) = unat m + 1" using date(2) by (subst unat_add_lt) simp_all
  have d1: "unat (ucast d :: u8) = unat d" using date(3) by (subst ucast_unat) simp_all
  have "unixtime2bejingtime t b = (case date_of_days days of None \<Rightarrow> None | Some (year, month, day) \<Rightarrow>
      Some (cal_weekday (b\<lparr>rt_year := year, rt_month := month + 1, rt_day := ucast day,
               rt_hour := hour, rt_minute := mi, rt_second := se\<rparr>)))"
    unfolding unixtime2bejingtime_def Let_def
    by (simp add: S_def [symmetric] h0_def [symmetric] mi_def [symmetric] se_def [symmetric] hour_def days_def split: option.splits prod.splits)
  then have run: "unixtime2bejingtime t b = Some (cal_weekday ?b)" using date(1) by simp
  have keep: "rt_year (cal_weekday ?b) = y" "rt_month (cal_weekday ?b) = m + 1" "rt_day (cal_weekday ?b) = ucast d"
    "rt_hour (cal_weekday ?b) = hour" "rt_minute (cal_weekday ?b) = mi" "rt_second (cal_weekday ?b) = se"
    by (simp_all add: cal_weekday_def Let_def split: prod.splits)
  have week: "unat (rt_week (cal_weekday ?b)) = (date_day (unat y) (unat m + 1) (unat d) + 4) mod 7"
    using cal_weekday_sum [of ?b] weekday_sum [OF date(4)] date(2,4) m1 d1 by (simp add: valid_date_def)
  have total: "date_day (unat y) (unat m + 1) (unat d) * 86400 + unat hour * 3600 + unat mi * 60 + unat se = ?T + 8 * 3600"
    using tod(2) unfolding date(5) udays uhour umi use using div_mult_mod_eq [of "?T + 28800" 86400] by linarith
  have small: "unat hour < 24" "unat mi < 60" "unat se < 60"
    using tod(3) by (simp_all only: uhour umi use) (simp_all add: less_mult_imp_div_less)
  show ?thesis
    using run week total date(4) small by (intro exI [of _ "cal_weekday ?b"]) (simp add: keep m1 d1)
qed

theorem unixtime_date_witness:
  "\<exists>r. unixtime2bejingtime 1700000000
      \<lparr>rt_year = 0, rt_month = 0, rt_day = 0, rt_week = 0, rt_hour = 0, rt_minute = 0, rt_second = 0\<rparr> = Some r \<and>
    date_day (unat (rt_year r)) (unat (rt_month r)) (unat (rt_day r)) * 86400 +
      unat (rt_hour r) * 3600 + unat (rt_minute r) * 60 + unat (rt_second r) = 1700028800"
  using unixtime_date [of 1700000000
    "\<lparr>rt_year = 0, rt_month = 0, rt_day = 0, rt_week = 0, rt_hour = 0, rt_minute = 0, rt_second = 0\<rparr>"] by auto

text \<open>From then on every date is one day late: 2 January 2102 becomes 1 January again.\<close>

lemma date_after_2102: "date_of_days 48212 = Some (2102, 0, 1)" "date_of_days 48213 = Some (2102, 0, 1)"
  by (simp_all add: date_of_days_def FOUR_YEAR_DAY_def year_loop.simps month_loop.simps year_days_def check_leap_year_def
      month_day_def)

end
