(* ===== verification/Spec2Isabelle.thy ===== *)
theory Spec2Isabelle
  imports Prelude SoftCrc Partition Flash NorSim FlashInit ShaEngine RingBuffer MediaRead EflashLoader Transport BootParser MediaBoot SecureBoot BootMain OtaBoot Update TrainSystem Motor MemRequests SList Device Timestamp
begin

text \<open>
  A verification library for the firmware of a Lego train built on the BL702, a 32-bit RISC-V
  microcontroller with Bluetooth Low Energy (all paths below are under \<open>src/firmware\<close>).

  \<^bold>\<open>The program.\<close>  Three programs share one library.  The \<^emph>\<open>train\<close> (\<open>examples/lego_train\<close>) is a BLE
  peripheral; the only command it takes restarts it into the boot loader.  The \<^emph>\<open>remote control\<close>
  (\<open>examples/lego_train_controller\<close>) scans for a train, connects, finds the handles of its service and
  writes a request; its button then changes an advertised speed.  The \<^emph>\<open>boot loader\<close>
  (\<open>examples/robot_bootloader\<close>) runs first after every reset: it waits a short time for a handshake
  on UART or BLE and serves the download protocol when one comes; otherwise it reads the partition
  table, finishes a pending over-the-air update by copying the image to the other slot, checks the
  image (checksums, SHA-256, key digest) and jumps into it.  All of them use the code under \<open>common\<close>
  (partition table, ring buffer, checksums, memory manager, device registry) and the serial flash
  driver of the chip.

  \<^bold>\<open>Theories, in the order of their imports.\<close>
  \<^item> \<open>Prelude\<close>: C integers as words, byte strings with little-endian fields, their lemmas.
  \<^item> \<open>SoftCrc\<close> (\<open>common/soft_crc/softcrc.c\<close>): table-driven CRC-32 and CRC-16.  The locale \<open>crc_table\<close>
    relates a table to the bit step once for both widths; the routines equal the bitwise reference,
    and CRC-32 detects every error confined to one byte.
  \<^item> \<open>Partition\<close> (\<open>common/partition/partition.c\<close>): both flash copies of the partition table, look-up,
    update, erase, in-application update.  A table is the byte string that the code overlays with
    structures.  The flash is a record of functions over an arbitrary device state; what the code
    relies on is the locale \<open>flash_device\<close>.
  \<^item> \<open>Flash\<close> (\<open>bl702_sflash.c\<close>, \<open>bl702_xip_sflash.c\<close>, \<open>hal_flash.c\<close>): status polling, write enable, the
    erase loop over three block sizes, page-split programming, buffered reads.  The SPI controller is
    a parameter and the chip's data sheet the locale \<open>nor_chip\<close>; the \<open>sublocale\<close> at its end is the
    proof that driver and chip together give \<open>flash_device\<close>.
  \<^item> \<open>NorSim\<close>: a chip that meets \<open>nor_chip\<close>, for the witnesses, and the properties of the table: an
    update, whatever its outcome, leaves the active table intact; a successful one selects the other.
  \<^item> \<open>FlashConfig\<close> (\<open>bl702_sf_cfg.c\<close>, \<open>bl702_sf_cfg_ext.c\<close>): the 22 chip configurations, the JEDEC id tables and
    the configuration stored in the boot header; \<open>cfg_sound\<close> is what the driver needs of one, and
    every entry of the tables has it.
  \<^item> \<open>FlashModes\<close> (\<open>bl702_sflash.c\<close>, \<open>bl702_xip_sflash.c\<close>, \<open>hal_flash.c\<close>, parts of \<open>bl702_sf_ctrl.c\<close> and
    \<open>bl702_l1c.c\<close>): the mode commands, the registers of the controller and the cache, and the
    sequences that take the flash from the running program and hand it back.  The locale
    \<open>ctrl_embed\<close> lifts every operation of \<open>Flash\<close> to the whole state; with it the entry points with
    all sequences refine the table's contract again and hand the flash back as it was.
  \<^item> \<open>FlashStatus\<close> (\<open>bl702_sflash_ext.c\<close>): quad enable, write protection and clearing of the status
    registers, on any chip with the two registers of \<open>status_chip\<close>.
  \<^item> \<open>FlashInit\<close> (\<open>hal_flash.c\<close>): the start of the driver, which identifies the chip, the cache set-up and
    the identification over the pins.
  \<^item> \<open>Sha256\<close>, \<open>MbedSha\<close> (\<open>components/mbedtls/library/sha256.c\<close>), \<open>ShaEngine\<close> (\<open>bl702_sec_eng.c\<close>,
    \<open>hal_sec_hash.c\<close>): the two ways to compute a digest, in hardware and in software.  Absorbing a
    message in pieces, counting its length and padding it are proved once; the engine's manual is the
    locale \<open>sha_engine\<close>.  Both give the digest of the padded message, hence the same one.
  \<^item> \<open>RingBuffer\<close> (\<open>common/ring_buffer/ring_buffer.c\<close>): the ring with its mirrored indices refines a
    bounded queue (locale \<open>byte_queue\<close>); every interleaving of reads and writes is FIFO.
  \<^item> \<open>MediaRead\<close> (\<open>blsp_media_boot.c\<close>): reads through the address of the memory-mapped flash.
  \<^item> \<open>EflashLoader\<close> (\<open>bflb_eflash_loader_cmds.c\<close>, \<open>bflb_eflash_loader_interface.c\<close>): each command of the
    download protocol, the frame check, dispatch and the command loop.
  \<^item> \<open>Transport\<close> (\<open>bflb_eflash_loader_uart.c\<close>, \<open>bflb_eflash_loader_ble.c\<close>): reception in pieces into the
    shared buffers, handshake and answers.  Reassembly is proved once in the locale \<open>frame_buffer\<close>.
  \<^item> \<open>BootParser\<close>, \<open>MediaBoot\<close> (\<open>blsp_boot_parser.c\<close>, \<open>blsp_media_boot.c\<close>, parts of \<open>blsp_common.c\<close> and
    \<open>blsp_port.c\<close>): header, keys, signature, hash, roll-back, AES regions and the jump.
  \<^item> \<open>SecureBoot\<close>: what booting guarantees on a device fused for signed images, and what it does not.
  \<^item> \<open>BootMain\<close>, \<open>OtaBoot\<close> (\<open>robot_bootloader/main.c\<close>): choosing the firmware, copying an update, the
    loops of \<open>main_task\<close>; then the whole way of an update over two passes of the loop.
  \<^item> \<open>Train\<close> (\<open>lego_train/ble_app.c\<close>, idle hook of \<open>main.c\<close>), \<open>Update\<close> (how a restart opens the download
    window), \<open>Controller\<close> (\<open>lego_train_controller/ble_app.c\<close>), \<open>TrainSystem\<close> (both programs in one
    inductive transition relation), \<open>Motor\<close> (\<open>lego_train/motor.c\<close>).
  \<^item> \<open>MemHeap\<close>, \<open>MemAlloc\<close>, \<open>MemRealloc\<close>, \<open>MemRequests\<close> (\<open>common/memheap/drv_mmheap.c\<close>): the memory manager
    behind \<open>malloc\<close>: operations and free chain; the invariant (free and used blocks tile the region,
    free blocks never touch); \<open>realloc\<close>; and the contract of an allocator as the locale \<open>allocator\<close>,
    with any session of requests as its client.
  \<^item> \<open>DList\<close>, \<open>SList\<close> (\<open>common/list/drv_list.h\<close>): the linked lists; each function acts on the list of nodes as
    the list function it stands for.
  \<^item> \<open>Device\<close> (\<open>common/device/drv_device.c\<close>): the registry of named devices over \<open>DList\<close>, as a list in
    which the newest entry wins, and the protocol in which drivers are called.
  \<^item> \<open>Timestamp\<close> (\<open>common/timestamp/timestamp.c\<close>): seconds to date, against a calendar that counts days.

  \<^bold>\<open>How state and code correspond.\<close>  Static variables and structures are records with the fields of
  the C types; a function takes the state and returns it updated.  A C return code stays a code; an
  access outside an object, a call through a null pointer or a loop that does not return is \<open>None\<close> (or
  a constructor named \<open>Undef\<close>).  Interrupts and callbacks are explicit lists of events, put into the
  time slots in which the code waits.  Integers are words of the width of the C type, so sums wrap.

  \<^bold>\<open>Kinds of properties.\<close>  For each component its invariant or abstract specification (queue, NOR
  contract, table contract, allocator), the effect of its operations on every branch, and what the
  components do together: update safety and effect, the boot chain from flash to jump, the download
  from frame to flash, the two BLE programs against each other.  Where the code does not do what it
  means to, the property states what it does.  Each property with a hypothesis is followed by a
  witness that applies it to concrete data: the simulated chip, a signed image, a concrete heap.

  \<^bold>\<open>Parameters and hypotheses.\<close>  SPI controller and flash chip (\<open>nor_chip\<close>, \<open>flash_device\<close>,
  \<open>xip_device\<close>: the data sheet of a NOR flash; \<open>status_chip\<close>: its status registers; \<open>prompt_ctrl\<close>: the
  controller gets idle before the driver's time-out), SHA-256 and ECDSA engines (in the boot
  chain arbitrary functions of their input; that the hash device computes such a function is
  \<open>ShaEngine\<close>, where the engine's manual is the locale \<open>sha_engine\<close>), fuses and chip id (fields of
  the environment), answers of the BLE host stack (events).

  \<^bold>\<open>Bounds and fuel.\<close>  The main loop of the boot loader is bounded by fuel, \<open>MFuel\<close> when it is used up:
  the properties state the number of passes they need (two for an update).  The search loop of the
  controller takes its answers from a finite list and ends with it.  Loops that may not end are
  \<open>partial_function (option)\<close>: the erase loop, the pieces of a BLE answer, and the walks along the free
  chain; where a property needs them to end, that is proved.  The remaining loops have a measure.

  \<^bold>\<open>Not modelled.\<close>  Third-party code (BLE host, FreeRTOS, mbed TLS, USB stack, XZ decoder), the chip
  vendor's register drivers apart from the serial flash path, pin and clock set-up, printing, the
  floating-point controller of the robot variant.  Of the modelled files: the low-power entry of the
  idle hook, the start-up of the BLE stack, decompression (compiled but switched off), and of the
  flash controller its clock, pads, PSRAM and AES keys.  Data races between tasks are not modelled: a callback runs to its end.

  \<^bold>\<open>Open ends.\<close>  The vendor's ECDSA driver (sequences of register accesses to the public-key engine)
  and the power-management tables of \<open>hal_pm.c\<close> would be the next parts to model.
\<close>

end
